(* ===== verification/Core_Prelude.thy ===== *)
theory Core_Prelude
  imports Main "HOL-Library.Word" "HOL-Library.Sublist"
begin

unbundle bit_operations_syntax

section \<open>Prelude: machine types, errors, results and byte encodings\<close>

text \<open>
  The types and helpers every component of the development shares:
  machine integers at their width, byte buffers, the error type of
  \<^verbatim>\<open>crates/filesec-core/src/error.rs\<close>, the \<open>Result\<close> type as a sum
  with its bind, fixed-width integer encodings (\<open>to_le_bytes\<close>, \<open>to_be_bytes\<close>),
  and a locale of self-delimiting encodings that the hash and associated-data
  layouts of the components instantiate.

  Rust's \<open>String\<close> and \<open>str\<close> are UTF-8 byte sequences and are modelled as
  Isabelle's \<open>string\<close>, whose characters are bytes; \<open>length\<close> is then Rust's
  \<open>len\<close> in bytes.
\<close>

subsection \<open>Types\<close>

type_synonym byte = "8 word"
type_synonym bytes = "8 word list"
type_synonym u8 = "8 word"
type_synonym u16 = "16 word"
type_synonym u32 = "32 word"
type_synonym u64 = "64 word"

named_theorems result_simps \<open>rewriting of binds over the sum type of results\<close>
named_theorems layout_simps \<open>lengths of byte layouts\<close>

subsection \<open>Errors\<close>

text \<open>
  \<open>Error\<close> of error.rs with its constructors. An \<open>io::Error\<close> has a kind and may
  carry another error (\<open>io::Error::new(InvalidData, e)\<close> in the stream readers).
\<close>

datatype io_kind = NotFound | AlreadyExists | UnexpectedEof | InvalidData | OtherIo

datatype error =
    Rng
  | Auth
  | BadPassphrase
  | Format string
  | UnsupportedSuite u16
  | BadSignature
  | NotARecipient
  | BadKey string
  | Serialization
  | Kdf
  | KdfParams string
  | RollbackDetected string
  | StateMismatch string
  | LegacyState string
  | UnsafePath string
  | ExtractionConflict string
  | Io io_error
  | Vault string
  | MissingPqcKey string
  | PeerIdentityMismatch
  | TransferSecretMismatch
  | HandshakeProtocol string
and io_error = IoKind io_kind | IoWrapped io_kind error

type_synonym 'a result = "error + 'a"

subsection \<open>Results\<close>

definition rbind :: "('e + 'a) \<Rightarrow> ('a \<Rightarrow> 'e + 'b) \<Rightarrow> 'e + 'b" where
  "rbind m f = (case m of Inl e \<Rightarrow> Inl e | Inr x \<Rightarrow> f x)"

definition ok_or :: "'e \<Rightarrow> 'a option \<Rightarrow> 'e + 'a" where
  "ok_or e m = (case m of None \<Rightarrow> Inl e | Some x \<Rightarrow> Inr x)"

definition map_err :: "('e \<Rightarrow> 'f) \<Rightarrow> 'e + 'a \<Rightarrow> 'f + 'a" where
  "map_err f m = (case m of Inl e \<Rightarrow> Inl (f e) | Inr x \<Rightarrow> Inr x)"

definition is_ok :: "'e + 'a \<Rightarrow> bool" where
  "is_ok m = (case m of Inl _ \<Rightarrow> False | Inr _ \<Rightarrow> True)"

lemma rbind_Inl [simp]: "rbind (Inl e) f = Inl e"
  and rbind_Inr [simp]: "rbind (Inr x) f = f x"
  by (simp_all add: rbind_def)

lemma rbind_eq_Inr [result_simps]: "rbind m f = Inr y \<longleftrightarrow> (\<exists>x. m = Inr x \<and> f x = Inr y)"
  by (cases m) auto

lemma rbind_eq_Inl [result_simps]:
  "rbind m f = Inl e \<longleftrightarrow> m = Inl e \<or> (\<exists>x. m = Inr x \<and> f x = Inl e)"
  by (cases m) auto

lemma rbind_split_asm: "P (rbind m f) \<longleftrightarrow> \<not> ((\<exists>e. m = Inl e \<and> \<not> P (Inl e)) \<or> (\<exists>x. m = Inr x \<and> \<not> P (f x)))"
  by (cases m) auto

lemma ok_or_simps [simp]: "ok_or e None = Inl e" "ok_or e (Some x) = Inr x"
  by (simp_all add: ok_or_def)

lemma ok_or_eq_Inr [result_simps]: "ok_or e m = Inr x \<longleftrightarrow> m = Some x"
  by (cases m) auto

lemma map_err_simps [simp]: "map_err f (Inl e) = Inl (f e)" "map_err f (Inr x) = Inr x"
  by (simp_all add: map_err_def)

lemma map_err_eq_Inr [result_simps]: "map_err f m = Inr x \<longleftrightarrow> m = Inr x"
  by (cases m) auto

lemma is_ok_simps [simp]: "is_ok (Inl e) = False" "is_ok (Inr x) = True"
  by (simp_all add: is_ok_def)

lemma is_ok_iff: "is_ok m \<longleftrightarrow> (\<exists>x. m = Inr x)"
  by (cases m) auto

lemma if_Inl_eq_Inr [result_simps]:
  "(if b then Inl e else m) = Inr x \<longleftrightarrow> \<not> b \<and> m = Inr x"
  by auto

text \<open>Running a fallible step over a list, stopping at the first error (\<open>for x in xs { f(x)?; }\<close>).\<close>

fun rfold :: "('a \<Rightarrow> 's \<Rightarrow> 'e + 's) \<Rightarrow> 'a list \<Rightarrow> 's \<Rightarrow> 'e + 's" where
  "rfold f [] s = Inr s"
| "rfold f (x # xs) s = rbind (f x s) (rfold f xs)"

lemma rfold_append: "rfold f (xs @ ys) s = rbind (rfold f xs s) (rfold f ys)"
  by (induction xs arbitrary: s) (auto simp: rbind_def split: sum.splits)

lemma rfold_invariant:
  assumes "\<And>x s s'. x \<in> set xs \<Longrightarrow> P s \<Longrightarrow> f x s = Inr s' \<Longrightarrow> P s'"
    and "P s" and "rfold f xs s = Inr s'"
  shows "P s'"
  using assms
proof (induction xs arbitrary: s)
  case Nil
  then show ?case by simp
next
  case (Cons x xs)
  from Cons.prems(3) obtain s1 where s1: "f x s = Inr s1" "rfold f xs s1 = Inr s'"
    by (auto simp: result_simps)
  from Cons.prems(1) [OF _ Cons.prems(2) s1(1)] have "P s1" by simp
  then show ?case
  proof (rule Cons.IH [rotated])
    show "rfold f xs s1 = Inr s'" by (rule s1(2))
  qed (use Cons.prems(1) in auto)
qed

subsection \<open>Checked machine arithmetic\<close>

definition checked_add :: "'a::len word \<Rightarrow> 'a word \<Rightarrow> 'a word option" where
  "checked_add a b = (if unat a + unat b < 2 ^ LENGTH('a) then Some (a + b) else None)"

definition checked_mul :: "'a::len word \<Rightarrow> 'a word \<Rightarrow> 'a word option" where
  "checked_mul a b = (if unat a * unat b < 2 ^ LENGTH('a) then Some (a * b) else None)"

definition saturating_add :: "'a::len word \<Rightarrow> 'a word \<Rightarrow> 'a word" where
  "saturating_add a b = (case checked_add a b of Some c \<Rightarrow> c | None \<Rightarrow> - 1)"

lemma checked_add_eq_Some:
  "checked_add a b = Some c \<longleftrightarrow> unat a + unat b < 2 ^ LENGTH('a) \<and> c = a + (b :: 'a::len word)"
  by (auto simp: checked_add_def)

lemma unat_checked_add: "checked_add a b = Some c \<Longrightarrow> unat c = unat a + unat (b :: 'a::len word)"
  by (auto simp: checked_add_eq_Some unat_word_ariths)

lemma unat_checked_mul: "checked_mul a b = Some c \<Longrightarrow> unat c = unat a * unat (b :: 'a::len word)"
  by (auto simp: checked_mul_def unat_word_ariths split: if_splits)

lemma saturating_add_one:
  "(a :: u64) < b \<Longrightarrow> saturating_add a 1 = a + 1 \<and> unat (a + 1) = unat a + 1"
proof -
  assume "a < b"
  then have "unat a < unat b" by (simp add: word_less_nat_alt)
  moreover have "unat b < 2 ^ 64" using unsigned_less [of b, where ?'a = nat] by simp
  ultimately have "unat a + 1 < 2 ^ 64" by linarith
  then show ?thesis by (simp add: saturating_add_def checked_add_def unat_word_ariths)
qed

abbreviation len64 :: "'a list \<Rightarrow> u64" where
  "len64 xs \<equiv> of_nat (length xs)"

lemma unat_len64 [simp]: "length xs < 2 ^ 64 \<Longrightarrow> unat (len64 xs) = length xs"
  by (simp add: unat_of_nat)

subsection \<open>Fixed-width integer encodings\<close>

definition to_le_bytes :: "'a::len word \<Rightarrow> bytes" where
  "to_le_bytes w = map (\<lambda>i. ucast (drop_bit (8 * i) w)) [0..<LENGTH('a) div 8]"

definition to_be_bytes :: "'a::len word \<Rightarrow> bytes" where
  "to_be_bytes w = rev (to_le_bytes w)"

lemma length_to_le_bytes [simp, layout_simps]: "length (to_le_bytes (w :: 'a::len word)) = LENGTH('a) div 8"
  by (simp add: to_le_bytes_def)

lemma length_to_be_bytes [simp, layout_simps]: "length (to_be_bytes (w :: 'a::len word)) = LENGTH('a) div 8"
  by (simp add: to_be_bytes_def)

lemma to_le_bytes_inj:
  fixes v w :: "'a::len word"
  assumes eq: "to_le_bytes v = to_le_bytes w" and width: "8 dvd LENGTH('a)"
  shows "v = w"
proof (rule bit_word_eqI)
  fix n assume n: "n < LENGTH('a)"
  let ?i = "n div 8"
  from n width have i: "?i < LENGTH('a) div 8"
    by (auto simp: dvd_def)
  have "to_le_bytes v ! ?i = to_le_bytes w ! ?i" by (simp add: eq)
  then have "(ucast (drop_bit (8 * ?i) v) :: byte) = ucast (drop_bit (8 * ?i) w)"
    using i by (simp add: to_le_bytes_def)
  then have "bit (ucast (drop_bit (8 * ?i) v) :: byte) (n mod 8)
             = bit (ucast (drop_bit (8 * ?i) w) :: byte) (n mod 8)" by simp
  then show "bit v n = bit w n"
    by (simp add: bit_simps)
qed

lemma to_be_bytes_inj:
  fixes v w :: "'a::len word"
  assumes "to_be_bytes v = to_be_bytes w" and "8 dvd LENGTH('a)"
  shows "v = w"
  using assms by (auto simp: to_be_bytes_def intro: to_le_bytes_inj)

definition from_be_bytes :: "bytes \<Rightarrow> 'a::len word" where
  "from_be_bytes bs = foldl (\<lambda>acc b. push_bit 8 acc OR ucast b) 0 bs"

lemma from_be_bytes_loop:
  fixes w acc :: "'a::len word"
  shows "foldl (\<lambda>acc b. push_bit 8 acc OR ucast b) acc (rev (map (\<lambda>i. ucast (drop_bit (8 * i) w) :: byte) [0..<n]))
    = push_bit (8 * n) acc OR take_bit (8 * n) w"
proof (induction n arbitrary: acc)
  case (Suc n)
  have "push_bit (8 * n) (push_bit 8 acc OR ucast (ucast (drop_bit (8 * n) w) :: byte)) OR take_bit (8 * n) w
      = push_bit (8 * Suc n) acc OR take_bit (8 * Suc n) w"
    by (rule bit_word_eqI) (auto simp: bit_simps add.commute)
  then show ?case by (simp add: Suc)
qed simp

lemma from_be_bytes_to_be_bytes:
  "LENGTH('a) mod 8 = 0 \<Longrightarrow> from_be_bytes (to_be_bytes (w :: 'a::len word)) = w"
  using from_be_bytes_loop [of 0 w "LENGTH('a) div 8"]
  by (simp add: from_be_bytes_def to_be_bytes_def to_le_bytes_def take_bit_word_eq_self dvd_mult_div_cancel mod_eq_0_iff_dvd)

lemma from_be_bytes_words [simp]:
  "from_be_bytes (to_be_bytes (a :: u16)) = a" "from_be_bytes (to_be_bytes (b :: u32)) = b"
  by (simp_all add: from_be_bytes_to_be_bytes)

subsection \<open>Self-delimiting encodings\<close>

text \<open>
  The byte layouts that are hashed, signed or bound as associated data are
  concatenations of fields. What such a layout relies on is that a field can be
  read off the front of the buffer in one way only. The locale states that law
  for one encoder and proves what follows for sequences of fields; the
  length-prefixed fields of state.rs and the fixed-width fields interpret it.
\<close>

locale self_delimiting =
  fixes enc :: "'a \<Rightarrow> 'b list" and ok :: "'a \<Rightarrow> bool"
  assumes delimited: "ok x \<Longrightarrow> ok y \<Longrightarrow> enc x @ r = enc y @ s \<Longrightarrow> x = y \<and> r = s"
begin

lemma field_cancel: "ok x \<Longrightarrow> ok y \<Longrightarrow> enc x @ r = enc y @ s \<longleftrightarrow> x = y \<and> r = s"
  using delimited by blast

lemma field_inj: "ok x \<Longrightarrow> ok y \<Longrightarrow> enc x = enc y \<Longrightarrow> x = y"
  using delimited [of x y "[]" "[]"] by simp

lemma fields_inj:
  assumes "\<forall>x\<in>set xs. ok x" and "\<forall>y\<in>set ys. ok y" and "length xs = length ys"
    and "concat (map enc xs) @ r = concat (map enc ys) @ s"
  shows "xs = ys \<and> r = s"
  using assms
proof (induction xs arbitrary: ys)
  case Nil
  then show ?case by simp
next
  case (Cons x xs)
  then obtain y ys' where ys: "ys = y # ys'" by (cases ys) auto
  with Cons.prems have "x = y \<and> concat (map enc xs) @ r = concat (map enc ys') @ s"
    by (intro delimited) auto
  with Cons.IH [of ys'] Cons.prems ys show ?case by simp
qed

end

definition append_lp :: "bytes \<Rightarrow> bytes \<Rightarrow> bytes" where
  "append_lp out field = out @ to_le_bytes (len64 field) @ field"

definition lp :: "bytes \<Rightarrow> bytes" where
  "lp field = append_lp [] field"

lemma append_lp_eq: "append_lp out field = out @ lp field"
  by (simp add: append_lp_def lp_def)

lemma length_lp [simp, layout_simps]: "length (lp f) = 8 + length f"
  by (simp add: lp_def append_lp_def)

interpretation lp_field: self_delimiting lp "\<lambda>f. length f < 2 ^ 64"
proof
  fix x y r s
  assume x: "length x < 2 ^ 64" and y: "length y < 2 ^ 64" and eq: "lp x @ r = lp y @ s"
  then have "to_le_bytes (len64 x) = to_le_bytes (len64 y)" and rest: "x @ r = y @ s"
    by (auto simp: lp_def append_lp_def append_eq_append_conv)
  then have "len64 x = len64 y" by (auto dest: to_le_bytes_inj)
  then have "unat (len64 x) = unat (len64 y)" by simp
  with x y have "length x = length y" by (simp del: of_nat_eq_iff)
  with rest show "x = y \<and> r = s" by simp
qed

lemma fixed_width_delimiting:
  assumes "\<And>x y. enc x = enc y \<Longrightarrow> x = y" and "\<And>x. ok x \<Longrightarrow> length (enc x) = n"
  shows "self_delimiting enc ok"
  using assms by unfold_locales (metis append_eq_append_conv)

interpretation le16_field: self_delimiting "to_le_bytes :: u16 \<Rightarrow> bytes" "\<lambda>_. True"
  by (rule fixed_width_delimiting [where n = 2]) (auto intro: to_le_bytes_inj)

interpretation be16_field: self_delimiting "to_be_bytes :: u16 \<Rightarrow> bytes" "\<lambda>_. True"
  by (rule fixed_width_delimiting [where n = 2]) (auto intro: to_be_bytes_inj)

interpretation be32_field: self_delimiting "to_be_bytes :: u32 \<Rightarrow> bytes" "\<lambda>_. True"
  by (rule fixed_width_delimiting [where n = 4]) (auto intro: to_be_bytes_inj)

interpretation be64_field: self_delimiting "to_be_bytes :: u64 \<Rightarrow> bytes" "\<lambda>_. True"
  by (rule fixed_width_delimiting [where n = 8]) (auto intro: to_be_bytes_inj)

interpretation array32_field: self_delimiting "\<lambda>b :: bytes. b" "\<lambda>b. length b = 32"
  by (rule fixed_width_delimiting [where n = 32]) auto

subsection \<open>Strings as bytes\<close>

definition as_bytes :: "string \<Rightarrow> bytes" where
  "as_bytes s = map of_char s"

lemma length_as_bytes [simp, layout_simps]: "length (as_bytes s) = length s"
  by (simp add: as_bytes_def)

lemma unat_of_char [simp]: "unat (of_char c :: byte) = of_char c"
proof -
  have "unat (of_nat (of_char c) :: byte) = of_char c mod 2 ^ 8"
    by (simp only: unat_of_nat) simp
  also have "\<dots> = of_char c"
    using nat_of_char_less_256 [of c] by simp
  finally show ?thesis by (simp add: of_nat_of_char)
qed

lemma of_char_byte_inj: "(of_char c :: byte) = of_char d \<longleftrightarrow> c = d"
  by (metis of_char_eq_iff unat_of_char)

lemma as_bytes_inj: "as_bytes s = as_bytes t \<longleftrightarrow> s = t"
proof -
  have "inj (of_char :: char \<Rightarrow> byte)"
    by (rule injI) (simp add: of_char_byte_inj)
  then show ?thesis by (simp add: as_bytes_def inj_map_eq_map)
qed

end
