(* ===== verification/Core_Suite.thy ===== *)
theory Core_Suite
  imports Core_Prelude
begin

section \<open>Algorithm suites (suite.rs, and the cipher enum of aead.rs)\<close>

text \<open>
  \<open>SuiteId\<close> names the whole cryptographic suite of a container; \<open>AeadAlg\<close> is
  the bulk cipher it selects. The cargo feature \<open>pqc\<close> decides which variants
  a build has: it is the boolean argument \<open>pqc\<close> of \<open>from_u16\<close>, so that both builds are covered.
\<close>

subsection \<open>Bulk ciphers\<close>

datatype aead_alg = XChaCha20Poly1305 | Aes256Gcm

definition STREAM_OVERHEAD :: nat where "STREAM_OVERHEAD = 5"
definition NONCE_LEN :: nat where "NONCE_LEN = 24"
definition TAG_LEN :: nat where "TAG_LEN = 16"
definition STREAM_NONCE_LEN :: nat where "STREAM_NONCE_LEN = NONCE_LEN - 5"

fun nonce_len :: "aead_alg \<Rightarrow> nat" where
  "nonce_len XChaCha20Poly1305 = 24"
| "nonce_len Aes256Gcm = 12"

definition stream_nonce_len :: "aead_alg \<Rightarrow> nat" where
  "stream_nonce_len alg = nonce_len alg - STREAM_OVERHEAD"

lemma stream_nonce_len_eq [simp]: "stream_nonce_len alg + 5 = nonce_len alg"
  by (cases alg) (simp_all add: stream_nonce_len_def STREAM_OVERHEAD_def)

lemma nonce_len_le: "nonce_len alg \<le> NONCE_LEN"
  by (cases alg) (simp_all add: NONCE_LEN_def)

subsection \<open>Suite identifiers\<close>

datatype suite_id = Classic | Aes256GcmSuite | Hybrid


fun to_u16 :: "suite_id \<Rightarrow> u16" where
  "to_u16 Classic = 0x0001"
| "to_u16 Aes256GcmSuite = 0x0002"
| "to_u16 Hybrid = 0x0101"

definition from_u16 :: "bool \<Rightarrow> u16 \<Rightarrow> suite_id result" where
  "from_u16 pqc v =
     (if v = 0x0001 then Inr Classic
      else if pqc \<and> v = 0x0002 then Inr Aes256GcmSuite
      else if pqc \<and> v = 0x0101 then Inr Hybrid
      else Inl (UnsupportedSuite v))"

definition is_supported :: "suite_id \<Rightarrow> bool" where
  "is_supported s = True"

fun suite_aead_alg :: "suite_id \<Rightarrow> aead_alg" where
  "suite_aead_alg Classic = XChaCha20Poly1305"
| "suite_aead_alg Aes256GcmSuite = Aes256Gcm"
| "suite_aead_alg Hybrid = XChaCha20Poly1305"

fun is_hybrid :: "suite_id \<Rightarrow> bool" where
  "is_hybrid Classic = False"
| "is_hybrid Aes256GcmSuite = False"
| "is_hybrid Hybrid = True"

lemma from_u16_to_u16 [simp]: "from_u16 True (to_u16 s) = Inr s"
  by (cases s) (simp_all add: from_u16_def)

lemma from_u16_eq_Inr: "from_u16 pqc v = Inr s \<Longrightarrow> v = to_u16 s \<and> (pqc \<or> s = Classic)"
  by (auto simp: from_u16_def split: if_splits)

lemma from_u16_eq_Inl: "from_u16 pqc v = Inl e \<Longrightarrow> e = UnsupportedSuite v"
  by (auto simp: from_u16_def split: if_splits)

lemma to_u16_inj [simp]: "to_u16 s = to_u16 t \<longleftrightarrow> s = t"
  by (cases s; cases t) simp_all

end
