(* ===== verification/Core_Externals.thy ===== *)
theory Core_Externals
  imports Core_Suite
begin

section \<open>Third-party code as parameters\<close>

text \<open>
  The cryptographic crates (\<open>blake3\<close>, \<open>chacha20poly1305\<close>, \<open>aes_gcm\<close> and the
  STREAM adapters of \<open>aead\<close>, \<open>x25519_dalek\<close>, \<open>ed25519_dalek\<close>, \<open>ml_kem\<close>,
  \<open>ml_dsa\<close>) and \<open>data_encoding\<close> are not part of the repository. They are fields
  of a record \<open>lib\<close> that the definitions take as an argument; what the code relies
  on is stated as named predicates over that record, each one documented behaviour
  of the crate. The theorems that need such a predicate have it as a hypothesis.

  The STREAM adapter \<open>EncryptorBE32\<close> is the function of a position and a last-block
  flag that its \<open>StreamPrimitive\<close> interface documents.
\<close>

record lib =
  blake3 :: "bytes \<Rightarrow> bytes"
  blake3_keyed :: "bytes \<Rightarrow> bytes \<Rightarrow> bytes"
  blake3_derive_key :: "string \<Rightarrow> bytes \<Rightarrow> bytes"
  aead_encrypt :: "aead_alg \<Rightarrow> bytes \<Rightarrow> bytes \<Rightarrow> bytes \<Rightarrow> bytes \<Rightarrow> bytes option"
  aead_decrypt :: "aead_alg \<Rightarrow> bytes \<Rightarrow> bytes \<Rightarrow> bytes \<Rightarrow> bytes \<Rightarrow> bytes option"
  stream_encrypt :: "aead_alg \<Rightarrow> bytes \<Rightarrow> bytes \<Rightarrow> u32 \<Rightarrow> bool \<Rightarrow> bytes \<Rightarrow> bytes \<Rightarrow> bytes option"
  stream_decrypt :: "aead_alg \<Rightarrow> bytes \<Rightarrow> bytes \<Rightarrow> u32 \<Rightarrow> bool \<Rightarrow> bytes \<Rightarrow> bytes \<Rightarrow> bytes option"
  hexlower_encode :: "bytes \<Rightarrow> string"
  hexlower_decode :: "string \<Rightarrow> bytes option"
  x25519_public :: "bytes \<Rightarrow> bytes"
  x25519_dh :: "bytes \<Rightarrow> bytes \<Rightarrow> bytes"
  x25519_contributory :: "bytes \<Rightarrow> bool"
  ed25519_public :: "bytes \<Rightarrow> bytes"
  ed25519_sign :: "bytes \<Rightarrow> bytes \<Rightarrow> bytes"
  ed25519_key_valid :: "bytes \<Rightarrow> bool"
  ed25519_verify_strict :: "bytes \<Rightarrow> bytes \<Rightarrow> bytes \<Rightarrow> bool"
  mlkem_public :: "bytes \<Rightarrow> bytes"
  mlkem_key_valid :: "bytes \<Rightarrow> bool"
  mlkem_encapsulate_deterministic :: "bytes \<Rightarrow> bytes \<Rightarrow> bytes \<times> bytes"
  mlkem_decapsulate :: "bytes \<Rightarrow> bytes \<Rightarrow> bytes"
  mldsa_public :: "bytes \<Rightarrow> bytes"
  mldsa_sign :: "bytes \<Rightarrow> bytes \<Rightarrow> bytes"
  mldsa_signature_decodes :: "bytes \<Rightarrow> bool"
  mldsa_verify :: "bytes \<Rightarrow> bytes \<Rightarrow> bytes \<Rightarrow> bool"
  argon2_params_valid :: "u32 \<Rightarrow> u32 \<Rightarrow> u32 \<Rightarrow> bool"
  argon2id :: "u32 \<Rightarrow> u32 \<Rightarrow> u32 \<Rightarrow> bytes \<Rightarrow> bytes \<Rightarrow> bytes option"
  base32_nopad_encode :: "bytes \<Rightarrow> string"

subsection \<open>Documented behaviour\<close>

text \<open>Decryption inverts encryption and the ciphertext is one tag longer than the message.\<close>

definition aead_correct :: "lib \<Rightarrow> bool" where
  "aead_correct L \<longleftrightarrow>
     (\<forall>alg k n aad m c. aead_encrypt L alg k n aad m = Some c \<longrightarrow>
        aead_decrypt L alg k n aad c = Some m \<and> length c = length m + TAG_LEN)"

text \<open>A ciphertext shorter than its tag is refused, and a message is one tag shorter than its ciphertext.\<close>

definition aead_tag_checked :: "lib \<Rightarrow> bool" where
  "aead_tag_checked L \<longleftrightarrow>
     (\<forall>alg k n aad m c. aead_decrypt L alg k n aad c = Some m \<longrightarrow>
        length c = length m + TAG_LEN)"

text \<open>Sealing succeeds on a 32-byte key, a nonce of the cipher's length and a message below 4 GiB.\<close>

definition aead_total :: "lib \<Rightarrow> bool" where
  "aead_total L \<longleftrightarrow>
     (\<forall>alg k n aad m. length k = 32 \<longrightarrow> length n = nonce_len alg \<longrightarrow> length m < 2 ^ 32 \<longrightarrow>
        aead_encrypt L alg k n aad m \<noteq> None)"

text \<open>\<open>StreamBE32\<close> appends the big-endian position and the last-block flag to the nonce prefix.\<close>

definition stream_flag :: "bool \<Rightarrow> byte" where
  "stream_flag fin = (if fin then 1 else 0)"

definition stream_be32 :: "lib \<Rightarrow> bool" where
  "stream_be32 L \<longleftrightarrow>
     (\<forall>alg k p pos fin aad m. length p = stream_nonce_len alg \<longrightarrow>
        stream_encrypt L alg k p pos fin aad m
          = aead_encrypt L alg k (p @ to_be_bytes pos @ [stream_flag fin]) aad m \<and>
        stream_decrypt L alg k p pos fin aad m
          = aead_decrypt L alg k (p @ to_be_bytes pos @ [stream_flag fin]) aad m)"

text \<open>BLAKE3 digests and derived keys are 32 bytes.\<close>

definition blake3_lengths :: "lib \<Rightarrow> bool" where
  "blake3_lengths L \<longleftrightarrow>
     (\<forall>m. length (blake3 L m) = 32) \<and> (\<forall>k m. length (blake3_keyed L k m) = 32) \<and>
     (\<forall>c m. length (blake3_derive_key L c m) = 32)"

text \<open>\<open>HEXLOWER\<close>: two characters per byte, all lowercase hex digits; decoding inverts it
  and accepts nothing else.\<close>

definition is_lower_hex :: "char \<Rightarrow> bool" where
  "is_lower_hex c \<longleftrightarrow>
     ((of_char c :: nat) \<in> {48..57} \<or> (of_char c :: nat) \<in> {97..102})"

definition hexlower_spec :: "lib \<Rightarrow> bool" where
  "hexlower_spec L \<longleftrightarrow>
     (\<forall>b. length (hexlower_encode L b) = 2 * length b \<and> list_all is_lower_hex (hexlower_encode L b) \<and>
          hexlower_decode L (hexlower_encode L b) = Some b) \<and>
     (\<forall>s b. hexlower_decode L s = Some b \<longrightarrow> hexlower_encode L b = s)"

text \<open>Diffie-Hellman commutes, and public keys and shared secrets are 32 bytes.\<close>

definition x25519_spec :: "lib \<Rightarrow> bool" where
  "x25519_spec L \<longleftrightarrow>
     (\<forall>a b. x25519_dh L a (x25519_public L b) = x25519_dh L b (x25519_public L a)) \<and>
     (\<forall>a p. length (x25519_public L a) = 32 \<and> length (x25519_dh L a p) = 32)"

text \<open>Ed25519: a signature made with a key verifies under its public key; lengths.\<close>

definition ed25519_spec :: "lib \<Rightarrow> bool" where
  "ed25519_spec L \<longleftrightarrow>
     (\<forall>s m. ed25519_key_valid L (ed25519_public L s) \<and>
        ed25519_verify_strict L (ed25519_public L s) m (ed25519_sign L s m) \<and>
        length (ed25519_public L s) = 32 \<and> length (ed25519_sign L s m) = 64)"

text \<open>ML-KEM-768: a secret encapsulated to a seed's public key is decapsulated with the seed; lengths.\<close>

definition mlkem_spec :: "lib \<Rightarrow> bool" where
  "mlkem_spec L \<longleftrightarrow>
     (\<forall>seed m ct ss. length seed = 64 \<longrightarrow>
        length (mlkem_public L seed) = 1184 \<and> mlkem_key_valid L (mlkem_public L seed) \<and>
        (mlkem_encapsulate_deterministic L (mlkem_public L seed) m = (ct, ss) \<longrightarrow>
           length ct = 1088 \<and> length ss = 32 \<and> mlkem_decapsulate L seed ct = ss))"

text \<open>ML-DSA-65: a signature made from a seed verifies under the seed's public key; lengths.\<close>

definition mldsa_spec :: "lib \<Rightarrow> bool" where
  "mldsa_spec L \<longleftrightarrow>
     (\<forall>seed m. length seed = 32 \<longrightarrow>
        length (mldsa_public L seed) = 1952 \<and> length (mldsa_sign L seed m) = 3309 \<and>
        mldsa_signature_decodes L (mldsa_sign L seed m) \<and>
        mldsa_verify L (mldsa_public L seed) m (mldsa_sign L seed m))"

text \<open>\<open>BASE32_NOPAD\<close>: an injective encoding into uppercase letters and digits, empty only for
  the empty input.\<close>

definition is_ascii_alphanumeric :: "char \<Rightarrow> bool" where
  "is_ascii_alphanumeric c = (let n = (of_char c :: nat) in
     (48 \<le> n \<and> n \<le> 57) \<or> (65 \<le> n \<and> n \<le> 90) \<or> (97 \<le> n \<and> n \<le> 122))"

definition is_upper_alphanumeric :: "char \<Rightarrow> bool" where
  "is_upper_alphanumeric c = (let n = (of_char c :: nat) in (48 \<le> n \<and> n \<le> 57) \<or> (65 \<le> n \<and> n \<le> 90))"

definition base32_spec :: "lib \<Rightarrow> bool" where
  "base32_spec L \<longleftrightarrow>
     inj (base32_nopad_encode L) \<and> (\<forall>b. list_all is_upper_alphanumeric (base32_nopad_encode L b)) \<and>
     (\<forall>b. b \<noteq> [] \<longrightarrow> base32_nopad_encode L b \<noteq> [])"

lemma aead_correctD:
  "aead_correct L \<Longrightarrow> aead_encrypt L alg k n aad m = Some c \<Longrightarrow> aead_decrypt L alg k n aad c = Some m"
  "aead_correct L \<Longrightarrow> aead_encrypt L alg k n aad m = Some c \<Longrightarrow> length c = length m + TAG_LEN"
  unfolding aead_correct_def by blast+

lemma aead_totalD:
  "aead_total L \<Longrightarrow> length k = 32 \<Longrightarrow> length n = nonce_len alg \<Longrightarrow> length m < 2 ^ 32 \<Longrightarrow>
     \<exists>c. aead_encrypt L alg k n aad m = Some c"
  unfolding aead_total_def by blast

lemma stream_be32D:
  assumes "stream_be32 L" and "length p = stream_nonce_len alg"
  shows "stream_encrypt L alg k p pos fin aad m
           = aead_encrypt L alg k (p @ to_be_bytes pos @ [stream_flag fin]) aad m"
    and "stream_decrypt L alg k p pos fin aad m
           = aead_decrypt L alg k (p @ to_be_bytes pos @ [stream_flag fin]) aad m"
  using assms unfolding stream_be32_def by blast+

lemma blake3_lengthsD:
  assumes "blake3_lengths L"
  shows "length (blake3 L m) = 32" "length (blake3_keyed L k m) = 32"
    "length (blake3_derive_key L c m) = 32"
  using assms by (auto simp: blake3_lengths_def)

subsection \<open>A library that behaves as documented\<close>

text \<open>
  A concrete instance for evaluating the model on small inputs: digests are constant, an
  AEAD ciphertext is the message followed by a constant tag. It has the documented
  behaviour above and none of the secrecy.
\<close>

definition demo_hex_digit :: "nat \<Rightarrow> char" where
  "demo_hex_digit n = char_of (if n < 10 then 48 + n else 87 + n)"

definition demo_hex_value :: "char \<Rightarrow> nat" where
  "demo_hex_value c = (let n = (of_char c :: nat) in if n < 58 then n - 48 else n - 87)"

fun demo_hex_decode :: "string \<Rightarrow> bytes option" where
  "demo_hex_decode [] = Some []"
| "demo_hex_decode [c] = None"
| "demo_hex_decode (c # d # s) =
     (if is_lower_hex c \<and> is_lower_hex d
      then map_option ((#) (of_nat (16 * demo_hex_value c + demo_hex_value d))) (demo_hex_decode s)
      else None)"

definition demo_upper :: "nat \<Rightarrow> char" where
  "demo_upper n = char_of (65 + n)"

definition demo_tag :: bytes where "demo_tag = replicate 16 0"

definition demo_open :: "bytes \<Rightarrow> bytes option" where
  "demo_open c = (if length c \<ge> 16 \<and> drop (length c - 16) c = demo_tag then Some (take (length c - 16) c) else None)"

definition demo_lib :: lib where
  "demo_lib =
     \<lparr>blake3 = (\<lambda>_. replicate 32 0), blake3_keyed = (\<lambda>_ _. replicate 32 0),
      blake3_derive_key = (\<lambda>_ _. replicate 32 0),
      aead_encrypt = (\<lambda>_ _ _ _ m. Some (m @ demo_tag)), aead_decrypt = (\<lambda>_ _ _ _ c. demo_open c),
      stream_encrypt = (\<lambda>_ _ _ _ _ _ m. Some (m @ demo_tag)), stream_decrypt = (\<lambda>_ _ _ _ _ _ c. demo_open c),
      hexlower_encode = (\<lambda>b. concat (map (\<lambda>x. [demo_hex_digit (unat x div 16), demo_hex_digit (unat x mod 16)]) b)),
      hexlower_decode = demo_hex_decode,
      x25519_public = (\<lambda>_. replicate 32 9), x25519_dh = (\<lambda>_ _. replicate 32 5),
      x25519_contributory = (\<lambda>_. True),
      ed25519_public = (\<lambda>_. replicate 32 7), ed25519_sign = (\<lambda>_ _. replicate 64 3),
      ed25519_key_valid = (\<lambda>_. True), ed25519_verify_strict = (\<lambda>_ _ s. s = replicate 64 3),
      mlkem_public = (\<lambda>_. replicate 1184 1), mlkem_key_valid = (\<lambda>_. True),
      mlkem_encapsulate_deterministic = (\<lambda>_ _. (replicate 1088 2, replicate 32 4)),
      mlkem_decapsulate = (\<lambda>_ _. replicate 32 4),
      mldsa_public = (\<lambda>_. replicate 1952 1), mldsa_sign = (\<lambda>_ _. replicate 3309 6),
      mldsa_signature_decodes = (\<lambda>_. True), mldsa_verify = (\<lambda>_ _ s. s = replicate 3309 6),
      argon2_params_valid = (\<lambda>_ _ _. True), argon2id = (\<lambda>_ _ _ _ _. Some (replicate 32 8)),
      base32_nopad_encode = (\<lambda>b. concat (map (\<lambda>x. [demo_upper (unat x div 16), demo_upper (unat x mod 16)]) b))\<rparr>"

lemma demo_open_tag [simp]: "demo_open (m @ demo_tag) = Some m"
  by (simp add: demo_open_def demo_tag_def)

lemma demo_open_length: "demo_open c = Some m \<Longrightarrow> length c = length m + 16"
  by (auto simp: demo_open_def split: if_splits)

lemma demo_hex_digit_lower: "n < 16 \<Longrightarrow> is_lower_hex (demo_hex_digit n)"
  by (auto simp: demo_hex_digit_def is_lower_hex_def)

lemma demo_hex_value_digit: "n < 16 \<Longrightarrow> demo_hex_value (demo_hex_digit n) = n"
  by (auto simp: demo_hex_digit_def demo_hex_value_def Let_def)

lemma demo_hex_digit_value: "is_lower_hex c \<Longrightarrow> demo_hex_digit (demo_hex_value c) = c \<and> demo_hex_value c < 16"
  by (auto simp: demo_hex_digit_def demo_hex_value_def is_lower_hex_def Let_def)

lemma demo_aead: "aead_correct demo_lib" "aead_tag_checked demo_lib" "aead_total demo_lib" "stream_be32 demo_lib"
  by (auto simp: aead_correct_def aead_tag_checked_def aead_total_def stream_be32_def demo_lib_def
      demo_tag_def [symmetric] TAG_LEN_def dest: demo_open_length)
     (simp add: demo_tag_def)

lemma demo_hashes: "blake3_lengths demo_lib"
  by (simp add: blake3_lengths_def demo_lib_def)

lemma demo_keys: "x25519_spec demo_lib" "ed25519_spec demo_lib" "mlkem_spec demo_lib" "mldsa_spec demo_lib"
  by (simp_all add: x25519_spec_def ed25519_spec_def mlkem_spec_def mldsa_spec_def demo_lib_def)

lemma demo_upper_inj: "m < 16 \<Longrightarrow> n < 16 \<Longrightarrow> demo_upper m = demo_upper n \<Longrightarrow> m = n"
proof -
  assume mn: "m < 16" "n < 16" and eq: "demo_upper m = demo_upper n"
  then have "(of_char (char_of (65 + m)) :: nat) = of_char (char_of (65 + n))" by (simp add: demo_upper_def)
  with mn show "m = n" by simp
qed

lemma byte_nibble: "unat (x :: byte) div 16 < 16"
proof -
  have "unat x < 256" using unsigned_less [of x, where ?'a = nat] by simp
  then show ?thesis by simp
qed

lemma demo_hex_encode_decode:
  "demo_hex_decode (concat (map (\<lambda>x :: byte. [demo_hex_digit (unat x div 16), demo_hex_digit (unat x mod 16)]) b)) = Some b"
proof (induction b)
  case (Cons x b)
  then show ?case using byte_nibble [of x] by (simp add: demo_hex_digit_lower demo_hex_value_digit)
qed simp

lemma demo_hex_decode_encode:
  "demo_hex_decode s = Some b \<Longrightarrow>
     concat (map (\<lambda>x :: byte. [demo_hex_digit (unat x div 16), demo_hex_digit (unat x mod 16)]) b) = s"
proof (induction s arbitrary: b rule: demo_hex_decode.induct)
  case (3 c d s)
  then obtain b' where b: "is_lower_hex c" "is_lower_hex d" "demo_hex_decode s = Some b'"
    "b = of_nat (16 * demo_hex_value c + demo_hex_value d) # b'"
    by (auto split: if_splits)
  let ?v = "16 * demo_hex_value c + demo_hex_value d"
  have v: "demo_hex_value c < 16" "demo_hex_value d < 16" using b demo_hex_digit_value by auto
  then have "?v < 256" by linarith
  then have "unat (of_nat ?v :: byte) = ?v" by (simp only: unat_of_nat) simp
  with 3 b v demo_hex_digit_value show ?case by simp
qed simp_all

lemma demo_hex: "hexlower_spec demo_lib"
  using demo_hex_encode_decode demo_hex_decode_encode
  by (auto simp: hexlower_spec_def demo_lib_def length_concat comp_def sum_list_triv list_all_iff demo_hex_digit_lower byte_nibble)

lemma demo_base32: "base32_spec demo_lib"
proof -
  let ?e = "\<lambda>x :: byte. [demo_upper (unat x div 16), demo_upper (unat x mod 16)]"
  have e: "?e x = ?e y \<Longrightarrow> x = y" for x y
  proof -
    assume eq: "?e x = ?e y"
    have "unat x div 16 = unat y div 16" "unat x mod 16 = unat y mod 16"
      using eq byte_nibble [of x] byte_nibble [of y] by (auto intro: demo_upper_inj)
    then have "unat x = unat y" by (metis mult_div_mod_eq)
    then show "x = y" by (simp add: word_unat_eq_iff)
  qed
  have "concat (map ?e a) = concat (map ?e b) \<Longrightarrow> a = b" for a b
  proof (induction a arbitrary: b)
    case (Cons x a)
    then show ?case using e by (cases b) auto
  qed (auto)
  then have "inj (\<lambda>b. concat (map ?e b))" by (auto intro: injI)
  moreover have "is_upper_alphanumeric (demo_upper n)" if "n < 16" for n
    using that by (simp add: demo_upper_def is_upper_alphanumeric_def)
  ultimately show ?thesis
    using byte_nibble by (auto simp: base32_spec_def demo_lib_def list_all_iff)
qed

end
