(* ===== verification/Core_State.thy ===== *)
theory Core_State
  imports Core_Externals
begin

section \<open>Rollback-resistant state metadata (state.rs)\<close>

text \<open>
  Every local persistence format embeds a \<open>StateMetadata\<close> record: the owner, the
  kind and id of the object, an epoch, and two hashes that chain each state to
  its predecessor. A \<open>StateAnchor\<close> is the high-water mark kept elsewhere.
  \<open>sm_next\<close> builds the successor state, \<open>verify_payload\<close> checks a payload
  against its metadata and \<open>check_candidate\<close> decides whether a state read from
  disk is the anchored one, its single successor, or to be refused.
\<close>

subsection \<open>Data\<close>

datatype state_object_type = Keystore | Contacts | Registry | VaultManifest

fun object_type_tag :: "state_object_type \<Rightarrow> bytes" where
  "object_type_tag Keystore = as_bytes ''keystore''"
| "object_type_tag Contacts = as_bytes ''contacts''"
| "object_type_tag Registry = as_bytes ''registry''"
| "object_type_tag VaultManifest = as_bytes ''vault-manifest''"

fun object_type_display :: "state_object_type \<Rightarrow> string" where
  "object_type_display Keystore = ''keystore''"
| "object_type_display Contacts = ''contacts''"
| "object_type_display Registry = ''registry''"
| "object_type_display VaultManifest = ''vault manifest''"

record state_metadata =
  sm_identity_fingerprint :: bytes
  sm_object_type :: state_object_type
  sm_object_id :: string
  sm_suite_id :: u16
  sm_epoch :: u64
  sm_previous_state_hash :: bytes
  sm_current_state_hash :: bytes

record state_anchor =
  sa_identity_fingerprint :: bytes
  sa_object_type :: state_object_type
  sa_object_id :: string
  sa_suite_id :: u16
  sa_epoch :: u64
  sa_current_state_hash :: bytes

definition GENESIS_HASH :: bytes where
  "GENESIS_HASH = replicate 32 0"

definition STATE_HASH_CONTEXT :: bytes where
  "STATE_HASH_CONTEXT = as_bytes ''FileSec local state hash v1''"

definition STATE_AAD_CONTEXT :: bytes where
  "STATE_AAD_CONTEXT = as_bytes ''FileSec local state authenticated data v1''"

subsection \<open>Operations\<close>

definition state_label :: "state_object_type \<Rightarrow> string \<Rightarrow> string" where
  "state_label ty oid = object_type_display ty @ '' '' @ oid"

definition sm_label :: "state_metadata \<Rightarrow> string" where
  "sm_label s = state_label (sm_object_type s) (sm_object_id s)"

text \<open>\<open>update_lp\<close> feeds the hasher what \<open>append_lp\<close> would append; the hasher is the
  concatenation of what it was fed.\<close>

definition expected_hash :: "lib \<Rightarrow> state_metadata \<Rightarrow> bytes \<Rightarrow> bytes" where
  "expected_hash L s payload =
     (let h0 = append_lp [] STATE_HASH_CONTEXT;
          h1 = append_lp h0 (sm_identity_fingerprint s);
          h2 = append_lp h1 (object_type_tag (sm_object_type s));
          h3 = append_lp h2 (as_bytes (sm_object_id s));
          h4 = append_lp h3 (to_le_bytes (sm_suite_id s));
          h5 = append_lp h4 (to_le_bytes (sm_epoch s));
          h6 = append_lp h5 (sm_previous_state_hash s);
          h7 = append_lp h6 payload
      in blake3 L h7)"

definition authenticated_data :: "state_metadata \<Rightarrow> bytes" where
  "authenticated_data s =
     (let o0 = append_lp [] STATE_AAD_CONTEXT;
          o1 = append_lp o0 (sm_identity_fingerprint s);
          o2 = append_lp o1 (object_type_tag (sm_object_type s));
          o3 = append_lp o2 (as_bytes (sm_object_id s));
          o4 = append_lp o3 (to_le_bytes (sm_suite_id s));
          o5 = append_lp o4 (to_le_bytes (sm_epoch s));
          o6 = append_lp o5 (sm_previous_state_hash s)
      in append_lp o6 (sm_current_state_hash s))"

definition sm_next ::
  "lib \<Rightarrow> bytes \<Rightarrow> state_object_type \<Rightarrow> string \<Rightarrow> u16 \<Rightarrow> state_anchor option \<Rightarrow> bytes \<Rightarrow> state_metadata result" where
  "sm_next L fpr ty oid suite previous payload =
     rbind
       (case previous of
          Some anchor \<Rightarrow>
            if sa_identity_fingerprint anchor \<noteq> fpr \<or> sa_object_type anchor \<noteq> ty
               \<or> sa_object_id anchor \<noteq> oid
            then Inl (StateMismatch (state_label ty oid))
            else rbind (ok_or (Format ''state epoch overflow'') (checked_add (sa_epoch anchor) 1))
                   (\<lambda>epoch. Inr (epoch, sa_current_state_hash anchor))
        | None \<Rightarrow> Inr (1, GENESIS_HASH))
       (\<lambda>(epoch, previous_state_hash).
          let state = \<lparr>sm_identity_fingerprint = fpr, sm_object_type = ty, sm_object_id = oid,
                       sm_suite_id = suite, sm_epoch = epoch,
                       sm_previous_state_hash = previous_state_hash,
                       sm_current_state_hash = GENESIS_HASH\<rparr>
          in Inr (state\<lparr>sm_current_state_hash := expected_hash L state payload\<rparr>))"

definition verify_payload :: "lib \<Rightarrow> state_metadata \<Rightarrow> bytes \<Rightarrow> unit result" where
  "verify_payload L s payload =
     (if sm_epoch s = 0 \<or> sm_current_state_hash s \<noteq> expected_hash L s payload
      then Inl (StateMismatch (sm_label s))
      else Inr ())"

definition from_metadata :: "state_metadata \<Rightarrow> state_anchor" where
  "from_metadata s =
     \<lparr>sa_identity_fingerprint = sm_identity_fingerprint s, sa_object_type = sm_object_type s,
      sa_object_id = sm_object_id s, sa_suite_id = sm_suite_id s, sa_epoch = sm_epoch s,
      sa_current_state_hash = sm_current_state_hash s\<rparr>"

definition check_candidate :: "state_anchor \<Rightarrow> state_metadata \<Rightarrow> bool result" where
  "check_candidate a c =
     (let label = sm_label c in
      if sa_identity_fingerprint a \<noteq> sm_identity_fingerprint c
         \<or> sa_object_type a \<noteq> sm_object_type c \<or> sa_object_id a \<noteq> sm_object_id c
      then Inl (StateMismatch label)
      else if sm_epoch c < sa_epoch a then Inl (RollbackDetected label)
      else if sm_epoch c = sa_epoch a
      then if sm_current_state_hash c \<noteq> sa_current_state_hash a
              \<or> sm_suite_id c \<noteq> sa_suite_id a
           then Inl (StateMismatch label)
           else Inr False
      else if sm_epoch c \<noteq> saturating_add (sa_epoch a) 1
              \<or> sm_previous_state_hash c \<noteq> sa_current_state_hash a
      then Inl (StateMismatch label)
      else Inr True)"

subsection \<open>Layouts\<close>

text \<open>The fields of a state, in the order both layouts use.\<close>

definition state_fields :: "state_metadata \<Rightarrow> bytes list" where
  "state_fields s =
     [sm_identity_fingerprint s, object_type_tag (sm_object_type s), as_bytes (sm_object_id s),
      to_le_bytes (sm_suite_id s), to_le_bytes (sm_epoch s), sm_previous_state_hash s]"

definition hash_input :: "state_metadata \<Rightarrow> bytes \<Rightarrow> bytes" where
  "hash_input s payload = concat (map lp (STATE_HASH_CONTEXT # state_fields s @ [payload]))"

lemma expected_hash_eq: "expected_hash L s payload = blake3 L (hash_input s payload)"
  by (simp add: expected_hash_def hash_input_def state_fields_def append_lp_eq Let_def)

lemma authenticated_data_eq:
  "authenticated_data s =
     concat (map lp (STATE_AAD_CONTEXT # state_fields s @ [sm_current_state_hash s]))"
  by (simp add: authenticated_data_def state_fields_def append_lp_eq Let_def)

text \<open>The fields have the sizes the code's types give them: 32-byte arrays and an id
  that fits in memory.\<close>

definition state_sized :: "state_metadata \<Rightarrow> bool" where
  "state_sized s \<longleftrightarrow>
     length (sm_identity_fingerprint s) = 32 \<and> length (sm_previous_state_hash s) = 32 \<and>
     length (sm_current_state_hash s) = 32 \<and> length (sm_object_id s) < 2 ^ 64"

lemma object_type_tag_inj: "object_type_tag a = object_type_tag b \<longleftrightarrow> a = b"
  by (cases a; cases b) (simp_all add: as_bytes_inj)

lemma length_object_type_tag: "length (object_type_tag ty) \<le> 14"
  by (cases ty) simp_all

lemma context_lengths: "length STATE_HASH_CONTEXT < 2 ^ 64" "length STATE_AAD_CONTEXT < 2 ^ 64"
  by (simp_all add: STATE_HASH_CONTEXT_def STATE_AAD_CONTEXT_def)

lemma state_fields_sized: "state_sized s \<Longrightarrow> \<forall>f \<in> set (state_fields s). length f < 2 ^ 64"
  by (auto simp: state_fields_def state_sized_def intro: le_less_trans [OF length_object_type_tag])

lemma state_fields_inj:
  assumes "state_fields s = state_fields t"
  shows "s\<lparr>sm_current_state_hash := h\<rparr> = t\<lparr>sm_current_state_hash := h\<rparr>"
  using assms
  by (auto simp: state_fields_def object_type_tag_inj as_bytes_inj
      dest!: to_le_bytes_inj intro!: state_metadata.equality)

lemma hash_input_inj:
  assumes "state_sized s" "state_sized t" "length p < 2 ^ 64" "length q < 2 ^ 64"
    and "hash_input s p = hash_input t q"
  shows "s\<lparr>sm_current_state_hash := h\<rparr> = t\<lparr>sm_current_state_hash := h\<rparr> \<and> p = q"
proof -
  have "STATE_HASH_CONTEXT # state_fields s @ [p] = STATE_HASH_CONTEXT # state_fields t @ [q]
        \<and> [] = ([] :: bytes)"
    using assms state_fields_sized context_lengths
    by (intro lp_field.fields_inj) (auto simp: hash_input_def state_fields_def)
  then show ?thesis by (auto dest: state_fields_inj)
qed

lemma authenticated_data_inj_aux:
  assumes "state_sized s" "state_sized t" and "authenticated_data s = authenticated_data t"
  shows "s = t"
proof -
  have "STATE_AAD_CONTEXT # state_fields s @ [sm_current_state_hash s]
        = STATE_AAD_CONTEXT # state_fields t @ [sm_current_state_hash t] \<and> [] = ([] :: bytes)"
    using assms state_fields_sized context_lengths
    by (intro lp_field.fields_inj) (auto simp: authenticated_data_eq state_fields_def state_sized_def)
  then have "state_fields s = state_fields t" and "sm_current_state_hash s = sm_current_state_hash t"
    by auto
  with state_fields_inj [of s t "sm_current_state_hash s"] show ?thesis
    by (cases s; cases t) simp
qed

subsection \<open>Chaining\<close>

lemma check_candidate_eq_True:
  "check_candidate a c = Inr True \<longleftrightarrow>
     sa_identity_fingerprint a = sm_identity_fingerprint c \<and> sa_object_type a = sm_object_type c \<and>
     sa_object_id a = sm_object_id c \<and> unat (sm_epoch c) = unat (sa_epoch a) + 1 \<and>
     sm_previous_state_hash c = sa_current_state_hash a"
  (is "?l = ?r")
proof
  assume l: ?l
  then have "sa_epoch a < sm_epoch c" and "sm_epoch c = saturating_add (sa_epoch a) 1"
    by (auto simp: check_candidate_def Let_def split: if_splits)
  with saturating_add_one l show ?r
    by (auto simp: check_candidate_def Let_def split: if_splits)
next
  assume r: ?r
  then have lt: "sa_epoch a < sm_epoch c" by (simp add: word_less_nat_alt)
  with r have "sm_epoch c = sa_epoch a + 1"
    using saturating_add_one [OF lt] by (simp add: word_unat_eq_iff)
  with r lt saturating_add_one [OF lt] show ?l
    by (auto simp: check_candidate_def Let_def)
qed

lemma check_candidate_eq_False:
  "check_candidate a c = Inr False \<longleftrightarrow> from_metadata c = a"
proof -
  have "from_metadata c = a \<longleftrightarrow>
      sa_identity_fingerprint a = sm_identity_fingerprint c \<and> sa_object_type a = sm_object_type c \<and>
      sa_object_id a = sm_object_id c \<and> sm_epoch c = sa_epoch a \<and>
      sm_current_state_hash c = sa_current_state_hash a \<and> sm_suite_id c = sa_suite_id a"
    by (cases a) (auto simp: from_metadata_def)
  then show ?thesis by (simp add: check_candidate_def Let_def) blast
qed

lemma check_candidate_errors:
  "check_candidate a c = Inl e \<Longrightarrow> e = StateMismatch (sm_label c) \<or> e = RollbackDetected (sm_label c)"
  by (auto simp: check_candidate_def Let_def split: if_splits)

lemma check_candidate_rollback:
  "check_candidate a c = Inl (RollbackDetected (sm_label c)) \<longleftrightarrow>
     sa_identity_fingerprint a = sm_identity_fingerprint c \<and> sa_object_type a = sm_object_type c \<and>
     sa_object_id a = sm_object_id c \<and> sm_epoch c < sa_epoch a"
  by (auto simp: check_candidate_def Let_def split: if_splits)

lemma sm_next_Some:
  "sm_next L fpr ty oid suite (Some a) payload = Inr s \<Longrightarrow>
     sa_identity_fingerprint a = fpr \<and> sa_object_type a = ty \<and> sa_object_id a = oid \<and>
     unat (sm_epoch s) = unat (sa_epoch a) + 1 \<and> sm_previous_state_hash s = sa_current_state_hash a \<and>
     sm_identity_fingerprint s = fpr \<and> sm_object_type s = ty \<and> sm_object_id s = oid \<and>
     sm_suite_id s = suite \<and> sm_current_state_hash s = expected_hash L s payload"
  by (auto simp: sm_next_def result_simps Let_def expected_hash_def dest!: unat_checked_add
      split: if_splits)

lemma sm_next_None:
  "sm_next L fpr ty oid suite None payload = Inr s \<Longrightarrow>
     sm_epoch s = 1 \<and> sm_previous_state_hash s = GENESIS_HASH \<and>
     sm_identity_fingerprint s = fpr \<and> sm_object_type s = ty \<and> sm_object_id s = oid \<and>
     sm_suite_id s = suite \<and> sm_current_state_hash s = expected_hash L s payload"
  by (auto simp: sm_next_def Let_def expected_hash_def)

lemma sm_next_verifies:
  assumes "sm_next L fpr ty oid suite prev payload = Inr s"
  shows "verify_payload L s payload = Inr ()"
proof (cases prev)
  case None
  with assms have "sm_next L fpr ty oid suite None payload = Inr s" by simp
  from sm_next_None [OF this] show ?thesis by (simp add: verify_payload_def)
next
  case (Some a)
  with assms have "sm_next L fpr ty oid suite (Some a) payload = Inr s" by simp
  from sm_next_Some [OF this] show ?thesis
    by (auto simp: verify_payload_def)
qed

text \<open>The owner publishes a sequence of payloads, each state anchored before the next is built.\<close>

fun publish :: "lib \<Rightarrow> bytes \<Rightarrow> state_object_type \<Rightarrow> string \<Rightarrow> u16 \<Rightarrow> state_anchor option \<Rightarrow> bytes list \<Rightarrow>
    state_metadata list result" where
  "publish L fpr ty oid suite prev [] = Inr []"
| "publish L fpr ty oid suite prev (p # ps) =
     rbind (sm_next L fpr ty oid suite prev p) (\<lambda>m.
     rbind (publish L fpr ty oid suite (Some (from_metadata m)) ps) (\<lambda>ms. Inr (m # ms)))"

lemma sm_next_object:
  "sm_next L fpr ty oid suite prev p = Inr s \<Longrightarrow>
     sm_identity_fingerprint s = fpr \<and> sm_object_type s = ty \<and> sm_object_id s = oid"
  by (cases prev) (auto dest: sm_next_None sm_next_Some)

lemma publish_states:
  assumes "publish L fpr ty oid suite prev ps = Inr ms" and "m \<in> set ms"
  shows "sm_identity_fingerprint m = fpr \<and> sm_object_type m = ty \<and> sm_object_id m = oid \<and>
         (\<forall>a. prev = Some a \<longrightarrow> sa_epoch a < sm_epoch m)"
  using assms
proof (induction ps arbitrary: prev ms)
  case (Cons p ps)
  from Cons.prems(1) obtain s ms' where s: "sm_next L fpr ty oid suite prev p = Inr s"
    and ms': "publish L fpr ty oid suite (Some (from_metadata s)) ps = Inr ms'" "ms = s # ms'"
    by (auto simp: result_simps)
  have up: "sa_epoch a < sm_epoch s" if "prev = Some a" for a
    using sm_next_Some [of L fpr ty oid suite a p s] s that by (simp add: word_less_nat_alt)
  from Cons.prems(2) ms'(2) consider "m = s" | "m \<in> set ms'" by auto
  then show ?case
  proof cases
    case 1
    with up sm_next_object [OF s] show ?thesis by simp
  next
    case 2
    from Cons.IH [OF ms'(1) 2] up show ?thesis by (auto simp: from_metadata_def dest: less_trans)
  qed
qed simp

lemma publish_increasing:
  assumes "publish L fpr ty oid suite prev ps = Inr ms" and "i < j" and "j < length ms"
  shows "sm_epoch (ms ! i) < sm_epoch (ms ! j)"
  using assms
proof (induction ps arbitrary: prev ms i j)
  case (Cons p ps)
  from Cons.prems(1) obtain s ms'
    where ms': "publish L fpr ty oid suite (Some (from_metadata s)) ps = Inr ms'" "ms = s # ms'"
    by (auto simp: result_simps)
  from Cons.prems(2,3) ms'(2) obtain j' where j: "j = Suc j'" "j' < length ms'" by (cases j) auto
  show ?case
  proof (cases i)
    case 0
    with j ms'(2) publish_states [OF ms'(1), of "ms' ! j'"] show ?thesis by (simp add: from_metadata_def)
  next
    case (Suc i')
    with Cons.IH [OF ms'(1), of i' j'] Cons.prems(2) j ms'(2) show ?thesis by simp
  qed
qed simp

subsection \<open>Properties\<close>

text \<open>C9. Rollback protection. Of the states an owner publishes one after another, every earlier
  one is refused as a rollback once a later one is anchored, and the anchored one itself is
  recognised as current.\<close>

theorem published_state_rollback:
  assumes "publish L fpr ty oid suite prev payloads = Inr ms" and "j < length ms"
  shows "check_candidate (from_metadata (ms ! j)) (ms ! j) = Inr False \<and>
         (\<forall>i < j. check_candidate (from_metadata (ms ! j)) (ms ! i) = Inl (RollbackDetected (state_label ty oid)))"
proof (intro conjI allI impI)
  show "check_candidate (from_metadata (ms ! j)) (ms ! j) = Inr False"
    by (simp add: check_candidate_eq_False)
  fix i assume "i < j"
  with assms(2) have i: "ms ! i \<in> set ms" and j: "ms ! j \<in> set ms" by auto
  have "sm_epoch (ms ! i) < sm_epoch (ms ! j)" by (rule publish_increasing [OF assms(1) \<open>i < j\<close> assms(2)])
  with publish_states [OF assms(1) i] publish_states [OF assms(1) j]
  show "check_candidate (from_metadata (ms ! j)) (ms ! i) = Inl (RollbackDetected (state_label ty oid))"
    by (simp add: check_candidate_def from_metadata_def sm_label_def)
qed

theorem published_state_rollback_witness:
  "\<exists>ms. publish demo_lib [] Registry ''r'' 1 None [[1], [2]] = Inr ms \<and>
     check_candidate (from_metadata (ms ! 1)) (ms ! 0) = Inl (RollbackDetected (state_label Registry ''r''))"
proof -
  have "\<exists>a b. publish demo_lib [] Registry ''r'' 1 None [[1], [2]] = Inr [a, b]"
    by (simp add: sm_next_def from_metadata_def checked_add_def)
  then obtain a b where r: "publish demo_lib [] Registry ''r'' 1 None [[1], [2]] = Inr [a, b]" by blast
  from published_state_rollback [OF r, of 1] r show ?thesis by fastforce
qed

text \<open>What an anchor accepts: exactly the anchored state again, with nothing to update, or
  the one successor that carries the anchor's hash as its predecessor and the next epoch.
  Everything else is an error, a rollback exactly when the object is the same and its epoch
  is lower.\<close>

theorem check_candidate_decides:
  "check_candidate a c =
     (if from_metadata c = a then Inr False
      else if sa_identity_fingerprint a = sm_identity_fingerprint c \<and> sa_object_type a = sm_object_type c \<and>
              sa_object_id a = sm_object_id c \<and> unat (sm_epoch c) = unat (sa_epoch a) + 1 \<and>
              sm_previous_state_hash c = sa_current_state_hash a then Inr True
      else if sa_identity_fingerprint a = sm_identity_fingerprint c \<and> sa_object_type a = sm_object_type c \<and>
              sa_object_id a = sm_object_id c \<and> sm_epoch c < sa_epoch a
      then Inl (RollbackDetected (sm_label c))
      else Inl (StateMismatch (sm_label c)))"
proof (cases "check_candidate a c")
  case (Inl e)
  then have "check_candidate a c \<noteq> Inr True" "check_candidate a c \<noteq> Inr False" by simp_all
  with Inl check_candidate_errors [OF Inl] check_candidate_rollback [of a c] show ?thesis
    unfolding check_candidate_eq_True check_candidate_eq_False by (simp split: if_splits) blast
next
  case (Inr b)
  then show ?thesis
    using check_candidate_eq_True [of a c] check_candidate_eq_False [of a c] by (cases b) auto
qed

text \<open>A successor state built on an anchor verifies against its payload and is accepted by
  that anchor, and the anchor taken from it accepts it as the current state.\<close>

theorem sm_next_accepted:
  assumes "sm_next L fpr ty oid suite (Some a) payload = Inr s"
  shows "verify_payload L s payload = Inr () \<and> check_candidate a s = Inr True \<and>
         check_candidate (from_metadata s) s = Inr False"
  using sm_next_Some [OF assms] sm_next_verifies [OF assms]
  by (simp add: check_candidate_eq_True check_candidate_eq_False)

theorem sm_next_accepted_witness:
  "\<exists>s. verify_payload demo_lib s [7] = Inr () \<and>
     check_candidate \<lparr>sa_identity_fingerprint = [], sa_object_type = Contacts, sa_object_id = ''c'',
        sa_suite_id = 1, sa_epoch = 4, sa_current_state_hash = [9]\<rparr> s = Inr True"
proof -
  let ?a = "\<lparr>sa_identity_fingerprint = [], sa_object_type = Contacts, sa_object_id = ''c'',
        sa_suite_id = 1, sa_epoch = 4, sa_current_state_hash = [9]\<rparr> :: state_anchor"
  have "\<exists>s. sm_next demo_lib [] Contacts ''c'' 1 (Some ?a) [7] = Inr s"
    by (simp add: sm_next_def checked_add_def)
  then obtain s where "sm_next demo_lib [] Contacts ''c'' 1 (Some ?a) [7] = Inr s" by blast
  from sm_next_accepted [OF this] show ?thesis by blast
qed

text \<open>C21. A state hash commits to the whole state: two states that verify and carry the same
  hash are the same state of the same object with the same payload, or the two hashed byte
  strings are a collision of BLAKE3.\<close>

theorem state_hash_commits:
  assumes "verify_payload L s p = Inr ()" and "verify_payload L t q = Inr ()"
    and "sm_current_state_hash s = sm_current_state_hash t"
    and "state_sized s" and "state_sized t" and "length p < 2 ^ 64" and "length q < 2 ^ 64"
  shows "(s = t \<and> p = q) \<or>
         (hash_input s p \<noteq> hash_input t q \<and> blake3 L (hash_input s p) = blake3 L (hash_input t q))"
proof (cases "hash_input s p = hash_input t q")
  case True
  from hash_input_inj [OF assms(4-7) True, of "sm_current_state_hash s"] assms(3) show ?thesis
    by (cases s; cases t) simp
next
  case False
  with assms(1-3) show ?thesis by (auto simp: verify_payload_def expected_hash_eq split: if_splits)
qed

theorem state_hash_commits_witness:
  "\<exists>s t. s \<noteq> t \<and> blake3 demo_lib (hash_input s [1]) = blake3 demo_lib (hash_input t [1])"
proof -
  let ?s = "\<lparr>sm_identity_fingerprint = replicate 32 0, sm_object_type = Contacts, sm_object_id = ''c'',
     sm_suite_id = 1, sm_epoch = 1, sm_previous_state_hash = GENESIS_HASH,
     sm_current_state_hash = replicate 32 0\<rparr> :: state_metadata"
  let ?t = "?s\<lparr>sm_epoch := 2\<rparr>"
  have "verify_payload demo_lib ?s [1] = Inr ()" "verify_payload demo_lib ?t [1] = Inr ()"
    by (simp_all add: verify_payload_def expected_hash_def demo_lib_def)
  moreover have "state_sized ?s" "state_sized ?t" by (simp_all add: state_sized_def GENESIS_HASH_def)
  ultimately have "blake3 demo_lib (hash_input ?s [1]) = blake3 demo_lib (hash_input ?t [1])"
    using state_hash_commits [of demo_lib ?s "[1]" ?t "[1]"] by simp
  moreover have "?s \<noteq> ?t" by simp
  ultimately show ?thesis by blast
qed

end
