(* ===== verification/Core_Path.thy ===== *)
theory Core_Path
  imports Core_Prelude
begin

section \<open>Path normalization (vault.rs, util.rs)\<close>

text \<open>
  \<open>normalize_path\<close> is the single chokepoint for vault paths: what it returns is
  joined to an extraction directory. The model follows the byte-level steps of
  the source (unify separators, refuse absolute and drive paths, split, check every
  component, bound the depth, join). The lemmas characterise the accepted paths
  as the \<open>canonical\<close> ones: a join of at most 64 non-empty portable components
  within 4096 bytes, none of them \<open>.\<close>, \<open>..\<close> or a device name.
\<close>

subsection \<open>Strings of the standard library\<close>

fun split_on :: "char \<Rightarrow> string \<Rightarrow> string list" where
  "split_on c [] = [[]]"
| "split_on c (x # xs) =
     (if x = c then [] # split_on c xs
      else (case split_on c xs of [] \<Rightarrow> [[x]] | y # ys \<Rightarrow> (x # y) # ys))"

fun join_with :: "string \<Rightarrow> string list \<Rightarrow> string" where
  "join_with sep [] = []"
| "join_with sep [x] = x"
| "join_with sep (x # y # ys) = x @ sep @ join_with sep (y # ys)"

abbreviation slash :: char where "slash \<equiv> CHR 0x2F"

abbreviation path_of :: "string list \<Rightarrow> string" where
  "path_of cs \<equiv> join_with ''/'' cs"

definition strip_prefix :: "string \<Rightarrow> string \<Rightarrow> string option" where
  "strip_prefix p s = (if prefix p s then Some (drop (length p) s) else None)"

definition ends_with :: "char list \<Rightarrow> string \<Rightarrow> bool" where
  "ends_with cs s = (s \<noteq> [] \<and> last s \<in> set cs)"

text \<open>
  \<open>to_uppercase\<close> on the stem of a component. The source compares the result with
  device names over ASCII letters, digits and the superscripts one to three, and
  no character outside ASCII has an uppercase mapping made of those letters only
  (the mappings into ASCII give I, S, SS, FF, FI, FL, FFI, FFL and ST), so folding
  the ASCII letters decides the same comparisons.
\<close>

definition ascii_upper :: "char \<Rightarrow> char" where
  "ascii_upper c = (let n = (of_char c :: nat) in if 97 \<le> n \<and> n \<le> 122 then char_of (n - 32) else c)"

definition to_uppercase :: "string \<Rightarrow> string" where
  "to_uppercase s = map ascii_upper s"

definition is_ascii_alphabetic :: "char \<Rightarrow> bool" where
  "is_ascii_alphabetic c = (let n = (of_char c :: nat) in (65 \<le> n \<and> n \<le> 90) \<or> (97 \<le> n \<and> n \<le> 122))"

text \<open>\<open>str::chars\<close>: decoding of UTF-8 into code points.\<close>

fun utf8_chars :: "nat list \<Rightarrow> nat list" where
  "utf8_chars [] = []"
| "utf8_chars (a # xs) =
     (if a < 0x80 then a # utf8_chars xs
      else case xs of
        [] \<Rightarrow> [0xFFFD]
      | b # ys \<Rightarrow>
          if a < 0xE0 then ((a mod 32) * 64 + b mod 64) # utf8_chars ys
          else (case ys of
            [] \<Rightarrow> [0xFFFD]
          | c # zs \<Rightarrow>
              if a < 0xF0
              then ((a mod 16) * 4096 + (b mod 64) * 64 + c mod 64) # utf8_chars zs
              else (case zs of
                [] \<Rightarrow> [0xFFFD]
              | d # ws \<Rightarrow>
                  ((a mod 8) * 262144 + (b mod 64) * 4096 + (c mod 64) * 64 + d mod 64)
                    # utf8_chars ws)))"

definition chars :: "string \<Rightarrow> nat list" where
  "chars s = utf8_chars (map of_char s)"

definition is_spoofing_format_char :: "nat \<Rightarrow> bool" where
  "is_spoofing_format_char c \<longleftrightarrow>
     c = 0x00AD \<or> c = 0x061C \<or> c = 0x180E \<or> (0x200B \<le> c \<and> c \<le> 0x200F)
     \<or> (0x202A \<le> c \<and> c \<le> 0x202E) \<or> (0x2060 \<le> c \<and> c \<le> 0x2064)
     \<or> (0x2066 \<le> c \<and> c \<le> 0x206F) \<or> c = 0xFEFF \<or> (0xFFF9 \<le> c \<and> c \<le> 0xFFFB)
     \<or> c = 0xE0001 \<or> (0xE0020 \<le> c \<and> c \<le> 0xE007F)"

subsection \<open>Normalization\<close>

definition MAX_PATH_DEPTH :: nat where "MAX_PATH_DEPTH = 64"
definition MAX_PATH_LEN :: nat where "MAX_PATH_LEN = 4096"

definition is_control_byte :: "char \<Rightarrow> bool" where
  "is_control_byte c = (let b = (of_char c :: nat) in b < 0x20 \<or> b = 0x7f)"

definition non_portable_chars :: "char list" where
  "non_portable_chars =
     [CHR 0x3A, CHR 0x3C, CHR 0x3E, CHR 0x22, CHR 0x7C, CHR 0x3F, CHR 0x2A]"

definition device_numbers :: "string list" where
  "device_numbers =
     [''1'', ''2'', ''3'', ''4'', ''5'', ''6'', ''7'', ''8'', ''9'',
      [CHR 0xC2, CHR 0xB9], [CHR 0xC2, CHR 0xB2], [CHR 0xC2, CHR 0xB3]]"

definition is_device :: "string \<Rightarrow> bool" where
  "is_device cmpt =
     (let stem = to_uppercase (hd (split_on CHR ''.'' cmpt))
      in stem \<in> set [''CON'', ''PRN'', ''AUX'', ''NUL''] \<or>
         list_ex (\<lambda>pre. case strip_prefix pre stem of
                     None \<Rightarrow> False | Some n \<Rightarrow> n \<in> set device_numbers) [''COM'', ''LPT''])"

text \<open>The checks of one component of the loop, in the source's order.\<close>

definition check_component :: "string \<Rightarrow> unit result" where
  "check_component cmpt =
     (if list_ex is_control_byte cmpt then Inl (Vault ''control characters in path'')
      else if list_ex (\<lambda>c. c \<in> set non_portable_chars) cmpt \<or> ends_with [CHR ''.'', CHR '' ''] cmpt
      then Inl (Vault ''non-portable path component'')
      else if is_device cmpt then Inl (Vault ''reserved device name in path'')
      else Inr ())"

fun collect_components :: "string list \<Rightarrow> string list \<Rightarrow> string list result" where
  "collect_components [] acc = Inr acc"
| "collect_components (cmpt # rest) acc =
     (if cmpt = [] \<or> cmpt = ''.'' then collect_components rest acc
      else if cmpt = ''..'' then Inl (Vault ''path traversal ('..') is not allowed'')
      else rbind (check_component cmpt) (\<lambda>_. collect_components rest (acc @ [cmpt])))"

definition unify_separators :: "string \<Rightarrow> string" where
  "unify_separators p = map (\<lambda>c. if c = CHR 0x5C then slash else c) p"

definition normalize_stored_path :: "string \<Rightarrow> string result" where
  "normalize_stored_path path =
     (if path = [] \<or> length path > MAX_PATH_LEN then Inl (Vault ''invalid path length'')
      else
        let unified = unify_separators path in
        if prefix ''/'' unified then Inl (Vault ''absolute paths are not allowed'')
        else if length unified \<ge> 2 \<and> is_ascii_alphabetic (unified ! 0) \<and> unified ! 1 = CHR '':''
        then Inl (Vault ''drive-letter paths are not allowed'')
        else rbind (collect_components (split_on slash unified) []) (\<lambda>components.
          if components = [] then Inl (Vault ''path resolves to nothing'')
          else if length components > MAX_PATH_DEPTH then Inl (Vault ''path is too deep'')
          else Inr (path_of components)))"

definition has_spoofing :: "string \<Rightarrow> bool" where
  "has_spoofing p = list_ex is_spoofing_format_char (chars p)"

definition normalize_path :: "string \<Rightarrow> string result" where
  "normalize_path path =
     rbind (normalize_stored_path path) (\<lambda>norm.
       if has_spoofing norm
       then Inl (Vault ''invisible or bidirectional formatting characters in path'')
       else Inr norm)"

lemma ascii_less_128: "\<not> digit7 c \<Longrightarrow> (of_char c :: nat) < 128"
  by (cases c) (simp add: of_bool_def)

lemma utf8_chars_ascii: "\<forall>b\<in>set bs. b < 128 \<Longrightarrow> utf8_chars bs = bs"
  by (induction bs) auto

text \<open>Evaluation: an ASCII path has none of the formatting characters.\<close>

lemma has_spoofing_code [code]:
  "has_spoofing p = (if list_all (\<lambda>c. \<not> digit7 c) p then False else list_ex is_spoofing_format_char (chars p))"
proof (cases "list_all (\<lambda>c. \<not> digit7 c) p")
  case True
  then have *: "\<forall>b\<in>set (map of_char p). (b :: nat) < 128" by (auto simp: list_all_iff ascii_less_128)
  then have "chars p = map of_char p" by (simp add: chars_def utf8_chars_ascii)
  with * have "\<not> has_spoofing p" by (auto simp: has_spoofing_def list_ex_iff is_spoofing_format_char_def)
  with True show ?thesis by simp
qed (simp add: has_spoofing_def)

subsection \<open>Splitting and joining\<close>

lemma split_on_not_Nil [simp]: "split_on c s \<noteq> []"
  by (induction s) (auto split: list.splits)

lemma split_on_no_sep: "x \<in> set (split_on c s) \<Longrightarrow> c \<notin> set x"
proof (induction s arbitrary: x)
  case Nil
  then show ?case by simp
next
  case (Cons a s)
  then show ?case by (cases "split_on c s") (auto split: if_splits)
qed

lemma split_on_chars: "x \<in> set (split_on c s) \<Longrightarrow> set x \<subseteq> set s"
proof (induction s arbitrary: x)
  case Nil
  then show ?case by simp
next
  case (Cons a s)
  then show ?case by (cases "split_on c s") (fastforce split: if_splits)+
qed

lemma split_on_single: "c \<notin> set s \<Longrightarrow> split_on c s = [s]"
  by (induction s) auto

lemma split_on_append: "c \<notin> set s \<Longrightarrow> split_on c (s @ c # t) = s # split_on c t"
  by (induction s) auto

lemma split_on_path_of:
  "cs \<noteq> [] \<Longrightarrow> \<forall>x\<in>set cs. slash \<notin> set x \<Longrightarrow> split_on slash (path_of cs) = cs"
proof (induction cs rule: induct_list012)
  case (3 x y zs)
  have "split_on slash (path_of (x # y # zs)) = split_on slash (x @ slash # path_of (y # zs))"
    by simp
  also have "\<dots> = x # split_on slash (path_of (y # zs))"
    using 3 by (intro split_on_append) auto
  finally show ?case using 3 by simp
qed (auto simp: split_on_single)

lemma path_of_split_on: "path_of (split_on slash s) = s"
proof (induction s)
  case Nil
  then show ?case by simp
next
  case (Cons a s)
  then show ?case
    by (cases "split_on slash s"; cases "tl (split_on slash s)") (auto split: if_splits)
qed

lemma path_of_append:
  "cs \<noteq> [] \<Longrightarrow> ds \<noteq> [] \<Longrightarrow> path_of (cs @ ds) = path_of cs @ ''/'' @ path_of ds"
proof (induction cs rule: induct_list012)
  case (2 x)
  then show ?case by (cases ds) auto
qed auto

lemma length_path_of_filter: "length (path_of (filter P cs)) \<le> length (path_of cs)"
proof (induction cs rule: induct_list012)
  case (3 x y zs)
  then show ?case by (cases "filter P (y # zs)") (auto split: if_splits)
qed auto

lemma set_path_of: "set (path_of cs) \<subseteq> insert slash (\<Union> (set ` set cs))"
  by (induction cs rule: induct_list012) auto

subsection \<open>Canonical paths\<close>

definition portable_component :: "string \<Rightarrow> bool" where
  "portable_component c \<longleftrightarrow>
     c \<noteq> [] \<and> c \<noteq> ''.'' \<and> c \<noteq> ''..'' \<and> slash \<notin> set c \<and> CHR 0x5C \<notin> set c \<and>
     check_component c = Inr ()"

definition components :: "string \<Rightarrow> string list" where
  "components p = split_on slash p"

text \<open>Well-formed: a non-empty join of portable components. Canonical: within the depth and
  length limits as well.\<close>

definition wf_path :: "string \<Rightarrow> bool" where
  "wf_path p \<longleftrightarrow> p \<noteq> [] \<and> list_all portable_component (components p)"

definition canonical :: "string \<Rightarrow> bool" where
  "canonical p \<longleftrightarrow>
     wf_path p \<and> length (components p) \<le> MAX_PATH_DEPTH \<and> length p \<le> MAX_PATH_LEN"

lemma path_of_components [simp]: "path_of (components p) = p"
  by (simp add: components_def path_of_split_on)

lemma components_not_Nil [simp]: "components p \<noteq> []"
  by (simp add: components_def)

lemma components_inj: "components p = components q \<longleftrightarrow> p = q"
  by (metis path_of_components)

lemma components_path_of:
  "cs \<noteq> [] \<Longrightarrow> list_all portable_component cs \<Longrightarrow> components (path_of cs) = cs"
  by (simp add: components_def split_on_path_of portable_component_def list_all_iff)

lemma path_of_not_Nil: "cs \<noteq> [] \<Longrightarrow> list_all portable_component cs \<Longrightarrow> path_of cs \<noteq> []"
  by (cases cs; cases "tl cs") (auto simp: portable_component_def)

lemma wf_path_of: "cs \<noteq> [] \<Longrightarrow> list_all portable_component cs \<Longrightarrow> wf_path (path_of cs)"
  by (simp add: wf_path_def components_path_of path_of_not_Nil)

lemma check_component_Inr_chars:
  "check_component c = Inr () \<Longrightarrow> x \<in> set c \<Longrightarrow> x \<notin> set non_portable_chars"
  by (auto simp: check_component_def list_ex_iff split: if_splits)

lemma portable_no_colon: "portable_component c \<Longrightarrow> CHR '':'' \<notin> set c"
  by (auto simp: portable_component_def non_portable_chars_def dest: check_component_Inr_chars)

lemma collect_components_eq:
  "collect_components cs acc = Inr r \<longleftrightarrow>
     (\<forall>c\<in>set cs. c = [] \<or> c = ''.'' \<or> (c \<noteq> ''..'' \<and> check_component c = Inr ())) \<and>
     r = acc @ filter (\<lambda>c. c \<noteq> [] \<and> c \<noteq> ''.'') cs"
  by (induction cs acc rule: collect_components.induct) (auto simp: result_simps)

lemma unify_no_backslash: "CHR 0x5C \<notin> set (unify_separators p)"
  by (auto simp: unify_separators_def)

lemma unify_id: "CHR 0x5C \<notin> set p \<Longrightarrow> unify_separators p = p"
  by (induction p) (auto simp: unify_separators_def)

lemma length_unify [simp]: "length (unify_separators p) = length p"
  by (simp add: unify_separators_def)

lemma normalize_stored_path_canonical:
  assumes "normalize_stored_path p = Inr n"
  shows "canonical n"
proof -
  let ?u = "unify_separators p" and ?keep = "\<lambda>c :: string. c \<noteq> [] \<and> c \<noteq> ''.''"
  let ?cs = "filter ?keep (split_on slash ?u)"
  from assms have n: "n = path_of ?cs" and ne: "?cs \<noteq> []" and depth: "length ?cs \<le> MAX_PATH_DEPTH"
    and len: "length p \<le> MAX_PATH_LEN"
    and ok: "\<forall>c\<in>set (split_on slash ?u). c = [] \<or> c = ''.'' \<or> (c \<noteq> ''..'' \<and> check_component c = Inr ())"
    by (auto simp: normalize_stored_path_def Let_def result_simps collect_components_eq
        split: if_splits)
  have portable: "list_all portable_component ?cs"
    using ok split_on_no_sep [of _ slash ?u] split_on_chars [of _ slash ?u] unify_no_backslash [of p]
    by (fastforce simp: list_all_iff portable_component_def)
  have "length n \<le> length (path_of (split_on slash ?u))"
    unfolding n by (rule length_path_of_filter)
  then have "length n \<le> MAX_PATH_LEN" using len by (simp add: path_of_split_on)
  moreover have "components n = ?cs" unfolding n by (rule components_path_of [OF ne portable])
  moreover have "n \<noteq> []" unfolding n by (rule path_of_not_Nil [OF ne portable])
  ultimately show ?thesis using depth portable by (simp add: canonical_def wf_path_def)
qed

lemma canonical_normalizes:
  assumes "canonical p"
  shows "normalize_stored_path p = Inr p"
proof -
  let ?cs = "components p"
  from assms have portable: "list_all portable_component ?cs" and depth: "length ?cs \<le> MAX_PATH_DEPTH"
    and len: "p \<noteq> []" "length p \<le> MAX_PATH_LEN"
    by (auto simp: canonical_def wf_path_def)
  have chars: "set p \<subseteq> insert slash (\<Union> (set ` set ?cs))"
    using set_path_of [of ?cs] by simp
  have "CHR 0x5C \<notin> \<Union> (set ` set ?cs)" and "CHR '':'' \<notin> \<Union> (set ` set ?cs)"
    using portable portable_no_colon by (auto simp: list_all_iff portable_component_def)
  with chars have "CHR 0x5C \<notin> set p" and colon: "CHR '':'' \<notin> set p"
    by auto
  then have u: "unify_separators p = p" by (simp add: unify_id)
  have no_drive: "\<not> (length p \<ge> 2 \<and> p ! 1 = CHR '':'')"
    using colon by (metis One_nat_def Suc_1 Suc_le_eq nth_mem)
  have no_abs: "\<not> prefix ''/'' p"
  proof
    assume "prefix ''/'' p"
    then obtain r where "p = slash # r" by (auto simp: prefix_def)
    then have "[] \<in> set ?cs" by (simp add: components_def)
    with portable show False by (auto simp: list_all_iff portable_component_def)
  qed
  have keep: "filter (\<lambda>c. c \<noteq> [] \<and> c \<noteq> ''.'') ?cs = ?cs"
    using portable by (auto simp: filter_id_conv list_all_iff portable_component_def)
  have "collect_components ?cs [] = Inr ?cs"
    using portable keep by (auto simp: collect_components_eq list_all_iff portable_component_def)
  with u no_abs no_drive depth len show ?thesis
    by (auto simp: normalize_stored_path_def components_def [symmetric] Let_def not_le [symmetric])
qed

lemma normalize_stored_path_fixed: "canonical p \<longleftrightarrow> normalize_stored_path p = Inr p"
  using canonical_normalizes normalize_stored_path_canonical by blast

lemma normalize_path_eq_Inr:
  "normalize_path p = Inr n \<longleftrightarrow> normalize_stored_path p = Inr n \<and> \<not> has_spoofing n"
  by (auto simp: normalize_path_def result_simps)

lemma normalize_path_canonical: "normalize_path p = Inr n \<Longrightarrow> canonical n"
  by (auto simp: normalize_path_eq_Inr intro: normalize_stored_path_canonical)

lemma canonical_wf: "canonical p \<Longrightarrow> wf_path p"
  by (simp add: canonical_def)

subsection \<open>Properties\<close>

lemma ends_with_last: "ends_with ds c \<longleftrightarrow> c \<noteq> [] \<and> last c \<in> set ds"
  by (simp add: ends_with_def)

lemma not_device_iff:
  "\<not> is_device c \<longleftrightarrow>
     (let stem = to_uppercase (hd (split_on CHR ''.'' c))
      in stem \<notin> {''CON'', ''PRN'', ''AUX'', ''NUL''} \<and>
         (\<forall>pre\<in>{''COM'', ''LPT''}. \<forall>m\<in>{''1'', ''2'', ''3'', ''4'', ''5'', ''6'', ''7'', ''8'', ''9'',
            [CHR 0xC2, CHR 0xB9], [CHR 0xC2, CHR 0xB2], [CHR 0xC2, CHR 0xB3]}. stem \<noteq> pre @ m))"
proof -
  have "(case strip_prefix pre stem of None \<Rightarrow> False | Some n \<Rightarrow> n \<in> N) \<longleftrightarrow> (\<exists>n\<in>N. stem = pre @ n)"
    for pre stem :: string and N
    by (auto simp: strip_prefix_def prefix_def)
  then show ?thesis by (simp only: is_device_def device_numbers_def list_ex_iff Let_def) simp
qed

text \<open>C22. A path that normalization lets through is safe on every platform: it has at most 4096 bytes,
  and is the join of at most 64 components. Each component is neither empty nor a dot segment; has no
  separator of either platform, none of the seven characters that Windows gives a meaning to (colon, angle
  brackets, double quote, bar, question mark, asterisk) and no control byte; does not end in a dot or a space; and does not
  name a device, whatever its case and extension. Normalizing the result again gives it back.\<close>

theorem normalize_stored_path_safe:
  assumes "normalize_stored_path p = Inr n"
  shows "path_of (components n) = n \<and> components n \<noteq> [] \<and> length (components n) \<le> 64 \<and> length n \<le> 4096 \<and>
    (\<forall>c\<in>set (components n). c \<notin> {[], ''.'', ''..''} \<and>
       set c \<inter> {CHR ''/'', CHR 0x5C, CHR '':'', CHR ''<'', CHR ''>'', CHR 0x22, CHR ''|'', CHR ''?'', CHR ''*''} = {} \<and>
       (\<forall>x\<in>set c. 0x20 \<le> (of_char x :: nat) \<and> (of_char x :: nat) \<noteq> 0x7F) \<and>
       last c \<notin> {CHR ''.'', CHR '' ''} \<and>
       (let stem = to_uppercase (hd (split_on CHR ''.'' c))
        in stem \<notin> {''CON'', ''PRN'', ''AUX'', ''NUL''} \<and>
           (\<forall>pre\<in>{''COM'', ''LPT''}. \<forall>m\<in>{''1'', ''2'', ''3'', ''4'', ''5'', ''6'', ''7'', ''8'', ''9'',
              [CHR 0xC2, CHR 0xB9], [CHR 0xC2, CHR 0xB2], [CHR 0xC2, CHR 0xB3]}. stem \<noteq> pre @ m))) \<and>
    normalize_stored_path n = Inr n"
proof -
  have c: "canonical n" by (rule normalize_stored_path_canonical [OF assms])
  have safe: "c \<notin> {[], ''.'', ''..''} \<and>
       set c \<inter> {CHR ''/'', CHR 0x5C, CHR '':'', CHR ''<'', CHR ''>'', CHR 0x22, CHR ''|'', CHR ''?'', CHR ''*''} = {} \<and>
       (\<forall>x\<in>set c. 0x20 \<le> (of_char x :: nat) \<and> (of_char x :: nat) \<noteq> 0x7F) \<and> last c \<notin> {CHR ''.'', CHR '' ''} \<and>
       \<not> is_device c"
    if "c \<in> set (components n)" for c
  proof -
    have p: "portable_component c" using c that by (auto simp: canonical_def wf_path_def list_all_iff)
    then have chars: "set c \<inter> set non_portable_chars = {}"
      by (auto simp: portable_component_def dest: check_component_Inr_chars)
    from p have "c \<notin> {[], ''.'', ''..''} \<and> slash \<notin> set c \<and> CHR 0x5C \<notin> set c \<and> \<not> list_ex is_control_byte c \<and>
        \<not> ends_with [CHR ''.'', CHR '' ''] c \<and> \<not> is_device c"
      by (auto simp: portable_component_def check_component_def split: if_splits)
    with chars show ?thesis
      by (auto simp: non_portable_chars_def ends_with_last list_ex_iff is_control_byte_def not_less Let_def)
  qed
  show ?thesis
  proof (intro conjI)
    show "path_of (components n) = n" by simp
    show "components n \<noteq> []" "length (components n) \<le> 64" "length n \<le> 4096"
      using c components_not_Nil by (simp_all add: canonical_def MAX_PATH_DEPTH_def MAX_PATH_LEN_def)
    show "normalize_stored_path n = Inr n" by (rule canonical_normalizes [OF c])
  qed (intro ballI, rule safe [unfolded not_device_iff])
qed

theorem normalize_stored_path_safe_witness:
  "normalize_stored_path ''a//./b.txt'' = Inr ''a/b.txt'' \<and> normalize_stored_path ''a/b.txt'' = Inr ''a/b.txt''"
proof -
  have "normalize_stored_path ''a//./b.txt'' = Inr ''a/b.txt''" by code_simp
  with normalize_stored_path_safe [OF this] show ?thesis by blast
qed

end
