(* ===== verification/Core_Tree.thy ===== *)
theory Core_Tree
  imports Core_Path
begin

section \<open>Trees of vault paths: the abstract specification of the editors\<close>

text \<open>
  Both the in-memory \<open>Vault\<close> (vault.rs) and the batch editor of the at-rest format
  (format_v2.rs) keep an ordered list of entries with unique paths, in which every
  proper ancestor of an entry is a directory entry. This theory is the abstract
  specification they refine: a tree is the list of paths with their kinds, and the
  operations are those of the two editors without the entries' other fields. The
  invariant \<open>tree_wf\<close> and its preservation are proved here once; the locale
  \<open>tree_editor\<close> states what an editor has to provide to inherit them.
\<close>

subsection \<open>Kinds and trees\<close>

datatype entry_kind = File | Dir

type_synonym tree = "(string \<times> entry_kind) list"

definition beneath :: "string \<Rightarrow> string \<Rightarrow> bool" where
  "beneath a p = prefix (a @ ''/'') p"

definition ancestors :: "string \<Rightarrow> string list" where
  "ancestors p = map (\<lambda>i. path_of (take i (components p))) [1..<length (components p)]"

definition tree_wf :: "tree \<Rightarrow> bool" where
  "tree_wf t \<longleftrightarrow>
     distinct (map fst t) \<and> (\<forall>(p, k)\<in>set t. wf_path p) \<and>
     (\<forall>(p, k)\<in>set t. \<forall>a. beneath a p \<longrightarrow> (a, Dir) \<in> set t)"

subsection \<open>Ancestors\<close>

lemma split_on_append_sep: "split_on c (s @ c # t) = split_on c s @ split_on c t"
proof (induction s)
  case (Cons a s)
  then show ?case by (cases "split_on c s") (auto split: list.splits)
qed simp

lemma components_append: "components (b @ slash # r) = components b @ components r"
  by (simp add: components_def split_on_append_sep)

lemma beneath_components: "beneath a p \<longleftrightarrow> strict_prefix (components a) (components p)"
proof
  assume "beneath a p"
  then obtain r where "p = a @ slash # r" by (auto simp: beneath_def prefix_def)
  then show "strict_prefix (components a) (components p)"
    by (simp only: components_append strict_prefix_def) simp
next
  assume "strict_prefix (components a) (components p)"
  then obtain x xs where "components p = components a @ x # xs"
    by (rule strict_prefixE')
  then have "path_of (components p) = path_of (components a) @ slash # path_of (x # xs)"
    by (simp add: path_of_append)
  then have "p = a @ slash # path_of (x # xs)" by simp
  then show "beneath a p" by (auto simp: beneath_def prefix_def)
qed

lemma beneath_trans: "beneath a b \<Longrightarrow> beneath b c \<Longrightarrow> beneath a c"
  by (auto simp: beneath_components intro: prefix_order.less_trans)

lemma not_beneath_refl [simp]: "\<not> beneath a a"
  by (simp add: beneath_components)

lemma beneath_join: "beneath b (b @ slash # r)"
  by (auto simp: beneath_def prefix_def)

lemma beneath_join_iff:
  "beneath a (b @ slash # r) \<longleftrightarrow> beneath a b \<or> a = b \<or> (\<exists>s. a = b @ slash # s \<and> beneath s r)"
  (is "?l \<longleftrightarrow> ?r")
proof
  assume l: ?l
  then have pre: "strict_prefix (components a) (components b @ components r)"
    by (simp only: beneath_components components_append)
  then consider "strict_prefix (components a) (components b)" | "components a = components b"
    | x xs where "components a = components b @ x # xs" "strict_prefix (x # xs) (components r)"
    unfolding strict_prefix_def prefix_append by (metis append_Nil2 neq_Nil_conv same_append_eq)
  then show ?r
  proof cases
    case 3
    then have "path_of (components a) = path_of (components b) @ slash # path_of (x # xs)"
      by (simp add: path_of_append)
    then have a: "a = b @ slash # path_of (x # xs)" by simp
    then have "components b @ components (path_of (x # xs)) = components b @ x # xs"
      using 3(1) by (simp only: components_append [symmetric])
    then have "components (path_of (x # xs)) = x # xs" by simp
    with 3(2) a show ?r by (metis beneath_components)
  qed (auto simp: beneath_components components_inj)
next
  assume ?r
  then consider "beneath a b" | "a = b" | s where "a = b @ slash # s" "beneath s r" by blast
  then show ?l
  proof cases
    case 3
    then show ?thesis
      by (simp only: beneath_components components_append) (auto simp: strict_prefix_def)
  qed (auto intro: beneath_join beneath_trans)
qed

lemma set_ancestors: "wf_path p \<Longrightarrow> a \<in> set (ancestors p) \<longleftrightarrow> beneath a p"
proof
  assume wf: "wf_path p" and "a \<in> set (ancestors p)"
  then obtain i where i: "1 \<le> i" "i < length (components p)" and a: "a = path_of (take i (components p))"
    by (auto simp: ancestors_def)
  have "list_all portable_component (take i (components p))"
    using wf by (auto simp: wf_path_def list_all_iff dest: in_set_takeD)
  with i a have "components a = take i (components p)"
    by (auto intro!: components_path_of)
  then show "beneath a p" using i
    by (auto simp: beneath_components strict_prefix_def take_is_prefix)
next
  assume wf: "wf_path p" and "beneath a p"
  then have pre: "strict_prefix (components a) (components p)" by (simp add: beneath_components)
  let ?i = "length (components a)"
  have "?i < length (components p)" using pre by (rule prefix_length_less)
  moreover have "1 \<le> ?i" by (simp add: Suc_le_eq)
  moreover have "take ?i (components p) = components a"
    using pre by (auto simp: strict_prefix_def prefix_def)
  then have "a = path_of (take ?i (components p))" by simp
  ultimately show "a \<in> set (ancestors p)" unfolding ancestors_def by (auto intro!: image_eqI [of _ _ ?i])
qed

lemma wf_path_under: "wf_path p \<Longrightarrow> beneath a p \<Longrightarrow> wf_path a"
proof -
  assume wf: "wf_path p" and "beneath a p"
  then have "prefix (components a) (components p)" by (auto simp: beneath_components strict_prefix_def)
  with wf have "list_all portable_component (components a)"
    by (auto simp: wf_path_def prefix_def)
  then show "wf_path a" using wf_path_of [of "components a"] by simp
qed

lemma wf_path_join: "wf_path b \<Longrightarrow> wf_path (a @ slash # r) \<Longrightarrow> wf_path (b @ slash # r)"
  by (simp only: wf_path_def components_append) auto

text \<open>The ancestors are listed from the top: each one comes after its own ancestors.\<close>

lemma ancestors_closed:
  assumes wf: "wf_path p" and as: "ancestors p = xs @ a # ys" and "beneath b a"
  shows "b \<in> set xs"
proof -
  let ?cs = "components p"
  let ?i = "length xs"
  have len: "length (ancestors p) = length ?cs - 1" by (simp add: ancestors_def nth_upt)
  then have i: "Suc ?i < length ?cs" using as by simp
  then have "ancestors p ! ?i = path_of (take (Suc ?i) ?cs)" 
    using nth_upt [of 1 ?i "length ?cs"] by (simp add: ancestors_def)
  then have a: "a = path_of (take (Suc ?i) ?cs)" using as by simp
  have all: "list_all portable_component (take n ?cs)" for n
    using wf by (auto simp: wf_path_def list_all_iff dest: in_set_takeD)
  have ca: "components a = take (Suc ?i) ?cs"
    unfolding a by (rule components_path_of [OF _ all]) simp
  from \<open>beneath b a\<close> have pre: "strict_prefix (components b) (components a)" by (simp add: beneath_components)
  let ?j = "length (components b)"
  have j: "?j < Suc ?i" using prefix_length_less [OF pre] ca i by simp
  have "components b = take ?j (components a)" using pre by (auto simp: strict_prefix_def prefix_def)
  then have "components b = take ?j ?cs" using ca j by (simp add: take_take min_def)
  then have b: "b = path_of (take ?j ?cs)" by (metis path_of_components)
  have j1: "1 \<le> ?j" by (simp add: Suc_le_eq)
  have "ancestors p ! (?j - 1) = path_of (take ?j ?cs)"
    using i j j1 nth_upt [of 1 "?j - 1" "length ?cs"] by (simp add: ancestors_def nth_upt)
  then have "(xs @ a # ys) ! (?j - 1) = b" using as b by simp
  moreover have "?j - 1 < length xs" using j j1 by simp
  ultimately show ?thesis by (metis nth_append nth_mem)
qed

subsection \<open>Operations\<close>

type_synonym tree_result = "unit + tree"

definition tree_add_dir :: "string \<Rightarrow> tree \<Rightarrow> tree_result" where
  "tree_add_dir a t =
     (case map_of t a of
        Some Dir \<Rightarrow> Inr t
      | Some File \<Rightarrow> Inl ()
      | None \<Rightarrow> Inr (t @ [(a, Dir)]))"

definition tree_parents :: "string \<Rightarrow> tree \<Rightarrow> tree_result" where
  "tree_parents p t = rfold tree_add_dir (ancestors p) t"

definition tree_mkdir :: "string \<Rightarrow> tree \<Rightarrow> tree_result" where
  "tree_mkdir p t =
     (case map_of t p of
        Some Dir \<Rightarrow> Inr t
      | Some File \<Rightarrow> Inl ()
      | None \<Rightarrow> rbind (tree_parents p t) (\<lambda>t. Inr (t @ [(p, Dir)])))"

definition tree_put :: "string \<Rightarrow> tree \<Rightarrow> tree_result" where
  "tree_put p t =
     (case map_of t p of
        Some File \<Rightarrow> Inr t
      | Some Dir \<Rightarrow> Inl ()
      | None \<Rightarrow> rbind (tree_parents p t) (\<lambda>t. Inr (t @ [(p, File)])))"

definition tree_remove :: "string \<Rightarrow> tree \<Rightarrow> tree" where
  "tree_remove p t = filter (\<lambda>(q, k). q \<noteq> p \<and> \<not> beneath p q) t"

definition move_path :: "string \<Rightarrow> string \<Rightarrow> string \<Rightarrow> string" where
  "move_path from to q =
     (if q = from then to
      else case strip_prefix (from @ ''/'') q of Some rest \<Rightarrow> to @ ''/'' @ rest | None \<Rightarrow> q)"

definition tree_rename :: "string \<Rightarrow> string \<Rightarrow> tree \<Rightarrow> tree_result" where
  "tree_rename from to t =
     (if from = to then Inr t
      else if beneath from to \<or> map_of t from = None \<or> map_of t to \<noteq> None then Inl ()
      else rbind (tree_parents to t) (\<lambda>t. Inr (map (\<lambda>(q, k). (move_path from to q, k)) t)))"

subsection \<open>Preservation\<close>

lemma tree_wfD:
  assumes "tree_wf t"
  shows "distinct (map fst t)" "(p, k) \<in> set t \<Longrightarrow> wf_path p"
    "(p, k) \<in> set t \<Longrightarrow> beneath a p \<Longrightarrow> (a, Dir) \<in> set t"
  using assms by (auto simp: tree_wf_def)

lemma tree_wf_map_of: "tree_wf t \<Longrightarrow> map_of t p = Some k \<longleftrightarrow> (p, k) \<in> set t"
  by (simp add: tree_wfD(1))

lemma tree_wf_snoc:
  assumes "tree_wf t" "wf_path p" "map_of t p = None" "\<And>a. beneath a p \<Longrightarrow> (a, Dir) \<in> set t"
  shows "tree_wf (t @ [(p, k)])"
  using assms by (auto simp: tree_wf_def map_of_eq_None_iff)

lemma tree_parents_spec:
  assumes wf: "tree_wf t" and p: "wf_path p" and r: "tree_parents p t = Inr t'"
  shows "tree_wf t' \<and> (\<forall>a. beneath a p \<longrightarrow> (a, Dir) \<in> set t') \<and>
    (\<exists>new. t' = t @ new \<and> (\<forall>(a, k)\<in>set new. k = Dir \<and> beneath a p))"
proof -
  have "\<forall>t'. rfold tree_add_dir as t = Inr t' \<longrightarrow>
          tree_wf t' \<and> (\<forall>a\<in>set as. (a, Dir) \<in> set t') \<and>
          (\<exists>new. t' = t @ new \<and> (\<forall>(a, k)\<in>set new. k = Dir \<and> a \<in> set as))"
    if "prefix as (ancestors p)" for as
    using that
  proof (induction as rule: rev_induct)
    case Nil
    with wf show ?case by simp
  next
    case (snoc a as)
    show ?case
    proof (intro allI impI)
      fix t'
      assume "rfold tree_add_dir (as @ [a]) t = Inr t'"
      then obtain t1 where t1: "rfold tree_add_dir as t = Inr t1" and step: "tree_add_dir a t1 = Inr t'"
        by (auto simp: rfold_append result_simps)
      from snoc.prems have pre: "prefix as (ancestors p)" by (metis append_prefixD)
      from snoc.IH [OF pre] t1 obtain new where wf1: "tree_wf t1"
        and dirs: "\<forall>a\<in>set as. (a, Dir) \<in> set t1" and new: "t1 = t @ new"
        "\<forall>(a, k)\<in>set new. k = Dir \<and> a \<in> set as" by blast
      from snoc.prems obtain ys where eq: "ancestors p = as @ a # ys" by (auto simp: prefix_def)
      then have "a \<in> set (ancestors p)" by simp
      then have wfa: "wf_path a" using p set_ancestors wf_path_under by blast
      have anc: "beneath b a \<Longrightarrow> (b, Dir) \<in> set t1" for b
        using ancestors_closed [OF p eq] dirs by blast
      from step consider "map_of t1 a = Some Dir" "t' = t1" | "map_of t1 a = None" "t' = t1 @ [(a, Dir)]"
        by (auto simp: tree_add_dir_def split: option.splits entry_kind.splits)
      then show "tree_wf t' \<and> (\<forall>b\<in>set (as @ [a]). (b, Dir) \<in> set t') \<and>
          (\<exists>new. t' = t @ new \<and> (\<forall>(b, k)\<in>set new. k = Dir \<and> b \<in> set (as @ [a])))"
      proof cases
        case 1
        then have "(a, Dir) \<in> set t1" by (auto dest: map_of_SomeD)
        with 1 wf1 dirs new show ?thesis by auto
      next
        case 2
        from tree_wf_snoc [OF wf1 wfa 2(1) anc] have "tree_wf t'" by (simp add: 2)
        moreover have "t' = t @ (new @ [(a, Dir)])" by (simp add: 2 new)
        ultimately show ?thesis using 2 dirs new(2) by fastforce
      qed
    qed
  qed
  from this [of "ancestors p"] r show ?thesis
    using set_ancestors [OF p] by (auto simp: tree_parents_def)
qed

lemma tree_parents_fresh:
  assumes "tree_wf t" "wf_path p" "tree_parents p t = Inr t'"
  shows "map_of t' p = map_of t p"
proof -
  from tree_parents_spec [OF assms] obtain new where "t' = t @ new"
    and "\<forall>(a, k)\<in>set new. k = Dir \<and> beneath a p" by blast
  moreover from this have "map_of new p = None" by (auto simp: map_of_eq_None_iff)
  ultimately show ?thesis by (simp add: map_add_def split: option.splits)
qed

lemma tree_append_wf:
  assumes "tree_wf t" "wf_path p" "map_of t p = None" "tree_parents p t = Inr t'"
  shows "tree_wf (t' @ [(p, k)])"
  using tree_parents_spec [OF assms(1,2,4)] tree_parents_fresh [OF assms(1,2,4)] assms(2,3)
  by (auto intro!: tree_wf_snoc)

lemma tree_mkdir_wf: "tree_wf t \<Longrightarrow> wf_path p \<Longrightarrow> tree_mkdir p t = Inr t' \<Longrightarrow> tree_wf t'"
  by (auto simp: tree_mkdir_def result_simps intro: tree_append_wf
      split: option.splits entry_kind.splits)

lemma tree_put_wf: "tree_wf t \<Longrightarrow> wf_path p \<Longrightarrow> tree_put p t = Inr t' \<Longrightarrow> tree_wf t'"
  by (auto simp: tree_put_def result_simps intro: tree_append_wf
      split: option.splits entry_kind.splits)

lemma distinct_map_filter_fst: "distinct (map fst t) \<Longrightarrow> distinct (map fst (filter P t))"
  by (induction t) auto

lemma tree_remove_wf: "tree_wf t \<Longrightarrow> tree_wf (tree_remove p t)"
  unfolding tree_wf_def tree_remove_def
  by (auto simp: distinct_map_filter_fst dest: beneath_trans)

lemma move_path_cases:
  obtains "q = from" "move_path from to q = to"
  | r where "q = from @ slash # r" "move_path from to q = to @ slash # r"
  | "q \<noteq> from" "\<not> beneath from q" "move_path from to q = q"
  by (auto simp: move_path_def strip_prefix_def beneath_def prefix_def split: if_splits)

lemma move_path_under: "move_path from to (from @ slash # r) = to @ slash # r"
  by (simp add: move_path_def strip_prefix_def prefix_def)

lemma move_path_other: "q \<noteq> from \<Longrightarrow> \<not> beneath from q \<Longrightarrow> move_path from to q = q"
  by (simp add: move_path_def strip_prefix_def beneath_def)

lemma move_path_self [simp]: "move_path from to from = to"
  by (simp add: move_path_def)

text \<open>Moving a subtree to a fresh place whose ancestors are directories keeps the tree well formed.\<close>

lemma tree_move_wf:
  assumes wf: "tree_wf t" and to: "wf_path to" "\<And>k. (to, k) \<notin> set t" "\<not> beneath from to" "from \<noteq> to"
    and anc: "\<And>a. beneath a to \<Longrightarrow> (a, Dir) \<in> set t"
  shows "tree_wf (map (\<lambda>(q, k). (move_path from to q, k)) t)"
proof -
  let ?m = "move_path from to"
  have none_below: "(q, k) \<notin> set t" if "beneath to q" for q k
    using tree_wfD(3) [OF wf _ that] to(2) by blast
  have outside: "\<not> beneath to q \<and> q \<noteq> to" if "(q, k) \<in> set t" for q k
    using that none_below to(2) by blast
  have unmoved: "?m a = a" if "beneath a to" for a
    using that to(3) by (intro move_path_other) (auto dest: beneath_trans)
  have inj: "inj_on ?m (fst ` set t)"
  proof (rule inj_onI)
    fix x y assume xy: "x \<in> fst ` set t" "y \<in> fst ` set t" and eq: "?m x = ?m y"
    then obtain kx ky where "(x, kx) \<in> set t" "(y, ky) \<in> set t" by auto
    then have ox: "\<not> beneath to x" "x \<noteq> to" and oy: "\<not> beneath to y" "y \<noteq> to" using outside by blast+
    have sep: "to \<noteq> to @ slash # r" for r by simp
    show "x = y"
      using eq ox oy sep beneath_join
      by (cases rule: move_path_cases [of x "from" to]; cases rule: move_path_cases [of y "from" to]) auto
  qed
  have dist: "distinct (map fst (map (\<lambda>(q, k). (?m q, k)) t))"
    using tree_wfD(1) [OF wf] inj
    by (simp add: distinct_map comp_def case_prod_unfold inj_on_def image_iff)
  have wfm: "wf_path (?m q)" if "(q, k) \<in> set t" for q k
    using tree_wfD(2) [OF wf that] to(1)
    by (cases rule: move_path_cases [of q "from" to]) (auto dest: wf_path_join)
  have dirs: "\<exists>q. (q, Dir) \<in> set t \<and> ?m q = a" if q: "(q, k) \<in> set t" and a: "beneath a (?m q)" for q k a
  proof (cases rule: move_path_cases [of q "from" to])
    case 1
    with a anc unmoved show ?thesis by auto
  next
    case (2 r)
    with a consider "beneath a to" | "a = to" | s where "a = to @ slash # s" "beneath s r"
      by (auto simp: beneath_join_iff)
    then show ?thesis
    proof cases
      case 1
      with anc unmoved show ?thesis by auto
    next
      case 2
      have "(from, Dir) \<in> set t" using tree_wfD(3) [OF wf q] \<open>q = from @ slash # r\<close> beneath_join by simp
      with 2 show ?thesis by auto
    next
      case (3 s)
      then have "beneath (from @ slash # s) q" using \<open>q = from @ slash # r\<close> by (auto simp: beneath_join_iff)
      then have "(from @ slash # s, Dir) \<in> set t" by (rule tree_wfD(3) [OF wf q])
      with 3 move_path_under show ?thesis by blast
    qed
  next
    case 3
    with a have "beneath a q" by simp
    then have "(a, Dir) \<in> set t" by (rule tree_wfD(3) [OF wf q])
    moreover have "?m a = a" using 3 \<open>beneath a q\<close> by (intro move_path_other) (auto dest: beneath_trans)
    ultimately show ?thesis by auto
  qed
  show ?thesis unfolding tree_wf_def
  proof (intro conjI ballI)
    fix x assume "x \<in> set (map (\<lambda>(q, k). (?m q, k)) t)"
    then obtain q k where q: "(q, k) \<in> set t" and x: "x = (?m q, k)" by auto
    show "case x of (p, k) \<Rightarrow> wf_path p" using wfm [OF q] x by simp
    show "case x of (p, k) \<Rightarrow> \<forall>a. beneath a p \<longrightarrow> (a, Dir) \<in> set (map (\<lambda>(q, k). (?m q, k)) t)"
      using dirs [OF q] x by force
  qed (rule dist)
qed

lemma tree_rename_wf:
  assumes wf: "tree_wf t" and "wf_path to" and r: "tree_rename from to t = Inr t'"
  shows "tree_wf t'"
proof (cases "from = to")
  case True
  with r wf show ?thesis by (simp add: tree_rename_def)
next
  case False
  with r obtain t1 where c: "\<not> beneath from to" "map_of t to = None" and p: "tree_parents to t = Inr t1"
    and t': "t' = map (\<lambda>(q, k). (move_path from to q, k)) t1"
    by (auto simp: tree_rename_def result_simps split: if_splits)
  from tree_parents_spec [OF wf assms(2) p] have wf1: "tree_wf t1"
    and anc: "\<And>a. beneath a to \<Longrightarrow> (a, Dir) \<in> set t1" by blast+
  have "map_of t1 to = None" using tree_parents_fresh [OF wf assms(2) p] c by simp
  then have "\<And>k. (to, k) \<notin> set t1" by (auto simp: map_of_eq_None_iff image_iff)
  from tree_move_wf [OF wf1 assms(2) this c(1) False anc] show ?thesis by (simp add: t')
qed

subsection \<open>Canonical trees\<close>

text \<open>The paths of a tree are also within the depth and length limits.\<close>

definition tree_canonical :: "tree \<Rightarrow> bool" where
  "tree_canonical t \<longleftrightarrow> tree_wf t \<and> (\<forall>(p, k)\<in>set t. canonical p)"

lemma canonical_beneath: "canonical p \<Longrightarrow> beneath a p \<Longrightarrow> canonical a"
proof -
  assume p: "canonical p" and a: "beneath a p"
  then have "length (components a) < length (components p)"
    by (simp add: beneath_components prefix_length_less)
  moreover have "length a < length p"
    using prefix_length_le [of "a @ ''/''" p] a by (simp add: beneath_def)
  ultimately show "canonical a"
    using p wf_path_under [of p a] a by (simp add: canonical_def)
qed

lemma tree_canonicalD:
  "tree_canonical t \<Longrightarrow> tree_wf t" "tree_canonical t \<Longrightarrow> (p, k) \<in> set t \<Longrightarrow> canonical p"
  by (auto simp: tree_canonical_def)

lemma tree_parents_canonical:
  assumes "tree_canonical t" "canonical p" "tree_parents p t = Inr t'"
  shows "tree_canonical t'"
proof -
  from tree_parents_spec [OF tree_canonicalD(1) [OF assms(1)] canonical_wf [OF assms(2)] assms(3)]
  obtain new where "tree_wf t'" "t' = t @ new" "\<forall>(a, k)\<in>set new. k = Dir \<and> beneath a p" by blast
  with assms(1,2) show ?thesis
    unfolding tree_canonical_def by (auto dest: canonical_beneath)
qed

lemma tree_append_canonical:
  assumes "tree_canonical t" "canonical p" "map_of t p = None" "tree_parents p t = Inr t'"
  shows "tree_canonical (t' @ [(p, k)])"
  using tree_parents_canonical [OF assms(1,2,4)]
    tree_append_wf [OF tree_canonicalD(1) [OF assms(1)] canonical_wf [OF assms(2)] assms(3,4)] assms(2)
  by (auto simp: tree_canonical_def)

lemma tree_mkdir_canonical:
  "tree_canonical t \<Longrightarrow> canonical p \<Longrightarrow> tree_mkdir p t = Inr t' \<Longrightarrow> tree_canonical t'"
  by (auto simp: tree_mkdir_def result_simps intro: tree_append_canonical
      split: option.splits entry_kind.splits)

lemma tree_put_canonical:
  "tree_canonical t \<Longrightarrow> canonical p \<Longrightarrow> tree_put p t = Inr t' \<Longrightarrow> tree_canonical t'"
  by (auto simp: tree_put_def result_simps intro: tree_append_canonical
      split: option.splits entry_kind.splits)

lemma tree_remove_canonical: "tree_canonical t \<Longrightarrow> tree_canonical (tree_remove p t)"
  using tree_remove_wf [of t p] by (auto simp: tree_canonical_def tree_remove_def)

text \<open>In a well-formed tree no file has anything beneath it.\<close>

lemma tree_wf_file_leaf: "tree_wf t \<Longrightarrow> (q, File) \<in> set t \<Longrightarrow> (p, k) \<in> set t \<Longrightarrow> \<not> beneath q p"
  using tree_wfD(1,3) by (metis entry_kind.distinct(1) map_of_eq_Some_iff option.inject)

subsection \<open>Entry lists as trees\<close>

text \<open>Walking the components of a path while accumulating gives its ancestors.\<close>

fun accumulate :: "string \<Rightarrow> string list \<Rightarrow> string list" where
  "accumulate acc [] = []"
| "accumulate acc (c # cs) =
     (let acc' = (if acc \<noteq> [] then acc @ ''/'' else acc) @ c in acc' # accumulate acc' cs)"

lemma accumulate_path_of:
  "ds \<noteq> [] \<Longrightarrow> list_all portable_component ds \<Longrightarrow> list_all portable_component cs \<Longrightarrow>
     accumulate (path_of ds) cs = map (\<lambda>i. path_of (ds @ take i cs)) [1..<Suc (length cs)]"
proof (induction cs arbitrary: ds)
  case Nil
  then show ?case by simp
next
  case (Cons c cs)
  have ne: "path_of ds \<noteq> []" using Cons.prems by (simp add: path_of_not_Nil)
  have step: "path_of ds @ slash # c = path_of (ds @ [c])" using Cons.prems(1) by (simp add: path_of_append)
  have "accumulate (path_of (ds @ [c])) cs
          = map (\<lambda>i. path_of ((ds @ [c]) @ take i cs)) [1..<Suc (length cs)]"
    by (rule Cons.IH) (use Cons.prems in auto)
  also have "\<dots> = map (\<lambda>i. path_of (ds @ take i (c # cs))) [2..<Suc (length (c # cs))]"
    unfolding map_Suc_upt [symmetric] numeral_2_eq_2 One_nat_def length_Cons
    by (simp add: comp_def del: upt_Suc)
  finally show ?case using ne step
    by (simp add: upt_conv_Cons numeral_2_eq_2 del: upt_Suc)
qed

lemma accumulate_ancestors:
  assumes "wf_path p"
  shows "accumulate [] (take (length (components p) - 1) (components p)) = ancestors p"
proof (cases "components p")
  case Nil
  then show ?thesis by simp
next
  case (Cons c cs)
  with assms have c: "c \<noteq> []" "list_all portable_component [c]" "list_all portable_component (take (length cs - 1) cs)"
    and all: "list_all portable_component cs"
    by (auto simp: wf_path_def portable_component_def list_all_iff dest: in_set_takeD)
  show ?thesis
  proof (cases cs)
    case Nil
    with Cons show ?thesis by (simp add: ancestors_def)
  next
    case (Cons d ds)
    let ?n = "length cs - 1"
    have cps: "components p = c # cs" by fact
    have "accumulate [] (take (length (components p) - 1) (components p))
            = c # accumulate (path_of [c]) (take ?n cs)"
      using c Cons by (simp add: cps take_Cons')
    also have "accumulate (path_of [c]) (take ?n cs)
            = map (\<lambda>i. path_of ([c] @ take i (take ?n cs))) [1..<Suc (length (take ?n cs))]"
      by (rule accumulate_path_of) (use c in auto)
    also have "\<dots> = map (\<lambda>i. path_of (take i (c # cs))) [2..<length (c # cs)]"
    proof -
      have "map (\<lambda>i. path_of ([c] @ take i (take ?n cs))) [1..<Suc (length (take ?n cs))]
              = map (\<lambda>i. path_of (take (Suc i) (c # cs))) [1..<length cs]"
        using Cons by (intro map_cong) (auto simp: min_def)
      also have "\<dots> = map (\<lambda>i. path_of (take i (c # cs))) (map Suc [1..<length cs])" by (simp add: comp_def)
      finally show ?thesis by (simp add: map_Suc_upt numeral_2_eq_2)
    qed
    finally show ?thesis using Cons
      by (simp add: ancestors_def cps upt_conv_Cons numeral_2_eq_2 del: upt_Suc)
  qed
qed

lemma map_of_entries:
  "map_of (map (\<lambda>e. (f e, k e)) es) a = map_option k (find (\<lambda>e. f e = a) es)"
  by (induction es) auto

subsection \<open>Editors\<close>

text \<open>
  The interface an editor of entries offers its clients: its state has a shape, and an
  operation that succeeds changed the shape as the tree operation on the normalized
  path does. What the clients rely on follows: every successful operation keeps the
  shape a canonical tree.
\<close>

locale tree_editor =
  fixes shape :: "'s \<Rightarrow> tree"
    and mkdir :: "string \<Rightarrow> 's \<Rightarrow> 's \<Rightarrow> bool"
    and put :: "string \<Rightarrow> 's \<Rightarrow> 's \<Rightarrow> bool"
    and remove :: "string \<Rightarrow> 's \<Rightarrow> 's \<Rightarrow> bool"
  assumes mkdir_refines: "tree_canonical (shape s) \<Longrightarrow> mkdir p s s' \<Longrightarrow>
      \<exists>n. normalize_path p = Inr n \<and> tree_mkdir n (shape s) = Inr (shape s')"
    and put_refines: "tree_canonical (shape s) \<Longrightarrow> put p s s' \<Longrightarrow>
      \<exists>n. normalize_path p = Inr n \<and> tree_put n (shape s) = Inr (shape s')"
    and remove_refines: "tree_canonical (shape s) \<Longrightarrow> remove p s s' \<Longrightarrow>
      shape s' = shape s \<or> (\<exists>n. shape s' = tree_remove n (shape s))"
begin

lemma mkdir_canonical: "tree_canonical (shape s) \<Longrightarrow> mkdir p s s' \<Longrightarrow> tree_canonical (shape s')"
  using mkdir_refines tree_mkdir_canonical normalize_path_canonical by blast

lemma put_canonical: "tree_canonical (shape s) \<Longrightarrow> put p s s' \<Longrightarrow> tree_canonical (shape s')"
  using put_refines tree_put_canonical normalize_path_canonical by blast

lemma remove_canonical: "tree_canonical (shape s) \<Longrightarrow> remove p s s' \<Longrightarrow> tree_canonical (shape s')"
  using remove_refines [of s p s'] tree_remove_canonical by metis

text \<open>An operation of the editor, whichever it is, and any run of them.\<close>

definition edit :: "'s \<Rightarrow> 's \<Rightarrow> bool" where
  "edit s s' \<longleftrightarrow> (\<exists>p. mkdir p s s' \<or> put p s s' \<or> remove p s s')"

lemma edits_canonical: "edit\<^sup>*\<^sup>* s s' \<Longrightarrow> tree_canonical (shape s) \<Longrightarrow> tree_canonical (shape s')"
  by (induction rule: rtranclp_induct)
     (auto simp: edit_def dest: mkdir_canonical put_canonical remove_canonical)

end

end
