(* ===== verification/Core_World.thy ===== *)
theory Core_World
  imports Core_Externals "HOL-Library.AList" "HOL-Library.Sublist"
begin

section \<open>The effectful world: random bytes, the filesystem, failures\<close>

text \<open>
  Effectful functions are state passing over a record \<open>world\<close>: the operating
  system's random generator, a filesystem, and an oracle that decides which
  system call fails and how. A step returns a result together with the world it
  leaves, also when it fails, so that what an aborted operation leaves behind can
  be stated. The oracle is an arbitrary function of the call number: a theorem
  about every world is a theorem about every pattern of I/O failures.

  The filesystem maps path strings to files, directories and symbolic links. Only
  a link at the last component is followed, at most forty times.
\<close>

datatype node = FileNode bytes | DirNode | SymlinkNode string

record world =
  rng_source :: "nat \<Rightarrow> nat \<Rightarrow> bytes option"
  rng_calls :: nat
  io_faults :: "nat \<Rightarrow> io_kind option"
  io_calls :: nat
  fs :: "(string \<times> node) list"

type_synonym ('s, 'e, 'a) fallible = "'s \<Rightarrow> ('e + 'a) \<times> 's"

type_synonym ('s, 'a) op = "('s, error, 'a) fallible"

type_synonym 'a io = "(world, 'a) op"

subsection \<open>The monad\<close>

text \<open>
  An operation on a state \<open>'s\<close>: a method taking \<open>&mut self\<close>, or a function that
  acts on the world. \<open>bnd\<close> is the \<open>?\<close> operator.
\<close>

definition ret :: "'a \<Rightarrow> ('s, 'e, 'a) fallible" where
  "ret x = (\<lambda>w. (Inr x, w))"

definition throw :: "'e \<Rightarrow> ('s, 'e, 'a) fallible" where
  "throw e = (\<lambda>w. (Inl e, w))"

definition lift :: "'e + 'a \<Rightarrow> ('s, 'e, 'a) fallible" where
  "lift r = (\<lambda>w. (r, w))"

definition bnd :: "('s, 'e, 'a) fallible \<Rightarrow> ('a \<Rightarrow> ('s, 'e, 'b) fallible) \<Rightarrow> ('s, 'e, 'b) fallible" where
  "bnd m f = (\<lambda>w. case m w of (Inl e, w') \<Rightarrow> (Inl e, w') | (Inr x, w') \<Rightarrow> f x w')"

definition gets :: "('s \<Rightarrow> 'a) \<Rightarrow> ('s, 'e, 'a) fallible" where
  "gets f = (\<lambda>w. (Inr (f w), w))"

definition modify :: "('s \<Rightarrow> 's) \<Rightarrow> ('s, 'e, unit) fallible" where
  "modify f = (\<lambda>w. (Inr (), f w))"

definition attempt :: "('s, 'e, 'a) fallible \<Rightarrow> ('s, 'e, 'e + 'a) fallible" where
  "attempt m = (\<lambda>w. case m w of (r, w') \<Rightarrow> (Inr r, w'))"

fun io_fold :: "('a \<Rightarrow> 'b \<Rightarrow> ('s, 'e, 'b) fallible) \<Rightarrow> 'a list \<Rightarrow> 'b \<Rightarrow> ('s, 'e, 'b) fallible" where
  "io_fold f [] s = ret s"
| "io_fold f (x # xs) s = bnd (f x s) (io_fold f xs)"

fun io_for :: "('a \<Rightarrow> ('s, 'e, unit) fallible) \<Rightarrow> 'a list \<Rightarrow> ('s, 'e, unit) fallible" where
  "io_for f [] = ret ()"
| "io_for f (x # xs) = bnd (f x) (\<lambda>_. io_for f xs)"

lemma ret_run [simp]: "ret x w = (Inr x, w)"
  and throw_run [simp]: "throw e w = (Inl e, w)"
  and lift_run [simp]: "lift r w = (r, w)"
  and gets_run [simp]: "gets f w = (Inr (f w), w)"
  and modify_run [simp]: "modify g w = (Inr (), g w)"
  by (simp_all add: ret_def throw_def lift_def gets_def modify_def)

text \<open>For evaluation: an operation is unfolded only when it is run.\<close>

lemma op_code [code]:
  "ret x w = (Inr x, w)" "throw e w = (Inl e, w)" "lift r w = (r, w)" "gets f w = (Inr (f w), w)" "modify g w = (Inr (), g w)"
  "bnd m h w = (case m w of (Inl e, w') \<Rightarrow> (Inl e, w') | (Inr x, w') \<Rightarrow> h x w')"
  "attempt m w = (case m w of (r, w') \<Rightarrow> (Inr r, w'))"
  by (simp_all add: bnd_def attempt_def)

lemma bnd_run_Inl [simp]: "m w = (Inl e, w') \<Longrightarrow> bnd m f w = (Inl e, w')"
  and bnd_run_Inr [simp]: "m w = (Inr x, w') \<Longrightarrow> bnd m f w = f x w'"
  by (simp_all add: bnd_def)

lemma bnd_eq_Inr:
  "bnd m f w = (Inr y, w2) \<longleftrightarrow> (\<exists>x w1. m w = (Inr x, w1) \<and> f x w1 = (Inr y, w2))"
  by (auto simp: bnd_def split: prod.splits sum.splits)

lemma bnd_eq_Inl:
  "bnd m f w = (Inl e, w2) \<longleftrightarrow>
     m w = (Inl e, w2) \<or> (\<exists>x w1. m w = (Inr x, w1) \<and> f x w1 = (Inl e, w2))"
  by (auto simp: bnd_def split: prod.splits sum.splits)

lemma bnd_eq:
  "bnd m f w = (r, w2) \<longleftrightarrow>
     (\<exists>e. m w = (Inl e, w2) \<and> r = Inl e) \<or> (\<exists>x w1. m w = (Inr x, w1) \<and> f x w1 = (r, w2))"
  by (auto simp: bnd_def split: prod.splits sum.splits)

lemma bnd_ret_left [simp]: "bnd (ret x) f = f x"
  and bnd_throw_left [simp]: "bnd (throw e) f = throw e"
  and bnd_lift_Inr [simp]: "bnd (lift (Inr x)) f = f x"
  and bnd_lift_Inl [simp]: "bnd (lift (Inl e)) f = throw e"
  by (rule ext, simp add: bnd_def)+

lemma bnd_assoc: "bnd (bnd m f) g = bnd m (\<lambda>x. bnd (f x) g)"
  by (rule ext) (auto simp: bnd_def split: prod.splits sum.splits)

lemma attempt_run: "attempt m w = (Inr (fst (m w)), snd (m w))"
  by (simp add: attempt_def split: prod.splits)

lemma attempt_eq: "attempt m w = (r, w') \<longleftrightarrow> (\<exists>r'. r = Inr r' \<and> m w = (r', w'))"
  by (auto simp: attempt_run)

lemma run_fst: "fst x = r \<Longrightarrow> x = (r, snd x)"
  by (cases x) simp

lemmas io_run = bnd_eq_Inr bnd_eq_Inl attempt_eq

subsection \<open>What a step leaves alone\<close>

text \<open>
  \<open>preserves P m\<close>: whatever \<open>m\<close> returns, it keeps \<open>P\<close>. The rules follow the
  structure of the monad, so that a frame property of a handler is proved from the
  frame properties of its steps.
\<close>

named_theorems preserves_intros \<open>frame rules of the monad and of the system calls\<close>

definition preserves :: "('s \<Rightarrow> bool) \<Rightarrow> ('s, 'e, 'a) fallible \<Rightarrow> bool" where
  "preserves P m \<longleftrightarrow> (\<forall>w r w'. P w \<longrightarrow> m w = (r, w') \<longrightarrow> P w')"

lemma preservesI: "(\<And>w r w'. P w \<Longrightarrow> m w = (r, w') \<Longrightarrow> P w') \<Longrightarrow> preserves P m"
  by (auto simp: preserves_def)

lemma preservesD: "preserves P m \<Longrightarrow> m w = (r, w') \<Longrightarrow> P w \<Longrightarrow> P w'"
  unfolding preserves_def by blast

lemma preserves_ret [preserves_intros]: "preserves P (ret x)"
  and preserves_throw [preserves_intros]: "preserves P (throw e)"
  and preserves_lift [preserves_intros]: "preserves P (lift r)"
  and preserves_gets [preserves_intros]: "preserves P (gets g)"
  by (auto simp: preserves_def)

lemma preserves_bnd [preserves_intros]:
  "preserves P m \<Longrightarrow> (\<And>x. preserves P (f x)) \<Longrightarrow> preserves P (bnd m f)"
  unfolding preserves_def bnd_eq by blast

lemma preserves_attempt [preserves_intros]: "preserves P m \<Longrightarrow> preserves P (attempt m)"
  unfolding preserves_def attempt_eq by blast

lemma preserves_if [preserves_intros]:
  "(b \<Longrightarrow> preserves P m) \<Longrightarrow> (\<not> b \<Longrightarrow> preserves P n) \<Longrightarrow> preserves P (if b then m else n)"
  by simp

lemma preserves_option [preserves_intros]:
  "preserves P m \<Longrightarrow> (\<And>x. preserves P (f x)) \<Longrightarrow> preserves P (case y of None \<Rightarrow> m | Some x \<Rightarrow> f x)"
  by (cases y) auto

lemma preserves_prod [preserves_intros]:
  "(\<And>a b. preserves P (f a b)) \<Longrightarrow> preserves P (case p of (a, b) \<Rightarrow> f a b)"
  by (cases p) auto

lemma preserves_io_for [preserves_intros]:
  "(\<And>x. x \<in> set xs \<Longrightarrow> preserves P (f x)) \<Longrightarrow> preserves P (io_for f xs)"
  by (induction xs) (auto intro: preserves_intros)

lemma preserves_io_fold [preserves_intros]:
  "(\<And>x s. x \<in> set xs \<Longrightarrow> preserves P (f x s)) \<Longrightarrow> preserves P (io_fold f xs s)"
  by (induction xs arbitrary: s) (auto intro: preserves_intros)

subsection \<open>Random bytes (secret.rs over getrandom)\<close>

definition getrandom :: "nat \<Rightarrow> bytes io" where
  "getrandom n = (\<lambda>w.
     let w' = w\<lparr>rng_calls := rng_calls w + 1\<rparr>
     in case rng_source w (rng_calls w) n of
          None \<Rightarrow> (Inl Rng, w')
        | Some b \<Rightarrow> (Inr b, w'))"

definition random_array :: "nat \<Rightarrow> bytes io" where
  "random_array n = getrandom n"

definition random_vec :: "nat \<Rightarrow> bytes io" where
  "random_vec n = getrandom n"

definition symkey_random :: "bytes io" where
  "symkey_random = random_array 32"

definition ct_eq :: "bytes \<Rightarrow> bytes \<Rightarrow> bool" where
  "ct_eq a b \<longleftrightarrow> length a = length b \<and> list_all2 (=) a b"

lemma ct_eq_iff [simp]: "ct_eq a b \<longleftrightarrow> a = b"
  by (auto simp: ct_eq_def list.rel_eq)

text \<open>The generator fills the buffer it is given: as many bytes as were asked for.\<close>

definition rng_fills :: "world \<Rightarrow> bool" where
  "rng_fills w \<longleftrightarrow> (\<forall>k n b. rng_source w k n = Some b \<longrightarrow> length b = n)"

lemma getrandom_length:
  "rng_fills w \<Longrightarrow> getrandom n w = (Inr b, w') \<Longrightarrow> length b = n"
  by (auto simp: getrandom_def rng_fills_def Let_def split: option.splits)

lemma getrandom_world:
  "getrandom n w = (r, w') \<Longrightarrow> w' = w\<lparr>rng_calls := rng_calls w + 1\<rparr>"
  by (auto simp: getrandom_def Let_def split: option.splits)

lemma getrandom_fills: "rng_fills w \<Longrightarrow> getrandom n w = (r, w') \<Longrightarrow> rng_fills w'"
  using getrandom_world [of n w r w'] by (simp add: rng_fills_def)

lemma preserves_getrandom [preserves_intros]:
  "(\<And>w k. P w \<Longrightarrow> P (w\<lparr>rng_calls := k\<rparr>)) \<Longrightarrow> preserves P (getrandom n)"
  by (auto intro!: preservesI dest!: getrandom_world)

lemmas random_defs = random_array_def random_vec_def symkey_random_def

subsection \<open>System calls\<close>

text \<open>Every call consults the oracle first; a call that fails changes nothing else.\<close>

definition syscall :: "'a io \<Rightarrow> 'a io" where
  "syscall m = (\<lambda>w.
     let w' = w\<lparr>io_calls := io_calls w + 1\<rparr>
     in case io_faults w (io_calls w) of
          Some k \<Rightarrow> (Inl (Io (IoKind k)), w')
        | None \<Rightarrow> m w')"

lemma syscall_code [code]:
  "syscall m w = (case io_faults w (io_calls w) of
       Some k \<Rightarrow> (Inl (Io (IoKind k)), w\<lparr>io_calls := io_calls w + 1\<rparr>)
     | None \<Rightarrow> m (w\<lparr>io_calls := io_calls w + 1\<rparr>))"
  by (simp add: syscall_def Let_def split: option.splits)

definition fs_get :: "world \<Rightarrow> string \<Rightarrow> node option" where
  "fs_get w p = map_of (fs w) p"

definition fs_put :: "string \<Rightarrow> node \<Rightarrow> world \<Rightarrow> world" where
  "fs_put p n w = w\<lparr>fs := AList.update p n (fs w)\<rparr>"

definition fs_del :: "string \<Rightarrow> world \<Rightarrow> world" where
  "fs_del p w = w\<lparr>fs := AList.delete p (fs w)\<rparr>"

lemma fs_get_put: "fs_get (fs_put p n w) q = (if q = p then Some n else fs_get w q)"
  by (simp add: fs_get_def fs_put_def update_conv')

lemma fs_get_del: "fs_get (fs_del p w) q = (if q = p then None else fs_get w q)"
  by (simp add: fs_get_def fs_del_def delete_conv')

lemma fs_get_calls [simp]:
  "fs_get (w\<lparr>io_calls := k\<rparr>) = fs_get w" "fs_get (w\<lparr>rng_calls := k\<rparr>) = fs_get w"
  by (simp_all add: fs_get_def fun_eq_iff)

fun follow :: "nat \<Rightarrow> world \<Rightarrow> string \<Rightarrow> node option" where
  "follow 0 w p = None"
| "follow (Suc n) w p = (case fs_get w p of Some (SymlinkNode t) \<Rightarrow> follow n w t | x \<Rightarrow> x)"

definition not_found :: "'a io" where
  "not_found = throw (Io (IoKind NotFound))"

definition std_metadata :: "string \<Rightarrow> node io" where
  "std_metadata p = syscall (\<lambda>w. case follow 40 w p of None \<Rightarrow> not_found w | Some n \<Rightarrow> ret n w)"

definition std_symlink_metadata :: "string \<Rightarrow> node io" where
  "std_symlink_metadata p = syscall (\<lambda>w. case fs_get w p of None \<Rightarrow> not_found w | Some n \<Rightarrow> ret n w)"

definition std_open_read :: "string \<Rightarrow> node io" where
  "std_open_read p = syscall (\<lambda>w. case follow 40 w p of None \<Rightarrow> not_found w | Some n \<Rightarrow> ret n w)"

text \<open>\<open>Path::parent\<close> (with the directory a bare name is in, as the code spells it) and
  \<open>Path::join\<close> on a relative component.\<close>

definition path_parent :: "string \<Rightarrow> string" where
  "path_parent p = rev (tl (dropWhile (\<lambda>c. c \<noteq> CHR ''/'') (rev p)))"

definition parent_or_dot :: "string \<Rightarrow> string" where
  "parent_or_dot p =
     (if path_parent p \<noteq> [] then path_parent p else if prefix ''/'' p then ''/'' else ''.'')"

definition path_join :: "string \<Rightarrow> string \<Rightarrow> string" where
  "path_join d c = (if d = [] then c else if last d = CHR ''/'' then d @ c else d @ ''/'' @ c)"

definition path_file_name :: "string \<Rightarrow> string" where
  "path_file_name p = rev (takeWhile (\<lambda>c. c \<noteq> CHR ''/'') (rev p))"

definition std_create_new :: "string \<Rightarrow> unit io" where
  "std_create_new p = syscall (\<lambda>w.
     if fs_get w p \<noteq> None then (Inl (Io (IoKind AlreadyExists)), w)
     else if fs_get w (parent_or_dot p) \<noteq> Some DirNode then not_found w
     else (Inr (), fs_put p (FileNode []) w))"

definition std_append :: "string \<Rightarrow> bytes \<Rightarrow> unit io" where
  "std_append p b = syscall (\<lambda>w. case fs_get w p of
       Some (FileNode old) \<Rightarrow> (Inr (), fs_put p (FileNode (old @ b)) w)
     | _ \<Rightarrow> not_found w)"

definition std_sync :: "string \<Rightarrow> unit io" where
  "std_sync p = syscall (ret ())"

definition std_rename :: "string \<Rightarrow> string \<Rightarrow> unit io" where
  "std_rename a b = syscall (\<lambda>w. case fs_get w a of
       None \<Rightarrow> not_found w
     | Some n \<Rightarrow> if fs_get w b = Some DirNode then (Inl (Io (IoKind OtherIo)), w)
                 else (Inr (), fs_put b n (fs_del a w)))"

definition std_remove_file :: "string \<Rightarrow> unit io" where
  "std_remove_file p = syscall (\<lambda>w. case fs_get w p of
       None \<Rightarrow> not_found w
     | Some DirNode \<Rightarrow> (Inl (Io (IoKind OtherIo)), w)
     | Some _ \<Rightarrow> (Inr (), fs_del p w))"

definition std_create_dir :: "string \<Rightarrow> unit io" where
  "std_create_dir p = syscall (\<lambda>w.
     if fs_get w p \<noteq> None then (Inl (Io (IoKind AlreadyExists)), w)
     else if fs_get w (parent_or_dot p) \<noteq> Some DirNode then not_found w
     else (Inr (), fs_put p DirNode w))"

text \<open>The names in a directory, in the order of the listing.\<close>

definition std_read_dir :: "string \<Rightarrow> string list io" where
  "std_read_dir d = syscall (\<lambda>w. case fs_get w d of
       Some DirNode \<Rightarrow> (Inr (map path_file_name (filter (\<lambda>p. parent_or_dot p = d \<and> p \<noteq> d) (map fst (fs w)))), w)
     | _ \<Rightarrow> not_found w)"

text \<open>The kind of an I/O error.\<close>

fun io_error_kind :: "io_error \<Rightarrow> io_kind" where
  "io_error_kind (IoKind k) = k"
| "io_error_kind (IoWrapped k e) = k"

fun has_kind :: "io_kind \<Rightarrow> error \<Rightarrow> bool" where
  "has_kind k (Io e) = (io_error_kind e = k)"
| "has_kind k _ = False"

lemma syscall_eq:
  "syscall m w = (r, w') \<longleftrightarrow>
     (let w1 = w\<lparr>io_calls := io_calls w + 1\<rparr> in
       case io_faults w (io_calls w) of
         Some k \<Rightarrow> r = Inl (Io (IoKind k)) \<and> w' = w1
       | None \<Rightarrow> m w1 = (r, w'))"
  by (auto simp: syscall_def Let_def split: option.splits)

lemma preserves_syscall [preserves_intros]:
  assumes "\<And>w k. P w \<Longrightarrow> P (w\<lparr>io_calls := k\<rparr>)" and "preserves P m"
  shows "preserves P (syscall m)"
  using assms
  by (intro preservesI) (auto simp: syscall_eq Let_def split: option.splits dest: preservesD)

text \<open>A fault-free world: every system call goes through.\<close>

definition no_faults :: "world \<Rightarrow> bool" where
  "no_faults w \<longleftrightarrow> io_faults w = (\<lambda>_. None)"

lemma syscall_no_faults: "no_faults w \<Longrightarrow> syscall m w = m (w\<lparr>io_calls := io_calls w + 1\<rparr>)"
  by (simp add: syscall_def no_faults_def Let_def)

subsection \<open>Acting on one part of a state\<close>

definition on_fst :: "('s, 'e, 'a) fallible \<Rightarrow> ('s \<times> 't, 'e, 'a) fallible" where
  "on_fst m = (\<lambda>(s, t). case m s of (r, s') \<Rightarrow> (r, (s', t)))"

definition on_snd :: "('t, 'e, 'a) fallible \<Rightarrow> ('s \<times> 't, 'e, 'a) fallible" where
  "on_snd m = (\<lambda>(s, t). case m t of (r, t') \<Rightarrow> (r, (s, t')))"

text \<open>Running an operation with a local state that is created here.\<close>

definition with_local :: "'t \<Rightarrow> ('s \<times> 't, 'e, 'a) fallible \<Rightarrow> ('s, 'e, 'a \<times> 't) fallible" where
  "with_local t m = (\<lambda>s. case m (s, t) of (r, (s', t')) \<Rightarrow> (map_sum id (\<lambda>x. (x, t')) r, s'))"

lemma on_fst_run [simp]: "on_fst m (s, t) = (fst (m s), (snd (m s), t))"
  and on_snd_run [simp]: "on_snd n (s, t) = (fst (n t), (s, snd (n t)))"
  by (simp_all add: on_fst_def on_snd_def split: prod.splits)

lemma on_fst_eq: "on_fst m (s, t) = (r, (s', t')) \<longleftrightarrow> m s = (r, s') \<and> t' = t"
  and on_snd_eq: "on_snd n (s, t) = (r, (s', t')) \<longleftrightarrow> n t = (r, t') \<and> s' = s"
  by (auto simp: on_fst_def on_snd_def split: prod.splits)

lemma local_code [code]:
  "on_fst m (s, t) = (case m s of (r, s') \<Rightarrow> (r, (s', t)))" "on_snd n (s, t) = (case n t of (r, t') \<Rightarrow> (r, (s, t')))"
  "with_local t p s = (case p (s, t) of (r, (s', t')) \<Rightarrow> (map_sum id (\<lambda>x. (x, t')) r, s'))"
  by (simp_all add: on_fst_def on_snd_def with_local_def)

end
