(* ===== verification/Core_Vault.thy ===== *)
theory Core_Vault
  imports Core_Tree Core_World
begin

section \<open>The in-memory vault (vault.rs)\<close>

text \<open>
  \<open>Vault\<close> is an ordered list of entries with unique normalized paths. The
  mutating methods take \<open>&mut self\<close>: their model returns the result together
  with the vault they leave, also on an error. \<open>check_tree_shape\<close> and
  \<open>preflight_extraction\<close> are the two gates that run before a manifest is used and
  before anything is extracted.
\<close>

subsection \<open>Data\<close>

record vault_entry =
  ve_path :: string
  ve_kind :: entry_kind
  ve_mtime :: "int option"
  ve_mode :: "u32 option"
  ve_content :: bytes

record vault =
  vault_name :: string
  vault_created_at :: int
  vault_entries :: "vault_entry list"

definition ve_size :: "vault_entry \<Rightarrow> u64" where
  "ve_size e = len64 (ve_content e)"

definition vault_new :: "string \<Rightarrow> int \<Rightarrow> vault" where
  "vault_new name created_at =
     \<lparr>vault_name = name, vault_created_at = created_at, vault_entries = []\<rparr>"

definition file_count :: "vault \<Rightarrow> nat" where
  "file_count v = length (filter (\<lambda>e. ve_kind e = File) (vault_entries v))"

definition total_size :: "vault \<Rightarrow> u64" where
  "total_size v = sum_list (map ve_size (vault_entries v))"

definition vault_contains :: "vault \<Rightarrow> string \<Rightarrow> bool" where
  "vault_contains v p = list_ex (\<lambda>e. ve_path e = p) (vault_entries v)"

definition vault_get :: "vault \<Rightarrow> string \<Rightarrow> vault_entry option" where
  "vault_get v p =
     (case normalize_path p of
        Inl _ \<Rightarrow> None
      | Inr norm \<Rightarrow> find (\<lambda>e. ve_path e = norm) (vault_entries v))"

subsection \<open>Mutations\<close>

definition vault_dir_entry :: "string \<Rightarrow> vault_entry" where
  "vault_dir_entry p = \<lparr>ve_path = p, ve_kind = Dir, ve_mtime = None, ve_mode = None, ve_content = []\<rparr>"

fun ensure_parents_loop ::
  "vault_entry list \<Rightarrow> string \<Rightarrow> string list \<Rightarrow> unit result \<times> vault_entry list" where
  "ensure_parents_loop es acc [] = (Inr (), es)"
| "ensure_parents_loop es acc (c # cs) =
     (let acc' = (if acc \<noteq> [] then acc @ ''/'' else acc) @ c in
      case find (\<lambda>e. ve_path e = acc') es of
        Some e \<Rightarrow>
          if ve_kind e = Dir then ensure_parents_loop es acc' cs
          else (Inl (Vault (''a file exists at '' @ acc' @ ''; it cannot contain other entries'')), es)
      | None \<Rightarrow> ensure_parents_loop (es @ [vault_dir_entry acc']) acc' cs)"

definition ensure_parents :: "string \<Rightarrow> (vault, unit) op" where
  "ensure_parents path v =
     (let comps = split_on slash path;
          (r, es) = ensure_parents_loop (vault_entries v) [] (take (length comps - 1) comps)
      in (r, v\<lparr>vault_entries := es\<rparr>))"

definition push_entry :: "vault_entry \<Rightarrow> vault \<Rightarrow> vault" where
  "push_entry e v = v\<lparr>vault_entries := vault_entries v @ [e]\<rparr>"

definition add_file :: "string \<Rightarrow> bytes \<Rightarrow> int option \<Rightarrow> u32 option \<Rightarrow> (vault, unit) op" where
  "add_file path content mtime mode =
     bnd (lift (normalize_path path)) (\<lambda>norm.
     bnd (gets (\<lambda>v. vault_contains v norm)) (\<lambda>there.
     if there then throw (Vault (''path already exists: '' @ norm))
     else
       bnd (ensure_parents norm) (\<lambda>_.
       modify (push_entry \<lparr>ve_path = norm, ve_kind = File, ve_mtime = mtime,
                           ve_mode = mode, ve_content = content\<rparr>))))"

definition add_dir :: "string \<Rightarrow> (vault, unit) op" where
  "add_dir path =
     bnd (lift (normalize_path path)) (\<lambda>norm.
     bnd (gets (\<lambda>v. find (\<lambda>e. ve_path e = norm) (vault_entries v))) (\<lambda>existing.
     case existing of
       Some e \<Rightarrow>
         if ve_kind e = Dir then ret () else throw (Vault (''a file exists at '' @ norm))
     | None \<Rightarrow>
         bnd (ensure_parents norm) (\<lambda>_.
         modify (push_entry (vault_dir_entry norm)))))"

definition vault_remove :: "string \<Rightarrow> vault \<Rightarrow> nat \<times> vault" where
  "vault_remove path v =
     (case normalize_path path of
        Inl _ \<Rightarrow> (0, v)
      | Inr norm \<Rightarrow>
          let kept = filter (\<lambda>e. ve_path e \<noteq> norm \<and> \<not> prefix (norm @ ''/'') (ve_path e)) (vault_entries v)
          in (length (vault_entries v) - length kept, v\<lparr>vault_entries := kept\<rparr>))"

subsection \<open>The shape check\<close>

definition rsplit_once :: "char \<Rightarrow> string \<Rightarrow> (string \<times> string) option" where
  "rsplit_once c s =
     (if c \<in> set s
      then Some (rev (tl (dropWhile (\<lambda>x. x \<noteq> c) (rev s))), rev (takeWhile (\<lambda>x. x \<noteq> c) (rev s)))
      else None)"

lemma rsplit_once_Some:
  assumes "rsplit_once c s = Some (a, b)"
  shows "s = a @ c # b \<and> c \<notin> set b"
proof -
  from assms have c: "c \<in> set (rev s)" and a: "a = rev (tl (dropWhile (\<lambda>x. x \<noteq> c) (rev s)))"
    and b: "b = rev (takeWhile (\<lambda>x. x \<noteq> c) (rev s))"
    by (auto simp: rsplit_once_def split: if_splits)
  then have "dropWhile (\<lambda>x. x \<noteq> c) (rev s) \<noteq> []" by auto
  then have "dropWhile (\<lambda>x. x \<noteq> c) (rev s) = c # rev a"
    using a hd_dropWhile [of "\<lambda>x. x \<noteq> c" "rev s"] by (metis list.collapse rev_rev_ident)
  then have "rev s = rev b @ c # rev a"
    using takeWhile_dropWhile_id [of "\<lambda>x. x \<noteq> c" "rev s"] b by simp
  then have "s = a @ c # b" by (metis append_Cons append_Nil append_assoc rev_append rev_rev_ident rev_singleton_conv rev.simps(2))
  moreover have "c \<notin> set b" using b by (auto dest: set_takeWhileD)
  ultimately show ?thesis by simp
qed

lemma rsplit_once_shorter: "rsplit_once c s = Some (a, b) \<Longrightarrow> length a < length s"
  using rsplit_once_Some [of c s a b] by auto

function parent_in_files :: "string list \<Rightarrow> string \<Rightarrow> bool" where
  "parent_in_files files cur =
     (case rsplit_once slash cur of
        None \<Rightarrow> False
      | Some (parent, _) \<Rightarrow> if parent \<in> set files then True else parent_in_files files parent)"
  by pat_completeness auto
termination
  by (relation "measure (\<lambda>(files, cur). length cur)") (auto dest: rsplit_once_shorter)

declare parent_in_files.simps [simp del]

definition check_tree_shape :: "(string \<times> entry_kind) list \<Rightarrow> unit result" where
  "check_tree_shape entries =
     (let files = map fst (filter (\<lambda>(_, kind). kind = File) entries)
      in if list_ex (\<lambda>(path, _). parent_in_files files path) entries
         then Inl (Format ''a file entry is used as a directory'')
         else Inr ())"

subsection \<open>Display\<close>

definition hex_upper_digit :: "nat \<Rightarrow> nat" where
  "hex_upper_digit n = (if n < 10 then 48 + n else 55 + n)"

fun hex_upper :: "nat \<Rightarrow> nat list" where
  "hex_upper n = (if n < 16 then [hex_upper_digit n] else hex_upper (n div 16) @ [hex_upper_digit (n mod 16)])"

declare hex_upper.simps [simp del]

text \<open>\<open>{:04X}\<close>: uppercase hex, padded with zeros to four digits.\<close>

definition format_04X :: "nat \<Rightarrow> nat list" where
  "format_04X n = (let ds = hex_upper n in replicate (4 - length ds) 48 @ ds)"

text \<open>The path as its sequence of code points.\<close>

definition visible_path :: "nat list \<Rightarrow> nat list" where
  "visible_path path =
     (if \<not> list_ex is_spoofing_format_char path then path
      else concat (map (\<lambda>c. if is_spoofing_format_char c
                            then [0x27E8, 0x55, 0x2B] @ format_04X c @ [0x27E9] else [c]) path))"

subsection \<open>The extraction gate\<close>

text \<open>The Unicode tables of \<open>unicode_normalization\<close> and of the standard library's case folding.\<close>

record unicode_lib =
  nfd :: "string \<Rightarrow> string"
  to_lowercase :: "string \<Rightarrow> string"
  nfc :: "string \<Rightarrow> string"

definition portable_collision_key :: "unicode_lib \<Rightarrow> string \<Rightarrow> string" where
  "portable_collision_key U normalized = nfc U (to_lowercase U (nfd U normalized))"

definition MAX_REPORTED_CONFLICTS :: nat where "MAX_REPORTED_CONFLICTS = 8"

definition quoted :: "string \<Rightarrow> string" where
  "quoted s = [CHR 0x22] @ s @ [CHR 0x22]"

text \<open>The target of a file entry is taken when something that is not a directory is there.\<close>

definition target_taken :: "string \<Rightarrow> string \<Rightarrow> bool io" where
  "target_taken dest norm =
     bnd (attempt (std_symlink_metadata (path_join dest norm)))
       (\<lambda>m. ret (case m of Inl _ \<Rightarrow> False | Inr n \<Rightarrow> n \<noteq> DirNode))"

definition preflight_entry ::
  "unicode_lib \<Rightarrow> string \<Rightarrow> string \<Rightarrow> entry_kind \<Rightarrow> (string \<times> string) list \<times> string list \<Rightarrow>
   ((string \<times> string) list \<times> string list) io" where
  "preflight_entry U dest norm kind st =
     (case st of (seen, conflicts) \<Rightarrow>
      let key = portable_collision_key U norm in
      case map_of seen key of
        Some first \<Rightarrow>
          if first \<noteq> norm
          then ret (seen, conflicts @ [quoted first @ '' and '' @ quoted norm @ '' name the same file''])
          else ret (seen, conflicts)
      | None \<Rightarrow>
          bnd (if kind = File then target_taken dest norm else ret False) (\<lambda>taken.
            ret (AList.update key norm seen,
                 if taken then conflicts @ [quoted norm @ '' already exists at the destination'']
                 else conflicts)))"

fun preflight_loop ::
  "unicode_lib \<Rightarrow> string \<Rightarrow> (string \<times> entry_kind) list \<Rightarrow> (string \<times> string) list \<times> string list \<Rightarrow> string list io" where
  "preflight_loop U dest [] st = ret (snd st)"
| "preflight_loop U dest ((path, kind) # rest) st =
     bnd (lift (normalize_path path)) (\<lambda>norm.
     bnd (preflight_entry U dest norm kind st) (\<lambda>st'.
       if length (snd st') \<ge> MAX_REPORTED_CONFLICTS then ret (snd st')
       else preflight_loop U dest rest st'))"

definition preflight_extraction ::
  "unicode_lib \<Rightarrow> string \<Rightarrow> (string \<times> entry_kind) list \<Rightarrow> unit io" where
  "preflight_extraction U dest entries =
     bnd (preflight_loop U dest entries ([], [])) (\<lambda>conflicts.
       if conflicts = [] then ret ()
       else throw (ExtractionConflict (join_with ''; '' conflicts)))"

subsection \<open>The vault refines the tree\<close>

definition vault_shape :: "vault \<Rightarrow> tree" where
  "vault_shape v = map (\<lambda>e. (ve_path e, ve_kind e)) (vault_entries v)"

abbreviation entries_shape :: "vault_entry list \<Rightarrow> tree" where
  "entries_shape es \<equiv> map (\<lambda>e. (ve_path e, ve_kind e)) es"

lemma ensure_parents_loop_refines:
  "ensure_parents_loop es acc cs = (r, es') \<Longrightarrow>
     rfold tree_add_dir (accumulate acc cs) (entries_shape es)
       = (case r of Inl _ \<Rightarrow> Inl () | Inr _ \<Rightarrow> Inr (entries_shape es'))"
proof (induction cs arbitrary: es acc)
  case Nil
  then show ?case by auto
next
  case (Cons c cs)
  let ?acc = "(if acc \<noteq> [] then acc @ ''/'' else acc) @ c"
  have m: "map_of (entries_shape es) ?acc = map_option ve_kind (find (\<lambda>e. ve_path e = ?acc) es)"
    by (rule map_of_entries)
  show ?case
  proof (cases "find (\<lambda>e. ve_path e = ?acc) es")
    case None
    with Cons.prems have "ensure_parents_loop (es @ [vault_dir_entry ?acc]) ?acc cs = (r, es')"
      by (simp add: Let_def)
    from Cons.IH [OF this] None m show ?thesis
      by (simp add: Let_def tree_add_dir_def vault_dir_entry_def)
  next
    case (Some e)
    with Cons.prems m Cons.IH [of es ?acc] show ?thesis
      by (cases "ve_kind e") (auto simp: Let_def tree_add_dir_def)
  qed
qed

lemma ensure_parents_refines:
  assumes "wf_path p" and "ensure_parents p v = (r, v')"
  shows "tree_parents p (vault_shape v)
           = (case r of Inl _ \<Rightarrow> Inl () | Inr _ \<Rightarrow> Inr (vault_shape v'))"
proof -
  let ?cs = "take (length (components p) - 1) (components p)"
  obtain es where es: "ensure_parents_loop (vault_entries v) [] ?cs = (r, es)"
    and v': "v' = v\<lparr>vault_entries := es\<rparr>"
    using assms(2) by (simp add: ensure_parents_def components_def Let_def split: prod.splits)
  from ensure_parents_loop_refines [OF es] show ?thesis
    unfolding tree_parents_def vault_shape_def v' accumulate_ancestors [OF assms(1)] by (cases r) simp_all
qed

text \<open>The two additions, run: the outcomes with what the vault is then.\<close>

lemma add_file_success:
  assumes "add_file p content mtime mode v = (Inr (), v')"
  obtains n v1 where "normalize_path p = Inr n" "canonical n" "\<not> vault_contains v n"
    "ensure_parents n v = (Inr (), v1)"
    "v' = push_entry \<lparr>ve_path = n, ve_kind = File, ve_mtime = mtime, ve_mode = mode, ve_content = content\<rparr> v1"
  using assms unfolding add_file_def
  by (auto simp: bnd_eq_Inr split: if_splits dest: normalize_path_canonical)

lemma add_dir_success:
  assumes "add_dir p v = (Inr (), v')"
  obtains (there) n e where "normalize_path p = Inr n" "canonical n"
      "find (\<lambda>e. ve_path e = n) (vault_entries v) = Some e" "ve_kind e = Dir" "v' = v"
  | (fresh) n v1 where "normalize_path p = Inr n" "canonical n"
      "find (\<lambda>e. ve_path e = n) (vault_entries v) = None"
      "ensure_parents n v = (Inr (), v1)" "v' = push_entry (vault_dir_entry n) v1"
proof -
  from assms obtain n where n: "normalize_path p = Inr n"
    and r: "(case find (\<lambda>e. ve_path e = n) (vault_entries v) of
               Some e \<Rightarrow> if ve_kind e = Dir then ret () else throw (Vault (''a file exists at '' @ n))
             | None \<Rightarrow> bnd (ensure_parents n) (\<lambda>_. modify (push_entry (vault_dir_entry n)))) v = (Inr (), v')"
    by (auto simp: add_dir_def bnd_eq_Inr)
  show thesis
  proof (cases "find (\<lambda>e. ve_path e = n) (vault_entries v)")
    case None
    with r n fresh [OF n normalize_path_canonical [OF n] None] show thesis by (auto simp: bnd_eq_Inr)
  next
    case (Some e)
    with r n there [OF n normalize_path_canonical [OF n] Some] show thesis by (simp split: if_splits)
  qed
qed

lemma vault_shape_push:
  "vault_shape (push_entry e v) = vault_shape v @ [(ve_path e, ve_kind e)]"
  by (simp add: vault_shape_def push_entry_def)

lemma map_of_vault_shape:
  "map_of (vault_shape v) n = map_option ve_kind (find (\<lambda>e. ve_path e = n) (vault_entries v))"
  unfolding vault_shape_def by (rule map_of_entries)

lemma vault_contains_shape: "vault_contains v n \<longleftrightarrow> map_of (vault_shape v) n \<noteq> None"
  by (force simp: vault_contains_def vault_shape_def map_of_eq_None_iff list_ex_iff image_iff)

lemma add_dir_refines:
  assumes "add_dir p v = (Inr (), v')"
  shows "\<exists>n. normalize_path p = Inr n \<and> tree_mkdir n (vault_shape v) = Inr (vault_shape v')"
  using assms
proof (cases rule: add_dir_success)
  case (there n e)
  then show ?thesis by (simp add: tree_mkdir_def map_of_vault_shape)
next
  case (fresh n v1)
  with ensure_parents_refines [OF canonical_wf, of n v "Inr ()" v1] show ?thesis
    by (simp add: tree_mkdir_def map_of_vault_shape vault_shape_push vault_dir_entry_def)
qed

lemma add_file_refines:
  assumes "add_file p content mtime mode v = (Inr (), v')"
  shows "\<exists>n. normalize_path p = Inr n \<and> tree_put n (vault_shape v) = Inr (vault_shape v')"
  using assms
proof (cases rule: add_file_success)
  case (1 n v1)
  with ensure_parents_refines [OF canonical_wf, of n v "Inr ()" v1] show ?thesis
    by (simp add: tree_put_def vault_contains_shape vault_shape_push)
qed

lemma vault_remove_refines:
  assumes "vault_remove p v = (k, v')"
  shows "vault_shape v' = vault_shape v \<or> (\<exists>n. vault_shape v' = tree_remove n (vault_shape v))"
proof (cases "normalize_path p")
  case (Inl e)
  with assms show ?thesis by (simp add: vault_remove_def)
next
  case (Inr n)
  with assms have "vault_shape v' = tree_remove n (vault_shape v)"
    by (auto simp: vault_remove_def vault_shape_def tree_remove_def filter_map comp_def beneath_def Let_def)
  then show ?thesis by blast
qed

interpretation vault_editor: tree_editor vault_shape
  "\<lambda>p v v'. add_dir p v = (Inr (), v')"
  "\<lambda>p v v'. \<exists>content mtime mode. add_file p content mtime mode v = (Inr (), v')"
  "\<lambda>p v v'. \<exists>k. vault_remove p v = (k, v')"
  by unfold_locales (blast dest: add_dir_refines add_file_refines vault_remove_refines)+

text \<open>A failing mutation of a well-formed vault leaves it as it was.\<close>

lemma accumulate_beneath: "x \<in> set (accumulate acc cs) \<Longrightarrow> acc \<noteq> [] \<Longrightarrow> beneath acc x"
proof (induction cs arbitrary: acc)
  case Nil
  then show ?case by simp
next
  case (Cons c cs)
  have step: "beneath acc (acc @ slash # c)" by (rule beneath_join)
  with Cons.prems Cons.IH [of "acc @ slash # c"] show ?case
    by (auto simp: Let_def intro: beneath_trans)
qed

lemma ensure_parents_loop_error:
  assumes "ensure_parents_loop es acc cs = (Inl e, es')" and "\<forall>c\<in>set cs. c \<noteq> []"
  shows "\<exists>a new. a \<in> set (accumulate acc cs) \<and> (a, File) \<in> set (entries_shape es) \<and> es' = es @ new \<and>
           (\<forall>d\<in>set new. beneath (ve_path d) a \<and> ve_path d \<notin> ve_path ` set es)"
  using assms
proof (induction cs arbitrary: es acc)
  case Nil
  then show ?case by simp
next
  case (Cons c cs)
  let ?acc = "(if acc \<noteq> [] then acc @ ''/'' else acc) @ c"
  have ne: "?acc \<noteq> []" and cs: "\<forall>c\<in>set cs. c \<noteq> []" using Cons.prems by auto
  show ?case
  proof (cases "find (\<lambda>e. ve_path e = ?acc) es")
    case (Some x)
    then have x: "x \<in> set es" "ve_path x = ?acc" by (auto simp: find_Some_iff)
    show ?thesis
    proof (cases "ve_kind x")
      case Dir
      with Cons.prems Some have "ensure_parents_loop es ?acc cs = (Inl e, es')" by (simp add: Let_def)
      moreover have "set (accumulate ?acc cs) \<subseteq> set (accumulate acc (c # cs))" by (auto simp: Let_def)
      ultimately show ?thesis using Cons.IH [OF _ cs, of es ?acc] by blast
    next
      case File
      with x have "(?acc, File) \<in> set (entries_shape es)" by (metis (mono_tags) image_eqI image_set)
      moreover have "?acc \<in> set (accumulate acc (c # cs))" by (simp add: Let_def)
      moreover have "es' = es @ []" using File Some Cons.prems(1) by (simp add: Let_def)
      ultimately show ?thesis by (metis empty_iff list.set(1))
    qed
  next
    case None
    have loop: "ensure_parents_loop (es @ [vault_dir_entry ?acc]) ?acc cs = (Inl e, es')"
      using Cons.prems(1) None by (simp add: Let_def)
    from Cons.IH [OF loop cs] obtain a new
      where a: "a \<in> set (accumulate ?acc cs)" "(a, File) \<in> set (entries_shape es)"
        and new: "es' = es @ vault_dir_entry ?acc # new"
        "\<forall>d\<in>set new. beneath (ve_path d) a \<and> ve_path d \<notin> ve_path ` set es"
      by (auto simp: vault_dir_entry_def)
    have "beneath ?acc a" using a(1) ne by (rule accumulate_beneath)
    moreover have "?acc \<notin> ve_path ` set es" using None by (auto simp: find_None_iff)
    ultimately have all: "\<forall>d\<in>set (vault_dir_entry ?acc # new). beneath (ve_path d) a \<and> ve_path d \<notin> ve_path ` set es"
      using new(2) by (simp add: vault_dir_entry_def)
    moreover have "a \<in> set (accumulate acc (c # cs))" using a(1) by (simp add: Let_def)
    ultimately show ?thesis using a(2) new(1) by blast
  qed
qed

lemma ensure_parents_error:
  assumes "tree_wf (vault_shape v)" and "wf_path p" and "ensure_parents p v = (Inl e, v')"
  shows "v' = v"
proof -
  let ?cs = "take (length (components p) - 1) (components p)"
  obtain es where es: "ensure_parents_loop (vault_entries v) [] ?cs = (Inl e, es)"
    and v': "v' = v\<lparr>vault_entries := es\<rparr>"
    using assms(3) by (simp add: ensure_parents_def components_def Let_def split: prod.splits)
  have "\<forall>c\<in>set ?cs. c \<noteq> []"
    using assms(2) by (auto simp: wf_path_def list_all_iff portable_component_def dest: in_set_takeD)
  from ensure_parents_loop_error [OF es this] obtain a new
    where a: "(a, File) \<in> set (vault_shape v)" and new: "es = vault_entries v @ new"
      "\<forall>d\<in>set new. beneath (ve_path d) a \<and> ve_path d \<notin> ve_path ` set (vault_entries v)"
    unfolding vault_shape_def by blast
  have "new = []"
  proof (rule ccontr)
    assume "new \<noteq> []"
    then have "hd new \<in> set new" by simp
    with new(2) obtain d :: vault_entry where d: "beneath (ve_path d) a" "ve_path d \<notin> ve_path ` set (vault_entries v)"
      by blast
    from tree_wfD(3) [OF assms(1) a d(1)] d(2) show False
      by (auto simp: vault_shape_def)
  qed
  then show ?thesis using new v' by simp
qed

lemma add_file_error:
  assumes "tree_wf (vault_shape v)" and "add_file p content mtime mode v = (Inl e, v')"
  shows "v' = v"
  using assms(2) unfolding add_file_def
  by (auto simp: bnd_eq_Inl split: if_splits
      dest!: ensure_parents_error [OF assms(1) canonical_wf [OF normalize_path_canonical]])

lemma add_dir_error:
  assumes "tree_wf (vault_shape v)" and "add_dir p v = (Inl e, v')"
  shows "v' = v"
  using assms(2) unfolding add_dir_def
  by (auto simp: bnd_eq_Inl split: if_splits option.splits
      dest!: ensure_parents_error [OF assms(1) canonical_wf [OF normalize_path_canonical]])

text \<open>What was added is what is found.\<close>

lemma find_append: "find P (xs @ ys) = (case find P xs of None \<Rightarrow> find P ys | Some x \<Rightarrow> Some x)"
  by (induction xs) auto

lemma add_file_get:
  assumes wf: "tree_wf (vault_shape v)" and r: "add_file p content mtime mode v = (Inr (), v')"
  shows "\<exists>n. normalize_path p = Inr n \<and>
           vault_get v' p = Some \<lparr>ve_path = n, ve_kind = File, ve_mtime = mtime, ve_mode = mode, ve_content = content\<rparr>"
  using r
proof (cases rule: add_file_success)
  case (1 n v1)
  have wfn: "wf_path n" using 1(2) by (rule canonical_wf)
  have "tree_parents n (vault_shape v) = Inr (vault_shape v1)"
    using ensure_parents_refines [OF wfn 1(4)] by simp
  then have "map_of (vault_shape v1) n = None"
    using tree_parents_fresh [OF wf wfn] 1(3) by (simp add: vault_contains_shape)
  then have "find (\<lambda>e. ve_path e = n) (vault_entries v1) = None"
    by (simp add: map_of_vault_shape)
  then show ?thesis using 1 by (simp add: vault_get_def push_entry_def find_append)
qed

subsection \<open>The shape check against its specification\<close>

lemma beneath_slash: "beneath s n \<Longrightarrow> slash \<in> set n"
  by (auto simp: beneath_def prefix_def)

lemma parent_in_files_iff: "parent_in_files files p \<longleftrightarrow> (\<exists>a\<in>set files. beneath a p)"
proof (induction files p rule: parent_in_files.induct)
  case (1 files cur)
  show ?case
  proof (cases "rsplit_once slash cur")
    case None
    then have "slash \<notin> set cur" by (simp add: rsplit_once_def split: if_splits)
    with None show ?thesis by (subst parent_in_files.simps) (auto dest: beneath_slash)
  next
    case (Some pn)
    obtain parent name where pn: "pn = (parent, name)" by force
    with Some have cur: "cur = parent @ slash # name" "slash \<notin> set name"
      using rsplit_once_Some by auto
    have step: "beneath a cur \<longleftrightarrow> beneath a parent \<or> a = parent" for a
      using cur beneath_slash by (auto simp: beneath_join_iff)
    from "1.IH" [OF Some pn [symmetric]] Some pn step show ?thesis
      by (subst parent_in_files.simps) auto
  qed
qed

lemma check_tree_shape_iff:
  "check_tree_shape t = Inr () \<longleftrightarrow> (\<forall>(p, k)\<in>set t. \<forall>a. (a, File) \<in> set t \<longrightarrow> \<not> beneath a p)"
  by (auto simp: check_tree_shape_def list_ex_iff parent_in_files_iff Let_def)

lemma tree_wf_check: "tree_wf t \<Longrightarrow> check_tree_shape t = Inr ()"
  unfolding check_tree_shape_iff using tree_wf_file_leaf by fastforce

subsection \<open>What the extraction gate guarantees\<close>

lemma target_taken_fs: "preserves (\<lambda>w. fs w = F \<and> io_faults w = A \<and> c \<le> io_calls w) (target_taken dest norm)"
  by (auto simp: preserves_def target_taken_def std_symlink_metadata_def attempt_def bnd_def syscall_def Let_def
      not_found_def split: option.splits)

lemma preflight_entry_fs:
  "preserves (\<lambda>w. fs w = F \<and> io_faults w = A \<and> c \<le> io_calls w) (preflight_entry U dest norm kind st)"
  unfolding preflight_entry_def Let_def
  by (intro preserves_intros target_taken_fs)

lemma preflight_loop_fs:
  "preserves (\<lambda>w. fs w = F \<and> io_faults w = A \<and> c \<le> io_calls w) (preflight_loop U dest entries st)"
proof (induction entries arbitrary: st)
  case Nil
  show ?case unfolding preflight_loop.simps by (rule preserves_ret)
next
  case (Cons e entries)
  then show ?case
    by (cases e) (simp only: preflight_loop.simps, intro preserves_intros preflight_entry_fs)
qed

text \<open>A target of a file entry is free when nothing but a directory is there. The gate takes a call
  that fails for a free target.\<close>

definition target_free :: "world \<Rightarrow> string \<Rightarrow> string \<Rightarrow> bool" where
  "target_free w dest norm \<longleftrightarrow> fs_get w (path_join dest norm) \<in> {None, Some DirNode}"

definition call_failed :: "world \<Rightarrow> world \<Rightarrow> bool" where
  "call_failed w w' \<longleftrightarrow> (\<exists>i. io_calls w \<le> i \<and> i < io_calls w' \<and> io_faults w i \<noteq> None)"

definition let_through :: "world \<Rightarrow> world \<Rightarrow> string \<Rightarrow> string \<Rightarrow> bool" where
  "let_through w w' dest norm \<longleftrightarrow> target_free w dest norm \<or> call_failed w w'"

lemma let_through_mono:
  assumes "fs v = fs w" and "io_faults v = io_faults w" and "io_calls w \<le> io_calls v" and "io_calls v' \<le> io_calls w'"
    and "let_through v v' dest norm"
  shows "let_through w w' dest norm"
proof -
  have "call_failed v v' \<Longrightarrow> call_failed w w'"
    using assms(2-4) unfolding call_failed_def by (metis order.trans order.strict_trans2)
  with assms(1,5) show ?thesis by (auto simp: let_through_def target_free_def fs_get_def)
qed

lemma target_taken_False:
  assumes "target_taken dest norm w = (Inr False, w')"
  shows "let_through w w' dest norm"
  using assms
  by (auto simp: target_taken_def bnd_eq_Inr attempt_run std_symlink_metadata_def syscall_def Let_def
      not_found_def let_through_def target_free_def call_failed_def split: option.splits sum.splits)

lemma preflight_entry_silent:
  assumes "preflight_entry U dest norm kind (seen, conflicts) w = (Inr (seen', []), w')"
  shows "conflicts = []" and "map_of seen' (portable_collision_key U norm) = Some norm"
    and "map_of seen k = Some n \<Longrightarrow> map_of seen' k = Some n"
    and "map_of seen' k = Some n \<Longrightarrow> map_of seen k = Some n \<or> n = norm"
    and "kind = File \<Longrightarrow> map_of seen (portable_collision_key U norm) = Some norm \<or> let_through w w' dest norm"
  using assms target_taken_False
  by (auto simp: preflight_entry_def Let_def bnd_eq_Inr update_conv' split: option.splits if_splits)

lemma preflight_entry_grows:
  "preflight_entry U dest norm kind (seen, conflicts) w = (Inr (seen', []), w') \<Longrightarrow> conflicts = []"
  by (auto simp: preflight_entry_def Let_def bnd_eq_Inr split: option.splits if_splits)

lemma preflight_loop_grows:
  "preflight_loop U dest entries st w = (Inr [], w') \<Longrightarrow> snd st = []"
proof (induction entries arbitrary: st w)
  case (Cons e entries)
  from Cons.prems obtain norm kind st1 w1
    where "preflight_entry U dest norm kind (fst st, snd st) w = (Inr (fst st1, snd st1), w1)"
      and "(if length (snd st1) \<ge> MAX_REPORTED_CONFLICTS then ret (snd st1)
            else preflight_loop U dest entries st1) w1 = (Inr [], w')"
    by (cases e) (auto simp: bnd_eq_Inr)
  moreover from this(2) have "snd st1 = []" using Cons.IH by (simp split: if_splits)
  ultimately show ?case using preflight_entry_grows by metis
qed simp

lemma preflight_loop_silent:
  assumes "preflight_loop U dest entries (seen, []) w = (Inr [], w')"
    and "fs v = fs w" "io_faults v = io_faults w" "io_calls v \<le> io_calls w"
  shows "\<exists>M. (\<forall>k n. map_of seen k = Some n \<longrightarrow> M k = Some n) \<and>
     (\<forall>(p, kind)\<in>set entries. \<exists>n. normalize_path p = Inr n \<and> M (portable_collision_key U n) = Some n \<and>
        (kind = File \<longrightarrow> map_of seen (portable_collision_key U n) = Some n \<or>
           (\<exists>q. (q, Dir) \<in> set entries \<and> normalize_path q = Inr n) \<or> let_through v w' dest n))"
  using assms
proof (induction entries arbitrary: seen w)
  case Nil
  show ?case by (rule exI [of _ "map_of seen"]) simp
next
  case (Cons e entries)
  obtain path kind where e: "e = (path, kind)" by force
  from Cons.prems(1) obtain norm seen1 c1 w1 where n: "normalize_path path = Inr norm"
    and step: "preflight_entry U dest norm kind (seen, []) w = (Inr (seen1, c1), w1)"
    and r: "(if length c1 \<ge> MAX_REPORTED_CONFLICTS then ret (snd (seen1, c1))
             else preflight_loop U dest entries (seen1, c1)) w1 = (Inr [], w')"
    unfolding e by (auto simp: bnd_eq_Inr)
  then have c1: "c1 = []" using preflight_loop_grows by (fastforce split: if_splits)
  with r have rest: "preflight_loop U dest entries (seen1, []) w1 = (Inr [], w')"
    by (simp add: MAX_REPORTED_CONFLICTS_def)
  have w1: "fs w1 = fs w" "io_faults w1 = io_faults w" "io_calls w \<le> io_calls w1"
    using preservesD [OF preflight_entry_fs step, of "fs w" "io_faults w" "io_calls w"] by auto
  have "io_calls w1 \<le> io_calls w'"
    using preservesD [OF preflight_loop_fs rest, of "fs w1" "io_faults w1" "io_calls w1"] by auto
  with w1 Cons.prems(2-4) have here: "let_through w w1 dest x \<Longrightarrow> let_through v w' dest x" for x
    by (intro let_through_mono [of w v w1 w' dest x]) simp_all
  from w1 Cons.prems(2-4) have "fs v = fs w1" "io_faults v = io_faults w1" "io_calls v \<le> io_calls w1" by simp_all
  from Cons.IH [OF rest this] obtain M
    where M: "\<forall>k n. map_of seen1 k = Some n \<longrightarrow> M k = Some n"
      and all: "\<forall>(p, kind)\<in>set entries. \<exists>n. normalize_path p = Inr n \<and> M (portable_collision_key U n) = Some n \<and>
        (kind = File \<longrightarrow> map_of seen1 (portable_collision_key U n) = Some n \<or>
           (\<exists>q. (q, Dir) \<in> set entries \<and> normalize_path q = Inr n) \<or> let_through v w' dest n)"
    by blast
  note silent = preflight_entry_silent [OF step [unfolded c1]]
  have free_here: "kind = File \<longrightarrow> map_of seen (portable_collision_key U norm) = Some norm \<or> let_through v w' dest norm"
    using silent(5) here by blast
  have origin: "map_of seen (portable_collision_key U n) = Some n \<or> n = norm"
    if "map_of seen1 (portable_collision_key U n) = Some n" for n
    using silent(4) that by blast
  have later: "map_of seen (portable_collision_key U n) = Some n \<or>
      (\<exists>q. (q, Dir) \<in> set (e # entries) \<and> normalize_path q = Inr n) \<or> let_through v w' dest n"
    if "map_of seen1 (portable_collision_key U n) = Some n \<or>
        (\<exists>q. (q, Dir) \<in> set entries \<and> normalize_path q = Inr n) \<or> let_through v w' dest n" for n
    using that origin [of n] free_here e n by (cases kind) auto
  have "M (portable_collision_key U norm) = Some norm" using M silent(2) by blast
  moreover have "\<forall>k n. map_of seen k = Some n \<longrightarrow> M k = Some n" using M silent(3) by blast
  ultimately show ?case using all later free_here n unfolding e
    by (intro exI [of _ M]) fastforce
qed

lemma preflight_extraction_ok:
  assumes "preflight_extraction U dest entries w = (Inr (), w')"
  shows "\<exists>M. \<forall>(p, kind)\<in>set entries. \<exists>n. normalize_path p = Inr n \<and> M (portable_collision_key U n) = Some n \<and>
        (kind = File \<longrightarrow> (\<exists>q. (q, Dir) \<in> set entries \<and> normalize_path q = Inr n) \<or> let_through w w' dest n)"
proof -
  from assms have "preflight_loop U dest entries ([], []) w = (Inr [], w')"
    by (auto simp: preflight_extraction_def bnd_eq_Inr split: if_splits)
  from preflight_loop_silent [OF this refl refl order.refl] show ?thesis by simp
qed

subsection \<open>Properties\<close>

text \<open>C23. Whatever sequence of successful additions and removals is made on an empty vault, its
  entries are a tree: unique normalized paths within the limits, every ancestor of an entry a
  directory entry, and so no entry beneath a file.\<close>

theorem vault_edits_tree:
  assumes "vault_editor.edit\<^sup>*\<^sup>* (vault_new name created_at) v"
  shows "tree_canonical (vault_shape v) \<and> check_tree_shape (vault_shape v) = Inr ()"
proof -
  have "tree_canonical (vault_shape (vault_new name created_at))"
    by (simp add: tree_canonical_def tree_wf_def vault_shape_def vault_new_def)
  from vault_editor.edits_canonical [OF assms this] show ?thesis
    using tree_wf_check tree_canonicalD(1) by blast
qed

theorem vault_edits_tree_witness:
  "\<exists>v. add_file ''a/b'' [1] None None (vault_new ''v'' 0) = (Inr (), v) \<and> tree_canonical (vault_shape v)"
proof -
  have "fst (add_file ''a/b'' [1] None None (vault_new ''v'' 0)) = Inr ()"
    by code_simp
  from run_fst [OF this] obtain v where r: "add_file ''a/b'' [1] None None (vault_new ''v'' 0) = (Inr (), v)" by blast
  then have "vault_editor.edit\<^sup>*\<^sup>* (vault_new ''v'' 0) v"
    by (intro r_into_rtranclp) (auto simp: vault_editor.edit_def)
  from vault_edits_tree [OF this] r show ?thesis by blast
qed

text \<open>A file that was added is what a lookup of the same path returns, with its content,
  and the additions refuse to touch a path that is taken; a mutation that fails leaves the
  vault exactly as it was.\<close>

theorem add_file_contract:
  assumes "tree_wf (vault_shape v)"
  shows "case add_file p content mtime mode v of
      (Inr _, v') \<Rightarrow> \<exists>n. normalize_path p = Inr n \<and> vault_get v p = None \<and>
         vault_get v' p = Some \<lparr>ve_path = n, ve_kind = File, ve_mtime = mtime, ve_mode = mode, ve_content = content\<rparr>
    | (Inl e, v') \<Rightarrow> v' = v"
proof (cases "add_file p content mtime mode v")
  case (Pair r v')
  show ?thesis
  proof (cases r)
    case (Inl e)
    with Pair add_file_error [OF assms] show ?thesis by simp
  next
    case (Inr u)
    with Pair have ok: "add_file p content mtime mode v = (Inr (), v')" by simp
    then have "vault_get v p = None"
      by (cases rule: add_file_success) (auto simp: vault_get_def vault_contains_def list_ex_iff find_None_iff)
    with add_file_get [OF assms ok] show ?thesis unfolding ok by simp
  qed
qed

theorem add_file_contract_witness:
  "\<exists>v. add_file ''f'' [1, 2] None None (vault_new ''v'' 0) = (Inr (), v) \<and>
       map_option ve_content (vault_get v ''f'') = Some [1, 2]"
proof -
  have wf: "tree_wf (vault_shape (vault_new ''v'' 0))"
    by (simp add: tree_wf_def vault_shape_def vault_new_def)
  have "fst (add_file ''f'' [1, 2] None None (vault_new ''v'' 0)) = Inr ()" by code_simp
  from run_fst [OF this] obtain v where r: "add_file ''f'' [1, 2] None None (vault_new ''v'' 0) = (Inr (), v)" by blast
  with add_file_contract [OF wf, where p = "''f''" and content = "[1, 2]" and mtime = None and mode = None] show ?thesis by auto
qed



end
