(* ===== verification/Core_Stream.thy ===== *)
theory Core_Stream
  imports Core_World
begin

section \<open>Byte streams (std::io Read and Write)\<close>

text \<open>
  A source is the list of what its \<open>read\<close> calls deliver: segments of bytes, of any
  size, or an error. A \<open>read\<close> into a buffer of \<open>n\<close> bytes takes at most \<open>n\<close> bytes of
  the next segment, so that every pattern of short reads is a source; an empty
  segment is an end of file that more data may follow. A sink collects what is
  written; an oracle decides which \<open>write_all\<close> fails and how much it wrote before.
\<close>

type_synonym source = "(io_error + bytes) list"

fun read :: "nat \<Rightarrow> (source, bytes) op" where
  "read n [] = (Inr [], [])"
| "read n (Inl e # rs) = (Inl (Io e), rs)"
| "read n (Inr seg # rs) = (Inr (take n seg), if length seg \<le> n then rs else Inr (drop n seg) # rs)"

record sink =
  sink_out :: bytes
  sink_calls :: nat
  sink_faults :: "nat \<Rightarrow> (io_kind \<times> nat) option"

definition write_all :: "bytes \<Rightarrow> (sink, unit) op" where
  "write_all b k =
     (let k' = k\<lparr>sink_calls := sink_calls k + 1\<rparr>
      in case sink_faults k (sink_calls k) of
           Some (kind, n) \<Rightarrow> (Inl (Io (IoKind kind)), k'\<lparr>sink_out := sink_out k @ take n b\<rparr>)
         | None \<Rightarrow> (Inr (), k'\<lparr>sink_out := sink_out k @ b\<rparr>))"

subsection \<open>Sources that end without an error\<close>

definition flowing :: "source \<Rightarrow> bool" where
  "flowing r \<longleftrightarrow> (\<forall>x\<in>set r. \<exists>seg. x = Inr seg \<and> seg \<noteq> [])"

fun content :: "source \<Rightarrow> bytes" where
  "content [] = []"
| "content (Inl e # rs) = content rs"
| "content (Inr seg # rs) = seg @ content rs"

text \<open>The work left in a source: its bytes and its events.\<close>

definition backlog :: "source \<Rightarrow> nat" where
  "backlog r = length (content r) + length r"

lemma flowing_Nil [simp]: "flowing []"
  and flowing_Cons: "flowing (x # r) \<longleftrightarrow> (\<exists>seg. x = Inr seg \<and> seg \<noteq> []) \<and> flowing r"
  by (auto simp: flowing_def)

lemma flowing_content_Nil: "flowing r \<Longrightarrow> content r = [] \<longleftrightarrow> r = []"
  by (cases r) (auto simp: flowing_Cons)

lemma read_backlog: "read n r = (Inr b, r') \<Longrightarrow> backlog r' \<le> backlog r \<and> (b \<noteq> [] \<longrightarrow> backlog r' < backlog r)"
  by (induction n r rule: read.induct) (auto simp: backlog_def split: if_splits)

lemma read_flowing:
  assumes "flowing r" and "0 < n"
  obtains b r' where "read n r = (Inr b, r')" "flowing r'" "content r = b @ content r'"
    "length b \<le> n" "b = [] \<longleftrightarrow> content r = []"
proof (cases r)
  case Nil
  then show thesis using that by simp
next
  case (Cons x rs)
  with assms(1) obtain seg where x: "x = Inr seg" "seg \<noteq> []" "flowing rs" by (auto simp: flowing_Cons)
  let ?r' = "if length seg \<le> n then rs else Inr (drop n seg) # rs"
  have "read n r = (Inr (take n seg), ?r')" using Cons x by simp
  moreover have "flowing ?r'" using x by (simp add: flowing_Cons)
  moreover have "content r = take n seg @ content ?r'" using Cons x by simp
  ultimately show thesis using that x Cons assms(2) by auto
qed

lemma write_all_ok: "sink_faults k (sink_calls k) = None \<Longrightarrow>
    write_all b k = (Inr (), k\<lparr>sink_calls := sink_calls k + 1, sink_out := sink_out k @ b\<rparr>)"
  by (simp add: write_all_def Let_def)

definition faultless :: "sink \<Rightarrow> bool" where
  "faultless k \<longleftrightarrow> sink_faults k = (\<lambda>_. None)"

lemma write_all_faultless:
  "faultless k \<Longrightarrow> \<exists>k'. write_all b k = (Inr (), k') \<and> faultless k' \<and> sink_out k' = sink_out k @ b"
  by (simp add: faultless_def write_all_ok)

subsection \<open>Reading whole chunks (\<open>read_chunk\<close> of aead.rs)\<close>

text \<open>The loop keeps what is filled so far and stops at the size or at an empty read.\<close>

function read_chunk_loop :: "nat \<Rightarrow> bytes \<Rightarrow> (source, bytes) op" where
  "read_chunk_loop sz buf r =
     (if length buf < sz
      then case read (sz - length buf) r of
             (Inl e, r') \<Rightarrow> (Inl e, r')
           | (Inr b, r') \<Rightarrow> if b = [] then (Inr buf, r') else read_chunk_loop sz (buf @ b) r'
      else (Inr buf, r))"
  by pat_completeness auto
termination
  by (relation "measure (\<lambda>(sz, buf, r). backlog r)") (auto dest!: sym [where t = "read _ _"] read_backlog)

declare read_chunk_loop.simps [simp del]

definition read_chunk :: "nat \<Rightarrow> (source, bytes) op" where
  "read_chunk sz = read_chunk_loop sz []"

lemma read_chunk_loop_backlog:
  "read_chunk_loop sz buf r = (Inr b, r') \<Longrightarrow>
     backlog r' \<le> backlog r \<and> (b \<noteq> buf \<longrightarrow> backlog r' < backlog r)"
proof (induction sz buf r rule: read_chunk_loop.induct)
  case (1 sz buf r)
  show ?case
  proof (cases "length buf < sz")
    case False
    with "1.prems" show ?thesis by (simp add: read_chunk_loop.simps)
  next
    case True
    with "1.prems" obtain b1 r1 where r1: "read (sz - length buf) r = (Inr b1, r1)"
      and rest: "(if b1 = [] then (Inr buf, r1) else read_chunk_loop sz (buf @ b1) r1) = (Inr b, r')"
      by (subst (asm) read_chunk_loop.simps) (auto split: prod.splits sum.splits)
    show ?thesis
    proof (cases "b1 = []")
      case True
      with rest read_backlog [OF r1] show ?thesis by auto
    next
      case False
      with rest "1.IH" [OF True r1 [symmetric] refl False] read_backlog [OF r1] show ?thesis by fastforce
    qed
  qed
qed

lemma read_chunk_backlog:
  "read_chunk sz r = (Inr b, r') \<Longrightarrow> b \<noteq> [] \<Longrightarrow> backlog r' < backlog r"
  unfolding read_chunk_def using read_chunk_loop_backlog by blast

text \<open>Short reads do not show: a chunk is the next \<open>size\<close> bytes of the source.\<close>

lemma read_chunk_loop_flowing:
  assumes "flowing r" and "length buf \<le> sz"
  shows "\<exists>r'. read_chunk_loop sz buf r = (Inr (buf @ take (sz - length buf) (content r)), r') \<and>
           flowing r' \<and> content r' = drop (sz - length buf) (content r)"
  using assms
proof (induction sz buf r rule: read_chunk_loop.induct)
  case (1 sz buf r)
  show ?case
  proof (cases "length buf < sz")
    case False
    with "1.prems" show ?thesis by (subst read_chunk_loop.simps) simp
  next
    case True
    then have "0 < sz - length buf" by simp
    from read_flowing [OF "1.prems"(1) this] obtain b1 r1
      where r1: "read (sz - length buf) r = (Inr b1, r1)" "flowing r1" "content r = b1 @ content r1"
        "length b1 \<le> sz - length buf" "b1 = [] \<longleftrightarrow> content r = []" by blast
    show ?thesis
    proof (cases "b1 = []")
      case b1: True
      with r1 True show ?thesis by (subst read_chunk_loop.simps) simp
    next
      case False
      with "1.IH" [OF True r1(1) [symmetric] refl False r1(2)] r1 True show ?thesis
        by (subst read_chunk_loop.simps) simp
    qed
  qed
qed

lemma read_chunk_flowing:
  assumes "flowing r"
  shows "\<exists>r'. read_chunk sz r = (Inr (take sz (content r)), r') \<and> flowing r' \<and>
           content r' = drop sz (content r)"
  using read_chunk_loop_flowing [OF assms, of "[]" sz] by (simp add: read_chunk_def)

text \<open>
  A source that delivers its bytes without a pause until its end or its first error: files,
  buffers and decrypting readers. If it is read to its end, no error was met on the way.
\<close>

fun tame :: "source \<Rightarrow> bool" where
  "tame [] = True"
| "tame (Inl e # rs) = True"
| "tame (Inr seg # rs) = (seg \<noteq> [] \<and> tame rs)"

lemma flowing_tame: "flowing r \<Longrightarrow> tame r"
  by (induction r rule: tame.induct) (auto simp: flowing_Cons)

lemma read_tame:
  assumes "tame r" and "0 < n" and "read n r = (Inr b, r')"
  shows "tame r' \<and> (b = [] \<longrightarrow> r = [] \<and> r' = []) \<and> (flowing r' \<longrightarrow> flowing r)"
  using assms by (cases r rule: tame.cases) (auto simp: flowing_Cons split: if_splits)

lemma read_chunk_loop_tame:
  "read_chunk_loop sz buf r = (Inr b, r') \<Longrightarrow> tame r \<Longrightarrow>
     tame r' \<and> (length b < sz \<longrightarrow> r' = []) \<and> (flowing r' \<longrightarrow> flowing r)"
proof (induction sz buf r rule: read_chunk_loop.induct)
  case (1 sz buf r)
  show ?case
  proof (cases "length buf < sz")
    case False
    with "1.prems" show ?thesis by (simp add: read_chunk_loop.simps)
  next
    case True
    with "1.prems" obtain b1 r1 where r1: "read (sz - length buf) r = (Inr b1, r1)"
      and rest: "(if b1 = [] then (Inr buf, r1) else read_chunk_loop sz (buf @ b1) r1) = (Inr b, r')"
      by (subst (asm) read_chunk_loop.simps) (auto split: prod.splits sum.splits)
    have t1: "tame r1" "b1 = [] \<Longrightarrow> r1 = []" "flowing r1 \<Longrightarrow> flowing r"
      using read_tame [OF "1.prems"(2) _ r1] True by auto
    show ?thesis
    proof (cases "b1 = []")
      case True
      with rest t1 show ?thesis by auto
    next
      case False
      with rest "1.IH" [OF True r1 [symmetric] refl False _ t1(1)] t1(3) show ?thesis by auto
    qed
  qed
qed

lemma read_chunk_tame:
  assumes "read_chunk sz r = (Inr b, r')" and "tame r" and "0 < sz"
  shows "tame r'" "b = [] \<Longrightarrow> r' = []" "flowing r' \<Longrightarrow> flowing r"
  using read_chunk_loop_tame [OF assms(1) [unfolded read_chunk_def] assms(2)] assms(3) by auto

text \<open>The pieces of a byte string: all of the given size, the final one possibly shorter, and
  one empty piece for the empty string.\<close>

function chunks_of :: "nat \<Rightarrow> 'a list \<Rightarrow> 'a list list" where
  "chunks_of n xs = (if n = 0 \<or> length xs \<le> n then [xs] else take n xs # chunks_of n (drop n xs))"
  by pat_completeness auto
termination
  by (relation "measure (\<lambda>(n, xs). length xs)") auto

declare chunks_of.simps [simp del]

lemma chunks_of_short: "length xs \<le> n \<Longrightarrow> chunks_of n xs = [xs]"
  and chunks_of_long: "0 < n \<Longrightarrow> n < length xs \<Longrightarrow> chunks_of n xs = take n xs # chunks_of n (drop n xs)"
  by (subst chunks_of.simps, simp)+

lemma chunks_of_not_Nil [simp]: "chunks_of n xs \<noteq> []"
  by (subst chunks_of.simps) simp

lemma concat_chunks_of [simp]: "concat (chunks_of n xs) = xs"
  by (induction n xs rule: chunks_of.induct) (subst chunks_of.simps, simp)

lemma chunks_of_lengths: "0 < n \<Longrightarrow> c \<in> set (chunks_of n xs) \<Longrightarrow> length c \<le> n"
  by (induction n xs rule: chunks_of.induct) (subst (asm) chunks_of.simps, auto split: if_splits)

lemma chunks_of_full: "0 < n \<Longrightarrow> c \<in> set (butlast (chunks_of n xs)) \<Longrightarrow> length c = n"
  by (induction n xs rule: chunks_of.induct) (subst (asm) (2) chunks_of.simps, auto split: if_splits)

lemma chunks_of_last: "0 < n \<Longrightarrow> xs \<noteq> [] \<Longrightarrow> last (chunks_of n xs) \<noteq> []"
  by (induction n xs rule: chunks_of.induct) (subst chunks_of.simps, auto)

lemma length_chunks_of:
  "0 < n \<Longrightarrow> length (chunks_of n xs) = (if xs = [] then 1 else (length xs + n - 1) div n)"
proof (induction n xs rule: chunks_of.induct)
  case (1 n xs)
  show ?case
  proof (cases "length xs \<le> n")
    case True
    moreover have "xs \<noteq> [] \<Longrightarrow> (length xs + n - 1) div n = 1"
      using True "1.prems" by (intro div_nat_eqI) (auto simp: neq_Nil_conv)
    ultimately show ?thesis by (simp add: chunks_of_short)
  next
    case False
    then have "length (chunks_of n (drop n xs)) = (length xs - n + n - 1) div n"
      using 1 by simp
    moreover have "(length xs + n - 1) div n = Suc ((length xs - n + n - 1) div n)"
    proof -
      have "length xs + n - 1 = (length xs - 1) + n" "length xs - n + n - 1 = length xs - 1"
        using False "1.prems" by auto
      then show ?thesis using "1.prems" by (simp only: div_add_self2)
    qed
    ultimately show ?thesis using False "1.prems" by (auto simp: chunks_of_long)
  qed
qed

text \<open>A list of pieces of the right sizes is the way its concatenation is cut.\<close>

lemma chunks_of_concat:
  assumes "0 < n" and "cs \<noteq> []" and "\<forall>c\<in>set (butlast cs). length c = n" and "length (last cs) \<le> n"
    and "length cs = 1 \<or> last cs \<noteq> []"
  shows "chunks_of n (concat cs) = cs"
  using assms(2-)
proof (induction cs)
  case (Cons c cs)
  show ?case
  proof (cases "cs = []")
    case True
    with Cons.prems show ?thesis by (simp add: chunks_of_short)
  next
    case False
    then have "last cs \<noteq> []" using Cons.prems by auto
    then have "concat cs \<noteq> []" using False last_in_set by fastforce
    moreover have "chunks_of n (concat cs) = cs" using Cons False by simp
    ultimately show ?thesis using Cons.prems False assms(1) by (simp add: chunks_of_long)
  qed
qed simp

lemma chunks_of_nth:
  "0 < n \<Longrightarrow> i < length (chunks_of n xs) \<Longrightarrow> chunks_of n xs ! i = take n (drop (i * n) xs)"
proof (induction n xs arbitrary: i rule: chunks_of.induct)
  case (1 n xs)
  show ?case
  proof (cases "length xs \<le> n")
    case True
    with "1.prems" show ?thesis by (simp add: chunks_of_short)
  next
    case False
    with 1 show ?thesis by (cases i) (auto simp: chunks_of_long add.commute)
  qed
qed

end
