(* ===== verification/Core_Aead.thy ===== *)
theory Core_Aead
  imports Core_Stream
begin

section \<open>One-shot and streaming authenticated encryption (aead.rs)\<close>

text \<open>
  \<open>seal_with\<close> and \<open>open_with\<close> are the one-shot operations; the streaming operations
  cut their input into chunks and authenticate each under a nonce that carries its
  position and whether it is the final one. \<open>decrypt_chunk_with\<close> opens one chunk out of
  order, \<open>StreamDecryptReader\<close> decrypts behind a \<open>Read\<close>. The STREAM adapter of the
  \<open>aead\<close> crate keeps a 32-bit position, reserves its maximum for the final block and
  otherwise is the function of the position that the record \<open>lib\<close> has.
\<close>

subsection \<open>One-shot\<close>

definition MAX_CHUNK_SIZE :: nat where "MAX_CHUNK_SIZE = 16 * 1024 * 1024"
definition DEFAULT_CHUNK_SIZE :: nat where "DEFAULT_CHUNK_SIZE = 64 * 1024"

definition cipher :: "bytes \<Rightarrow> unit result" where
  "cipher key = (if length key = 32 then Inr () else Inl (BadKey ''aead key length''))"

definition seal_with :: "lib \<Rightarrow> aead_alg \<Rightarrow> bytes \<Rightarrow> bytes \<Rightarrow> bytes \<Rightarrow> bytes \<Rightarrow> bytes result" where
  "seal_with L alg key nonce aad plaintext =
     (if length nonce \<noteq> nonce_len alg then Inl (Format ''aead nonce length'')
      else rbind (cipher key) (\<lambda>_. ok_or Auth (aead_encrypt L alg key nonce aad plaintext)))"

definition open_with :: "lib \<Rightarrow> aead_alg \<Rightarrow> bytes \<Rightarrow> bytes \<Rightarrow> bytes \<Rightarrow> bytes \<Rightarrow> bytes result" where
  "open_with L alg key nonce aad ciphertext =
     (if length nonce \<noteq> nonce_len alg then Inl (Format ''aead nonce length'')
      else rbind (cipher key) (\<lambda>_. ok_or Auth (aead_decrypt L alg key nonce aad ciphertext)))"

definition seal :: "lib \<Rightarrow> bytes \<Rightarrow> bytes \<Rightarrow> bytes \<Rightarrow> bytes \<Rightarrow> bytes result" where
  "seal L key nonce aad plaintext = seal_with L XChaCha20Poly1305 key nonce aad plaintext"

definition aead_open :: "lib \<Rightarrow> bytes \<Rightarrow> bytes \<Rightarrow> bytes \<Rightarrow> bytes \<Rightarrow> bytes result" where
  "aead_open L key nonce aad ciphertext = open_with L XChaCha20Poly1305 key nonce aad ciphertext"

subsection \<open>The STREAM encryptor and decryptor\<close>

record stream_state =
  ss_alg :: aead_alg
  ss_key :: bytes
  ss_nonce :: bytes
  ss_position :: u32

definition stream_new :: "aead_alg \<Rightarrow> bytes \<Rightarrow> bytes \<Rightarrow> stream_state result" where
  "stream_new alg key stream_nonce =
     rbind (cipher key) (\<lambda>_.
       Inr \<lparr>ss_alg = alg, ss_key = key, ss_nonce = stream_nonce, ss_position = 0\<rparr>)"

definition encrypt_next :: "lib \<Rightarrow> bytes \<Rightarrow> stream_state \<Rightarrow> bytes \<Rightarrow> (bytes \<times> stream_state) result" where
  "encrypt_next L aad s msg =
     (if ss_position s = - 1 then Inl Auth
      else rbind (ok_or Auth (stream_encrypt L (ss_alg s) (ss_key s) (ss_nonce s) (ss_position s) False aad msg))
             (\<lambda>ct. Inr (ct, s\<lparr>ss_position := ss_position s + 1\<rparr>)))"

definition encrypt_last :: "lib \<Rightarrow> bytes \<Rightarrow> stream_state \<Rightarrow> bytes \<Rightarrow> bytes result" where
  "encrypt_last L aad s msg =
     ok_or Auth (stream_encrypt L (ss_alg s) (ss_key s) (ss_nonce s) (ss_position s) True aad msg)"

definition decrypt_next :: "lib \<Rightarrow> bytes \<Rightarrow> stream_state \<Rightarrow> bytes \<Rightarrow> (bytes \<times> stream_state) result" where
  "decrypt_next L aad s msg =
     (if ss_position s = - 1 then Inl Auth
      else rbind (ok_or Auth (stream_decrypt L (ss_alg s) (ss_key s) (ss_nonce s) (ss_position s) False aad msg))
             (\<lambda>pt. Inr (pt, s\<lparr>ss_position := ss_position s + 1\<rparr>)))"

definition decrypt_last :: "lib \<Rightarrow> bytes \<Rightarrow> stream_state \<Rightarrow> bytes \<Rightarrow> bytes result" where
  "decrypt_last L aad s msg =
     ok_or Auth (stream_decrypt L (ss_alg s) (ss_key s) (ss_nonce s) (ss_position s) True aad msg)"

subsection \<open>The streaming loops\<close>

text \<open>
  The two loops of the source have the same shape: read ahead one chunk, process the
  current one as the final one when nothing follows, write the outcome. \<open>stream_loop\<close> is
  that loop over the processing of a chunk.
\<close>

function stream_loop ::
  "(stream_state \<Rightarrow> bytes \<Rightarrow> (bytes \<times> stream_state) result) \<Rightarrow> (stream_state \<Rightarrow> bytes \<Rightarrow> bytes result) \<Rightarrow>
   nat \<Rightarrow> stream_state \<Rightarrow> bytes \<Rightarrow> u64 \<Rightarrow> (source \<times> sink, u64) op" where
  "stream_loop nextf lastf sz s current written (r, k) =
     (case read_chunk sz r of
        (Inl e, r') \<Rightarrow> (Inl e, (r', k))
      | (Inr nxt, r') \<Rightarrow>
          if nxt = []
          then case lastf s current of
                 Inl e \<Rightarrow> (Inl e, (r', k))
               | Inr out \<Rightarrow>
                   (case write_all out k of
                      (Inl e, k') \<Rightarrow> (Inl e, (r', k'))
                    | (Inr _, k') \<Rightarrow> (Inr (written + len64 out), (r', k')))
          else case nextf s current of
                 Inl e \<Rightarrow> (Inl e, (r', k))
               | Inr (out, s') \<Rightarrow>
                   (case write_all out k of
                      (Inl e, k') \<Rightarrow> (Inl e, (r', k'))
                    | (Inr _, k') \<Rightarrow> stream_loop nextf lastf sz s' nxt (written + len64 out) (r', k')))"
  by pat_completeness auto
termination
  by (relation "measure (\<lambda>(nextf, lastf, sz, s, current, written, r, k). backlog r)")
     (auto dest!: sym [where t = "read_chunk _ _"] read_chunk_backlog)

declare stream_loop.simps [simp del]

definition encrypt_stream_with ::
  "lib \<Rightarrow> aead_alg \<Rightarrow> bytes \<Rightarrow> bytes \<Rightarrow> bytes \<Rightarrow> nat \<Rightarrow> (source \<times> sink, u64) op" where
  "encrypt_stream_with L alg key stream_nonce aad chunk_size rk =
     (if length stream_nonce \<noteq> stream_nonce_len alg then (Inl (Format ''stream nonce length''), rk)
      else if chunk_size = 0 \<or> chunk_size > MAX_CHUNK_SIZE then (Inl (Format ''chunk size''), rk)
      else case stream_new alg key stream_nonce of
        Inl e \<Rightarrow> (Inl e, rk)
      | Inr s \<Rightarrow>
          (case rk of (r, k) \<Rightarrow>
             (case read_chunk chunk_size r of
                (Inl e, r') \<Rightarrow> (Inl e, (r', k))
              | (Inr current, r') \<Rightarrow>
                  stream_loop (encrypt_next L aad) (encrypt_last L aad) chunk_size s current 0 (r', k))))"

definition decrypt_stream_with ::
  "lib \<Rightarrow> aead_alg \<Rightarrow> bytes \<Rightarrow> bytes \<Rightarrow> bytes \<Rightarrow> nat \<Rightarrow> (source \<times> sink, u64) op" where
  "decrypt_stream_with L alg key stream_nonce aad chunk_size rk =
     (if length stream_nonce \<noteq> stream_nonce_len alg then (Inl (Format ''stream nonce length''), rk)
      else if chunk_size = 0 \<or> chunk_size > MAX_CHUNK_SIZE then (Inl (Format ''chunk size''), rk)
      else
        let enc_chunk = chunk_size + TAG_LEN in
        case stream_new alg key stream_nonce of
          Inl e \<Rightarrow> (Inl e, rk)
        | Inr s \<Rightarrow>
            (case rk of (r, k) \<Rightarrow>
               (case read_chunk enc_chunk r of
                  (Inl e, r') \<Rightarrow> (Inl e, (r', k))
                | (Inr current, r') \<Rightarrow>
                    stream_loop (decrypt_next L aad) (decrypt_last L aad) enc_chunk s current 0 (r', k))))"

definition encrypt_stream :: "lib \<Rightarrow> bytes \<Rightarrow> bytes \<Rightarrow> bytes \<Rightarrow> nat \<Rightarrow> (source \<times> sink, u64) op" where
  "encrypt_stream L key stream_nonce aad chunk_size =
     encrypt_stream_with L XChaCha20Poly1305 key stream_nonce aad chunk_size"

definition decrypt_stream :: "lib \<Rightarrow> bytes \<Rightarrow> bytes \<Rightarrow> bytes \<Rightarrow> nat \<Rightarrow> (source \<times> sink, u64) op" where
  "decrypt_stream L key stream_nonce aad chunk_size =
     decrypt_stream_with L XChaCha20Poly1305 key stream_nonce aad chunk_size"

subsection \<open>Random access\<close>

text \<open>The nonce buffer of 24 bytes is filled by slice copies and cut to the cipher's length.\<close>

definition copy_at :: "nat \<Rightarrow> bytes \<Rightarrow> bytes \<Rightarrow> bytes" where
  "copy_at i src buf = take i buf @ src @ drop (i + length src) buf"

definition decrypt_chunk_with ::
  "lib \<Rightarrow> aead_alg \<Rightarrow> bytes \<Rightarrow> bytes \<Rightarrow> bytes \<Rightarrow> u32 \<Rightarrow> bool \<Rightarrow> bytes \<Rightarrow> bytes result" where
  "decrypt_chunk_with L alg key stream_nonce aad index is_last ciphertext =
     (let snl = stream_nonce_len alg in
      if length stream_nonce \<noteq> snl then Inl (Format ''stream nonce length'')
      else
        let nl = nonce_len alg;
            nonce = replicate NONCE_LEN 0;
            nonce = copy_at 0 stream_nonce nonce;
            nonce = copy_at snl (to_be_bytes index) nonce;
            nonce = nonce[nl - 1 := (if is_last then 1 else 0)]
        in open_with L alg key (take nl nonce) aad ciphertext)"

definition decrypt_chunk :: "lib \<Rightarrow> bytes \<Rightarrow> bytes \<Rightarrow> bytes \<Rightarrow> u32 \<Rightarrow> bool \<Rightarrow> bytes \<Rightarrow> bytes result" where
  "decrypt_chunk L key stream_nonce aad index is_last ciphertext =
     decrypt_chunk_with L XChaCha20Poly1305 key stream_nonce aad index is_last ciphertext"

subsection \<open>The loops as functions of the chunks\<close>

fun run_chunks ::
  "('s \<Rightarrow> 'a \<Rightarrow> ('b \<times> 's) result) \<Rightarrow> ('s \<Rightarrow> 'a \<Rightarrow> 'b result) \<Rightarrow> 's \<Rightarrow> 'a list \<Rightarrow> 'b list result" where
  "run_chunks nextf lastf s [] = Inl (Format ''stream state'')"
| "run_chunks nextf lastf s [c] = rbind (lastf s c) (\<lambda>out. Inr [out])"
| "run_chunks nextf lastf s (c # d # cs) =
     rbind (nextf s c) (\<lambda>(out, s'). rbind (run_chunks nextf lastf s' (d # cs)) (\<lambda>outs. Inr (out # outs)))"

lemma run_chunks_Cons:
  "cs \<noteq> [] \<Longrightarrow> run_chunks nextf lastf s (c # cs) =
     rbind (nextf s c) (\<lambda>(out, s'). rbind (run_chunks nextf lastf s' cs) (\<lambda>outs. Inr (out # outs)))"
  by (cases cs) auto

definition ahead :: "nat \<Rightarrow> bytes \<Rightarrow> bytes list" where
  "ahead sz b = (if b = [] then [] else chunks_of sz b)"

lemma ahead_step:
  "0 < sz \<Longrightarrow> b \<noteq> [] \<Longrightarrow> ahead sz b = take sz b # ahead sz (drop sz b)"
  by (cases "length b \<le> sz") (auto simp: ahead_def chunks_of_short chunks_of_long)

lemma chunks_of_ahead: "0 < sz \<Longrightarrow> chunks_of sz b = take sz b # ahead sz (drop sz b)"
  by (cases "length b \<le> sz") (auto simp: ahead_def chunks_of_short chunks_of_long)

text \<open>On a source that ends without an error and a sink that accepts, the outcome of the loop
  is the outcome of processing the chunks, whatever the segments of the source.\<close>

lemma stream_loop_run:
  assumes "flowing r" and "faultless k" and "0 < sz"
  shows "case run_chunks nextf lastf s (current # ahead sz (content r)) of
      Inl e \<Rightarrow> fst (stream_loop nextf lastf sz s current written (r, k)) = Inl e
    | Inr outs \<Rightarrow>
        fst (stream_loop nextf lastf sz s current written (r, k)) = Inr (written + len64 (concat outs)) \<and>
        sink_out (snd (snd (stream_loop nextf lastf sz s current written (r, k)))) = sink_out k @ concat outs"
  using assms(1,2)
proof (induction "length (content r)" arbitrary: r k s current written rule: less_induct)
  case less
  obtain r' where r': "read_chunk sz r = (Inr (take sz (content r)), r')" "flowing r'"
    "content r' = drop sz (content r)"
    using read_chunk_flowing [OF less.prems(1)] by blast
  show ?case
  proof (cases "content r = []")
    case True
    obtain k' where k': "lastf s current = Inr out \<Longrightarrow> write_all out k = (Inr (), k') \<and> sink_out k' = sink_out k @ out" for out
      using write_all_faultless [OF less.prems(2)] by (cases "lastf s current") auto
    from True r'(1) k' show ?thesis
      by (cases "lastf s current") (auto simp: ahead_def stream_loop.simps)
  next
    case False
    let ?rest = "take sz (content r) # ahead sz (content r')"
    have cs: "ahead sz (content r) = ?rest" using ahead_step [OF assms(3) False] r'(3) by simp
    show ?thesis
    proof (cases "nextf s current")
      case (Inl e)
      with False r'(1) assms(3) cs show ?thesis by (simp add: run_chunks_Cons stream_loop.simps)
    next
      case (Inr os)
      obtain out s' where os: "os = (out, s')" by force
      obtain k' where k': "write_all out k = (Inr (), k')" "faultless k'" "sink_out k' = sink_out k @ out"
        using write_all_faultless [OF less.prems(2)] by blast
      have step: "stream_loop nextf lastf sz s current written (r, k)
          = stream_loop nextf lastf sz s' (take sz (content r)) (written + len64 out) (r', k')"
        using False r'(1) assms(3) Inr os k'(1) by (simp add: stream_loop.simps [of _ _ _ s])
      have "length (content r') < length (content r)" using False r'(3) assms(3) by simp
      from less.hyps [OF this r'(2) k'(2), of s' "take sz (content r)" "written + len64 out"] show ?thesis
        unfolding step cs using k'(3) Inr os
        by (cases "run_chunks nextf lastf s' ?rest") (auto simp: add.assoc)
    qed
  qed
qed

text \<open>Both ciphers' steps are instances of one step over the STREAM function.\<close>

definition stream_next ::
  "(aead_alg \<Rightarrow> bytes \<Rightarrow> bytes \<Rightarrow> u32 \<Rightarrow> bool \<Rightarrow> bytes \<Rightarrow> bytes \<Rightarrow> bytes option) \<Rightarrow> bytes \<Rightarrow> stream_state \<Rightarrow> bytes \<Rightarrow>
   (bytes \<times> stream_state) result" where
  "stream_next f aad s msg =
     (if ss_position s = - 1 then Inl Auth
      else rbind (ok_or Auth (f (ss_alg s) (ss_key s) (ss_nonce s) (ss_position s) False aad msg))
             (\<lambda>out. Inr (out, s\<lparr>ss_position := ss_position s + 1\<rparr>)))"

definition stream_last ::
  "(aead_alg \<Rightarrow> bytes \<Rightarrow> bytes \<Rightarrow> u32 \<Rightarrow> bool \<Rightarrow> bytes \<Rightarrow> bytes \<Rightarrow> bytes option) \<Rightarrow> bytes \<Rightarrow> stream_state \<Rightarrow> bytes \<Rightarrow>
   bytes result" where
  "stream_last f aad s msg =
     ok_or Auth (f (ss_alg s) (ss_key s) (ss_nonce s) (ss_position s) True aad msg)"

lemma stream_steps:
  "encrypt_next L aad = stream_next (stream_encrypt L) aad" "encrypt_last L aad = stream_last (stream_encrypt L) aad"
  "decrypt_next L aad = stream_next (stream_decrypt L) aad" "decrypt_last L aad = stream_last (stream_decrypt L) aad"
  by (simp_all add: fun_eq_iff encrypt_next_def encrypt_last_def decrypt_next_def decrypt_last_def
      stream_next_def stream_last_def)

lemma stream_next_eq_Inr:
  "stream_next f aad s msg = Inr (out, s') \<longleftrightarrow>
     ss_position s \<noteq> - 1 \<and> f (ss_alg s) (ss_key s) (ss_nonce s) (ss_position s) False aad msg = Some out \<and>
     s' = s\<lparr>ss_position := ss_position s + 1\<rparr>"
  by (auto simp: stream_next_def result_simps)

lemma max_position: "p < 2 ^ 32 \<Longrightarrow> (of_nat p :: u32) = - 1 \<longleftrightarrow> p = 2 ^ 32 - 1"
proof -
  assume p: "p < 2 ^ 32"
  have "(of_nat p :: u32) = - 1 \<longleftrightarrow> unat (of_nat p :: u32) = unat (- 1 :: u32)"
    by (simp only: word_unat_eq_iff)
  also have "unat (- 1 :: u32) = 2 ^ 32 - 1" by (simp add: unsigned_minus_1_eq_mask mask_eq_exp_minus_1)
  also have "unat (of_nat p :: u32) = p" using p by (simp add: unat_of_nat)
  finally show ?thesis .
qed

lemma all_less_Suc: "(\<forall>i < Suc n. P i) \<longleftrightarrow> P 0 \<and> (\<forall>i < n. P (Suc i))"
  by (metis less_Suc_eq_0_disj)

lemma run_chunks_stream:
  assumes "ss_position s = of_nat p" and "p + length cs \<le> 2 ^ 32" and "cs \<noteq> []"
  shows "run_chunks (stream_next f aad) (stream_last f aad) s cs = Inr outs \<longleftrightarrow>
     length outs = length cs \<and>
     (\<forall>i < length cs. f (ss_alg s) (ss_key s) (ss_nonce s) (of_nat (p + i)) (Suc i = length cs) aad (cs ! i)
        = Some (outs ! i))"
  using assms
proof (induction cs arbitrary: s p outs)
  case (Cons c cs)
  show ?case
  proof (cases "cs = []")
    case True
    with Cons.prems show ?thesis
      by (cases outs) (auto simp: stream_last_def result_simps ok_or_def split: option.splits)
  next
    case False
    then have p: "p < 2 ^ 32 - 1" using Cons.prems(2) by (cases cs) auto
    then have nmax: "ss_position s \<noteq> - 1" using Cons.prems(1) max_position [of p] by simp
    let ?s = "s\<lparr>ss_position := ss_position s + 1\<rparr>"
    have s: "ss_position ?s = of_nat (Suc p)" using Cons.prems(1) by simp
    have n: "Suc p + length cs \<le> 2 ^ 32" using Cons.prems(2) by simp
    have "run_chunks (stream_next f aad) (stream_last f aad) s (c # cs) = Inr outs \<longleftrightarrow>
       (\<exists>out rest. outs = out # rest \<and> f (ss_alg s) (ss_key s) (ss_nonce s) (of_nat p) False aad c = Some out \<and>
          run_chunks (stream_next f aad) (stream_last f aad) ?s cs = Inr rest)"
      using nmax Cons.prems(1) False
      by (auto simp: run_chunks_Cons stream_next_eq_Inr result_simps)
    also have "\<dots> \<longleftrightarrow> length outs = length (c # cs) \<and>
     (\<forall>i < length (c # cs). f (ss_alg s) (ss_key s) (ss_nonce s) (of_nat (p + i)) (Suc i = length (c # cs)) aad ((c # cs) ! i)
        = Some (outs ! i))"
      unfolding Cons.IH [OF s n False] using False
      by (cases outs) (auto simp: all_less_Suc add.left_commute [of 1])
    finally show ?thesis .
  qed
qed simp

lemma run_chunks_bound:
  assumes "run_chunks (stream_next f aad) (stream_last f aad) s cs = Inr outs"
    and "ss_position s = of_nat p" and "p < 2 ^ 32"
  shows "p + length cs \<le> 2 ^ 32 \<and> cs \<noteq> []"
  using assms
proof (induction cs arbitrary: s p outs)
  case (Cons c cs)
  show ?case
  proof (cases "cs = []")
    case True
    with Cons.prems(3) show ?thesis by simp
  next
    case False
    let ?s = "s\<lparr>ss_position := ss_position s + 1\<rparr>"
    from Cons.prems(1) False obtain rest where "ss_position s \<noteq> - 1"
      and rest: "run_chunks (stream_next f aad) (stream_last f aad) ?s cs = Inr rest"
      by (auto simp: run_chunks_Cons stream_next_eq_Inr result_simps)
    with Cons.prems(2,3) max_position [of p] have "Suc p < 2 ^ 32" by simp
    with Cons.IH [OF rest, of "Suc p"] Cons.prems(2) show ?thesis by simp
  qed
qed simp

subsection \<open>The streaming operations as functions of the chunks\<close>

definition stream_start :: "aead_alg \<Rightarrow> bytes \<Rightarrow> bytes \<Rightarrow> stream_state" where
  "stream_start alg key nonce = \<lparr>ss_alg = alg, ss_key = key, ss_nonce = nonce, ss_position = 0\<rparr>"

definition stream_params :: "aead_alg \<Rightarrow> bytes \<Rightarrow> bytes \<Rightarrow> nat \<Rightarrow> bool" where
  "stream_params alg key nonce sz \<longleftrightarrow>
     length key = 32 \<and> length nonce = stream_nonce_len alg \<and> 0 < sz \<and> sz \<le> MAX_CHUNK_SIZE"

lemma stream_new_ok: "length key = 32 \<Longrightarrow> stream_new alg key nonce = Inr (stream_start alg key nonce)"
  by (simp add: stream_new_def cipher_def stream_start_def)

lemma stream_run:
  assumes "flowing r" and "faultless k" and "0 < sz" and "read_chunk sz r = (Inr current, r')"
  shows "case run_chunks nextf lastf s (chunks_of sz (content r)) of
      Inl e \<Rightarrow> fst (stream_loop nextf lastf sz s current 0 (r', k)) = Inl e
    | Inr outs \<Rightarrow>
        fst (stream_loop nextf lastf sz s current 0 (r', k)) = Inr (len64 (concat outs)) \<and>
        sink_out (snd (snd (stream_loop nextf lastf sz s current 0 (r', k)))) = sink_out k @ concat outs"
proof -
  have c: "current = take sz (content r)" "flowing r'" "content r' = drop sz (content r)"
    using read_chunk_flowing [OF assms(1), of sz] assms(4) by auto
  from stream_loop_run [OF c(2) assms(2,3), of nextf lastf s current 0] c(1,3) assms(3) show ?thesis
    by (cases "run_chunks nextf lastf s (chunks_of sz (content r))") (simp_all add: chunks_of_ahead)
qed

lemma encrypt_stream_run:
  assumes "stream_params alg key nonce sz" and "flowing r" and "faultless k"
  shows "case run_chunks (stream_next (stream_encrypt L) aad) (stream_last (stream_encrypt L) aad)
              (stream_start alg key nonce) (chunks_of sz (content r)) of
      Inl e \<Rightarrow> fst (encrypt_stream_with L alg key nonce aad sz (r, k)) = Inl e
    | Inr outs \<Rightarrow>
        fst (encrypt_stream_with L alg key nonce aad sz (r, k)) = Inr (len64 (concat outs)) \<and>
        sink_out (snd (snd (encrypt_stream_with L alg key nonce aad sz (r, k)))) = sink_out k @ concat outs"
proof -
  obtain current r' where r': "read_chunk sz r = (Inr current, r')"
    using read_chunk_flowing [OF assms(2)] by blast
  have "0 < sz" using assms(1) by (simp add: stream_params_def)
  moreover have "encrypt_stream_with L alg key nonce aad sz (r, k) =
      stream_loop (stream_next (stream_encrypt L) aad) (stream_last (stream_encrypt L) aad) sz
        (stream_start alg key nonce) current 0 (r', k)"
    using assms(1) r' by (simp add: encrypt_stream_with_def stream_params_def stream_new_ok stream_steps)
  ultimately show ?thesis using stream_run [OF assms(2,3) _ r'] by (simp only:)
qed

lemma decrypt_stream_run:
  assumes "stream_params alg key nonce sz" and "flowing r" and "faultless k"
  shows "case run_chunks (stream_next (stream_decrypt L) aad) (stream_last (stream_decrypt L) aad)
              (stream_start alg key nonce) (chunks_of (sz + TAG_LEN) (content r)) of
      Inl e \<Rightarrow> fst (decrypt_stream_with L alg key nonce aad sz (r, k)) = Inl e
    | Inr outs \<Rightarrow>
        fst (decrypt_stream_with L alg key nonce aad sz (r, k)) = Inr (len64 (concat outs)) \<and>
        sink_out (snd (snd (decrypt_stream_with L alg key nonce aad sz (r, k)))) = sink_out k @ concat outs"
proof -
  obtain current r' where r': "read_chunk (sz + TAG_LEN) r = (Inr current, r')"
    using read_chunk_flowing [OF assms(2)] by blast
  have "0 < sz + TAG_LEN" using assms(1) by (simp add: stream_params_def)
  moreover have "decrypt_stream_with L alg key nonce aad sz (r, k) =
      stream_loop (stream_next (stream_decrypt L) aad) (stream_last (stream_decrypt L) aad) (sz + TAG_LEN)
        (stream_start alg key nonce) current 0 (r', k)"
    using assms(1) r' by (simp add: decrypt_stream_with_def stream_params_def stream_new_ok stream_steps Let_def)
  ultimately show ?thesis using stream_run [OF assms(2,3) _ r'] by (simp only:)
qed

text \<open>The nonce of the chunk at a position.\<close>

definition chunk_nonce :: "bytes \<Rightarrow> nat \<Rightarrow> bool \<Rightarrow> bytes" where
  "chunk_nonce nonce i fin = nonce @ to_be_bytes (of_nat i :: u32) @ [stream_flag fin]"

lemma length_chunk_nonce: "length nonce = stream_nonce_len alg \<Longrightarrow> length (chunk_nonce nonce i fin) = nonce_len alg"
  using stream_nonce_len_eq [of alg] by (simp add: chunk_nonce_def)

lemma chunk_nonce_inj:
  "i < 2 ^ 32 \<Longrightarrow> j < 2 ^ 32 \<Longrightarrow> chunk_nonce nonce i fin = chunk_nonce nonce j fin' \<Longrightarrow> i = j \<and> fin = fin'"
proof -
  assume ij: "i < 2 ^ 32" "j < 2 ^ 32" and eq: "chunk_nonce nonce i fin = chunk_nonce nonce j fin'"
  then have "to_be_bytes (of_nat i :: u32) @ [stream_flag fin] = to_be_bytes (of_nat j :: u32) @ [stream_flag fin']"
    by (simp add: chunk_nonce_def)
  then have *: "(of_nat i :: u32) = of_nat j \<and> [stream_flag fin] = [stream_flag fin']"
    by (intro be32_field.delimited) auto
  then have "unat (of_nat i :: u32) = unat (of_nat j :: u32)" by (simp del: of_nat_eq_iff)
  with ij have "i = j" by (simp add: unat_of_nat)
  with * show ?thesis by (cases fin; cases fin') (auto simp: stream_flag_def)
qed

text \<open>The chunks of a stream, each under its nonce.\<close>

definition chunked ::
  "(bytes \<Rightarrow> bytes \<Rightarrow> bytes \<Rightarrow> bytes option) \<Rightarrow> bytes \<Rightarrow> bytes \<Rightarrow> bytes list \<Rightarrow> bytes list \<Rightarrow> bool" where
  "chunked f nonce aad cs outs \<longleftrightarrow>
     length outs = length cs \<and>
     (\<forall>i < length cs. f (chunk_nonce nonce i (Suc i = length cs)) aad (cs ! i) = Some (outs ! i))"

lemma run_chunked:
  assumes "stream_be32 L" and "length nonce = stream_nonce_len alg"
  shows "run_chunks (stream_next (stream_encrypt L) aad) (stream_last (stream_encrypt L) aad)
              (stream_start alg key nonce) cs = Inr outs \<longleftrightarrow>
         cs \<noteq> [] \<and> length cs \<le> 2 ^ 32 \<and> chunked (aead_encrypt L alg key) nonce aad cs outs"
    and "run_chunks (stream_next (stream_decrypt L) aad) (stream_last (stream_decrypt L) aad)
              (stream_start alg key nonce) cs = Inr outs \<longleftrightarrow>
         cs \<noteq> [] \<and> length cs \<le> 2 ^ 32 \<and> chunked (aead_decrypt L alg key) nonce aad cs outs"
proof -
  have s: "ss_position (stream_start alg key nonce) = of_nat 0" by (simp add: stream_start_def)
  have main: "run_chunks (stream_next f aad) (stream_last f aad) (stream_start alg key nonce) cs = Inr outs \<longleftrightarrow>
         cs \<noteq> [] \<and> length cs \<le> 2 ^ 32 \<and> chunked g nonce aad cs outs"
    if f: "\<And>pos fin m. f alg key nonce pos fin aad m = g (nonce @ to_be_bytes pos @ [stream_flag fin]) aad m" for f g
  proof (cases "cs \<noteq> [] \<and> length cs \<le> 2 ^ 32")
    case True
    then show ?thesis
      using run_chunks_stream [OF s, of cs f aad outs] by (simp add: stream_start_def chunked_def chunk_nonce_def f)
  next
    case False
    then show ?thesis using run_chunks_bound [OF _ s, of f aad cs outs] by auto
  qed
  show "run_chunks (stream_next (stream_encrypt L) aad) (stream_last (stream_encrypt L) aad)
              (stream_start alg key nonce) cs = Inr outs \<longleftrightarrow>
         cs \<noteq> [] \<and> length cs \<le> 2 ^ 32 \<and> chunked (aead_encrypt L alg key) nonce aad cs outs"
    by (rule main) (rule stream_be32D(1) [OF assms])
  show "run_chunks (stream_next (stream_decrypt L) aad) (stream_last (stream_decrypt L) aad)
              (stream_start alg key nonce) cs = Inr outs \<longleftrightarrow>
         cs \<noteq> [] \<and> length cs \<le> 2 ^ 32 \<and> chunked (aead_decrypt L alg key) nonce aad cs outs"
    by (rule main) (rule stream_be32D(2) [OF assms])
qed

lemma chunked_sealed:
  assumes "aead_correct L" and "chunked (aead_encrypt L alg key) nonce aad (chunks_of sz P) cts" and "0 < sz"
  shows "chunked (aead_decrypt L alg key) nonce aad cts (chunks_of sz P)"
    and "map length cts = map (\<lambda>c. length c + TAG_LEN) (chunks_of sz P)"
    and "chunks_of (sz + TAG_LEN) (concat cts) = cts"
proof -
  let ?cs = "chunks_of sz P"
  have n: "length cts = length ?cs" using assms(2) by (simp add: chunked_def)
  have open_i: "aead_decrypt L alg key (chunk_nonce nonce i (Suc i = length ?cs)) aad (cts ! i) = Some (?cs ! i)"
    and len_i: "length (cts ! i) = length (?cs ! i) + TAG_LEN" if "i < length ?cs" for i
    using that assms(2) aead_correctD [OF assms(1)] unfolding chunked_def by blast+
  show "chunked (aead_decrypt L alg key) nonce aad cts ?cs"
    using open_i n by (simp add: chunked_def)
  show lens: "map length cts = map (\<lambda>c. length c + TAG_LEN) ?cs"
    using len_i n by (intro nth_equalityI) auto
  have ne: "cts \<noteq> []" using n by (metis chunks_of_not_Nil length_0_conv)
  have "length c = sz + TAG_LEN" if "c \<in> set (butlast cts)" for c
  proof -
    from that obtain i where i: "i < length (butlast cts)" "c = butlast cts ! i" by (metis in_set_conv_nth)
    then have i': "i < length ?cs - 1" "i < length ?cs" "c = cts ! i" using n by (auto simp: nth_butlast)
    then have "?cs ! i \<in> set (butlast ?cs)" by (metis length_butlast nth_butlast nth_mem)
    then show ?thesis using chunks_of_full [OF assms(3)] len_i [OF i'(2)] i'(3) by simp
  qed
  moreover have last_len: "length (last cts) = length (last ?cs) + TAG_LEN"
    using len_i [of "length ?cs - 1"] ne n by (simp add: last_conv_nth)
  moreover have "length (last ?cs) \<le> sz" using chunks_of_lengths [OF assms(3)] last_in_set [OF chunks_of_not_Nil] by blast
  moreover have "last cts \<noteq> []" using last_len by (auto simp: TAG_LEN_def)
  ultimately show "chunks_of (sz + TAG_LEN) (concat cts) = cts"
    using ne assms(3) by (intro chunks_of_concat) auto
qed

lemma length_concat_sealed:
  assumes "map length cts = map (\<lambda>c. length c + TAG_LEN) cs"
  shows "length (concat cts) = length (concat cs) + TAG_LEN * length cs"
proof -
  have "sum_list (map length cts) = sum_list (map (\<lambda>c. length c + TAG_LEN) cs)" by (simp only: assms)
  then show ?thesis by (simp add: length_concat sum_list_addf sum_list_triv)
qed

lemma chunked_encrypt_exists:
  assumes "aead_total L" and "stream_params alg key nonce sz"
  shows "\<exists>cts. chunked (aead_encrypt L alg key) nonce aad (chunks_of sz P) cts"
proof -
  let ?cs = "chunks_of sz P" and ?N = "\<lambda>i. chunk_nonce nonce i (Suc i = length (chunks_of sz P))"
  have "\<exists>ct. aead_encrypt L alg key (?N i) aad (?cs ! i) = Some ct" if "i < length ?cs" for i
  proof (rule aead_totalD [OF assms(1)])
    have "length (?cs ! i) \<le> sz" using chunks_of_lengths [OF _ nth_mem [OF that]] assms(2) by (simp add: stream_params_def)
    then show "length (?cs ! i) < 2 ^ 32" using assms(2) by (simp add: stream_params_def MAX_CHUNK_SIZE_def)
  qed (use assms(2) in \<open>simp_all add: stream_params_def length_chunk_nonce\<close>)
  then have "chunked (aead_encrypt L alg key) nonce aad ?cs
      (map (\<lambda>i. the (aead_encrypt L alg key (?N i) aad (?cs ! i))) [0..<length ?cs])"
    by (fastforce simp: chunked_def)
  then show ?thesis by blast
qed

text \<open>What an encryption that returns has written, and what a decryption that returns has opened.\<close>

lemma encrypt_stream_success:
  assumes "stream_be32 L" and "stream_params alg key nonce sz" and "flowing r" and "faultless k"
    and "encrypt_stream_with L alg key nonce aad sz (r, k) = (Inr n, (r', k'))"
  obtains cts where "chunked (aead_encrypt L alg key) nonce aad (chunks_of sz (content r)) cts"
    "sink_out k' = sink_out k @ concat cts" "n = len64 (concat cts)" "length cts \<le> 2 ^ 32"
proof -
  have nl: "length nonce = stream_nonce_len alg" using assms(2) by (simp add: stream_params_def)
  let ?run = "run_chunks (stream_next (stream_encrypt L) aad) (stream_last (stream_encrypt L) aad)
              (stream_start alg key nonce) (chunks_of sz (content r))"
  show thesis
  proof (cases ?run)
    case (Inl e)
    with encrypt_stream_run [OF assms(2-4), of L aad] assms(5) show thesis by simp
  next
    case (Inr outs)
    with encrypt_stream_run [OF assms(2-4), of L aad] assms(5) run_chunked(1) [OF assms(1) nl] show thesis
      by (intro that [of outs]) (auto simp: chunked_def)
  qed
qed

text \<open>
  With failures: a loop that returns has met none, neither of the source nor of the sink, so it
  is the run without failures, and it has read the source to its end.
\<close>

lemma stream_loop_done:
  assumes "stream_loop nextf lastf sz s current written (r, k) = (Inr n, (r', k'))" and "tame r" and "0 < sz"
  shows "flowing r \<and> r' = [] \<and>
    stream_loop nextf lastf sz s current written (r, k\<lparr>sink_faults := \<lambda>_. None\<rparr>) = (Inr n, ([], k'\<lparr>sink_faults := \<lambda>_. None\<rparr>))"
  using assms
proof (induction nextf lastf sz s current written "(r, k)" arbitrary: r k rule: stream_loop.induct)
  case (1 nextf lastf sz s current written r k)
  have w: "write_all out (k\<lparr>sink_faults := \<lambda>_. None\<rparr>) = (Inr (), k1\<lparr>sink_faults := \<lambda>_. None\<rparr>)"
    if "write_all out k = (Inr u, k1)" for out u k1
    using that by (auto simp: write_all_def Let_def split: option.splits)
  from "1.prems"(1) obtain nxt r1 where nxt: "read_chunk sz r = (Inr nxt, r1)"
    by (subst (asm) stream_loop.simps) (auto split: prod.splits sum.splits)
  note t = read_chunk_tame [OF nxt "1.prems"(2,3)]
  show ?case
  proof (cases "nxt = []")
    case True
    with "1.prems"(1) nxt obtain out u where out: "lastf s current = Inr out" "write_all out k = (Inr u, k')"
      "n = written + len64 out" "r' = r1"
      by (subst (asm) stream_loop.simps) (auto split: prod.splits sum.splits)
    with True nxt t w [OF out(2)] show ?thesis by (auto simp: stream_loop.simps [of nextf lastf sz s])
  next
    case False
    with "1.prems"(1) nxt obtain out s' u k1 where out: "nextf s current = Inr (out, s')" "write_all out k = (Inr u, k1)"
      and rest: "stream_loop nextf lastf sz s' nxt (written + len64 out) (r1, k1) = (Inr n, (r', k'))"
      by (subst (asm) stream_loop.simps) (auto split: prod.splits sum.splits)
    from "1.hyps" [OF nxt [symmetric] refl False out(1) refl out(2) [symmetric] refl rest t(1) "1.prems"(3)]
    show ?thesis using t(3) nxt False out(1) w [OF out(2)] by (auto simp: stream_loop.simps [of nextf lastf sz s])
  qed
qed

lemma encrypt_stream_done:
  assumes "encrypt_stream_with L alg key nonce aad sz (r, k) = (Inr n, (r', k'))" and "tame r"
  shows "stream_params alg key nonce sz \<and> flowing r \<and> r' = [] \<and>
    encrypt_stream_with L alg key nonce aad sz (r, k\<lparr>sink_faults := \<lambda>_. None\<rparr>) = (Inr n, ([], k'\<lparr>sink_faults := \<lambda>_. None\<rparr>))"
proof -
  from assms(1) obtain s current r1 where c: "read_chunk sz r = (Inr current, r1)" and p: "stream_params alg key nonce sz"
    and s: "stream_new alg key nonce = Inr s"
    and l: "stream_loop (encrypt_next L aad) (encrypt_last L aad) sz s current 0 (r1, k) = (Inr n, (r', k'))"
    by (auto simp: encrypt_stream_with_def stream_params_def stream_new_def cipher_def result_simps
        split: if_splits sum.splits prod.splits)
  have sz: "0 < sz" using p by (simp add: stream_params_def)
  note t = read_chunk_tame [OF c assms(2) sz]
  from stream_loop_done [OF l t(1) sz] t(3) p s c show ?thesis
    by (simp add: encrypt_stream_with_def stream_params_def)
qed

text \<open>What was encrypted by a run that returned, whatever might have failed.\<close>

lemma encrypt_stream_written:
  assumes "stream_be32 L" and "tame r" and "sink_out k = []"
    and "encrypt_stream_with L alg key nonce aad sz (r, k) = (Inr n, (r', k'))"
  obtains cts where "stream_params alg key nonce sz" "chunked (aead_encrypt L alg key) nonce aad (chunks_of sz (content r)) cts"
    "sink_out k' = concat cts" "length cts \<le> 2 ^ 32" "r' = []"
proof -
  let ?k = "k\<lparr>sink_faults := \<lambda>_. None\<rparr>" and ?k' = "k'\<lparr>sink_faults := \<lambda>_. None\<rparr>"
  from encrypt_stream_done [OF assms(4,2)] have p: "stream_params alg key nonce sz" and f: "flowing r" and r': "r' = []"
    and run: "encrypt_stream_with L alg key nonce aad sz (r, ?k) = (Inr n, ([], ?k'))" by blast+
  have k: "faultless ?k" by (simp add: faultless_def)
  obtain cts where cts: "chunked (aead_encrypt L alg key) nonce aad (chunks_of sz (content r)) cts"
    "sink_out ?k' = sink_out ?k @ concat cts" "length cts \<le> 2 ^ 32"
    using encrypt_stream_success [OF assms(1) p f k run] by blast
  have "sink_out k' = concat cts" using cts(2) assms(3) by simp
  from that [OF p cts(1) this cts(3) r'] show thesis .
qed

lemma decrypt_stream_success:
  assumes "stream_be32 L" and "stream_params alg key nonce sz" and "flowing r" and "faultless k"
    and "decrypt_stream_with L alg key nonce aad sz (r, k) = (Inr n, (r', k'))"
  obtains pts where "chunked (aead_decrypt L alg key) nonce aad (chunks_of (sz + TAG_LEN) (content r)) pts"
    "sink_out k' = sink_out k @ concat pts" "n = len64 (concat pts)" "length pts \<le> 2 ^ 32"
proof -
  have nl: "length nonce = stream_nonce_len alg" using assms(2) by (simp add: stream_params_def)
  let ?run = "run_chunks (stream_next (stream_decrypt L) aad) (stream_last (stream_decrypt L) aad)
              (stream_start alg key nonce) (chunks_of (sz + TAG_LEN) (content r))"
  show thesis
  proof (cases ?run)
    case (Inl e)
    with decrypt_stream_run [OF assms(2-4), of L aad] assms(5) show thesis by simp
  next
    case (Inr outs)
    with decrypt_stream_run [OF assms(2-4), of L aad] assms(5) run_chunked(2) [OF assms(1) nl] show thesis
      by (intro that [of outs]) (auto simp: chunked_def)
  qed
qed

lemma encrypt_stream_returns:
  assumes "aead_total L" and "stream_be32 L" and "stream_params alg key nonce sz" and "flowing r" and "faultless k"
    and "length (chunks_of sz (content r)) \<le> 2 ^ 32"
  shows "\<exists>n r' k'. encrypt_stream_with L alg key nonce aad sz (r, k) = (Inr n, (r', k'))"
proof -
  have nl: "length nonce = stream_nonce_len alg" using assms(3) by (simp add: stream_params_def)
  obtain cts where "chunked (aead_encrypt L alg key) nonce aad (chunks_of sz (content r)) cts"
    using chunked_encrypt_exists [OF assms(1,3)] by blast
  with run_chunked(1) [OF assms(2) nl] assms(6) have
    "run_chunks (stream_next (stream_encrypt L) aad) (stream_last (stream_encrypt L) aad)
              (stream_start alg key nonce) (chunks_of sz (content r)) = Inr cts" by simp
  with encrypt_stream_run [OF assms(3-5), of L aad] show ?thesis
    by (metis (mono_tags, lifting) old.sum.simps(6) prod.collapse)
qed

lemma decrypt_stream_returns:
  assumes "stream_be32 L" and "stream_params alg key nonce sz" and "flowing r" and "faultless k"
    and "length pts \<le> 2 ^ 32" and "chunked (aead_decrypt L alg key) nonce aad (chunks_of (sz + TAG_LEN) (content r)) pts"
  shows "\<exists>r' k'. decrypt_stream_with L alg key nonce aad sz (r, k) = (Inr (len64 (concat pts)), (r', k')) \<and>
           sink_out k' = sink_out k @ concat pts"
proof -
  have nl: "length nonce = stream_nonce_len alg" using assms(2) by (simp add: stream_params_def)
  have "run_chunks (stream_next (stream_decrypt L) aad) (stream_last (stream_decrypt L) aad)
              (stream_start alg key nonce) (chunks_of (sz + TAG_LEN) (content r)) = Inr pts"
    using run_chunked(2) [OF assms(1) nl] assms(5,6) by (simp add: chunked_def)
  with decrypt_stream_run [OF assms(2-4), of L aad] show ?thesis
    by (cases "decrypt_stream_with L alg key nonce aad sz (r, k)") auto
qed

text \<open>Random access computes the nonce of the chunk.\<close>

lemma decrypt_chunk_with_eq:
  assumes "length nonce = stream_nonce_len alg" and "length key = 32"
  shows "decrypt_chunk_with L alg key nonce aad (of_nat i) fin c
           = ok_or Auth (aead_decrypt L alg key (chunk_nonce nonce i fin) aad c)"
proof -
  have snl: "stream_nonce_len alg + 5 = nonce_len alg" "nonce_len alg \<le> 24"
    using stream_nonce_len_eq nonce_len_le [of alg] by (auto simp: NONCE_LEN_def)
  let ?flag = "if fin then 1 else 0 :: byte" and ?idx = "to_be_bytes (of_nat i :: u32)"
  let ?z = "replicate (24 - stream_nonce_len alg - 4) (0 :: byte)"
  have le: "stream_nonce_len alg \<le> 19" using snl by linarith
  then have z: "?z \<noteq> []" by simp
  have nl: "nonce_len alg - 1 = length (nonce @ ?idx)" "nonce_len alg = length (nonce @ ?idx @ [?flag])"
    unfolding snl(1) [symmetric] using assms(1) by (simp_all del: stream_nonce_len_eq)
  obtain y ys where "?z = y # ys" using z by (cases ?z) auto
  then have "((nonce @ ?idx) @ ?z)[length (nonce @ ?idx) := ?flag] = (nonce @ ?idx) @ ?flag # tl ?z"
    by (simp only: list_update_length list.sel)
  then have "(nonce @ ?idx @ ?z)[nonce_len alg - 1 := ?flag] = nonce @ ?idx @ ?flag # tl ?z"
    by (simp only: nl(1) append_assoc)
  moreover have "take (nonce_len alg) (nonce @ ?idx @ ?flag # tl ?z) = nonce @ ?idx @ [?flag]"
    unfolding nl(2) by simp
  moreover have "copy_at (stream_nonce_len alg) ?idx (copy_at 0 nonce (replicate NONCE_LEN 0)) = nonce @ ?idx @ ?z"
    using assms(1) le by (simp add: copy_at_def NONCE_LEN_def)
  ultimately have "take (nonce_len alg)
      ((copy_at (stream_nonce_len alg) ?idx (copy_at 0 nonce (replicate NONCE_LEN 0)))[nonce_len alg - 1 := ?flag])
      = chunk_nonce nonce i fin"
    by (simp add: chunk_nonce_def stream_flag_def)
  then have "decrypt_chunk_with L alg key nonce aad (of_nat i) fin c = open_with L alg key (chunk_nonce nonce i fin) aad c"
    using assms(1) by (simp add: decrypt_chunk_with_def Let_def)
  then show ?thesis using assms(2) length_chunk_nonce [OF assms(1)] by (simp add: open_with_def cipher_def)
qed

subsection \<open>The decrypting reader (\<open>StreamDecryptReader\<close>)\<close>

record stream_decrypt_reader =
  sdr_dec :: "stream_state option"
  sdr_reader :: source
  sdr_aad :: bytes
  sdr_enc_chunk :: nat
  sdr_current :: bytes
  sdr_plain :: bytes
  sdr_pos :: nat
  sdr_finished :: bool

definition sdr_new_with ::
  "aead_alg \<Rightarrow> bytes \<Rightarrow> bytes \<Rightarrow> bytes \<Rightarrow> source \<Rightarrow> nat \<Rightarrow> stream_decrypt_reader result" where
  "sdr_new_with alg key stream_nonce aad reader chunk_size =
     (if length stream_nonce \<noteq> stream_nonce_len alg then Inl (Format ''stream nonce length'')
      else if chunk_size = 0 \<or> chunk_size > MAX_CHUNK_SIZE then Inl (Format ''chunk size'')
      else rbind (stream_new alg key stream_nonce) (\<lambda>dec.
        let enc_chunk = chunk_size + TAG_LEN;
            (current, reader') = read_chunk enc_chunk reader
        in rbind current (\<lambda>current.
             Inr \<lparr>sdr_dec = Some dec, sdr_reader = reader', sdr_aad = aad, sdr_enc_chunk = enc_chunk,
                  sdr_current = current, sdr_plain = [], sdr_pos = 0, sdr_finished = False\<rparr>)))"

definition sdr_refill :: "lib \<Rightarrow> (stream_decrypt_reader, bool) op" where
  "sdr_refill L d =
     (if sdr_finished d then (Inr False, d)
      else case read_chunk (sdr_enc_chunk d) (sdr_reader d) of
        (Inl e, r') \<Rightarrow> (Inl e, d\<lparr>sdr_reader := r'\<rparr>)
      | (Inr nxt, r') \<Rightarrow>
          let d = d\<lparr>sdr_reader := r'\<rparr> in
          if nxt = []
          then case sdr_dec d of
                 None \<Rightarrow> (Inl (Format ''stream state''), d)
               | Some s \<Rightarrow>
                   let d = d\<lparr>sdr_dec := None\<rparr> in
                   (case decrypt_last L (sdr_aad d) s (sdr_current d) of
                      Inl e \<Rightarrow> (Inl e, d)
                    | Inr pt \<Rightarrow> (Inr True, d\<lparr>sdr_finished := True, sdr_plain := pt, sdr_pos := 0\<rparr>))
          else case sdr_dec d of
                 None \<Rightarrow> (Inl (Format ''stream state''), d)
               | Some s \<Rightarrow>
                   (case decrypt_next L (sdr_aad d) s (sdr_current d) of
                      Inl e \<Rightarrow> (Inl e, d)
                    | Inr (pt, s') \<Rightarrow>
                        (Inr True, d\<lparr>sdr_dec := Some s', sdr_current := nxt, sdr_plain := pt, sdr_pos := 0\<rparr>)))"

definition sdr_measure :: "stream_decrypt_reader \<Rightarrow> nat" where
  "sdr_measure d = (if sdr_finished d then 0 else Suc (backlog (sdr_reader d)))"

lemma sdr_refill_measure: "sdr_refill L d = (Inr True, d') \<Longrightarrow> sdr_measure d' < sdr_measure d"
  by (auto simp: sdr_refill_def sdr_measure_def Let_def dest: read_chunk_backlog
      split: if_splits prod.splits sum.splits option.splits)

text \<open>\<open>read\<close> returns the bytes it copied into a buffer of the given length; the errors that
  are not I/O errors are wrapped as invalid data.\<close>

function sdr_read :: "lib \<Rightarrow> nat \<Rightarrow> (stream_decrypt_reader, bytes) op" where
  "sdr_read L n d =
     (if sdr_pos d < length (sdr_plain d)
      then let m = min (length (sdr_plain d) - sdr_pos d) n
           in (Inr (take m (drop (sdr_pos d) (sdr_plain d))), d\<lparr>sdr_pos := sdr_pos d + m\<rparr>)
      else case sdr_refill L d of
        (Inr b, d') \<Rightarrow> if b then sdr_read L n d' else (Inr [], d')
      | (Inl e, d') \<Rightarrow>
          (Inl (case e of Io i \<Rightarrow> Io i | _ \<Rightarrow> Io (IoWrapped InvalidData e)), d'))"
  by pat_completeness auto
termination
  by (relation "measure (\<lambda>(L, n, d). sdr_measure d)") (auto dest!: sym [where t = "sdr_refill _ _"] sdr_refill_measure)

declare sdr_read.simps [simp del]

text \<open>What a reader still has to deliver: the rest of its current chunk and what the chunks
  ahead of it open to.\<close>

definition sdr_pending :: "lib \<Rightarrow> stream_decrypt_reader \<Rightarrow> bytes result" where
  "sdr_pending L d =
     (if sdr_finished d then Inr (drop (sdr_pos d) (sdr_plain d))
      else case sdr_dec d of
        None \<Rightarrow> Inl (Format ''stream state'')
      | Some s \<Rightarrow>
          rbind (run_chunks (decrypt_next L (sdr_aad d)) (decrypt_last L (sdr_aad d)) s
                   (sdr_current d # ahead (sdr_enc_chunk d) (content (sdr_reader d))))
            (\<lambda>pts. Inr (drop (sdr_pos d) (sdr_plain d) @ concat pts)))"

definition sdr_ok :: "stream_decrypt_reader \<Rightarrow> bool" where
  "sdr_ok d \<longleftrightarrow> flowing (sdr_reader d) \<and> 0 < sdr_enc_chunk d \<and> sdr_pos d \<le> length (sdr_plain d)"

lemma sdr_new_pending:
  assumes "sdr_new_with alg key nonce aad r sz = Inr d" and "flowing r"
  shows "sdr_ok d \<and> length key = 32 \<and> length nonce = stream_nonce_len alg \<and> 0 < sz \<and> sz \<le> MAX_CHUNK_SIZE \<and>
    sdr_pending L d = rbind (run_chunks (decrypt_next L aad) (decrypt_last L aad) (stream_start alg key nonce)
                         (chunks_of (sz + TAG_LEN) (content r))) (\<lambda>pts. Inr (concat pts))"
proof -
  obtain r' where r': "read_chunk (sz + TAG_LEN) r = (Inr (take (sz + TAG_LEN) (content r)), r')" "flowing r'"
    "content r' = drop (sz + TAG_LEN) (content r)"
    using read_chunk_flowing [OF assms(2)] by blast
  from assms(1) r'(1) have "length key = 32" "length nonce = stream_nonce_len alg" "0 < sz" "sz \<le> MAX_CHUNK_SIZE"
    and d: "d = \<lparr>sdr_dec = Some (stream_start alg key nonce), sdr_reader = r', sdr_aad = aad, sdr_enc_chunk = sz + TAG_LEN,
                  sdr_current = take (sz + TAG_LEN) (content r), sdr_plain = [], sdr_pos = 0, sdr_finished = False\<rparr>"
    by (auto simp: sdr_new_with_def stream_new_def stream_start_def cipher_def Let_def split: if_splits)
  then show ?thesis using r' by (simp add: sdr_ok_def sdr_pending_def chunks_of_ahead)
qed

lemma sdr_refill_pending:
  assumes "sdr_ok d" and "sdr_pos d = length (sdr_plain d)" and "sdr_pending L d = Inr b"
  shows "(sdr_finished d \<and> b = [] \<and> sdr_refill L d = (Inr False, d)) \<or>
         (\<exists>d'. sdr_refill L d = (Inr True, d') \<and> sdr_ok d' \<and> sdr_pending L d' = Inr b)"
proof (cases "sdr_finished d")
  case True
  with assms show ?thesis by (simp add: sdr_refill_def sdr_pending_def)
next
  case False
  with assms(3) obtain s pts where s: "sdr_dec d = Some s"
    and run: "run_chunks (decrypt_next L (sdr_aad d)) (decrypt_last L (sdr_aad d)) s
                   (sdr_current d # ahead (sdr_enc_chunk d) (content (sdr_reader d))) = Inr pts"
    and b: "b = concat pts"
    using assms(2) by (auto simp: sdr_pending_def result_simps split: option.splits)
  from assms(1) obtain r' where r': "read_chunk (sdr_enc_chunk d) (sdr_reader d)
      = (Inr (take (sdr_enc_chunk d) (content (sdr_reader d))), r')" "flowing r'"
    "content r' = drop (sdr_enc_chunk d) (content (sdr_reader d))" and pos: "0 < sdr_enc_chunk d"
    using read_chunk_flowing by (auto simp: sdr_ok_def)
  show ?thesis
  proof (cases "content (sdr_reader d) = []")
    case True
    with run obtain pt where "decrypt_last L (sdr_aad d) s (sdr_current d) = Inr pt" "pts = [pt]"
      by (auto simp: ahead_def result_simps)
    with True False s r' b pos show ?thesis
      by (simp add: sdr_refill_def Let_def sdr_ok_def sdr_pending_def)
  next
    case nonempty: False
    let ?nxt = "take (sdr_enc_chunk d) (content (sdr_reader d))"
    from run ahead_step [OF pos nonempty] obtain pt s' pts'
      where pt: "decrypt_next L (sdr_aad d) s (sdr_current d) = Inr (pt, s')" "pts = pt # pts'"
      and rest: "run_chunks (decrypt_next L (sdr_aad d)) (decrypt_last L (sdr_aad d)) s'
                   (?nxt # ahead (sdr_enc_chunk d) (content r')) = Inr pts'"
      using r'(3) by (auto simp: run_chunks_Cons result_simps)
    have "?nxt \<noteq> []" using nonempty pos by simp
    with False s r' b pos pt rest show ?thesis
      by (simp add: sdr_refill_def Let_def sdr_ok_def sdr_pending_def)
  qed
qed

lemma sdr_read_pending:
  assumes "sdr_ok d" and "sdr_pending L d = Inr b" and "0 < n"
  shows "\<exists>out d'. sdr_read L n d = (Inr out, d') \<and> sdr_ok d' \<and> length out \<le> n \<and>
           (\<exists>b'. sdr_pending L d' = Inr b' \<and> b = out @ b') \<and> (out = [] \<longleftrightarrow> b = [])"
  using assms(1,2)
proof (induction "sdr_measure d" arbitrary: d rule: less_induct)
  case less
  show ?case
  proof (cases "sdr_pos d < length (sdr_plain d)")
    case True
    let ?m = "min (length (sdr_plain d) - sdr_pos d) n"
    let ?d = "d\<lparr>sdr_pos := sdr_pos d + ?m\<rparr>" and ?out = "take ?m (drop (sdr_pos d) (sdr_plain d))"
    have r: "sdr_read L n d = (Inr ?out, ?d)" using True by (simp add: sdr_read.simps Let_def)
    have split: "drop (sdr_pos d) (sdr_plain d) = ?out @ drop (sdr_pos d + ?m) (sdr_plain d)"
      by (metis add.commute append_take_drop_id drop_drop)
    have ne: "?out \<noteq> []" using True assms(3) by simp
    have "\<exists>b'. sdr_pending L ?d = Inr b' \<and> b = ?out @ b'"
      using less.prems(2) split
      by (cases "sdr_finished d") (auto simp: sdr_pending_def result_simps split: option.splits)
    moreover have "sdr_ok ?d" using less.prems(1) by (auto simp: sdr_ok_def min_def)
    moreover have "length ?out \<le> n" by simp
    ultimately show ?thesis using r ne by (metis Nil_is_append_conv)
  next
    case False
    then have pos: "sdr_pos d = length (sdr_plain d)" using less.prems(1) by (simp add: sdr_ok_def)
    from sdr_refill_pending [OF less.prems(1) pos less.prems(2)] show ?thesis
    proof (elim disjE conjE exE)
      assume "sdr_finished d" "b = []" "sdr_refill L d = (Inr False, d)"
      with False less.prems show ?thesis by (simp add: sdr_read.simps [of L n d])
    next
      fix d' assume d': "sdr_refill L d = (Inr True, d')" "sdr_ok d'" "sdr_pending L d' = Inr b"
      with less.hyps [OF sdr_refill_measure [OF d'(1)] d'(2,3)] False show ?thesis
        by (simp add: sdr_read.simps [of L n d])
    qed
  qed
qed

text \<open>
  A decrypting reader as a source: its segments are what its \<open>read\<close> calls deliver with a buffer
  of a whole chunk, up to the first error.
\<close>

lemma sdr_read_measure:
  assumes "sdr_read L n d = (Inr b, d')" and "b \<noteq> []"
  shows "sdr_measure d' < sdr_measure d \<or>
    (sdr_measure d' = sdr_measure d \<and> length (sdr_plain d') - sdr_pos d' < length (sdr_plain d) - sdr_pos d)"
  using assms
proof (induction L n d rule: sdr_read.induct)
  case (1 L n d)
  show ?case
  proof (cases "sdr_pos d < length (sdr_plain d)")
    case True
    with "1.prems" have b: "b = take (min (length (sdr_plain d) - sdr_pos d) n) (drop (sdr_pos d) (sdr_plain d))"
      and d': "d' = d\<lparr>sdr_pos := sdr_pos d + min (length (sdr_plain d) - sdr_pos d) n\<rparr>"
      by (auto simp: sdr_read.simps [of L n d] Let_def)
    have "0 < n" using b "1.prems"(2) by (cases n) auto
    then show ?thesis using True unfolding d' by (auto simp: sdr_measure_def)
  next
    case False
    obtain q d1 where q: "sdr_refill L d = (q, d1)" by force
    with "1.prems" False have "q = Inr True" and r: "sdr_read L n d1 = (Inr b, d')"
      by (auto simp: sdr_read.simps [of L n d] split: sum.splits if_splits)
    with q have q': "sdr_refill L d = (Inr True, d1)" by simp
    from "1.IH" [OF False q' [symmetric] refl] r "1.prems"(2) sdr_refill_measure [OF q'] show ?thesis by auto
  qed
qed

function sdr_source :: "lib \<Rightarrow> stream_decrypt_reader \<Rightarrow> source" where
  "sdr_source L d =
     (case sdr_read L MAX_CHUNK_SIZE d of
        (Inr b, d') \<Rightarrow> if b = [] then [] else Inr b # sdr_source L d'
      | (Inl (Io e), d') \<Rightarrow> [Inl e]
      | (Inl _, d') \<Rightarrow> [])"
  by pat_completeness auto
termination
  by (relation "measures [\<lambda>(L, d). sdr_measure d, \<lambda>(L, d). length (sdr_plain d) - sdr_pos d]")
    (auto dest!: sym [where t = "sdr_read _ _ _"] sdr_read_measure)

declare sdr_source.simps [simp del]

subsection \<open>Properties\<close>

text \<open>C19. Streaming round trip. Encrypting a stream of at most \<open>2 ^ 32\<close> chunks returns, with
  as many bytes as it wrote: the plaintext and one tag per chunk. Decrypting those bytes,
  however the source delivers them, returns and writes the plaintext back.\<close>

theorem stream_roundtrip:
  assumes "aead_correct L" and "aead_total L" and "stream_be32 L"
    and "stream_params alg key nonce sz" and "flowing r" and "faultless k" and "sink_out k = []"
    and "length (chunks_of sz (content r)) \<le> 2 ^ 32"
  shows "\<exists>r' k'. encrypt_stream_with L alg key nonce aad sz (r, k) = (Inr (len64 (sink_out k')), (r', k')) \<and>
      length (sink_out k') = length (content r) + TAG_LEN * length (chunks_of sz (content r)) \<and>
      (\<forall>rc kd. flowing rc \<and> content rc = sink_out k' \<and> faultless kd \<and> sink_out kd = [] \<longrightarrow>
         (\<exists>rc' kd'. decrypt_stream_with L alg key nonce aad sz (rc, kd) = (Inr (len64 (content r)), (rc', kd')) \<and>
            sink_out kd' = content r))"
proof -
  have sz: "0 < sz" using assms(4) by (simp add: stream_params_def)
  obtain n r' k' where enc: "encrypt_stream_with L alg key nonce aad sz (r, k) = (Inr n, (r', k'))"
    using encrypt_stream_returns [OF assms(2-6,8)] by blast
  obtain cts where cts: "chunked (aead_encrypt L alg key) nonce aad (chunks_of sz (content r)) cts"
    "sink_out k' = concat cts" "n = len64 (concat cts)"
    using encrypt_stream_success [OF assms(3-6) enc] assms(7) by auto
  note sealed = chunked_sealed [OF assms(1) cts(1) sz]
  have "\<exists>rc' kd'. decrypt_stream_with L alg key nonce aad sz (rc, kd) = (Inr (len64 (content r)), (rc', kd')) \<and>
            sink_out kd' = content r"
    if "flowing rc" "content rc = sink_out k'" "faultless kd" "sink_out kd = []" for rc kd
    using decrypt_stream_returns [OF assms(3,4) that(1,3), of "chunks_of sz (content r)" aad] assms(8) sealed(1,3)
      that(2,4) cts(2) by simp
  then show ?thesis using enc cts(2,3) length_concat_sealed [OF sealed(2)] by auto
qed

theorem stream_roundtrip_witness:
  "\<exists>r' k'. encrypt_stream_with demo_lib Aes256Gcm (replicate 32 1) (replicate 7 2) [] 2
        ([Inr [10], Inr [20, 30]], \<lparr>sink_out = [], sink_calls = 0, sink_faults = (\<lambda>_. None)\<rparr>)
      = (Inr (len64 (sink_out k')), (r', k')) \<and> length (sink_out k') = 35"
proof -
  let ?r = "[Inr [10], Inr [20, 30]] :: source"
  let ?k = "\<lparr>sink_out = [], sink_calls = 0, sink_faults = (\<lambda>_. None)\<rparr> :: sink"
  have cs: "chunks_of 2 (content ?r) = [[10, 20], [30]]" by (simp add: chunks_of_long chunks_of_short)
  have "stream_params Aes256Gcm (replicate 32 1) (replicate 7 2) 2"
    by (simp add: stream_params_def MAX_CHUNK_SIZE_def stream_nonce_len_def STREAM_OVERHEAD_def)
  moreover have "flowing ?r" "faultless ?k" by (simp_all add: flowing_Cons faultless_def)
  ultimately show ?thesis
    using stream_roundtrip [OF demo_aead(1,3,4), of Aes256Gcm "replicate 32 1" "replicate 7 2" 2 ?r ?k "[]"] cs
    by (auto simp: TAG_LEN_def)
qed

text \<open>C24. Random access. Every chunk of an encrypted stream, cut out by its offset, opens on
  its own to the plaintext at the corresponding offset, given its index and whether it is
  the final one.\<close>

theorem chunk_random_access:
  assumes "aead_correct L" and "stream_be32 L"
    and "stream_params alg key nonce sz" and "flowing r" and "faultless k" and "sink_out k = []"
    and "encrypt_stream_with L alg key nonce aad sz (r, k) = (Inr n, (r', k'))"
    and "i < length (chunks_of sz (content r))"
  shows "decrypt_chunk_with L alg key nonce aad (of_nat i) (Suc i = length (chunks_of sz (content r)))
           (take (sz + TAG_LEN) (drop (i * (sz + TAG_LEN)) (sink_out k')))
         = Inr (take sz (drop (i * sz) (content r)))"
proof -
  let ?cs = "chunks_of sz (content r)"
  have p: "0 < sz" "length nonce = stream_nonce_len alg" "length key = 32"
    using assms(3) by (simp_all add: stream_params_def)
  obtain cts where cts: "chunked (aead_encrypt L alg key) nonce aad ?cs cts" "sink_out k' = concat cts"
    using encrypt_stream_success [OF assms(2-5,7)] assms(6) by auto
  note sealed = chunked_sealed [OF assms(1) cts(1) p(1)]
  have n: "length cts = length ?cs" using cts(1) by (simp add: chunked_def)
  have "take (sz + TAG_LEN) (drop (i * (sz + TAG_LEN)) (sink_out k')) = cts ! i"
    using chunks_of_nth [of "sz + TAG_LEN" i "concat cts"] sealed(3) assms(8) n cts(2) p(1) by simp
  moreover have "aead_decrypt L alg key (chunk_nonce nonce i (Suc i = length ?cs)) aad (cts ! i) = Some (?cs ! i)"
    using sealed(1) assms(8) n by (simp add: chunked_def)
  ultimately show ?thesis using decrypt_chunk_with_eq [OF p(2,3)] chunks_of_nth [OF p(1) assms(8)] by simp
qed

theorem chunk_random_access_witness:
  "decrypt_chunk_with demo_lib Aes256Gcm (replicate 32 1) (replicate 7 2) [] 0 True
     (take 18 ([10] @ demo_tag)) = Inr [10]"
proof -
  let ?k = "\<lparr>sink_out = [], sink_calls = 0, sink_faults = (\<lambda>_. None)\<rparr> :: sink"
  have p: "stream_params Aes256Gcm (replicate 32 1) (replicate 7 2) 2"
    by (simp add: stream_params_def MAX_CHUNK_SIZE_def stream_nonce_len_def STREAM_OVERHEAD_def)
  have f: "flowing [Inr [10]]" "faultless ?k" by (simp_all add: flowing_Cons faultless_def)
  have run: "encrypt_stream_with demo_lib Aes256Gcm (replicate 32 1) (replicate 7 2) [] 2 ([Inr [10]], ?k)
     = (Inr 17, ([], ?k\<lparr>sink_calls := 1, sink_out := [10] @ demo_tag\<rparr>))"
    by (simp add: encrypt_stream_with_def stream_nonce_len_def STREAM_OVERHEAD_def MAX_CHUNK_SIZE_def
        stream_new_def cipher_def read_chunk_def read_chunk_loop.simps stream_loop.simps encrypt_last_def
        demo_lib_def write_all_def demo_tag_def)
  from chunk_random_access [OF demo_aead(1,4) p f _ run, of 0] show ?thesis
    by (simp add: chunks_of_short TAG_LEN_def)
qed

text \<open>C10. Integrity of a stream as a reduction. If a decryption accepts a ciphertext other
  than the one the owner's encryption wrote - truncated, extended, reordered or altered in any
  way - then one of its chunks opens under a nonce under which the encryption never produced
  it: an existential forgery against the AEAD.\<close>

theorem stream_forgery:
  assumes "aead_correct L" and "stream_be32 L" and "stream_params alg key nonce sz"
    and "flowing r" and "faultless k" and "sink_out k = []"
    and "encrypt_stream_with L alg key nonce aad sz (r, k) = (Inr n, (r', k'))"
    and "flowing rc" and "faultless kd" and "decrypt_stream_with L alg key nonce aad sz (rc, kd) = (Inr m, (rc', kd'))"
    and "content rc \<noteq> sink_out k'"
  shows "\<exists>N c pt. aead_decrypt L alg key N aad c = Some pt \<and> c \<in> set (chunks_of (sz + TAG_LEN) (content rc)) \<and>
     (\<forall>i < length (chunks_of sz (content r)).
        N = chunk_nonce nonce i (Suc i = length (chunks_of sz (content r))) \<longrightarrow>
        aead_encrypt L alg key N aad (chunks_of sz (content r) ! i) \<noteq> Some c)"
proof (rule ccontr)
  assume none: "\<not> ?thesis"
  let ?cs = "chunks_of sz (content r)" and ?ds = "chunks_of (sz + TAG_LEN) (content rc)"
  have sz: "0 < sz" using assms(3) by (simp add: stream_params_def)
  obtain cts where cts: "chunked (aead_encrypt L alg key) nonce aad ?cs cts" "sink_out k' = concat cts" "length cts \<le> 2 ^ 32"
    using encrypt_stream_success [OF assms(2-5,7)] assms(6) by auto
  obtain pts where pts: "chunked (aead_decrypt L alg key) nonce aad ?ds pts" "length pts \<le> 2 ^ 32"
    using decrypt_stream_success [OF assms(2,3,8-10)] by blast
  have lens: "length ?cs \<le> 2 ^ 32" "length ?ds \<le> 2 ^ 32" "length cts = length ?cs"
    using cts pts by (simp_all add: chunked_def)
  have same: "i < length ?cs \<and> (Suc i = length ?ds \<longleftrightarrow> Suc i = length ?cs) \<and> ?ds ! i = cts ! i" if i: "i < length ?ds" for i
  proof -
    let ?N = "chunk_nonce nonce i (Suc i = length ?ds)"
    have "aead_decrypt L alg key ?N aad (?ds ! i) = Some (pts ! i)" using pts(1) i by (simp add: chunked_def)
    moreover have "?ds ! i \<in> set ?ds" using i by simp
    ultimately obtain j where j: "j < length ?cs" "?N = chunk_nonce nonce j (Suc j = length ?cs)"
      "aead_encrypt L alg key ?N aad (?cs ! j) = Some (?ds ! i)"
      using none by blast
    then have "i = j \<and> (Suc i = length ?ds) = (Suc j = length ?cs)"
      using lens i by (intro chunk_nonce_inj) auto
    with j cts(1) show ?thesis by (auto simp: chunked_def)
  qed
  have "?ds \<noteq> []" by simp
  then have "length ?ds - 1 < length ?ds" and "Suc (length ?ds - 1) = length ?ds" by auto
  with same [of "length ?ds - 1"] have "length ?ds = length ?cs" by auto
  then have "?ds = cts" using same lens(3) by (intro nth_equalityI) auto
  then have "content rc = concat cts" by (metis concat_chunks_of)
  with cts(2) assms(11) show False by simp
qed

theorem stream_forgery_witness:
  "\<exists>N c pt. aead_decrypt demo_lib Aes256Gcm (replicate 32 1) N [] c = Some pt \<and>
     c \<in> set (chunks_of 18 ([11] @ demo_tag))"
proof -
  let ?k = "\<lparr>sink_out = [], sink_calls = 0, sink_faults = (\<lambda>_. None)\<rparr> :: sink"
  have p: "stream_params Aes256Gcm (replicate 32 1) (replicate 7 2) 2"
    by (simp add: stream_params_def MAX_CHUNK_SIZE_def stream_nonce_len_def STREAM_OVERHEAD_def)
  have f: "flowing [Inr [10]]" "flowing [Inr ([11] @ demo_tag)]" "faultless ?k" by (simp_all add: flowing_Cons faultless_def)
  have run: "encrypt_stream_with demo_lib Aes256Gcm (replicate 32 1) (replicate 7 2) [] 2 ([Inr [10]], ?k)
     = (Inr 17, ([], ?k\<lparr>sink_calls := 1, sink_out := [10] @ demo_tag\<rparr>))"
    by (simp add: encrypt_stream_with_def stream_nonce_len_def STREAM_OVERHEAD_def MAX_CHUNK_SIZE_def
        stream_new_def cipher_def read_chunk_def read_chunk_loop.simps stream_loop.simps encrypt_last_def
        demo_lib_def write_all_def demo_tag_def)
  have "run_chunks (stream_next (stream_decrypt demo_lib) []) (stream_last (stream_decrypt demo_lib) [])
          (stream_start Aes256Gcm (replicate 32 1) (replicate 7 2)) (chunks_of 18 ([11] @ demo_tag)) = Inr [[11]]"
    by (simp add: chunks_of_short demo_tag_def stream_last_def demo_lib_def demo_open_def)
  then obtain s where run': "decrypt_stream_with demo_lib Aes256Gcm (replicate 32 1) (replicate 7 2) [] 2 ([Inr ([11] @ demo_tag)], ?k) = (Inr 1, s)"
    using decrypt_stream_run [OF p f(2,3), of demo_lib "[]"]
    by (cases "decrypt_stream_with demo_lib Aes256Gcm (replicate 32 1) (replicate 7 2) [] 2 ([Inr ([11] @ demo_tag)], ?k)")
       (simp add: TAG_LEN_def)
  obtain a b where s: "s = (a, b)" by force
  show ?thesis
    using stream_forgery [OF demo_aead(1,4) p f(1,3) _ run f(2,3) run' [unfolded s]] by (auto simp: TAG_LEN_def)
qed

text \<open>The decrypting reader delivers exactly what the whole-stream decryption writes: a
  read into a non-empty buffer returns a prefix of what is still to come, empty only at the
  end, and leaves the rest; what a fresh reader has to deliver is the plaintext of all chunks.\<close>

theorem sdr_delivers:
  assumes "sdr_new_with alg key nonce aad r sz = Inr d" and "flowing r" and "faultless k" and "sink_out k = []"
    and "decrypt_stream_with L alg key nonce aad sz (r, k) = (Inr m, (r', k'))"
  shows "sdr_ok d \<and> sdr_pending L d = Inr (sink_out k') \<and>
    (\<forall>d b n. sdr_ok d \<and> sdr_pending L d = Inr b \<and> 0 < n \<longrightarrow>
       (\<exists>out d' b'. sdr_read L n d = (Inr out, d') \<and> length out \<le> n \<and> sdr_ok d' \<and>
          sdr_pending L d' = Inr b' \<and> b = out @ b' \<and> (out = [] \<longleftrightarrow> b = [])))"
proof -
  have new: "sdr_ok d" "stream_params alg key nonce sz"
    "sdr_pending L d = rbind (run_chunks (decrypt_next L aad) (decrypt_last L aad) (stream_start alg key nonce)
       (chunks_of (sz + TAG_LEN) (content r))) (\<lambda>pts. Inr (concat pts))"
    using sdr_new_pending [OF assms(1,2), of L] by (simp_all add: stream_params_def)
  have "sdr_pending L d = Inr (sink_out k')"
    using decrypt_stream_run [OF new(2) assms(2,3), of L aad] new(3) assms(4,5)
    by (cases "run_chunks (decrypt_next L aad) (decrypt_last L aad) (stream_start alg key nonce)
       (chunks_of (sz + TAG_LEN) (content r))") (simp_all add: stream_steps)
  with new(1) sdr_read_pending [where L = L] show ?thesis by blast
qed

theorem sdr_delivers_witness:
  "\<exists>d. sdr_new_with Aes256Gcm (replicate 32 1) (replicate 7 2) [] [Inr ([11] @ demo_tag)] 2 = Inr d \<and>
     sdr_pending demo_lib d = Inr [11]"
proof -
  let ?k = "\<lparr>sink_out = [], sink_calls = 0, sink_faults = (\<lambda>_. None)\<rparr> :: sink"
  let ?r = "[Inr ([11] @ demo_tag)] :: source"
  have p: "stream_params Aes256Gcm (replicate 32 1) (replicate 7 2) 2"
    by (simp add: stream_params_def MAX_CHUNK_SIZE_def stream_nonce_len_def STREAM_OVERHEAD_def)
  have f: "flowing ?r" "faultless ?k" by (simp_all add: flowing_Cons faultless_def)
  obtain cur r1 where rc: "read_chunk (2 + TAG_LEN) ?r = (Inr cur, r1)" using read_chunk_flowing [OF f(1)] by blast
  then obtain d where d: "sdr_new_with Aes256Gcm (replicate 32 1) (replicate 7 2) [] ?r 2 = Inr d"
    using p by (auto simp: sdr_new_with_def stream_params_def stream_new_ok)
  have "run_chunks (stream_next (stream_decrypt demo_lib) []) (stream_last (stream_decrypt demo_lib) [])
          (stream_start Aes256Gcm (replicate 32 1) (replicate 7 2)) (chunks_of 18 ([11] @ demo_tag)) = Inr [[11]]"
    by (simp add: chunks_of_short demo_tag_def stream_last_def demo_lib_def demo_open_def)
  then obtain r' k' where run: "decrypt_stream_with demo_lib Aes256Gcm (replicate 32 1) (replicate 7 2) [] 2 (?r, ?k) = (Inr 1, (r', k'))"
    and out: "sink_out k' = [11]"
    using decrypt_stream_run [OF p f, of demo_lib "[]"]
    by (cases "decrypt_stream_with demo_lib Aes256Gcm (replicate 32 1) (replicate 7 2) [] 2 (?r, ?k)")
       (auto simp: TAG_LEN_def)
  from sdr_delivers [OF d f _ run] d out show ?thesis by auto
qed

end
