(* ===== verification/Core_SafeIO.thy ===== *)
theory Core_SafeIO
  imports Core_Stream Core_Path
begin

section \<open>Hardened filesystem writes (safe_io.rs)\<close>

text \<open>
  \<open>SafeFileWriter\<close> streams bytes to a private temporary file beside the destination,
  syncs it and renames it into place; dropped before its commit, it removes the
  temporary file. \<open>create_dirs_no_symlink\<close> creates directories without descending
  through a link and \<open>read_bounded_file\<close> reads at most a given number of bytes. File
  modes are not modelled.
\<close>

subsection \<open>Bounded reads\<close>

text \<open>\<open>take(max + 1).read_to_end\<close> reads until the limit or an empty read.\<close>

definition read_bounded :: "u64 \<Rightarrow> (source, bytes) op" where
  "read_bounded mx =
     bnd (read_chunk (unat (saturating_add mx 1))) (\<lambda>bytes.
       if length bytes > unat mx then throw (Format ''file too large'') else ret bytes)"

definition file_source :: "bytes \<Rightarrow> source" where
  "file_source b = (if b = [] then [] else [Inr b])"

fun is_file :: "node \<Rightarrow> bool" where
  "is_file (FileNode b) = True"
| "is_file _ = False"

fun node_bytes :: "node \<Rightarrow> bytes" where
  "node_bytes (FileNode b) = b"
| "node_bytes _ = []"

definition read_bounded_file :: "string \<Rightarrow> u64 \<Rightarrow> bytes io" where
  "read_bounded_file path mx =
     bnd (std_metadata path) (\<lambda>meta.
       if \<not> is_file meta then throw (Format ''path is not a regular file'')
       else
         bnd (std_open_read path) (\<lambda>file.
           if \<not> is_file file then throw (Format ''path is not a regular file'')
           else if length (node_bytes file) > unat mx then throw (Format ''file too large'')
           else lift (fst (read_bounded mx (file_source (node_bytes file))))))"

subsection \<open>The safe writer\<close>

record safe_file_writer =
  sw_dest :: string
  sw_tmp :: string
  sw_file :: bool
  sw_committed :: bool

definition reject_symlink :: "string \<Rightarrow> unit io" where
  "reject_symlink path =
     bnd (attempt (std_symlink_metadata path)) (\<lambda>m.
       case m of
         Inr n \<Rightarrow> (case n of SymlinkNode _ \<Rightarrow> throw (UnsafePath ''refusing to write through an existing symlink'')
                  | _ \<Rightarrow> ret ())
       | Inl e \<Rightarrow> if has_kind NotFound e then ret () else throw e)"

definition open_new_private :: "string \<Rightarrow> unit io" where
  "open_new_private path = std_create_new path"

definition temp_name :: "lib \<Rightarrow> bytes \<Rightarrow> string" where
  "temp_name L sfx = ''.filesec-'' @ hexlower_encode L sfx @ ''.fstmp''"

fun create_private_temp_loop :: "lib \<Rightarrow> nat \<Rightarrow> string \<Rightarrow> string io" where
  "create_private_temp_loop L 0 dir = throw (Io (IoKind AlreadyExists))"
| "create_private_temp_loop L (Suc n) dir =
     bnd (random_array 8) (\<lambda>sfx.
       let candidate = path_join dir (temp_name L sfx) in
       bnd (attempt (open_new_private candidate)) (\<lambda>r.
         case r of
           Inr _ \<Rightarrow> ret candidate
         | Inl e \<Rightarrow> if has_kind AlreadyExists e then create_private_temp_loop L n dir else throw e))"

definition create_private_temp :: "lib \<Rightarrow> string \<Rightarrow> string \<Rightarrow> string io" where
  "create_private_temp L dir dest = create_private_temp_loop L 8 dir"

definition sw_create :: "lib \<Rightarrow> string \<Rightarrow> safe_file_writer io" where
  "sw_create L dest =
     bnd (reject_symlink dest) (\<lambda>_.
     bnd (create_private_temp L (parent_or_dot dest) dest) (\<lambda>tmp.
       ret \<lparr>sw_dest = dest, sw_tmp = tmp, sw_file = True, sw_committed = False\<rparr>))"

definition sw_write_all :: "safe_file_writer \<Rightarrow> bytes \<Rightarrow> unit io" where
  "sw_write_all sw b = (if sw_file sw then std_append (sw_tmp sw) b else throw (Io (IoKind OtherIo)))"

definition sw_drop :: "safe_file_writer \<Rightarrow> unit io" where
  "sw_drop sw =
     (if \<not> sw_committed sw then bnd (attempt (std_remove_file (sw_tmp sw))) (\<lambda>_. ret ()) else ret ())"

text \<open>The body of the commit, then the drop of the consumed writer: it removes the temporary
  file unless the rename went through.\<close>

definition sw_commit_body :: "safe_file_writer \<Rightarrow> unit io" where
  "sw_commit_body sw =
     (if \<not> sw_file sw then throw (Format ''safe writer already finished'')
      else
        bnd (std_sync (sw_tmp sw)) (\<lambda>_.
        bnd (reject_symlink (sw_dest sw)) (\<lambda>_.
        std_rename (sw_tmp sw) (sw_dest sw))))"

definition sw_commit_without_dir_sync :: "safe_file_writer \<Rightarrow> unit io" where
  "sw_commit_without_dir_sync sw =
     bnd (attempt (sw_commit_body sw)) (\<lambda>r.
       case r of
         Inr _ \<Rightarrow> sw_drop (sw\<lparr>sw_file := False, sw_committed := True\<rparr>)
       | Inl e \<Rightarrow> bnd (sw_drop (sw\<lparr>sw_file := False\<rparr>)) (\<lambda>_. throw e))"

definition sync_dir :: "string \<Rightarrow> unit io" where
  "sync_dir dir = bnd (std_open_read dir) (\<lambda>_. std_sync dir)"

definition sw_commit_durable :: "safe_file_writer \<Rightarrow> bool io" where
  "sw_commit_durable sw =
     bnd (sw_commit_without_dir_sync sw) (\<lambda>_.
     bnd (attempt (sync_dir (parent_or_dot (sw_dest sw)))) (\<lambda>r. ret (is_ok r)))"

definition sw_commit :: "safe_file_writer \<Rightarrow> unit io" where
  "sw_commit sw = bnd (sw_commit_durable sw) (\<lambda>_. ret ())"

text \<open>A writer in scope: it is dropped when the body fails, and consumed by the commit otherwise.\<close>

definition with_writer :: "lib \<Rightarrow> string \<Rightarrow> (safe_file_writer \<Rightarrow> 'a io) \<Rightarrow> (safe_file_writer \<Rightarrow> 'b io) \<Rightarrow> 'b io" where
  "with_writer L dest body fin =
     bnd (sw_create L dest) (\<lambda>sw.
     bnd (attempt (body sw)) (\<lambda>r.
       case r of
         Inl e \<Rightarrow> bnd (sw_drop sw) (\<lambda>_. throw e)
       | Inr _ \<Rightarrow> fin sw))"

definition write_atomic :: "lib \<Rightarrow> string \<Rightarrow> bytes \<Rightarrow> bool io" where
  "write_atomic L path bytes = with_writer L path (\<lambda>sw. sw_write_all sw bytes) sw_commit_durable"

definition is_ascii_hexdigit :: "char \<Rightarrow> bool" where
  "is_ascii_hexdigit c = (let n = (of_char c :: nat) in
     (48 \<le> n \<and> n \<le> 57) \<or> (65 \<le> n \<and> n \<le> 70) \<or> (97 \<le> n \<and> n \<le> 102))"

definition strip_suffix :: "string \<Rightarrow> string \<Rightarrow> string option" where
  "strip_suffix suf s = (if suffix suf s then Some (take (length s - length suf) s) else None)"

definition is_safe_writer_temp :: "string \<Rightarrow> bool" where
  "is_safe_writer_temp name =
     (case strip_prefix ''.filesec-'' name of
        None \<Rightarrow> False
      | Some rest \<Rightarrow>
          (case strip_suffix ''.fstmp'' rest of
             None \<Rightarrow> False
           | Some hex \<Rightarrow> length hex = 16 \<and> list_all is_ascii_hexdigit hex))"

subsection \<open>Directories\<close>

definition path_strip_prefix :: "string \<Rightarrow> string \<Rightarrow> string option" where
  "path_strip_prefix root dir = (if dir = root then Some [] else strip_prefix (root @ ''/'') dir)"

definition create_private_dir :: "string \<Rightarrow> unit io" where
  "create_private_dir path = std_create_dir path"

definition create_dir_step :: "string \<Rightarrow> unit io" where
  "create_dir_step cur =
     bnd (attempt (std_symlink_metadata cur)) (\<lambda>m.
       case m of
         Inr n \<Rightarrow>
           (case n of
              SymlinkNode _ \<Rightarrow> throw (UnsafePath ''refusing to extract through a symlinked directory'')
            | DirNode \<Rightarrow> ret ()
            | FileNode _ \<Rightarrow> throw (UnsafePath ''extraction path collides with a non-directory''))
       | Inl e \<Rightarrow> if has_kind NotFound e then create_private_dir cur else throw e)"

fun create_dirs_loop :: "string \<Rightarrow> string list \<Rightarrow> unit io" where
  "create_dirs_loop cur [] = ret ()"
| "create_dirs_loop cur (c # cs) =
     (if c = ''.'' then create_dirs_loop cur cs
      else if c = ''..'' then throw (UnsafePath ''unexpected path component'')
      else
        let cur' = path_join cur c in
        bnd (create_dir_step cur') (\<lambda>_. create_dirs_loop cur' cs))"

definition create_dirs_no_symlink :: "string \<Rightarrow> string \<Rightarrow> unit io" where
  "create_dirs_no_symlink root dir =
     (case path_strip_prefix root dir of
        None \<Rightarrow> throw (UnsafePath ''extraction target escapes its root'')
      | Some rel \<Rightarrow> create_dirs_loop root (filter (\<lambda>c. c \<noteq> []) (split_on slash rel)))"

subsection \<open>What a bounded read returns\<close>

lemma file_source_flowing [simp]: "flowing (file_source b)" "content (file_source b) = b"
  by (simp_all add: file_source_def flowing_Cons)

lemma file_source_tame: "tame (file_source b)"
  by (rule flowing_tame) simp

text \<open>The whole of a source within the bound, or an error; never more than one byte past the
  bound is taken from it.\<close>

lemma read_bounded_flowing:
  assumes "flowing r" and "mx \<noteq> - 1"
  shows "\<exists>r'. read_bounded mx r
      = (if length (content r) \<le> unat mx then Inr (content r) else Inl (Format ''file too large''), r') \<and>
      content r' = drop (Suc (unat mx)) (content r)"
proof -
  have "mx < - 1" using assms(2) by (simp add: word_order.not_eq_extremum)
  then have n: "unat (saturating_add mx 1) = Suc (unat mx)"
    using saturating_add_one [of mx "- 1"] by simp
  obtain r' where r': "read_chunk (Suc (unat mx)) r = (Inr (take (Suc (unat mx)) (content r)), r')"
    "content r' = drop (Suc (unat mx)) (content r)"
    using read_chunk_flowing [OF assms(1)] by blast
  then show ?thesis by (auto simp: read_bounded_def n)
qed

lemma read_bounded_file_content:
  assumes "read_bounded_file p mx w = (Inr b, w')" and "mx \<noteq> - 1"
  shows "fs_get w' = fs_get w \<and> length b \<le> unat mx \<and> (\<exists>v. follow 40 v p = Some (FileNode b) \<and> fs_get v = fs_get w)"
proof -
  from assms(1) obtain meta w1 fl w2 where m: "std_metadata p w = (Inr meta, w1)"
    and o: "std_open_read p w1 = (Inr fl, w2)" and f: "is_file fl" "length (node_bytes fl) \<le> unat mx"
    and r: "fst (read_bounded mx (file_source (node_bytes fl))) = Inr b" and w': "w' = w2"
    by (auto simp: read_bounded_file_def bnd_eq_Inr split: if_splits)
  have flow: "flowing (file_source (node_bytes fl))" "content (file_source (node_bytes fl)) = node_bytes fl"
    by (auto simp: file_source_def flowing_Cons)
  from read_bounded_flowing [OF flow(1) assms(2)] flow(2) f(2) r have b: "b = node_bytes fl" by auto
  have w1: "fs_get w1 = fs_get w" using m
    by (auto simp: std_metadata_def syscall_eq Let_def not_found_def split: option.splits)
  from o have "w2 = w1\<lparr>io_calls := io_calls w1 + 1\<rparr>" "follow 40 w2 p = Some fl"
    by (auto simp: std_open_read_def syscall_eq Let_def not_found_def split: option.splits)
  with w1 f b w' show ?thesis by (cases fl) auto
qed

subsection \<open>Frames\<close>

text \<open>The calls that only look leave the files alone.\<close>

abbreviation files :: "(string \<Rightarrow> node option) \<Rightarrow> world \<Rightarrow> bool" where
  "files F \<equiv> \<lambda>w. fs_get w = F"

lemma preserves_random [preserves_intros]: "preserves (files F) (random_array n)"
  unfolding random_array_def by (rule preserves_getrandom) simp

lemma preserves_look [preserves_intros]:
  "preserves (files F) (std_symlink_metadata p)" "preserves (files F) (std_metadata p)"
  "preserves (files F) (std_open_read p)" "preserves (files F) (std_sync p)"
  unfolding std_symlink_metadata_def std_metadata_def std_open_read_def std_sync_def
  by (rule preserves_syscall; auto simp: preserves_def not_found_def split: option.splits)+

lemma preserves_sync_dir [preserves_intros]: "preserves (files F) (sync_dir d)"
  unfolding sync_dir_def by (intro preserves_intros)

lemma preserves_sum [preserves_intros]:
  "(\<And>e. preserves P (f e)) \<Longrightarrow> (\<And>x. preserves P (g x)) \<Longrightarrow> preserves P (case r of Inl e \<Rightarrow> f e | Inr x \<Rightarrow> g x)"
  by (cases r) auto

lemma preserves_node [preserves_intros]:
  "(\<And>b. preserves P (f b)) \<Longrightarrow> preserves P g \<Longrightarrow> (\<And>t. preserves P (h t)) \<Longrightarrow>
     preserves P (case n of FileNode b \<Rightarrow> f b | DirNode \<Rightarrow> g | SymlinkNode t \<Rightarrow> h t)"
  by (cases n) auto

lemma preserves_reject [preserves_intros]: "preserves (files F) (reject_symlink p)"
  unfolding reject_symlink_def by (intro preserves_intros)

text \<open>What the writing calls do to the files.\<close>

lemma std_create_new_files:
  "std_create_new p w = (r, w') \<Longrightarrow>
     (r = Inr () \<and> fs_get w p = None \<and> fs_get w' = (fs_get w)(p \<mapsto> FileNode [])) \<or>
     (\<exists>e. r = Inl e \<and> fs_get w' = fs_get w)"
  by (auto simp: std_create_new_def syscall_eq Let_def not_found_def fs_get_put fun_eq_iff
      split: option.splits if_splits)

lemma std_append_files:
  "std_append p b w = (r, w') \<Longrightarrow>
     (\<exists>old. r = Inr () \<and> fs_get w p = Some (FileNode old) \<and> fs_get w' = (fs_get w)(p \<mapsto> FileNode (old @ b))) \<or>
     (\<exists>e. r = Inl e \<and> fs_get w' = fs_get w)"
  by (auto simp: std_append_def syscall_eq Let_def not_found_def fs_get_put fun_eq_iff
      split: option.splits node.splits)

lemma std_remove_file_files:
  "std_remove_file p w = (r, w') \<Longrightarrow>
     (r = Inr () \<and> fs_get w' = (fs_get w)(p := None)) \<or> (\<exists>e. r = Inl e \<and> fs_get w' = fs_get w)"
  by (auto simp: std_remove_file_def syscall_eq Let_def not_found_def fs_get_del fun_eq_iff
      split: option.splits node.splits)

lemma std_rename_files:
  "std_rename a b w = (r, w') \<Longrightarrow>
     (r = Inr () \<and> fs_get w' = (fs_get w)(a := None, b := fs_get w a) \<and> fs_get w a \<noteq> None) \<or>
     (\<exists>e. r = Inl e \<and> fs_get w' = fs_get w)"
  by (auto simp: std_rename_def syscall_eq Let_def not_found_def fs_get_put fs_get_del fun_eq_iff
      split: option.splits if_splits)

lemma std_create_dir_files:
  "std_create_dir p w = (r, w') \<Longrightarrow>
     (r = Inr () \<and> fs_get w p = None \<and> fs_get w' = (fs_get w)(p \<mapsto> DirNode)) \<or>
     (\<exists>e. r = Inl e \<and> fs_get w' = fs_get w)"
  by (auto simp: std_create_dir_def syscall_eq Let_def not_found_def fs_get_put fun_eq_iff
      split: option.splits if_splits)

subsection \<open>The temporary file\<close>

lemma preserves_rng_create [preserves_intros]: "preserves (\<lambda>w. rng_source w = R) (std_create_new p)"
  unfolding std_create_new_def
  by (rule preserves_syscall) (auto simp: preserves_def not_found_def fs_put_def split: if_splits)

lemma create_private_temp_loop_files:
  assumes "create_private_temp_loop L n dir w = (r, w')" and "rng_fills w"
  shows "(\<exists>sfx. r = Inr (path_join dir (temp_name L sfx)) \<and> length sfx = 8 \<and>
            fs_get w (path_join dir (temp_name L sfx)) = None \<and>
            fs_get w' = (fs_get w)(path_join dir (temp_name L sfx) \<mapsto> FileNode [])) \<or>
         (\<exists>e. r = Inl e \<and> fs_get w' = fs_get w)"
  using assms
proof (induction n arbitrary: w)
  case 0
  then show ?case by auto
next
  case (Suc n)
  obtain q w1 where q: "random_array 8 w = (q, w1)" by force
  have w1: "fs_get w1 = fs_get w" "rng_source w1 = rng_source w"
    using getrandom_world [OF q [unfolded random_array_def]] by simp_all
  show ?case
  proof (cases q)
    case (Inl e)
    with q Suc.prems(1) w1 show ?thesis by auto
  next
    case (Inr sfx)
    let ?c = "path_join dir (temp_name L sfx)"
    have len: "length sfx = 8" using getrandom_length [OF Suc.prems(2)] q Inr by (simp add: random_array_def)
    obtain o2 w2 where o2: "std_create_new ?c w1 = (o2, w2)" by force
    show ?thesis
    proof (cases o2)
      case (Inr u)
      with q \<open>q = Inr sfx\<close> o2 Suc.prems(1) have "r = Inr ?c" "w' = w2"
        by (simp_all add: Let_def open_new_private_def attempt_run)
      with std_create_new_files [OF o2] Inr w1 len show ?thesis by auto
    next
      case (Inl e)
      then have w2: "fs_get w2 = fs_get w" using std_create_new_files [OF o2] w1 by auto
      have "rng_source w2 = rng_source w" using preservesD [OF preserves_rng_create o2 w1(2)] .
      then have fills: "rng_fills w2" using Suc.prems(2) by (simp add: rng_fills_def)
      have run: "(if has_kind AlreadyExists e then create_private_temp_loop L n dir else throw e) w2 = (r, w')"
        using q \<open>q = Inr sfx\<close> o2 Inl Suc.prems(1) by (simp add: Let_def open_new_private_def attempt_run)
      show ?thesis
      proof (cases "has_kind AlreadyExists e")
        case True
        with run Suc.IH [OF _ fills] w2 show ?thesis by simp
      next
        case False
        with run w2 show ?thesis by auto
      qed
    qed
  qed
qed

lemma sw_create_files:
  assumes "sw_create L dest w = (r, w')" and "rng_fills w"
  shows "(\<exists>tmp sfx. r = Inr \<lparr>sw_dest = dest, sw_tmp = tmp, sw_file = True, sw_committed = False\<rparr> \<and>
            tmp = path_join (parent_or_dot dest) (temp_name L sfx) \<and> length sfx = 8 \<and>
            fs_get w tmp = None \<and> fs_get w' = (fs_get w)(tmp \<mapsto> FileNode [])) \<or>
         (\<exists>e. r = Inl e \<and> fs_get w' = fs_get w)"
proof -
  obtain q w1 where q: "reject_symlink dest w = (q, w1)" by force
  have w1: "fs_get w1 = fs_get w" using preservesD [OF preserves_reject q] by blast
  have "preserves (\<lambda>w'. rng_source w' = rng_source w) (reject_symlink dest)"
    unfolding reject_symlink_def std_symlink_metadata_def
    by (intro preserves_intros) (auto simp: preserves_def not_found_def split: option.splits)
  from preservesD [OF this q] assms(2) have fills: "rng_fills w1" by (simp add: rng_fills_def)
  show ?thesis
  proof (cases q)
    case (Inl e)
    with q assms(1) w1 show ?thesis by (auto simp: sw_create_def)
  next
    case (Inr u)
    obtain t w2 where t: "create_private_temp_loop L 8 (parent_or_dot dest) w1 = (t, w2)" by force
    from create_private_temp_loop_files [OF t fills] show ?thesis
    proof (elim disjE exE conjE)
      fix sfx assume "t = Inr (path_join (parent_or_dot dest) (temp_name L sfx))" "length sfx = 8"
        "fs_get w1 (path_join (parent_or_dot dest) (temp_name L sfx)) = None"
        "fs_get w2 = (fs_get w1)(path_join (parent_or_dot dest) (temp_name L sfx) \<mapsto> FileNode [])"
      with q Inr t assms(1) w1 show ?thesis by (simp add: sw_create_def create_private_temp_def) blast
    next
      fix e assume "t = Inl e" "fs_get w2 = fs_get w1"
      with q Inr t assms(1) w1 show ?thesis by (auto simp: sw_create_def create_private_temp_def)
    qed
  qed
qed

lemma path_file_name_join: "slash \<notin> set c \<Longrightarrow> path_file_name (path_join d c) = c"
proof -
  assume c: "slash \<notin> set c"
  then have *: "takeWhile (\<lambda>x. x \<noteq> slash) (rev c @ slash # ys) = rev c" for ys
    by (subst takeWhile_append2) auto
  consider "d = []" | d' where "d = d' @ [slash]" | "d \<noteq> []" "last d \<noteq> slash"
    by (metis append_butlast_last_id)
  then show ?thesis
  proof cases
    case 1
    then show ?thesis using c unfolding path_file_name_def path_join_def
      by (subst takeWhile_eq_all_conv [THEN iffD2]) auto
  next
    case (2 d')
    then show ?thesis using * by (simp add: path_file_name_def path_join_def)
  next
    case 3
    then show ?thesis using * by (simp add: path_file_name_def path_join_def)
  qed
qed

lemma lower_hex_no_slash: "is_lower_hex c \<Longrightarrow> c \<noteq> slash \<and> is_ascii_hexdigit c"
  by (auto simp: is_lower_hex_def is_ascii_hexdigit_def)

lemma temp_name_shape:
  assumes "hexlower_spec L" and "length sfx = 8"
  shows "is_safe_writer_temp (temp_name L sfx) \<and> slash \<notin> set (temp_name L sfx)"
proof -
  have h: "length (hexlower_encode L sfx) = 16" "\<forall>c\<in>set (hexlower_encode L sfx). is_lower_hex c"
    using assms by (auto simp: hexlower_spec_def list_all_iff)
  then have "list_all is_ascii_hexdigit (hexlower_encode L sfx)" "slash \<notin> set (hexlower_encode L sfx)"
    using lower_hex_no_slash by (auto simp: list_all_iff)
  with h(1) show ?thesis
    by (simp add: is_safe_writer_temp_def temp_name_def strip_prefix_def strip_suffix_def suffix_def)
qed

subsection \<open>Commit\<close>

lemma sw_drop_files:
  "sw_drop sw w = (r, w') \<Longrightarrow>
     r = Inr () \<and> (fs_get w' = fs_get w \<or> (\<not> sw_committed sw \<and> fs_get w' = (fs_get w)(sw_tmp sw := None)))"
  by (auto simp: sw_drop_def bnd_eq attempt_eq split: if_splits dest!: std_remove_file_files)

lemma sw_commit_body_files:
  assumes "sw_commit_body sw w = (r, w')"
  shows "(r = Inr () \<and> fs_get w (sw_tmp sw) \<noteq> None \<and>
            fs_get w' = (fs_get w)(sw_tmp sw := None, sw_dest sw := fs_get w (sw_tmp sw))) \<or>
         (\<exists>e. r = Inl e \<and> fs_get w' = fs_get w)"
proof -
  have look: "preserves (files F) (std_sync p)" "preserves (files F) (reject_symlink q)" for F p q
    by (intro preserves_intros)+
  show ?thesis using assms
    by (auto simp: sw_commit_body_def bnd_eq split: if_splits
        dest!: preservesD [OF look(1), of _ _ _ _ "fs_get _"] preservesD [OF look(2), of _ _ _ _ "fs_get _"]
          std_rename_files)
qed

lemma sw_commit_without_dir_sync_files:
  assumes "sw_commit_without_dir_sync sw w = (r, w')"
  shows "(r = Inr () \<and> fs_get w (sw_tmp sw) \<noteq> None \<and>
            fs_get w' = (fs_get w)(sw_tmp sw := None, sw_dest sw := fs_get w (sw_tmp sw))) \<or>
         (\<exists>e. r = Inl e \<and> (fs_get w' = fs_get w \<or> fs_get w' = (fs_get w)(sw_tmp sw := None)))"
proof -
  obtain q w1 where q: "sw_commit_body sw w = (q, w1)" by force
  show ?thesis
  proof (cases q)
    case (Inr u)
    with assms q have "r = Inr () \<and> w' = w1"
      by (simp add: sw_commit_without_dir_sync_def attempt_run sw_drop_def)
    with sw_commit_body_files [OF q] Inr show ?thesis by auto
  next
    case (Inl e)
    then have w1: "fs_get w1 = fs_get w" using sw_commit_body_files [OF q] by auto
    from Inl assms q obtain w2 where "sw_drop (sw\<lparr>sw_file := False\<rparr>) w1 = (Inr (), w2)" "r = Inl e" "w' = w2"
      using sw_drop_files by (fastforce simp: sw_commit_without_dir_sync_def attempt_run bnd_eq)
    with sw_drop_files [OF this(1)] w1 show ?thesis by auto
  qed
qed

lemma sw_commit_durable_files:
  assumes "sw_commit_durable sw w = (r, w')"
  shows "(is_ok r \<and> fs_get w (sw_tmp sw) \<noteq> None \<and>
            fs_get w' = (fs_get w)(sw_tmp sw := None, sw_dest sw := fs_get w (sw_tmp sw))) \<or>
         (\<exists>e. r = Inl e \<and> (fs_get w' = fs_get w \<or> fs_get w' = (fs_get w)(sw_tmp sw := None)))"
proof -
  have look: "preserves (files F) (attempt (sync_dir p))" for F p
    by (intro preserves_intros)
  obtain q w1 where q: "sw_commit_without_dir_sync sw w = (q, w1)" by force
  show ?thesis
  proof (cases q)
    case (Inl e)
    with q assms have "r = Inl e \<and> w' = w1" by (simp add: sw_commit_durable_def)
    with sw_commit_without_dir_sync_files [OF q] Inl show ?thesis by auto
  next
    case (Inr u)
    obtain s w2 where s: "attempt (sync_dir (parent_or_dot (sw_dest sw))) w1 = (Inr s, w2)"
      by (simp add: attempt_run)
    then have "fs_get w2 = fs_get w1" using preservesD [OF look] by blast
    moreover from Inr q s assms have "is_ok r \<and> w' = w2" by (auto simp: sw_commit_durable_def)
    ultimately show ?thesis using sw_commit_without_dir_sync_files [OF q] Inr by auto
  qed
qed

lemma write_atomic_files:
  assumes "write_atomic L path b w = (r, w')" and "rng_fills w"
  shows "(is_ok r \<and> fs_get w' = (fs_get w)(path \<mapsto> FileNode b)) \<or>
         (\<exists>e. r = Inl e \<and> (fs_get w' = fs_get w \<or>
            (\<exists>sfx x. let tmp = path_join (parent_or_dot path) (temp_name L sfx) in
               length sfx = 8 \<and> fs_get w tmp = None \<and> fs_get w' = (fs_get w)(tmp \<mapsto> FileNode x))))"
    (is "?done \<or> ?failed")
proof -
  obtain q w1 where q: "sw_create L path w = (q, w1)" by force
  from sw_create_files [OF q assms(2)] show ?thesis
  proof (elim disjE exE conjE)
    fix e assume "q = Inl e" "fs_get w1 = fs_get w"
    with q assms(1) show ?thesis by (auto simp: write_atomic_def with_writer_def)
  next
    fix tmp sfx
    let ?sw = "\<lparr>sw_dest = path, sw_tmp = tmp, sw_file = True, sw_committed = False\<rparr>"
    assume sw: "q = Inr ?sw" and tmp: "tmp = path_join (parent_or_dot path) (temp_name L sfx)" "length sfx = 8"
      and none: "fs_get w tmp = None" and w1: "fs_get w1 = (fs_get w)(tmp \<mapsto> FileNode [])"
    have left: ?failed if "r = Inl e" and "fs_get w' = (fs_get w)(tmp := x)" and "x = None \<or> x = Some (FileNode y)" for e x y
      using that none tmp by (auto simp: Let_def)
    obtain a w2 where a: "sw_write_all ?sw b w1 = (a, w2)" by force
    then have a': "std_append tmp b w1 = (a, w2)" by (simp add: sw_write_all_def)
    show ?thesis
    proof (cases a)
      case (Inl e)
      with q sw a assms(1) obtain w3 where w3: "sw_drop ?sw w2 = (Inr (), w3)" "r = Inl e" "w' = w3"
        using sw_drop_files by (fastforce simp: write_atomic_def with_writer_def attempt_run bnd_eq)
      have "fs_get w2 = fs_get w1" using std_append_files [OF a'] Inl by auto
      then have "fs_get w' = (fs_get w)(tmp := None) \<or> fs_get w' = (fs_get w)(tmp := Some (FileNode []))"
        using sw_drop_files [OF w3(1)] w1 w3(3) by auto
      then show ?thesis using left [OF w3(2)] by blast
    next
      case (Inr u)
      then have w2: "fs_get w2 = (fs_get w)(tmp \<mapsto> FileNode b)" using std_append_files [OF a'] w1 by auto
      have c: "sw_commit_durable ?sw w2 = (r, w')"
        using q sw a Inr assms(1) by (simp add: write_atomic_def with_writer_def attempt_run)
      from sw_commit_durable_files [OF c] show ?thesis
      proof (elim disjE exE conjE)
        assume "is_ok r" "fs_get w' = (fs_get w2)(sw_tmp ?sw := None, sw_dest ?sw := fs_get w2 (sw_tmp ?sw))"
        then show ?thesis using w2 none by (auto simp: fun_eq_iff)
      next
        fix e assume "r = Inl e" "fs_get w' = fs_get w2"
        then show ?thesis using left [of e "Some (FileNode b)"] w2 by simp
      next
        fix e assume "r = Inl e" "fs_get w' = (fs_get w2)(sw_tmp ?sw := None)"
        then show ?thesis using left [of e None] w2 by simp
      qed
    qed
  qed
qed

subsection \<open>Directory creation\<close>

fun dir_chain :: "string \<Rightarrow> string list \<Rightarrow> string list" where
  "dir_chain cur [] = []"
| "dir_chain cur (c # cs) =
     (if c = ''.'' then dir_chain cur cs else path_join cur c # dir_chain (path_join cur c) cs)"

definition dirs_added :: "world \<Rightarrow> world \<Rightarrow> bool" where
  "dirs_added w w' \<longleftrightarrow>
     (\<forall>p. fs_get w' p = fs_get w p \<or> (fs_get w p = None \<and> fs_get w' p = Some DirNode))"

lemma dirs_added_refl: "fs_get w' = fs_get w \<Longrightarrow> dirs_added w w'"
  and dirs_added_trans: "dirs_added w w1 \<Longrightarrow> dirs_added w1 w2 \<Longrightarrow> dirs_added w w2"
  and dirs_added_dir: "dirs_added w w' \<Longrightarrow> fs_get w p = Some DirNode \<Longrightarrow> fs_get w' p = Some DirNode"
  unfolding dirs_added_def by (simp, metis, metis option.distinct(1))

lemma std_symlink_metadata_Inr:
  "std_symlink_metadata p w = (Inr n, w') \<Longrightarrow> fs_get w p = Some n"
  by (auto simp: std_symlink_metadata_def syscall_eq Let_def not_found_def split: option.splits)

lemma create_dir_step_adds:
  assumes "create_dir_step p w = (r, w')"
  shows "dirs_added w w' \<and> (r = Inr () \<longrightarrow> fs_get w' p = Some DirNode)"
proof -
  obtain q w1 where q: "std_symlink_metadata p w = (q, w1)" by force
  have w1: "fs_get w1 = fs_get w" using preservesD [OF preserves_look(1) q] by blast
  show ?thesis
  proof (cases q)
    case (Inr n)
    with q assms w1 std_symlink_metadata_Inr [of p w n w1] show ?thesis
      by (cases n) (auto simp: create_dir_step_def attempt_run intro: dirs_added_refl)
  next
    case (Inl e)
    show ?thesis
    proof (cases "has_kind NotFound e")
      case False
      with Inl q assms w1 show ?thesis by (auto simp: create_dir_step_def attempt_run intro: dirs_added_refl)
    next
      case True
      with Inl q assms have "std_create_dir p w1 = (r, w')"
        by (simp add: create_dir_step_def attempt_run create_private_dir_def)
      from std_create_dir_files [OF this] w1 show ?thesis by (auto simp: dirs_added_def split: if_splits)
    qed
  qed
qed

lemma create_dirs_loop_adds:
  "create_dirs_loop cur cs w = (r, w') \<Longrightarrow>
     dirs_added w w' \<and> (r = Inr () \<longrightarrow> (\<forall>p\<in>set (dir_chain cur cs). fs_get w' p = Some DirNode))"
proof (induction cs arbitrary: cur w)
  case Nil
  then show ?case by (simp add: dirs_added_refl)
next
  case (Cons c cs)
  consider "c = ''.''" | "c = ''..''" | "c \<noteq> ''.''" "c \<noteq> ''..''" by blast
  then show ?case
  proof cases
    case 3
    let ?p = "path_join cur c"
    obtain q w1 where q: "create_dir_step ?p w = (q, w1)" by force
    note step = create_dir_step_adds [OF q]
    show ?thesis
    proof (cases q)
      case (Inl e)
      with Cons.prems 3 q step show ?thesis by (auto simp: Let_def)
    next
      case (Inr u)
      with Cons.prems 3 q have rest: "create_dirs_loop ?p cs w1 = (r, w')" by (simp add: Let_def)
      from Cons.IH [OF rest] step Inr 3 show ?thesis
        by (auto intro: dirs_added_trans dirs_added_dir)
    qed
  qed (use Cons in \<open>auto intro: dirs_added_refl\<close>)
qed

subsection \<open>Properties\<close>

text \<open>C17. Atomic replacement under every pattern of I/O failures: when \<open>write_atomic\<close> returns,
  the destination holds exactly the new bytes and nothing else changed; when it fails, the
  destination and every other file are as they were, except possibly for one leftover whose
  name marks it as an unfinished write.\<close>

theorem write_atomic_all_or_nothing:
  assumes "hexlower_spec L" and "rng_fills w" and "\<not> is_safe_writer_temp (path_file_name dest)"
    and "write_atomic L dest b w = (r, w')"
  shows "case r of
      Inr _ \<Rightarrow> fs_get w' = (fs_get w)(dest \<mapsto> FileNode b)
    | Inl e \<Rightarrow> fs_get w' dest = fs_get w dest \<and>
        (fs_get w' = fs_get w \<or>
         (\<exists>tmp x. is_safe_writer_temp (path_file_name tmp) \<and> fs_get w tmp = None \<and>
            fs_get w' = (fs_get w)(tmp \<mapsto> FileNode x)))"
  using write_atomic_files [OF assms(4,2)]
proof (elim disjE exE conjE)
  assume "is_ok r" "fs_get w' = (fs_get w)(dest \<mapsto> FileNode b)"
  then show ?thesis by (auto simp: is_ok_iff)
next
  fix e assume "r = Inl e" "fs_get w' = fs_get w"
  then show ?thesis by simp
next
  fix e sfx x assume e: "r = Inl e"
    and "let tmp = path_join (parent_or_dot dest) (temp_name L sfx) in
           length sfx = 8 \<and> fs_get w tmp = None \<and> fs_get w' = (fs_get w)(tmp \<mapsto> FileNode x)"
  then have len: "length sfx = 8" and t: "fs_get w (path_join (parent_or_dot dest) (temp_name L sfx)) = None"
    "fs_get w' = (fs_get w)(path_join (parent_or_dot dest) (temp_name L sfx) \<mapsto> FileNode x)"
    by (simp_all add: Let_def)
  have n: "is_safe_writer_temp (path_file_name (path_join (parent_or_dot dest) (temp_name L sfx)))"
    using temp_name_shape [OF assms(1) len] by (simp add: path_file_name_join)
  with assms(3) have "dest \<noteq> path_join (parent_or_dot dest) (temp_name L sfx)" by auto
  with e t n show ?thesis by auto
qed

theorem write_atomic_all_or_nothing_witness:
  "\<exists>w w'. write_atomic demo_lib ''d/f'' [7] w = (Inr True, w') \<and> fs_get w' = (fs_get w)(''d/f'' \<mapsto> FileNode [7])"
proof -
  let ?w = "\<lparr>rng_source = (\<lambda>_ n. Some (replicate n 0)), rng_calls = 0, io_faults = (\<lambda>_. None), io_calls = 0,
             fs = [(''d'', DirNode), (''d/f'', FileNode [1])]\<rparr>"
  have "fst (write_atomic demo_lib ''d/f'' [7] ?w) = Inr True" by code_simp
  from run_fst [OF this] obtain w' where r: "write_atomic demo_lib ''d/f'' [7] ?w = (Inr True, w')" by blast
  have "rng_fills ?w" by (simp add: rng_fills_def)
  moreover have "\<not> is_safe_writer_temp (path_file_name ''d/f'')" by code_simp
  ultimately have "fs_get w' = (fs_get ?w)(''d/f'' \<mapsto> FileNode [7])"
    using write_atomic_all_or_nothing [OF demo_hex _ _ r] by simp
  with r show ?thesis by blast
qed

text \<open>C25. Creating the directories of an extraction target never goes through a link: the
  only change to the filesystem is new directories where nothing was, and on success every
  path from the root down to the target is a directory, so none of them was a link or a
  file before.\<close>

theorem create_dirs_no_symlink_safe:
  assumes "create_dirs_no_symlink root dir w = (r, w')"
  shows "(\<forall>p. fs_get w' p = fs_get w p \<or> (fs_get w p = None \<and> fs_get w' p = Some DirNode)) \<and>
    (r = Inr () \<longrightarrow> (\<exists>rel. path_strip_prefix root dir = Some rel \<and>
       (\<forall>p\<in>set (dir_chain root (filter (\<lambda>c. c \<noteq> []) (split_on slash rel))).
          fs_get w' p = Some DirNode \<and> fs_get w p \<in> {None, Some DirNode})))"
proof (cases "path_strip_prefix root dir")
  case None
  with assms show ?thesis by (auto simp: create_dirs_no_symlink_def)
next
  case (Some rel)
  with assms have l: "create_dirs_loop root (filter (\<lambda>c. c \<noteq> []) (split_on slash rel)) w = (r, w')"
    by (simp add: create_dirs_no_symlink_def)
  from create_dirs_loop_adds [OF l] have add: "dirs_added w w'"
    and all: "r = Inr () \<Longrightarrow> \<forall>p\<in>set (dir_chain root (filter (\<lambda>c. c \<noteq> []) (split_on slash rel))). fs_get w' p = Some DirNode"
    by auto
  have "fs_get w p \<in> {None, Some DirNode}" if "fs_get w' p = Some DirNode" for p
    using add that unfolding dirs_added_def by (metis insertCI)
  with add all Some show ?thesis unfolding dirs_added_def by blast
qed

theorem create_dirs_no_symlink_safe_witness:
  "\<exists>w w'. create_dirs_no_symlink ''r'' ''r/a/b'' w = (Inr (), w') \<and> fs_get w' ''r/a'' = Some DirNode"
proof -
  let ?w = "\<lparr>rng_source = (\<lambda>_ _. None), rng_calls = 0, io_faults = (\<lambda>_. None), io_calls = 0,
             fs = [(''r'', DirNode)]\<rparr>"
  have "fst (create_dirs_no_symlink ''r'' ''r/a/b'' ?w) = Inr ()" by code_simp
  from run_fst [OF this] obtain w' where r: "create_dirs_no_symlink ''r'' ''r/a/b'' ?w = (Inr (), w')" by blast
  have "path_strip_prefix ''r'' ''r/a/b'' = Some ''a/b''" by code_simp
  moreover have "''r/a'' \<in> set (dir_chain ''r'' (filter (\<lambda>c. c \<noteq> []) (split_on slash ''a/b'')))" by code_simp
  ultimately have "fs_get w' ''r/a'' = Some DirNode"
    using create_dirs_no_symlink_safe [OF r] by auto
  with r show ?thesis by blast
qed

end
