(* ===== verification/Core_Keys.thy ===== *)
theory Core_Keys
  imports Core_World Core_Path
begin

section \<open>Key derivation, key agreement, signatures (kdf.rs, kem.rs, sign.rs, mlkem.rs, mldsa.rs)\<close>

text \<open>
  The thin wrappers over the cryptographic crates with the checks the repository makes
  around them: the Argon2 policy, the refusal of non-contributory agreements, the length
  checks of the post-quantum keys, ciphertexts and signatures.
\<close>

subsection \<open>Argon2 parameters (kdf.rs)\<close>

record kdf_params =
  m_cost :: u32
  t_cost :: u32
  p_cost :: u32

record kdf_policy =
  max_m_cost :: u32
  max_t_cost :: u32
  max_p_cost :: u32

definition policy_open :: kdf_policy where
  "policy_open = \<lparr>max_m_cost = 256 * 1024, max_t_cost = 10, max_p_cost = 4\<rparr>"

definition kdf_default :: kdf_params where
  "kdf_default = \<lparr>m_cost = 64 * 1024, t_cost = 3, p_cost = 1\<rparr>"

definition policy_validate :: "kdf_policy \<Rightarrow> kdf_params \<Rightarrow> unit result" where
  "policy_validate pol params =
     (if m_cost params = 0 then Inl (KdfParams ''memory cost must be non-zero'')
      else if t_cost params = 0 then Inl (KdfParams ''iteration count must be non-zero'')
      else if p_cost params = 0 then Inl (KdfParams ''parallelism must be non-zero'')
      else if m_cost params > max_m_cost pol then Inl (KdfParams ''memory cost exceeds local policy'')
      else if t_cost params > max_t_cost pol then Inl (KdfParams ''iteration count exceeds local policy'')
      else if p_cost params > max_p_cost pol then Inl (KdfParams ''parallelism exceeds local policy'')
      else rbind (ok_or (KdfParams ''parallelism is invalid'') (checked_mul (p_cost params) 8))
        (\<lambda>min_memory_for_lanes.
           if m_cost params < min_memory_for_lanes
           then Inl (KdfParams ''memory cost is too low for parallelism'')
           else Inr ()))"

definition validate_for_open :: "kdf_params \<Rightarrow> unit result" where
  "validate_for_open params = policy_validate policy_open params"

definition derive_master_key :: "lib \<Rightarrow> bytes \<Rightarrow> bytes \<Rightarrow> kdf_params \<Rightarrow> bytes result" where
  "derive_master_key L passphrase salt params =
     rbind (validate_for_open params) (\<lambda>_.
       if \<not> argon2_params_valid L (m_cost params) (t_cost params) (p_cost params) then Inl Kdf
       else ok_or Kdf (argon2id L (m_cost params) (t_cost params) (p_cost params) passphrase salt))"

definition derive_subkey :: "lib \<Rightarrow> string \<Rightarrow> bytes \<Rightarrow> bytes" where
  "derive_subkey L context_str ikm = blake3_derive_key L context_str ikm"

lemma policy_validate_iff:
  assumes "max_p_cost pol < 2 ^ 28"
  shows "policy_validate pol params = Inr () \<longleftrightarrow>
     m_cost params \<noteq> 0 \<and> m_cost params \<le> max_m_cost pol \<and> t_cost params \<noteq> 0 \<and> t_cost params \<le> max_t_cost pol \<and>
     p_cost params \<noteq> 0 \<and> p_cost params \<le> max_p_cost pol \<and> 8 * unat (p_cost params) \<le> unat (m_cost params)"
proof -
  have "unat (p_cost params) * 8 < 2 ^ 32" if "p_cost params \<le> max_p_cost pol"
  proof -
    have "p_cost params < 2 ^ 28" using that assms by (rule le_less_trans)
    then have "unat (p_cost params) < unat (2 ^ 28 :: u32)" by (simp only: word_less_nat_alt)
    then show ?thesis by simp
  qed
  then show ?thesis
    by (auto simp: policy_validate_def checked_mul_def word_less_nat_alt word_le_nat_alt unat_word_ariths
        not_less split: if_splits)
qed

subsection \<open>X25519 (kem.rs)\<close>

definition kem_generate :: "bytes io" where
  "kem_generate = random_array 32"

definition kem_agree :: "lib \<Rightarrow> bytes \<Rightarrow> bytes \<Rightarrow> bytes result" where
  "kem_agree L secret peer_public =
     (let shared = x25519_dh L secret peer_public
      in if \<not> x25519_contributory L shared then Inl (BadKey ''non-contributory X25519 agreement'')
         else Inr shared)"

definition ephemeral_agree :: "lib \<Rightarrow> bytes \<Rightarrow> (bytes \<times> bytes) io" where
  "ephemeral_agree L recipient_public =
     bnd (random_array 32) (\<lambda>ephemeral.
       let ephemeral_public = x25519_public L ephemeral;
           shared = x25519_dh L ephemeral recipient_public
       in if \<not> x25519_contributory L shared then throw (BadKey ''non-contributory X25519 agreement'')
          else ret (shared, ephemeral_public))"

subsection \<open>Ed25519 (sign.rs)\<close>

definition sign_generate :: "bytes io" where
  "sign_generate = random_array 32"

definition sign_verify :: "lib \<Rightarrow> bytes \<Rightarrow> bytes \<Rightarrow> bytes \<Rightarrow> unit result" where
  "sign_verify L public message signature =
     (if \<not> ed25519_key_valid L public then Inl (BadKey ''ed25519 public key'')
      else if ed25519_verify_strict L public message signature then Inr () else Inl BadSignature)"

subsection \<open>ML-KEM-768 (mlkem.rs)\<close>

definition mlkem_keypair_from_seed :: "bytes \<Rightarrow> unit result" where
  "mlkem_keypair_from_seed seed = (if length seed \<noteq> 64 then Inl (BadKey ''ml-kem seed length'') else Inr ())"

definition mlkem_public_from_seed :: "lib \<Rightarrow> bytes \<Rightarrow> bytes result" where
  "mlkem_public_from_seed L seed = rbind (mlkem_keypair_from_seed seed) (\<lambda>_. Inr (mlkem_public L seed))"

definition mlkem_generate :: "lib \<Rightarrow> (bytes \<times> bytes) io" where
  "mlkem_generate L =
     bnd (random_array 64) (\<lambda>seed.
     bnd (lift (mlkem_public_from_seed L seed)) (\<lambda>public. ret (public, seed)))"

definition mlkem_encapsulate :: "lib \<Rightarrow> bytes \<Rightarrow> (bytes \<times> bytes) io" where
  "mlkem_encapsulate L recipient_public =
     (if length recipient_public \<noteq> 1184 then throw (BadKey ''ml-kem public key length'')
      else if \<not> mlkem_key_valid L recipient_public then throw (BadKey ''ml-kem public key'')
      else bnd (random_array 32) (\<lambda>m. ret (mlkem_encapsulate_deterministic L recipient_public m)))"

definition mlkem_decaps :: "lib \<Rightarrow> bytes \<Rightarrow> bytes \<Rightarrow> bytes result" where
  "mlkem_decaps L seed ciphertext =
     (if length ciphertext \<noteq> 1088 then Inl (BadKey ''ml-kem ciphertext length'')
      else rbind (mlkem_keypair_from_seed seed) (\<lambda>_. Inr (mlkem_decapsulate L seed ciphertext)))"

subsection \<open>ML-DSA-65 (mldsa.rs)\<close>

definition mldsa_key_from_seed :: "bytes \<Rightarrow> unit result" where
  "mldsa_key_from_seed seed = (if length seed \<noteq> 32 then Inl (BadKey ''ml-dsa seed length'') else Inr ())"

definition mldsa_public_from_seed :: "lib \<Rightarrow> bytes \<Rightarrow> bytes result" where
  "mldsa_public_from_seed L seed = rbind (mldsa_key_from_seed seed) (\<lambda>_. Inr (mldsa_public L seed))"

definition mldsa_generate :: "lib \<Rightarrow> (bytes \<times> bytes) io" where
  "mldsa_generate L =
     bnd (random_array 32) (\<lambda>seed.
     bnd (lift (mldsa_public_from_seed L seed)) (\<lambda>public. ret (public, seed)))"

definition mldsa_signature :: "lib \<Rightarrow> bytes \<Rightarrow> bytes \<Rightarrow> bytes result" where
  "mldsa_signature L seed message = rbind (mldsa_key_from_seed seed) (\<lambda>_. Inr (mldsa_sign L seed message))"

definition mldsa_check :: "lib \<Rightarrow> bytes \<Rightarrow> bytes \<Rightarrow> bytes \<Rightarrow> unit result" where
  "mldsa_check L public message signature =
     (if length public \<noteq> 1952 then Inl (BadKey ''ml-dsa public key length'')
      else if length signature \<noteq> 3309 then Inl BadSignature
      else if \<not> mldsa_signature_decodes L signature then Inl BadSignature
      else if mldsa_verify L public message signature then Inr () else Inl BadSignature)"

lemma mldsa_sign_check:
  assumes "mldsa_spec L" and "mldsa_signature L seed m = Inr s" and "mldsa_public_from_seed L seed = Inr p"
  shows "mldsa_check L p m s = Inr ()"
  using assms
  by (auto simp: mldsa_check_def mldsa_signature_def mldsa_public_from_seed_def mldsa_key_from_seed_def
      mldsa_spec_def split: if_splits)

lemma sign_verify_sign:
  "ed25519_spec L \<Longrightarrow> sign_verify L (ed25519_public L s) m (ed25519_sign L s m) = Inr ()"
  by (simp add: sign_verify_def ed25519_spec_def)

section \<open>Identities (identity.rs)\<close>

subsection \<open>Data\<close>

record public_identity =
  pi_name :: string
  pi_created_at :: int
  pi_sign_public :: bytes
  pi_kem_public :: bytes
  pi_mldsa_public :: "bytes option"
  pi_mlkem_public :: "bytes option"

record pqc_material =
  pq_public :: bytes
  pq_seed :: bytes

record identity =
  id_name :: string
  id_created_at :: int
  id_sign :: bytes
  id_kem :: bytes
  id_mldsa :: "pqc_material option"
  id_mlkem :: "pqc_material option"

subsection \<open>Display names\<close>

definition MAX_DISPLAY_NAME_LEN :: nat where "MAX_DISPLAY_NAME_LEN = 96"

text \<open>\<open>char::is_whitespace\<close> (the White_Space property) and \<open>char::is_control\<close> (category Cc).\<close>

definition is_whitespace :: "nat \<Rightarrow> bool" where
  "is_whitespace c \<longleftrightarrow>
     (9 \<le> c \<and> c \<le> 13) \<or> c = 32 \<or> c = 0x85 \<or> c = 0xA0 \<or> c = 0x1680 \<or> (0x2000 \<le> c \<and> c \<le> 0x200A) \<or>
     c = 0x2028 \<or> c = 0x2029 \<or> c = 0x202F \<or> c = 0x205F \<or> c = 0x3000"

definition is_control :: "nat \<Rightarrow> bool" where
  "is_control c \<longleftrightarrow> c < 32 \<or> (127 \<le> c \<and> c \<le> 159)"

text \<open>The loop over the characters with its three variables.\<close>

fun sanitize_loop :: "nat list \<Rightarrow> nat list \<Rightarrow> nat \<Rightarrow> bool \<Rightarrow> nat list" where
  "sanitize_loop [] out count pending_space = out"
| "sanitize_loop (c # cs) out count pending_space =
     (if count \<ge> MAX_DISPLAY_NAME_LEN then out
      else if is_spoofing_format_char c then sanitize_loop cs out count pending_space
      else if is_whitespace c then sanitize_loop cs out count True
      else if is_control c then sanitize_loop cs out count pending_space
      else if pending_space \<and> out \<noteq> []
      then if count + 1 \<ge> MAX_DISPLAY_NAME_LEN then out @ [32]
           else sanitize_loop cs (out @ [32, c]) (count + 2) False
      else sanitize_loop cs (out @ [c]) (count + 1) False)"

definition sanitize_display_name :: "nat list \<Rightarrow> nat list" where
  "sanitize_display_name raw = sanitize_loop raw [] 0 False"

definition shown_char :: "nat \<Rightarrow> bool" where
  "shown_char c \<longleftrightarrow> \<not> is_spoofing_format_char c \<and> \<not> is_whitespace c \<and> \<not> is_control c"

lemma sanitize_loop_bound:
  "length out = count \<Longrightarrow> count \<le> MAX_DISPLAY_NAME_LEN \<Longrightarrow>
     length (sanitize_loop cs out count sp) \<le> MAX_DISPLAY_NAME_LEN"
  by (induction cs out count sp rule: sanitize_loop.induct) (auto simp: MAX_DISPLAY_NAME_LEN_def)

lemma sanitize_loop_chars:
  "\<forall>c\<in>set out. c = 32 \<or> shown_char c \<Longrightarrow> x \<in> set (sanitize_loop cs out count sp) \<Longrightarrow> x = 32 \<or> shown_char x"
  by (induction cs out count sp rule: sanitize_loop.induct) (auto simp: shown_char_def split: if_splits)

subsection \<open>Public identities\<close>

definition FPR_CONTEXT :: bytes where "FPR_CONTEXT = as_bytes ''FileSec identity fingerprint v1''"

definition fingerprint_input :: "public_identity \<Rightarrow> bytes" where
  "fingerprint_input p =
     (let h = FPR_CONTEXT @ pi_sign_public p @ pi_kem_public p;
          h = (case pi_mldsa_public p of Some m \<Rightarrow> h @ as_bytes ''ml-dsa-65'' @ m | None \<Rightarrow> h);
          h = (case pi_mlkem_public p of Some m \<Rightarrow> h @ as_bytes ''ml-kem-768'' @ m | None \<Rightarrow> h)
      in h)"

definition fingerprint :: "lib \<Rightarrow> public_identity \<Rightarrow> bytes" where
  "fingerprint L p = blake3 L (fingerprint_input p)"

definition is_hybrid_capable :: "public_identity \<Rightarrow> bool" where
  "is_hybrid_capable p \<longleftrightarrow> pi_mldsa_public p \<noteq> None \<and> pi_mlkem_public p \<noteq> None"

definition fingerprint_hex :: "lib \<Rightarrow> public_identity \<Rightarrow> string" where
  "fingerprint_hex L p = hexlower_encode L (fingerprint L p)"

fun group4 :: "nat \<Rightarrow> string \<Rightarrow> string" where
  "group4 i [] = []"
| "group4 i (ch # cs) = (if 0 < i \<and> i mod 4 = 0 then CHR ''-'' # ch # group4 (Suc i) cs else ch # group4 (Suc i) cs)"

definition safety_number_of :: "lib \<Rightarrow> bytes \<Rightarrow> string" where
  "safety_number_of L bs = group4 0 (base32_nopad_encode L bs)"

definition normalize_safety_number :: "string \<Rightarrow> string" where
  "normalize_safety_number s = map ascii_upper (filter is_ascii_alphanumeric s)"

definition safety_number :: "lib \<Rightarrow> public_identity \<Rightarrow> string" where
  "safety_number L p = safety_number_of L (fingerprint L p)"

definition safety_number_matches :: "lib \<Rightarrow> public_identity \<Rightarrow> string \<Rightarrow> bool" where
  "safety_number_matches L p candidate =
     (let got = normalize_safety_number candidate
      in got \<noteq> [] \<and> got = normalize_safety_number (safety_number L p))"

definition display_name :: "public_identity \<Rightarrow> nat list" where
  "display_name p =
     (let safe = sanitize_display_name (chars (pi_name p))
      in if safe = [] then map of_char ''(unnamed)'' else safe)"

text \<open>Normalizing a safety number gives the base32 text back.\<close>

lemma upper_alphanumeric:
  "is_upper_alphanumeric c \<Longrightarrow> is_ascii_alphanumeric c \<and> ascii_upper c = c"
  by (auto simp: is_upper_alphanumeric_def is_ascii_alphanumeric_def ascii_upper_def Let_def)

lemma normalize_group4:
  "list_all is_upper_alphanumeric s \<Longrightarrow> normalize_safety_number (group4 i s) = s"
proof (induction s arbitrary: i)
  case (Cons c s)
  have "\<not> is_ascii_alphanumeric (CHR ''-'')" by (simp add: is_ascii_alphanumeric_def)
  with Cons show ?case by (simp add: normalize_safety_number_def upper_alphanumeric)
qed (simp add: normalize_safety_number_def)

lemma normalize_safety_number_eq:
  "base32_spec L \<Longrightarrow> normalize_safety_number (safety_number_of L b) = base32_nopad_encode L b"
  unfolding safety_number_of_def by (rule normalize_group4) (simp add: base32_spec_def)

subsection \<open>Identities with secrets\<close>

definition id_generate :: "string \<Rightarrow> int \<Rightarrow> identity io" where
  "id_generate name created_at =
     bnd sign_generate (\<lambda>sk.
     bnd kem_generate (\<lambda>kk.
     ret \<lparr>id_name = name, id_created_at = created_at, id_sign = sk, id_kem = kk,
          id_mldsa = None, id_mlkem = None\<rparr>))"

definition generate_hybrid :: "lib \<Rightarrow> string \<Rightarrow> int \<Rightarrow> identity io" where
  "generate_hybrid L name created_at =
     bnd (mldsa_generate L) (\<lambda>(mldsa_pub, mldsa_seed).
     bnd (mlkem_generate L) (\<lambda>(mlkem_pub, mlkem_seed).
     bnd sign_generate (\<lambda>sk.
     bnd kem_generate (\<lambda>kk.
     ret \<lparr>id_name = name, id_created_at = created_at, id_sign = sk, id_kem = kk,
          id_mldsa = Some \<lparr>pq_public = mldsa_pub, pq_seed = mldsa_seed\<rparr>,
          id_mlkem = Some \<lparr>pq_public = mlkem_pub, pq_seed = mlkem_seed\<rparr>\<rparr>))))"

definition upgraded_to_hybrid :: "lib \<Rightarrow> identity \<Rightarrow> identity io" where
  "upgraded_to_hybrid L i =
     (if id_mldsa i \<noteq> None \<or> id_mlkem i \<noteq> None
      then throw (Vault ''identity is already post-quantum'')
      else
        bnd (mldsa_generate L) (\<lambda>(mldsa_pub, mldsa_seed).
        bnd (mlkem_generate L) (\<lambda>(mlkem_pub, mlkem_seed).
        ret \<lparr>id_name = id_name i, id_created_at = id_created_at i, id_sign = id_sign i, id_kem = id_kem i,
             id_mldsa = Some \<lparr>pq_public = mldsa_pub, pq_seed = mldsa_seed\<rparr>,
             id_mlkem = Some \<lparr>pq_public = mlkem_pub, pq_seed = mlkem_seed\<rparr>\<rparr>)))"

definition from_parts ::
  "string \<Rightarrow> int \<Rightarrow> bytes \<Rightarrow> bytes \<Rightarrow> (bytes \<times> bytes) option \<Rightarrow> (bytes \<times> bytes) option \<Rightarrow> identity" where
  "from_parts name created_at sign_secret kem_secret mldsa mlkem =
     (let into_material = map_option (\<lambda>(public, seed). \<lparr>pq_public = public, pq_seed = seed\<rparr>)
      in \<lparr>id_name = name, id_created_at = created_at, id_sign = sign_secret, id_kem = kem_secret,
          id_mldsa = into_material mldsa, id_mlkem = into_material mlkem\<rparr>)"

definition id_public :: "lib \<Rightarrow> identity \<Rightarrow> public_identity" where
  "id_public L i =
     \<lparr>pi_name = id_name i, pi_created_at = id_created_at i,
      pi_sign_public = ed25519_public L (id_sign i), pi_kem_public = x25519_public L (id_kem i),
      pi_mldsa_public = map_option pq_public (id_mldsa i),
      pi_mlkem_public = map_option pq_public (id_mlkem i)\<rparr>"

lemma id_public_sel [simp]:
  "pi_sign_public (id_public L i) = ed25519_public L (id_sign i)"
  "pi_kem_public (id_public L i) = x25519_public L (id_kem i)"
  "pi_mldsa_public (id_public L i) = map_option pq_public (id_mldsa i)"
  "pi_mlkem_public (id_public L i) = map_option pq_public (id_mlkem i)"
  by (simp_all add: id_public_def)

definition id_fingerprint :: "lib \<Rightarrow> identity \<Rightarrow> bytes" where
  "id_fingerprint L i = fingerprint L (id_public L i)"

definition id_sign_message :: "lib \<Rightarrow> identity \<Rightarrow> bytes \<Rightarrow> bytes" where
  "id_sign_message L i message = ed25519_sign L (id_sign i) message"

definition id_agree :: "lib \<Rightarrow> identity \<Rightarrow> bytes \<Rightarrow> bytes result" where
  "id_agree L i ephemeral_public = kem_agree L (id_kem i) ephemeral_public"

definition sign_pqc :: "lib \<Rightarrow> identity \<Rightarrow> bytes \<Rightarrow> bytes result" where
  "sign_pqc L i message =
     rbind (ok_or (MissingPqcKey ''identity has no ML-DSA key'') (id_mldsa i)) (\<lambda>m.
       mldsa_signature L (pq_seed m) message)"

definition id_mlkem_decapsulate :: "lib \<Rightarrow> identity \<Rightarrow> bytes \<Rightarrow> bytes result" where
  "id_mlkem_decapsulate L i ciphertext =
     rbind (ok_or (MissingPqcKey ''identity has no ML-KEM key'') (id_mlkem i)) (\<lambda>m.
       mlkem_decaps L (pq_seed m) ciphertext)"

text \<open>An identity as the generators make it: secrets and seeds of their length, and the cached
  post-quantum public keys those of the seeds.\<close>

definition identity_ok :: "lib \<Rightarrow> identity \<Rightarrow> bool" where
  "identity_ok L i \<longleftrightarrow>
     length (id_sign i) = 32 \<and> length (id_kem i) = 32 \<and>
     (\<forall>m. id_mldsa i = Some m \<longrightarrow> length (pq_seed m) = 32 \<and> pq_public m = mldsa_public L (pq_seed m)) \<and>
     (\<forall>m. id_mlkem i = Some m \<longrightarrow> length (pq_seed m) = 64 \<and> pq_public m = mlkem_public L (pq_seed m))"

lemma random_array_step:
  "random_array n w = (Inr b, w') \<Longrightarrow> rng_fills w \<Longrightarrow> length b = n \<and> rng_fills w'"
  using getrandom_length [of w n b w'] getrandom_world [of n w "Inr b" w']
  by (simp add: random_array_def rng_fills_def)

lemma mldsa_generate_step:
  "mldsa_generate L w = (Inr (p, s), w') \<Longrightarrow> rng_fills w \<Longrightarrow>
     length s = 32 \<and> p = mldsa_public L s \<and> rng_fills w'"
  by (auto simp: mldsa_generate_def bnd_eq_Inr mldsa_public_from_seed_def result_simps dest!: random_array_step)

lemma mlkem_generate_step:
  "mlkem_generate L w = (Inr (p, s), w') \<Longrightarrow> rng_fills w \<Longrightarrow>
     length s = 64 \<and> p = mlkem_public L s \<and> rng_fills w'"
  by (auto simp: mlkem_generate_def bnd_eq_Inr mlkem_public_from_seed_def result_simps dest!: random_array_step)

lemma id_generate_ok:
  "id_generate name at w = (Inr i, w') \<Longrightarrow> rng_fills w \<Longrightarrow> identity_ok L i"
  by (auto simp: id_generate_def sign_generate_def kem_generate_def bnd_eq_Inr identity_ok_def
      dest!: random_array_step)

lemma generate_hybrid_ok:
  "generate_hybrid L name at w = (Inr i, w') \<Longrightarrow> rng_fills w \<Longrightarrow>
     identity_ok L i \<and> is_hybrid_capable (id_public L i)"
  by (auto simp: generate_hybrid_def sign_generate_def kem_generate_def bnd_eq_Inr identity_ok_def
      is_hybrid_capable_def id_public_def dest!: random_array_step mldsa_generate_step mlkem_generate_step)

lemma upgraded_to_hybrid_ok:
  "upgraded_to_hybrid L i w = (Inr j, w') \<Longrightarrow> rng_fills w \<Longrightarrow> identity_ok L i \<Longrightarrow>
     identity_ok L j \<and> is_hybrid_capable (id_public L j) \<and> id_sign j = id_sign i \<and> id_kem j = id_kem i \<and>
     id_mldsa i = None \<and> id_mlkem i = None"
  by (auto simp: upgraded_to_hybrid_def bnd_eq_Inr identity_ok_def is_hybrid_capable_def id_public_def
      split: if_splits dest!: mldsa_generate_step mlkem_generate_step)

subsection \<open>What a fingerprint commits to\<close>

text \<open>The keys at the lengths their algorithms fix.\<close>

definition keys_sized :: "public_identity \<Rightarrow> bool" where
  "keys_sized p \<longleftrightarrow>
     length (pi_sign_public p) = 32 \<and> length (pi_kem_public p) = 32 \<and>
     (\<forall>m. pi_mldsa_public p = Some m \<longrightarrow> length m = 1952) \<and>
     (\<forall>m. pi_mlkem_public p = Some m \<longrightarrow> length m = 1184)"

definition same_keys :: "public_identity \<Rightarrow> public_identity \<Rightarrow> bool" where
  "same_keys p q \<longleftrightarrow>
     pi_sign_public p = pi_sign_public q \<and> pi_kem_public p = pi_kem_public q \<and>
     pi_mldsa_public p = pi_mldsa_public q \<and> pi_mlkem_public p = pi_mlkem_public q"

text \<open>The sizes the types of the fields fix: two 32-byte arrays and a 64-bit time.\<close>

definition public_typed :: "public_identity \<Rightarrow> bool" where
  "public_typed p \<longleftrightarrow>
     length (pi_sign_public p) = 32 \<and> length (pi_kem_public p) = 32 \<and> - (2 ^ 63) \<le> pi_created_at p \<and> pi_created_at p < 2 ^ 63"

lemma fingerprint_input_inj:
  assumes "keys_sized p" "keys_sized q" "fingerprint_input p = fingerprint_input q"
  shows "same_keys p q"
proof -
  have len: "length (fingerprint_input r) = 31 + 64 + (case pi_mldsa_public r of None \<Rightarrow> 0 | Some _ \<Rightarrow> 1961)
        + (case pi_mlkem_public r of None \<Rightarrow> 0 | Some _ \<Rightarrow> 1194)" if "keys_sized r" for r
    using that by (auto simp: fingerprint_input_def keys_sized_def FPR_CONTEXT_def Let_def split: option.splits)
  have l: "length (fingerprint_input p) = length (fingerprint_input q)" using assms(3) by simp
  have a: "pi_mldsa_public p = None \<longleftrightarrow> pi_mldsa_public q = None"
    and b: "pi_mlkem_public p = None \<longleftrightarrow> pi_mlkem_public q = None"
    using l unfolding len [OF assms(1)] len [OF assms(2)] by (auto split: option.splits)
  show ?thesis using assms a b
    by (cases "pi_mldsa_public p"; cases "pi_mlkem_public p"; cases "pi_mldsa_public q"; cases "pi_mlkem_public q")
       (auto simp: same_keys_def fingerprint_input_def keys_sized_def)
qed

subsection \<open>Properties\<close>

text \<open>C27. A fingerprint commits to all keys of an identity when the keys have the lengths of
  their algorithms: two such identities with the same fingerprint have the same keys, or their
  hashed encodings are a collision of BLAKE3.\<close>

theorem fingerprint_commits:
  assumes "keys_sized p" and "keys_sized q" and "fingerprint L p = fingerprint L q"
  shows "same_keys p q \<or>
    (fingerprint_input p \<noteq> fingerprint_input q \<and> blake3 L (fingerprint_input p) = blake3 L (fingerprint_input q))"
  using assms fingerprint_input_inj by (auto simp: fingerprint_def)

theorem fingerprint_commits_witness:
  "\<exists>p q. \<not> same_keys p q \<and> blake3 demo_lib (fingerprint_input p) = blake3 demo_lib (fingerprint_input q)"
proof -
  let ?p = "\<lparr>pi_name = [], pi_created_at = 0, pi_sign_public = replicate 32 1, pi_kem_public = replicate 32 2,
     pi_mldsa_public = None, pi_mlkem_public = None\<rparr> :: public_identity"
  let ?q = "?p\<lparr>pi_kem_public := replicate 32 3\<rparr>"
  have k: "keys_sized ?p" "keys_sized ?q" by (simp_all add: keys_sized_def)
  have f: "fingerprint demo_lib ?p = fingerprint demo_lib ?q" by (simp add: fingerprint_def demo_lib_def)
  have n: "\<not> same_keys ?p ?q" by (simp add: same_keys_def)
  from fingerprint_commits [OF k f] n show ?thesis by blast
qed

text \<open>Without the length checks a fingerprint does not determine the keys: folding the
  ML-KEM key of a hybrid identity into its ML-DSA field gives another identity with the same
  fingerprint, and so the same safety number, that is no longer capable of the hybrid suite.\<close>

lemma fingerprint_ambiguous:
  "let p = \<lparr>pi_name = name, pi_created_at = created, pi_sign_public = sk, pi_kem_public = kk,
            pi_mldsa_public = Some d, pi_mlkem_public = Some k\<rparr>;
       q = p\<lparr>pi_mldsa_public := Some (d @ as_bytes ''ml-kem-768'' @ k), pi_mlkem_public := None\<rparr>
   in fingerprint L p = fingerprint L q \<and> safety_number L p = safety_number L q \<and>
      is_hybrid_capable p \<and> \<not> is_hybrid_capable q"
  by (simp add: fingerprint_def fingerprint_input_def safety_number_def is_hybrid_capable_def)

text \<open>Comparing safety numbers compares fingerprints, whatever spacing, dashes or case the
  number is typed with: the number of another identity matches exactly when the two
  fingerprints are equal, and two identities matching the same text have equal fingerprints.\<close>

theorem safety_number_compares:
  assumes "base32_spec L" and "blake3_lengths L"
  shows "(safety_number_matches L p (safety_number L q) \<longleftrightarrow> fingerprint L p = fingerprint L q) \<and>
         (\<forall>text. safety_number_matches L p text \<and> safety_number_matches L q text \<longrightarrow> fingerprint L p = fingerprint L q)"
proof -
  have inj: "base32_nopad_encode L a = base32_nopad_encode L b \<longleftrightarrow> a = b" for a b
    using assms(1) by (auto simp: base32_spec_def inj_eq)
  have "length (fingerprint L r) = 32" for r by (simp add: fingerprint_def blake3_lengthsD [OF assms(2)])
  then have ne: "base32_nopad_encode L (fingerprint L r) \<noteq> []" for r
    using assms(1) by (metis base32_spec_def length_0_conv zero_neq_numeral)
  show ?thesis using ne inj
    by (auto simp: safety_number_matches_def safety_number_def normalize_safety_number_eq [OF assms(1)] Let_def)
qed

theorem safety_number_compares_witness:
  "\<forall>p. safety_number_matches demo_lib p (safety_number demo_lib p)"
  using safety_number_compares [OF demo_base32 demo_hashes] by blast

text \<open>A sanitized display name has at most 96 characters, each an ordinary space or a
  character that is neither whitespace, nor a control, nor an invisible or bidirectional
  formatting character.\<close>

theorem sanitize_display_name_safe:
  "length (sanitize_display_name raw) \<le> MAX_DISPLAY_NAME_LEN \<and>
   list_all (\<lambda>c. c = 32 \<or> (\<not> is_spoofing_format_char c \<and> \<not> is_whitespace c \<and> \<not> is_control c)) (sanitize_display_name raw)"
  using sanitize_loop_bound [of "[]" 0 raw False] sanitize_loop_chars [of "[]" _ raw 0 False]
  by (auto simp: sanitize_display_name_def list_all_iff shown_char_def MAX_DISPLAY_NAME_LEN_def)

lemma sanitize_letters:
  "n + length out \<le> MAX_DISPLAY_NAME_LEN \<Longrightarrow>
     sanitize_loop (replicate n 97 @ cs) out (length out) False
       = sanitize_loop cs (out @ replicate n 97) (length out + n) False"
proof (induction n arbitrary: out)
  case (Suc n)
  have "sanitize_loop (replicate n 97 @ cs) (out @ [97]) (length (out @ [97])) False
      = sanitize_loop cs ((out @ [97]) @ replicate n 97) (length (out @ [97]) + n) False"
    using Suc.prems by (intro Suc.IH) simp
  with Suc.prems show ?case
    by (simp add: is_spoofing_format_char_def is_whitespace_def is_control_def)
qed simp

text \<open>Trailing space: a name of 95 letters, a space and another letter keeps its space at
  the end when it is cut to length.\<close>

lemma sanitize_display_name_trailing_space:
  "sanitize_display_name (replicate 95 97 @ [32, 97]) = replicate 95 97 @ [32]"
  using sanitize_letters [of 95 "[]" "[32, 97]"]
  by (simp add: sanitize_display_name_def MAX_DISPLAY_NAME_LEN_def is_spoofing_format_char_def is_whitespace_def is_control_def)

text \<open>The parameters of a stored keystore reach Argon2 only within the local policy: at most
  256 MiB, ten passes and four lanes, with the memory the lanes need, none of them zero.\<close>

theorem validate_for_open_iff:
  "validate_for_open params = Inr () \<longleftrightarrow>
     m_cost params \<noteq> 0 \<and> m_cost params \<le> 262144 \<and> t_cost params \<noteq> 0 \<and> t_cost params \<le> 10 \<and>
     p_cost params \<noteq> 0 \<and> p_cost params \<le> 4 \<and> 8 * unat (p_cost params) \<le> unat (m_cost params)"
  unfolding validate_for_open_def by (subst policy_validate_iff) (auto simp: policy_open_def)

end
