(* ===== verification/Core_Envelope.thy ===== *)
theory Core_Envelope
  imports Core_Keys Core_Aead
begin

section \<open>Wrapping the content key to a recipient (envelope.rs)\<close>

text \<open>
  The sender agrees on a secret with the recipient's key through a fresh ephemeral key,
  for a hybrid suite encapsulates a second secret to the recipient's ML-KEM key, derives the
  wrapping key from all of it and seals the content key. The model is that of the build
  with the post-quantum feature; without it there is no hybrid suite to reach the stubs.
\<close>

definition WRAP_CONTEXT :: string where "WRAP_CONTEXT = ''FileSec x25519 key-wrap v1''"
definition HYBRID_WRAP_CONTEXT :: string where
  "HYBRID_WRAP_CONTEXT = ''FileSec x25519+ml-kem-768 hybrid key-wrap v1''"
definition WRAP_AAD :: bytes where "WRAP_AAD = as_bytes ''FileSec CEK wrap v1''"

record recipient_stanza =
  recipient_fpr :: bytes
  ephemeral_public :: bytes
  mlkem_ciphertext :: "bytes option"
  wrap_nonce :: bytes
  wrapped_cek :: bytes

definition derive_kwk :: "lib \<Rightarrow> bytes \<Rightarrow> bytes \<Rightarrow> bytes \<Rightarrow> bytes" where
  "derive_kwk L shared ephemeral recipient =
     (let ikm = []; ikm = ikm @ shared; ikm = ikm @ ephemeral; ikm = ikm @ recipient
      in derive_subkey L WRAP_CONTEXT ikm)"

definition derive_hybrid_kwk :: "lib \<Rightarrow> bytes \<Rightarrow> bytes \<Rightarrow> bytes \<Rightarrow> bytes \<Rightarrow> bytes \<Rightarrow> bytes \<Rightarrow> bytes" where
  "derive_hybrid_kwk L classical_shared pq_shared ephemeral recipient_kem ciphertext recipient_mlkem =
     (let ikm = []; ikm = ikm @ classical_shared; ikm = ikm @ pq_shared; ikm = ikm @ ephemeral;
          ikm = ikm @ recipient_kem; ikm = ikm @ ciphertext; ikm = ikm @ recipient_mlkem
      in derive_subkey L HYBRID_WRAP_CONTEXT ikm)"

definition wrap_hybrid_kwk :: "lib \<Rightarrow> bytes \<Rightarrow> bytes \<Rightarrow> public_identity \<Rightarrow> (bytes option \<times> bytes) io" where
  "wrap_hybrid_kwk L classical_shared ephemeral recipient =
     bnd (lift (ok_or (MissingPqcKey ''recipient has no ML-KEM key'') (pi_mlkem_public recipient))) (\<lambda>recip_mlkem.
     bnd (mlkem_encapsulate L recip_mlkem) (\<lambda>(ciphertext, pq_shared).
       ret (Some ciphertext,
            derive_hybrid_kwk L classical_shared pq_shared ephemeral (pi_kem_public recipient) ciphertext recip_mlkem)))"

definition unwrap_hybrid_kwk :: "lib \<Rightarrow> bytes \<Rightarrow> bytes \<Rightarrow> bytes \<Rightarrow> bytes \<Rightarrow> identity \<Rightarrow> bytes result" where
  "unwrap_hybrid_kwk L classical_shared ephemeral recipient_kem ciphertext i =
     rbind (ok_or (MissingPqcKey ''identity has no ML-KEM key'') (map_option pq_public (id_mlkem i))) (\<lambda>recip_mlkem.
     rbind (id_mlkem_decapsulate L i ciphertext) (\<lambda>pq_shared.
       Inr (derive_hybrid_kwk L classical_shared pq_shared ephemeral recipient_kem ciphertext recip_mlkem)))"

definition wrap_for_recipient :: "lib \<Rightarrow> bytes \<Rightarrow> public_identity \<Rightarrow> suite_id \<Rightarrow> recipient_stanza io" where
  "wrap_for_recipient L cek recipient suite =
     bnd (ephemeral_agree L (pi_kem_public recipient)) (\<lambda>(shared, ephemeral).
     bnd (random_vec NONCE_LEN) (\<lambda>nonce.
     bnd (if is_hybrid suite then wrap_hybrid_kwk L shared ephemeral recipient
          else ret (None, derive_kwk L shared ephemeral (pi_kem_public recipient))) (\<lambda>(ciphertext, kwk).
     bnd (lift (seal L kwk nonce WRAP_AAD cek)) (\<lambda>wrapped.
       ret \<lparr>recipient_fpr = fingerprint L recipient, ephemeral_public = ephemeral,
            mlkem_ciphertext = ciphertext, wrap_nonce = nonce, wrapped_cek = wrapped\<rparr>))))"

definition unwrap_with_identity :: "lib \<Rightarrow> recipient_stanza \<Rightarrow> identity \<Rightarrow> bytes result" where
  "unwrap_with_identity L stanza i =
     rbind (id_agree L i (ephemeral_public stanza)) (\<lambda>shared.
       let recipient_kem = x25519_public L (id_kem i) in
       rbind (case mlkem_ciphertext stanza of
                Some ciphertext \<Rightarrow> unwrap_hybrid_kwk L shared (ephemeral_public stanza) recipient_kem ciphertext i
              | None \<Rightarrow> Inr (derive_kwk L shared (ephemeral_public stanza) recipient_kem)) (\<lambda>kwk.
       rbind (aead_open L kwk (wrap_nonce stanza) WRAP_AAD (wrapped_cek stanza)) (\<lambda>cek_bytes.
         if length cek_bytes \<noteq> 32 then Inl (Format ''wrapped content key length'')
         else Inr cek_bytes)))"

subsection \<open>Both sides derive the same key\<close>

lemma seal_open:
  "aead_correct L \<Longrightarrow> seal L key nonce aad m = Inr c \<Longrightarrow> aead_open L key nonce aad c = Inr m"
  by (auto simp: seal_def aead_open_def seal_with_def open_with_def result_simps aead_correctD(1) split: if_splits)

lemma ephemeral_agree_both:
  assumes "ephemeral_agree L (x25519_public L k) w = (Inr (shared, e), w')" and "x25519_spec L"
  shows "kem_agree L k e = Inr shared"
  using assms
  by (auto simp: ephemeral_agree_def kem_agree_def bnd_eq_Inr Let_def x25519_spec_def split: if_splits)

lemma wrap_hybrid_both:
  assumes "wrap_hybrid_kwk L shared e (id_public L i) w = (Inr (c, kwk), w')" and "identity_ok L i" and "mlkem_spec L"
  shows "\<exists>ct. c = Some ct \<and> unwrap_hybrid_kwk L shared e (x25519_public L (id_kem i)) ct i = Inr kwk"
proof -
  from assms(1) obtain m where m: "id_mlkem i = Some m" "length (pq_seed m) = 64" "pq_public m = mlkem_public L (pq_seed m)"
    using assms(2) by (auto simp: wrap_hybrid_kwk_def bnd_eq_Inr result_simps identity_ok_def)
  from assms(1) m(1) obtain r ct pq where e: "mlkem_encapsulate_deterministic L (pq_public m) r = (ct, pq)"
    and c: "c = Some ct" and kwk: "kwk = derive_hybrid_kwk L shared pq e (x25519_public L (id_kem i)) ct (pq_public m)"
    by (auto simp: wrap_hybrid_kwk_def bnd_eq_Inr result_simps mlkem_encapsulate_def split: if_splits)
  have "length ct = 1088" "mlkem_decapsulate L (pq_seed m) ct = pq"
    using assms(3) e m unfolding mlkem_spec_def by metis+
  then show ?thesis using c kwk m
    by (simp add: unwrap_hybrid_kwk_def id_mlkem_decapsulate_def mlkem_decaps_def mlkem_keypair_from_seed_def)
qed

lemma wrap_unwrap:
  assumes "wrap_for_recipient L cek (id_public L i) suite w = (Inr st, w')" and "identity_ok L i"
    and "length cek = 32" and "x25519_spec L" and "mlkem_spec L" and "aead_correct L"
  shows "unwrap_with_identity L st i = Inr cek"
proof -
  from assms(1) obtain shared e w1 nonce w2 ct kwk w3 wrapped
    where agree: "ephemeral_agree L (x25519_public L (id_kem i)) w = (Inr (shared, e), w1)"
      and k: "(if is_hybrid suite then wrap_hybrid_kwk L shared e (id_public L i)
          else ret (None, derive_kwk L shared e (pi_kem_public (id_public L i)))) w2 = (Inr (ct, kwk), w3)"
      and wrapped: "seal L kwk nonce WRAP_AAD cek = Inr wrapped"
      and st: "st = \<lparr>recipient_fpr = fingerprint L (id_public L i), ephemeral_public = e,
            mlkem_ciphertext = ct, wrap_nonce = nonce, wrapped_cek = wrapped\<rparr>"
    by (auto simp: wrap_for_recipient_def bnd_eq_Inr)
  have "(case ct of Some c \<Rightarrow> unwrap_hybrid_kwk L shared e (x25519_public L (id_kem i)) c i
         | None \<Rightarrow> Inr (derive_kwk L shared e (x25519_public L (id_kem i)))) = Inr kwk"
    using k wrap_hybrid_both [OF _ assms(2,5), of shared e w2 ct kwk w3] by (cases "is_hybrid suite") auto
  then show ?thesis
    using ephemeral_agree_both [OF agree assms(4)] seal_open [OF assms(6) wrapped] assms(3)
    by (cases ct) (simp_all add: unwrap_with_identity_def id_agree_def st Let_def)
qed

text \<open>With a generator that answers and keys that agree, wrapping goes through.\<close>

definition rng_answers :: "world \<Rightarrow> bool" where
  "rng_answers w \<longleftrightarrow> rng_fills w \<and> (\<forall>k n. rng_source w k n \<noteq> None)"

lemma random_answers:
  assumes "rng_answers w"
  shows "\<exists>b w'. getrandom n w = (Inr b, w') \<and> length b = n \<and> rng_answers w'"
  using assms by (auto simp: getrandom_def rng_fills_def rng_answers_def Let_def split: option.splits)

lemma ephemeral_agree_answers:
  assumes "rng_answers w" and "\<forall>e. x25519_contributory L (x25519_dh L e pk)"
  shows "\<exists>shared e w'. ephemeral_agree L pk w = (Inr (shared, e), w') \<and> rng_answers w'"
proof -
  obtain b w' where "getrandom 32 w = (Inr b, w')" "rng_answers w'" using random_answers [OF assms(1)] by blast
  then show ?thesis using assms(2) by (simp add: ephemeral_agree_def random_array_def Let_def)
qed

lemma wrap_hybrid_answers:
  assumes "rng_answers w" and "id_mlkem i = Some m" and "identity_ok L i" and "mlkem_spec L" and "blake3_lengths L"
  shows "\<exists>c kwk w'. wrap_hybrid_kwk L shared e (id_public L i) w = (Inr (c, kwk), w') \<and> length kwk = 32"
proof -
  have k: "length (pq_public m) = 1184" "mlkem_key_valid L (pq_public m)"
  proof -
    have m: "length (pq_seed m) = 64" "pq_public m = mlkem_public L (pq_seed m)"
      using assms(2,3) by (simp_all add: identity_ok_def)
    then show "length (pq_public m) = 1184" "mlkem_key_valid L (pq_public m)"
      using assms(4) unfolding mlkem_spec_def by metis+
  qed
  obtain b w' where "getrandom 32 w = (Inr b, w')" using random_answers [OF assms(1)] by blast
  then have r: "mlkem_encapsulate L (pq_public m) w = (Inr (mlkem_encapsulate_deterministic L (pq_public m) b), w')"
    using k by (simp add: mlkem_encapsulate_def random_array_def)
  obtain ct pq where "mlkem_encapsulate_deterministic L (pq_public m) b = (ct, pq)" by force
  with r assms(2) blake3_lengthsD(3) [OF assms(5)] show ?thesis
    by (simp add: wrap_hybrid_kwk_def derive_hybrid_kwk_def derive_subkey_def)
qed

lemma wrap_returns:
  assumes "rng_answers w" and "identity_ok L i" and "mlkem_spec L" and "aead_total L" and "blake3_lengths L"
    and "\<forall>e. x25519_contributory L (x25519_dh L e (x25519_public L (id_kem i)))"
    and "length cek = 32" and "is_hybrid suite \<longrightarrow> id_mlkem i \<noteq> None"
  shows "\<exists>st w'. wrap_for_recipient L cek (id_public L i) suite w = (Inr st, w')"
proof -
  obtain shared e w1 where agree: "ephemeral_agree L (x25519_public L (id_kem i)) w = (Inr (shared, e), w1)"
    and w1: "rng_answers w1"
    using ephemeral_agree_answers [OF assms(1,6)] by blast
  obtain nonce w2 where n: "getrandom NONCE_LEN w1 = (Inr nonce, w2)" "length nonce = NONCE_LEN" "rng_answers w2"
    using random_answers [OF w1] by blast
  obtain c kwk w3 where k: "(if is_hybrid suite then wrap_hybrid_kwk L shared e (id_public L i)
          else ret (None, derive_kwk L shared e (pi_kem_public (id_public L i)))) w2 = (Inr (c, kwk), w3)" "length kwk = 32"
  proof (cases "is_hybrid suite")
    case True
    with assms(8) obtain m where m: "id_mlkem i = Some m" by auto
    from wrap_hybrid_answers [OF n(3) m assms(2,3,5), of shared e] obtain c kwk w3
      where "wrap_hybrid_kwk L shared e (id_public L i) w2 = (Inr (c, kwk), w3)" "length kwk = 32" by blast
    with True that show thesis by simp
  next
    case False
    with that show thesis using blake3_lengthsD(3) [OF assms(5)] by (simp add: derive_kwk_def derive_subkey_def)
  qed
  have "\<exists>wr. seal L kwk nonce WRAP_AAD cek = Inr wr"
    using aead_totalD [OF assms(4) k(2), of nonce XChaCha20Poly1305 cek WRAP_AAD] n(2) assms(7) k(2)
    by (auto simp: seal_def seal_with_def cipher_def NONCE_LEN_def)
  then show ?thesis using agree n(1) k(1)
    by (auto simp: wrap_for_recipient_def random_vec_def simp del: if_split)
qed

subsection \<open>Properties\<close>

text \<open>C26. Envelope round trip: for every suite, wrapping a content key to an identity's public
  half returns a stanza addressed to its fingerprint, from which that identity recovers exactly
  the content key.\<close>

theorem envelope_roundtrip:
  assumes "x25519_spec L" and "mlkem_spec L" and "aead_correct L" and "aead_total L" and "blake3_lengths L"
    and "identity_ok L i" and "rng_answers w"
    and "\<forall>e. x25519_contributory L (x25519_dh L e (x25519_public L (id_kem i)))"
    and "length cek = 32" and "is_hybrid suite \<longrightarrow> id_mlkem i \<noteq> None"
  shows "\<exists>st w'. wrap_for_recipient L cek (id_public L i) suite w = (Inr st, w') \<and>
           recipient_fpr st = id_fingerprint L i \<and> unwrap_with_identity L st i = Inr cek"
proof -
  obtain st w' where r: "wrap_for_recipient L cek (id_public L i) suite w = (Inr st, w')"
    using wrap_returns [OF assms(7,6,2,4,5,8,9,10)] by blast
  then have "recipient_fpr st = id_fingerprint L i"
    by (auto simp: wrap_for_recipient_def bnd_eq_Inr id_fingerprint_def)
  with r wrap_unwrap [OF r assms(6,9,1,2,3)] show ?thesis by blast
qed

theorem envelope_roundtrip_witness:
  "\<exists>st w w' i. wrap_for_recipient demo_lib (replicate 32 5) (id_public demo_lib i) Hybrid w = (Inr st, w') \<and>
     unwrap_with_identity demo_lib st i = Inr (replicate 32 5)"
proof -
  let ?i = "\<lparr>id_name = [], id_created_at = 0, id_sign = replicate 32 0, id_kem = replicate 32 0, id_mldsa = None,
     id_mlkem = Some \<lparr>pq_public = mlkem_public demo_lib (replicate 64 0), pq_seed = replicate 64 0\<rparr>\<rparr> :: identity"
  let ?w = "\<lparr>rng_source = (\<lambda>_ n. Some (replicate n 0)), rng_calls = 0, io_faults = (\<lambda>_. None), io_calls = 0, fs = []\<rparr>"
  have "identity_ok demo_lib ?i" by (simp add: identity_ok_def)
  moreover have "rng_answers ?w" by (simp add: rng_answers_def rng_fills_def)
  moreover have "\<forall>e. x25519_contributory demo_lib (x25519_dh demo_lib e (x25519_public demo_lib (id_kem ?i)))"
    by (simp add: demo_lib_def)
  ultimately show ?thesis
    using envelope_roundtrip [OF demo_keys(1,3) demo_aead(1,3) demo_hashes, of ?i ?w "replicate 32 5" Hybrid]
    by auto
qed

end
