(* ===== verification/Core_Codec.thy ===== *)
theory Core_Codec
  imports Core_Prelude
begin

section \<open>Serialization (codec.rs over ciborium)\<close>

text \<open>
  The CBOR library is a parameter: for each type that is serialized, an encoder that may
  fail and a decoder that reads one value off the front of a buffer. \<open>to_vec\<close> and
  \<open>from_slice\<close> are the two helpers of codec.rs, the second refusing trailing bytes.
\<close>

record 'a codec =
  enc :: "'a \<Rightarrow> bytes option"
  dec :: "bytes \<Rightarrow> ('a \<times> bytes) option"

definition to_vec :: "'a codec \<Rightarrow> 'a \<Rightarrow> bytes result" where
  "to_vec c v = ok_or Serialization (enc c v)"

definition from_slice :: "'a codec \<Rightarrow> bytes \<Rightarrow> 'a result" where
  "from_slice c bs =
     rbind (ok_or Serialization (dec c bs)) (\<lambda>(value, remaining).
       if remaining \<noteq> [] then Inl Serialization else Inr value)"

text \<open>What is documented of the library for a type whose values satisfy \<open>V\<close> (fixed-size
  arrays have their size, machine integers are in range): every value is encoded and decoded
  back with nothing left over, and only values of the type are decoded.\<close>

definition codec_ok :: "('a \<Rightarrow> bool) \<Rightarrow> 'a codec \<Rightarrow> bool" where
  "codec_ok V c \<longleftrightarrow>
     (\<forall>v. V v \<longrightarrow> (\<exists>b. enc c v = Some b \<and> dec c b = Some (v, []))) \<and> (\<forall>b v r. dec c b = Some (v, r) \<longrightarrow> V v)"

lemma to_vec_total: "codec_ok V c \<Longrightarrow> V v \<Longrightarrow> \<exists>b. to_vec c v = Inr b"
  by (auto simp: codec_ok_def to_vec_def)

lemma from_slice_to_vec:
  assumes "codec_ok V c" and "V v" and "to_vec c v = Inr b"
  shows "from_slice c b = Inr v"
proof -
  from assms(1,2) obtain b' where b': "enc c v = Some b'" "dec c b' = Some (v, [])" unfolding codec_ok_def by blast
  with assms(3) show ?thesis by (simp add: to_vec_def from_slice_def)
qed

lemma from_slice_eq: "from_slice c b = Inr v \<longleftrightarrow> dec c b = Some (v, [])"
  by (auto simp: from_slice_def result_simps)

lemma from_slice_typed: "codec_ok V c \<Longrightarrow> from_slice c b = Inr v \<Longrightarrow> V v"
  unfolding from_slice_eq codec_ok_def by blast

text \<open>An encoding of a typed value determines it.\<close>

lemma to_vec_inj:
  assumes "codec_ok V c" "V v" "V v'" "to_vec c v = Inr b" "to_vec c v' = Inr b"
  shows "v = v'"
  using from_slice_to_vec [OF assms(1,2,4)] from_slice_to_vec [OF assms(1,3,5)] by simp

subsection \<open>A concrete codec\<close>

text \<open>
  A self-delimiting encoding of lists of byte strings, from which a codec is made for any
  type given by its fields; used to evaluate the model on concrete values.
\<close>

fun put_bytes :: "bytes \<Rightarrow> bytes" where
  "put_bytes [] = [0]"
| "put_bytes (x # xs) = 1 # x # put_bytes xs"

fun get_bytes :: "bytes \<Rightarrow> (bytes \<times> bytes) option" where
  "get_bytes [] = None"
| "get_bytes [t] = (if t = 0 then Some ([], []) else None)"
| "get_bytes (t # x # r) =
     (if t = 0 then Some ([], x # r) else map_option (\<lambda>(xs, r'). (x # xs, r')) (get_bytes r))"

fun put_fields :: "bytes list \<Rightarrow> bytes" where
  "put_fields [] = [0]"
| "put_fields (f # fs) = 1 # put_bytes f @ put_fields fs"

fun get_fields :: "nat \<Rightarrow> bytes \<Rightarrow> (bytes list \<times> bytes) option" where
  "get_fields 0 b = None"
| "get_fields (Suc n) [] = None"
| "get_fields (Suc n) (t # r) =
     (if t = 0 then Some ([], r)
      else case get_bytes r of
             None \<Rightarrow> None
           | Some (f, r') \<Rightarrow> map_option (\<lambda>(fs, r''). (f # fs, r'')) (get_fields n r'))"

definition fields_codec :: "('a \<Rightarrow> bool) \<Rightarrow> ('a \<Rightarrow> bytes list) \<Rightarrow> (bytes list \<Rightarrow> 'a option) \<Rightarrow> 'a codec" where
  "fields_codec V to of_fields =
     \<lparr>enc = (\<lambda>v. Some (put_fields (to v))),
      dec = (\<lambda>b. case get_fields (length b) b of
                   None \<Rightarrow> None
                 | Some (fs, r) \<Rightarrow> Option.bind (of_fields fs) (\<lambda>v. if V v then Some (v, r) else None))\<rparr>"

lemma get_put_bytes: "get_bytes (put_bytes xs @ r) = Some (xs, r)"
proof (induction xs)
  case Nil
  show ?case by (cases r) simp_all
qed simp

lemma get_put_fields: "length fs < n \<Longrightarrow> get_fields n (put_fields fs @ r) = Some (fs, r)"
proof (induction fs arbitrary: n)
  case Nil
  then show ?case by (cases n) simp_all
next
  case (Cons f fs)
  then show ?case by (cases n) (simp_all add: get_put_bytes)
qed

lemma length_put_bytes: "0 < length (put_bytes f)"
  by (cases f) auto

lemma length_put_bytes_eq: "length (put_bytes f) = 2 * length f + 1"
  by (induction f) simp_all

lemma length_put_fields: "length fs < length (put_fields fs)"
proof (induction fs)
  case (Cons f fs)
  then show ?case using length_put_bytes [of f] by simp
qed simp

lemma fields_codec_ok: "(\<And>v. of_fields (to v) = Some v) \<Longrightarrow> codec_ok V (fields_codec V to of_fields)"
  using get_put_fields [where r = "[]"] length_put_fields
  by (auto simp: codec_ok_def fields_codec_def bind_eq_Some_conv split: option.splits if_splits)

text \<open>Fields for the types that occur.\<close>

definition nat_field :: "nat \<Rightarrow> bytes" where "nat_field n = replicate n 0"

definition int_field :: "int \<Rightarrow> bytes" where
  "int_field i = (if i < 0 then 1 # nat_field (nat (- i)) else 0 # nat_field (nat i))"

definition int_of_field :: "bytes \<Rightarrow> int" where
  "int_of_field b = (if b \<noteq> [] \<and> hd b = 1 then - int (length b - 1) else int (length b - 1))"

definition string_of_field :: "bytes \<Rightarrow> string" where
  "string_of_field b = map (\<lambda>x. char_of (unat x)) b"

definition option_field :: "bytes option \<Rightarrow> bytes" where
  "option_field m = (case m of None \<Rightarrow> [] | Some b \<Rightarrow> 1 # b)"

definition option_of_field :: "bytes \<Rightarrow> bytes option" where
  "option_of_field b = (case b of [] \<Rightarrow> None | _ # r \<Rightarrow> Some r)"

definition word_of_field :: "bytes \<Rightarrow> 'a::len word" where
  "word_of_field b = of_nat (length b)"

lemma field_conversions [simp]:
  "int_of_field (int_field i) = i"
  "string_of_field (as_bytes s) = s"
  "option_of_field (option_field m) = m"
  "word_of_field (nat_field (unat w)) = (w :: 'a::len word)"
  by (auto simp: int_of_field_def int_field_def nat_field_def string_of_field_def as_bytes_def comp_def
      option_of_field_def option_field_def word_of_field_def split: option.splits)

fun all_some :: "'a option list \<Rightarrow> 'a list option" where
  "all_some [] = Some []"
| "all_some (x # xs) = (case x of None \<Rightarrow> None | Some y \<Rightarrow> map_option ((#) y) (all_some xs))"

lemma all_some_Some [simp]: "all_some (map Some xs) = Some xs"
  by (induction xs) simp_all

lemma get_fields_code [code]:
  "get_fields n b =
     (case b of
        [] \<Rightarrow> None
      | t # r \<Rightarrow>
          if n = 0 then None
          else if t = 0 then Some ([], r)
          else case get_bytes r of
                 None \<Rightarrow> None
               | Some (f, r') \<Rightarrow> map_option (\<lambda>(xs, r''). (f # xs, r'')) (get_fields (n - 1) r'))"
  by (cases n; cases b) (simp_all split: option.splits)

text \<open>A list of records, each as one field.\<close>

definition record_field :: "bytes list \<Rightarrow> bytes" where
  "record_field xs = put_fields xs"

definition record_of_field :: "bytes \<Rightarrow> bytes list option" where
  "record_of_field b = (case get_fields (length b) b of Some (xs, []) \<Rightarrow> Some xs | _ \<Rightarrow> None)"

lemma record_field_inverse [simp]: "record_of_field (record_field xs) = Some xs"
  using get_put_fields [OF length_put_fields, of xs "[]"] by (simp add: record_field_def record_of_field_def)

lemma length_put_fields_eq: "length (put_fields xs) = 1 + sum_list (map (\<lambda>f. 2 + 2 * length f) xs)"
  by (induction xs) (simp_all add: length_put_bytes_eq)

text \<open>Signed 64-bit times.\<close>

definition i64_typed :: "int \<Rightarrow> bool" where
  "i64_typed t \<longleftrightarrow> - (2 ^ 63) \<le> t \<and> t < 2 ^ 63"

lemma char_of_iff: "k < 256 \<Longrightarrow> char_of k = c \<longleftrightarrow> k = (of_char c :: nat)"
  by (metis char_of_char of_char_mod_256 of_char_of mod_less)

end
