(* ===== verification/Net_Transport.thy ===== *)
theory Net_Transport
  imports Core_Envelope Core_Codec
begin

section \<open>The direct-transfer channel (transport.rs)\<close>

text \<open>
  A SIGMA handshake gated by a transfer secret, and the record layer it opens. The
  initiator and the responder are records; the wire messages are records whose CBOR codecs
  are a parameter. \<open>HelloReplayCache\<close> is shared by the responders of a listener: it is a
  second component of the state of \<open>read_hello_write_auth\<close>, so that a run over several
  responders threads it. Its lock is not modelled.
\<close>

subsection \<open>Constants and messages\<close>

definition MAGIC :: bytes where "MAGIC = as_bytes ''FSECP2P'' @ [2]"
definition PROTO_VERSION :: u16 where "PROTO_VERSION = 2"
definition SUITE_CLASSIC :: u16 where "SUITE_CLASSIC = 1"
definition TRANSCRIPT_LABEL :: bytes where "TRANSCRIPT_LABEL = as_bytes ''FileSec p2p transcript v2''"
definition PSK_CONTEXT :: string where "PSK_CONTEXT = ''FileSec p2p transfer secret v2''"
definition HELLO_PROOF_LABEL :: bytes where "HELLO_PROOF_LABEL = as_bytes ''FileSec p2p hello proof v2''"
definition SECRET_COMMIT_LABEL :: bytes where "SECRET_COMMIT_LABEL = as_bytes ''FileSec p2p secret commit v2''"
definition RESPONDER_AUTH_LABEL :: bytes where "RESPONDER_AUTH_LABEL = as_bytes ''FileSec p2p responder auth v2''"
definition INITIATOR_AUTH_LABEL :: bytes where "INITIATOR_AUTH_LABEL = as_bytes ''FileSec p2p initiator auth v2''"
definition SESSION_KEY_I2R :: string where "SESSION_KEY_I2R = ''FileSec p2p session key i2r v2''"
definition SESSION_KEY_R2I :: string where "SESSION_KEY_R2I = ''FileSec p2p session key r2i v2''"
definition DIR_I2R :: u8 where "DIR_I2R = 1"
definition DIR_R2I :: u8 where "DIR_R2I = 2"
definition CONFIRM_CTR :: u64 where "CONFIRM_CTR = 0"
definition CONFIRM_TYPE :: u8 where "CONFIRM_TYPE = 0"
definition FIRST_RECORD_CTR :: u64 where "FIRST_RECORD_CTR = 1"

record hello_msg =
  h_magic :: bytes
  h_version :: u16
  h_suite :: u16
  h_i_ephemeral :: bytes
  h_i_nonce :: bytes
  h_i_psk_tag :: bytes

record auth_msg =
  a_r_ephemeral :: bytes
  a_r_nonce :: bytes
  a_r_identity :: public_identity
  a_r_sig :: bytes

record confirm_msg =
  c_sealed :: bytes

record confirm_inner =
  ci_i_identity :: public_identity
  ci_i_sig :: bytes

record wire =
  hello_codec :: "hello_msg codec"
  auth_codec :: "auth_msg codec"
  confirm_codec :: "confirm_msg codec"
  inner_codec :: "confirm_inner codec"

subsection \<open>Pure helpers\<close>

definition derive_psk :: "lib \<Rightarrow> bytes \<Rightarrow> bytes" where
  "derive_psk L secret = derive_subkey L PSK_CONTEXT secret"

definition hello_proof :: "lib \<Rightarrow> bytes \<Rightarrow> u16 \<Rightarrow> u16 \<Rightarrow> bytes \<Rightarrow> bytes \<Rightarrow> bytes" where
  "hello_proof L k_psk version suite i_ephemeral i_nonce =
     (let data = [];
          data = data @ HELLO_PROOF_LABEL;
          data = data @ to_be_bytes version;
          data = data @ to_be_bytes suite;
          data = data @ i_ephemeral;
          data = data @ i_nonce
      in blake3_keyed L k_psk data)"

definition secret_commit :: "lib \<Rightarrow> bytes \<Rightarrow> bytes" where
  "secret_commit L k_psk = blake3_keyed L k_psk SECRET_COMMIT_LABEL"

definition transcript_input ::
  "u16 \<Rightarrow> u16 \<Rightarrow> bytes \<Rightarrow> bytes \<Rightarrow> bytes \<Rightarrow> bytes \<Rightarrow> bytes \<Rightarrow> bytes \<Rightarrow> bytes" where
  "transcript_input version suite i_ephemeral i_nonce r_ephemeral r_nonce r_fingerprint commit =
     (let h = TRANSCRIPT_LABEL;
          h = h @ to_be_bytes version;
          h = h @ to_be_bytes suite;
          h = h @ i_ephemeral;
          h = h @ i_nonce;
          h = h @ r_ephemeral;
          h = h @ r_nonce;
          h = h @ r_fingerprint
      in h @ commit)"

definition transcript0 ::
  "lib \<Rightarrow> u16 \<Rightarrow> u16 \<Rightarrow> bytes \<Rightarrow> bytes \<Rightarrow> bytes \<Rightarrow> bytes \<Rightarrow> bytes \<Rightarrow> bytes \<Rightarrow> bytes" where
  "transcript0 L version suite i_ephemeral i_nonce r_ephemeral r_nonce r_fingerprint commit =
     blake3 L (transcript_input version suite i_ephemeral i_nonce r_ephemeral r_nonce r_fingerprint commit)"

definition responder_sig_msg :: "lib \<Rightarrow> bytes \<Rightarrow> bytes \<Rightarrow> bytes \<Rightarrow> bytes" where
  "responder_sig_msg L th0 r_sign_pub r_kem_pub =
     blake3 L (RESPONDER_AUTH_LABEL @ th0 @ r_sign_pub @ r_kem_pub)"

definition initiator_sig_msg :: "lib \<Rightarrow> bytes \<Rightarrow> bytes \<Rightarrow> bytes \<Rightarrow> bytes \<Rightarrow> bytes \<Rightarrow> bytes" where
  "initiator_sig_msg L th0 r_sign_pub r_kem_pub i_sign_pub i_kem_pub =
     blake3 L (INITIATOR_AUTH_LABEL @ th0 @ r_sign_pub @ r_kem_pub @ i_sign_pub @ i_kem_pub)"

definition derive_session_keys :: "lib \<Rightarrow> bytes \<Rightarrow> bytes \<Rightarrow> bytes \<times> bytes" where
  "derive_session_keys L ee_dh th0 =
     (let ikm = ee_dh @ th0
      in (derive_subkey L SESSION_KEY_I2R ikm, derive_subkey L SESSION_KEY_R2I ikm))"

definition record_nonce :: "u8 \<Rightarrow> u64 \<Rightarrow> bytes" where
  "record_nonce direction counter =
     (let nonce = replicate NONCE_LEN 0;
          nonce = nonce[0 := direction]
      in copy_at (NONCE_LEN - 8) (to_be_bytes counter) nonce)"

definition record_aad :: "bytes \<Rightarrow> u8 \<Rightarrow> u64 \<Rightarrow> bytes" where
  "record_aad th0 record_type counter = th0 @ [record_type] @ to_be_bytes counter"

definition fixed :: "nat \<Rightarrow> bytes \<Rightarrow> bytes result" where
  "fixed n bs = (if length bs = n then Inr bs else Inl (HandshakeProtocol ''wrong field length''))"

subsection \<open>Records\<close>

datatype record_type = Offer | OfferDecision | Data | Done

fun to_byte :: "record_type \<Rightarrow> u8" where
  "to_byte Offer = 1"
| "to_byte OfferDecision = 2"
| "to_byte Data = 3"
| "to_byte Done = 4"

definition from_byte :: "u8 \<Rightarrow> record_type result" where
  "from_byte b =
     (if b = 1 then Inr Offer else if b = 2 then Inr OfferDecision
      else if b = 3 then Inr Data else if b = 4 then Inr Done
      else Inl (HandshakeProtocol ''unknown record type''))"

record session =
  send_key :: bytes
  recv_key :: bytes
  send_dir :: u8
  recv_dir :: u8
  send_ctr :: u64
  recv_ctr :: u64
  s_th0 :: bytes

definition for_initiator :: "bytes \<Rightarrow> bytes \<Rightarrow> bytes \<Rightarrow> session" where
  "for_initiator k_i2r k_r2i th0 =
     \<lparr>send_key = k_i2r, recv_key = k_r2i, send_dir = DIR_I2R, recv_dir = DIR_R2I,
      send_ctr = FIRST_RECORD_CTR, recv_ctr = FIRST_RECORD_CTR, s_th0 = th0\<rparr>"

definition for_responder :: "bytes \<Rightarrow> bytes \<Rightarrow> bytes \<Rightarrow> session" where
  "for_responder k_i2r k_r2i th0 =
     \<lparr>send_key = k_r2i, recv_key = k_i2r, send_dir = DIR_R2I, recv_dir = DIR_I2R,
      send_ctr = FIRST_RECORD_CTR, recv_ctr = FIRST_RECORD_CTR, s_th0 = th0\<rparr>"

definition seal_record :: "lib \<Rightarrow> record_type \<Rightarrow> bytes \<Rightarrow> (session, bytes) op" where
  "seal_record L ty plaintext s =
     (let counter = send_ctr s;
          nonce = record_nonce (send_dir s) counter;
          aad = record_aad (s_th0 s) (to_byte ty) counter
      in case seal L (send_key s) nonce aad plaintext of
           Inl e \<Rightarrow> (Inl e, s)
         | Inr ciphertext \<Rightarrow>
             (case checked_add (send_ctr s) 1 of
                None \<Rightarrow> (Inl (HandshakeProtocol ''record counter overflow''), s)
              | Some c \<Rightarrow> (Inr (to_byte ty # ciphertext), s\<lparr>send_ctr := c\<rparr>)))"

definition open_record :: "lib \<Rightarrow> bytes \<Rightarrow> (session, record_type \<times> bytes) op" where
  "open_record L frame s =
     (case frame of
        [] \<Rightarrow> (Inl (HandshakeProtocol ''empty record''), s)
      | type_byte # ciphertext \<Rightarrow>
          (case from_byte type_byte of
             Inl e \<Rightarrow> (Inl e, s)
           | Inr ty \<Rightarrow>
               let counter = recv_ctr s;
                   nonce = record_nonce (recv_dir s) counter;
                   aad = record_aad (s_th0 s) (to_byte ty) counter
               in (case aead_open L (recv_key s) nonce aad ciphertext of
                     Inl e \<Rightarrow> (Inl e, s)
                   | Inr plaintext \<Rightarrow>
                       (case checked_add (recv_ctr s) 1 of
                          None \<Rightarrow> (Inl (HandshakeProtocol ''record counter overflow''), s)
                        | Some c \<Rightarrow> (Inr (ty, plaintext), s\<lparr>recv_ctr := c\<rparr>)))))"

subsection \<open>The initiator\<close>

record initiator =
  in_identity :: identity
  in_ephemeral :: bytes
  in_nonce :: bytes
  in_expected_peer_fpr :: bytes
  in_k_psk :: bytes
  in_secret_commit :: bytes

definition initiator_new :: "lib \<Rightarrow> identity \<Rightarrow> bytes \<Rightarrow> bytes \<Rightarrow> initiator io" where
  "initiator_new L i expected transfer_secret =
     (if transfer_secret = [] then throw (HandshakeProtocol ''a transfer secret is required'')
      else
        let k_psk = derive_psk L transfer_secret;
            commit = secret_commit L k_psk
        in bnd (random_array 32) (\<lambda>ephemeral.
           bnd (random_array 32) (\<lambda>nonce.
           ret \<lparr>in_identity = i, in_ephemeral = ephemeral, in_nonce = nonce,
                in_expected_peer_fpr = expected, in_k_psk = k_psk, in_secret_commit = commit\<rparr>)))"

definition write_hello :: "lib \<Rightarrow> wire \<Rightarrow> initiator \<Rightarrow> bytes result" where
  "write_hello L W self =
     (let i_ephemeral = x25519_public L (in_ephemeral self);
          hello = \<lparr>h_magic = MAGIC, h_version = PROTO_VERSION, h_suite = SUITE_CLASSIC,
                   h_i_ephemeral = i_ephemeral, h_i_nonce = in_nonce self,
                   h_i_psk_tag = hello_proof L (in_k_psk self) PROTO_VERSION SUITE_CLASSIC i_ephemeral (in_nonce self)\<rparr>
      in to_vec (hello_codec W) hello)"

definition read_auth_write_confirm :: "lib \<Rightarrow> wire \<Rightarrow> initiator \<Rightarrow> bytes \<Rightarrow> (bytes \<times> session) result" where
  "read_auth_write_confirm L W self auth_bytes =
     rbind (from_slice (auth_codec W) auth_bytes) (\<lambda>auth.
     rbind (fixed 64 (a_r_sig auth)) (\<lambda>r_sig.
       let r_sign_pub = pi_sign_public (a_r_identity auth);
           r_kem_pub = pi_kem_public (a_r_identity auth);
           th0 = transcript0 L PROTO_VERSION SUITE_CLASSIC (x25519_public L (in_ephemeral self)) (in_nonce self)
                   (a_r_ephemeral auth) (a_r_nonce auth) (in_expected_peer_fpr self) (in_secret_commit self)
       in if \<not> ct_eq (fingerprint L (a_r_identity auth)) (in_expected_peer_fpr self) then Inl PeerIdentityMismatch
          else
            let sig_msg = responder_sig_msg L th0 r_sign_pub r_kem_pub in
            if \<not> is_ok (sign_verify L r_sign_pub sig_msg r_sig) then Inl BadSignature
            else
              rbind (kem_agree L (in_ephemeral self) (a_r_ephemeral auth)) (\<lambda>ee_dh.
                let (k_i2r, k_r2i) = derive_session_keys L ee_dh th0;
                    i_pub = id_public L (in_identity self);
                    i_sig_msg = initiator_sig_msg L th0 r_sign_pub r_kem_pub (pi_sign_public i_pub) (pi_kem_public i_pub);
                    i_sig = id_sign_message L (in_identity self) i_sig_msg;
                    inner = \<lparr>ci_i_identity = i_pub, ci_i_sig = i_sig\<rparr>
                in rbind (to_vec (inner_codec W) inner) (\<lambda>inner_bytes.
                   let nonce = record_nonce DIR_I2R CONFIRM_CTR;
                       aad = record_aad th0 CONFIRM_TYPE CONFIRM_CTR
                   in rbind (seal L k_i2r nonce aad inner_bytes) (\<lambda>sealed.
                      rbind (to_vec (confirm_codec W) \<lparr>c_sealed = sealed\<rparr>) (\<lambda>confirm_bytes.
                        Inr (confirm_bytes, for_initiator k_i2r k_r2i th0)))))))"

subsection \<open>The responder\<close>

record responder_pending =
  rp_th0 :: bytes
  rp_k_i2r :: bytes
  rp_k_r2i :: bytes

record responder =
  re_identity :: identity
  re_ephemeral :: bytes
  re_nonce :: bytes
  re_k_psk :: bytes
  re_secret_commit :: bytes
  re_expected_peer_fpr :: "bytes option"
  re_uses_cache :: bool
  re_pending :: "responder_pending option"

record hello_replay_cache =
  hrc_seen :: "bytes set"
  hrc_capacity :: nat

definition cache_new :: "nat \<Rightarrow> hello_replay_cache" where
  "cache_new capacity = \<lparr>hrc_seen = {}, hrc_capacity = capacity\<rparr>"

definition admit :: "bytes \<Rightarrow> (hello_replay_cache, unit) op" where
  "admit proof_tag cache =
     (if proof_tag \<in> hrc_seen cache then (Inl (HandshakeProtocol ''replayed handshake''), cache)
      else if card (hrc_seen cache) \<ge> hrc_capacity cache
      then (Inl (HandshakeProtocol ''too many handshakes under this transfer code; start a new one''), cache)
      else (Inr (), cache\<lparr>hrc_seen := insert proof_tag (hrc_seen cache)\<rparr>))"

definition responder_new :: "lib \<Rightarrow> identity \<Rightarrow> bytes \<Rightarrow> bytes option \<Rightarrow> responder io" where
  "responder_new L i transfer_secret expected =
     (if transfer_secret = [] then throw (HandshakeProtocol ''a transfer secret is required'')
      else
        let k_psk = derive_psk L transfer_secret;
            commit = secret_commit L k_psk
        in bnd (random_array 32) (\<lambda>ephemeral.
           bnd (random_array 32) (\<lambda>nonce.
           ret \<lparr>re_identity = i, re_ephemeral = ephemeral, re_nonce = nonce, re_k_psk = k_psk,
                re_secret_commit = commit, re_expected_peer_fpr = expected, re_uses_cache = False,
                re_pending = None\<rparr>)))"

definition with_replay_cache :: "responder \<Rightarrow> responder" where
  "with_replay_cache self = self\<lparr>re_uses_cache := True\<rparr>"

definition on_cache :: "(hello_replay_cache, 'a) op \<Rightarrow> (responder \<times> hello_replay_cache, 'a) op" where
  "on_cache m = (\<lambda>(self, cache). case m cache of (r, cache') \<Rightarrow> (r, (self, cache')))"

definition read_hello_write_auth :: "lib \<Rightarrow> wire \<Rightarrow> bytes \<Rightarrow> (responder \<times> hello_replay_cache, bytes) op" where
  "read_hello_write_auth L W hello_bytes =
     bnd (gets fst) (\<lambda>self.
     bnd (lift (from_slice (hello_codec W) hello_bytes)) (\<lambda>hello.
       if h_magic hello \<noteq> MAGIC then throw (HandshakeProtocol ''not a FileSec transfer handshake'')
       else if h_version hello \<noteq> PROTO_VERSION then throw (HandshakeProtocol ''unsupported handshake version'')
       else if h_suite hello \<noteq> SUITE_CLASSIC then throw (HandshakeProtocol ''unsupported handshake suite'')
       else
         let expect_tag = hello_proof L (re_k_psk self) (h_version hello) (h_suite hello) (h_i_ephemeral hello) (h_i_nonce hello)
         in if \<not> ct_eq expect_tag (h_i_psk_tag hello) then throw TransferSecretMismatch
            else
              bnd (if re_uses_cache self then on_cache (admit (h_i_psk_tag hello)) else ret ()) (\<lambda>_.
                let th0 = transcript0 L PROTO_VERSION SUITE_CLASSIC (h_i_ephemeral hello) (h_i_nonce hello)
                            (x25519_public L (re_ephemeral self)) (re_nonce self)
                            (id_fingerprint L (re_identity self)) (re_secret_commit self)
                in bnd (lift (kem_agree L (re_ephemeral self) (h_i_ephemeral hello))) (\<lambda>ee_dh.
                   let (k_i2r, k_r2i) = derive_session_keys L ee_dh th0;
                       r_pub = id_public L (re_identity self);
                       sig_msg = responder_sig_msg L th0 (pi_sign_public r_pub) (pi_kem_public r_pub);
                       r_sig = id_sign_message L (re_identity self) sig_msg;
                       auth = \<lparr>a_r_ephemeral = x25519_public L (re_ephemeral self), a_r_nonce = re_nonce self,
                               a_r_identity = r_pub, a_r_sig = r_sig\<rparr>
                   in bnd (lift (to_vec (auth_codec W) auth)) (\<lambda>auth_bytes.
                      bnd (modify (map_prod (re_pending_update
                             (\<lambda>_. Some \<lparr>rp_th0 = th0, rp_k_i2r = k_i2r, rp_k_r2i = k_r2i\<rparr>)) id)) (\<lambda>_.
                      ret auth_bytes))))))"

record peer_auth =
  pa_fingerprint :: bytes
  pa_identity :: public_identity

definition read_confirm :: "lib \<Rightarrow> wire \<Rightarrow> responder \<Rightarrow> bytes \<Rightarrow> (peer_auth \<times> session) result" where
  "read_confirm L W self confirm_bytes =
     rbind (ok_or (HandshakeProtocol ''handshake out of order'') (re_pending self)) (\<lambda>pending.
     rbind (from_slice (confirm_codec W) confirm_bytes) (\<lambda>confirm.
       let nonce = record_nonce DIR_I2R CONFIRM_CTR;
           aad = record_aad (rp_th0 pending) CONFIRM_TYPE CONFIRM_CTR
       in rbind (aead_open L (rp_k_i2r pending) nonce aad (c_sealed confirm)) (\<lambda>inner_bytes.
          rbind (from_slice (inner_codec W) inner_bytes) (\<lambda>inner.
          rbind (fixed 64 (ci_i_sig inner)) (\<lambda>i_sig.
            let r_pub = id_public L (re_identity self);
                i_sig_msg = initiator_sig_msg L (rp_th0 pending) (pi_sign_public r_pub) (pi_kem_public r_pub)
                              (pi_sign_public (ci_i_identity inner)) (pi_kem_public (ci_i_identity inner))
            in rbind (sign_verify L (pi_sign_public (ci_i_identity inner)) i_sig_msg i_sig) (\<lambda>_.
                 let peer = \<lparr>pa_fingerprint = fingerprint L (ci_i_identity inner), pa_identity = ci_i_identity inner\<rparr>
                 in if (case re_expected_peer_fpr self of
                          Some expected \<Rightarrow> \<not> ct_eq (pa_fingerprint peer) expected
                        | None \<Rightarrow> False)
                    then Inl PeerIdentityMismatch
                    else Inr (peer, for_responder (rp_k_i2r pending) (rp_k_r2i pending) (rp_th0 pending))))))))"

subsection \<open>Layouts\<close>

lemma record_nonce_eq: "record_nonce d c = d # replicate 15 0 @ to_be_bytes c"
proof -
  have "replicate NONCE_LEN (0 :: byte) = 0 # replicate 23 0"
    unfolding NONCE_LEN_def by (simp add: numeral_eq_Suc)
  then show ?thesis by (simp add: record_nonce_def copy_at_def NONCE_LEN_def take_Cons')
qed

lemma length_record_nonce [simp]: "length (record_nonce d c) = 24"
  by (simp add: record_nonce_eq)

lemma record_nonce_inj: "record_nonce d c = record_nonce d' c' \<longleftrightarrow> d = d' \<and> c = c'"
  using be64_field.field_inj by (auto simp: record_nonce_eq)

lemma record_aad_type: "record_aad th0 a c = record_aad th0 b c \<longleftrightarrow> a = b"
  by (simp add: record_aad_def)

lemma from_byte_eq: "from_byte b = Inr ty \<longleftrightarrow> b = to_byte ty"
  by (cases ty) (auto simp: from_byte_def split: if_splits)

lemma to_byte_inj: "to_byte a = to_byte b \<longleftrightarrow> a = b"
  by (metis from_byte_eq sum.inject(2))

lemma transcript_input_inj:
  assumes "length ie = 32" "length inn = 32" "length re = 32" "length rn = 32" "length rf = 32" "length sc = 32"
    and "length ie' = 32" "length inn' = 32" "length re' = 32" "length rn' = 32" "length rf' = 32" "length sc' = 32"
    and "transcript_input v s ie inn re rn rf sc = transcript_input v' s' ie' inn' re' rn' rf' sc'"
  shows "v = v' \<and> s = s' \<and> ie = ie' \<and> inn = inn' \<and> re = re' \<and> rn = rn' \<and> rf = rf' \<and> sc = sc'"
proof -
  from assms(13) have "to_be_bytes v @ to_be_bytes s @ ie @ inn @ re @ rn @ rf @ sc
      = to_be_bytes v' @ to_be_bytes s' @ ie' @ inn' @ re' @ rn' @ rf' @ sc'"
    by (simp add: transcript_input_def Let_def)
  then have "v = v'" and r: "to_be_bytes s @ ie @ inn @ re @ rn @ rf @ sc = to_be_bytes s' @ ie' @ inn' @ re' @ rn' @ rf' @ sc'"
    using be16_field.delimited by blast+
  then have "s = s'" and "ie @ inn @ re @ rn @ rf @ sc = ie' @ inn' @ re' @ rn' @ rf' @ sc'"
    using be16_field.delimited by blast+
  with \<open>v = v'\<close> assms(1-12) show ?thesis by (simp add: append_eq_append_conv)
qed

subsection \<open>The record layer\<close>

lemma seal_record_eq:
  "seal_record L ty m s = (Inr frame, s') \<longleftrightarrow>
     (\<exists>c. length (send_key s) = 32 \<and>
        aead_encrypt L XChaCha20Poly1305 (send_key s) (record_nonce (send_dir s) (send_ctr s))
          (record_aad (s_th0 s) (to_byte ty) (send_ctr s)) m = Some c \<and>
        unat (send_ctr s) + 1 < 2 ^ 64 \<and> frame = to_byte ty # c \<and> s' = s\<lparr>send_ctr := send_ctr s + 1\<rparr>)"
  by (auto simp: seal_record_def Let_def seal_def seal_with_def cipher_def checked_add_def ok_or_def
      split: sum.splits option.splits if_splits)

lemma open_record_eq:
  "open_record L frame s = (Inr (ty, m), s') \<longleftrightarrow>
     (\<exists>c. length (recv_key s) = 32 \<and> frame = to_byte ty # c \<and>
        aead_decrypt L XChaCha20Poly1305 (recv_key s) (record_nonce (recv_dir s) (recv_ctr s))
          (record_aad (s_th0 s) (to_byte ty) (recv_ctr s)) c = Some m \<and>
        unat (recv_ctr s) + 1 < 2 ^ 64 \<and> s' = s\<lparr>recv_ctr := recv_ctr s + 1\<rparr>)"
proof (cases frame)
  case Nil
  then show ?thesis by (simp add: open_record_def)
next
  case (Cons b c)
  show ?thesis
  proof (cases "from_byte b")
    case (Inl e)
    with Cons show ?thesis using from_byte_eq [of b ty] by (auto simp: open_record_def)
  next
    case (Inr t)
    with Cons from_byte_eq [of b t] show ?thesis
      by (auto simp: open_record_def Let_def aead_open_def open_with_def cipher_def checked_add_def ok_or_def to_byte_inj
          split: sum.splits option.splits if_splits)
  qed
qed

text \<open>A session whose sending side is the other's receiving side.\<close>

definition channel :: "session \<Rightarrow> session \<Rightarrow> bool" where
  "channel a b \<longleftrightarrow>
     send_key a = recv_key b \<and> send_dir a = recv_dir b \<and> send_ctr a = recv_ctr b \<and> s_th0 a = s_th0 b"

fun seal_all :: "lib \<Rightarrow> (record_type \<times> bytes) list \<Rightarrow> (session, bytes list) op" where
  "seal_all L [] = ret []"
| "seal_all L ((ty, m) # ms) = bnd (seal_record L ty m) (\<lambda>f. bnd (seal_all L ms) (\<lambda>gs. ret (f # gs)))"

fun open_all :: "lib \<Rightarrow> bytes list \<Rightarrow> (session, (record_type \<times> bytes) list) op" where
  "open_all L [] = ret []"
| "open_all L (f # gs) = bnd (open_record L f) (\<lambda>m. bnd (open_all L gs) (\<lambda>ms. ret (m # ms)))"

lemma channel_step:
  assumes "channel a b" and "aead_correct L" and "seal_record L ty m a = (Inr f, a')"
  shows "\<exists>b'. open_record L f b = (Inr (ty, m), b') \<and> channel a' b'"
proof -
  from assms(3) obtain c where c: "length (send_key a) = 32"
    "aead_encrypt L XChaCha20Poly1305 (send_key a) (record_nonce (send_dir a) (send_ctr a))
          (record_aad (s_th0 a) (to_byte ty) (send_ctr a)) m = Some c"
    "unat (send_ctr a) + 1 < 2 ^ 64" "f = to_byte ty # c" "a' = a\<lparr>send_ctr := send_ctr a + 1\<rparr>"
    unfolding seal_record_eq by blast
  with aead_correctD(1) [OF assms(2) c(2)] assms(1) show ?thesis
    unfolding open_record_eq channel_def by auto
qed

lemma channel_run:
  "channel a b \<Longrightarrow> aead_correct L \<Longrightarrow> seal_all L ms a = (Inr gs, a') \<Longrightarrow>
     \<exists>b'. open_all L gs b = (Inr ms, b') \<and> channel a' b'"
proof (induction ms arbitrary: a b gs)
  case (Cons tm ms)
  obtain ty m where tm: "tm = (ty, m)" by force
  from Cons.prems(3) tm obtain f a1 gs1 where f: "seal_record L ty m a = (Inr f, a1)"
    and gs1: "seal_all L ms a1 = (Inr gs1, a')" "gs = f # gs1"
    by (auto simp: bnd_eq_Inr)
  from channel_step [OF Cons.prems(1,2) f] obtain b1 where b1: "open_record L f b = (Inr (ty, m), b1)" "channel a1 b1" by blast
  from Cons.IH [OF b1(2) Cons.prems(2) gs1(1)] b1(1) gs1(2) tm show ?case by auto
qed auto

text \<open>The \<open>k\<close>-th record of a run, with its nonce and associated data.\<close>

definition nonce_at :: "u8 \<Rightarrow> u64 \<Rightarrow> nat \<Rightarrow> bytes" where
  "nonce_at d c k = record_nonce d (c + of_nat k)"

definition aad_at :: "bytes \<Rightarrow> record_type \<Rightarrow> u64 \<Rightarrow> nat \<Rightarrow> bytes" where
  "aad_at th0 ty c k = record_aad th0 (to_byte ty) (c + of_nat k)"

lemma nonce_at_Suc: "nonce_at d c (Suc k) = nonce_at d (c + 1) k" "aad_at th0 ty c (Suc k) = aad_at th0 ty (c + 1) k"
  by (simp_all add: nonce_at_def aad_at_def ac_simps)

lemma unat_Suc_ctr: "unat (c :: u64) + 1 < 2 ^ 64 \<Longrightarrow> unat (c + 1) = unat c + 1"
  by (simp add: unat_word_ariths)

lemma seal_all_nth:
  "seal_all L ms s = (Inr gs, s') \<Longrightarrow>
     length gs = length ms \<and> (ms \<noteq> [] \<longrightarrow> unat (send_ctr s) + length ms < 2 ^ 64) \<and>
     (\<forall>k < length ms. \<exists>c. gs ! k = to_byte (fst (ms ! k)) # c \<and>
        aead_encrypt L XChaCha20Poly1305 (send_key s) (nonce_at (send_dir s) (send_ctr s) k)
          (aad_at (s_th0 s) (fst (ms ! k)) (send_ctr s) k) (snd (ms ! k)) = Some c)"
proof (induction ms arbitrary: s gs)
  case (Cons tm ms)
  obtain ty m where tm: "tm = (ty, m)" by force
  from Cons.prems tm obtain f s1 gs1 where f: "seal_record L ty m s = (Inr f, s1)"
    and gs1: "seal_all L ms s1 = (Inr gs1, s')" "gs = f # gs1"
    by (auto simp: bnd_eq_Inr)
  from f obtain c where c: "f = to_byte ty # c" "unat (send_ctr s) + 1 < 2 ^ 64" "s1 = s\<lparr>send_ctr := send_ctr s + 1\<rparr>"
    "aead_encrypt L XChaCha20Poly1305 (send_key s) (nonce_at (send_dir s) (send_ctr s) 0)
          (aad_at (s_th0 s) ty (send_ctr s) 0) m = Some c"
    unfolding seal_record_eq nonce_at_def aad_at_def by auto
  from Cons.IH [OF gs1(1)] c gs1(2) tm unat_Suc_ctr [OF c(2)] show ?case
    by (auto simp: all_less_Suc nonce_at_Suc)
qed simp

lemma open_all_nth:
  "open_all L gs s = (Inr ms, s') \<Longrightarrow>
     length ms = length gs \<and> (ms \<noteq> [] \<longrightarrow> unat (recv_ctr s) + length ms < 2 ^ 64) \<and>
     (\<forall>k < length ms. \<exists>c. gs ! k = to_byte (fst (ms ! k)) # c \<and>
        aead_decrypt L XChaCha20Poly1305 (recv_key s) (nonce_at (recv_dir s) (recv_ctr s) k)
          (aad_at (s_th0 s) (fst (ms ! k)) (recv_ctr s) k) c = Some (snd (ms ! k)))"
proof (induction gs arbitrary: s ms)
  case (Cons f gs)
  from Cons.prems obtain ty m s1 ms' where f: "open_record L f s = (Inr (ty, m), s1)"
    and ms': "open_all L gs s1 = (Inr ms', s')" "ms = (ty, m) # ms'"
    by (auto simp: bnd_eq_Inr)
  from f obtain c where c: "f = to_byte ty # c" "unat (recv_ctr s) + 1 < 2 ^ 64" "s1 = s\<lparr>recv_ctr := recv_ctr s + 1\<rparr>"
    "aead_decrypt L XChaCha20Poly1305 (recv_key s) (nonce_at (recv_dir s) (recv_ctr s) 0)
          (aad_at (s_th0 s) ty (recv_ctr s) 0) c = Some m"
    unfolding open_record_eq nonce_at_def aad_at_def by auto
  from Cons.IH [OF ms'(1)] c ms'(2) unat_Suc_ctr [OF c(2)] show ?case
    by (auto simp: all_less_Suc nonce_at_Suc)
qed simp

lemma ctr_inj:
  assumes "unat (c :: u64) + j < 2 ^ 64" and "unat c + k < 2 ^ 64" and "c + of_nat j = c + of_nat k"
  shows "j = k"
proof -
  have "(of_nat j :: u64) = of_nat k" using assms(3) by simp
  then have "unat (of_nat j :: u64) = unat (of_nat k :: u64)" by simp
  with assms(1,2) show ?thesis by (simp add: unat_of_nat)
qed

subsection \<open>The responder's gate\<close>

definition hello_tag_ok :: "lib \<Rightarrow> responder \<Rightarrow> hello_msg \<Rightarrow> bool" where
  "hello_tag_ok L self hello \<longleftrightarrow>
     h_magic hello = MAGIC \<and> h_version hello = PROTO_VERSION \<and> h_suite hello = SUITE_CLASSIC \<and>
     h_i_psk_tag hello
       = hello_proof L (re_k_psk self) PROTO_VERSION SUITE_CLASSIC (h_i_ephemeral hello) (h_i_nonce hello)"

text \<open>What the responder answers with once the gate is passed.\<close>

definition responder_th0 :: "lib \<Rightarrow> responder \<Rightarrow> hello_msg \<Rightarrow> bytes" where
  "responder_th0 L self hello =
     transcript0 L PROTO_VERSION SUITE_CLASSIC (h_i_ephemeral hello) (h_i_nonce hello)
       (x25519_public L (re_ephemeral self)) (re_nonce self)
       (id_fingerprint L (re_identity self)) (re_secret_commit self)"

definition responder_auth :: "lib \<Rightarrow> responder \<Rightarrow> bytes \<Rightarrow> auth_msg" where
  "responder_auth L self th0 =
     \<lparr>a_r_ephemeral = x25519_public L (re_ephemeral self), a_r_nonce = re_nonce self,
      a_r_identity = id_public L (re_identity self),
      a_r_sig = id_sign_message L (re_identity self)
        (responder_sig_msg L th0 (ed25519_public L (id_sign (re_identity self))) (x25519_public L (id_kem (re_identity self))))\<rparr>"

definition finish_auth :: "lib \<Rightarrow> wire \<Rightarrow> responder \<Rightarrow> hello_msg \<Rightarrow> (responder \<times> hello_replay_cache, bytes) op" where
  "finish_auth L W self hello =
     (let th0 = responder_th0 L self hello in
      bnd (lift (kem_agree L (re_ephemeral self) (h_i_ephemeral hello))) (\<lambda>ee_dh.
      bnd (lift (to_vec (auth_codec W) (responder_auth L self th0))) (\<lambda>auth_bytes.
      bnd (modify (map_prod (re_pending_update (\<lambda>_. Some
             \<lparr>rp_th0 = th0, rp_k_i2r = fst (derive_session_keys L ee_dh th0),
              rp_k_r2i = snd (derive_session_keys L ee_dh th0)\<rparr>)) id)) (\<lambda>_.
      ret auth_bytes))))"

lemma read_hello_steps:
  "read_hello_write_auth L W hb (self, cache) =
     (case from_slice (hello_codec W) hb of
        Inl e \<Rightarrow> (Inl e, (self, cache))
      | Inr hello \<Rightarrow>
          if h_magic hello \<noteq> MAGIC then (Inl (HandshakeProtocol ''not a FileSec transfer handshake''), (self, cache))
          else if h_version hello \<noteq> PROTO_VERSION then (Inl (HandshakeProtocol ''unsupported handshake version''), (self, cache))
          else if h_suite hello \<noteq> SUITE_CLASSIC then (Inl (HandshakeProtocol ''unsupported handshake suite''), (self, cache))
          else if \<not> hello_tag_ok L self hello then (Inl TransferSecretMismatch, (self, cache))
          else bnd (if re_uses_cache self then on_cache (admit (h_i_psk_tag hello)) else ret ())
                 (\<lambda>_. finish_auth L W self hello) (self, cache))"
  by (auto simp: read_hello_write_auth_def hello_tag_ok_def finish_auth_def responder_th0_def responder_auth_def
      bnd_def Let_def case_prod_unfold split: sum.splits)

lemma finish_auth_cache:
  "finish_auth L W self hello (self0, cache) = (r, (self', cache')) \<Longrightarrow>
     cache' = cache \<and> (\<forall>e. r = Inl e \<longrightarrow> self' = self0)"
  by (auto simp: finish_auth_def Let_def bnd_eq)

lemma on_cache_admit:
  "on_cache (admit t) (self, cache) = (r, (self', cache')) \<Longrightarrow>
     self' = self \<and>
     (r = Inr () \<and> t \<notin> hrc_seen cache \<and> card (hrc_seen cache) < hrc_capacity cache \<and>
        cache' = cache\<lparr>hrc_seen := insert t (hrc_seen cache)\<rparr> \<or>
      (\<exists>e. r = Inl e) \<and> cache' = cache)"
  by (auto simp: on_cache_def admit_def split: if_splits)

lemma read_hello_outcome:
  assumes "read_hello_write_auth L W hb (self, cache) = (r, (self', cache'))" and "re_uses_cache self"
  shows "(\<exists>e. r = Inl e \<and> self' = self \<and> (cache' = cache \<or>
            (\<exists>t. t \<notin> hrc_seen cache \<and> card (hrc_seen cache) < hrc_capacity cache \<and>
                 cache' = cache\<lparr>hrc_seen := insert t (hrc_seen cache)\<rparr>))) \<or>
         (\<exists>a hello. r = Inr a \<and> from_slice (hello_codec W) hb = Inr hello \<and> hello_tag_ok L self hello \<and>
            h_i_psk_tag hello \<notin> hrc_seen cache \<and> card (hrc_seen cache) < hrc_capacity cache \<and>
            cache' = cache\<lparr>hrc_seen := insert (h_i_psk_tag hello) (hrc_seen cache)\<rparr>)"
proof (cases "\<exists>hello. from_slice (hello_codec W) hb = Inr hello \<and> hello_tag_ok L self hello")
  case False
  with assms(1) show ?thesis
    unfolding read_hello_steps by (auto simp: hello_tag_ok_def split: sum.splits if_splits)
next
  case True
  then obtain hello where h: "from_slice (hello_codec W) hb = Inr hello" "hello_tag_ok L self hello" by blast
  then have run: "bnd (on_cache (admit (h_i_psk_tag hello))) (\<lambda>_. finish_auth L W self hello) (self, cache) = (r, (self', cache'))"
    using assms unfolding read_hello_steps by (simp add: hello_tag_ok_def)
  obtain q self1 cache1 where q: "on_cache (admit (h_i_psk_tag hello)) (self, cache) = (q, (self1, cache1))"
    by (metis prod.exhaust)
  note ad = on_cache_admit [OF q]
  show ?thesis
  proof (cases q)
    case (Inl e)
    with run q ad show ?thesis by auto
  next
    case (Inr u)
    with run q have fin: "finish_auth L W self hello (self1, cache1) = (r, (self', cache'))" by simp
    from finish_auth_cache [OF fin] ad Inr h show ?thesis by (cases r) auto
  qed
qed

text \<open>A listener: its responders, one per connection, share the cache.\<close>

fun listen :: "lib \<Rightarrow> wire \<Rightarrow> (responder \<times> bytes) list \<Rightarrow> hello_replay_cache \<Rightarrow> bytes result list \<times> hello_replay_cache" where
  "listen L W [] cache = ([], cache)"
| "listen L W ((self, hb) # rest) cache =
     (case read_hello_write_auth L W hb (with_replay_cache self, cache) of
        (r, (_, cache')) \<Rightarrow> (case listen L W rest cache' of (rs, cache'') \<Rightarrow> (r # rs, cache'')))"

text \<open>What the cache knows after a listening session.\<close>

definition answered_tag :: "wire \<Rightarrow> bytes \<Rightarrow> bytes" where
  "answered_tag W hb = (case from_slice (hello_codec W) hb of Inr hello \<Rightarrow> h_i_psk_tag hello | Inl _ \<Rightarrow> [])"

lemma listen_answers:
  assumes "listen L W cs cache = (rs, cache')" and "finite (hrc_seen cache)"
    and "card (hrc_seen cache) \<le> hrc_capacity cache"
  shows "length rs = length cs \<and> hrc_seen cache \<subseteq> hrc_seen cache' \<and> finite (hrc_seen cache') \<and>
    hrc_capacity cache' = hrc_capacity cache \<and> card (hrc_seen cache') \<le> hrc_capacity cache \<and>
    card (hrc_seen cache) + length (filter is_ok rs) \<le> card (hrc_seen cache') \<and>
    (\<forall>i < length cs. is_ok (rs ! i) \<longrightarrow> answered_tag W (snd (cs ! i)) \<in> hrc_seen cache' - hrc_seen cache) \<and>
    (\<forall>i j. i < j \<longrightarrow> j < length cs \<longrightarrow> is_ok (rs ! i) \<longrightarrow> is_ok (rs ! j) \<longrightarrow>
        answered_tag W (snd (cs ! i)) \<noteq> answered_tag W (snd (cs ! j)))"
  using assms
proof (induction cs arbitrary: cache rs)
  case Nil
  then show ?case by simp
next
  case (Cons c cs)
  obtain self hb where c: "c = (self, hb)" by force
  obtain r self1 cache1 where s: "read_hello_write_auth L W hb (with_replay_cache self, cache) = (r, (self1, cache1))"
    by (metis prod.exhaust)
  obtain rs1 cache2 where l: "listen L W cs cache1 = (rs1, cache2)" by force
  have rs: "rs = r # rs1" "cache' = cache2" using Cons.prems(1) c s l by auto
  have out: "(\<exists>e. r = Inl e) \<and> (cache1 = cache \<or>
            (\<exists>t. t \<notin> hrc_seen cache \<and> card (hrc_seen cache) < hrc_capacity cache \<and>
                 cache1 = cache\<lparr>hrc_seen := insert t (hrc_seen cache)\<rparr>)) \<or>
         is_ok r \<and> answered_tag W hb \<notin> hrc_seen cache \<and> card (hrc_seen cache) < hrc_capacity cache \<and>
            cache1 = cache\<lparr>hrc_seen := insert (answered_tag W hb) (hrc_seen cache)\<rparr>"
    using read_hello_outcome [OF s] by (auto simp: with_replay_cache_def answered_tag_def)
  have inv: "finite (hrc_seen cache1)" "card (hrc_seen cache1) \<le> hrc_capacity cache1"
    "hrc_seen cache \<subseteq> hrc_seen cache1" "hrc_capacity cache1 = hrc_capacity cache"
    "card (hrc_seen cache) + (if is_ok r then 1 else 0) \<le> card (hrc_seen cache1)"
    and here: "is_ok r \<Longrightarrow> answered_tag W hb \<in> hrc_seen cache1 - hrc_seen cache"
    using out Cons.prems(2,3) by auto
  note IH = Cons.IH [OF l [folded rs(2)] inv(1,2)]
  have first: "answered_tag W hb \<noteq> answered_tag W (snd (cs ! j))"
    if "is_ok r" "j < length cs" "is_ok (rs1 ! j)" for j
    using IH that here by auto
  have pairs: "answered_tag W (snd ((c # cs) ! i)) \<noteq> answered_tag W (snd ((c # cs) ! j))"
    if "i < j" "j < length (c # cs)" "is_ok (rs ! i)" "is_ok (rs ! j)" for i j
    using that first IH c rs by (cases i; cases j) auto
  have each: "answered_tag W (snd ((c # cs) ! i)) \<in> hrc_seen cache' - hrc_seen cache"
    if "i < length (c # cs)" "is_ok (rs ! i)" for i
    using that here IH inv(3) c rs by (cases i) auto
  show ?case using IH inv each pairs rs by auto
qed

lemma listen_proves:
  "listen L W cs cache = (rs, cache') \<Longrightarrow> i < length cs \<Longrightarrow> is_ok (rs ! i) \<Longrightarrow>
     \<exists>hello. from_slice (hello_codec W) (snd (cs ! i)) = Inr hello \<and> hello_tag_ok L (fst (cs ! i)) hello"
proof (induction cs arbitrary: cache rs i)
  case (Cons c cs)
  obtain self hb where c: "c = (self, hb)" by force
  obtain r self1 cache1 where s: "read_hello_write_auth L W hb (with_replay_cache self, cache) = (r, (self1, cache1))"
    by (metis prod.exhaust)
  obtain rs1 cache2 where l: "listen L W cs cache1 = (rs1, cache2)" by force
  have rs: "rs = r # rs1" "cache' = cache2" using Cons.prems(1) c s l by auto
  show ?case
  proof (cases i)
    case 0
    with Cons.prems(3) rs read_hello_outcome [OF s] c show ?thesis
      by (auto simp: with_replay_cache_def hello_tag_ok_def)
  next
    case (Suc j)
    with Cons.IH [OF l [folded rs(2)], of j] Cons.prems(2,3) rs show ?thesis by simp
  qed
qed simp

subsection \<open>An honest run\<close>

text \<open>The values of the message types: arrays of their declared sizes, times in 64 bits.\<close>

definition hello_typed :: "hello_msg \<Rightarrow> bool" where
  "hello_typed m \<longleftrightarrow> length (h_magic m) = 8 \<and> length (h_i_ephemeral m) = 32 \<and> length (h_i_nonce m) = 32 \<and> length (h_i_psk_tag m) = 32"

definition auth_typed :: "auth_msg \<Rightarrow> bool" where
  "auth_typed m \<longleftrightarrow> length (a_r_ephemeral m) = 32 \<and> length (a_r_nonce m) = 32 \<and> public_typed (a_r_identity m)"

definition inner_typed :: "confirm_inner \<Rightarrow> bool" where
  "inner_typed m \<longleftrightarrow> public_typed (ci_i_identity m)"

definition wire_ok :: "wire \<Rightarrow> bool" where
  "wire_ok W \<longleftrightarrow>
     codec_ok hello_typed (hello_codec W) \<and> codec_ok auth_typed (auth_codec W) \<and>
     codec_ok (\<lambda>_. True) (confirm_codec W) \<and> codec_ok inner_typed (inner_codec W)"

lemma wire_okD:
  assumes "wire_ok W"
  shows "codec_ok hello_typed (hello_codec W)" "codec_ok auth_typed (auth_codec W)"
    "codec_ok (\<lambda>_. True) (confirm_codec W)" "codec_ok inner_typed (inner_codec W)"
  using assms by (simp_all add: wire_ok_def)

text \<open>The two parties as they are created with the same transfer secret, the initiator
  expecting the responder.\<close>

definition paired :: "lib \<Rightarrow> initiator \<Rightarrow> responder \<Rightarrow> bool" where
  "paired L i r \<longleftrightarrow>
     in_k_psk i = re_k_psk r \<and> in_secret_commit i = re_secret_commit r \<and>
     in_expected_peer_fpr i = id_fingerprint L (re_identity r) \<and>
     (\<forall>f. re_expected_peer_fpr r = Some f \<longrightarrow> f = id_fingerprint L (in_identity i)) \<and>
     length (in_nonce i) = 32 \<and> length (re_nonce r) = 32 \<and>
     public_typed (id_public L (in_identity i)) \<and> public_typed (id_public L (re_identity r))"

lemma new_paired:
  assumes "initiator_new L ii (id_fingerprint L ri) secret w = (Inr i, w1)" and "rng_fills w"
    and "responder_new L ri secret expected w2 = (Inr r, w3)" and "rng_fills w2"
    and "expected \<in> {None, Some (id_fingerprint L ii)}"
    and "public_typed (id_public L ii)" and "public_typed (id_public L ri)"
  shows "paired L i (with_replay_cache r)" "re_uses_cache (with_replay_cache r)"
  using assms
  by (auto simp: initiator_new_def responder_new_def bnd_eq_Inr paired_def with_replay_cache_def Let_def random_array_def
      split: if_splits)
     (metis getrandom_length getrandom_fills)+

definition initiator_hello :: "lib \<Rightarrow> initiator \<Rightarrow> hello_msg" where
  "initiator_hello L i =
     \<lparr>h_magic = MAGIC, h_version = PROTO_VERSION, h_suite = SUITE_CLASSIC,
      h_i_ephemeral = x25519_public L (in_ephemeral i), h_i_nonce = in_nonce i,
      h_i_psk_tag = hello_proof L (in_k_psk i) PROTO_VERSION SUITE_CLASSIC (x25519_public L (in_ephemeral i)) (in_nonce i)\<rparr>"

lemma write_hello_eq: "write_hello L W i = to_vec (hello_codec W) (initiator_hello L i)"
  by (simp add: write_hello_def initiator_hello_def Let_def)

text \<open>The keys both sides compute.\<close>

definition run_th0 :: "lib \<Rightarrow> initiator \<Rightarrow> responder \<Rightarrow> bytes" where
  "run_th0 L i r = responder_th0 L r (initiator_hello L i)"

definition run_keys :: "lib \<Rightarrow> initiator \<Rightarrow> responder \<Rightarrow> bytes \<times> bytes" where
  "run_keys L i r =
     derive_session_keys L (x25519_dh L (in_ephemeral i) (x25519_public L (re_ephemeral r))) (run_th0 L i r)"

definition answered :: "lib \<Rightarrow> initiator \<Rightarrow> responder \<Rightarrow> responder" where
  "answered L i r = r\<lparr>re_pending := Some
     \<lparr>rp_th0 = run_th0 L i r, rp_k_i2r = fst (run_keys L i r), rp_k_r2i = snd (run_keys L i r)\<rparr>\<rparr>"

lemma initiator_hello_typed:
  assumes "paired L i r" and "x25519_spec L" and "blake3_lengths L"
  shows "hello_typed (initiator_hello L i)"
  using assms blake3_lengthsD(2) [OF assms(3)]
  by (simp add: hello_typed_def initiator_hello_def paired_def x25519_spec_def MAGIC_def hello_proof_def as_bytes_def)

lemma responder_auth_typed:
  assumes "paired L i r" and "x25519_spec L"
  shows "auth_typed (responder_auth L r th0)"
  using assms by (simp add: auth_typed_def responder_auth_def paired_def x25519_spec_def)

lemma responder_answers:
  assumes "paired L i r" and "wire_ok W" and "x25519_spec L" and "blake3_lengths L" and "write_hello L W i = Inr hb"
    and "x25519_contributory L (x25519_dh L (in_ephemeral i) (x25519_public L (re_ephemeral r)))"
    and "re_uses_cache r" and "h_i_psk_tag (initiator_hello L i) \<notin> hrc_seen cache"
    and "card (hrc_seen cache) < hrc_capacity cache"
  shows "\<exists>ab cache'. read_hello_write_auth L W hb (r, cache) = (Inr ab, (answered L i r, cache')) \<and>
           to_vec (auth_codec W) (responder_auth L r (run_th0 L i r)) = Inr ab"
proof -
  let ?h = "initiator_hello L i"
  have hello: "from_slice (hello_codec W) hb = Inr ?h"
    using from_slice_to_vec [OF wire_okD(1) [OF assms(2)] initiator_hello_typed [OF assms(1,3,4)]] assms(5)
    by (simp add: write_hello_eq)
  have tag: "hello_tag_ok L r ?h"
    using assms(1) by (simp add: hello_tag_ok_def initiator_hello_def paired_def)
  have h: "h_magic ?h = MAGIC" "h_version ?h = PROTO_VERSION" "h_suite ?h = SUITE_CLASSIC"
    by (simp_all add: initiator_hello_def)
  have "x25519_dh L (re_ephemeral r) (h_i_ephemeral ?h) = x25519_dh L (in_ephemeral i) (x25519_public L (re_ephemeral r))"
    using assms(3) unfolding x25519_spec_def by (simp add: initiator_hello_def)
  then have dh: "kem_agree L (re_ephemeral r) (h_i_ephemeral ?h)
      = Inr (x25519_dh L (in_ephemeral i) (x25519_public L (re_ephemeral r)))"
    using assms(6) by (simp add: kem_agree_def)
  obtain ab where ab: "to_vec (auth_codec W) (responder_auth L r (run_th0 L i r)) = Inr ab"
    using to_vec_total [OF wire_okD(2) [OF assms(2)] responder_auth_typed [OF assms(1,3)]] by blast
  have admitted: "on_cache (admit (h_i_psk_tag ?h)) (r, cache)
      = (Inr (), (r, cache\<lparr>hrc_seen := insert (h_i_psk_tag ?h) (hrc_seen cache)\<rparr>))"
    using assms(8,9) by (simp add: on_cache_def admit_def)
  have fin: "finish_auth L W r ?h (r, c) = (Inr ab, (answered L i r, c))" for c
    using dh ab unfolding finish_auth_def run_th0_def [symmetric] answered_def run_keys_def by (simp add: Let_def)
  have "read_hello_write_auth L W hb (r, cache)
      = bnd (on_cache (admit (h_i_psk_tag ?h))) (\<lambda>_. finish_auth L W r ?h) (r, cache)"
    unfolding read_hello_steps using hello h tag assms(7) by simp
  also have "\<dots> = (Inr ab, (answered L i r, cache\<lparr>hrc_seen := insert (h_i_psk_tag ?h) (hrc_seen cache)\<rparr>))"
    using admitted fin by simp
  finally show ?thesis using ab by blast
qed

lemma initiator_confirms:
  assumes "paired L i r" and "wire_ok W" and "ed25519_spec L" and "aead_total L" and "blake3_lengths L"
    and "x25519_spec L"
    and "x25519_contributory L (x25519_dh L (in_ephemeral i) (x25519_public L (re_ephemeral r)))"
    and "to_vec (auth_codec W) (responder_auth L r (run_th0 L i r)) = Inr ab"
    and "\<forall>sig b. length sig = 64 \<and> enc (inner_codec W) \<lparr>ci_i_identity = id_public L (in_identity i), ci_i_sig = sig\<rparr> = Some b
           \<longrightarrow> length b < 2 ^ 32"
  shows "\<exists>cb sealed inner_bytes. read_auth_write_confirm L W i ab
        = Inr (cb, for_initiator (fst (run_keys L i r)) (snd (run_keys L i r)) (run_th0 L i r)) \<and>
      to_vec (confirm_codec W) \<lparr>c_sealed = sealed\<rparr> = Inr cb \<and>
      seal L (fst (run_keys L i r)) (record_nonce DIR_I2R CONFIRM_CTR) (record_aad (run_th0 L i r) CONFIRM_TYPE CONFIRM_CTR) inner_bytes = Inr sealed \<and>
      to_vec (inner_codec W) \<lparr>ci_i_identity = id_public L (in_identity i),
         ci_i_sig = id_sign_message L (in_identity i) (initiator_sig_msg L (run_th0 L i r)
           (ed25519_public L (id_sign (re_identity r))) (x25519_public L (id_kem (re_identity r)))
           (ed25519_public L (id_sign (in_identity i))) (x25519_public L (id_kem (in_identity i))))\<rparr> = Inr inner_bytes"
proof -
  let ?inner = "\<lparr>ci_i_identity = id_public L (in_identity i),
         ci_i_sig = id_sign_message L (in_identity i) (initiator_sig_msg L (run_th0 L i r)
           (ed25519_public L (id_sign (re_identity r))) (x25519_public L (id_kem (re_identity r)))
           (ed25519_public L (id_sign (in_identity i))) (x25519_public L (id_kem (in_identity i))))\<rparr> :: confirm_inner"
  have auth: "from_slice (auth_codec W) ab = Inr (responder_auth L r (run_th0 L i r))"
    by (rule from_slice_to_vec [OF wire_okD(2) [OF assms(2)] responder_auth_typed [OF assms(1,6)] assms(8)])
  have "inner_typed ?inner" using assms(1) by (simp add: inner_typed_def paired_def)
  then obtain ib where ib: "to_vec (inner_codec W) ?inner = Inr ib"
    using to_vec_total [OF wire_okD(4) [OF assms(2)]] by blast
  then have len: "length ib < 2 ^ 32"
    using assms(3,9) by (auto simp: to_vec_def result_simps id_sign_message_def ed25519_spec_def)
  have k: "length (fst (run_keys L i r)) = 32"
    using blake3_lengthsD(3) [OF assms(5)] by (simp add: run_keys_def derive_session_keys_def derive_subkey_def Let_def)
  obtain sealed where sealed: "seal L (fst (run_keys L i r)) (record_nonce DIR_I2R CONFIRM_CTR)
      (record_aad (run_th0 L i r) CONFIRM_TYPE CONFIRM_CTR) ib = Inr sealed"
    using aead_totalD [OF assms(4) k, of "record_nonce DIR_I2R CONFIRM_CTR" XChaCha20Poly1305 ib
      "record_aad (run_th0 L i r) CONFIRM_TYPE CONFIRM_CTR"] len k
    by (auto simp: seal_def seal_with_def cipher_def)
  obtain cb where cb: "to_vec (confirm_codec W) \<lparr>c_sealed = sealed\<rparr> = Inr cb"
    using to_vec_total [OF wire_okD(3) [OF assms(2)]] by blast
  have th0: "transcript0 L PROTO_VERSION SUITE_CLASSIC (x25519_public L (in_ephemeral i)) (in_nonce i)
      (x25519_public L (re_ephemeral r)) (re_nonce r) (in_expected_peer_fpr i) (in_secret_commit i) = run_th0 L i r"
    using assms(1) by (simp add: run_th0_def responder_th0_def initiator_hello_def paired_def)
  have sig: "sign_verify L (ed25519_public L (id_sign (re_identity r))) (responder_sig_msg L (run_th0 L i r)
        (ed25519_public L (id_sign (re_identity r))) (x25519_public L (id_kem (re_identity r))))
        (a_r_sig (responder_auth L r (run_th0 L i r))) = Inr ()"
    using assms(3) by (simp add: responder_auth_def id_sign_message_def sign_verify_sign)
  have dh: "kem_agree L (in_ephemeral i) (x25519_public L (re_ephemeral r))
      = Inr (x25519_dh L (in_ephemeral i) (x25519_public L (re_ephemeral r)))"
    using assms(7) by (simp add: kem_agree_def)
  have fpr: "fingerprint L (id_public L (re_identity r)) = in_expected_peer_fpr i"
    using assms(1) by (simp add: paired_def id_fingerprint_def)
  have siglen: "length (a_r_sig (responder_auth L r (run_th0 L i r))) = 64"
    using assms(3) by (simp add: responder_auth_def id_sign_message_def ed25519_spec_def)
  have fields: "a_r_ephemeral (responder_auth L r t) = x25519_public L (re_ephemeral r)"
    "a_r_nonce (responder_auth L r t) = re_nonce r" "a_r_identity (responder_auth L r t) = id_public L (re_identity r)" for t
    by (simp_all add: responder_auth_def)
  have "read_auth_write_confirm L W i ab
        = Inr (cb, for_initiator (fst (run_keys L i r)) (snd (run_keys L i r)) (run_th0 L i r))"
    using auth siglen th0 fpr sig dh ib sealed cb
    by (simp add: read_auth_write_confirm_def fixed_def fields Let_def case_prod_unfold run_keys_def [symmetric])
  with ib sealed cb show ?thesis by blast
qed

lemma responder_accepts:
  assumes "paired L i r" and "wire_ok W" and "ed25519_spec L" and "aead_correct L"
    and "to_vec (confirm_codec W) \<lparr>c_sealed = sealed\<rparr> = Inr cb"
    and "seal L (fst (run_keys L i r)) (record_nonce DIR_I2R CONFIRM_CTR)
           (record_aad (run_th0 L i r) CONFIRM_TYPE CONFIRM_CTR) ib = Inr sealed"
    and "to_vec (inner_codec W) \<lparr>ci_i_identity = id_public L (in_identity i),
         ci_i_sig = id_sign_message L (in_identity i) (initiator_sig_msg L (run_th0 L i r)
           (ed25519_public L (id_sign (re_identity r))) (x25519_public L (id_kem (re_identity r)))
           (ed25519_public L (id_sign (in_identity i))) (x25519_public L (id_kem (in_identity i))))\<rparr> = Inr ib"
  shows "read_confirm L W (answered L i r) cb
      = Inr (\<lparr>pa_fingerprint = id_fingerprint L (in_identity i), pa_identity = id_public L (in_identity i)\<rparr>,
             for_responder (fst (run_keys L i r)) (snd (run_keys L i r)) (run_th0 L i r))"
proof -
  have c: "from_slice (confirm_codec W) cb = Inr \<lparr>c_sealed = sealed\<rparr>"
    by (rule from_slice_to_vec [OF wire_okD(3) [OF assms(2)] TrueI assms(5)])
  note inner = from_slice_to_vec [OF wire_okD(4) [OF assms(2)] _ assms(7)]
  note opened = seal_open [OF assms(4,6)]
  have "length (id_sign_message L (in_identity i) m) = 64" for m
    using assms(3) by (simp add: id_sign_message_def ed25519_spec_def)
  then show ?thesis using c inner opened assms(1,3) inner_typed_def
    by (auto simp: read_confirm_def answered_def Let_def fixed_def id_sign_message_def sign_verify_sign
        id_fingerprint_def paired_def split: option.splits)
qed

subsection \<open>Acceptance\<close>

text \<open>What a party has checked when it holds a session.\<close>

lemma read_auth_accepts:
  assumes "read_auth_write_confirm L W i ab = Inr (cb, s)"
  shows "\<exists>auth ee. from_slice (auth_codec W) ab = Inr auth \<and>
     fingerprint L (a_r_identity auth) = in_expected_peer_fpr i \<and>
     s_th0 s = transcript0 L PROTO_VERSION SUITE_CLASSIC (x25519_public L (in_ephemeral i)) (in_nonce i)
        (a_r_ephemeral auth) (a_r_nonce auth) (in_expected_peer_fpr i) (in_secret_commit i) \<and>
     ed25519_verify_strict L (pi_sign_public (a_r_identity auth))
        (responder_sig_msg L (s_th0 s) (pi_sign_public (a_r_identity auth)) (pi_kem_public (a_r_identity auth))) (a_r_sig auth) \<and>
     kem_agree L (in_ephemeral i) (a_r_ephemeral auth) = Inr ee \<and>
     s = for_initiator (fst (derive_session_keys L ee (s_th0 s))) (snd (derive_session_keys L ee (s_th0 s))) (s_th0 s)"
  using assms
  by (auto simp: read_auth_write_confirm_def result_simps Let_def fixed_def is_ok_def sign_verify_def for_initiator_def
      case_prod_unfold split: if_splits sum.splits)

lemma read_confirm_accepts:
  assumes "read_confirm L W r cb = Inr (peer, s)"
  shows "\<exists>p confirm ib inner. re_pending r = Some p \<and> from_slice (confirm_codec W) cb = Inr confirm \<and>
     aead_open L (rp_k_i2r p) (record_nonce DIR_I2R CONFIRM_CTR) (record_aad (rp_th0 p) CONFIRM_TYPE CONFIRM_CTR) (c_sealed confirm) = Inr ib \<and>
     from_slice (inner_codec W) ib = Inr inner \<and> pa_identity peer = ci_i_identity inner \<and>
     pa_fingerprint peer = fingerprint L (pa_identity peer) \<and>
     (\<forall>f. re_expected_peer_fpr r = Some f \<longrightarrow> f = pa_fingerprint peer) \<and>
     ed25519_verify_strict L (pi_sign_public (pa_identity peer))
        (initiator_sig_msg L (rp_th0 p) (ed25519_public L (id_sign (re_identity r))) (x25519_public L (id_kem (re_identity r)))
           (pi_sign_public (pa_identity peer)) (pi_kem_public (pa_identity peer))) (ci_i_sig inner) \<and>
     s = for_responder (rp_k_i2r p) (rp_k_r2i p) (rp_th0 p)"
  using assms
  by (auto simp: read_confirm_def result_simps Let_def fixed_def sign_verify_def split: if_splits option.splits)

lemma read_hello_pending:
  assumes "read_hello_write_auth L W hb (r, cache) = (Inr ab, (r', cache'))"
  shows "\<exists>hello p. from_slice (hello_codec W) hb = Inr hello \<and> hello_tag_ok L r hello \<and>
     re_pending r' = Some p \<and> rp_th0 p = responder_th0 L r hello"
proof -
  from assms obtain hello where h: "from_slice (hello_codec W) hb = Inr hello" "hello_tag_ok L r hello"
    and run: "bnd (if re_uses_cache r then on_cache (admit (h_i_psk_tag hello)) else ret ())
                 (\<lambda>_. finish_auth L W r hello) (r, cache) = (Inr ab, (r', cache'))"
    unfolding read_hello_steps by (auto split: sum.splits if_splits)
  from run obtain r1 c1 where "finish_auth L W r hello (r1, c1) = (Inr ab, (r', cache'))"
    unfolding bnd_eq_Inr by (metis prod.exhaust)
  then have "\<exists>p. re_pending r' = Some p \<and> rp_th0 p = responder_th0 L r hello"
    by (auto simp: finish_auth_def Let_def bnd_eq_Inr)
  with h show ?thesis by blast
qed

subsection \<open>A record stream goes through\<close>

lemma seal_record_total:
  assumes "aead_total L" and "length (send_key s) = 32" and "length m < 2 ^ 32" and "unat (send_ctr s) + 1 < 2 ^ 64"
  shows "\<exists>f. seal_record L ty m s = (Inr f, s\<lparr>send_ctr := send_ctr s + 1\<rparr>)"
  using aead_totalD [OF assms(1,2), of "record_nonce (send_dir s) (send_ctr s)" XChaCha20Poly1305 m] assms(2-4)
  unfolding seal_record_eq by auto

lemma seal_all_total:
  assumes "aead_total L"
  shows "length (send_key s) = 32 \<Longrightarrow> \<forall>(ty, m) \<in> set ms. length m < 2 ^ 32 \<Longrightarrow>
    unat (send_ctr s) + length ms < 2 ^ 64 \<Longrightarrow> \<exists>gs s'. seal_all L ms s = (Inr gs, s')"
proof (induction ms arbitrary: s)
  case (Cons tm ms)
  obtain ty m where tm: "tm = (ty, m)" by force
  let ?s = "s\<lparr>send_ctr := send_ctr s + 1\<rparr>"
  have c: "unat (send_ctr s) + 1 < 2 ^ 64" using Cons.prems(3) by simp
  then obtain f where f: "seal_record L ty m s = (Inr f, ?s)"
    using seal_record_total [OF assms Cons.prems(1) _ c, of m ty] Cons.prems(2) tm that by auto
  have "\<exists>gs s'. seal_all L ms ?s = (Inr gs, s')"
    using Cons.IH [of ?s] Cons.prems unat_Suc_ctr [OF c] by auto
  with f tm show ?case by auto
qed simp

subsection \<open>Records that were not sent\<close>

text \<open>A frame accepted at position \<open>k\<close> whose ciphertext was never sealed under its nonce and
  associated data: what an AEAD is supposed to make infeasible.\<close>

definition record_forgery :: "lib \<Rightarrow> session \<Rightarrow> (record_type \<times> bytes) list \<Rightarrow> bytes list \<Rightarrow> nat \<Rightarrow> record_type \<Rightarrow> bytes \<Rightarrow> bool" where
  "record_forgery L a ms sent k ty c \<longleftrightarrow>
     aead_decrypt L XChaCha20Poly1305 (send_key a) (nonce_at (send_dir a) (send_ctr a) k)
       (aad_at (s_th0 a) ty (send_ctr a) k) c \<noteq> None \<and>
     (\<forall>j < length sent. (nonce_at (send_dir a) (send_ctr a) j, aad_at (s_th0 a) (fst (ms ! j)) (send_ctr a) j, tl (sent ! j))
        \<noteq> (nonce_at (send_dir a) (send_ctr a) k, aad_at (s_th0 a) ty (send_ctr a) k, c))"

lemma accepted_was_sent:
  assumes "channel a b" and "aead_correct L" and "seal_all L ms a = (Inr sent, a')"
    and "open_all L received b = (Inr got, b')" and k: "k < length received" and "k < length sent" and "received ! k = sent ! k"
  shows "got ! k = ms ! k"
proof -
  from seal_all_nth [OF assms(3)] k assms(6) obtain c where c: "sent ! k = to_byte (fst (ms ! k)) # c"
    "aead_encrypt L XChaCha20Poly1305 (send_key a) (nonce_at (send_dir a) (send_ctr a) k)
          (aad_at (s_th0 a) (fst (ms ! k)) (send_ctr a) k) (snd (ms ! k)) = Some c" by metis
  from open_all_nth [OF assms(4)] k obtain d where d: "received ! k = to_byte (fst (got ! k)) # d"
    "aead_decrypt L XChaCha20Poly1305 (recv_key b) (nonce_at (recv_dir b) (recv_ctr b) k)
          (aad_at (s_th0 b) (fst (got ! k)) (recv_ctr b) k) d = Some (snd (got ! k))" by metis
  from c(1) d(1) assms(7) have "d = c" "fst (got ! k) = fst (ms ! k)" by (simp_all add: to_byte_inj)
  with d(2) aead_correctD(1) [OF assms(2) c(2)] assms(1) show ?thesis
    by (simp add: channel_def prod_eq_iff)
qed

lemma mismatch_is_forgery:
  assumes "channel a b" and "seal_all L ms a = (Inr sent, a')"
    and "open_all L received b = (Inr got, b')" and k: "k < length received"
    and diff: "k < length sent \<longrightarrow> received ! k \<noteq> sent ! k"
  shows "received ! k = to_byte (fst (got ! k)) # tl (received ! k) \<and>
    record_forgery L a ms sent k (fst (got ! k)) (tl (received ! k))"
proof -
  note s = seal_all_nth [OF assms(2)] and o = open_all_nth [OF assms(3)]
  from o k obtain d where d: "received ! k = to_byte (fst (got ! k)) # d"
    "aead_decrypt L XChaCha20Poly1305 (recv_key b) (nonce_at (recv_dir b) (recv_ctr b) k)
          (aad_at (s_th0 b) (fst (got ! k)) (recv_ctr b) k) d = Some (snd (got ! k))" by metis
  have bk: "unat (send_ctr a) + k < 2 ^ 64"
    using o k assms(1) by (auto simp: channel_def)
  have "(nonce_at (send_dir a) (send_ctr a) j, aad_at (s_th0 a) (fst (ms ! j)) (send_ctr a) j, tl (sent ! j))
      \<noteq> (nonce_at (send_dir a) (send_ctr a) k, aad_at (s_th0 a) (fst (got ! k)) (send_ctr a) k, d)"
    if j: "j < length sent" for j
  proof
    assume eq: "(nonce_at (send_dir a) (send_ctr a) j, aad_at (s_th0 a) (fst (ms ! j)) (send_ctr a) j, tl (sent ! j))
      = (nonce_at (send_dir a) (send_ctr a) k, aad_at (s_th0 a) (fst (got ! k)) (send_ctr a) k, d)"
    have "unat (send_ctr a) + j < 2 ^ 64" using s j by auto
    with eq bk have "j = k" using ctr_inj by (auto simp: nonce_at_def record_nonce_inj)
    with eq have "fst (ms ! k) = fst (got ! k)" by (simp add: aad_at_def record_aad_type to_byte_inj)
    moreover from s j \<open>j = k\<close> obtain c where "sent ! k = to_byte (fst (ms ! k)) # c" by metis
    ultimately show False using eq d(1) diff j \<open>j = k\<close> by simp
  qed
  with d assms(1) show ?thesis by (simp add: record_forgery_def channel_def)
qed

subsection \<open>A concrete wire\<close>

definition put_public :: "public_identity \<Rightarrow> bytes list" where
  "put_public p = [as_bytes (pi_name p), int_field (pi_created_at p), pi_sign_public p, pi_kem_public p,
     option_field (pi_mldsa_public p), option_field (pi_mlkem_public p)]"

fun get_public :: "bytes list \<Rightarrow> public_identity option" where
  "get_public [n, t, s, k, d, m] = Some \<lparr>pi_name = string_of_field n, pi_created_at = int_of_field t,
     pi_sign_public = s, pi_kem_public = k, pi_mldsa_public = option_of_field d, pi_mlkem_public = option_of_field m\<rparr>"
| "get_public _ = None"

lemma get_put_public [simp]: "get_public (put_public p) = Some p"
  by (simp add: put_public_def)

definition demo_wire :: wire where
  "demo_wire =
     \<lparr>hello_codec = fields_codec hello_typed
        (\<lambda>h. [h_magic h, nat_field (unat (h_version h)), nat_field (unat (h_suite h)), h_i_ephemeral h, h_i_nonce h, h_i_psk_tag h])
        (\<lambda>xs. case xs of [a, b, c, d, e, f] \<Rightarrow> Some \<lparr>h_magic = a, h_version = word_of_field b, h_suite = word_of_field c,
           h_i_ephemeral = d, h_i_nonce = e, h_i_psk_tag = f\<rparr> | _ \<Rightarrow> None),
      auth_codec = fields_codec auth_typed
        (\<lambda>m. [a_r_ephemeral m, a_r_nonce m, a_r_sig m] @ put_public (a_r_identity m))
        (\<lambda>xs. case xs of a # b # c # r \<Rightarrow> map_option (\<lambda>p. \<lparr>a_r_ephemeral = a, a_r_nonce = b, a_r_identity = p, a_r_sig = c\<rparr>) (get_public r) | _ \<Rightarrow> None),
      confirm_codec = fields_codec (\<lambda>_. True) (\<lambda>m. [c_sealed m]) (\<lambda>xs. case xs of [a] \<Rightarrow> Some \<lparr>c_sealed = a\<rparr> | _ \<Rightarrow> None),
      inner_codec = fields_codec inner_typed (\<lambda>m. ci_i_sig m # put_public (ci_i_identity m))
        (\<lambda>xs. case xs of a # r \<Rightarrow> map_option (\<lambda>p. \<lparr>ci_i_identity = p, ci_i_sig = a\<rparr>) (get_public r) | _ \<Rightarrow> None)\<rparr>"

lemma demo_wire_ok: "wire_ok demo_wire"
  unfolding wire_ok_def demo_wire_def by (auto intro!: fields_codec_ok)

definition demo_identity :: identity where
  "demo_identity = \<lparr>id_name = ''a'', id_created_at = 5, id_sign = replicate 32 0, id_kem = replicate 32 0,
     id_mldsa = None, id_mlkem = None\<rparr>"

definition demo_world :: world where
  "demo_world = \<lparr>rng_source = (\<lambda>_ n. Some (replicate n 0)), rng_calls = 0, io_faults = (\<lambda>_. None), io_calls = 0, fs = []\<rparr>"

lemma demo_parties:
  "rng_fills demo_world" "public_typed (id_public demo_lib demo_identity)"
  by (simp_all add: rng_fills_def demo_world_def public_typed_def id_public_def demo_identity_def demo_lib_def)

lemma demo_inner_small:
  "\<forall>sig b. length sig = 64 \<and> enc (inner_codec demo_wire) \<lparr>ci_i_identity = id_public demo_lib demo_identity, ci_i_sig = sig\<rparr> = Some b
     \<longrightarrow> length b < 2 ^ 32"
  by (auto simp: demo_wire_def fields_codec_def put_public_def id_public_def demo_identity_def demo_lib_def
      int_field_def nat_field_def option_field_def as_bytes_def length_put_bytes_eq)

subsection \<open>Properties\<close>

text \<open>C12. Agreement of an honest run: two parties created with the same transfer secret, the
  initiator expecting the responder's fingerprint, complete the three messages; the responder
  learns the initiator's identity, and each side's sending keys, direction and counter are the
  other's receiving ones, over the same transcript.\<close>

theorem handshake_agrees:
  assumes "initiator_new L ii (id_fingerprint L ri) secret w = (Inr i, w1)" and "rng_fills w"
    and "responder_new L ri secret expected w2 = (Inr r, w3)" and "rng_fills w2"
    and "expected \<in> {None, Some (id_fingerprint L ii)}"
    and "public_typed (id_public L ii)" and "public_typed (id_public L ri)"
    and "wire_ok W" and "x25519_spec L" and "ed25519_spec L" and "blake3_lengths L" and "aead_correct L" and "aead_total L"
    and "x25519_contributory L (x25519_dh L (in_ephemeral i) (x25519_public L (re_ephemeral r)))"
    and "h_i_psk_tag (initiator_hello L i) \<notin> hrc_seen cache" and "card (hrc_seen cache) < hrc_capacity cache"
    and "\<forall>sig b. length sig = 64 \<and> enc (inner_codec W) \<lparr>ci_i_identity = id_public L ii, ci_i_sig = sig\<rparr> = Some b
           \<longrightarrow> length b < 2 ^ 32"
  shows "\<exists>hb ab cb si sr r' cache'. write_hello L W i = Inr hb \<and>
     read_hello_write_auth L W hb (with_replay_cache r, cache) = (Inr ab, (r', cache')) \<and>
     read_auth_write_confirm L W i ab = Inr (cb, si) \<and>
     read_confirm L W r' cb = Inr (\<lparr>pa_fingerprint = id_fingerprint L ii, pa_identity = id_public L ii\<rparr>, sr) \<and>
     channel si sr \<and> channel sr si"
proof -
  let ?r = "with_replay_cache r"
  note p = new_paired [OF assms(1-7)]
  have ii: "in_identity i = ii" and e: "re_ephemeral ?r = re_ephemeral r"
    using assms(1) by (auto simp: initiator_new_def bnd_eq_Inr Let_def with_replay_cache_def split: if_splits)
  have c: "x25519_contributory L (x25519_dh L (in_ephemeral i) (x25519_public L (re_ephemeral ?r)))"
    using assms(14) e by simp
  obtain hb where hb: "write_hello L W i = Inr hb"
    using to_vec_total [OF wire_okD(1) [OF assms(8)] initiator_hello_typed [OF p(1) assms(9,11)]]
    by (auto simp: write_hello_eq)
  obtain ab cache' where ab: "read_hello_write_auth L W hb (?r, cache) = (Inr ab, (answered L i ?r, cache'))"
    "to_vec (auth_codec W) (responder_auth L ?r (run_th0 L i ?r)) = Inr ab"
    using responder_answers [OF p(1) assms(8,9,11) hb c p(2) assms(15,16)] by blast
  note conf = initiator_confirms [OF p(1) assms(8,10,13,11,9) c ab(2), unfolded ii, OF assms(17)]
  then obtain cb sealed ib where cb: "read_auth_write_confirm L W i ab
        = Inr (cb, for_initiator (fst (run_keys L i ?r)) (snd (run_keys L i ?r)) (run_th0 L i ?r))"
    and acc: "read_confirm L W (answered L i ?r) cb
      = Inr (\<lparr>pa_fingerprint = id_fingerprint L ii, pa_identity = id_public L ii\<rparr>,
             for_responder (fst (run_keys L i ?r)) (snd (run_keys L i ?r)) (run_th0 L i ?r))"
    using responder_accepts [OF p(1) assms(8,10,12), unfolded ii] by blast
  show ?thesis using hb ab(1) cb acc by (auto simp: channel_def for_initiator_def for_responder_def)
qed

theorem handshake_agrees_witness:
  "\<exists>i r hb ab cb si sr r' cache'. write_hello demo_lib demo_wire i = Inr hb \<and>
     read_hello_write_auth demo_lib demo_wire hb (with_replay_cache r, cache_new 1) = (Inr ab, (r', cache')) \<and>
     read_auth_write_confirm demo_lib demo_wire i ab = Inr (cb, si) \<and>
     read_confirm demo_lib demo_wire r' cb
       = Inr (\<lparr>pa_fingerprint = id_fingerprint demo_lib demo_identity, pa_identity = id_public demo_lib demo_identity\<rparr>, sr) \<and>
     channel si sr"
proof -
  obtain i w1 where i: "initiator_new demo_lib demo_identity (id_fingerprint demo_lib demo_identity) [1] demo_world = (Inr i, w1)"
    by (auto simp: initiator_new_def random_array_def getrandom_def demo_world_def Let_def)
  obtain r w3 where r: "responder_new demo_lib demo_identity [1] None demo_world = (Inr r, w3)"
    by (auto simp: responder_new_def random_array_def getrandom_def demo_world_def Let_def)
  have c: "x25519_contributory demo_lib (x25519_dh demo_lib (in_ephemeral i) (x25519_public demo_lib (re_ephemeral r)))"
    by (simp add: demo_lib_def)
  have cache: "h_i_psk_tag (initiator_hello demo_lib i) \<notin> hrc_seen (cache_new 1)"
    "card (hrc_seen (cache_new 1)) < hrc_capacity (cache_new 1)" by (simp_all add: cache_new_def)
  show ?thesis
    using handshake_agrees [OF i demo_parties(1) r demo_parties(1) _ demo_parties(2,2) demo_wire_ok demo_keys(1,2)
        demo_hashes demo_aead(1,3) c cache demo_inner_small] by blast
qed

text \<open>C28. Record round trip: over a session and its mirror image, any sequence of records that
  fits the counter is sealed, and opening the frames in order gives back exactly the records,
  types included, leaving the two sides in step.\<close>

theorem record_stream_roundtrip:
  assumes "channel a b" and "aead_correct L" and "aead_total L" and "length (send_key a) = 32"
    and "\<forall>(ty, m) \<in> set ms. length m < 2 ^ 32" and "unat (send_ctr a) + length ms < 2 ^ 64"
  shows "\<exists>gs a' b'. seal_all L ms a = (Inr gs, a') \<and> open_all L gs b = (Inr ms, b') \<and> channel a' b'"
  using seal_all_total [OF assms(3-6)] channel_run [OF assms(1,2)] by blast

theorem record_stream_roundtrip_witness:
  "\<exists>gs a' b'. seal_all demo_lib [(Data, [1, 2]), (Done, [])] (for_initiator (replicate 32 1) (replicate 32 2) [7]) = (Inr gs, a') \<and>
     open_all demo_lib gs (for_responder (replicate 32 1) (replicate 32 2) [7]) = (Inr [(Data, [1, 2]), (Done, [])], b')"
  using record_stream_roundtrip [OF _ demo_aead(1,3), of "for_initiator (replicate 32 1) (replicate 32 2) [7]"
      "for_responder (replicate 32 1) (replicate 32 2) [7]" "[(Data, [1, 2]), (Done, [])]"]
  by (force simp: channel_def for_initiator_def for_responder_def FIRST_RECORD_CTR_def)

text \<open>C11. Record integrity: whatever frames arrive, if the receiver opens them all then they are
  the first frames sent, in order, without omission, and what it gets is what was sent; or the
  first frame that differs is an AEAD forgery under the channel's key.\<close>

theorem record_stream_integrity:
  assumes "channel a b" and "aead_correct L" and "seal_all L ms a = (Inr sent, a')"
    and "open_all L received b = (Inr got, b')"
  shows "received = take (length received) sent \<and> got = take (length received) ms \<or>
     (\<exists>k < length received. take k received = take k sent \<and> received ! k = to_byte (fst (got ! k)) # tl (received ! k) \<and>
        record_forgery L a ms sent k (fst (got ! k)) (tl (received ! k)))"
proof (cases "\<exists>k < length received. k < length sent \<longrightarrow> received ! k \<noteq> sent ! k")
  case True
  let ?P = "\<lambda>k. k < length received \<and> (k < length sent \<longrightarrow> received ! k \<noteq> sent ! k)"
  define k where "k = (LEAST k. ?P k)"
  have k: "?P k" using True LeastI_ex [of ?P] by (auto simp: k_def)
  have before: "received ! j = sent ! j \<and> j < length sent" if "j < k" for j
    using that k not_less_Least [of j ?P] by (auto simp: k_def)
  have "k \<le> length sent" using before [of "length sent"] by fastforce
  with k before have "take k received = take k sent"
    by (intro nth_take_lemma) auto
  with k mismatch_is_forgery [OF assms(1,3,4)] show ?thesis by blast
next
  case False
  then have le: "length received \<le> length sent" and eq: "\<forall>k < length received. received ! k = sent ! k"
    using not_le by auto
  have "got ! k = ms ! k" if "k < length received" for k
    using accepted_was_sent [OF assms that] that le eq by simp
  moreover have "length got = length received" "length sent = length ms"
    using open_all_nth [OF assms(4)] seal_all_nth [OF assms(3)] by simp_all
  ultimately show ?thesis using le eq by (auto intro!: disjI1 nth_equalityI)
qed

theorem record_stream_integrity_witness:
  "\<exists>sent a' received b'.
     seal_all demo_lib [(Data, [1]), (Done, [])] (for_initiator (replicate 32 1) (replicate 32 2) [7]) = (Inr sent, a') \<and>
     open_all demo_lib received (for_responder (replicate 32 1) (replicate 32 2) [7]) = (Inr [(Data, [1])], b') \<and>
     received = take 1 sent"
proof -
  let ?a = "for_initiator (replicate 32 1) (replicate 32 2) [7]" and ?b = "for_responder (replicate 32 1) (replicate 32 2) [7]"
  have ch: "channel ?a ?b" by (simp add: channel_def for_initiator_def for_responder_def)
  have s: "\<exists>a'. seal_all demo_lib [(Data, [1]), (Done, [])] ?a = (Inr [3 # 1 # demo_tag, 4 # demo_tag], a')"
    by (simp add: seal_record_def seal_def seal_with_def cipher_def for_initiator_def demo_lib_def checked_add_def
        FIRST_RECORD_CTR_def Let_def)
  have o: "\<exists>b'. open_all demo_lib [3 # 1 # demo_tag] ?b = (Inr [(Data, [1])], b')"
    by (simp add: open_record_def from_byte_def aead_open_def open_with_def cipher_def for_responder_def demo_lib_def checked_add_def
        FIRST_RECORD_CTR_def Let_def demo_open_tag [of "[1]", simplified])
  from s o obtain a' b' where r: "seal_all demo_lib [(Data, [1]), (Done, [])] ?a = (Inr [3 # 1 # demo_tag, 4 # demo_tag], a')"
    "open_all demo_lib [3 # 1 # demo_tag] ?b = (Inr [(Data, [1])], b')" by blast
  from record_stream_integrity [OF ch demo_aead(1) r] r show ?thesis
    by (auto simp: record_forgery_def nonce_at_def aad_at_def)
qed

text \<open>C29. Gate before disclosure: a hello that does not carry the proof of the transfer secret
  gets an error, changes neither the responder nor the cache, and the answer is the same for
  any other responder holding the secret, whatever its identity, ephemeral key, nonce or
  expectations; so is nothing of them disclosed.\<close>

theorem hello_gate:
  assumes "\<forall>hello. from_slice (hello_codec W) hb = Inr hello \<longrightarrow> \<not> hello_tag_ok L r hello"
    and "re_k_psk r' = re_k_psk r"
  shows "\<exists>e. read_hello_write_auth L W hb (r, cache) = (Inl e, (r, cache)) \<and>
             read_hello_write_auth L W hb (r', cache') = (Inl e, (r', cache'))"
  using assms unfolding read_hello_steps
  by (cases "from_slice (hello_codec W) hb") (auto simp: hello_tag_ok_def)

theorem hello_gate_witness:
  "\<exists>r e. re_pending r = None \<and> re_identity r = demo_identity \<and>
     read_hello_write_auth demo_lib demo_wire [7] (r, cache_new 1) = (Inl e, (r, cache_new 1))"
proof -
  obtain r w3 where r: "responder_new demo_lib demo_identity [1] None demo_world = (Inr r, w3)"
    by (auto simp: responder_new_def random_array_def getrandom_def demo_world_def Let_def)
  then have "re_pending r = None" "re_identity r = demo_identity"
    by (auto simp: responder_new_def random_array_def bnd_eq_Inr Let_def)
  moreover have "\<forall>hello. from_slice (hello_codec demo_wire) [7] = Inr hello \<longrightarrow> \<not> hello_tag_ok demo_lib r hello"
    by (simp add: from_slice_eq demo_wire_def fields_codec_def)
  ultimately show ?thesis using hello_gate [of demo_wire "[7]" demo_lib r r] by blast
qed

text \<open>C20. Replay refusal (FS-12): a listener whose responders share a fresh cache answers at
  most as many hellos as the cache has room for, no two answered hellos carry the same proof,
  and every answered one proves knowledge of its responder's transfer secret.\<close>

theorem listener_refuses_replays:
  assumes "listen L W cs (cache_new capacity) = (rs, cache')"
  shows "length rs = length cs \<and> length (filter is_ok rs) \<le> capacity \<and>
    (\<forall>i j. i < j \<and> j < length cs \<and> is_ok (rs ! i) \<and> is_ok (rs ! j) \<longrightarrow>
       answered_tag W (snd (cs ! i)) \<noteq> answered_tag W (snd (cs ! j))) \<and>
    (\<forall>i < length cs. is_ok (rs ! i) \<longrightarrow>
       (\<exists>hello. from_slice (hello_codec W) (snd (cs ! i)) = Inr hello \<and> hello_tag_ok L (fst (cs ! i)) hello))"
  using listen_answers [OF assms] listen_proves [OF assms] by (auto simp: cache_new_def)

theorem listener_refuses_replays_witness:
  "\<exists>rs cache'. listen demo_lib demo_wire [] (cache_new 1) = (rs, cache') \<and> length (filter is_ok rs) \<le> 1 \<and>
    (\<exists>r hb rs cache'. listen demo_lib demo_wire [(r, hb), (r, hb)] (cache_new 2) = (rs, cache') \<and> \<not> (is_ok (rs ! 0) \<and> is_ok (rs ! 1)))"
proof -
  obtain rs cache' where l: "listen demo_lib demo_wire [(undefined, [7]), (undefined, [7])] (cache_new 2) = (rs, cache')" by force
  have "\<not> (is_ok (rs ! 0) \<and> is_ok (rs ! 1))"
    using listener_refuses_replays [OF l] by (auto dest: spec [where x = 0])
  with l show ?thesis by auto
qed

text \<open>Transcript binding: when an initiator holds a session over the transcript that a
  responder answered with, the two agree on both ephemeral keys, both nonces, the responder's
  fingerprint and the commitment to the transfer secret, or their transcripts are a concrete
  BLAKE3 collision.\<close>

theorem transcript_binds:
  assumes "read_hello_write_auth L W hb (r, cache) = (Inr ab', (r', cache'))" and "re_pending r' = Some p"
    and "read_auth_write_confirm L W i ab = Inr (cb, s)" and "s_th0 s = rp_th0 p"
    and "wire_ok W" and "x25519_spec L" and "blake3_lengths L"
    and "length (in_nonce i) = 32" and "length (re_nonce r) = 32"
    and "in_secret_commit i = secret_commit L (in_k_psk i)" and "re_secret_commit r = secret_commit L (re_k_psk r)"
  shows "\<exists>hello auth. from_slice (hello_codec W) hb = Inr hello \<and> from_slice (auth_codec W) ab = Inr auth \<and>
    (h_i_ephemeral hello = x25519_public L (in_ephemeral i) \<and> h_i_nonce hello = in_nonce i \<and>
     a_r_ephemeral auth = x25519_public L (re_ephemeral r) \<and> a_r_nonce auth = re_nonce r \<and>
     fingerprint L (a_r_identity auth) = id_fingerprint L (re_identity r) \<and>
     secret_commit L (in_k_psk i) = secret_commit L (re_k_psk r) \<or>
     (let x = transcript_input PROTO_VERSION SUITE_CLASSIC (x25519_public L (in_ephemeral i)) (in_nonce i)
                (a_r_ephemeral auth) (a_r_nonce auth) (in_expected_peer_fpr i) (in_secret_commit i);
          y = transcript_input PROTO_VERSION SUITE_CLASSIC (h_i_ephemeral hello) (h_i_nonce hello)
                (x25519_public L (re_ephemeral r)) (re_nonce r) (id_fingerprint L (re_identity r)) (re_secret_commit r)
      in x \<noteq> y \<and> blake3 L x = blake3 L y))"
proof -
  from read_hello_pending [OF assms(1)] assms(2) obtain hello where
    h: "from_slice (hello_codec W) hb = Inr hello" "rp_th0 p = responder_th0 L r hello" by auto
  from read_auth_accepts [OF assms(3)] obtain auth where
    a: "from_slice (auth_codec W) ab = Inr auth" "fingerprint L (a_r_identity auth) = in_expected_peer_fpr i"
      "s_th0 s = transcript0 L PROTO_VERSION SUITE_CLASSIC (x25519_public L (in_ephemeral i)) (in_nonce i)
        (a_r_ephemeral auth) (a_r_nonce auth) (in_expected_peer_fpr i) (in_secret_commit i)" by blast
  note ht = from_slice_typed [OF wire_okD(1) [OF assms(5)] h(1)] and at = from_slice_typed [OF wire_okD(2) [OF assms(5)] a(1)]
  have f: "length (fingerprint L q) = 32" for q
    using blake3_lengthsD(1) [OF assms(7)] by (simp add: fingerprint_def)
  have c: "length (secret_commit L k) = 32" for k
    using blake3_lengthsD(2) [OF assms(7)] by (simp add: secret_commit_def)
  let ?x = "transcript_input PROTO_VERSION SUITE_CLASSIC (x25519_public L (in_ephemeral i)) (in_nonce i)
                (a_r_ephemeral auth) (a_r_nonce auth) (in_expected_peer_fpr i) (in_secret_commit i)"
  let ?y = "transcript_input PROTO_VERSION SUITE_CLASSIC (h_i_ephemeral hello) (h_i_nonce hello)
                (x25519_public L (re_ephemeral r)) (re_nonce r) (id_fingerprint L (re_identity r)) (re_secret_commit r)"
  have eq: "blake3 L ?x = blake3 L ?y" using assms(4) h(2) a(3) by (simp add: responder_th0_def transcript0_def)
  have pub: "length (x25519_public L k) = 32" for k using assms(6) by (simp add: x25519_spec_def)
  have "?x = ?y \<Longrightarrow> h_i_ephemeral hello = x25519_public L (in_ephemeral i) \<and> h_i_nonce hello = in_nonce i \<and>
     a_r_ephemeral auth = x25519_public L (re_ephemeral r) \<and> a_r_nonce auth = re_nonce r \<and>
     in_expected_peer_fpr i = id_fingerprint L (re_identity r) \<and> in_secret_commit i = re_secret_commit r"
    by (drule transcript_input_inj [rotated 12])
       (use ht at pub f [of "a_r_identity auth"] f a(2) c assms(8-11) in
         \<open>simp_all add: hello_typed_def auth_typed_def id_fingerprint_def\<close>)
  with h(1) a(1,2) eq assms(10,11) show ?thesis by (auto simp: Let_def)
qed

theorem transcript_binds_witness:
  "\<exists>i r hb ab hello auth. read_hello_write_auth demo_lib demo_wire hb (with_replay_cache r, cache_new 1)
        \<noteq> (Inl TransferSecretMismatch, (with_replay_cache r, cache_new 1)) \<and>
     from_slice (hello_codec demo_wire) hb = Inr hello \<and> from_slice (auth_codec demo_wire) ab = Inr auth \<and>
     (a_r_nonce auth = re_nonce r \<or> (\<exists>x y. x \<noteq> y \<and> blake3 demo_lib x = blake3 demo_lib y))"
proof -
  obtain i w1 where i: "initiator_new demo_lib demo_identity (id_fingerprint demo_lib demo_identity) [1] demo_world = (Inr i, w1)"
    by (auto simp: initiator_new_def random_array_def getrandom_def demo_world_def Let_def)
  obtain r w3 where r: "responder_new demo_lib demo_identity [1] None demo_world = (Inr r, w3)"
    by (auto simp: responder_new_def random_array_def getrandom_def demo_world_def Let_def)
  let ?r = "with_replay_cache r"
  note p = new_paired [OF i demo_parties(1) r demo_parties(1) _ demo_parties(2,2), simplified]
  have ii: "in_identity i = demo_identity" "in_secret_commit i = secret_commit demo_lib (in_k_psk i)"
    "re_secret_commit ?r = secret_commit demo_lib (re_k_psk ?r)" "length (in_nonce i) = 32" "length (re_nonce ?r) = 32"
    using i r p(1)
    by (auto simp: initiator_new_def responder_new_def bnd_eq_Inr Let_def with_replay_cache_def paired_def split: if_splits)
  have c: "x25519_contributory demo_lib (x25519_dh demo_lib (in_ephemeral i) (x25519_public demo_lib (re_ephemeral ?r)))"
    by (simp add: demo_lib_def)
  have cache: "h_i_psk_tag (initiator_hello demo_lib i) \<notin> hrc_seen (cache_new 1)"
    "card (hrc_seen (cache_new 1)) < hrc_capacity (cache_new 1)" by (simp_all add: cache_new_def)
  obtain hb where hb: "write_hello demo_lib demo_wire i = Inr hb"
    using to_vec_total [OF wire_okD(1) [OF demo_wire_ok] initiator_hello_typed [OF p(1) demo_keys(1) demo_hashes]]
    by (auto simp: write_hello_eq)
  obtain ab cache' where ab: "read_hello_write_auth demo_lib demo_wire hb (?r, cache_new 1) = (Inr ab, (answered demo_lib i ?r, cache'))"
    "to_vec (auth_codec demo_wire) (responder_auth demo_lib ?r (run_th0 demo_lib i ?r)) = Inr ab"
    using responder_answers [OF p(1) demo_wire_ok demo_keys(1) demo_hashes hb c p(2) cache] by blast
  obtain cb where cb: "read_auth_write_confirm demo_lib demo_wire i ab
      = Inr (cb, for_initiator (fst (run_keys demo_lib i ?r)) (snd (run_keys demo_lib i ?r)) (run_th0 demo_lib i ?r))"
    using initiator_confirms [OF p(1) demo_wire_ok demo_keys(2) demo_aead(3) demo_hashes demo_keys(1) c ab(2), unfolded ii(1), OF demo_inner_small]
    by blast
  have pend: "re_pending (answered demo_lib i ?r)
      = Some \<lparr>rp_th0 = run_th0 demo_lib i ?r, rp_k_i2r = fst (run_keys demo_lib i ?r), rp_k_r2i = snd (run_keys demo_lib i ?r)\<rparr>"
    by (simp add: answered_def)
  have th: "s_th0 (for_initiator (fst (run_keys demo_lib i ?r)) (snd (run_keys demo_lib i ?r)) (run_th0 demo_lib i ?r))
      = rp_th0 \<lparr>rp_th0 = run_th0 demo_lib i ?r, rp_k_i2r = fst (run_keys demo_lib i ?r), rp_k_r2i = snd (run_keys demo_lib i ?r)\<rparr>"
    by (simp add: for_initiator_def)
  have n: "re_nonce ?r = re_nonce r" by (simp add: with_replay_cache_def)
  show ?thesis
    using transcript_binds [OF ab(1) pend cb th demo_wire_ok demo_keys(1) demo_hashes ii(4,5,2,3)] ab(1) n
    unfolding Let_def by (metis Pair_inject sum.simps(4))
qed

end
