(* ===== verification/V2_Manifest.thy ===== *)
theory V2_Manifest
  imports Core_Vault Core_Envelope Core_State Core_Codec Core_SafeIO
begin

section \<open>The manifest of the at-rest format (format_v2.rs, manifest.rs, limits.rs)\<close>

text \<open>
  A \<open>.fsv2\<close> vault is a directory with a plaintext header, a sealed manifest and one blob per
  file. This theory holds the data of the header and the manifest, the validation that runs on
  every decrypted manifest, and the bytes that are authenticated with it. Serialization is a
  parameter, one codec per stored type.
\<close>

subsection \<open>Data\<close>

record entry =
  en_path :: string
  en_kind :: entry_kind
  en_size :: u64
  en_mtime :: "int option"
  en_mode :: "u32 option"
  en_blake3 :: bytes
  en_data_offset :: u64

record manifest =
  mf_vault_name :: string
  mf_created_at :: int
  mf_entries :: "entry list"

record vault_header_v2 =
  vh_format_version :: u16
  vh_suite_id :: u16
  vh_vault_id :: bytes
  vh_manifest_stanza :: recipient_stanza

record entry_v2 =
  e2_path :: string
  e2_kind :: entry_kind
  e2_size :: u64
  e2_mtime :: "int option"
  e2_mode :: "u32 option"
  e2_blake3 :: bytes
  e2_file_id :: "string option"
  e2_key :: "bytes option"
  e2_nonce :: "bytes option"
  e2_chunk_size :: u32

record manifest_v2 =
  m2_vault_name :: string
  m2_created_at :: int
  m2_entries :: "entry_v2 list"

record manifest_envelope_v3 =
  me_version :: u16
  me_state :: state_metadata
  me_nonce :: bytes
  me_ciphertext :: bytes

record v2_codecs =
  header_codec2 :: "vault_header_v2 codec"
  manifest_codec2 :: "manifest_v2 codec"
  envelope_codec3 :: "manifest_envelope_v3 codec"

definition HEADER_FILE :: string where "HEADER_FILE = ''header''"
definition MANIFEST_FILE :: string where "MANIFEST_FILE = ''manifest''"
definition BLOBS_DIR :: string where "BLOBS_DIR = ''blobs''"
definition TRASH_DIR :: string where "TRASH_DIR = ''.trash''"
definition FORMAT_VERSION_V2 :: u16 where "FORMAT_VERSION_V2 = 2"
definition MANIFEST_ENVELOPE_VERSION :: u16 where "MANIFEST_ENVELOPE_VERSION = 3"
definition MAX_VAULT_HEADER_LEN :: u64 where "MAX_VAULT_HEADER_LEN = 1024 * 1024"
definition MAX_MANIFEST_LEN :: u64 where "MAX_MANIFEST_LEN = 256 * 1024 * 1024"
definition MAX_MANIFEST_ENTRIES :: nat where "MAX_MANIFEST_ENTRIES = 1000000"
definition BLOB_ID_LEN :: nat where "BLOB_ID_LEN = 32"
definition MAX_BATCH_OPS :: nat where "MAX_BATCH_OPS = 1024"

definition is_trashed :: "string \<Rightarrow> bool" where
  "is_trashed path \<longleftrightarrow> path = TRASH_DIR \<or> prefix ''.trash/'' path"

subsection \<open>Validation\<close>

definition validate_blob_id :: "string \<Rightarrow> unit result" where
  "validate_blob_id i =
     (if length i \<noteq> BLOB_ID_LEN then Inl (Format ''blob id must be 32 hex chars'')
      else if \<not> list_all is_lower_hex i then Inl (Format ''blob id must be lowercase hex'')
      else Inr ())"

text \<open>\<open>u64::div_ceil\<close>; the callers refuse a zero chunk size before.\<close>

definition num_chunks :: "u64 \<Rightarrow> u64 \<Rightarrow> u64" where
  "num_chunks sz chunk =
     (if sz = 0 then 1 else if sz mod chunk = 0 then sz div chunk else sz div chunk + 1)"

definition validate_file_entry :: "entry_v2 \<Rightarrow> aead_alg \<Rightarrow> u64 \<Rightarrow> u64 result" where
  "validate_file_entry e alg tot =
     rbind (ok_or (Format ''missing blob id'') (e2_file_id e)) (\<lambda>i.
     rbind (validate_blob_id i) (\<lambda>_.
       if e2_chunk_size e = 0 \<or> unat (e2_chunk_size e) > MAX_CHUNK_SIZE then Inl (Format ''bad chunk size'')
       else if num_chunks (e2_size e) (ucast (e2_chunk_size e)) > 0xFFFFFFFF then Inl (Format ''too many blob chunks'')
       else
         rbind (ok_or (Format ''size overflow'') (checked_add tot (e2_size e))) (\<lambda>tot.
           if e2_key e = None then Inl (Format ''missing blob key'')
           else case e2_nonce e of
                  Some n \<Rightarrow> if length n = stream_nonce_len alg then Inr tot
                            else Inl (Format ''bad blob nonce length'')
                | None \<Rightarrow> Inl (Format ''bad blob nonce length''))))"

text \<open>One round of the loop over the entries; the state is the paths seen, the shape so far and the
  running size.\<close>

definition validate_step ::
  "aead_alg \<Rightarrow> entry_v2 \<Rightarrow> string set \<times> (string \<times> entry_kind) list \<times> u64 \<Rightarrow>
   (string set \<times> (string \<times> entry_kind) list \<times> u64) result" where
  "validate_step alg e st =
     (case st of (seen, shape, tot) \<Rightarrow>
      rbind (normalize_stored_path (e2_path e)) (\<lambda>norm.
        let shape = shape @ [(norm, e2_kind e)] in
        if norm \<in> seen then Inl (Format ''duplicate path in manifest'')
        else
          rbind (if e2_kind e = File then validate_file_entry e alg tot else Inr tot) (\<lambda>tot.
            Inr (insert norm seen, shape, tot))))"

definition validate_manifest_v2 :: "manifest_v2 \<Rightarrow> aead_alg \<Rightarrow> unit result" where
  "validate_manifest_v2 m alg =
     (if length (m2_entries m) > MAX_MANIFEST_ENTRIES then Inl (Format ''too many manifest entries'')
      else
        rbind (rfold (validate_step alg) (m2_entries m) ({}, [], 0)) (\<lambda>(seen, shape, tot).
          check_tree_shape shape))"

definition fuzz_validate_manifest :: "v2_codecs \<Rightarrow> bytes \<Rightarrow> unit result" where
  "fuzz_validate_manifest C b =
     rbind (from_slice (manifest_codec2 C) b) (\<lambda>m.
     rbind (validate_manifest_v2 m (suite_aead_alg Classic)) (\<lambda>_.
     rbind (validate_manifest_v2 m (suite_aead_alg Aes256GcmSuite)) (\<lambda>_. Inr ())))"

subsection \<open>Entries and authenticated data\<close>

definition dir_entry :: "string \<Rightarrow> entry_v2" where
  "dir_entry path =
     \<lparr>e2_path = path, e2_kind = Dir, e2_size = 0, e2_mtime = None, e2_mode = None, e2_blake3 = replicate 32 0,
      e2_file_id = None, e2_key = None, e2_nonce = None, e2_chunk_size = 0\<rparr>"

definition view_of :: "manifest_v2 \<Rightarrow> entry list" where
  "view_of m =
     map (\<lambda>e. \<lparr>en_path = e2_path e, en_kind = e2_kind e, en_size = e2_size e, en_mtime = e2_mtime e,
              en_mode = e2_mode e, en_blake3 = e2_blake3 e, en_data_offset = 0\<rparr>) (m2_entries m)"

definition hex :: "lib \<Rightarrow> bytes \<Rightarrow> string" where
  "hex L b = hexlower_encode L b"

definition vault_object_id :: "lib \<Rightarrow> v2_codecs \<Rightarrow> bytes \<Rightarrow> string result" where
  "vault_object_id L C header_bytes =
     rbind (from_slice (header_codec2 C) header_bytes) (\<lambda>header. Inr (hex L (vh_vault_id header)))"

definition manifest_aad :: "bytes \<Rightarrow> state_metadata \<Rightarrow> bytes" where
  "manifest_aad header_bytes state =
     (let state_aad = authenticated_data state;
          aad = [];
          aad = aad @ to_le_bytes (len64 header_bytes);
          aad = aad @ header_bytes;
          aad = aad @ to_le_bytes (len64 state_aad)
      in aad @ state_aad)"

definition blob_id :: "entry_v2 \<Rightarrow> string result" where
  "blob_id e =
     rbind (ok_or (Format ''file entry missing blob id'') (e2_file_id e)) (\<lambda>i.
     rbind (validate_blob_id i) (\<lambda>_. Inr i))"

subsection \<open>What validation accepts\<close>

text \<open>The declarative reading: every path normalizes, no two to the same one, no file is above
  another entry, the declared sizes fit 64 bits together, and every file entry names a blob, a
  chunk size, a key and a nonce that can be used.\<close>

definition blob_id_ok :: "string \<Rightarrow> bool" where
  "blob_id_ok i \<longleftrightarrow> length i = 32 \<and> list_all is_lower_hex i"

definition file_entry_ok :: "aead_alg \<Rightarrow> entry_v2 \<Rightarrow> bool" where
  "file_entry_ok alg e \<longleftrightarrow>
     (\<exists>i. e2_file_id e = Some i \<and> blob_id_ok i) \<and> 0 < unat (e2_chunk_size e) \<and> unat (e2_chunk_size e) \<le> MAX_CHUNK_SIZE \<and>
     unat (num_chunks (e2_size e) (ucast (e2_chunk_size e))) < 2 ^ 32 \<and> e2_key e \<noteq> None \<and>
     (\<exists>n. e2_nonce e = Some n \<and> length n = stream_nonce_len alg)"

definition norm_of :: "entry_v2 \<Rightarrow> string" where
  "norm_of e = (case normalize_stored_path (e2_path e) of Inr n \<Rightarrow> n | Inl _ \<Rightarrow> [])"

definition declared_size :: "entry_v2 list \<Rightarrow> nat" where
  "declared_size es = sum_list (map (\<lambda>e. if e2_kind e = File then unat (e2_size e) else 0) es)"

definition manifest_valid :: "aead_alg \<Rightarrow> manifest_v2 \<Rightarrow> bool" where
  "manifest_valid alg m \<longleftrightarrow>
     length (m2_entries m) \<le> MAX_MANIFEST_ENTRIES \<and>
     (\<forall>e \<in> set (m2_entries m). is_ok (normalize_stored_path (e2_path e)) \<and> (e2_kind e = File \<longrightarrow> file_entry_ok alg e)) \<and>
     distinct (map norm_of (m2_entries m)) \<and> declared_size (m2_entries m) < 2 ^ 64 \<and>
     (\<forall>e \<in> set (m2_entries m). \<forall>f \<in> set (m2_entries m). e2_kind f = File \<longrightarrow> \<not> beneath (norm_of f) (norm_of e))"

lemma validate_blob_id_iff: "validate_blob_id i = Inr () \<longleftrightarrow> blob_id_ok i"
  by (auto simp: validate_blob_id_def blob_id_ok_def BLOB_ID_LEN_def)

lemma validate_file_entry_iff:
  "validate_file_entry e alg t = Inr t' \<longleftrightarrow>
     file_entry_ok alg e \<and> unat t + unat (e2_size e) < 2 ^ 64 \<and> t' = t + e2_size e"
proof -
  have c: "e2_chunk_size e = 0 \<longleftrightarrow> unat (e2_chunk_size e) = 0" by (simp add: unat_eq_0)
  have n: "num_chunks a b > 0xFFFFFFFF \<longleftrightarrow> \<not> unat (num_chunks a b) < 2 ^ 32" for a b
    unfolding word_less_nat_alt by (simp, linarith)
  show ?thesis
    unfolding validate_file_entry_def file_entry_ok_def
    by (auto simp: result_simps validate_blob_id_iff checked_add_eq_Some c n split: option.splits if_splits)
qed

lemma validate_step_iff:
  "validate_step alg e (seen, shape, t) = Inr st \<longleftrightarrow>
     is_ok (normalize_stored_path (e2_path e)) \<and> norm_of e \<notin> seen \<and>
     (e2_kind e = File \<longrightarrow> file_entry_ok alg e \<and> unat t + unat (e2_size e) < 2 ^ 64) \<and>
     st = (insert (norm_of e) seen, shape @ [(norm_of e, e2_kind e)], if e2_kind e = File then t + e2_size e else t)"
  by (cases "normalize_stored_path (e2_path e)")
     (auto simp: validate_step_def norm_of_def Let_def result_simps validate_file_entry_iff)

lemma validate_loop_iff:
  "rfold (validate_step alg) es (seen, shape, t) = Inr st \<longleftrightarrow>
     (\<forall>e \<in> set es. is_ok (normalize_stored_path (e2_path e)) \<and> (e2_kind e = File \<longrightarrow> file_entry_ok alg e)) \<and>
     distinct (map norm_of es) \<and> norm_of ` set es \<inter> seen = {} \<and> unat t + declared_size es < 2 ^ 64 \<and>
     st = (seen \<union> norm_of ` set es, shape @ map (\<lambda>e. (norm_of e, e2_kind e)) es, t + of_nat (declared_size es))"
proof (induction es arbitrary: seen shape t)
  case Nil
  have "unat t < 2 ^ 64" using unsigned_less [of t, where ?'a = nat] by simp
  then show ?case by (auto simp: declared_size_def)
next
  case (Cons e es)
  let ?t = "if e2_kind e = File then t + e2_size e else t"
  let ?st = "(insert (norm_of e) seen, shape @ [(norm_of e, e2_kind e)], ?t)"
  let ?ok = "is_ok (normalize_stored_path (e2_path e)) \<and> norm_of e \<notin> seen \<and>
     (e2_kind e = File \<longrightarrow> file_entry_ok alg e \<and> unat t + unat (e2_size e) < 2 ^ 64)"
  have step: "rfold (validate_step alg) (e # es) (seen, shape, t) = Inr st \<longleftrightarrow>
      ?ok \<and> rfold (validate_step alg) es ?st = Inr st"
    by (auto simp: rbind_eq_Inr validate_step_iff)
  have ut: "?ok \<Longrightarrow> unat ?t + declared_size es = unat t + declared_size (e # es)"
    by (auto simp: declared_size_def unat_word_ariths)
  have ot: "?t + of_nat (declared_size es) = t + of_nat (declared_size (e # es))"
    by (auto simp: declared_size_def)
  have ov: "unat t + declared_size (e # es) < 2 ^ 64 \<Longrightarrow> e2_kind e = File \<Longrightarrow> unat t + unat (e2_size e) < 2 ^ 64"
    by (simp add: declared_size_def)
  let ?all = "\<lambda>es. \<forall>e \<in> set es. is_ok (normalize_stored_path (e2_path e)) \<and> (e2_kind e = File \<longrightarrow> file_entry_ok alg e)"
  have regroup: "p \<Longrightarrow> a' = a \<Longrightarrow> (d' \<and> i') = (d \<and> i) \<Longrightarrow> n' = n \<Longrightarrow> u' = u \<Longrightarrow>
      (p \<and> a \<and> d \<and> i \<and> n \<and> st = u) = (a' \<and> d' \<and> i' \<and> n' \<and> st = u')" for p a a' d d' i i' n n' u u'
    by blast
  show ?case
  proof (cases ?ok)
    case True
    have all: "?all (e # es) = ?all es" using True by auto
    have fresh: "(distinct (map norm_of (e # es)) \<and> norm_of ` set (e # es) \<inter> seen = {})
        = (distinct (map norm_of es) \<and> norm_of ` set es \<inter> insert (norm_of e) seen = {})" using True by auto
    have st: "(seen \<union> norm_of ` set (e # es), shape @ map (\<lambda>e. (norm_of e, e2_kind e)) (e # es), t + of_nat (declared_size (e # es)))
        = (insert (norm_of e) seen \<union> norm_of ` set es, (shape @ [(norm_of e, e2_kind e)]) @ map (\<lambda>e. (norm_of e, e2_kind e)) es,
           ?t + of_nat (declared_size es))" using ot by simp
    show ?thesis unfolding step Cons.IH
      by (rule regroup [OF True all fresh _ st]) (simp only: ut [OF True])
  next
    case False
    then have "\<not> (?all (e # es) \<and> norm_of ` set (e # es) \<inter> seen = {} \<and> unat t + declared_size (e # es) < 2 ^ 64)"
      using ov by auto
    with False show ?thesis unfolding step by blast
  qed
qed

lemma validate_manifest_v2_iff: "validate_manifest_v2 m alg = Inr () \<longleftrightarrow> manifest_valid alg m"
proof -
  have "validate_manifest_v2 m alg = Inr () \<longleftrightarrow>
      length (m2_entries m) \<le> MAX_MANIFEST_ENTRIES \<and>
      (\<forall>e \<in> set (m2_entries m). is_ok (normalize_stored_path (e2_path e)) \<and> (e2_kind e = File \<longrightarrow> file_entry_ok alg e)) \<and>
      distinct (map norm_of (m2_entries m)) \<and> declared_size (m2_entries m) < 2 ^ 64 \<and>
      check_tree_shape (map (\<lambda>e. (norm_of e, e2_kind e)) (m2_entries m)) = Inr ()"
    by (auto simp: validate_manifest_v2_def rbind_eq_Inr validate_loop_iff not_less)
  moreover have "check_tree_shape (map (\<lambda>e. (norm_of e, e2_kind e)) (m2_entries m)) = Inr () \<longleftrightarrow>
      (\<forall>e \<in> set (m2_entries m). \<forall>f \<in> set (m2_entries m). e2_kind f = File \<longrightarrow> \<not> beneath (norm_of f) (norm_of e))"
    unfolding check_tree_shape_iff by (auto simp: image_iff; metis)
  ultimately show ?thesis by (simp only: manifest_valid_def)
qed

text \<open>A valid blob id is one plain path component.\<close>

lemma blob_id_ok_plain: "blob_id_ok i \<Longrightarrow> i \<noteq> [] \<and> slash \<notin> set i \<and> CHR ''.'' \<notin> set i"
  by (auto simp: blob_id_ok_def list_all_iff is_lower_hex_def)

subsection \<open>The number of chunks\<close>

lemma unat_num_chunks:
  assumes "0 < unat c"
  shows "unat (num_chunks s c) = (if s = 0 then 1 else (unat s + unat c - 1) div unat c)"
proof -
  have m: "s mod c = 0 \<longleftrightarrow> unat s mod unat c = 0" by (metis unat_eq_0 unat_mod_distrib)
  have "unat (s div c + 1) = unat s div unat c + 1" if "s mod c \<noteq> 0"
  proof -
    have r: "unat s mod unat c \<noteq> 0" using that m by simp
    have "unat s div unat c < unat s"
    proof (rule div_less_dividend)
      show "1 < unat c" using r assms by (cases "unat c = 1") auto
      show "0 < unat s" using r by (cases "unat s = 0") auto
    qed
    moreover have "unat s < 2 ^ 64" using unsigned_less [of s, where ?'a = nat] by simp
    ultimately have "unat (s div c) + unat (1 :: u64) < 2 ^ LENGTH(64)" by (simp add: unat_div_distrib)
    then show ?thesis unfolding unat_add_lem by (simp add: unat_div_distrib)
  qed
  moreover have "(a + b - 1) div b = a div b + (if a mod b = 0 then 0 else 1)" if "0 < b" for a b :: nat
  proof -
    let ?r = "if a mod b = 0 then b - 1 else a mod b - 1"
    have "a + b - 1 = ?r + b * (a div b + (if a mod b = 0 then 0 else 1))"
      using that div_mult_mod_eq [of a b] by (auto simp: algebra_simps)
    moreover have "?r < b" using that mod_less_divisor [of b a] by (simp add: less_imp_diff_less)
    ultimately have "(a + b - 1) div b = (a div b + (if a mod b = 0 then 0 else 1)) + ?r div b"
      using that by (metis div_mult_self2 less_numeral_extra(3))
    with \<open>?r < b\<close> show ?thesis by (simp only: div_less add_0_right)
  qed
  ultimately show ?thesis using assms m by (simp add: num_chunks_def unat_div_distrib)
qed

end
