(* ===== verification/V2_Store.thy ===== *)
theory V2_Store
  imports V2_Manifest
begin

section \<open>The at-rest vault on disk (format_v2.rs)\<close>

text \<open>
  \<open>VaultReaderV2\<close> holds the header bytes, the manifest key and the decoded manifest of an open
  vault. Methods that only read take the record; methods on \<open>&mut self\<close> act on the pair of the
  record and the world. A streaming writer argument is an operation on the world and the
  writer's own state, so that the same definition serves a buffer and a file.
\<close>

subsection \<open>More of the standard library\<close>

text \<open>\<open>Path::parent\<close> of a path that has one.\<close>

definition std_parent :: "string \<Rightarrow> string" where
  "std_parent p = (if path_parent p \<noteq> [] then path_parent p else if prefix ''/'' p then ''/'' else [])"

definition std_is_dir :: "string \<Rightarrow> bool io" where
  "std_is_dir p = bnd (attempt (std_metadata p)) (\<lambda>m. ret (m = Inr DirNode))"

definition mkdir_or_there :: "string \<Rightarrow> error \<Rightarrow> unit io" where
  "mkdir_or_there p e = bnd (std_is_dir p) (\<lambda>b. if b then ret () else throw e)"

lemma path_parent_shorter: "p \<noteq> [] \<Longrightarrow> length (path_parent p) < length p"
proof -
  assume "p \<noteq> []"
  let ?d = "dropWhile (\<lambda>c. c \<noteq> CHR ''/'') (rev p)"
  have le: "length ?d \<le> length p" by (metis length_dropWhile_le length_rev)
  have eq: "length (path_parent p) = length ?d - 1" by (simp add: path_parent_def)
  have "0 < length p" using \<open>p \<noteq> []\<close> by simp
  with le eq show ?thesis by linarith
qed

function std_create_dir_all :: "string \<Rightarrow> unit io" where
  "std_create_dir_all p =
     (if p = [] then ret ()
      else bnd (attempt (std_create_dir p)) (\<lambda>r.
        case r of
          Inr _ \<Rightarrow> ret ()
        | Inl e \<Rightarrow>
            if has_kind NotFound e
            then if p = ''/'' then throw (Io (IoKind OtherIo))
                 else bnd (if length (std_parent p) < length p then std_create_dir_all (std_parent p) else ret ()) (\<lambda>_.
                      bnd (attempt (std_create_dir p)) (\<lambda>r. case r of Inr _ \<Rightarrow> ret () | Inl e \<Rightarrow> mkdir_or_there p e))
            else mkdir_or_there p e))"
  by pat_completeness auto
termination by (relation "measure length") auto

declare std_create_dir_all.simps [simp del]

text \<open>Every path but the root is longer than its parent: the guard of the recursion never stops it.\<close>

lemma std_parent_shorter: "p \<noteq> [] \<Longrightarrow> p \<noteq> ''/'' \<Longrightarrow> length (std_parent p) < length p"
  using path_parent_shorter [of p] by (cases p) (auto simp: std_parent_def)

definition harden_dir :: "string \<Rightarrow> unit io" where
  "harden_dir path = bnd (attempt (syscall (ret ()))) (\<lambda>_. ret ())"

subsection \<open>Hashing a file (hash_path of format.rs)\<close>

function hash_loop :: "bytes \<Rightarrow> u64 \<Rightarrow> source \<Rightarrow> (bytes \<times> u64) result" where
  "hash_loop hashed tot r =
     (case read DEFAULT_CHUNK_SIZE r of
        (Inl e, r') \<Rightarrow> Inl e
      | (Inr b, r') \<Rightarrow>
          if b = [] then Inr (hashed, tot)
          else case checked_add tot (len64 b) of
                 None \<Rightarrow> Inl (Format ''size overflow'')
               | Some tot' \<Rightarrow> hash_loop (hashed @ b) tot' r')"
  by pat_completeness auto
termination
  by (relation "measure (\<lambda>(h, t, r). backlog r)") (auto dest!: sym [where t = "read _ _"] read_backlog)

declare hash_loop.simps [simp del]

definition hash_file :: "lib \<Rightarrow> string \<Rightarrow> (bytes \<times> u64) io" where
  "hash_file L path =
     bnd (std_open_read path) (\<lambda>file.
     bnd (lift (hash_loop [] 0 (file_source (node_bytes file)))) (\<lambda>(hashed, tot).
       ret (blake3 L hashed, tot)))"

definition hash_path :: "lib \<Rightarrow> string \<Rightarrow> (bytes \<times> u64) io" where
  "hash_path L path = hash_file L path"

subsection \<open>Writing through a stream cipher\<close>

text \<open>
  A streaming operation whose sink is the temporary file of a safe writer: its \<open>write_all\<close>
  calls are the next system calls, and what was accepted is appended to the file.
\<close>

definition writer_sink :: "world \<Rightarrow> sink" where
  "writer_sink w = \<lparr>sink_out = [], sink_calls = 0,
     sink_faults = (\<lambda>n. map_option (\<lambda>k. (k, 0)) (io_faults w (io_calls w + n)))\<rparr>"

definition sw_stream :: "safe_file_writer \<Rightarrow> (source \<times> sink, 'a) op \<Rightarrow> source \<Rightarrow> ('a \<times> source) io" where
  "sw_stream sw m src = (\<lambda>w.
     case m (src, writer_sink w) of
       (r, (src', k)) \<Rightarrow>
         (map_sum id (\<lambda>x. (x, src')) r,
          (case fs_get w (sw_tmp sw) of
             Some (FileNode old) \<Rightarrow> fs_put (sw_tmp sw) (FileNode (old @ sink_out k)) w
           | _ \<Rightarrow> w)\<lparr>io_calls := io_calls w + sink_calls k\<rparr>))"

definition encrypt_blob ::
  "lib \<Rightarrow> string \<Rightarrow> aead_alg \<Rightarrow> bytes \<Rightarrow> bytes \<Rightarrow> bytes \<Rightarrow> source \<Rightarrow> nat \<Rightarrow> source io" where
  "encrypt_blob L path alg key nonce aad src chunk_size =
     bnd (sw_create L path) (\<lambda>writer.
     bnd (attempt (sw_stream writer (encrypt_stream_with L alg key nonce aad chunk_size) src)) (\<lambda>r.
       case r of
         Inl e \<Rightarrow> bnd (sw_drop writer) (\<lambda>_. throw e)
       | Inr (written, src') \<Rightarrow> bnd (sw_commit_without_dir_sync writer) (\<lambda>_. ret src')))"

text \<open>What went through a \<open>HashingReader\<close> that was left at \<open>src'\<close>.\<close>

definition hashed_bytes :: "source \<Rightarrow> source \<Rightarrow> bytes" where
  "hashed_bytes src src' = take (length (content src) - length (content src')) (content src)"

subsection \<open>The reader\<close>

record vault_reader_v2 =
  v2_dir :: string
  v2_suite :: suite_id
  v2_header_bytes :: bytes
  v2_manifest_key :: bytes
  v2_manifest :: manifest_v2
  v2_owner_fingerprint :: bytes
  v2_state :: "state_metadata option"
  v2_view :: "entry list"
  v2_pending_reclaim :: "string list"

definition v2_alg :: "vault_reader_v2 \<Rightarrow> aead_alg" where
  "v2_alg self = suite_aead_alg (v2_suite self)"

definition v2_file_count :: "vault_reader_v2 \<Rightarrow> nat" where
  "v2_file_count self = length (filter (\<lambda>e. e2_kind e = File) (m2_entries (v2_manifest self)))"

definition v2_total_size :: "vault_reader_v2 \<Rightarrow> u64" where
  "v2_total_size self =
     sum_list (map e2_size (filter (\<lambda>e. e2_kind e = File) (m2_entries (v2_manifest self))))"

definition blob_path :: "vault_reader_v2 \<Rightarrow> string \<Rightarrow> string" where
  "blob_path self file_id = path_join (path_join (v2_dir self) BLOBS_DIR) file_id"

definition open_blob :: "vault_reader_v2 \<Rightarrow> string \<Rightarrow> u64 \<Rightarrow> u32 \<Rightarrow> bytes io" where
  "open_blob self file_id sz chunk_size =
     (if chunk_size = 0 then throw (Format ''bad chunk size'')
      else
        let chunks = num_chunks sz (ucast chunk_size) in
        if chunks > 0xFFFFFFFF then throw (Format ''too many blob chunks'')
        else
          bnd (lift (ok_or (Format ''blob length overflow'') (checked_add sz (chunks * of_nat TAG_LEN)))) (\<lambda>expected.
          bnd (std_open_read (blob_path self file_id)) (\<lambda>file.
          bnd (syscall (ret ())) (\<lambda>_.
            if \<not> is_file file \<or> length (node_bytes file) \<noteq> unat expected
            then throw (Format ''blob length mismatch'')
            else ret (node_bytes file)))))"

definition file_entry :: "vault_reader_v2 \<Rightarrow> string \<Rightarrow> entry_v2 result" where
  "file_entry self path =
     rbind (normalize_stored_path path) (\<lambda>norm.
     rbind (ok_or (Vault ''entry not found'') (find (\<lambda>e. e2_path e = norm) (m2_entries (v2_manifest self)))) (\<lambda>e.
       if e2_kind e \<noteq> File then Inl (Vault ''not a file'') else Inr e))"

definition read_exact_at :: "bytes \<Rightarrow> u64 \<Rightarrow> u64 \<Rightarrow> bytes io" where
  "read_exact_at file off n =
     bnd (syscall (ret ())) (\<lambda>_.
     syscall (\<lambda>w. if unat off + unat n \<le> length file then (Inr (take (unat n) (drop (unat off) file)), w)
                  else (Inl (Io (IoKind UnexpectedEof)), w)))"

definition decrypt_blob_chunk ::
  "lib \<Rightarrow> vault_reader_v2 \<Rightarrow> bytes \<Rightarrow> entry_v2 \<Rightarrow> bytes \<Rightarrow> bytes \<Rightarrow> u64 \<Rightarrow> bytes io" where
  "decrypt_blob_chunk L self file e key nonce c =
     (let chunk = ucast (e2_chunk_size e) :: u64;
          last_index = num_chunks (e2_size e) chunk - 1;
          is_last = (c = last_index);
          pt_len = (if is_last then e2_size e - last_index * chunk else chunk);
          ct_len = pt_len + of_nat TAG_LEN;
          ct_off = c * (chunk + of_nat TAG_LEN)
      in bnd (read_exact_at file ct_off ct_len) (\<lambda>ct.
         lift (decrypt_chunk_with L (v2_alg self) key nonce (v2_header_bytes self) (ucast c) is_last ct)))"

definition read_entry_to_writer ::
  "lib \<Rightarrow> vault_reader_v2 \<Rightarrow> string \<Rightarrow> (bytes \<Rightarrow> (world \<times> 'o, unit) op) \<Rightarrow> (world \<times> 'o, unit) op" where
  "read_entry_to_writer L self path out =
     bnd (lift (file_entry self path)) (\<lambda>e.
       let chunk = ucast (e2_chunk_size e) :: u64 in
       if chunk = 0 then throw (Format ''bad chunk size'')
       else
         bnd (lift (ok_or (Format ''missing blob key'') (e2_key e))) (\<lambda>key.
         bnd (lift (ok_or (Format ''missing blob nonce'') (e2_nonce e))) (\<lambda>nonce.
         bnd (lift (blob_id e)) (\<lambda>i.
         bnd (on_fst (open_blob self i (e2_size e) (e2_chunk_size e))) (\<lambda>file.
           let last_index = num_chunks (e2_size e) chunk - 1 in
           bnd (io_fold (\<lambda>c hasher.
                  bnd (on_fst (decrypt_blob_chunk L self file e key nonce c)) (\<lambda>pt.
                  bnd (out pt) (\<lambda>_. ret (hasher @ pt))))
                (map of_nat [0..<Suc (unat last_index)]) []) (\<lambda>hasher.
             if \<not> ct_eq (blake3 L hasher) (e2_blake3 e) then throw Auth else ret ()))))))"

text \<open>Into a buffer (whose allocation is not modelled).\<close>

definition vec_write :: "bytes \<Rightarrow> (world \<times> bytes, unit) op" where
  "vec_write b = modify (map_prod id (\<lambda>buf. buf @ b))"

definition read_entry :: "lib \<Rightarrow> vault_reader_v2 \<Rightarrow> string \<Rightarrow> bytes io" where
  "read_entry L self path =
     bnd (lift (file_entry self path)) (\<lambda>_.
     bnd (with_local [] (read_entry_to_writer L self path vec_write)) (\<lambda>(_, buf). ret buf))"

definition extract_entry :: "lib \<Rightarrow> vault_reader_v2 \<Rightarrow> string \<Rightarrow> entry_v2 \<Rightarrow> unit io" where
  "extract_entry L self dest e =
     bnd (lift (normalize_path (e2_path e))) (\<lambda>norm.
       let target = path_join dest norm in
       case e2_kind e of
         Dir \<Rightarrow> create_dirs_no_symlink dest target
       | File \<Rightarrow>
           bnd (create_dirs_no_symlink dest (std_parent target)) (\<lambda>_.
           with_writer L target
             (\<lambda>out. with_local () (read_entry_to_writer L self (e2_path e) (\<lambda>b. on_fst (sw_write_all out b))))
             sw_commit))"

definition extract_to :: "lib \<Rightarrow> unicode_lib \<Rightarrow> vault_reader_v2 \<Rightarrow> string \<Rightarrow> unit io" where
  "extract_to L U self dest =
     bnd (preflight_extraction U dest (map (\<lambda>e. (e2_path e, e2_kind e)) (m2_entries (v2_manifest self)))) (\<lambda>_.
     io_for (extract_entry L self dest) (m2_entries (v2_manifest self)))"

definition materialize :: "lib \<Rightarrow> vault_reader_v2 \<Rightarrow> (string \<Rightarrow> bool) \<Rightarrow> vault io" where
  "materialize L self keep =
     bnd (with_local (vault_new (m2_vault_name (v2_manifest self)) (m2_created_at (v2_manifest self)))
       (io_for (\<lambda>e.
          if \<not> keep (e2_path e) then ret ()
          else case e2_kind e of
                 Dir \<Rightarrow> on_snd (add_dir (e2_path e))
               | File \<Rightarrow>
                   bnd (on_fst (read_entry L self (e2_path e))) (\<lambda>contents.
                   on_snd (add_file (e2_path e) contents (e2_mtime e) (e2_mode e))))
        (m2_entries (v2_manifest self)))) (\<lambda>(_, v). ret v)"

definition to_vault :: "lib \<Rightarrow> vault_reader_v2 \<Rightarrow> vault io" where
  "to_vault L self = materialize L self (\<lambda>_. True)"

definition to_vault_for_export :: "lib \<Rightarrow> vault_reader_v2 \<Rightarrow> vault io" where
  "to_vault_for_export L self = materialize L self (\<lambda>path. \<not> is_trashed path)"

subsection \<open>Sealing the manifest\<close>

definition seal_and_write ::
  "lib \<Rightarrow> v2_codecs \<Rightarrow> vault_reader_v2 \<Rightarrow> manifest_v2 \<Rightarrow> (state_metadata \<times> bool) io" where
  "seal_and_write L C self manifest =
     bnd (attempt (sync_dir (path_join (v2_dir self) BLOBS_DIR))) (\<lambda>_.
     bnd (lift (to_vec (manifest_codec2 C) manifest)) (\<lambda>pt.
       let previous = map_option from_metadata (v2_state self) in
       bnd (lift (vault_object_id L C (v2_header_bytes self))) (\<lambda>object_id.
       bnd (lift (sm_next L (v2_owner_fingerprint self) VaultManifest object_id (to_u16 (v2_suite self)) previous pt)) (\<lambda>state.
       bnd (random_vec (nonce_len (v2_alg self))) (\<lambda>nonce.
         let aad = manifest_aad (v2_header_bytes self) state in
         bnd (lift (seal_with L (v2_alg self) (v2_manifest_key self) nonce aad pt)) (\<lambda>ct.
         bnd (lift (to_vec (envelope_codec3 C)
                \<lparr>me_version = MANIFEST_ENVELOPE_VERSION, me_state = state, me_nonce = nonce, me_ciphertext = ct\<rparr>)) (\<lambda>buf.
         bnd (write_atomic L (path_join (v2_dir self) MANIFEST_FILE) buf) (\<lambda>durable.
           ret (state, durable)))))))))"

definition reseal_manifest :: "lib \<Rightarrow> v2_codecs \<Rightarrow> (vault_reader_v2 \<times> world, unit) op" where
  "reseal_manifest L C =
     bnd (gets fst) (\<lambda>self.
     bnd (on_snd (seal_and_write L C self (v2_manifest self))) (\<lambda>(state, durable).
     modify (map_prod (\<lambda>self. self\<lparr>v2_state := Some state, v2_view := view_of (v2_manifest self)\<rparr>) id)))"

text \<open>The local \<open>me\<close> of a constructor: built, resealed and returned.\<close>

definition resealed :: "lib \<Rightarrow> v2_codecs \<Rightarrow> vault_reader_v2 \<Rightarrow> vault_reader_v2 io" where
  "resealed L C me w =
     (case reseal_manifest L C (me, w) of
        (Inl e, (_, w')) \<Rightarrow> (Inl e, w')
      | (Inr _, (me', w')) \<Rightarrow> (Inr me', w'))"

definition create_inner ::
  "lib \<Rightarrow> v2_codecs \<Rightarrow> string \<Rightarrow> identity \<Rightarrow> suite_id \<Rightarrow> string \<Rightarrow> int \<Rightarrow> bytes \<Rightarrow> vault_reader_v2 io" where
  "create_inner L C dir i suite vname created_at vault_id =
     (if \<not> is_supported suite then throw (UnsupportedSuite (to_u16 suite))
      else
        bnd (std_create_dir_all (path_join dir BLOBS_DIR)) (\<lambda>_.
        bnd (harden_dir dir) (\<lambda>_.
        bnd (harden_dir (path_join dir BLOBS_DIR)) (\<lambda>_.
        bnd symkey_random (\<lambda>manifest_key.
        bnd (wrap_for_recipient L manifest_key (id_public L i) suite) (\<lambda>manifest_stanza.
          let header = \<lparr>vh_format_version = FORMAT_VERSION_V2, vh_suite_id = to_u16 suite, vh_vault_id = vault_id,
                        vh_manifest_stanza = manifest_stanza\<rparr>
          in bnd (lift (to_vec (header_codec2 C) header)) (\<lambda>header_bytes.
             bnd (write_atomic L (path_join dir HEADER_FILE) header_bytes) (\<lambda>_.
               resealed L C
                 \<lparr>v2_dir = dir, v2_suite = suite, v2_header_bytes = header_bytes, v2_manifest_key = manifest_key,
                  v2_manifest = \<lparr>m2_vault_name = vname, m2_created_at = created_at, m2_entries = []\<rparr>,
                  v2_owner_fingerprint = id_fingerprint L i, v2_state = None, v2_view = [], v2_pending_reclaim = []\<rparr>))))))))"

definition v2_create ::
  "lib \<Rightarrow> v2_codecs \<Rightarrow> string \<Rightarrow> identity \<Rightarrow> suite_id \<Rightarrow> string \<Rightarrow> int \<Rightarrow> vault_reader_v2 io" where
  "v2_create L C dir i suite vname created_at =
     bnd (random_array 16) (\<lambda>vault_id. create_inner L C dir i suite vname created_at vault_id)"

definition create_with_object_id ::
  "lib \<Rightarrow> v2_codecs \<Rightarrow> string \<Rightarrow> identity \<Rightarrow> suite_id \<Rightarrow> string \<Rightarrow> int \<Rightarrow> string \<Rightarrow> vault_reader_v2 io" where
  "create_with_object_id L C dir i suite vname created_at object_id =
     bnd (lift (ok_or (Format ''vault object id must be lowercase hex'') (hexlower_decode L object_id))) (\<lambda>decoded.
       if length decoded \<noteq> 16 then throw (Format ''vault object id must encode 16 bytes'')
       else create_inner L C dir i suite vname created_at decoded)"

subsection \<open>Opening\<close>

text \<open>The first steps of \<open>open\<close> and \<open>recover_legacy\<close>: header, suite, manifest key, raw manifest.\<close>

definition read_sealed ::
  "lib \<Rightarrow> bool \<Rightarrow> v2_codecs \<Rightarrow> string \<Rightarrow> identity \<Rightarrow> (bytes \<times> vault_header_v2 \<times> suite_id \<times> bytes \<times> bytes) io" where
  "read_sealed L pqc C dir i =
     bnd (read_bounded_file (path_join dir HEADER_FILE) MAX_VAULT_HEADER_LEN) (\<lambda>header_bytes.
     bnd (lift (from_slice (header_codec2 C) header_bytes)) (\<lambda>header.
       if vh_format_version header \<noteq> FORMAT_VERSION_V2 then throw (Format ''unsupported v2 format version'')
       else
         bnd (lift (from_u16 pqc (vh_suite_id header))) (\<lambda>suite.
         bnd (lift (unwrap_with_identity L (vh_manifest_stanza header) i)) (\<lambda>manifest_key.
         bnd (read_bounded_file (path_join dir MANIFEST_FILE) MAX_MANIFEST_LEN) (\<lambda>raw.
           ret (header_bytes, header, suite, manifest_key, raw))))))"

definition opened_reader ::
  "lib \<Rightarrow> string \<Rightarrow> identity \<Rightarrow> bytes \<Rightarrow> suite_id \<Rightarrow> bytes \<Rightarrow> manifest_v2 \<Rightarrow> state_metadata option \<Rightarrow> vault_reader_v2" where
  "opened_reader L dir i header_bytes suite manifest_key manifest state =
     \<lparr>v2_dir = dir, v2_suite = suite, v2_header_bytes = header_bytes, v2_manifest_key = manifest_key,
      v2_manifest = manifest, v2_owner_fingerprint = id_fingerprint L i, v2_state = state,
      v2_view = view_of manifest, v2_pending_reclaim = []\<rparr>"

definition v2_open :: "lib \<Rightarrow> bool \<Rightarrow> v2_codecs \<Rightarrow> string \<Rightarrow> identity \<Rightarrow> vault_reader_v2 io" where
  "v2_open L pqc C dir i =
     bnd (read_sealed L pqc C dir i) (\<lambda>(header_bytes, header, suite, manifest_key, raw).
     bnd (lift (map_err (\<lambda>_. LegacyState ''v2 vault manifest'') (from_slice (envelope_codec3 C) raw))) (\<lambda>envelope.
       if me_version envelope \<noteq> MANIFEST_ENVELOPE_VERSION
          \<or> sm_object_type (me_state envelope) \<noteq> VaultManifest
          \<or> sm_object_id (me_state envelope) \<noteq> hex L (vh_vault_id header)
          \<or> sm_suite_id (me_state envelope) \<noteq> to_u16 suite
          \<or> sm_identity_fingerprint (me_state envelope) \<noteq> id_fingerprint L i
          \<or> length (me_nonce envelope) \<noteq> nonce_len (suite_aead_alg suite)
       then throw (StateMismatch (sm_label (me_state envelope)))
       else
         let aad = manifest_aad header_bytes (me_state envelope) in
         bnd (lift (open_with L (suite_aead_alg suite) manifest_key (me_nonce envelope) aad (me_ciphertext envelope))) (\<lambda>pt.
         bnd (lift (verify_payload L (me_state envelope) pt)) (\<lambda>_.
         bnd (lift (from_slice (manifest_codec2 C) pt)) (\<lambda>manifest.
         bnd (lift (validate_manifest_v2 manifest (suite_aead_alg suite))) (\<lambda>_.
           ret (opened_reader L dir i header_bytes suite manifest_key manifest (Some (me_state envelope)))))))))"

definition recover_legacy :: "lib \<Rightarrow> bool \<Rightarrow> v2_codecs \<Rightarrow> string \<Rightarrow> identity \<Rightarrow> vault_reader_v2 io" where
  "recover_legacy L pqc C dir i =
     bnd (read_sealed L pqc C dir i) (\<lambda>(header_bytes, header, suite, manifest_key, raw).
       if is_ok (from_slice (envelope_codec3 C) raw) then throw (Format ''vault manifest is already rollback protected'')
       else
         let nlen = nonce_len (suite_aead_alg suite) in
         if length raw < nlen then throw (Format ''truncated legacy v2 manifest'')
         else
           bnd (lift (open_with L (suite_aead_alg suite) manifest_key (take nlen raw) header_bytes (drop nlen raw))) (\<lambda>pt.
           bnd (lift (from_slice (manifest_codec2 C) pt)) (\<lambda>manifest.
           bnd (lift (validate_manifest_v2 manifest (suite_aead_alg suite))) (\<lambda>_.
             resealed L C (opened_reader L dir i header_bytes suite manifest_key manifest None)))))"

subsection \<open>Writing a blob\<close>

record staged_blob =
  sb_file_id :: string
  sb_key :: bytes
  sb_nonce :: bytes

definition new_file_id :: "lib \<Rightarrow> string io" where
  "new_file_id L = bnd (random_array 16) (\<lambda>b. ret (hex L b))"

definition write_blob :: "lib \<Rightarrow> vault_reader_v2 \<Rightarrow> bytes \<Rightarrow> u64 \<Rightarrow> source \<Rightarrow> (staged_blob \<times> source) io" where
  "write_blob L self digest sz src =
     bnd (new_file_id L) (\<lambda>file_id.
     bnd symkey_random (\<lambda>key.
     bnd (random_vec (stream_nonce_len (v2_alg self))) (\<lambda>nonce.
     bnd (encrypt_blob L (blob_path self file_id) (v2_alg self) key nonce (v2_header_bytes self) src DEFAULT_CHUNK_SIZE) (\<lambda>src'.
       if length (hashed_bytes src src') \<noteq> unat sz \<or> \<not> ct_eq (blake3 L (hashed_bytes src src')) digest
       then bnd (attempt (std_remove_file (blob_path self file_id))) (\<lambda>_. throw Auth)
       else ret (\<lparr>sb_file_id = file_id, sb_key = key, sb_nonce = nonce\<rparr>, src')))))"

subsection \<open>The generator\<close>

text \<open>
  A predicate on the generator alone: it survives every system call and every draw. The rules
  follow the operations, and are used for the length of what is drawn and for its order.
\<close>

named_theorems rng_intros \<open>operations that only draw from the generator\<close>

definition rng_stable :: "(world \<Rightarrow> bool) \<Rightarrow> bool" where
  "rng_stable P \<longleftrightarrow> (\<forall>w k x. P w \<longrightarrow> P (w\<lparr>io_calls := k\<rparr>) \<and> P (w\<lparr>fs := x\<rparr>) \<and> P (w\<lparr>rng_calls := rng_calls w + 1\<rparr>))"

lemma rng_stableD:
  assumes "rng_stable P" and "P w"
  shows "P (w\<lparr>io_calls := k\<rparr>)" "P (w\<lparr>fs := x\<rparr>)" "P (w\<lparr>rng_calls := rng_calls w + 1\<rparr>)" "P (w\<lparr>rng_calls := Suc (rng_calls w)\<rparr>)"
    "P (fs_put p n w)" "P (fs_del p w)"
  using assms by (simp_all add: rng_stable_def fs_put_def fs_del_def)

lemma rng_stable_fills: "rng_stable rng_fills"
  by (simp add: rng_stable_def rng_fills_def)

lemma rng_syscalls [rng_intros]:
  assumes "rng_stable P"
  shows "preserves P (std_metadata p)" "preserves P (std_symlink_metadata p)" "preserves P (std_open_read p)"
  "preserves P (std_create_new p)" "preserves P (std_append p b)" "preserves P (std_sync p)"
  "preserves P (std_rename p q)" "preserves P (std_remove_file p)" "preserves P (std_create_dir p)"
  "preserves P (std_read_dir p)" "preserves P (syscall (ret ()))"
  unfolding std_metadata_def std_symlink_metadata_def std_open_read_def std_create_new_def std_append_def std_sync_def
    std_rename_def std_remove_file_def std_create_dir_def std_read_dir_def
  by (rule preserves_syscall; auto simp: preserves_def not_found_def rng_stableD [OF assms] split: option.splits node.splits if_splits)+

lemma rng_random [rng_intros]:
  assumes "rng_stable P"
  shows "preserves P (getrandom n)" "preserves P (random_array n)" "preserves P (random_vec n)" "preserves P symkey_random"
  unfolding random_defs
  by (auto intro!: preservesI dest!: getrandom_world simp: rng_stableD [OF assms])

lemmas rng_monad = preserves_ret preserves_throw preserves_lift preserves_gets preserves_bnd preserves_attempt preserves_if
  preserves_option preserves_prod preserves_sum preserves_node preserves_io_for preserves_io_fold

lemma rng_temp [rng_intros]: "rng_stable P \<Longrightarrow> preserves P (create_private_temp_loop L n d)"
proof (induction n)
  case 0
  show ?case unfolding create_private_temp_loop.simps by (rule preserves_throw)
next
  case (Suc n)
  show ?case unfolding create_private_temp_loop.simps Let_def open_new_private_def
    by (intro rng_monad rng_intros Suc)
qed

lemma rng_writer [rng_intros]:
  assumes "rng_stable P"
  shows "preserves P (reject_symlink p)" "preserves P (sw_create L p)" "preserves P (sw_write_all sw b)"
  "preserves P (sw_drop sw)" "preserves P (sw_commit_without_dir_sync sw)"
  "preserves P (sync_dir p)" "preserves P (sw_commit_durable sw)" "preserves P (sw_commit sw)" "preserves P (write_atomic L p b)"
  unfolding reject_symlink_def sw_create_def create_private_temp_def sw_write_all_def sw_drop_def
    sw_commit_without_dir_sync_def sw_commit_body_def sync_dir_def sw_commit_durable_def sw_commit_def
    write_atomic_def with_writer_def
  by (intro rng_monad rng_intros assms)+

lemma rng_sw_stream [rng_intros]: "rng_stable P \<Longrightarrow> preserves P (sw_stream sw m src)"
  by (auto simp: preserves_def sw_stream_def rng_stableD split: prod.splits option.splits node.splits)

lemma rng_blobs [rng_intros]:
  assumes "rng_stable P"
  shows "preserves P (encrypt_blob L p alg k n aad src sz)" "preserves P (write_blob L self d sz0 src)" "preserves P (hash_path L p)"
  unfolding encrypt_blob_def write_blob_def new_file_id_def hash_path_def hash_file_def
  by (intro rng_monad rng_intros assms)+

lemmas rng_fills_write_blob = rng_blobs(2) [OF rng_stable_fills]
  and rng_fills_hash_path = rng_blobs(3) [OF rng_stable_fills]
  and rng_fills_open_read = rng_syscalls(3) [OF rng_stable_fills]

text \<open>What a staged blob is: a fresh id of the right shape, a key and a nonce of the right
  lengths, for exactly the bytes that were declared.\<close>

lemma write_blob_result:
  assumes "write_blob L self d sz src w = (Inr (blob, src'), w')" and "rng_fills w" and "hexlower_spec L"
  shows "blob_id_ok (sb_file_id blob)" "length (sb_key blob) = 32" "length (sb_nonce blob) = stream_nonce_len (v2_alg self)"
    "length (hashed_bytes src src') = unat sz" "blake3 L (hashed_bytes src src') = d"
proof -
  from assms(1) obtain i w1 key w2 nonce w3 w4 where r: "getrandom 16 w = (Inr i, w1)" "getrandom 32 w1 = (Inr key, w2)"
    "getrandom (stream_nonce_len (v2_alg self)) w2 = (Inr nonce, w3)"
    and blob: "blob = \<lparr>sb_file_id = hex L i, sb_key = key, sb_nonce = nonce\<rparr>"
    and chk: "length (hashed_bytes src src') = unat sz" "blake3 L (hashed_bytes src src') = d"
    by (auto simp: write_blob_def new_file_id_def random_defs bnd_eq_Inr bnd_eq attempt_eq split: if_splits)
  have f: "rng_fills w1" "rng_fills w2" using getrandom_fills r(1,2) assms(2) by blast+
  have "length i = 16" "length key = 32" "length nonce = stream_nonce_len (v2_alg self)"
    using getrandom_length assms(2) f r by blast+
  with blob chk assms(3) show "blob_id_ok (sb_file_id blob)" "length (sb_key blob) = 32"
    "length (sb_nonce blob) = stream_nonce_len (v2_alg self)"
    "length (hashed_bytes src src') = unat sz" "blake3 L (hashed_bytes src src') = d"
    by (auto simp: blob_id_ok_def hex_def hexlower_spec_def)
qed

end
