(* ===== verification/V2_Batch.thy ===== *)
theory V2_Batch
  imports V2_Store Net_Transport
begin

section \<open>The batch editor (VaultBatch of format_v2.rs)\<close>

text \<open>
  \<open>VaultBatch\<close> edits a copy of the manifest beside a path index. Its operations are modelled
  on the pair of the batch and the world, in which the blobs are written. The invariant is that
  the index is exactly the positions of the entries by path; under it the batch refines the
  abstract trees of \<open>Core_Tree\<close>, which gives it the interface \<open>tree_editor\<close>.
\<close>

subsection \<open>Operations\<close>

record vault_batch =
  vb_reader :: vault_reader_v2
  vb_manifest :: manifest_v2
  vb_index :: "string \<rightharpoonup> nat"
  vb_staged :: "string list"
  vb_superseded :: "string list"
  vb_changed :: bool
  vb_ops :: nat
  vb_limit :: "nat option"

type_synonym 'a batch = "(vault_batch, 'a) op"

text \<open>Collecting pairs into a hash map: a later pair replaces an earlier one.\<close>

definition index_entries :: "manifest_v2 \<Rightarrow> string \<rightharpoonup> nat" where
  "index_entries m = map_of (rev (zip (map e2_path (m2_entries m)) [0..<length (m2_entries m)]))"

definition vb_new :: "vault_reader_v2 \<Rightarrow> nat option \<Rightarrow> vault_batch" where
  "vb_new rd lim =
     \<lparr>vb_reader = rd, vb_manifest = v2_manifest rd, vb_index = index_entries (v2_manifest rd), vb_staged = [],
      vb_superseded = [], vb_changed = False, vb_ops = 0, vb_limit = lim\<rparr>"

fun show_nat :: "nat \<Rightarrow> string" where
  "show_nat n = (if n < 10 then [char_of (48 + n)] else show_nat (n div 10) @ [char_of (48 + n mod 10)])"

declare show_nat.simps [simp del]

definition count_op :: "unit batch" where
  "count_op =
     bnd (modify (\<lambda>b. b\<lparr>vb_ops := vb_ops b + 1\<rparr>)) (\<lambda>_.
     bnd (gets (\<lambda>b. (vb_limit b, vb_ops b))) (\<lambda>(lim, ops).
       case lim of
         Some n \<Rightarrow> if ops > n then throw (Vault (''a batch holds at most '' @ show_nat n @ '' operations'')) else ret ()
       | None \<Rightarrow> ret ()))"

definition vb_entries :: "vault_batch \<Rightarrow> entry_v2 list" where
  "vb_entries b = m2_entries (vb_manifest b)"

definition kind_at :: "vault_batch \<Rightarrow> string \<Rightarrow> entry_kind option" where
  "kind_at b path = map_option (\<lambda>i. e2_kind (vb_entries b ! i)) (vb_index b path)"

definition set_entries :: "entry_v2 list \<Rightarrow> vault_batch \<Rightarrow> vault_batch" where
  "set_entries es b = b\<lparr>vb_manifest := (vb_manifest b)\<lparr>m2_entries := es\<rparr>\<rparr>"

definition reindex :: "vault_batch \<Rightarrow> vault_batch" where
  "reindex b = b\<lparr>vb_index := index_entries (vb_manifest b)\<rparr>"

text \<open>Record the position and push, the pair of statements that adds an entry.\<close>

definition push_indexed :: "entry_v2 \<Rightarrow> vault_batch \<Rightarrow> vault_batch" where
  "push_indexed e b =
     set_entries (vb_entries b @ [e]) (b\<lparr>vb_index := (vb_index b)(e2_path e \<mapsto> length (vb_entries b))\<rparr>)"

fun ensure_dirs_loop :: "string \<Rightarrow> string list \<Rightarrow> unit batch" where
  "ensure_dirs_loop acc [] = ret ()"
| "ensure_dirs_loop acc (c # cs) =
     (let acc' = (if acc \<noteq> [] then acc @ ''/'' else acc) @ c in
      bnd (gets (\<lambda>b. kind_at b acc')) (\<lambda>k.
        case k of
          Some Dir \<Rightarrow> ensure_dirs_loop acc' cs
        | Some File \<Rightarrow> throw (Vault (''a file exists at '' @ acc' @ ''; it cannot contain other entries''))
        | None \<Rightarrow> bnd (modify (push_indexed (dir_entry acc'))) (\<lambda>_. ensure_dirs_loop acc' cs)))"

definition ensure_dirs :: "string \<Rightarrow> unit batch" where
  "ensure_dirs norm =
     (let comps = split_on slash norm in ensure_dirs_loop [] (take (length comps - 1) comps))"

definition place :: "string \<Rightarrow> staged_blob \<Rightarrow> bytes \<Rightarrow> u64 \<Rightarrow> int option \<Rightarrow> u32 option \<Rightarrow> unit batch" where
  "place norm blob digest sz mtime mode =
     bnd (modify (\<lambda>b. b\<lparr>vb_staged := vb_staged b @ [sb_file_id blob]\<rparr>)) (\<lambda>_.
       let e = \<lparr>e2_path = norm, e2_kind = File, e2_size = sz, e2_mtime = mtime, e2_mode = mode, e2_blake3 = digest,
                e2_file_id = Some (sb_file_id blob), e2_key = Some (sb_key blob), e2_nonce = Some (sb_nonce blob),
                e2_chunk_size = of_nat DEFAULT_CHUNK_SIZE\<rparr>
       in bnd (gets (\<lambda>b. vb_index b norm)) (\<lambda>at.
          bnd (case at of
                 Some i \<Rightarrow> modify (\<lambda>b. set_entries ((vb_entries b)[i := e])
                   (b\<lparr>vb_superseded := vb_superseded b @ (case e2_file_id (vb_entries b ! i) of None \<Rightarrow> [] | Some f \<Rightarrow> [f])\<rparr>))
               | None \<Rightarrow> bnd (ensure_dirs norm) (\<lambda>_. modify (push_indexed e))) (\<lambda>_.
          modify (\<lambda>b. b\<lparr>vb_changed := True\<rparr>))))"

definition reject_dir :: "string \<Rightarrow> unit batch" where
  "reject_dir norm =
     bnd (gets (\<lambda>b. kind_at b norm)) (\<lambda>k.
       if k = Some Dir then throw (Vault (''a directory exists at '' @ norm)) else ret ())"

definition vb_put_file ::
  "lib \<Rightarrow> string \<Rightarrow> string \<Rightarrow> int option \<Rightarrow> u32 option \<Rightarrow> (vault_batch \<times> world, unit) op" where
  "vb_put_file L vault_path src_path mtime mode =
     bnd (on_fst count_op) (\<lambda>_.
     bnd (lift (normalize_path vault_path)) (\<lambda>norm.
     bnd (on_fst (reject_dir norm)) (\<lambda>_.
     bnd (on_snd (hash_path L src_path)) (\<lambda>(digest, sz).
     bnd (on_snd (std_open_read src_path)) (\<lambda>file.
     bnd (gets (\<lambda>s. vb_reader (fst s))) (\<lambda>rd.
     bnd (on_snd (write_blob L rd digest sz (file_source (node_bytes file)))) (\<lambda>(blob, _).
     on_fst (place norm blob digest sz mtime mode))))))))"

definition vb_put_bytes ::
  "lib \<Rightarrow> string \<Rightarrow> bytes \<Rightarrow> int option \<Rightarrow> u32 option \<Rightarrow> (vault_batch \<times> world, unit) op" where
  "vb_put_bytes L vault_path b mtime mode =
     bnd (on_fst count_op) (\<lambda>_.
     bnd (lift (normalize_path vault_path)) (\<lambda>norm.
     bnd (on_fst (reject_dir norm)) (\<lambda>_.
       let digest = blake3 L b; sz = len64 b in
       bnd (gets (\<lambda>s. vb_reader (fst s))) (\<lambda>rd.
       bnd (on_snd (write_blob L rd digest sz (file_source b))) (\<lambda>(blob, _).
       on_fst (place norm blob digest sz mtime mode))))))"

text \<open>The tail that \<open>mkdir\<close> and \<open>add_dir_trusted\<close> share; they differ in the error for a file.\<close>

definition add_dir_at :: "string \<Rightarrow> error \<Rightarrow> unit batch" where
  "add_dir_at norm conflict =
     bnd (gets (\<lambda>b. kind_at b norm)) (\<lambda>k.
       case k of
         Some Dir \<Rightarrow> ret ()
       | Some File \<Rightarrow> throw conflict
       | None \<Rightarrow>
           bnd (ensure_dirs norm) (\<lambda>_.
           bnd (modify (push_indexed (dir_entry norm))) (\<lambda>_.
           modify (\<lambda>b. b\<lparr>vb_changed := True\<rparr>))))"

definition vb_mkdir :: "string \<Rightarrow> unit batch" where
  "vb_mkdir vault_path =
     bnd count_op (\<lambda>_.
     bnd (lift (normalize_path vault_path)) (\<lambda>norm. add_dir_at norm (Vault (''a file exists at '' @ norm))))"

definition add_dir_trusted :: "string \<Rightarrow> unit batch" where
  "add_dir_trusted path =
     bnd (lift (normalize_stored_path path)) (\<lambda>norm. add_dir_at norm (Format ''a path is both a file and a directory''))"

definition put_stream_trusted ::
  "lib \<Rightarrow> string \<Rightarrow> bytes \<Rightarrow> u64 \<Rightarrow> source \<Rightarrow> int option \<Rightarrow> u32 option \<Rightarrow> (vault_batch \<times> world, source) op" where
  "put_stream_trusted L path digest sz src mtime mode =
     bnd (lift (normalize_stored_path path)) (\<lambda>norm.
     bnd (on_fst (reject_dir norm)) (\<lambda>_.
     bnd (gets (\<lambda>s. vb_reader (fst s))) (\<lambda>rd.
     bnd (on_snd (write_blob L rd digest sz src)) (\<lambda>(blob, src').
     bnd (on_fst (place norm blob digest sz mtime mode)) (\<lambda>_. ret src')))))"

definition removes :: "string \<Rightarrow> entry_v2 \<Rightarrow> bool" where
  "removes norm e \<longleftrightarrow> e2_path e = norm \<or> prefix (norm @ ''/'') (e2_path e)"

definition vb_remove :: "string \<Rightarrow> unit batch" where
  "vb_remove vault_path =
     bnd count_op (\<lambda>_.
     bnd (lift (normalize_stored_path vault_path)) (\<lambda>norm.
     modify (\<lambda>b.
       let kept = filter (\<lambda>e. \<not> removes norm e) (vb_entries b);
           removed = concat (map (\<lambda>e. case e2_file_id e of None \<Rightarrow> [] | Some f \<Rightarrow> [f]) (filter (removes norm) (vb_entries b)))
       in if length kept \<noteq> length (vb_entries b)
          then reindex (set_entries kept (b\<lparr>vb_superseded := vb_superseded b @ removed, vb_changed := True\<rparr>))
          else set_entries kept b)))"

definition vb_rename :: "string \<Rightarrow> string \<Rightarrow> unit batch" where
  "vb_rename from0 to0 =
     bnd count_op (\<lambda>_.
     bnd (lift (normalize_stored_path from0)) (\<lambda>from.
     bnd (lift (normalize_path to0)) (\<lambda>to.
       if from = to then ret ()
       else if prefix (from @ ''/'') to then throw (Vault ''cannot move a directory into itself'')
       else
         bnd (gets (\<lambda>b. vb_index b from)) (\<lambda>f.
           if f = None then throw (Vault (''not found: '' @ from))
           else
             bnd (gets (\<lambda>b. vb_index b to)) (\<lambda>t.
               if t \<noteq> None then throw (Vault (''path already exists: '' @ to))
               else
                 bnd (ensure_dirs to) (\<lambda>_.
                 modify (\<lambda>b. reindex ((set_entries (map (\<lambda>e. e\<lparr>e2_path := move_path from to (e2_path e)\<rparr>) (vb_entries b)) b)
                                        \<lparr>vb_changed := True\<rparr>))))))))"

definition vb_set_attr :: "string \<Rightarrow> int option \<Rightarrow> u32 option \<Rightarrow> unit batch" where
  "vb_set_attr vault_path mtime mode =
     bnd count_op (\<lambda>_.
     bnd (lift (normalize_stored_path vault_path)) (\<lambda>norm.
     bnd (gets (\<lambda>b. vb_index b norm)) (\<lambda>at.
       case at of
         None \<Rightarrow> throw (Vault (''not found: '' @ norm))
       | Some i \<Rightarrow>
           modify (\<lambda>b. (set_entries ((vb_entries b)[i := (vb_entries b ! i)\<lparr>e2_mtime := mtime, e2_mode := mode\<rparr>]) b)
                         \<lparr>vb_changed := True\<rparr>))))"

subsection \<open>The index\<close>

definition index_ok :: "vault_batch \<Rightarrow> bool" where
  "index_ok b \<longleftrightarrow> distinct (map e2_path (vb_entries b)) \<and> vb_index b = index_entries (vb_manifest b)"

definition batch_shape :: "vault_batch \<Rightarrow> tree" where
  "batch_shape b = map (\<lambda>e. (e2_path e, e2_kind e)) (vb_entries b)"

lemma set_entries_sel [simp]:
  "vb_entries (set_entries es b) = es" "vb_index (set_entries es b) = vb_index b" "vb_reader (set_entries es b) = vb_reader b"
  "vb_superseded (set_entries es b) = vb_superseded b" "vb_staged (set_entries es b) = vb_staged b"
  "vb_changed (set_entries es b) = vb_changed b" "m2_entries (vb_manifest (set_entries es b)) = es"
  by (simp_all add: set_entries_def vb_entries_def)

lemma vb_entries_update [simp]:
  "vb_entries (b\<lparr>vb_index := i\<rparr>) = vb_entries b" "vb_entries (b\<lparr>vb_staged := s\<rparr>) = vb_entries b"
  "vb_entries (b\<lparr>vb_superseded := s\<rparr>) = vb_entries b" "vb_entries (b\<lparr>vb_changed := c\<rparr>) = vb_entries b"
  "vb_entries (b\<lparr>vb_ops := n\<rparr>) = vb_entries b"
  by (simp_all add: vb_entries_def)

lemma batch_shape_update [simp]:
  "batch_shape (b\<lparr>vb_index := i\<rparr>) = batch_shape b" "batch_shape (b\<lparr>vb_staged := s\<rparr>) = batch_shape b"
  "batch_shape (b\<lparr>vb_superseded := s\<rparr>) = batch_shape b" "batch_shape (b\<lparr>vb_changed := c\<rparr>) = batch_shape b"
  "batch_shape (b\<lparr>vb_ops := n\<rparr>) = batch_shape b"
  "batch_shape (set_entries es b) = map (\<lambda>e. (e2_path e, e2_kind e)) es"
  by (simp_all add: batch_shape_def)

lemma index_ok_update [simp]:
  "index_ok (b\<lparr>vb_staged := s\<rparr>) = index_ok b" "index_ok (b\<lparr>vb_superseded := s\<rparr>) = index_ok b"
  "index_ok (b\<lparr>vb_changed := c\<rparr>) = index_ok b" "index_ok (b\<lparr>vb_ops := n\<rparr>) = index_ok b"
  by (simp_all add: index_ok_def)

lemma option_eqI: "(\<And>x. a = Some x \<longleftrightarrow> b = Some x) \<Longrightarrow> a = b"
  by (metis not_Some_eq)

lemma index_entries_iff:
  assumes "distinct (map e2_path (m2_entries m))"
  shows "index_entries m p = Some i \<longleftrightarrow> i < length (m2_entries m) \<and> e2_path (m2_entries m ! i) = p"
proof -
  let ?z = "zip (map e2_path (m2_entries m)) [0..<length (m2_entries m)]"
  have "distinct (map fst (rev ?z))" using assms by (simp add: rev_map [symmetric])
  then have "index_entries m p = Some i \<longleftrightarrow> (p, i) \<in> set ?z" by (simp add: index_entries_def)
  moreover have "(p, i) \<in> set ?z \<longleftrightarrow> i < length (m2_entries m) \<and> e2_path (m2_entries m ! i) = p"
    by (force simp: in_set_zip)
  ultimately show ?thesis by blast
qed

lemma index_okD:
  assumes "index_ok b"
  shows "vb_index b p = Some i \<longleftrightarrow> i < length (vb_entries b) \<and> e2_path (vb_entries b ! i) = p"
    and "distinct (map e2_path (vb_entries b))"
  using assms index_entries_iff [of "vb_manifest b" p i] by (simp_all add: index_ok_def vb_entries_def)

lemma index_okI:
  assumes "distinct (map e2_path (vb_entries b))"
    and "\<And>p i. vb_index b p = Some i \<longleftrightarrow> i < length (vb_entries b) \<and> e2_path (vb_entries b ! i) = p"
  shows "index_ok b"
proof -
  have "vb_index b p = index_entries (vb_manifest b) p" for p
    using assms index_entries_iff [of "vb_manifest b" p] by (intro option_eqI) (simp add: vb_entries_def)
  then show ?thesis using assms(1) by (auto simp: index_ok_def)
qed

lemma index_None: "index_ok b \<Longrightarrow> vb_index b p = None \<longleftrightarrow> p \<notin> e2_path ` set (vb_entries b)"
proof -
  assume ok: "index_ok b"
  have "(\<exists>i. vb_index b p = Some i) \<longleftrightarrow> p \<in> e2_path ` set (vb_entries b)"
    unfolding index_okD(1) [OF ok] by (force simp: in_set_conv_nth)
  then show ?thesis by (cases "vb_index b p") auto
qed

lemma map_of_shape_None: "map_of (batch_shape b) p = None \<longleftrightarrow> p \<notin> e2_path ` set (vb_entries b)"
  by (force simp: batch_shape_def map_of_eq_None_iff)

lemma kind_at_shape:
  assumes "index_ok b"
  shows "kind_at b p = map_of (batch_shape b) p"
proof (cases "vb_index b p")
  case None
  then have "map_of (batch_shape b) p = None" using index_None [OF assms] map_of_shape_None by blast
  with None show ?thesis by (simp add: kind_at_def)
next
  case (Some i)
  then have i: "i < length (vb_entries b)" "e2_path (vb_entries b ! i) = p" using index_okD(1) [OF assms] by blast+
  have "distinct (map fst (batch_shape b))" using index_okD(2) [OF assms] by (simp add: batch_shape_def comp_def)
  moreover have "(p, e2_kind (vb_entries b ! i)) \<in> set (batch_shape b)" using i by (auto simp: batch_shape_def)
  ultimately show ?thesis using Some by (simp add: kind_at_def)
qed

lemma push_indexed_ok:
  assumes "index_ok b" and "vb_index b (e2_path e) = None"
  shows "index_ok (push_indexed e b)" "batch_shape (push_indexed e b) = batch_shape b @ [(e2_path e, e2_kind e)]"
proof -
  note ix = index_okD(1) [OF assms(1)] and new = index_None [OF assms(1), of "e2_path e"]
  show "index_ok (push_indexed e b)"
  proof (rule index_okI)
    show "distinct (map e2_path (vb_entries (push_indexed e b)))"
      using index_okD(2) [OF assms(1)] new assms(2) by (simp add: push_indexed_def)
    fix p i
    show "vb_index (push_indexed e b) p = Some i \<longleftrightarrow>
        i < length (vb_entries (push_indexed e b)) \<and> e2_path (vb_entries (push_indexed e b) ! i) = p"
      using ix [of p i] new assms(2) by (auto simp: push_indexed_def nth_append less_Suc_eq)
  qed
  show "batch_shape (push_indexed e b) = batch_shape b @ [(e2_path e, e2_kind e)]"
    by (simp add: push_indexed_def batch_shape_def)
qed

text \<open>Changing an entry in place without its path and kind, and replacing the list.\<close>

lemma index_ok_nth:
  assumes "index_ok b" and "i < length (vb_entries b)" and "e2_path e = e2_path (vb_entries b ! i)"
  shows "index_ok (set_entries ((vb_entries b)[i := e]) b)"
proof (rule index_okI)
  have "map e2_path ((vb_entries b)[i := e]) = map e2_path (vb_entries b)"
    using assms(2,3) by (simp add: map_update list_update_same_conv)
  then show "distinct (map e2_path (vb_entries (set_entries ((vb_entries b)[i := e]) b)))"
    using index_okD(2) [OF assms(1)] by simp
  fix p j
  show "vb_index (set_entries ((vb_entries b)[i := e]) b) p = Some j \<longleftrightarrow>
      j < length (vb_entries (set_entries ((vb_entries b)[i := e]) b)) \<and>
      e2_path (vb_entries (set_entries ((vb_entries b)[i := e]) b) ! j) = p"
    using index_okD(1) [OF assms(1), of p j] assms(2,3) by (auto simp: nth_list_update)
qed

lemma shape_nth:
  assumes "i < length (vb_entries b)" and "e2_path e = e2_path (vb_entries b ! i)" and "e2_kind e = e2_kind (vb_entries b ! i)"
  shows "map (\<lambda>e. (e2_path e, e2_kind e)) ((vb_entries b)[i := e]) = batch_shape b"
  using assms by (simp add: batch_shape_def map_update list_update_same_conv)

lemma reindex_ok: "distinct (map e2_path (vb_entries b)) \<Longrightarrow> index_ok (reindex b)" "batch_shape (reindex b) = batch_shape b"
  by (simp_all add: index_ok_def reindex_def vb_entries_def batch_shape_def)

subsection \<open>The batch refines the tree\<close>

lemma ensure_dirs_loop_refines:
  assumes "index_ok b" and "ensure_dirs_loop acc cs b = (r, b')"
  shows "index_ok b' \<and> rfold tree_add_dir (accumulate acc cs) (batch_shape b)
       = (case r of Inl _ \<Rightarrow> Inl () | Inr _ \<Rightarrow> Inr (batch_shape b'))"
  using assms
proof (induction cs arbitrary: acc b)
  case Nil
  then show ?case by auto
next
  case (Cons c cs)
  let ?acc = "(if acc \<noteq> [] then acc @ ''/'' else acc) @ c"
  note k = kind_at_shape [OF Cons.prems(1), of ?acc]
  show ?case
  proof (cases "kind_at b ?acc")
    case None
    let ?b = "push_indexed (dir_entry ?acc) b"
    have ix: "vb_index b (e2_path (dir_entry ?acc)) = None" using None by (simp add: kind_at_def dir_entry_def)
    note p = push_indexed_ok [OF Cons.prems(1) ix]
    have run: "ensure_dirs_loop ?acc cs ?b = (r, b')" using Cons.prems(2) None by (simp add: Let_def)
    have e: "e2_path (dir_entry ?acc) = ?acc" "e2_kind (dir_entry ?acc) = Dir" by (simp_all add: dir_entry_def)
    have "tree_add_dir ?acc (batch_shape b) = Inr (batch_shape ?b)"
      using None k unfolding p(2) e by (simp add: tree_add_dir_def)
    with Cons.IH [OF p(1) run] show ?thesis by (simp only: accumulate.simps Let_def rfold.simps rbind_Inr)
  next
    case (Some kind)
    have m: "map_of (batch_shape b) ?acc = Some kind" using k Some by simp
    show ?thesis
    proof (cases kind)
      case File
      have "r = Inl (Vault (''a file exists at '' @ ?acc @ ''; it cannot contain other entries'')) \<and> b' = b"
        using Cons.prems(2) Some File by (simp add: Let_def del: append.simps)
      moreover have "tree_add_dir ?acc (batch_shape b) = Inl ()" using m File by (simp add: tree_add_dir_def)
      ultimately show ?thesis using Cons.prems(1) by (simp only: accumulate.simps Let_def rfold.simps rbind_Inl sum.case)
    next
      case Dir
      have run: "ensure_dirs_loop ?acc cs b = (r, b')" using Cons.prems(2) Some Dir by (simp add: Let_def)
      have "tree_add_dir ?acc (batch_shape b) = Inr (batch_shape b)" using m Dir by (simp add: tree_add_dir_def)
      with Cons.IH [OF Cons.prems(1) run] show ?thesis by (simp only: accumulate.simps Let_def rfold.simps rbind_Inr)
    qed
  qed
qed

lemma ensure_dirs_refines:
  assumes "index_ok b" and "wf_path p" and "ensure_dirs p b = (r, b')"
  shows "index_ok b' \<and> tree_parents p (batch_shape b) = (case r of Inl _ \<Rightarrow> Inl () | Inr _ \<Rightarrow> Inr (batch_shape b'))"
proof -
  have "ensure_dirs_loop [] (take (length (components p) - 1) (components p)) b = (r, b')"
    using assms(3) by (simp add: ensure_dirs_def components_def Let_def)
  from ensure_dirs_loop_refines [OF assms(1) this] show ?thesis
    unfolding tree_parents_def accumulate_ancestors [OF assms(2)] by (cases r) auto
qed

text \<open>What only counts leaves the shape and the index alone.\<close>

lemma count_op_ok: "count_op b = (r, b') \<Longrightarrow> b' = b\<lparr>vb_ops := vb_ops b + 1\<rparr>"
  by (auto simp: count_op_def bnd_eq split: option.splits if_splits)

lemma count_op_shape:
  assumes "count_op b = (r, b')"
  shows "batch_shape b' = batch_shape b" "index_ok b' = index_ok b"
  using count_op_ok [OF assms] by simp_all

lemma ensure_push_refines:
  assumes "index_ok b" and "tree_wf (batch_shape b)" and "wf_path (e2_path e)" and "vb_index b (e2_path e) = None"
    and "ensure_dirs (e2_path e) b = (Inr (), b1)"
  shows "index_ok (push_indexed e b1)"
    and "rbind (tree_parents (e2_path e) (batch_shape b)) (\<lambda>t. Inr (t @ [(e2_path e, e2_kind e)])) = Inr (batch_shape (push_indexed e b1))"
proof -
  from ensure_dirs_refines [OF assms(1,3,5)] have ix: "index_ok b1"
    and par: "tree_parents (e2_path e) (batch_shape b) = Inr (batch_shape b1)" by simp_all
  have "map_of (batch_shape b1) (e2_path e) = map_of (batch_shape b) (e2_path e)"
    by (rule tree_parents_fresh [OF assms(2,3) par])
  moreover have "map_of (batch_shape b) (e2_path e) = None"
    using index_None [OF assms(1)] map_of_shape_None assms(4) by blast
  ultimately have "vb_index b1 (e2_path e) = None" using index_None [OF ix] map_of_shape_None by metis
  from push_indexed_ok [OF ix this] par
  show "index_ok (push_indexed e b1)"
    "rbind (tree_parents (e2_path e) (batch_shape b)) (\<lambda>t. Inr (t @ [(e2_path e, e2_kind e)])) = Inr (batch_shape (push_indexed e b1))"
    by simp_all
qed

lemma add_dir_at_refines:
  assumes "index_ok b" and "tree_wf (batch_shape b)" and "canonical n" and "add_dir_at n e b = (Inr (), b')"
  shows "index_ok b' \<and> tree_mkdir n (batch_shape b) = Inr (batch_shape b')"
proof (cases "kind_at b n")
  case (Some k)
  have m: "map_of (batch_shape b) n = Some k" using Some kind_at_shape [OF assms(1), of n] by simp
  have "k = Dir \<and> b' = b" using assms(4) Some by (cases k) (auto simp: add_dir_at_def)
  with m assms(1) show ?thesis by (simp add: tree_mkdir_def)
next
  case None
  with assms(4) obtain b1 where b1: "ensure_dirs n b = (Inr (), b1)"
    and b': "b' = (push_indexed (dir_entry n) b1)\<lparr>vb_changed := True\<rparr>"
    by (auto simp: add_dir_at_def bnd_eq_Inr)
  have m: "map_of (batch_shape b) n = None" using None kind_at_shape [OF assms(1), of n] by simp
  have e: "e2_path (dir_entry n) = n" "e2_kind (dir_entry n) = Dir" by (simp_all add: dir_entry_def)
  have ix: "vb_index b n = None" using None by (simp add: kind_at_def)
  from ensure_push_refines [OF assms(1,2), of "dir_entry n" b1, unfolded e, OF canonical_wf [OF assms(3)] ix b1] m b'
  show ?thesis by (simp add: tree_mkdir_def)
qed

lemma place_refines:
  assumes "index_ok b" and "tree_wf (batch_shape b)" and "canonical n" and "place n blob d sz mtime mode b = (Inr (), b')"
    and "kind_at b n \<noteq> Some Dir"
  shows "index_ok b' \<and> tree_put n (batch_shape b) = Inr (batch_shape b')"
proof -
  let ?e = "\<lparr>e2_path = n, e2_kind = File, e2_size = sz, e2_mtime = mtime, e2_mode = mode, e2_blake3 = d,
                e2_file_id = Some (sb_file_id blob), e2_key = Some (sb_key blob), e2_nonce = Some (sb_nonce blob),
                e2_chunk_size = of_nat DEFAULT_CHUNK_SIZE\<rparr> :: entry_v2"
  let ?b = "b\<lparr>vb_staged := vb_staged b @ [sb_file_id blob]\<rparr>"
  have ok: "index_ok ?b" "tree_wf (batch_shape ?b)" using assms(1,2) by simp_all
  note k = kind_at_shape [OF assms(1), of n]
  show ?thesis
  proof (cases "vb_index b n")
    case (Some i)
    then have i: "i < length (vb_entries b)" "e2_path (vb_entries b ! i) = n" using index_okD(1) [OF assms(1)] by blast+
    have kd: "e2_kind (vb_entries b ! i) = File" using Some assms(5) by (cases "e2_kind (vb_entries b ! i)") (auto simp: kind_at_def)
    with Some k have m: "map_of (batch_shape b) n = Some File" by (simp add: kind_at_def)
    from assms(4) Some have b': "\<exists>sup. b' = (set_entries ((vb_entries b)[i := ?e]) (?b\<lparr>vb_superseded := sup\<rparr>))\<lparr>vb_changed := True\<rparr>"
      by (auto simp: place_def Let_def)
    have "index_ok (set_entries ((vb_entries (?b\<lparr>vb_superseded := sup\<rparr>))[i := ?e]) (?b\<lparr>vb_superseded := sup\<rparr>))" for sup
      by (rule index_ok_nth) (use ok i in simp_all)
    moreover have "map (\<lambda>e. (e2_path e, e2_kind e)) ((vb_entries b)[i := ?e]) = batch_shape b"
      by (rule shape_nth) (use i kd in simp_all)
    ultimately show ?thesis using b' m by (auto simp: tree_put_def)
  next
    case None
    have m: "map_of (batch_shape b) n = None" using None k by (simp add: kind_at_def)
    from assms(4) None obtain b1 where b1: "ensure_dirs n ?b = (Inr (), b1)" and b': "b' = (push_indexed ?e b1)\<lparr>vb_changed := True\<rparr>"
      by (auto simp: place_def Let_def bnd_eq_Inr)
    have "wf_path (e2_path ?e)" "vb_index ?b (e2_path ?e) = None" "ensure_dirs (e2_path ?e) ?b = (Inr (), b1)"
      using canonical_wf [OF assms(3)] None b1 by simp_all
    from ensure_push_refines [OF ok this] m b' show ?thesis by (simp add: tree_put_def)
  qed
qed

subsection \<open>The invariant of a batch\<close>

definition batch_inv :: "vault_batch \<Rightarrow> bool" where
  "batch_inv b \<longleftrightarrow> index_ok b \<and> tree_wf (batch_shape b)"

lemma batch_inv_update [simp]:
  "batch_inv (b\<lparr>vb_staged := s\<rparr>) = batch_inv b" "batch_inv (b\<lparr>vb_superseded := s\<rparr>) = batch_inv b"
  "batch_inv (b\<lparr>vb_changed := c\<rparr>) = batch_inv b" "batch_inv (b\<lparr>vb_ops := n\<rparr>) = batch_inv b"
  by (simp_all add: batch_inv_def)

lemma beneath_no_slash: "slash \<notin> set c \<Longrightarrow> \<not> beneath s c"
  by (auto simp: beneath_def prefix_def)

text \<open>Also when it stops at a file, the walk over the ancestors leaves a well-formed tree.\<close>

lemma ensure_dirs_loop_inv:
  assumes "batch_inv b" and "acc = [] \<or> (acc, Dir) \<in> set (batch_shape b)"
    and "\<forall>c \<in> set cs. c \<noteq> [] \<and> slash \<notin> set c" and "\<forall>a \<in> set (accumulate acc cs). wf_path a"
    and "ensure_dirs_loop acc cs b = (r, b')"
  shows "batch_inv b'"
  using assms
proof (induction cs arbitrary: acc b)
  case Nil
  then show ?case by auto
next
  case (Cons c cs)
  let ?acc = "(if acc \<noteq> [] then acc @ ''/'' else acc) @ c"
  have ix: "index_ok b" and wf: "tree_wf (batch_shape b)" using Cons.prems(1) by (simp_all add: batch_inv_def)
  have c: "c \<noteq> []" "slash \<notin> set c" and cs: "\<forall>c \<in> set cs. c \<noteq> [] \<and> slash \<notin> set c" using Cons.prems(3) by auto
  have ne: "?acc \<noteq> []" using c by simp
  have wfa: "wf_path ?acc" and rest: "\<forall>a \<in> set (accumulate ?acc cs). wf_path a"
    using Cons.prems(4) by (auto simp: Let_def)
  have anc: "(a, Dir) \<in> set (batch_shape b)" if "beneath a ?acc" for a
  proof (cases "acc = []")
    case True
    with that c show ?thesis using beneath_no_slash by auto
  next
    case False
    with Cons.prems(2) have accd: "(acc, Dir) \<in> set (batch_shape b)" by simp
    from that False have "beneath a acc \<or> a = acc" using c beneath_no_slash by (auto simp: beneath_join_iff)
    with accd tree_wfD(3) [OF wf accd] show ?thesis by blast
  qed
  note k = kind_at_shape [OF ix, of ?acc]
  show ?case
  proof (cases "kind_at b ?acc")
    case None
    let ?b = "push_indexed (dir_entry ?acc) b"
    have e: "e2_path (dir_entry ?acc) = ?acc" "e2_kind (dir_entry ?acc) = Dir" by (simp_all add: dir_entry_def)
    have "vb_index b (e2_path (dir_entry ?acc)) = None" using None by (simp add: kind_at_def e)
    note p = push_indexed_ok [OF ix this]
    have "tree_wf (batch_shape ?b)" unfolding p(2) e
      by (rule tree_wf_snoc [OF wf wfa]) (use None k anc in simp_all)
    then have "batch_inv ?b" using p(1) by (simp add: batch_inv_def)
    moreover have "(?acc, Dir) \<in> set (batch_shape ?b)" unfolding p(2) e by simp
    moreover have "ensure_dirs_loop ?acc cs ?b = (r, b')" using Cons.prems(5) None by (simp add: Let_def)
    ultimately show ?thesis using Cons.IH [of ?b ?acc] cs rest by blast
  next
    case (Some kind)
    show ?thesis
    proof (cases kind)
      case File
      have "b' = b" using Cons.prems(5) Some File by (simp add: Let_def)
      with Cons.prems(1) show ?thesis by simp
    next
      case Dir
      have run: "ensure_dirs_loop ?acc cs b = (r, b')" using Cons.prems(5) Some Dir by (simp add: Let_def)
      have "map_of (batch_shape b) ?acc = Some Dir" using k Some Dir by simp
      then have "(?acc, Dir) \<in> set (batch_shape b)" by (rule map_of_SomeD)
      then show ?thesis using Cons.IH [of b ?acc] Cons.prems(1) cs rest run by blast
    qed
  qed
qed

lemma ensure_dirs_inv: "wf_path n \<Longrightarrow> preserves batch_inv (ensure_dirs n)"
proof (rule preservesI)
  fix b r b'
  assume wf: "wf_path n" and inv: "batch_inv b" and run: "ensure_dirs n b = (r, b')"
  let ?cs = "take (length (components n) - 1) (components n)"
  have "\<forall>c \<in> set (components n). c \<noteq> [] \<and> slash \<notin> set c"
    using wf by (simp add: wf_path_def list_all_iff portable_component_def)
  then have "\<forall>c \<in> set ?cs. c \<noteq> [] \<and> slash \<notin> set c" by (meson in_set_takeD)
  moreover have "\<forall>a \<in> set (accumulate [] ?cs). wf_path a"
    unfolding accumulate_ancestors [OF wf] using set_ancestors [OF wf] wf_path_under [OF wf] by blast
  moreover have "ensure_dirs_loop [] ?cs b = (r, b')" using run by (simp add: ensure_dirs_def components_def Let_def)
  ultimately show "batch_inv b'" using ensure_dirs_loop_inv [OF inv] by blast
qed

lemma count_op_inv: "preserves batch_inv count_op"
  by (rule preservesI) (auto dest!: count_op_ok)

lemma modify_preserves: "(\<And>b. P b \<Longrightarrow> P (f b)) \<Longrightarrow> preserves P (modify f)"
  by (auto simp: preserves_def)

lemma push_inv:
  assumes "batch_inv b" and "canonical (e2_path e)" and "vb_index b (e2_path e) = None" and "ensure_dirs (e2_path e) b = (Inr (), b1)"
  shows "batch_inv (push_indexed e b1)"
proof -
  have b: "index_ok b" "tree_wf (batch_shape b)" using assms(1) by (simp_all add: batch_inv_def)
  note p = ensure_push_refines [OF b canonical_wf [OF assms(2)] assms(3,4)]
  then obtain t where t: "tree_parents (e2_path e) (batch_shape b) = Inr t"
    "batch_shape (push_indexed e b1) = t @ [(e2_path e, e2_kind e)]" by (auto simp: result_simps)
  have "map_of (batch_shape b) (e2_path e) = None"
    using index_None [OF b(1)] map_of_shape_None assms(3) by blast
  from tree_append_wf [OF b(2) canonical_wf [OF assms(2)] this t(1)] t(2) p(1) show ?thesis
    by (simp add: batch_inv_def)
qed

lemma add_dir_at_inv:
  assumes "canonical n"
  shows "preserves batch_inv (add_dir_at n e)"
proof (rule preservesI)
  fix b r b'
  assume inv: "batch_inv b" and run: "add_dir_at n e b = (r, b')"
  show "batch_inv b'"
  proof (cases "kind_at b n")
    case (Some k)
    with run inv show ?thesis by (cases k) (auto simp: add_dir_at_def)
  next
    case None
    have d: "e2_path (dir_entry n) = n" by (simp add: dir_entry_def)
    have ix: "vb_index b n = None" using None by (simp add: kind_at_def)
    obtain q b1 where q: "ensure_dirs n b = (q, b1)" by force
    show ?thesis
    proof (cases q)
      case (Inl x)
      with q run None have "b' = b1" by (simp add: add_dir_at_def)
      with preservesD [OF ensure_dirs_inv [OF canonical_wf [OF assms]] q inv] show ?thesis by simp
    next
      case (Inr u)
      with q run None have "b' = (push_indexed (dir_entry n) b1)\<lparr>vb_changed := True\<rparr>" by (simp add: add_dir_at_def)
      moreover have "batch_inv (push_indexed (dir_entry n) b1)"
        using push_inv [OF inv, of "dir_entry n" b1, unfolded d, OF assms ix] q Inr by simp
      ultimately show ?thesis by simp
    qed
  qed
qed

lemma place_inv:
  assumes "canonical n" and inv: "batch_inv b" and "kind_at b n \<noteq> Some Dir" and run: "place n blob d sz mtime mode b = (r, b')"
  shows "batch_inv b'"
proof -
  have b: "index_ok b" "tree_wf (batch_shape b)" using inv by (simp_all add: batch_inv_def)
  let ?b = "b\<lparr>vb_staged := vb_staged b @ [sb_file_id blob]\<rparr>"
  show ?thesis
  proof (cases r)
    case (Inr u)
    with place_refines [OF b assms(1) _ assms(3)] run have "index_ok b'" "tree_put n (batch_shape b) = Inr (batch_shape b')" by auto
    with tree_put_wf [OF b(2) canonical_wf [OF assms(1)]] show ?thesis by (simp add: batch_inv_def)
  next
    case (Inl e)
    then have "vb_index b n = None \<and> (\<exists>e. ensure_dirs n ?b = (Inl e, b'))"
      using run by (auto simp: place_def Let_def bnd_eq split: option.splits)
    then obtain e where "ensure_dirs n ?b = (Inl e, b')" by blast
    from preservesD [OF ensure_dirs_inv [OF canonical_wf [OF assms(1)]] this] inv show ?thesis by simp
  qed
qed

lemma vb_mkdir_inv: "preserves batch_inv (vb_mkdir p)"
  unfolding vb_mkdir_def
  by (rule preservesI) (auto simp: bnd_eq dest: preservesD [OF count_op_inv] preservesD [OF add_dir_at_inv] normalize_path_canonical)

lemma add_dir_trusted_inv: "preserves batch_inv (add_dir_trusted p)"
  unfolding add_dir_trusted_def
  by (rule preservesI) (auto simp: bnd_eq dest: preservesD [OF add_dir_at_inv] normalize_stored_path_canonical)

lemma vb_remove_inv: "preserves batch_inv (vb_remove p)"
proof -
  have step: "batch_inv (let kept = filter (\<lambda>e. \<not> removes n e) (vb_entries b); removed = f b
       in if length kept \<noteq> length (vb_entries b)
          then reindex (set_entries kept (b\<lparr>vb_superseded := vb_superseded b @ removed, vb_changed := True\<rparr>))
          else set_entries kept b)" if inv: "batch_inv b" for b n f
  proof -
    let ?kept = "filter (\<lambda>e. \<not> removes n e) (vb_entries b)"
    have b: "index_ok b" "tree_wf (batch_shape b)" using inv by (simp_all add: batch_inv_def)
    have sh: "map (\<lambda>e. (e2_path e, e2_kind e)) ?kept = tree_remove n (batch_shape b)"
      by (simp add: tree_remove_def batch_shape_def filter_map comp_def removes_def beneath_def)
    then have wf: "tree_wf (map (\<lambda>e. (e2_path e, e2_kind e)) ?kept)" using tree_remove_wf [OF b(2)] by simp
    have d: "distinct (map e2_path ?kept)" using index_okD(2) [OF b(1)] by (metis distinct_map_filter)
    show ?thesis
    proof (cases "length ?kept = length (vb_entries b)")
      case True
      then have "?kept = vb_entries b" by (metis filter_id_conv length_filter_less nat_neq_iff)
      then have "set_entries ?kept b = b" by (simp add: set_entries_def vb_entries_def)
      with True inv show ?thesis by (simp add: Let_def)
    next
      case False
      let ?b = "set_entries ?kept (b\<lparr>vb_superseded := vb_superseded b @ f b, vb_changed := True\<rparr>)"
      have "index_ok (reindex ?b)" by (rule reindex_ok) (use d in simp)
      moreover have "batch_shape (reindex ?b) = map (\<lambda>e. (e2_path e, e2_kind e)) ?kept" by (simp add: reindex_ok)
      ultimately show ?thesis using wf False by (simp add: batch_inv_def Let_def)
    qed
  qed
  show ?thesis unfolding vb_remove_def
    by (intro preserves_intros modify_preserves count_op_inv step)
qed

lemma vb_rename_success:
  assumes "batch_inv b" and "vb_rename from0 to0 b = (Inr (), b')"
  obtains "from" to where "normalize_stored_path from0 = Inr from" "normalize_path to0 = Inr to"
    "tree_rename from to (batch_shape b) = Inr (batch_shape b')" "index_ok b'"
proof -
  from assms(2) obtain b1 "from" to where c: "count_op b = (Inr (), b1)"
    and n: "normalize_stored_path from0 = Inr from" "normalize_path to0 = Inr to"
    and r: "(if from = to then ret ()
       else if prefix (from @ ''/'') to then throw (Vault ''cannot move a directory into itself'')
       else bnd (gets (\<lambda>b. vb_index b from)) (\<lambda>f.
           if f = None then throw (Vault (''not found: '' @ from))
           else bnd (gets (\<lambda>b. vb_index b to)) (\<lambda>t.
               if t \<noteq> None then throw (Vault (''path already exists: '' @ to))
               else bnd (ensure_dirs to) (\<lambda>_.
                 modify (\<lambda>b. reindex ((set_entries (map (\<lambda>e. e\<lparr>e2_path := move_path from to (e2_path e)\<rparr>) (vb_entries b)) b)
                                        \<lparr>vb_changed := True\<rparr>)))))) b1 = (Inr (), b')"
    by (auto simp: vb_rename_def bnd_eq_Inr)
  have inv1: "batch_inv b1" using preservesD [OF count_op_inv c assms(1)] .
  have sh: "batch_shape b1 = batch_shape b" using count_op_shape [OF c] by simp
  have b1: "index_ok b1" "tree_wf (batch_shape b1)" using inv1 by (simp_all add: batch_inv_def)
  have ix: "map_of (batch_shape b1) p = None \<longleftrightarrow> vb_index b1 p = None" for p
    using index_None [OF b1(1)] map_of_shape_None by blast
  show thesis
  proof (cases "from = to")
    case True
    with r b1(1) sh n that [of "from" to] show thesis by (simp add: tree_rename_def)
  next
    case False
    from r False obtain b2 where g: "\<not> beneath from to" "vb_index b1 from \<noteq> None" "vb_index b1 to = None"
      and e: "ensure_dirs to b1 = (Inr (), b2)"
      and b': "b' = reindex ((set_entries (map (\<lambda>e. e\<lparr>e2_path := move_path from to (e2_path e)\<rparr>) (vb_entries b2)) b2)\<lparr>vb_changed := True\<rparr>)"
      by (auto simp: bnd_eq_Inr beneath_def split: if_splits)
    have wft: "wf_path to" using n(2) canonical_wf normalize_path_canonical by blast
    from ensure_dirs_refines [OF b1(1) wft e] have par: "tree_parents to (batch_shape b1) = Inr (batch_shape b2)" by simp
    have shb': "batch_shape b' = map (\<lambda>(q, k). (move_path from to q, k)) (batch_shape b2)"
      unfolding b' reindex_ok batch_shape_update by (simp add: batch_shape_def comp_def)
    have t: "tree_rename from to (batch_shape b) = Inr (batch_shape b')"
      using False g par shb' ix [of "from"] ix [of to] by (simp add: tree_rename_def sh [symmetric])
    have "distinct (map fst (batch_shape b'))"
      using tree_wfD(1) [OF tree_rename_wf [OF b1(2) wft t [folded sh]]] .
    then have "distinct (map (\<lambda>e. e2_path (e\<lparr>e2_path := move_path from to (e2_path e)\<rparr>)) (vb_entries b2))"
      unfolding shb' by (simp add: batch_shape_def comp_def)
    then have "index_ok b'" unfolding b' by (intro reindex_ok) (simp add: comp_def)
    with t n that show thesis by blast
  qed
qed

lemma vb_rename_inv: "preserves batch_inv (vb_rename p q)"
proof (rule preservesI)
  fix b r b'
  assume inv: "batch_inv b" and run: "vb_rename p q b = (r, b')"
  show "batch_inv b'"
  proof (cases r)
    case (Inr u)
    then have "vb_rename p q b = (Inr (), b')" using run by simp
    then show ?thesis
    proof (rule vb_rename_success [OF inv])
      fix "from" to
      assume n: "normalize_path q = Inr to" and t: "tree_rename from to (batch_shape b) = Inr (batch_shape b')" and ix: "index_ok b'"
      have "tree_wf (batch_shape b)" using inv by (simp add: batch_inv_def)
      from tree_rename_wf [OF this canonical_wf [OF normalize_path_canonical [OF n]] t] ix show ?thesis by (simp add: batch_inv_def)
    qed
  next
    case (Inl e)
    with run show ?thesis
      unfolding vb_rename_def
      by (auto simp: bnd_eq inv preservesD [OF count_op_inv _ inv] split: if_splits
          dest!: preservesD [OF ensure_dirs_inv [OF canonical_wf [OF normalize_path_canonical]]]
          dest: preservesD [OF count_op_inv _ inv])
  qed
qed

lemma vb_set_attr_inv: "preserves batch_inv (vb_set_attr p mtime mode)"
proof (rule preservesI)
  fix b r b'
  assume inv: "batch_inv b" and run: "vb_set_attr p mtime mode b = (r, b')"
  obtain q b1 where c: "count_op b = (q, b1)" by force
  have inv1: "batch_inv b1" using preservesD [OF count_op_inv c inv] .
  have step: "batch_inv ((set_entries ((vb_entries b1)[i := (vb_entries b1 ! i)\<lparr>e2_mtime := mtime, e2_mode := mode\<rparr>]) b1)\<lparr>vb_changed := True\<rparr>)"
    if i: "vb_index b1 n = Some i" for i n
  proof -
    have b1: "index_ok b1" "tree_wf (batch_shape b1)" using inv1 by (simp_all add: batch_inv_def)
    then have "i < length (vb_entries b1)" using i index_okD(1) by blast
    then show ?thesis
      using index_ok_nth [OF b1(1), of i "(vb_entries b1 ! i)\<lparr>e2_mtime := mtime, e2_mode := mode\<rparr>"]
        shape_nth [of i b1 "(vb_entries b1 ! i)\<lparr>e2_mtime := mtime, e2_mode := mode\<rparr>"] b1(2)
      by (simp add: batch_inv_def)
  qed
  from run c inv1 step show "batch_inv b'"
    unfolding vb_set_attr_def by (auto simp: bnd_eq split: option.splits)
qed

subsection \<open>Edits that write blobs\<close>

lemma on_fst_preserves: "preserves P m \<Longrightarrow> preserves (\<lambda>(s, t). P s) (on_fst m)"
  by (auto simp: preserves_def on_fst_def split: prod.splits)

lemma on_snd_preserves: "preserves (\<lambda>(s, t). P s) (on_snd m)"
  by (auto simp: preserves_def on_snd_def split: prod.splits)

text \<open>Past the check for a directory, whatever is written in the world, the blob is placed.\<close>

lemma reject_dir_run: "reject_dir n b = (r, b') \<longleftrightarrow> b' = b \<and> r = (if kind_at b n = Some Dir then Inl (Vault (''a directory exists at '' @ n)) else Inr ())"
  by (auto simp: reject_dir_def split: if_splits)

lemma put_stream_trusted_inv:
  assumes "put_stream_trusted L p d sz src mtime mode (b, w) = (r, (b', w'))" and "batch_inv b"
  shows "batch_inv b'"
  using assms unfolding put_stream_trusted_def
  by (auto simp: bnd_eq on_fst_eq on_snd_eq reject_dir_run simp del: on_fst_run on_snd_run split: prod.splits if_splits
      dest: place_inv [OF normalize_stored_path_canonical])

lemma vb_put_bytes_inv:
  assumes "vb_put_bytes L p bs mtime mode (b, w) = (r, (b', w'))" and "batch_inv b"
  shows "batch_inv b'"
  using assms unfolding vb_put_bytes_def Let_def
  by (auto simp: bnd_eq on_fst_eq on_snd_eq reject_dir_run simp del: on_fst_run on_snd_run split: prod.splits if_splits
      dest!: preservesD [OF count_op_inv] dest: place_inv [OF normalize_path_canonical])

lemma vb_put_file_inv:
  assumes "vb_put_file L p src mtime mode (b, w) = (r, (b', w'))" and "batch_inv b"
  shows "batch_inv b'"
  using assms unfolding vb_put_file_def
  by (auto simp: bnd_eq on_fst_eq on_snd_eq reject_dir_run simp del: on_fst_run on_snd_run split: prod.splits if_splits
      dest!: preservesD [OF count_op_inv] dest: place_inv [OF normalize_path_canonical])

subsection \<open>The interface of an editor\<close>

lemma vb_mkdir_refines:
  assumes "batch_inv b" and "vb_mkdir p b = (Inr (), b')"
  shows "\<exists>n. normalize_path p = Inr n \<and> tree_mkdir n (batch_shape b) = Inr (batch_shape b')"
proof -
  from assms(2) obtain b1 n where c: "count_op b = (Inr (), b1)" and n: "normalize_path p = Inr n"
    and r: "add_dir_at n (Vault (''a file exists at '' @ n)) b1 = (Inr (), b')"
    by (auto simp: vb_mkdir_def bnd_eq_Inr)
  have "index_ok b1" "tree_wf (batch_shape b1)"
    using preservesD [OF count_op_inv c assms(1)] by (simp_all add: batch_inv_def)
  from add_dir_at_refines [OF this normalize_path_canonical [OF n] r] n count_op_shape [OF c] show ?thesis by simp
qed

lemma put_refines_at:
  assumes "batch_inv b" and "canonical n" and "kind_at b n \<noteq> Some Dir" and "place n blob d sz mtime mode b = (Inr u, b')"
  shows "tree_put n (batch_shape b) = Inr (batch_shape b')"
  using place_refines [OF _ _ assms(2)] assms by (auto simp: batch_inv_def)

lemma vb_put_bytes_refines:
  assumes "batch_inv b" and "vb_put_bytes L p bs mtime mode (b, w) = (Inr (), (b', w'))"
  shows "\<exists>n. normalize_path p = Inr n \<and> tree_put n (batch_shape b) = Inr (batch_shape b')"
proof -
  from assms(2) obtain b1 n blob d sz where c: "count_op b = (Inr (), b1)" and n: "normalize_path p = Inr n"
    and k: "kind_at b1 n \<noteq> Some Dir" and pl: "place n blob d sz mtime mode b1 = (Inr (), b')"
    unfolding vb_put_bytes_def Let_def
    by (auto simp: bnd_eq_Inr on_fst_eq on_snd_eq reject_dir_run simp del: on_fst_run on_snd_run split: prod.splits if_splits)
  from put_refines_at [OF preservesD [OF count_op_inv c assms(1)] normalize_path_canonical [OF n] k pl] n count_op_shape [OF c]
  show ?thesis by simp
qed

lemma vb_put_file_refines:
  assumes "batch_inv b" and "vb_put_file L p src mtime mode (b, w) = (Inr (), (b', w'))"
  shows "\<exists>n. normalize_path p = Inr n \<and> tree_put n (batch_shape b) = Inr (batch_shape b')"
proof -
  from assms(2) obtain b1 n blob d sz where c: "count_op b = (Inr (), b1)" and n: "normalize_path p = Inr n"
    and k: "kind_at b1 n \<noteq> Some Dir" and pl: "place n blob d sz mtime mode b1 = (Inr (), b')"
    unfolding vb_put_file_def
    by (auto simp: bnd_eq_Inr on_fst_eq on_snd_eq reject_dir_run simp del: on_fst_run on_snd_run split: prod.splits if_splits)
  from put_refines_at [OF preservesD [OF count_op_inv c assms(1)] normalize_path_canonical [OF n] k pl] n count_op_shape [OF c]
  show ?thesis by simp
qed

lemma vb_remove_refines:
  assumes "vb_remove p b = (Inr (), b')"
  shows "\<exists>n. batch_shape b' = tree_remove n (batch_shape b)"
proof -
  from assms obtain b1 where c: "count_op b = (Inr (), b1)" by (auto simp: vb_remove_def bnd_eq_Inr)
  with assms obtain n where n: "normalize_stored_path p = Inr n" by (auto simp: vb_remove_def bnd_eq_Inr)
  from assms c n have b': "batch_shape b' = map (\<lambda>e. (e2_path e, e2_kind e)) (filter (\<lambda>e. \<not> removes n e) (vb_entries b1))"
    by (auto simp: vb_remove_def bnd_eq_Inr Let_def reindex_ok split: if_splits)
  have "batch_shape b' = tree_remove n (batch_shape b1)"
    unfolding b' by (simp add: tree_remove_def batch_shape_def filter_map comp_def removes_def beneath_def)
  then show ?thesis using count_op_shape [OF c] by auto
qed

interpretation batch_editor: tree_editor batch_shape
  "\<lambda>p b b'. index_ok b \<and> vb_mkdir p b = (Inr (), b')"
  "\<lambda>p b b'. index_ok b \<and> (\<exists>L mtime mode w w'. (\<exists>bs. vb_put_bytes L p bs mtime mode (b, w) = (Inr (), (b', w'))) \<or>
      (\<exists>src. vb_put_file L p src mtime mode (b, w) = (Inr (), (b', w'))))"
  "\<lambda>p b b'. index_ok b \<and> vb_remove p b = (Inr (), b')"
proof unfold_locales
  fix b p b'
  assume c: "tree_canonical (batch_shape b)" and r: "index_ok b \<and> vb_mkdir p b = (Inr (), b')"
  then have "batch_inv b" by (simp add: batch_inv_def tree_canonicalD)
  then show "\<exists>n. normalize_path p = Inr n \<and> tree_mkdir n (batch_shape b) = Inr (batch_shape b')"
    using vb_mkdir_refines r by blast
next
  fix b p b'
  assume c: "tree_canonical (batch_shape b)"
    and r: "index_ok b \<and> (\<exists>L mtime mode w w'. (\<exists>bs. vb_put_bytes L p bs mtime mode (b, w) = (Inr (), (b', w'))) \<or>
      (\<exists>src. vb_put_file L p src mtime mode (b, w) = (Inr (), (b', w'))))"
  then have "batch_inv b" by (simp add: batch_inv_def tree_canonicalD)
  then show "\<exists>n. normalize_path p = Inr n \<and> tree_put n (batch_shape b) = Inr (batch_shape b')"
    using vb_put_bytes_refines vb_put_file_refines r by blast
next
  fix b p b'
  assume "index_ok b \<and> vb_remove p b = (Inr (), b')"
  then show "batch_shape b' = batch_shape b \<or> (\<exists>n. batch_shape b' = tree_remove n (batch_shape b))"
    using vb_remove_refines by blast
qed

subsection \<open>Runs of edits\<close>

inductive edit_step :: "lib \<Rightarrow> vault_batch \<times> world \<Rightarrow> vault_batch \<times> world \<Rightarrow> bool" for L where
  Mkdir: "vb_mkdir p b = (r, b') \<Longrightarrow> edit_step L (b, w) (b', w)"
| Add_Dir: "add_dir_trusted p b = (r, b') \<Longrightarrow> edit_step L (b, w) (b', w)"
| Remove: "vb_remove p b = (r, b') \<Longrightarrow> edit_step L (b, w) (b', w)"
| Rename: "vb_rename p q b = (r, b') \<Longrightarrow> edit_step L (b, w) (b', w)"
| Set_Attr: "vb_set_attr p mtime mode b = (r, b') \<Longrightarrow> edit_step L (b, w) (b', w)"
| Put_Bytes: "vb_put_bytes L p bs mtime mode (b, w) = (r, (b', w')) \<Longrightarrow> edit_step L (b, w) (b', w')"
| Put_File: "vb_put_file L p src_path mtime mode (b, w) = (r, (b', w')) \<Longrightarrow> edit_step L (b, w) (b', w')"
| Put_Stream: "put_stream_trusted L p d sz src mtime mode (b, w) = (r', (b', w')) \<Longrightarrow> tame src \<Longrightarrow> edit_step L (b, w) (b', w')"

inductive_cases edit_stepE: "edit_step L (b, w) (b', w')"

lemma edit_step_inv: "edit_step L s s' \<Longrightarrow> batch_inv (fst s) \<Longrightarrow> batch_inv (fst s')"
  by (induction rule: edit_step.induct)
     (auto dest: preservesD [OF vb_mkdir_inv] preservesD [OF add_dir_trusted_inv] preservesD [OF vb_remove_inv]
        preservesD [OF vb_rename_inv] preservesD [OF vb_set_attr_inv] vb_put_bytes_inv vb_put_file_inv put_stream_trusted_inv)

lemma edits_inv: "(edit_step L)\<^sup>*\<^sup>* s s' \<Longrightarrow> batch_inv (fst s) \<Longrightarrow> batch_inv (fst s')"
  by (induction rule: rtranclp_induct) (auto dest: edit_step_inv)

subsection \<open>The entries stay readable\<close>

text \<open>A file entry that names a usable blob, apart from the number of its chunks.\<close>

definition file_entry_fit :: "aead_alg \<Rightarrow> entry_v2 \<Rightarrow> bool" where
  "file_entry_fit alg e \<longleftrightarrow>
     (\<exists>i. e2_file_id e = Some i \<and> blob_id_ok i) \<and> 0 < unat (e2_chunk_size e) \<and> unat (e2_chunk_size e) \<le> MAX_CHUNK_SIZE \<and>
     e2_key e \<noteq> None \<and> (\<exists>n. e2_nonce e = Some n \<and> length n = stream_nonce_len alg)"

definition batch_fit :: "vault_reader_v2 \<Rightarrow> vault_batch \<Rightarrow> bool" where
  "batch_fit rd b \<longleftrightarrow>
     vb_reader b = rd \<and> (\<forall>e \<in> set (vb_entries b). e2_kind e = File \<longrightarrow> file_entry_fit (v2_alg rd) e)"

lemma file_entry_ok_fit:
  "file_entry_ok alg e \<longleftrightarrow> file_entry_fit alg e \<and> unat (num_chunks (e2_size e) (ucast (e2_chunk_size e))) < 2 ^ 32"
  by (auto simp: file_entry_ok_def file_entry_fit_def)

lemma batch_fit_update [simp]:
  "batch_fit rd (b\<lparr>vb_staged := s\<rparr>) = batch_fit rd b" "batch_fit rd (b\<lparr>vb_superseded := s\<rparr>) = batch_fit rd b"
  "batch_fit rd (b\<lparr>vb_changed := c\<rparr>) = batch_fit rd b" "batch_fit rd (b\<lparr>vb_ops := n\<rparr>) = batch_fit rd b"
  "batch_fit rd (reindex b) = batch_fit rd b"
  by (simp_all add: batch_fit_def reindex_def)

lemma push_fit: "batch_fit rd b \<Longrightarrow> e2_kind e = File \<longrightarrow> file_entry_fit (v2_alg rd) e \<Longrightarrow> batch_fit rd (push_indexed e b)"
  by (auto simp: batch_fit_def push_indexed_def)

lemma nth_fit: "batch_fit rd b \<Longrightarrow> e2_kind e = File \<longrightarrow> file_entry_fit (v2_alg rd) e \<Longrightarrow>
    batch_fit rd (set_entries ((vb_entries b)[i := e]) b)"
  by (auto simp: batch_fit_def dest!: subsetD [OF set_update_subset_insert])

lemma dir_entry_kind [simp]: "e2_kind (dir_entry p) = Dir"
  by (simp add: dir_entry_def)

lemma ensure_dirs_loop_fit: "preserves (batch_fit rd) (ensure_dirs_loop acc cs)"
proof (induction cs arbitrary: acc)
  case Nil
  show ?case unfolding ensure_dirs_loop.simps by (rule preserves_ret)
next
  case (Cons c cs)
  have kinds: "preserves P a \<Longrightarrow> preserves P m \<Longrightarrow> preserves P n \<Longrightarrow>
      preserves P (case k of None \<Rightarrow> n | Some File \<Rightarrow> a | Some Dir \<Rightarrow> m)" for P :: "vault_batch \<Rightarrow> bool" and a m n :: "unit batch" and k
    by (auto split: option.splits entry_kind.splits)
  show ?case unfolding ensure_dirs_loop.simps Let_def
    by (intro preserves_intros kinds modify_preserves push_fit Cons.IH) auto
qed

lemma ensure_dirs_fit: "preserves (batch_fit rd) (ensure_dirs n)"
  unfolding ensure_dirs_def Let_def by (rule ensure_dirs_loop_fit)

lemma count_op_fit: "preserves (batch_fit rd) count_op"
  by (rule preservesI) (auto dest!: count_op_ok)

lemma add_dir_at_fit: "preserves (batch_fit rd) (add_dir_at n e)"
proof -
  have kinds: "preserves P a \<Longrightarrow> preserves P m \<Longrightarrow> preserves P q \<Longrightarrow>
      preserves P (case k of None \<Rightarrow> q | Some File \<Rightarrow> a | Some Dir \<Rightarrow> m)" for P :: "vault_batch \<Rightarrow> bool" and a m q :: "unit batch" and k
    by (auto split: option.splits entry_kind.splits)
  show ?thesis unfolding add_dir_at_def
    by (intro preserves_intros kinds ensure_dirs_fit modify_preserves push_fit) auto
qed

lemma place_fit:
  assumes "blob_id_ok (sb_file_id blob)" and "length (sb_nonce blob) = stream_nonce_len (v2_alg rd)"
  shows "preserves (batch_fit rd) (place n blob d sz mtime mode)"
proof -
  have "file_entry_fit (v2_alg rd) \<lparr>e2_path = n, e2_kind = File, e2_size = sz, e2_mtime = mtime, e2_mode = mode, e2_blake3 = d,
                e2_file_id = Some (sb_file_id blob), e2_key = Some (sb_key blob), e2_nonce = Some (sb_nonce blob),
                e2_chunk_size = of_nat DEFAULT_CHUNK_SIZE\<rparr>"
    using assms by (simp add: file_entry_fit_def DEFAULT_CHUNK_SIZE_def MAX_CHUNK_SIZE_def)
  then show ?thesis unfolding place_def Let_def
    by (intro preserves_intros modify_preserves ensure_dirs_fit push_fit; (simp add: nth_fit)?)
       (use nth_fit batch_fit_update in \<open>metis vb_entries_update(3)\<close>)
qed

lemma pure_edits_fit:
  "preserves (batch_fit rd) (vb_mkdir p)" "preserves (batch_fit rd) (add_dir_trusted p)"
  "preserves (batch_fit rd) (vb_remove p)" "preserves (batch_fit rd) (vb_rename p q)"
  "preserves (batch_fit rd) (vb_set_attr p mtime mode)"
proof -
  show "preserves (batch_fit rd) (vb_mkdir p)" "preserves (batch_fit rd) (add_dir_trusted p)"
    unfolding vb_mkdir_def add_dir_trusted_def by (intro preserves_intros count_op_fit add_dir_at_fit)+
  have rm: "batch_fit rd (let kept = filter (\<lambda>e. \<not> removes n e) (vb_entries b); removed = f b
       in if length kept \<noteq> length (vb_entries b)
          then reindex (set_entries kept (b\<lparr>vb_superseded := vb_superseded b @ removed, vb_changed := True\<rparr>))
          else set_entries kept b)" if "batch_fit rd b" for b n f
    using that by (auto simp: batch_fit_def Let_def reindex_def)
  show "preserves (batch_fit rd) (vb_remove p)"
    unfolding vb_remove_def by (intro preserves_intros modify_preserves count_op_fit rm)
  have mv: "batch_fit rd (reindex ((set_entries (map (\<lambda>e. e\<lparr>e2_path := move_path from to (e2_path e)\<rparr>) (vb_entries b)) b)\<lparr>vb_changed := True\<rparr>))"
    if "batch_fit rd b" for b "from" to
    using that by (auto simp: batch_fit_def file_entry_fit_def reindex_def)
  show "preserves (batch_fit rd) (vb_rename p q)"
    unfolding vb_rename_def by (intro preserves_intros modify_preserves count_op_fit ensure_dirs_fit mv)
  have at: "batch_fit rd ((set_entries ((vb_entries b)[i := (vb_entries b ! i)\<lparr>e2_mtime := mtime, e2_mode := mode\<rparr>]) b)\<lparr>vb_changed := True\<rparr>)"
    if "batch_fit rd b" and "i < length (vb_entries b)" for b i
    using that nth_fit [OF that(1), of "(vb_entries b ! i)\<lparr>e2_mtime := mtime, e2_mode := mode\<rparr>" i]
    by (auto simp: batch_fit_def file_entry_fit_def)
  show "preserves (batch_fit rd) (vb_set_attr p mtime mode)"
  proof (rule preservesI)
    fix b r b'
    assume fit: "batch_fit rd b" and run: "vb_set_attr p mtime mode b = (r, b')"
    obtain q b1 where c: "count_op b = (q, b1)" by force
    have fit1: "batch_fit rd b1" using preservesD [OF count_op_fit c fit] .
    have upd: "batch_fit rd (set_entries ((vb_entries b1)[i := (vb_entries b1 ! i)\<lparr>e2_mtime := mtime, e2_mode := mode\<rparr>]) b1)" for i
    proof (cases "i < length (vb_entries b1)")
      case True
      from at [OF fit1 True] show ?thesis by simp
    next
      case False
      with fit1 show ?thesis by (simp add: batch_fit_def list_update_beyond)
    qed
    from run c fit1 upd show "batch_fit rd b'"
      unfolding vb_set_attr_def by (auto simp: bnd_eq split: option.splits)
  qed
qed


text \<open>The edits that write: the blob they place was staged for this reader.\<close>

definition edit_fit :: "vault_reader_v2 \<Rightarrow> vault_batch \<times> world \<Rightarrow> bool" where
  "edit_fit rd s \<longleftrightarrow> batch_fit rd (fst s) \<and> rng_fills (snd s)"

lemma write_then_place_fit:
  assumes "batch_fit rd b" and "rng_fills w" and "hexlower_spec L"
    and "write_blob L (vb_reader b) d sz src w = (Inr (blob, src'), w')" and "place n blob d sz mtime mode b = (r, b')"
  shows "batch_fit rd b'"
proof -
  have "vb_reader b = rd" using assms(1) by (simp add: batch_fit_def)
  with write_blob_result [OF assms(4,2,3)] show ?thesis
    using preservesD [OF place_fit assms(5,1)] by simp
qed

lemma put_stream_trusted_fit:
  assumes "put_stream_trusted L p d sz src mtime mode (b, w) = (r, (b', w'))" and "batch_fit rd b" and "rng_fills w" and "hexlower_spec L"
  shows "batch_fit rd b' \<and> rng_fills w'"
  using assms unfolding put_stream_trusted_def
  by (auto simp: bnd_eq on_fst_eq on_snd_eq reject_dir_run simp del: on_fst_run on_snd_run split: prod.splits if_splits
      dest: write_then_place_fit preservesD [OF rng_fills_write_blob])

lemma vb_put_bytes_fit:
  assumes "vb_put_bytes L p bs mtime mode (b, w) = (r, (b', w'))" and "batch_fit rd b" and "rng_fills w" and "hexlower_spec L"
  shows "batch_fit rd b' \<and> rng_fills w'"
  using assms unfolding vb_put_bytes_def Let_def
  by (auto simp: bnd_eq on_fst_eq on_snd_eq reject_dir_run simp del: on_fst_run on_snd_run split: prod.splits if_splits
      dest!: preservesD [OF count_op_fit] dest: write_then_place_fit preservesD [OF rng_fills_write_blob])

lemma vb_put_file_fit:
  assumes "vb_put_file L p src mtime mode (b, w) = (r, (b', w'))" and "batch_fit rd b" and "rng_fills w" and "hexlower_spec L"
  shows "batch_fit rd b' \<and> rng_fills w'"
  using assms unfolding vb_put_file_def
  by (auto simp: bnd_eq on_fst_eq on_snd_eq reject_dir_run simp del: on_fst_run on_snd_run split: prod.splits if_splits
      dest!: preservesD [OF count_op_fit] preservesD [OF rng_fills_hash_path] preservesD [OF rng_fills_open_read]
      dest: write_then_place_fit preservesD [OF rng_fills_write_blob])

lemma edit_step_fit: "edit_step L s s' \<Longrightarrow> edit_fit rd s \<Longrightarrow> hexlower_spec L \<Longrightarrow> edit_fit rd s'"
proof (induction rule: edit_step.induct)
  case (Put_Bytes p bs mtime mode b w r b' w')
  from vb_put_bytes_fit [OF Put_Bytes(1), of rd] Put_Bytes(2,3) show ?case by (simp add: edit_fit_def)
next
  case (Put_File p src_path mtime mode b w r b' w')
  from vb_put_file_fit [OF Put_File(1), of rd] Put_File(2,3) show ?case by (simp add: edit_fit_def)
next
  case (Put_Stream p d sz src mtime mode b w r' b' w')
  from put_stream_trusted_fit [OF Put_Stream(1), of rd] Put_Stream(3,4) show ?case by (simp add: edit_fit_def)
qed (simp_all add: edit_fit_def pure_edits_fit [THEN preservesD])

lemma edits_fit: "(edit_step L)\<^sup>*\<^sup>* s s' \<Longrightarrow> edit_fit rd s \<Longrightarrow> hexlower_spec L \<Longrightarrow> edit_fit rd s'"
  by (induction rule: rtranclp_induct) (auto dest: edit_step_fit)

subsection \<open>Renaming and the limits\<close>

text \<open>A rename moves every entry beneath its source, whatever the depth they end at.\<close>

lemma vb_rename_moves:
  assumes "vb_rename p q b = (Inr (), b')" and "normalize_stored_path p = Inr from" and "normalize_path q = Inr to"
    and "from \<noteq> to" and "e \<in> set (vb_entries b)"
  shows "e\<lparr>e2_path := move_path from to (e2_path e)\<rparr> \<in> set (vb_entries b')"
proof -
  have loop: "set (vb_entries b) \<subseteq> set (vb_entries b1)" if "ensure_dirs_loop acc cs b = (r, b1)" for acc cs b r b1
    using that
  proof (induction cs arbitrary: acc b)
    case (Cons c cs)
    let ?acc = "(if acc \<noteq> [] then acc @ ''/'' else acc) @ c"
    have sub: "set (vb_entries b) \<subseteq> set (vb_entries (push_indexed (dir_entry ?acc) b))" by (auto simp: push_indexed_def)
    show ?case
    proof (cases "kind_at b ?acc")
      case None
      with Cons.prems have "ensure_dirs_loop ?acc cs (push_indexed (dir_entry ?acc) b) = (r, b1)" by (simp add: Let_def)
      from Cons.IH [OF this] sub show ?thesis by blast
    next
      case (Some k)
      with Cons.prems Cons.IH [of ?acc b] show ?thesis by (cases k) (auto simp: Let_def)
    qed
  qed auto
  from assms(1-4) obtain b1 b2 where c: "count_op b = (Inr (), b1)" and e: "ensure_dirs to b1 = (Inr (), b2)"
    and b': "b' = reindex ((set_entries (map (\<lambda>e. e\<lparr>e2_path := move_path from to (e2_path e)\<rparr>) (vb_entries b2)) b2)\<lparr>vb_changed := True\<rparr>)"
    by (auto simp: vb_rename_def bnd_eq_Inr split: if_splits)
  have "set (vb_entries b1) \<subseteq> set (vb_entries b2)" using e loop by (simp add: ensure_dirs_def Let_def)
  then have "e \<in> set (vb_entries b2)" using assms(5) count_op_ok [OF c] by auto
  then show ?thesis unfolding b' by (simp add: reindex_def vb_entries_def [symmetric])
qed

lemma deep_path_refused:
  assumes "length (components p) > MAX_PATH_DEPTH" and "wf_path p"
  shows "\<not> is_ok (normalize_stored_path p)"
proof
  let ?cs = "components p"
  have portable: "list_all portable_component ?cs" using assms(2) by (simp add: wf_path_def)
  have "set p \<subseteq> insert slash (\<Union> (set ` set ?cs))" using set_path_of [of ?cs] by simp
  moreover have "CHR 0x5C \<notin> \<Union> (set ` set ?cs)"
    using portable by (auto simp: list_all_iff portable_component_def)
  ultimately have u: "unify_separators p = p" by (intro unify_id) auto
  have keep: "filter (\<lambda>c. c \<noteq> [] \<and> c \<noteq> ''.'') ?cs = ?cs"
    using portable by (auto simp: filter_id_conv list_all_iff portable_component_def)
  assume "is_ok (normalize_stored_path p)"
  then obtain n where "normalize_stored_path p = Inr n" by (auto simp: is_ok_iff)
  then have "length (filter (\<lambda>c. c \<noteq> [] \<and> c \<noteq> ''.'') ?cs) \<le> MAX_PATH_DEPTH"
    using u by (auto simp: normalize_stored_path_def Let_def result_simps collect_components_eq components_def split: if_splits)
  with keep assms(1) show False by simp
qed

text \<open>C31. Renaming a directory to a deeper place succeeds even when an entry beneath it then exceeds
  the depth limit, and the manifest it leaves is refused by the validation that the next open
  runs.\<close>

theorem rename_exceeds_depth:
  assumes "vb_rename p q b = (Inr (), b')" and "normalize_stored_path p = Inr from" and "normalize_path q = Inr to"
    and "from \<noteq> to" and "e \<in> set (vb_entries b)" and "e2_path e = from @ slash # rest" and "wf_path (e2_path e)"
    and "length (components to) + length (components rest) > MAX_PATH_DEPTH"
  shows "validate_manifest_v2 (vb_manifest b') alg \<noteq> Inr ()"
proof
  let ?e = "e\<lparr>e2_path := move_path from to (e2_path e)\<rparr>"
  have pth: "e2_path ?e = to @ slash # rest" using assms(6) by (simp add: move_path_under)
  have "wf_path to" using canonical_wf normalize_path_canonical assms(3) by blast
  then have wf: "wf_path (to @ slash # rest)" using wf_path_join assms(6,7) by metis
  have "length (components (to @ slash # rest)) > MAX_PATH_DEPTH" using assms(8) by (simp add: components_append)
  from deep_path_refused [OF this wf] have no: "\<not> is_ok (normalize_stored_path (e2_path ?e))" using pth by simp
  assume "validate_manifest_v2 (vb_manifest b') alg = Inr ()"
  then have "\<forall>e \<in> set (vb_entries b'). is_ok (normalize_stored_path (e2_path e))"
    by (simp add: validate_manifest_v2_iff manifest_valid_def vb_entries_def)
  with vb_rename_moves [OF assms(1-5)] no show False by blast
qed

definition deep_reader :: vault_reader_v2 where
  "deep_reader = \<lparr>v2_dir = ''v'', v2_suite = Classic, v2_header_bytes = [], v2_manifest_key = [],
     v2_manifest = \<lparr>m2_vault_name = [], m2_created_at = 0, m2_entries = map dir_entry [''a'', path_of (replicate 64 ''a'')]\<rparr>,
     v2_owner_fingerprint = [], v2_state = None, v2_view = [], v2_pending_reclaim = []\<rparr>"

theorem rename_exceeds_depth_witness:
  "\<exists>b b'. validate_manifest_v2 (vb_manifest b) XChaCha20Poly1305 = Inr () \<and> vb_rename ''a'' ''b/c'' b = (Inr (), b') \<and>
     validate_manifest_v2 (vb_manifest b') XChaCha20Poly1305 \<noteq> Inr ()"
proof -
  let ?b = "vb_new deep_reader (Some 3)" and ?p = "path_of (replicate 64 ''a'')" and ?r = "path_of (replicate 63 ''a'')"
  have "fst (vb_rename ''a'' ''b/c'' ?b) = Inr ()" by code_simp
  from run_fst [OF this] obtain b' where r: "vb_rename ''a'' ''b/c'' ?b = (Inr (), b')" by blast
  have n: "normalize_stored_path ''a'' = Inr ''a''" "normalize_path ''b/c'' = Inr ''b/c''" by code_simp+
  have ok: "normalize_stored_path ?p = Inr ?p" by code_simp
  have e: "dir_entry ?p \<in> set (vb_entries ?b)" by (simp add: vb_new_def vb_entries_def deep_reader_def)
  have s: "e2_path (dir_entry ?p) = ''a'' @ slash # ?r" unfolding dir_entry_def by code_simp
  have wf: "wf_path (e2_path (dir_entry ?p))" using canonical_wf [OF normalize_stored_path_canonical [OF ok]] by (simp add: dir_entry_def)
  have "length (components ''b/c'') + length (components ?r) > MAX_PATH_DEPTH" by code_simp
  from rename_exceeds_depth [OF r n _ e s wf this]
  have "validate_manifest_v2 (vb_manifest b') XChaCha20Poly1305 \<noteq> Inr ()" by simp
  moreover have "validate_manifest_v2 (vb_manifest ?b) XChaCha20Poly1305 = Inr ()"
  proof -
    have "?p \<noteq> ''a''" by code_simp
    then show ?thesis using ok n(1)
      by (simp add: validate_manifest_v2_iff manifest_valid_def vb_new_def deep_reader_def norm_of_def dir_entry_def
          MAX_MANIFEST_ENTRIES_def declared_size_def is_ok_iff)
  qed
  ultimately show ?thesis using r by blast
qed

subsection \<open>Properties\<close>

text \<open>C30. Invariant of the batch editor: whatever edits run, failing ones included, the index is
  exactly the positions of the entries, the entries are a well-formed tree, and a manifest that
  stays within the limits on count, size, path depth and path length passes the validation of
  the next open.\<close>

theorem batch_edits_openable:
  assumes "(edit_step L)\<^sup>*\<^sup>* (vb_new rd lim, w) (b, w')" and "hexlower_spec L" and "rng_fills w"
    and "tree_wf (map (\<lambda>e. (e2_path e, e2_kind e)) (m2_entries (v2_manifest rd)))"
    and "manifest_valid (v2_alg rd) (v2_manifest rd)"
  shows "(\<forall>p i. vb_index b p = Some i \<longleftrightarrow> i < length (vb_entries b) \<and> e2_path (vb_entries b ! i) = p) \<and>
    tree_wf (batch_shape b) \<and>
    (length (vb_entries b) \<le> MAX_MANIFEST_ENTRIES \<and> declared_size (vb_entries b) < 2 ^ 64 \<and>
     (\<forall>e \<in> set (vb_entries b). canonical (e2_path e) \<and>
        (e2_kind e = File \<longrightarrow> unat (num_chunks (e2_size e) (ucast (e2_chunk_size e))) < 2 ^ 32)) \<longrightarrow>
     validate_manifest_v2 (vb_manifest b) (v2_alg rd) = Inr ())"
proof -
  let ?b0 = "vb_new rd lim"
  have sh0: "batch_shape ?b0 = map (\<lambda>e. (e2_path e, e2_kind e)) (m2_entries (v2_manifest rd))"
    by (simp add: batch_shape_def vb_new_def vb_entries_def)
  have "distinct (map e2_path (vb_entries ?b0))"
    using tree_wfD(1) [OF assms(4)] by (simp add: vb_new_def vb_entries_def comp_def)
  then have "batch_inv ?b0" using assms(4) sh0 by (simp add: batch_inv_def index_ok_def vb_new_def)
  then have inv: "batch_inv b" using edits_inv [OF assms(1)] by simp
  have "edit_fit rd (?b0, w)"
    using assms(3,5) by (auto simp: edit_fit_def batch_fit_def vb_new_def vb_entries_def manifest_valid_def file_entry_ok_fit)
  then have fit: "batch_fit rd b" using edits_fit [OF assms(1) _ assms(2)] by (simp add: edit_fit_def)
  have wf: "tree_wf (batch_shape b)" and ix: "index_ok b" using inv by (simp_all add: batch_inv_def)
  have "validate_manifest_v2 (vb_manifest b) (v2_alg rd) = Inr ()"
    if "length (vb_entries b) \<le> MAX_MANIFEST_ENTRIES" "declared_size (vb_entries b) < 2 ^ 64"
      and each: "\<forall>e \<in> set (vb_entries b). canonical (e2_path e) \<and>
        (e2_kind e = File \<longrightarrow> unat (num_chunks (e2_size e) (ucast (e2_chunk_size e))) < 2 ^ 32)"
  proof -
    have norm: "normalize_stored_path (e2_path e) = Inr (e2_path e) \<and> norm_of e = e2_path e" if "e \<in> set (vb_entries b)" for e
      using each canonical_normalizes that by (auto simp: norm_of_def)
    then have "map norm_of (vb_entries b) = map e2_path (vb_entries b)" by simp
    from arg_cong [OF this, of distinct] have "distinct (map norm_of (vb_entries b))" using index_okD(2) [OF ix] by blast
    moreover have "\<not> beneath (norm_of f) (norm_of e)"
      if "e \<in> set (vb_entries b)" "f \<in> set (vb_entries b)" "e2_kind f = File" for e f
    proof -
      have "(e2_path f, File) \<in> set (batch_shape b)" "(e2_path e, e2_kind e) \<in> set (batch_shape b)"
        using that by (auto simp: batch_shape_def image_iff)
      from tree_wf_file_leaf [OF wf this] norm that show ?thesis by simp
    qed
    ultimately show ?thesis
      using that fit norm unfolding validate_manifest_v2_iff manifest_valid_def vb_entries_def [symmetric]
      by (auto simp: batch_fit_def file_entry_ok_fit)
  qed
  with wf index_okD(1) [OF ix] show ?thesis by blast
qed

theorem batch_edits_openable_witness:
  "\<exists>rd w b. (edit_step demo_lib)\<^sup>*\<^sup>* (vb_new rd (Some 3), w) (b, w) \<and> batch_shape b = [(''a'', Dir), (''a/b'', Dir)] \<and>
     validate_manifest_v2 (vb_manifest b) XChaCha20Poly1305 = Inr () \<and> tree_wf (batch_shape b)"
proof -
  let ?rd = "deep_reader\<lparr>v2_manifest := \<lparr>m2_vault_name = [], m2_created_at = 0, m2_entries = []\<rparr>\<rparr>"
  have sh: "batch_shape (snd (vb_mkdir ''a/b'' (vb_new ?rd (Some 3)))) = [(''a'', Dir), (''a/b'', Dir)]" by code_simp
  have ok: "fst (vb_mkdir ''a/b'' (vb_new ?rd (Some 3))) = Inr ()" by code_simp
  from run_fst [OF ok] obtain b where r: "vb_mkdir ''a/b'' (vb_new ?rd (Some 3)) = (Inr (), b)" by blast
  then have sb: "batch_shape b = [(''a'', Dir), (''a/b'', Dir)]" using sh by simp
  have run: "(edit_step demo_lib)\<^sup>*\<^sup>* (vb_new ?rd (Some 3), demo_world) (b, demo_world)"
    by (rule r_into_rtranclp) (rule edit_step.Mkdir [OF r])
  have alg: "v2_alg ?rd = XChaCha20Poly1305" by (simp add: v2_alg_def deep_reader_def)
  have paths: "map e2_path (vb_entries b) = [''a'', ''a/b'']" "map e2_kind (vb_entries b) = [Dir, Dir]"
    using sb by (auto simp: batch_shape_def map_eq_Cons_conv)
  have can: "canonical ''a''" "canonical ''a/b''"
    unfolding normalize_stored_path_fixed by code_simp+
  have lim: "length (vb_entries b) \<le> MAX_MANIFEST_ENTRIES" "declared_size (vb_entries b) < 2 ^ 64"
    "\<forall>e \<in> set (vb_entries b). canonical (e2_path e) \<and>
        (e2_kind e = File \<longrightarrow> unat (num_chunks (e2_size e) (ucast (e2_chunk_size e))) < 2 ^ 32)"
    using paths can by (auto simp: map_eq_Cons_conv MAX_MANIFEST_ENTRIES_def declared_size_def)
  have wf0: "tree_wf (map (\<lambda>e. (e2_path e, e2_kind e)) (m2_entries (v2_manifest ?rd)))" "manifest_valid (v2_alg ?rd) (v2_manifest ?rd)"
    by (simp_all add: tree_wf_def manifest_valid_def declared_size_def)
  from batch_edits_openable [OF run demo_hex demo_parties(1) wf0] lim
  have "validate_manifest_v2 (vb_manifest b) XChaCha20Poly1305 = Inr ()" "tree_wf (batch_shape b)" unfolding alg by blast+
  with run sb show ?thesis by blast
qed

end
