(* ===== verification/V2_Blobs.thy ===== *)
theory V2_Blobs
  imports V2_Batch
begin

section \<open>The blobs on disk\<close>

text \<open>
  What writing a blob does to the filesystem, under every pattern of failures, and what reading
  one returns. A blob gets a fresh name drawn from the generator; apart from it and from
  unfinished temporary files, nothing changes.
\<close>

subsection \<open>Names drawn from the generator\<close>

definition rng_after :: "world \<Rightarrow> world \<Rightarrow> bool" where
  "rng_after w w' \<longleftrightarrow> rng_source w' = rng_source w \<and> rng_calls w \<le> rng_calls w'"

lemma rng_stable_after: "rng_stable (rng_after w)"
  by (auto simp: rng_stable_def rng_after_def)

lemma rng_after_refl [simp]: "rng_after w w"
  and rng_after_trans: "rng_after w w1 \<Longrightarrow> rng_after w1 w2 \<Longrightarrow> rng_after w w2"
  by (auto simp: rng_after_def)

definition drawn_id :: "lib \<Rightarrow> world \<Rightarrow> world \<Rightarrow> string \<Rightarrow> bool" where
  "drawn_id L w w' i \<longleftrightarrow> (\<exists>k x. rng_calls w \<le> k \<and> k < rng_calls w' \<and> rng_source w k 16 = Some x \<and> i = hex L x)"

lemma drawn_id_mono: "drawn_id L w1 w2 i \<Longrightarrow> rng_after w w1 \<Longrightarrow> rng_after w2 w3 \<Longrightarrow> drawn_id L w w3 i"
  unfolding drawn_id_def rng_after_def by (metis le_trans less_le_trans)

text \<open>Everything but new blobs and unfinished temporary files is as it was.\<close>

definition blob_frame :: "lib \<Rightarrow> vault_reader_v2 \<Rightarrow> world \<Rightarrow> world \<Rightarrow> bool" where
  "blob_frame L rd w w' \<longleftrightarrow>
     rng_after w w' \<and>
     (\<forall>p. fs_get w' p \<noteq> fs_get w p \<longrightarrow>
        is_safe_writer_temp (path_file_name p) \<or> (\<exists>i. drawn_id L w w' i \<and> p = blob_path rd i))"

lemma blob_frame_refl [simp]: "blob_frame L rd w w"
  by (simp add: blob_frame_def)

lemma blob_frame_trans:
  assumes "blob_frame L rd w w1" and "blob_frame L rd w1 w2"
  shows "blob_frame L rd w w2"
proof -
  have r: "rng_after w w1" "rng_after w1 w2" using assms by (simp_all add: blob_frame_def)
  have "is_safe_writer_temp (path_file_name p) \<or> (\<exists>i. drawn_id L w w2 i \<and> p = blob_path rd i)"
    if "fs_get w2 p \<noteq> fs_get w p" for p
  proof (cases "fs_get w1 p = fs_get w p")
    case True
    with that assms(2) show ?thesis unfolding blob_frame_def
      using drawn_id_mono [OF _ r(1) rng_after_refl] by metis
  next
    case False
    with assms(1) show ?thesis unfolding blob_frame_def
      using drawn_id_mono [OF _ rng_after_refl r(2)] by metis
  qed
  with rng_after_trans [OF r] show ?thesis by (simp add: blob_frame_def)
qed

lemma blob_frame_rng: "blob_frame L rd w w' \<Longrightarrow> rng_fills w \<Longrightarrow> rng_fills w'"
  by (simp add: blob_frame_def rng_after_def rng_fills_def)

lemma blob_frame_look:
  assumes "m w = (r, w')" and "\<And>P. rng_stable P \<Longrightarrow> preserves P m" and "\<And>F. preserves (files F) m"
  shows "blob_frame L rd w w'"
  using preservesD [OF assms(2) [OF rng_stable_after] assms(1)] preservesD [OF assms(3) assms(1), of "fs_get w"]
  by (simp add: blob_frame_def)

subsection \<open>Writing\<close>

lemma sw_stream_files:
  assumes "sw_stream sw m src w = (r, w')" and "fs_get w (sw_tmp sw) = Some (FileNode [])"
  obtains q src' k where "m (src, writer_sink w) = (q, (src', k))" "r = map_sum id (\<lambda>x. (x, src')) q"
    "fs_get w' = (fs_get w)(sw_tmp sw \<mapsto> FileNode (sink_out k))"
proof -
  obtain q src' k where q: "m (src, writer_sink w) = (q, (src', k))" by (metis prod.collapse)
  with assms have "r = map_sum id (\<lambda>x. (x, src')) q" "fs_get w' = (fs_get w)(sw_tmp sw \<mapsto> FileNode (sink_out k))"
    by (auto simp: sw_stream_def fs_get_put fun_eq_iff)
  with q that show thesis by blast
qed

lemma encrypt_blob_files:
  assumes "encrypt_blob L path alg key nonce aad src sz w = (r, w')" and "rng_fills w" and "hexlower_spec L"
  shows "(\<exists>src' n k k'. r = Inr src' \<and> sink_out k = [] \<and> encrypt_stream_with L alg key nonce aad sz (src, k) = (Inr n, (src', k')) \<and>
            fs_get w' = (fs_get w)(path \<mapsto> FileNode (sink_out k'))) \<or>
         (\<exists>e. r = Inl e \<and> (\<forall>p. fs_get w' p \<noteq> fs_get w p \<longrightarrow> is_safe_writer_temp (path_file_name p)))"
    (is "?done \<or> ?failed")
proof -
  obtain q w1 where q: "sw_create L path w = (q, w1)" by force
  from sw_create_files [OF q assms(2)] show ?thesis
  proof (elim disjE exE conjE)
    fix e assume "q = Inl e" "fs_get w1 = fs_get w"
    with q assms(1) show ?thesis by (auto simp: encrypt_blob_def)
  next
    fix tmp sfx
    let ?sw = "\<lparr>sw_dest = path, sw_tmp = tmp, sw_file = True, sw_committed = False\<rparr>"
    let ?m = "encrypt_stream_with L alg key nonce aad sz"
    assume sw: "q = Inr ?sw" and tmp: "tmp = path_join (parent_or_dot path) (temp_name L sfx)" "length sfx = 8"
      and none: "fs_get w tmp = None" and w1: "fs_get w1 = (fs_get w)(tmp \<mapsto> FileNode [])"
    have temp: "is_safe_writer_temp (path_file_name tmp)"
      using temp_name_shape [OF assms(3) tmp(2)] tmp(1) by (simp add: path_file_name_join)
    have left: ?failed if "r = Inl e" and "fs_get w' = (fs_get w)(tmp := x)" for e x
      using that temp by auto
    obtain a w2 where a: "sw_stream ?sw ?m src w1 = (a, w2)" by force
    from sw_stream_files [OF a] w1 obtain q2 src' k where m: "?m (src, writer_sink w1) = (q2, (src', k))"
      and a': "a = map_sum id (\<lambda>x. (x, src')) q2" and w2: "fs_get w2 = (fs_get w)(tmp \<mapsto> FileNode (sink_out k))" by auto
    show ?thesis
    proof (cases q2)
      case (Inl e)
      with a' have "a = Inl e" by simp
      with q sw a assms(1) obtain w3 where w3: "sw_drop ?sw w2 = (Inr (), w3)" "r = Inl e" "w' = w3"
        using sw_drop_files by (fastforce simp: encrypt_blob_def attempt_run bnd_eq)
      then have "fs_get w' = (fs_get w)(tmp := None) \<or> fs_get w' = (fs_get w)(tmp := Some (FileNode (sink_out k)))"
        using sw_drop_files [OF w3(1)] w2 by auto
      then show ?thesis using left [OF w3(2)] by blast
    next
      case (Inr n)
      with a' have "a = Inr (n, src')" by simp
      then obtain c where c: "sw_commit_without_dir_sync ?sw w2 = (c, w')" and r: "r = map_sum id (\<lambda>_. src') c"
        using q sw a assms(1) by (auto simp: encrypt_blob_def attempt_run bnd_eq)
      from sw_commit_without_dir_sync_files [OF c] show ?thesis
      proof (elim disjE exE conjE)
        assume "c = Inr ()" "fs_get w' = (fs_get w2)(sw_tmp ?sw := None, sw_dest ?sw := fs_get w2 (sw_tmp ?sw))"
        moreover from this have "fs_get w' = (fs_get w)(path \<mapsto> FileNode (sink_out k))" using w2 none by (auto simp: fun_eq_iff)
        moreover have "sink_out (writer_sink w1) = []" by (simp add: writer_sink_def)
        ultimately show ?thesis using m Inr r by fastforce
      next
        fix e assume "c = Inl e" "fs_get w' = fs_get w2"
        then show ?thesis using left [of e "Some (FileNode (sink_out k))"] w2 r by simp
      next
        fix e assume "c = Inl e" "fs_get w' = (fs_get w2)(sw_tmp ?sw := None)"
        then show ?thesis using left [of e None] w2 r by simp
      qed
    qed
  qed
qed

lemma getrandom_drawn:
  assumes "getrandom 16 w = (Inr x, w1)" and "rng_after w1 w'"
  shows "drawn_id L w w' (hex L x)"
proof -
  have "rng_calls w < rng_calls w'" using getrandom_world [OF assms(1)] assms(2) by (simp add: rng_after_def)
  moreover have "rng_source w (rng_calls w) 16 = Some x" using assms(1) by (auto simp: getrandom_def Let_def split: option.splits)
  ultimately show ?thesis unfolding drawn_id_def by blast
qed

lemma getrandom_frame: "getrandom n w = (r, w') \<Longrightarrow> rng_after w w' \<and> fs_get w' = fs_get w"
  using getrandom_world [of n w r w'] by (simp add: rng_after_def)

lemma write_blob_effect:
  assumes "write_blob L rd d sz src w = (r, w')" and "rng_fills w" and "hexlower_spec L"
  shows "blob_frame L rd w w'"
    and "r = Inr (blob, src') \<Longrightarrow> drawn_id L w w' (sb_file_id blob) \<and>
      (\<exists>n k k'. sink_out k = [] \<and> fs_get w' (blob_path rd (sb_file_id blob)) = Some (FileNode (sink_out k')) \<and>
         encrypt_stream_with L (v2_alg rd) (sb_key blob) (sb_nonce blob) (v2_header_bytes rd) DEFAULT_CHUNK_SIZE (src, k)
           = (Inr n, (src', k')))"
proof -
  have after: "rng_after w w'" using preservesD [OF rng_blobs(2) [OF rng_stable_after] assms(1)] by simp
  obtain q1 w1 where q1: "getrandom 16 w = (q1, w1)" by force
  note f1 = getrandom_frame [OF q1]
  have main: "blob_frame L rd w w' \<and> (\<forall>blob src'. r = Inr (blob, src') \<longrightarrow> drawn_id L w w' (sb_file_id blob) \<and>
      (\<exists>n k k'. sink_out k = [] \<and> fs_get w' (blob_path rd (sb_file_id blob)) = Some (FileNode (sink_out k')) \<and>
         encrypt_stream_with L (v2_alg rd) (sb_key blob) (sb_nonce blob) (v2_header_bytes rd) DEFAULT_CHUNK_SIZE (src, k)
           = (Inr n, (src', k'))))"
  proof (cases q1)
    case (Inl e)
    with q1 assms(1) f1 show ?thesis by (auto simp: write_blob_def new_file_id_def random_defs bnd_eq blob_frame_def)
  next
    case (Inr x)
    let ?i = "hex L x"
    obtain q2 w2 where q2: "getrandom 32 w1 = (q2, w2)" by force
    obtain q3 w3 where q3: "getrandom (stream_nonce_len (v2_alg rd)) w2 = (q3, w3)" by force
    have same: "fs_get w3 = fs_get w" "fs_get w2 = fs_get w" "fs_get w1 = fs_get w"
      using f1 getrandom_frame [OF q2] getrandom_frame [OF q3] by auto
    have fills: "rng_fills w3" using getrandom_fills q1 q2 q3 assms(2) by metis
    have aft1: "rng_after w1 w'"
    proof -
      have "preserves (rng_after w1) (bnd symkey_random (\<lambda>key. bnd (random_vec (stream_nonce_len (v2_alg rd))) (\<lambda>nonce.
         bnd (encrypt_blob L (blob_path rd ?i) (v2_alg rd) key nonce (v2_header_bytes rd) src DEFAULT_CHUNK_SIZE) (\<lambda>src'.
           if length (hashed_bytes src src') \<noteq> unat sz \<or> \<not> ct_eq (blake3 L (hashed_bytes src src')) d
           then bnd (attempt (std_remove_file (blob_path rd ?i))) (\<lambda>_. throw Auth)
           else ret (\<lparr>sb_file_id = ?i, sb_key = key, sb_nonce = nonce\<rparr>, src')))))"
        by (intro rng_monad rng_intros rng_stable_after)
      from preservesD [OF this, of w1 r w'] assms(1) q1 Inr show ?thesis
        by (simp add: write_blob_def new_file_id_def random_array_def)
    qed
    have drawn: "drawn_id L w w' ?i" using getrandom_drawn [OF _ aft1] q1 Inr by simp
    show ?thesis
    proof (cases "is_ok q2 \<and> is_ok q3")
      case False
      then have "\<exists>e. r = Inl e \<and> (w' = w2 \<or> w' = w3)"
        using assms(1) q1 q2 q3 Inr by (cases q2; cases q3) (auto simp: write_blob_def new_file_id_def random_defs)
      with same after show ?thesis by (auto simp: blob_frame_def)
    next
      case True
      then obtain key nonce where kn: "q2 = Inr key" "q3 = Inr nonce" by (auto simp: is_ok_iff)
      obtain q4 w4 where q4: "encrypt_blob L (blob_path rd ?i) (v2_alg rd) key nonce (v2_header_bytes rd) src DEFAULT_CHUNK_SIZE w3 = (q4, w4)"
        by force
      have rest: "(case q4 of Inl e \<Rightarrow> (Inl e, w4) | Inr s' \<Rightarrow>
          (if length (hashed_bytes src s') \<noteq> unat sz \<or> \<not> ct_eq (blake3 L (hashed_bytes src s')) d
           then bnd (attempt (std_remove_file (blob_path rd ?i))) (\<lambda>_. throw Auth)
           else ret (\<lparr>sb_file_id = ?i, sb_key = key, sb_nonce = nonce\<rparr>, s')) w4) = (r, w')"
        using assms(1) q1 q2 q3 q4 kn Inr by (cases q4) (auto simp: write_blob_def new_file_id_def random_defs)
      from encrypt_blob_files [OF q4 fills assms(3)] show ?thesis
      proof (elim disjE exE conjE)
        fix e assume "q4 = Inl e" "\<forall>p. fs_get w4 p \<noteq> fs_get w3 p \<longrightarrow> is_safe_writer_temp (path_file_name p)"
        with rest same after show ?thesis by (auto simp: blob_frame_def)
      next
        fix s' n k k' assume e: "q4 = Inr s'" "sink_out k = []"
          "encrypt_stream_with L (v2_alg rd) key nonce (v2_header_bytes rd) DEFAULT_CHUNK_SIZE (src, k) = (Inr n, (s', k'))"
          "fs_get w4 = (fs_get w3)(blob_path rd ?i \<mapsto> FileNode (sink_out k'))"
        show ?thesis
        proof (cases "length (hashed_bytes src s') \<noteq> unat sz \<or> \<not> ct_eq (blake3 L (hashed_bytes src s')) d")
          case True
          with rest e(1) obtain u where "std_remove_file (blob_path rd ?i) w4 = (u, w')" "r = Inl Auth"
            by (auto simp: bnd_eq attempt_eq)
          with std_remove_file_files [OF this(1)] e(4) same after drawn show ?thesis by (auto simp: blob_frame_def)
        next
          case False
          with rest e(1) have "r = Inr (\<lparr>sb_file_id = ?i, sb_key = key, sb_nonce = nonce\<rparr>, s')" "w' = w4" by auto
          with e same after drawn show ?thesis by (auto simp: blob_frame_def)
        qed
      qed
    qed
  qed
  then show "blob_frame L rd w w'"
    and "r = Inr (blob, src') \<Longrightarrow> drawn_id L w w' (sb_file_id blob) \<and>
      (\<exists>n k k'. sink_out k = [] \<and> fs_get w' (blob_path rd (sb_file_id blob)) = Some (FileNode (sink_out k')) \<and>
         encrypt_stream_with L (v2_alg rd) (sb_key blob) (sb_nonce blob) (v2_header_bytes rd) DEFAULT_CHUNK_SIZE (src, k)
           = (Inr n, (src', k')))" by blast+
qed

subsection \<open>What a blob holds\<close>

text \<open>The blob of a file entry holds the sealed chunks of the given content, which is the one
  the manifest declares.\<close>

definition blob_holds :: "lib \<Rightarrow> vault_reader_v2 \<Rightarrow> world \<Rightarrow> entry_v2 \<Rightarrow> bytes \<Rightarrow> bool" where
  "blob_holds L rd w e data \<longleftrightarrow>
     (\<exists>i key nonce cts. e2_file_id e = Some i \<and> e2_key e = Some key \<and> e2_nonce e = Some nonce \<and> blob_id_ok i \<and>
        stream_params (v2_alg rd) key nonce (unat (e2_chunk_size e)) \<and>
        fs_get w (blob_path rd i) = Some (FileNode (concat cts)) \<and>
        chunked (aead_encrypt L (v2_alg rd) key) nonce (v2_header_bytes rd) (chunks_of (unat (e2_chunk_size e)) data) cts \<and>
        length data = unat (e2_size e) \<and> blake3 L data = e2_blake3 e)"

definition blob_entry :: "string \<Rightarrow> staged_blob \<Rightarrow> bytes \<Rightarrow> u64 \<Rightarrow> int option \<Rightarrow> u32 option \<Rightarrow> entry_v2" where
  "blob_entry n blob d sz mtime mode =
     \<lparr>e2_path = n, e2_kind = File, e2_size = sz, e2_mtime = mtime, e2_mode = mode, e2_blake3 = d,
      e2_file_id = Some (sb_file_id blob), e2_key = Some (sb_key blob), e2_nonce = Some (sb_nonce blob),
      e2_chunk_size = of_nat DEFAULT_CHUNK_SIZE\<rparr>"

lemma write_blob_holds:
  assumes "write_blob L rd d sz src w = (Inr (blob, src'), w')" and "rng_fills w" and "hexlower_spec L"
    and "stream_be32 L" and "tame src"
  shows "blob_holds L rd w' (blob_entry n blob d sz mtime mode) (content src)"
proof -
  note res = write_blob_result [OF assms(1-3)]
  from write_blob_effect(2) [OF assms(1-3) refl] obtain m k k' where k: "sink_out k = []"
    and f: "fs_get w' (blob_path rd (sb_file_id blob)) = Some (FileNode (sink_out k'))"
    and enc: "encrypt_stream_with L (v2_alg rd) (sb_key blob) (sb_nonce blob) (v2_header_bytes rd) DEFAULT_CHUNK_SIZE (src, k)
           = (Inr m, (src', k'))" by blast
  from encrypt_stream_written [OF assms(4,5) k enc] obtain cts where p: "stream_params (v2_alg rd) (sb_key blob) (sb_nonce blob) DEFAULT_CHUNK_SIZE"
    and c: "chunked (aead_encrypt L (v2_alg rd) (sb_key blob)) (sb_nonce blob) (v2_header_bytes rd)
              (chunks_of DEFAULT_CHUNK_SIZE (content src)) cts" "sink_out k' = concat cts" "src' = []" by blast
  have h: "hashed_bytes src src' = content src" using c(3) by (simp add: hashed_bytes_def)
  have cs: "unat (of_nat DEFAULT_CHUNK_SIZE :: u32) = DEFAULT_CHUNK_SIZE" by (simp add: DEFAULT_CHUNK_SIZE_def)
  show ?thesis unfolding blob_holds_def blob_entry_def using res(1,4,5) f p c(1,2) cs h by auto
qed

lemma blob_holds_frame:
  "blob_holds L rd w e data \<Longrightarrow> (\<And>i. e2_file_id e = Some i \<Longrightarrow> fs_get w' (blob_path rd i) = fs_get w (blob_path rd i)) \<Longrightarrow>
     blob_holds L rd w' e data"
  unfolding blob_holds_def by auto

lemma blob_holds_cong:
  "e2_file_id e' = e2_file_id e \<Longrightarrow> e2_key e' = e2_key e \<Longrightarrow> e2_nonce e' = e2_nonce e \<Longrightarrow> e2_chunk_size e' = e2_chunk_size e \<Longrightarrow>
     e2_size e' = e2_size e \<Longrightarrow> e2_blake3 e' = e2_blake3 e \<Longrightarrow> blob_holds L rd w e' data = blob_holds L rd w e data"
  unfolding blob_holds_def by simp

subsection \<open>Reading\<close>

lemma length_le_chunks: "0 < c \<Longrightarrow> length data \<le> length (chunks_of c data) * c"
proof -
  assume c: "0 < c"
  have "sum_list (map length cs) \<le> length cs * c" if "\<forall>x\<in>set cs. length x \<le> c" for cs :: "'a list list"
    using that by (induction cs) auto
  from this [of "chunks_of c data"] chunks_of_lengths [OF c] have "length (concat (chunks_of c data)) \<le> length (chunks_of c data) * c"
    by (simp only: length_concat) blast
  then show ?thesis by simp
qed

lemma unat_chunk: "c \<le> MAX_CHUNK_SIZE \<Longrightarrow> unat (of_nat c :: u64) = c"
  by (simp add: unat_of_nat MAX_CHUNK_SIZE_def)

text \<open>The number of chunks is the one the length of the content gives, and every offset fits.\<close>

lemma blob_arith:
  assumes "0 < c" and "c \<le> MAX_CHUNK_SIZE" and "length data = unat sz" and "unat (num_chunks sz (of_nat c)) < 2 ^ 32"
  shows "unat (num_chunks sz (of_nat c)) = length (chunks_of c data)"
    and "unat sz \<le> length (chunks_of c data) * c" and "length (chunks_of c data) * c < 2 ^ 56"
    and "unat sz + length (chunks_of c data) * TAG_LEN < 2 ^ 64"
proof -
  note c = unat_chunk [OF assms(2)]
  show n: "unat (num_chunks sz (of_nat c)) = length (chunks_of c data)"
    using unat_num_chunks [of "of_nat c" sz] assms(1,3) c by (auto simp: length_chunks_of unat_eq_0)
  show le: "unat sz \<le> length (chunks_of c data) * c" using length_le_chunks [OF assms(1), of data] assms(3) by simp
  have lt: "length (chunks_of c data) < 2 ^ 32" using n assms(4) by simp
  then have "length (chunks_of c data) * c < 2 ^ 32 * 2 ^ 24"
    using assms(1,2) by (intro mult_less_le_imp_less) (auto simp: MAX_CHUNK_SIZE_def)
  then show b: "length (chunks_of c data) * c < 2 ^ 56" by simp
  with le lt show "unat sz + length (chunks_of c data) * TAG_LEN < 2 ^ 64" by (simp add: TAG_LEN_def)
qed

lemma length_chunk_nth:
  assumes "0 < c" and "i < length (chunks_of c data)"
  shows "length (chunks_of c data ! i) = (if Suc i = length (chunks_of c data) then length data - i * c else c)"
proof -
  have nth: "length (chunks_of c data ! i) = min c (length data - i * c)" using chunks_of_nth [OF assms] by simp
  show ?thesis
  proof (cases "Suc i = length (chunks_of c data)")
    case True
    have "length data \<le> length (chunks_of c data) * c" by (rule length_le_chunks [OF assms(1)])
    then have "length data - i * c \<le> c" unfolding True [symmetric] by simp
    with nth True show ?thesis by simp
  next
    case False
    then have "i < length (butlast (chunks_of c data))" using assms(2) by simp
    then have "chunks_of c data ! i \<in> set (butlast (chunks_of c data))" by (metis nth_butlast nth_mem)
    with chunks_of_full [OF assms(1)] False show ?thesis by simp
  qed
qed

lemma chunk_offset_le:
  assumes "0 < c" and "i < length (chunks_of c data)"
  shows "i * c \<le> length data"
proof (cases "i = 0")
  case False
  then have "data \<noteq> []" using assms by (auto simp: length_chunks_of)
  have "chunks_of c data ! i \<noteq> []"
  proof (cases "Suc i = length (chunks_of c data)")
    case True
    with chunks_of_last [OF assms(1) \<open>data \<noteq> []\<close>] show ?thesis by (metis chunks_of_not_Nil diff_Suc_1 last_conv_nth)
  next
    case False
    with length_chunk_nth [OF assms] assms(1) show ?thesis by auto
  qed
  with chunks_of_nth [OF assms] show ?thesis by simp
qed simp

lemma unat_mult_small: "unat a * unat b < 2 ^ 64 \<Longrightarrow> unat (a * b :: u64) = unat a * unat b"
  and unat_add_small: "unat a + unat b < 2 ^ 64 \<Longrightarrow> unat (a + b :: u64) = unat a + unat b"
  using unat_mult_lem [of a b] unat_add_lem [of a b] by simp_all

text \<open>The words that \<open>decrypt_blob_chunk\<close> computes for one chunk.\<close>

lemma blob_chunk_words:
  fixes data :: bytes and e :: entry_v2 and i :: nat
  defines "k \<equiv> ucast (e2_chunk_size e) :: u64" and "n \<equiv> length (chunks_of (unat (e2_chunk_size e)) data)"
  defines "pt \<equiv> (if of_nat i = num_chunks (e2_size e) k - 1 then e2_size e - (num_chunks (e2_size e) k - 1) * k else k)"
  assumes "c = unat (e2_chunk_size e)" and "0 < c" and "c \<le> MAX_CHUNK_SIZE"
    and "length data = unat (e2_size e)" and "unat (num_chunks (e2_size e) (of_nat c)) < 2 ^ 32" and "i < n"
  shows "of_nat i = num_chunks (e2_size e) k - 1 \<longleftrightarrow> Suc i = n"
    and "unat (pt + of_nat TAG_LEN) = length (chunks_of c data ! i) + TAG_LEN"
    and "unat (of_nat i * (k + of_nat TAG_LEN) :: u64) = i * (c + TAG_LEN)"
    and "ucast (of_nat i :: u64) = (of_nat i :: u32)"
proof -
  let ?last = "num_chunks (e2_size e) k - 1"
  have k: "k = of_nat c" using assms(4) by (simp add: k_def)
  then have k2: "unat k = c" using assms(6) by (simp add: unat_of_nat MAX_CHUNK_SIZE_def)
  have n: "n = length (chunks_of c data)" using assms(4) by (simp add: n_def)
  have i_lt: "i < length (chunks_of c data)" using assms(9) n by simp
  note ar = blob_arith [OF assms(5-8), folded n]
  have n32: "n < 2 ^ 32" using ar(1) assms(8) by simp
  have last: "unat ?last = n - 1" using ar(1) k assms(9) by (simp add: unat_sub_if_size)
  have i: "unat (of_nat i :: u64) = i" using n32 assms(9) by (simp add: unat_of_nat)
  have "ucast (of_nat i :: u64) = (of_nat (unat (of_nat i :: u64)) :: u32)" by simp
  then show "ucast (of_nat i :: u64) = (of_nat i :: u32)" unfolding i .
  from i show is_last: "of_nat i = ?last \<longleftrightarrow> Suc i = n" using last assms(9) by (auto simp: word_unat_eq_iff)
  have pt: "unat pt = length (chunks_of c data ! i)"
  proof (cases "Suc i = n")
    case True
    have lt: "unat ?last = i" using last True by (metis diff_Suc_1)
    have off: "i * c \<le> length data" by (rule chunk_offset_le [OF assms(5) i_lt])
    then have "i * c < 2 ^ 64" using assms(7) unsigned_less [of "e2_size e", where ?'a = nat] by simp
    then have "unat (?last * k) = i * c" using unat_mult_small [of ?last k] unfolding lt k2 by blast
    with True is_last off assms(7) length_chunk_nth [OF assms(5) i_lt] n show ?thesis
      by (simp add: pt_def unat_sub word_le_nat_alt)
  next
    case False
    with is_last k2 length_chunk_nth [OF assms(5) i_lt] n show ?thesis by (simp add: pt_def)
  qed
  have "length (chunks_of c data ! i) \<le> c" using chunks_of_lengths [OF assms(5)] nth_mem [OF i_lt] by blast
  then show "unat (pt + of_nat TAG_LEN) = length (chunks_of c data ! i) + TAG_LEN"
    using pt assms(6) by (subst unat_add_small) (auto simp: TAG_LEN_def MAX_CHUNK_SIZE_def)
  have "i * (c + TAG_LEN) \<le> n * (c + TAG_LEN)" using assms(9) by simp
  also have "\<dots> = n * c + n * TAG_LEN" by (simp add: algebra_simps)
  also have "\<dots> < 2 ^ 64" using ar(3) n32 by (simp add: TAG_LEN_def)
  finally have bound: "i * (c + TAG_LEN) < 2 ^ 64" .
  have "unat (k + of_nat TAG_LEN) = c + TAG_LEN"
    using k2 assms(6) by (subst unat_add_small) (auto simp: TAG_LEN_def MAX_CHUNK_SIZE_def)
  then show "unat (of_nat i * (k + of_nat TAG_LEN) :: u64) = i * (c + TAG_LEN)"
    using bound i by (subst unat_mult_small) auto
qed

text \<open>Cutting one sealed chunk out of the blob.\<close>

lemma sealed_piece:
  assumes "chunks_of (c + TAG_LEN) (concat cts) = cts" and "0 < c" and "i < length cts" and "length (cts ! i) = m + TAG_LEN"
  shows "i * (c + TAG_LEN) + (m + TAG_LEN) \<le> length (concat cts)"
    and "take (m + TAG_LEN) (drop (i * (c + TAG_LEN)) (concat cts)) = cts ! i"
proof -
  have piece: "take (c + TAG_LEN) (drop (i * (c + TAG_LEN)) (concat cts)) = cts ! i"
    using chunks_of_nth [of "c + TAG_LEN" i "concat cts"] assms(1-3) by simp
  have "0 < TAG_LEN" by (simp add: TAG_LEN_def)
  with assms(4) arg_cong [OF piece, of length] show "i * (c + TAG_LEN) + (m + TAG_LEN) \<le> length (concat cts)"
    by (auto simp: min_def split: if_splits)
  show "take (m + TAG_LEN) (drop (i * (c + TAG_LEN)) (concat cts)) = cts ! i"
    using piece assms(4) by (metis length_take min_def take_all_iff take_take nat_le_linear)
qed

lemma decrypt_blob_chunk_holds:
  assumes "aead_correct L" and "no_faults w" and "stream_params (v2_alg rd) key nonce c" and "c = unat (e2_chunk_size e)"
    and "chunked (aead_encrypt L (v2_alg rd) key) nonce (v2_header_bytes rd) (chunks_of c data) cts"
    and "length data = unat (e2_size e)" and "unat (num_chunks (e2_size e) (of_nat c)) < 2 ^ 32"
    and "i < length (chunks_of c data)"
  shows "decrypt_blob_chunk L rd (concat cts) e key nonce (of_nat i) w = (Inr (chunks_of c data ! i), w\<lparr>io_calls := io_calls w + 2\<rparr>)"
proof -
  have p: "0 < c" "c \<le> MAX_CHUNK_SIZE" "length key = 32" "length nonce = stream_nonce_len (v2_alg rd)"
    using assms(3) by (simp_all add: stream_params_def)
  note words = blob_chunk_words [OF assms(4) p(1,2) assms(6,7) assms(8) [unfolded assms(4)]]
  note sealed = chunked_sealed [OF assms(1,5) p(1)]
  have m: "i < length cts" using assms(5,8) by (simp add: chunked_def)
  have len: "length (cts ! i) = length (chunks_of c data ! i) + TAG_LEN"
    using arg_cong [OF sealed(2), of "\<lambda>xs. xs ! i"] assms(8) m by simp
  note piece = sealed_piece [OF sealed(3) p(1) m len]
  have "decrypt_chunk_with L (v2_alg rd) key nonce (v2_header_bytes rd) (of_nat i) (Suc i = length (chunks_of c data)) (cts ! i)
      = Inr (chunks_of c data ! i)"
    using decrypt_chunk_with_eq [OF p(4,3)] sealed(1) m assms(5) by (simp add: chunked_def)
  then show ?thesis
    unfolding decrypt_blob_chunk_def Let_def read_exact_at_def
    using assms(2,4) words piece by (simp add: syscall_no_faults no_faults_def)
qed

lemma follow_file: "fs_get w p = Some (FileNode b) \<Longrightarrow> 0 < n \<Longrightarrow> follow n w p = Some (FileNode b)"
  by (cases n) auto

lemma open_blob_holds:
  assumes "no_faults w" and "fs_get w (blob_path rd i) = Some (FileNode ct)" and "c = unat (e2_chunk_size e)"
    and "0 < c" and "c \<le> MAX_CHUNK_SIZE" and "length data = unat (e2_size e)" and "unat (num_chunks (e2_size e) (of_nat c)) < 2 ^ 32"
    and "length ct = length data + TAG_LEN * length (chunks_of c data)"
  shows "open_blob rd i (e2_size e) (e2_chunk_size e) w = (Inr ct, w\<lparr>io_calls := io_calls w + 2\<rparr>)"
proof -
  let ?n = "num_chunks (e2_size e) (ucast (e2_chunk_size e)) :: u64"
  have k: "ucast (e2_chunk_size e) = (of_nat c :: u64)" using assms(3) by simp
  note ar = blob_arith [OF assms(4-7)]
  have n: "unat ?n = length (chunks_of c data)" using ar(1) k by simp
  have prod: "unat (?n * of_nat TAG_LEN) = length (chunks_of c data) * TAG_LEN"
    using n ar(4) by (subst unat_mult_small) (auto simp: TAG_LEN_def)
  have "checked_add (e2_size e) (?n * of_nat TAG_LEN) = Some (e2_size e + ?n * of_nat TAG_LEN)"
    using prod ar(4) by (simp add: checked_add_def)
  moreover have "unat (e2_size e + ?n * of_nat TAG_LEN) = length ct"
    using prod ar(4) assms(6,8) by (subst unat_add_small) (auto simp: mult.commute)
  moreover have "e2_chunk_size e \<noteq> 0" using assms(3,4) by auto
  moreover have "\<not> ?n > 0xFFFFFFFF" using n assms(7) k by (simp add: word_less_nat_alt)
  moreover have "std_open_read (blob_path rd i) w = (Inr (FileNode ct), w\<lparr>io_calls := io_calls w + 1\<rparr>)"
    using assms(1,2) by (simp add: std_open_read_def syscall_no_faults follow_file)
  ultimately show ?thesis using assms(1) by (simp add: open_blob_def Let_def bnd_def syscall_no_faults no_faults_def)
qed

lemma read_fold:
  assumes "aead_correct L" and "no_faults w" and "stream_params (v2_alg rd) key nonce c" and "c = unat (e2_chunk_size e)"
    and "chunked (aead_encrypt L (v2_alg rd) key) nonce (v2_header_bytes rd) (chunks_of c data) cts"
    and "length data = unat (e2_size e)" and "unat (num_chunks (e2_size e) (of_nat c)) < 2 ^ 32"
    and "m \<le> length (chunks_of c data)"
  shows "io_fold (\<lambda>i hasher. bnd (on_fst (decrypt_blob_chunk L rd (concat cts) e key nonce i)) (\<lambda>pt.
                  bnd (vec_write pt) (\<lambda>_. ret (hasher @ pt))))
           (map of_nat [length (chunks_of c data) - m..<length (chunks_of c data)]) h (w, buf)
       = (Inr (h @ concat (drop (length (chunks_of c data) - m) (chunks_of c data))),
          (w\<lparr>io_calls := io_calls w + 2 * m\<rparr>, buf @ concat (drop (length (chunks_of c data) - m) (chunks_of c data))))"
  using assms(2,8)
proof (induction m arbitrary: w h buf)
  case (Suc m)
  let ?n = "length (chunks_of c data)"
  let ?i = "?n - Suc m"
  let ?w = "w\<lparr>io_calls := io_calls w + 2\<rparr>"
  have i: "?i < ?n" "Suc ?i = ?n - m" using Suc.prems by auto
  have up: "[?i..<?n] = ?i # [?n - m..<?n]" using upt_conv_Cons [OF i(1)] i(2) by simp
  have dr: "drop ?i (chunks_of c data) = chunks_of c data ! ?i # drop (?n - m) (chunks_of c data)"
    using Cons_nth_drop_Suc [OF i(1)] i(2) by simp
  have "no_faults ?w" using Suc.prems(1) by (simp add: no_faults_def)
  from Suc.IH [OF this, of "h @ chunks_of c data ! ?i" "buf @ chunks_of c data ! ?i"]
    decrypt_blob_chunk_holds [OF assms(1) Suc.prems(1) assms(3-7) i(1)] Suc.prems(2)
  show ?case unfolding up dr by (simp add: bnd_def vec_write_def)
qed simp

lemma read_entry_holds:
  assumes "aead_correct L" and "no_faults w" and "file_entry rd path = Inr e" and "blob_holds L rd w e data"
    and "unat (num_chunks (e2_size e) (ucast (e2_chunk_size e))) < 2 ^ 32"
  shows "\<exists>k. read_entry L rd path w = (Inr data, w\<lparr>io_calls := k\<rparr>)"
proof -
  let ?c = "unat (e2_chunk_size e)"
  let ?n = "length (chunks_of ?c data)"
  from assms(4) obtain i key nonce cts where e: "e2_file_id e = Some i" "e2_key e = Some key" "e2_nonce e = Some nonce" "blob_id_ok i"
    and p: "stream_params (v2_alg rd) key nonce ?c" and f: "fs_get w (blob_path rd i) = Some (FileNode (concat cts))"
    and c: "chunked (aead_encrypt L (v2_alg rd) key) nonce (v2_header_bytes rd) (chunks_of ?c data) cts"
    and d: "length data = unat (e2_size e)" "blake3 L data = e2_blake3 e" by (auto simp: blob_holds_def)
  have c0: "0 < ?c" "?c \<le> MAX_CHUNK_SIZE" using p by (simp_all add: stream_params_def)
  have nc: "unat (num_chunks (e2_size e) (of_nat ?c)) < 2 ^ 32" using assms(5) by simp
  have n: "unat (num_chunks (e2_size e) (ucast (e2_chunk_size e))) = ?n" using blob_arith(1) [OF c0 d(1) nc] by simp
  then have last: "Suc (unat (num_chunks (e2_size e) (ucast (e2_chunk_size e)) - 1)) = ?n"
    using length_greater_0_conv [of "chunks_of ?c data"] by (simp add: unat_sub_if_size Suc_leI del: length_greater_0_conv)
  have "length (concat cts) = length data + TAG_LEN * ?n"
    using length_concat_sealed [OF chunked_sealed(2) [OF assms(1) c c0(1)]] by simp
  note op = open_blob_holds [OF assms(2) f refl c0 d(1) nc this]
  let ?w = "w\<lparr>io_calls := io_calls w + 2\<rparr>"
  have nf: "no_faults ?w" using assms(2) by (simp add: no_faults_def)
  note fold = read_fold [OF assms(1) nf p refl c d(1) nc le_refl, of "[]" "[]"]
  have "blob_id e = Inr i" using e(1,4) validate_blob_id_iff [of i] by (simp add: blob_id_def)
  moreover have "(ucast (e2_chunk_size e) :: u64) \<noteq> 0"
  proof -
    have "unat (of_nat ?c :: u64) = ?c" by (rule unat_chunk [OF c0(2)])
    then show ?thesis using c0(1) by (metis of_nat_unat unat_0 less_numeral_extra(3))
  qed
  ultimately have "read_entry_to_writer L rd path vec_write (w, []) = (Inr (), (?w\<lparr>io_calls := io_calls ?w + 2 * ?n\<rparr>, data))"
    unfolding read_entry_to_writer_def Let_def
    using assms(3) e(2,3) op fold d(2) by (simp add: bnd_def last del: upt_Suc)
  then show ?thesis using assms(3) by (auto simp: read_entry_def with_local_def bnd_def)
qed

text \<open>Whatever the disk holds and whatever fails: content that is returned has the digest the
  manifest declares.\<close>

lemma read_entry_authentic:
  assumes "read_entry L rd path w = (Inr data, w')"
  shows "\<exists>e. file_entry rd path = Inr e \<and> blake3 L data = e2_blake3 e"
proof -
  have fold: "\<exists>x. h' = h @ x \<and> snd s' = snd s @ x"
    if "io_fold (\<lambda>i hasher. bnd (on_fst (g i)) (\<lambda>pt. bnd (vec_write pt) (\<lambda>_. ret (hasher @ pt)))) xs h s = (Inr h', s')"
    for g :: "u64 \<Rightarrow> bytes io" and xs h s s' h'
    using that
  proof (induction xs arbitrary: h s)
    case (Cons x xs)
    obtain w0 buf a w1 where s: "s = (w0, buf)" and g: "g x w0 = (a, w1)" by (metis prod.collapse)
    show ?case
    proof (cases a)
      case (Inr pt)
      with Cons.prems s g Cons.IH [of "h @ pt" "(w1, buf @ pt)"] show ?thesis by (auto simp: bnd_def vec_write_def)
    qed (use Cons.prems s g in \<open>simp add: bnd_def\<close>)
  qed auto
  obtain q s buf where q: "read_entry_to_writer L rd path vec_write (w, []) = (q, (s, buf))" by (metis prod.collapse)
  with assms obtain e where e: "file_entry rd path = Inr e" and run: "read_entry_to_writer L rd path vec_write (w, []) = (Inr (), (s, data))"
    by (cases q) (auto simp: read_entry_def bnd_eq_Inr with_local_def)
  from run e have "blake3 L data = e2_blake3 e"
    by (auto simp: read_entry_to_writer_def bnd_eq_Inr Let_def split: if_splits dest!: fold)
  with e show ?thesis by blast
qed

end
