(* ===== verification/V2_Commit.thy ===== *)
theory V2_Commit
  imports V2_Blobs
begin

section \<open>Committing edits to the at-rest vault (format_v2.rs)\<close>

text \<open>
  Every mutation of an open vault runs a batch of edits on a copy of the manifest, seals and
  writes that copy once, and only then adopts it. Superseded blobs are unlinked after a commit
  known to be durable; what a crash leaves is collected later. The builders fill a fresh vault
  with the same editor.
\<close>

subsection \<open>The commit point\<close>

definition unlink_blobs :: "vault_reader_v2 \<Rightarrow> string list \<Rightarrow> unit io" where
  "unlink_blobs self ids = io_for (\<lambda>i. bnd (attempt (std_remove_file (blob_path self i))) (\<lambda>_. ret ())) ids"

definition reclaim :: "string list \<Rightarrow> bool \<Rightarrow> (vault_reader_v2 \<times> world, unit) op" where
  "reclaim superseded durable =
     bnd (on_fst (modify (\<lambda>self. self\<lparr>v2_pending_reclaim := v2_pending_reclaim self @ superseded\<rparr>))) (\<lambda>_.
       if durable
       then bnd (gets fst) (\<lambda>self.
            bnd (on_fst (modify (\<lambda>self. self\<lparr>v2_pending_reclaim := []\<rparr>))) (\<lambda>_.
            on_snd (unlink_blobs self (v2_pending_reclaim self))))
       else ret ())"

text \<open>Running the edits on a fresh batch: what they return and the batch they leave.\<close>

definition run_edits :: "(vault_batch \<times> world, unit) op \<Rightarrow> vault_batch \<Rightarrow> (unit result \<times> vault_batch) io" where
  "run_edits edits b w = (case edits (b, w) of (r, (b', w')) \<Rightarrow> (Inr (r, b'), w'))"

definition commit_with ::
  "lib \<Rightarrow> v2_codecs \<Rightarrow> nat option \<Rightarrow> (vault_batch \<times> world, unit) op \<Rightarrow> (vault_reader_v2 \<times> world, unit) op" where
  "commit_with L C limit edits =
     bnd (gets fst) (\<lambda>self.
     bnd (on_snd (run_edits edits (vb_new self limit))) (\<lambda>(edited, batch).
     bnd (on_snd (attempt (bnd (lift edited) (\<lambda>_.
            if vb_changed batch then bnd (seal_and_write L C self (vb_manifest batch)) (\<lambda>x. ret (Some x)) else ret None)))) (\<lambda>committed.
       case committed of
         Inr c \<Rightarrow>
           (case c of
              Some (state, durable) \<Rightarrow>
                bnd (on_fst (modify (\<lambda>self. self\<lparr>v2_manifest := vb_manifest batch, v2_state := Some state,
                                                v2_view := view_of (vb_manifest batch)\<rparr>))) (\<lambda>_.
                reclaim (vb_superseded batch) durable)
            | None \<Rightarrow> ret ())
       | Inl e \<Rightarrow> bnd (on_snd (unlink_blobs self (vb_staged batch))) (\<lambda>_. throw e))))"

definition commit_batch ::
  "lib \<Rightarrow> v2_codecs \<Rightarrow> (vault_batch \<times> world, unit) op \<Rightarrow> (vault_reader_v2 \<times> world, unit) op" where
  "commit_batch L C edits = commit_with L C (Some MAX_BATCH_OPS) edits"

definition commit_build ::
  "lib \<Rightarrow> v2_codecs \<Rightarrow> (vault_batch \<times> world, unit) op \<Rightarrow> (vault_reader_v2 \<times> world, unit) op" where
  "commit_build L C edits = commit_with L C None edits"

definition v2_put_file ::
  "lib \<Rightarrow> v2_codecs \<Rightarrow> string \<Rightarrow> string \<Rightarrow> int option \<Rightarrow> u32 option \<Rightarrow> (vault_reader_v2 \<times> world, unit) op" where
  "v2_put_file L C vault_path src_path mtime mode = commit_batch L C (vb_put_file L vault_path src_path mtime mode)"

definition v2_put_file_bytes ::
  "lib \<Rightarrow> v2_codecs \<Rightarrow> string \<Rightarrow> bytes \<Rightarrow> int option \<Rightarrow> u32 option \<Rightarrow> (vault_reader_v2 \<times> world, unit) op" where
  "v2_put_file_bytes L C vault_path b mtime mode = commit_batch L C (vb_put_bytes L vault_path b mtime mode)"

definition v2_mkdir :: "lib \<Rightarrow> v2_codecs \<Rightarrow> string \<Rightarrow> (vault_reader_v2 \<times> world, unit) op" where
  "v2_mkdir L C vault_path = commit_batch L C (on_fst (vb_mkdir vault_path))"

definition remove_path :: "lib \<Rightarrow> v2_codecs \<Rightarrow> string \<Rightarrow> (vault_reader_v2 \<times> world, unit) op" where
  "remove_path L C vault_path = commit_batch L C (on_fst (vb_remove vault_path))"

definition v2_rename :: "lib \<Rightarrow> v2_codecs \<Rightarrow> string \<Rightarrow> string \<Rightarrow> (vault_reader_v2 \<times> world, unit) op" where
  "v2_rename L C from to = commit_batch L C (on_fst (vb_rename from to))"

definition v2_set_attr ::
  "lib \<Rightarrow> v2_codecs \<Rightarrow> string \<Rightarrow> int option \<Rightarrow> u32 option \<Rightarrow> (vault_reader_v2 \<times> world, unit) op" where
  "v2_set_attr L C vault_path mtime mode = commit_batch L C (on_fst (vb_set_attr vault_path mtime mode))"

subsection \<open>Garbage\<close>

definition referenced :: "manifest_v2 \<Rightarrow> string list" where
  "referenced m = concat (map (\<lambda>e. case e2_file_id e of None \<Rightarrow> [] | Some f \<Rightarrow> [f]) (m2_entries m))"

text \<open>One entry of the listing; the call before it stands for reading the entry.\<close>

definition gc_entry :: "vault_reader_v2 \<Rightarrow> string \<Rightarrow> nat \<Rightarrow> nat io" where
  "gc_entry self name removed =
     bnd (syscall (ret ())) (\<lambda>_.
       let orphan_blob = is_ok (validate_blob_id name) \<and> name \<notin> set (referenced (v2_manifest self)) in
       if orphan_blob \<or> is_safe_writer_temp name
       then bnd (std_symlink_metadata (blob_path self name)) (\<lambda>t.
              if is_file t
              then bnd (attempt (std_remove_file (blob_path self name))) (\<lambda>r. ret (if is_ok r then removed + 1 else removed))
              else ret removed)
       else ret removed)"

definition collect_garbage :: "(vault_reader_v2 \<times> world, nat) op" where
  "collect_garbage =
     bnd (gets fst) (\<lambda>self.
     bnd (on_snd (attempt (bnd (sync_dir (v2_dir self)) (\<lambda>_. sync_dir (path_join (v2_dir self) BLOBS_DIR))))) (\<lambda>synced.
       if \<not> is_ok synced then ret 0
       else
         bnd (on_snd (std_read_dir (path_join (v2_dir self) BLOBS_DIR))) (\<lambda>names.
         bnd (on_snd (io_fold (gc_entry self) names 0)) (\<lambda>removed.
         bnd (on_fst (modify (\<lambda>self. self\<lparr>v2_pending_reclaim := []\<rparr>))) (\<lambda>_. ret removed)))))"

subsection \<open>Building a vault from another\<close>

definition entry_plaintext :: "lib \<Rightarrow> vault_reader_v2 \<Rightarrow> entry_v2 \<Rightarrow> source io" where
  "entry_plaintext L self e =
     (if e2_chunk_size e = 0 then throw (Format ''bad chunk size'')
      else
        bnd (lift (ok_or (Format ''missing blob key'') (e2_key e))) (\<lambda>key.
        bnd (lift (ok_or (Format ''missing blob nonce'') (e2_nonce e))) (\<lambda>nonce.
        bnd (lift (blob_id e)) (\<lambda>i.
        bnd (open_blob self i (e2_size e) (e2_chunk_size e)) (\<lambda>file.
        bnd (lift (sdr_new_with (v2_alg self) key nonce (v2_header_bytes self) (file_source file) (unat (e2_chunk_size e)))) (\<lambda>d.
          ret (sdr_source L d)))))))"

text \<open>A fresh vault, filled by one commit and returned.\<close>

definition created ::
  "lib \<Rightarrow> v2_codecs \<Rightarrow> string \<Rightarrow> identity \<Rightarrow> suite_id \<Rightarrow> string \<Rightarrow> int \<Rightarrow> string option \<Rightarrow> vault_reader_v2 io" where
  "created L C dir i suite vname created_at object_id =
     (case object_id of
        Some oid \<Rightarrow> create_with_object_id L C dir i suite vname created_at oid
      | None \<Rightarrow> v2_create L C dir i suite vname created_at)"

definition filled ::
  "lib \<Rightarrow> v2_codecs \<Rightarrow> (vault_batch \<times> world, unit) op \<Rightarrow> vault_reader_v2 \<Rightarrow> vault_reader_v2 io" where
  "filled L C edits me w =
     (case commit_build L C edits (me, w) of
        (Inl e, (_, w')) \<Rightarrow> (Inl e, w')
      | (Inr _, (me', w')) \<Rightarrow> (Inr me', w'))"

definition restage_entry :: "lib \<Rightarrow> vault_reader_v2 \<Rightarrow> entry_v2 \<Rightarrow> (vault_batch \<times> world, unit) op" where
  "restage_entry L source e =
     (case e2_kind e of
        Dir \<Rightarrow> on_fst (add_dir_trusted (e2_path e))
      | File \<Rightarrow>
          bnd (on_snd (entry_plaintext L source e)) (\<lambda>src.
          bnd (put_stream_trusted L (e2_path e) (e2_blake3 e) (e2_size e) src (e2_mtime e) (e2_mode e)) (\<lambda>_. ret ())))"

definition from_reader_v2_inner ::
  "lib \<Rightarrow> v2_codecs \<Rightarrow> string \<Rightarrow> identity \<Rightarrow> suite_id \<Rightarrow> vault_reader_v2 \<Rightarrow> string option \<Rightarrow> vault_reader_v2 io" where
  "from_reader_v2_inner L C dir i suite source object_id =
     bnd (created L C dir i suite (m2_vault_name (v2_manifest source)) (m2_created_at (v2_manifest source)) object_id) (\<lambda>me.
     filled L C (io_for (restage_entry L source) (m2_entries (v2_manifest source))) me)"

definition from_reader_v2 ::
  "lib \<Rightarrow> v2_codecs \<Rightarrow> string \<Rightarrow> identity \<Rightarrow> suite_id \<Rightarrow> vault_reader_v2 \<Rightarrow> vault_reader_v2 io" where
  "from_reader_v2 L C dir i suite source = from_reader_v2_inner L C dir i suite source None"

definition from_reader_v2_with_object_id ::
  "lib \<Rightarrow> v2_codecs \<Rightarrow> string \<Rightarrow> identity \<Rightarrow> suite_id \<Rightarrow> vault_reader_v2 \<Rightarrow> string \<Rightarrow> vault_reader_v2 io" where
  "from_reader_v2_with_object_id L C dir i suite source object_id = from_reader_v2_inner L C dir i suite source (Some object_id)"

definition stage_vault_entry :: "lib \<Rightarrow> vault_entry \<Rightarrow> (vault_batch \<times> world, unit) op" where
  "stage_vault_entry L e =
     (case ve_kind e of
        Dir \<Rightarrow> on_fst (add_dir_trusted (ve_path e))
      | File \<Rightarrow>
          let digest = blake3 L (ve_content e) in
          bnd (put_stream_trusted L (ve_path e) digest (len64 (ve_content e)) (file_source (ve_content e)) (ve_mtime e) (ve_mode e)) (\<lambda>_.
            ret ()))"

definition from_vault_inner ::
  "lib \<Rightarrow> v2_codecs \<Rightarrow> string \<Rightarrow> identity \<Rightarrow> suite_id \<Rightarrow> vault \<Rightarrow> string option \<Rightarrow> vault_reader_v2 io" where
  "from_vault_inner L C dir i suite v object_id =
     bnd (created L C dir i suite (vault_name v) (vault_created_at v) object_id) (\<lambda>me.
     filled L C (io_for (stage_vault_entry L) (vault_entries v)) me)"

definition from_vault :: "lib \<Rightarrow> v2_codecs \<Rightarrow> string \<Rightarrow> identity \<Rightarrow> suite_id \<Rightarrow> vault \<Rightarrow> vault_reader_v2 io" where
  "from_vault L C dir i suite v = from_vault_inner L C dir i suite v None"

definition from_vault_with_object_id ::
  "lib \<Rightarrow> v2_codecs \<Rightarrow> string \<Rightarrow> identity \<Rightarrow> suite_id \<Rightarrow> vault \<Rightarrow> string \<Rightarrow> vault_reader_v2 io" where
  "from_vault_with_object_id L C dir i suite v object_id = from_vault_inner L C dir i suite v (Some object_id)"

end
