(* ===== verification/V2_Invariant.thy ===== *)
theory V2_Invariant
  imports V2_Commit
begin

section \<open>Commits keep the vault whole\<close>

text \<open>
  The invariant of an open vault: every file of its manifest is readable, no blob is referenced
  twice or queued for removal while referenced, and the names that the generator will draw are
  new. Every commit and every garbage collection keeps it, whatever system call fails; a commit
  that fails changes nothing that the vault refers to.
\<close>

subsection \<open>The ids a manifest refers to\<close>

definition ids_of :: "entry_v2 list \<Rightarrow> string list" where
  "ids_of es = concat (map (\<lambda>e. case e2_file_id e of None \<Rightarrow> [] | Some f \<Rightarrow> [f]) es)"

lemma referenced_ids: "referenced m = ids_of (m2_entries m)"
  by (simp add: referenced_def ids_of_def)

lemma ids_of_simps [simp]:
  "ids_of [] = []" "ids_of (xs @ ys) = ids_of xs @ ids_of ys"
  "ids_of (e # es) = (case e2_file_id e of None \<Rightarrow> [] | Some f \<Rightarrow> [f]) @ ids_of es"
  by (simp_all add: ids_of_def)

lemma set_ids_of: "i \<in> set (ids_of es) \<longleftrightarrow> (\<exists>e \<in> set es. e2_file_id e = Some i)"
  by (induction es) (auto split: option.splits)

lemma ids_of_cong: "map e2_file_id es = map e2_file_id es' \<Longrightarrow> ids_of es = ids_of es'"
proof -
  have "ids_of es = concat (map (\<lambda>f. case f of None \<Rightarrow> [] | Some f \<Rightarrow> [f]) (map e2_file_id es))" for es
    by (simp add: ids_of_def comp_def)
  then show "map e2_file_id es = map e2_file_id es' \<Longrightarrow> ids_of es = ids_of es'" by (simp only:)
qed

lemma distinct_ids_filter:
  assumes "distinct (ids_of es)"
  shows "distinct (ids_of (filter P es))" "set (ids_of (filter P es)) \<inter> set (ids_of (filter (\<lambda>e. \<not> P e) es)) = {}"
  using assms by (induction es) (auto simp: set_ids_of split: option.splits)

text \<open>The parts of an entry that its content depends on.\<close>

definition entry_core :: "entry_v2 \<Rightarrow> entry_kind \<times> string option \<times> bytes option \<times> bytes option \<times> u32 \<times> u64 \<times> bytes" where
  "entry_core e = (e2_kind e, e2_file_id e, e2_key e, e2_nonce e, e2_chunk_size e, e2_size e, e2_blake3 e)"

lemma entry_core_holds: "entry_core e = entry_core e' \<Longrightarrow> blob_holds L rd w e data \<longleftrightarrow> blob_holds L rd w e' data"
  by (rule blob_holds_cong) (simp_all add: entry_core_def)

subsection \<open>Fresh names\<close>

definition draws_fresh :: "lib \<Rightarrow> world \<Rightarrow> string set \<Rightarrow> bool" where
  "draws_fresh L w S \<longleftrightarrow>
     (\<forall>k x. rng_calls w \<le> k \<longrightarrow> rng_source w k 16 = Some x \<longrightarrow> hex L x \<notin> S) \<and>
     (\<forall>j k x y. rng_calls w \<le> j \<longrightarrow> j < k \<longrightarrow> rng_source w j 16 = Some x \<longrightarrow> rng_source w k 16 = Some y \<longrightarrow> hex L x \<noteq> hex L y)"

lemma drawn_not_known: "draws_fresh L w S \<Longrightarrow> drawn_id L w w' i \<Longrightarrow> i \<notin> S"
  unfolding draws_fresh_def drawn_id_def by blast

lemma drawn_later:
  assumes "draws_fresh L w S" and "rng_after w w1" and "drawn_id L w w1 i" and "drawn_id L w1 w2 j"
  shows "i \<noteq> j"
proof -
  from assms(3) obtain k x where k: "rng_calls w \<le> k" "k < rng_calls w1" "rng_source w k 16 = Some x" "i = hex L x"
    by (auto simp: drawn_id_def)
  from assms(2,4) obtain l y where l: "rng_calls w1 \<le> l" "rng_source w l 16 = Some y" "j = hex L y"
    by (auto simp: drawn_id_def rng_after_def)
  from k(2) l(1) have "k < l" by simp
  with assms(1) k l show ?thesis unfolding draws_fresh_def by blast
qed

lemma draws_fresh_after:
  assumes "draws_fresh L w S" and "rng_after w w'" and "\<And>i. i \<in> S' \<Longrightarrow> i \<in> S \<or> drawn_id L w w' i"
  shows "draws_fresh L w' S'"
proof -
  have src: "rng_source w' = rng_source w" "rng_calls w \<le> rng_calls w'" using assms(2) by (simp_all add: rng_after_def)
  have "hex L x \<notin> S'" if x: "rng_calls w' \<le> k" "rng_source w' k 16 = Some x" for k x
  proof
    assume "hex L x \<in> S'"
    moreover have "hex L x \<notin> S" using x src assms(1) unfolding draws_fresh_def by (metis le_trans)
    moreover have "\<not> drawn_id L w w' (hex L x)"
    proof
      assume "drawn_id L w w' (hex L x)"
      then obtain l y where l: "rng_calls w \<le> l" "l < rng_calls w'" "rng_source w l 16 = Some y" "hex L x = hex L y"
        by (auto simp: drawn_id_def)
      with x(1) have "l < k" by simp
      with l x src(1) assms(1) show False unfolding draws_fresh_def by metis
    qed
    ultimately show False using assms(3) by blast
  qed
  moreover have "hex L x \<noteq> hex L y"
    if xy: "rng_calls w' \<le> j" "j < k" "rng_source w' j 16 = Some x" "rng_source w' k 16 = Some y" for j k x y
  proof -
    have "rng_calls w \<le> j" using xy(1) src(2) by simp
    with xy src(1) assms(1) show ?thesis unfolding draws_fresh_def by metis
  qed
  ultimately show ?thesis unfolding draws_fresh_def by blast
qed

subsection \<open>The vault\<close>

definition known_ids :: "vault_reader_v2 \<Rightarrow> string set" where
  "known_ids rd = set (referenced (v2_manifest rd)) \<union> set (v2_pending_reclaim rd)"

definition readable :: "lib \<Rightarrow> vault_reader_v2 \<Rightarrow> world \<Rightarrow> entry_v2 list \<Rightarrow> bool" where
  "readable L rd w es \<longleftrightarrow> (\<forall>e \<in> set es. e2_kind e = File \<longrightarrow> (\<exists>data. blob_holds L rd w e data))"

definition ids_sound :: "vault_reader_v2 \<Rightarrow> bool" where
  "ids_sound rd \<longleftrightarrow>
     distinct (referenced (v2_manifest rd)) \<and> list_all blob_id_ok (referenced (v2_manifest rd)) \<and>
     set (v2_pending_reclaim rd) \<inter> set (referenced (v2_manifest rd)) = {}"

definition vault_inv :: "lib \<Rightarrow> vault_reader_v2 \<times> world \<Rightarrow> bool" where
  "vault_inv L = (\<lambda>(rd, w). rng_fills w \<and> ids_sound rd \<and> draws_fresh L w (known_ids rd) \<and>
     readable L rd w (m2_entries (v2_manifest rd)) \<and>
     tree_wf (map (\<lambda>e. (e2_path e, e2_kind e)) (m2_entries (v2_manifest rd))))"

lemma blob_path_inj: "blob_path rd i = blob_path rd j \<longleftrightarrow> i = j"
  by (auto simp: blob_path_def path_join_def)

lemma blob_name: "blob_id_ok i \<Longrightarrow> path_file_name (blob_path rd i) = i \<and> \<not> is_safe_writer_temp i"
proof -
  assume i: "blob_id_ok i"
  then have "slash \<notin> set i" "CHR ''.'' \<notin> set i" using blob_id_ok_plain by blast+
  moreover have "is_safe_writer_temp i \<Longrightarrow> CHR ''.'' \<in> set i"
    by (auto simp: is_safe_writer_temp_def strip_prefix_def prefix_def split: option.splits if_splits)
  ultimately show ?thesis by (auto simp: blob_path_def path_file_name_join)
qed

text \<open>A blob that is not one of the new ones is untouched.\<close>

lemma frame_blob:
  assumes "blob_frame L rd w w'" and "blob_id_ok i" and "\<not> drawn_id L w w' i"
  shows "fs_get w' (blob_path rd i) = fs_get w (blob_path rd i)"
  using assms(1,3) blob_name [OF assms(2)] unfolding blob_frame_def by (metis blob_path_inj)

lemma readable_frame:
  assumes "readable L rd w es" and "\<And>i. i \<in> set (ids_of es) \<Longrightarrow> fs_get w' (blob_path rd i) = fs_get w (blob_path rd i)"
  shows "readable L rd w' es"
  using assms unfolding readable_def by (meson blob_holds_frame set_ids_of)

subsection \<open>A batch at work\<close>

text \<open>The invariant of a batch started on the vault \<open>rd\<close> in the world \<open>w0\<close>.\<close>

definition batch_run :: "lib \<Rightarrow> vault_reader_v2 \<Rightarrow> world \<Rightarrow> world \<Rightarrow> vault_batch \<Rightarrow> bool" where
  "batch_run L rd w0 w b \<longleftrightarrow>
     vb_reader b = rd \<and> blob_frame L rd w0 w \<and>
     distinct (ids_of (vb_entries b)) \<and> list_all blob_id_ok (ids_of (vb_entries b)) \<and>
     set (vb_superseded b) \<inter> set (ids_of (vb_entries b)) = {} \<and>
     (\<forall>i \<in> set (ids_of (vb_entries b)) \<union> set (vb_superseded b). i \<in> known_ids rd \<and> i \<notin> set (v2_pending_reclaim rd) \<or> drawn_id L w0 w i) \<and>
     (\<forall>i \<in> set (vb_staged b). drawn_id L w0 w i) \<and>
     readable L rd w (vb_entries b)"

lemma batch_run_cong:
  assumes "batch_run L rd w0 w b" and "vb_reader b' = vb_reader b" and "vb_staged b' = vb_staged b"
    and "vb_superseded b' = vb_superseded b" and "map entry_core (filter (\<lambda>e. e2_kind e = File \<or> e2_file_id e \<noteq> None) (vb_entries b'))
      = map entry_core (filter (\<lambda>e. e2_kind e = File \<or> e2_file_id e \<noteq> None) (vb_entries b))"
  shows "batch_run L rd w0 w b'"
proof -
  let ?f = "filter (\<lambda>e. e2_kind e = File \<or> e2_file_id e \<noteq> None)"
  have f: "ids_of (?f es) = ids_of es" for es by (induction es) (auto split: option.splits)
  have fid: "map e2_file_id es = map (\<lambda>x. fst (snd x)) (map entry_core es)" for es by (simp add: entry_core_def)
  have "map e2_file_id (?f (vb_entries b')) = map e2_file_id (?f (vb_entries b))"
    unfolding fid [of "?f (vb_entries b')"] fid [of "?f (vb_entries b)"] assms(5) ..
  from ids_of_cong [OF this] have ids: "ids_of (vb_entries b') = ids_of (vb_entries b)" by (simp only: f)
  have "readable L rd w (vb_entries b')" unfolding readable_def
  proof (intro ballI impI)
    fix e assume e: "e \<in> set (vb_entries b')" "e2_kind e = File"
    then have "entry_core e \<in> set (map entry_core (?f (vb_entries b')))" by auto
    then obtain e0 where e0: "e0 \<in> set (vb_entries b)" "entry_core e = entry_core e0" unfolding assms(5) by auto
    moreover from this e(2) have "e2_kind e0 = File" by (simp add: entry_core_def)
    ultimately show "\<exists>data. blob_holds L rd w e data"
      using assms(1) entry_core_holds [OF e0(2)] unfolding batch_run_def readable_def by blast
  qed
  with assms(1-4) ids show ?thesis by (simp add: batch_run_def)
qed

lemma batch_run_update [simp]:
  "batch_run L rd w0 w (b\<lparr>vb_changed := c\<rparr>) = batch_run L rd w0 w b" "batch_run L rd w0 w (b\<lparr>vb_ops := n\<rparr>) = batch_run L rd w0 w b"
  "batch_run L rd w0 w (reindex b) = batch_run L rd w0 w b"
  by (simp_all add: batch_run_def reindex_def)

lemma run_push_dir: "batch_run L rd w0 w b \<Longrightarrow> batch_run L rd w0 w (push_indexed (dir_entry p) b)"
  by (erule batch_run_cong) (simp_all add: push_indexed_def dir_entry_def)

lemma run_count_op: "preserves (batch_run L rd w0 w) count_op"
  by (rule preservesI) (auto dest!: count_op_ok)

lemma kind_cases_preserve:
  "preserves P a \<Longrightarrow> preserves P m \<Longrightarrow> preserves P q \<Longrightarrow> preserves P (case k of None \<Rightarrow> q | Some File \<Rightarrow> a | Some Dir \<Rightarrow> m)"
  by (auto split: option.splits entry_kind.splits)

lemma ensure_dirs_preserves:
  assumes "\<And>p b. P b \<Longrightarrow> P (push_indexed (dir_entry p) b)"
  shows "preserves P (ensure_dirs n)"
proof -
  have "preserves P (ensure_dirs_loop acc cs)" for acc cs
  proof (induction cs arbitrary: acc)
    case Nil
    show ?case unfolding ensure_dirs_loop.simps by (rule preserves_ret)
  next
    case (Cons c cs)
    show ?case unfolding ensure_dirs_loop.simps Let_def
      by (intro preserves_intros kind_cases_preserve modify_preserves assms Cons.IH)
  qed
  then show ?thesis by (simp add: ensure_dirs_def Let_def)
qed

lemma run_ensure_dirs: "preserves (batch_run L rd w0 w) (ensure_dirs p)"
  by (rule ensure_dirs_preserves) (rule run_push_dir)

lemma run_add_dir_at: "preserves (batch_run L rd w0 w) (add_dir_at p e)"
  unfolding add_dir_at_def
  by (intro preserves_intros kind_cases_preserve run_ensure_dirs modify_preserves) (simp_all add: run_push_dir)

lemma run_relabel:
  assumes "batch_run L rd w0 w b" and "map entry_core es = map entry_core (vb_entries b)"
  shows "batch_run L rd w0 w (set_entries es b)"
proof (rule batch_run_cong [OF assms(1)])
  let ?P = "\<lambda>c. fst c = File \<or> fst (snd c) \<noteq> None"
  have core: "map entry_core (filter (\<lambda>e. e2_kind e = File \<or> e2_file_id e \<noteq> None) es) = filter ?P (map entry_core es)" for es
    by (simp add: filter_map comp_def entry_core_def)
  show "map entry_core (filter (\<lambda>e. e2_kind e = File \<or> e2_file_id e \<noteq> None) (vb_entries (set_entries es b)))
      = map entry_core (filter (\<lambda>e. e2_kind e = File \<or> e2_file_id e \<noteq> None) (vb_entries b))"
    unfolding core set_entries_sel(1) assms(2) ..
qed simp_all

lemma run_remove:
  assumes "batch_run L rd w0 w b"
  shows "batch_run L rd w0 w (set_entries (filter (\<lambda>e. \<not> P e) (vb_entries b)) (b\<lparr>vb_superseded := vb_superseded b @ ids_of (filter P (vb_entries b))\<rparr>))"
proof -
  have d: "distinct (ids_of (vb_entries b))" using assms by (simp add: batch_run_def)
  have sub: "set (ids_of (filter Q (vb_entries b))) \<subseteq> set (ids_of (vb_entries b))" for Q by (auto simp: set_ids_of)
  have "list_all blob_id_ok (ids_of (filter (\<lambda>e. \<not> P e) (vb_entries b)))"
    using assms sub by (auto simp: batch_run_def list_all_iff)
  moreover have "readable L rd w (filter (\<lambda>e. \<not> P e) (vb_entries b))" using assms by (simp add: batch_run_def readable_def)
  moreover have "set (vb_superseded b @ ids_of (filter P (vb_entries b))) \<inter> set (ids_of (filter (\<lambda>e. \<not> P e) (vb_entries b))) = {}"
    using assms sub distinct_ids_filter(2) [OF d, of P] by (auto simp: batch_run_def)
  moreover have "\<forall>i \<in> set (ids_of (filter (\<lambda>e. \<not> P e) (vb_entries b))) \<union> set (vb_superseded b @ ids_of (filter P (vb_entries b))).
      i \<in> known_ids rd \<and> i \<notin> set (v2_pending_reclaim rd) \<or> drawn_id L w0 w i"
    using assms sub [of P] sub [of "\<lambda>e. \<not> P e"] unfolding batch_run_def set_append by blast
  ultimately show ?thesis
    using assms distinct_ids_filter(1) [OF d, of "\<lambda>e. \<not> P e"] by (simp add: batch_run_def)
qed

lemma map_update_same: "(\<And>x. f (g x) = f x) \<Longrightarrow> map f (xs[i := g (xs ! i)]) = map f xs"
  by (cases "i < length xs") (simp_all add: map_update list_update_same_conv list_update_beyond)

lemma run_pure_edits:
  "preserves (batch_run L rd w0 w) (vb_mkdir p)" "preserves (batch_run L rd w0 w) (add_dir_trusted p)"
  "preserves (batch_run L rd w0 w) (vb_remove p)" "preserves (batch_run L rd w0 w) (vb_rename p q)"
  "preserves (batch_run L rd w0 w) (vb_set_attr p mtime mode)"
proof -
  show "preserves (batch_run L rd w0 w) (vb_mkdir p)" "preserves (batch_run L rd w0 w) (add_dir_trusted p)"
    unfolding vb_mkdir_def add_dir_trusted_def by (intro preserves_intros run_count_op run_add_dir_at)+
  show "preserves (batch_run L rd w0 w) (vb_remove p)"
    unfolding vb_remove_def
  proof (intro preserves_intros run_count_op modify_preserves)
    fix n b assume b: "batch_run L rd w0 w b"
    let ?kept = "filter (\<lambda>e. \<not> removes n e) (vb_entries b)" and ?sup = "vb_superseded b @ ids_of (filter (removes n) (vb_entries b))"
    have same: "?kept = vb_entries b" if "length ?kept = length (vb_entries b)"
      using that by (metis filter_id_conv length_filter_less linorder_neq_iff)
    have "batch_run L rd w0 w (reindex (set_entries ?kept (b\<lparr>vb_superseded := ?sup, vb_changed := True\<rparr>)))"
    proof -
      have "set_entries ?kept (b\<lparr>vb_superseded := ?sup, vb_changed := True\<rparr>) = (set_entries ?kept (b\<lparr>vb_superseded := ?sup\<rparr>))\<lparr>vb_changed := True\<rparr>"
        by (simp add: set_entries_def)
      with run_remove [OF b, of "removes n"] show ?thesis by simp
    qed
    moreover have "batch_run L rd w0 w (set_entries ?kept b)" if "length ?kept = length (vb_entries b)"
      unfolding same [OF that] by (rule run_relabel [OF b refl])
    ultimately show "batch_run L rd w0 w (let kept = ?kept;
           removed = concat (map (\<lambda>e. case e2_file_id e of None \<Rightarrow> [] | Some f \<Rightarrow> [f]) (filter (removes n) (vb_entries b)))
       in if length kept \<noteq> length (vb_entries b)
          then reindex (set_entries kept (b\<lparr>vb_superseded := vb_superseded b @ removed, vb_changed := True\<rparr>))
          else set_entries kept b)"
      unfolding Let_def ids_of_def by (simp del: length_filter_less)
  qed
  show "preserves (batch_run L rd w0 w) (vb_rename p q)"
    unfolding vb_rename_def
    by (intro preserves_intros modify_preserves run_count_op run_ensure_dirs)
       (simp_all add: run_relabel entry_core_def run_push_dir)
  show "preserves (batch_run L rd w0 w) (vb_set_attr p mtime mode)"
    unfolding vb_set_attr_def
  proof (intro preserves_intros modify_preserves run_count_op)
    fix i b assume b: "batch_run L rd w0 w b"
    have "map entry_core ((vb_entries b)[i := (vb_entries b ! i)\<lparr>e2_mtime := mtime, e2_mode := mode\<rparr>]) = map entry_core (vb_entries b)"
      by (rule map_update_same) (simp add: entry_core_def)
    from run_relabel [OF b this]
    show "batch_run L rd w0 w ((set_entries ((vb_entries b)[i := (vb_entries b ! i)\<lparr>e2_mtime := mtime, e2_mode := mode\<rparr>]) b)\<lparr>vb_changed := True\<rparr>)"
      by simp
  qed
qed

text \<open>Writing a blob changes the world under the batch, but no blob it refers to.\<close>

lemma run_new_blob:
  assumes "batch_run L rd w0 w b" and "draws_fresh L w0 (known_ids rd)" and "blob_frame L rd w w'"
  shows "batch_run L rd w0 w' b"
    and "drawn_id L w w' j \<Longrightarrow> j \<notin> set (ids_of (vb_entries b)) \<union> set (vb_superseded b)"
proof -
  have after: "rng_after w0 w" "rng_after w w'" using assms(1,3) by (simp_all add: batch_run_def blob_frame_def)
  have mono: "drawn_id L w0 w i \<Longrightarrow> drawn_id L w0 w' i" for i using drawn_id_mono [OF _ rng_after_refl after(2)] by blast
  show new: "j \<notin> set (ids_of (vb_entries b)) \<union> set (vb_superseded b)" if j: "drawn_id L w w' j" for j
  proof
    assume "j \<in> set (ids_of (vb_entries b)) \<union> set (vb_superseded b)"
    then have "j \<in> known_ids rd \<or> drawn_id L w0 w j" using assms(1) unfolding batch_run_def by blast
    then show False
      using drawn_not_known [OF assms(2)] drawn_id_mono [OF j after(1) rng_after_refl] drawn_later [OF assms(2) after(1) _ j] by blast
  qed
  have "fs_get w' (blob_path rd i) = fs_get w (blob_path rd i)" if "i \<in> set (ids_of (vb_entries b))" for i
    using that new [of i] assms(1) frame_blob [OF assms(3), of i] by (auto simp: batch_run_def list_all_iff)
  then have "readable L rd w' (vb_entries b)"
    using assms(1) readable_frame [of L rd w "vb_entries b" w'] by (simp add: batch_run_def)
  then show "batch_run L rd w0 w' b"
    using assms(1) blob_frame_trans [OF _ assms(3)] mono unfolding batch_run_def by blast
qed

lemma set_ids_update:
  assumes "i < length es" and "distinct (ids_of es)" and "e2_file_id e = Some j" and "j \<notin> set (ids_of es)"
  defines "old \<equiv> case e2_file_id (es ! i) of None \<Rightarrow> [] | Some f \<Rightarrow> [f]"
  shows "distinct (ids_of (es[i := e]))" "set (ids_of (es[i := e])) = insert j (set (ids_of es) - set old)"
    "set old \<subseteq> set (ids_of es)"
proof -
  have u: "es[i := e] = take i es @ e # drop (Suc i) es" by (rule upd_conv_take_nth_drop [OF assms(1)])
  have s: "ids_of es = ids_of (take i es) @ old @ ids_of (drop (Suc i) es)"
    using arg_cong [OF id_take_nth_drop [OF assms(1)], of ids_of] by (simp add: old_def)
  from assms(2-4) show "distinct (ids_of (es[i := e]))" "set (ids_of (es[i := e])) = insert j (set (ids_of es) - set old)"
    "set old \<subseteq> set (ids_of es)"
    unfolding u s by auto
qed

lemma run_place:
  assumes "batch_run L rd w0 w b" and "drawn_id L w0 w (sb_file_id blob)" and "blob_id_ok (sb_file_id blob)"
    and "sb_file_id blob \<notin> set (ids_of (vb_entries b)) \<union> set (vb_superseded b)"
    and "blob_holds L rd w (blob_entry n blob d sz mtime mode) data" and "index_ok b"
    and "place n blob d sz mtime mode b = (r, b')"
  shows "batch_run L rd w0 w b'"
proof -
  let ?j = "sb_file_id blob" and ?e = "blob_entry n blob d sz mtime mode"
  let ?b = "b\<lparr>vb_staged := vb_staged b @ [?j]\<rparr>"
  have b1: "batch_run L rd w0 w ?b" using assms(1,2) by (simp add: batch_run_def)
  show ?thesis
  proof (cases "vb_index b n")
    case (Some i)
    let ?old = "case e2_file_id (vb_entries b ! i) of None \<Rightarrow> [] | Some f \<Rightarrow> [f]"
    have i: "i < length (vb_entries b)" using Some index_okD(1) [OF assms(6)] by blast
    have b': "b' = (set_entries ((vb_entries b)[i := ?e]) (?b\<lparr>vb_superseded := vb_superseded b @ ?old\<rparr>))\<lparr>vb_changed := True\<rparr>"
      using assms(7) Some by (auto simp: place_def Let_def blob_entry_def)
    have d: "distinct (ids_of (vb_entries b))" using assms(1) by (simp add: batch_run_def)
    have ej: "e2_file_id ?e = Some ?j" by (simp add: blob_entry_def)
    have jn: "?j \<notin> set (ids_of (vb_entries b))" using assms(4) by simp
    note upd = set_ids_update [OF i d ej jn]
    have "readable L rd w ((vb_entries b)[i := ?e])"
      using assms(1,5) unfolding batch_run_def readable_def by (auto dest!: subsetD [OF set_update_subset_insert])
    with assms(1-4) upd show ?thesis unfolding b' batch_run_update by (auto simp: batch_run_def list_all_iff)
  next
    case None
    obtain q b2 where q: "ensure_dirs n ?b = (q, b2)" by force
    have b2: "batch_run L rd w0 w b2" using preservesD [OF run_ensure_dirs q b1] .
    show ?thesis
    proof (cases q)
      case (Inl e)
      with q None assms(7) have "b' = b2" by (auto simp: place_def Let_def)
      with b2 show ?thesis by simp
    next
      case (Inr u)
      with q None assms(7) have b': "b' = (push_indexed ?e b2)\<lparr>vb_changed := True\<rparr>"
        by (auto simp: place_def Let_def blob_entry_def)
      have "preserves (\<lambda>b2. set (ids_of (vb_entries b2)) \<union> set (vb_superseded b2) = set (ids_of (vb_entries b)) \<union> set (vb_superseded b)) (ensure_dirs n)"
        by (rule ensure_dirs_preserves) (simp add: push_indexed_def dir_entry_def)
      from preservesD [OF this q]
      have same: "set (ids_of (vb_entries b2)) \<union> set (vb_superseded b2) = set (ids_of (vb_entries b)) \<union> set (vb_superseded b)" by simp
      with assms(2-5) b2 show ?thesis unfolding b' batch_run_update
        by (auto simp: batch_run_def push_indexed_def blob_entry_def readable_def)
    qed
  qed
qed

lemma run_write_place:
  assumes "batch_run L rd w0 w b" and "draws_fresh L w0 (known_ids rd)" and "rng_fills w0"
    and "hexlower_spec L" and "stream_be32 L" and "tame src" and "index_ok b"
    and "write_blob L (vb_reader b) d sz src w = (q, w1)"
  shows "batch_run L rd w0 w1 b"
    and "q = Inr (blob, src') \<Longrightarrow> place n blob d sz mtime mode b = (r, b') \<Longrightarrow> batch_run L rd w0 w1 b'"
proof -
  have rd: "vb_reader b = rd" and fr: "blob_frame L rd w0 w" using assms(1) by (simp_all add: batch_run_def)
  have fills: "rng_fills w" using blob_frame_rng [OF fr assms(3)] .
  note wb = assms(8) [unfolded rd]
  note eff = write_blob_effect [OF wb fills assms(4)]
  note nb = run_new_blob [OF assms(1,2) eff(1)]
  show "batch_run L rd w0 w1 b" by (rule nb(1))
  assume q: "q = Inr (blob, src')" and pl: "place n blob d sz mtime mode b = (r, b')"
  have dr: "drawn_id L w w1 (sb_file_id blob)" using eff(2) [OF q] by blast
  have dr0: "drawn_id L w0 w1 (sb_file_id blob)"
    using drawn_id_mono [OF dr _ rng_after_refl] fr by (simp add: blob_frame_def)
  show "batch_run L rd w0 w1 b'"
    by (rule run_place [OF nb(1) dr0 write_blob_result(1) [OF wb [unfolded q] fills assms(4)] nb(2) [OF dr]
        write_blob_holds [OF wb [unfolded q] fills assms(4-6)] assms(7) pl])
qed

lemma run_look:
  assumes "batch_run L rd w0 w b" and "draws_fresh L w0 (known_ids rd)" and "m w = (r, w')"
    and "\<And>P. rng_stable P \<Longrightarrow> preserves P m" and "\<And>F. preserves (files F) m"
  shows "batch_run L rd w0 w' b"
  by (rule run_new_blob(1) [OF assms(1,2) blob_frame_look [OF assms(3-5)]])

lemma count_op_reader: "count_op b = (r, b') \<Longrightarrow> vb_reader b' = vb_reader b \<and> index_ok b' = index_ok b"
  by (auto dest!: count_op_ok)

lemma run_put_stream:
  assumes "put_stream_trusted L p d sz src mtime mode (b, w) = (r, (b', w'))" and "batch_run L rd w0 w b" and "index_ok b"
    and "draws_fresh L w0 (known_ids rd)" and "rng_fills w0" and "hexlower_spec L" and "stream_be32 L" and "tame src"
  shows "batch_run L rd w0 w' b'"
  using assms(1,2) unfolding put_stream_trusted_def
  by (auto simp: bnd_eq on_fst_eq on_snd_eq reject_dir_run simp del: on_fst_run on_snd_run split: prod.splits if_splits
      intro: run_write_place(1) [OF assms(2,4-8,3)] run_write_place(2) [OF assms(2,4-8,3) _ refl])

lemma run_put_bytes:
  assumes "vb_put_bytes L p bs mtime mode (b, w) = (r, (b', w'))" and "batch_run L rd w0 w b" and "index_ok b"
    and "draws_fresh L w0 (known_ids rd)" and "rng_fills w0" and "hexlower_spec L" and "stream_be32 L"
  shows "batch_run L rd w0 w' b'"
proof -
  obtain q b1 where c: "count_op b = (q, b1)" by force
  have b1: "batch_run L rd w0 w b1" "index_ok b1"
    using preservesD [OF run_count_op c assms(2)] count_op_reader [OF c] assms(3) by simp_all
  show ?thesis using assms(1) c b1(1) unfolding vb_put_bytes_def Let_def
    by (auto simp: bnd_eq on_fst_eq on_snd_eq reject_dir_run simp del: on_fst_run on_snd_run split: prod.splits if_splits
        intro: run_write_place(1) [OF b1(1) assms(4-7) file_source_tame b1(2)]
          run_write_place(2) [OF b1(1) assms(4-7) file_source_tame b1(2) _ refl])
qed

lemma run_put_file:
  assumes "vb_put_file L p path mtime mode (b, w) = (r, (b', w'))" and "batch_run L rd w0 w b" and "index_ok b"
    and "draws_fresh L w0 (known_ids rd)" and "rng_fills w0" and "hexlower_spec L" and "stream_be32 L"
  shows "batch_run L rd w0 w' b'"
proof -
  obtain q b1 where c: "count_op b = (q, b1)" by force
  have b1: "batch_run L rd w0 w b1" "index_ok b1"
    using preservesD [OF run_count_op c assms(2)] count_op_reader [OF c] assms(3) by simp_all
  have h: "batch_run L rd w0 w2 b1" if "hash_path L path w = (q2, w2)" for q2 w2
    by (rule run_look [where m = "hash_path L path", OF b1(1) assms(4) that])
       (auto simp: hash_path_def hash_file_def intro!: rng_monad rng_intros preserves_look(3))
  have o: "batch_run L rd w0 w3 b1" if "batch_run L rd w0 w2 b1" "std_open_read path w2 = (q3, w3)" for w2 q3 w3
    by (rule run_look [where m = "std_open_read path", OF that(1) assms(4) that(2)]) (auto intro: rng_intros preserves_look(3))
  show ?thesis using assms(1) c b1(1) unfolding vb_put_file_def Let_def
    by (auto simp: bnd_eq on_fst_eq on_snd_eq reject_dir_run simp del: on_fst_run on_snd_run split: prod.splits if_splits
        intro: h o run_write_place(1) [OF o assms(4-7) file_source_tame b1(2)]
          run_write_place(2) [OF o assms(4-7) file_source_tame b1(2) _ refl])
qed

lemma edit_step_run:
  assumes "edit_step L s s'" and "batch_run L rd w0 (snd s) (fst s)" and "batch_inv (fst s)"
    and "draws_fresh L w0 (known_ids rd)" and "rng_fills w0" and "hexlower_spec L" and "stream_be32 L"
  shows "batch_run L rd w0 (snd s') (fst s')"
  using assms(1-3)
proof (induction rule: edit_step.induct)
  case (Put_Bytes p bs mtime mode b w r b' w')
  then show ?case using run_put_bytes [OF _ _ _ assms(4-7)] by (simp add: batch_inv_def)
next
  case (Put_File p src_path mtime mode b w r b' w')
  then show ?case using run_put_file [OF _ _ _ assms(4-7)] by (simp add: batch_inv_def)
next
  case (Put_Stream p d sz src mtime mode b w r b' w')
  then show ?case using run_put_stream [OF _ _ _ assms(4-7)] by (simp add: batch_inv_def)
qed (auto dest: preservesD [OF run_pure_edits(1)] preservesD [OF run_pure_edits(2)] preservesD [OF run_pure_edits(3)]
      preservesD [OF run_pure_edits(4)] preservesD [OF run_pure_edits(5)])

lemma edits_run:
  assumes "(edit_step L)\<^sup>*\<^sup>* s s'" and "batch_run L rd w0 (snd s) (fst s)" and "batch_inv (fst s)"
    and "draws_fresh L w0 (known_ids rd)" and "rng_fills w0" and "hexlower_spec L" and "stream_be32 L"
  shows "batch_run L rd w0 (snd s') (fst s')"
  using assms(1)
proof (induction rule: rtranclp_induct)
  case (step s1 s2)
  then show ?case using edit_step_run [OF _ _ _ assms(4-7)] edits_inv [OF step(1) assms(3)] by blast
qed (rule assms(2))

subsection \<open>Sealing and unlinking\<close>

abbreviation manifest_path :: "vault_reader_v2 \<Rightarrow> string" where
  "manifest_path rd \<equiv> path_join (v2_dir rd) MANIFEST_FILE"

lemma manifest_path_name: "path_file_name (manifest_path rd) = ''manifest''"
  by (simp add: path_file_name_join MANIFEST_FILE_def)

lemma manifest_not_blob: "blob_id_ok i \<Longrightarrow> manifest_path rd \<noteq> blob_path rd' i"
proof
  assume i: "blob_id_ok i" and "manifest_path rd = blob_path rd' i"
  then have "i = ''manifest''" using blob_name [OF i, of rd'] manifest_path_name [of rd] by metis
  with i show False by (simp add: blob_id_ok_def)
qed

lemma map_sum_eq_Inl: "Inl e = map_sum id f q \<Longrightarrow> (q = Inl e \<Longrightarrow> P) \<Longrightarrow> P"
  and map_sum_eq_Inr: "Inr y = map_sum id f q \<Longrightarrow> (\<And>x. q = Inr x \<Longrightarrow> y = f x \<Longrightarrow> P) \<Longrightarrow> P"
  by (cases q; simp)+

text \<open>The bytes that a seal of the manifest produces.\<close>

definition sealed_as :: "lib \<Rightarrow> v2_codecs \<Rightarrow> vault_reader_v2 \<Rightarrow> manifest_v2 \<Rightarrow> state_metadata \<Rightarrow> bytes \<Rightarrow> bool" where
  "sealed_as L C rd m state buf \<longleftrightarrow>
     (\<exists>pt oid nonce ct. to_vec (manifest_codec2 C) m = Inr pt \<and> vault_object_id L C (v2_header_bytes rd) = Inr oid \<and>
        sm_next L (v2_owner_fingerprint rd) VaultManifest oid (to_u16 (v2_suite rd)) (map_option from_metadata (v2_state rd)) pt = Inr state \<and>
        length nonce = nonce_len (v2_alg rd) \<and>
        seal_with L (v2_alg rd) (v2_manifest_key rd) nonce (manifest_aad (v2_header_bytes rd) state) pt = Inr ct \<and>
        to_vec (envelope_codec3 C)
          \<lparr>me_version = MANIFEST_ENVELOPE_VERSION, me_state = state, me_nonce = nonce, me_ciphertext = ct\<rparr> = Inr buf)"

lemma seal_and_write_run:
  assumes "seal_and_write L C rd m w = (r, w')" and "rng_fills w"
  shows "(\<exists>e. r = Inl e \<and> fs_get w' = fs_get w) \<or>
    (\<exists>state buf w1 q. sealed_as L C rd m state buf \<and> fs_get w1 = fs_get w \<and> rng_fills w1 \<and>
       write_atomic L (manifest_path rd) buf w1 = (q, w') \<and> r = map_sum id (\<lambda>d. (state, d)) q)"
proof -
  obtain q0 w0 where q0: "attempt (sync_dir (path_join (v2_dir rd) BLOBS_DIR)) w = (q0, w0)" by force
  have w0: "fs_get w0 = fs_get w" "rng_fills w0"
    using preservesD [OF preserves_attempt [OF preserves_sync_dir] q0] assms(2)
      preservesD [OF preserves_attempt [OF rng_writer(6) [OF rng_stable_fills]] q0] by auto
  have rv: "fs_get w1 = fs_get w0 \<and> rng_fills w1" "x = Inr n \<Longrightarrow> length n = k" if "random_vec k w0 = (x, w1)" for k x w1 n
    using that w0(2) getrandom_frame [of k w0 x w1] getrandom_fills [of w0 k x w1] getrandom_length [of w0 k n w1]
    by (auto simp: random_vec_def)
  let ?state = "\<lambda>oid pt. sm_next L (v2_owner_fingerprint rd) VaultManifest oid (to_u16 (v2_suite rd))
      (map_option from_metadata (v2_state rd)) pt"
  show ?thesis
  proof (cases "\<exists>pt oid state. to_vec (manifest_codec2 C) m = Inr pt \<and> vault_object_id L C (v2_header_bytes rd) = Inr oid \<and> ?state oid pt = Inr state")
    case False
    then have "\<exists>e. r = Inl e \<and> w' = w0" using assms(1) q0
      by (cases "to_vec (manifest_codec2 C) m"; cases "vault_object_id L C (v2_header_bytes rd)")
         (auto simp: seal_and_write_def Let_def attempt_eq bnd_eq)
    with w0 show ?thesis by auto
  next
    case True
    then obtain pt oid state where t: "to_vec (manifest_codec2 C) m = Inr pt" "vault_object_id L C (v2_header_bytes rd) = Inr oid"
      "?state oid pt = Inr state" by blast
    obtain x w1 where x: "random_vec (nonce_len (v2_alg rd)) w0 = (x, w1)" by force
    let ?env = "\<lambda>nonce ct. \<lparr>me_version = MANIFEST_ENVELOPE_VERSION, me_state = state, me_nonce = nonce, me_ciphertext = ct\<rparr>"
    have run: "bnd (lift x) (\<lambda>nonce.
         bnd (lift (seal_with L (v2_alg rd) (v2_manifest_key rd) nonce (manifest_aad (v2_header_bytes rd) state) pt)) (\<lambda>ct.
         bnd (lift (to_vec (envelope_codec3 C) (?env nonce ct))) (\<lambda>buf.
         bnd (write_atomic L (manifest_path rd) buf) (\<lambda>durable. ret (state, durable))))) w1 = (r, w')"
      using assms(1) q0 t x by (cases x) (auto simp: seal_and_write_def Let_def attempt_eq)
    show ?thesis
    proof (cases "\<exists>nonce ct buf. x = Inr nonce \<and> seal_with L (v2_alg rd) (v2_manifest_key rd) nonce (manifest_aad (v2_header_bytes rd) state) pt = Inr ct \<and>
        to_vec (envelope_codec3 C) (?env nonce ct) = Inr buf")
      case False
      then have "\<exists>e. r = Inl e \<and> w' = w1" using run by (auto simp: bnd_eq)
      with w0 rv(1) [OF x] show ?thesis by auto
    next
      case True
      then obtain nonce ct buf where c: "x = Inr nonce"
        "seal_with L (v2_alg rd) (v2_manifest_key rd) nonce (manifest_aad (v2_header_bytes rd) state) pt = Inr ct"
        "to_vec (envelope_codec3 C) (?env nonce ct) = Inr buf" by blast
      obtain q w2 where q: "write_atomic L (manifest_path rd) buf w1 = (q, w2)" by force
      have "sealed_as L C rd m state buf" unfolding sealed_as_def using t c rv(2) [OF x c(1)] by blast
      moreover have "r = map_sum id (\<lambda>d. (state, d)) q \<and> w' = w2" using run c q by (cases q) (auto simp: bnd_def)
      ultimately show ?thesis using q w0 rv(1) [OF x] by metis
    qed
  qed
qed

lemma seal_and_write_files:
  assumes "seal_and_write L C rd m w = (r, w')" and "rng_fills w" and "hexlower_spec L"
  shows "rng_after w w'"
    and "r = Inl e \<Longrightarrow> fs_get w' p \<noteq> fs_get w p \<Longrightarrow> is_safe_writer_temp (path_file_name p)"
    and "r = Inr (state, d) \<Longrightarrow> \<exists>buf. sealed_as L C rd m state buf \<and> fs_get w' = (fs_get w)(manifest_path rd \<mapsto> FileNode buf)"
proof -
  have "preserves (rng_after w) (seal_and_write L C rd m)"
    unfolding seal_and_write_def Let_def by (intro rng_monad rng_intros rng_stable_after)
  from preservesD [OF this assms(1)] show "rng_after w w'" by simp
  have temp: "is_safe_writer_temp (path_file_name (path_join d (temp_name L sfx)))" if "length sfx = 8" for d sfx
    using temp_name_shape [OF assms(3) that] by (simp add: path_file_name_join)
  note run = seal_and_write_run [OF assms(1,2)]
  show "is_safe_writer_temp (path_file_name p)" if r: "r = Inl e" and p: "fs_get w' p \<noteq> fs_get w p"
  proof -
    from run r p obtain w1 buf where w1: "fs_get w1 = fs_get w" "rng_fills w1" "write_atomic L (manifest_path rd) buf w1 = (Inl e, w')"
      by (fastforce elim: map_sum_eq_Inl)
    from write_atomic_files [OF w1(3,2)] w1(1) p temp show ?thesis by (auto simp: Let_def split: if_splits)
  qed
  show "\<exists>buf. sealed_as L C rd m state buf \<and> fs_get w' = (fs_get w)(manifest_path rd \<mapsto> FileNode buf)" if r: "r = Inr (state, d)"
  proof -
    from run r obtain w1 buf where w1: "sealed_as L C rd m state buf" "fs_get w1 = fs_get w" "rng_fills w1"
      "write_atomic L (manifest_path rd) buf w1 = (Inr d, w')"
      by (fastforce elim: map_sum_eq_Inr)
    from write_atomic_files [OF w1(4,3)] w1(1,2) show ?thesis by auto
  qed
qed

lemma unlink_blobs_files:
  "unlink_blobs rd ids w = (r, w') \<Longrightarrow>
     r = Inr () \<and> rng_after w w' \<and> (\<forall>p. fs_get w' p = fs_get w p \<or> (\<exists>i \<in> set ids. p = blob_path rd i))"
proof (induction ids arbitrary: w)
  case Nil
  then show ?case by (simp add: unlink_blobs_def)
next
  case (Cons i ids)
  obtain q w1 where q: "std_remove_file (blob_path rd i) w = (q, w1)" by force
  have "rng_after w w1" using preservesD [OF rng_syscalls(8) [OF rng_stable_after] q] by simp
  moreover have "unlink_blobs rd ids w1 = (r, w')" using Cons.prems q by (simp add: unlink_blobs_def attempt_run)
  moreover have "fs_get w1 p = fs_get w p \<or> p = blob_path rd i" for p using std_remove_file_files [OF q] by auto
  ultimately show ?case using Cons.IH [of w1] rng_after_trans by (metis list.set_intros)
qed

subsection \<open>The commit\<close>

text \<open>Edits are made of the operations of the batch.\<close>

definition editing :: "lib \<Rightarrow> (vault_batch \<times> world, 'a) op \<Rightarrow> bool" where
  "editing L m \<longleftrightarrow> (\<forall>s r s'. m s = (r, s') \<longrightarrow> (edit_step L)\<^sup>*\<^sup>* s s')"

lemma vault_inv_batch:
  assumes "vault_inv L (rd, w)"
  shows "batch_run L rd w w (vb_new rd lim)" "batch_inv (vb_new rd lim)"
proof -
  have es: "vb_entries (vb_new rd lim) = m2_entries (v2_manifest rd)" by (simp add: vb_new_def vb_entries_def)
  show "batch_run L rd w w (vb_new rd lim)"
    using assms unfolding batch_run_def es
    by (auto simp: vault_inv_def ids_sound_def known_ids_def referenced_ids vb_new_def)
  have wf: "tree_wf (batch_shape (vb_new rd lim))" using assms by (simp add: vault_inv_def batch_shape_def es)
  then have "distinct (map e2_path (m2_entries (v2_manifest rd)))"
    using tree_wfD(1) by (fastforce simp: batch_shape_def es comp_def)
  with wf show "batch_inv (vb_new rd lim)" by (simp add: batch_inv_def index_ok_def es) (simp add: vb_new_def)
qed

lemma readable_cong:
  "v2_dir rd' = v2_dir rd \<Longrightarrow> v2_suite rd' = v2_suite rd \<Longrightarrow> v2_header_bytes rd' = v2_header_bytes rd \<Longrightarrow>
     readable L rd' w es = readable L rd w es"
  by (simp add: readable_def blob_holds_def blob_path_def v2_alg_def)

text \<open>A failed commit: the reader is the same, and the files it refers to are.\<close>

lemma frame_keeps_inv:
  assumes "vault_inv L (rd, w)" and "blob_frame L rd w w'"
  shows "vault_inv L (rd, w')"
proof -
  have i: "rng_fills w" "ids_sound rd" "draws_fresh L w (known_ids rd)" "readable L rd w (m2_entries (v2_manifest rd))"
    using assms(1) by (simp_all add: vault_inv_def)
  have "rng_after w w'" using assms(2) by (simp add: blob_frame_def)
  moreover have "fs_get w' (blob_path rd i) = fs_get w (blob_path rd i)" if "i \<in> set (ids_of (m2_entries (v2_manifest rd)))" for i
    using that frame_blob [OF assms(2), of i] drawn_not_known [OF i(3), of w' i] i(2)
    by (auto simp: ids_sound_def known_ids_def referenced_ids list_all_iff)
  ultimately show ?thesis
    using assms(1) i readable_frame [OF i(4)] blob_frame_rng [OF assms(2) i(1)] draws_fresh_after [OF i(3)]
    by (simp add: vault_inv_def)
qed

lemma commit_with_failed:
  assumes "commit_with L C lim edits (rd, w) = (Inl e, (rd', w'))" and "vault_inv L (rd, w)" and "editing L edits"
    and "hexlower_spec L" and "stream_be32 L"
  shows "rd' = rd \<and> blob_frame L rd w w'"
proof -
  obtain q b1 w1 where q: "edits (vb_new rd lim, w) = (q, (b1, w1))" by (metis prod.collapse)
  have i: "rng_fills w" "draws_fresh L w (known_ids rd)" using assms(2) by (simp_all add: vault_inv_def)
  from assms(3) q have steps: "(edit_step L)\<^sup>*\<^sup>* (vb_new rd lim, w) (b1, w1)" by (simp add: editing_def)
  have run: "batch_run L rd w w1 b1" using edits_run [OF steps _ _ i(2,1) assms(4,5)] vault_inv_batch [OF assms(2)] by simp
  then have fr: "blob_frame L rd w w1" and st: "\<And>j. j \<in> set (vb_staged b1) \<Longrightarrow> drawn_id L w w1 j" by (auto simp: batch_run_def)
  have fills: "rng_fills w1" using blob_frame_rng [OF fr i(1)] .
  let ?c = "bnd (lift q) (\<lambda>_. if vb_changed b1 then bnd (seal_and_write L C rd (vb_manifest b1)) (\<lambda>x. ret (Some x)) else ret None)"
  obtain a w2 where a: "?c w1 = (a, w2)" by force
  from assms(1) q a obtain w3 where "a = Inl e" "rd' = rd" and u: "unlink_blobs rd (vb_staged b1) w2 = (Inr (), w')"
    by (auto simp: commit_with_def run_edits_def bnd_eq attempt_eq on_snd_eq on_fst_eq reclaim_def unlink_blobs_files
        simp del: on_fst_run on_snd_run split: sum.splits option.splits prod.splits if_splits dest: unlink_blobs_files)
  have "rng_after w1 w2 \<and> (\<forall>p. fs_get w2 p \<noteq> fs_get w1 p \<longrightarrow> is_safe_writer_temp (path_file_name p))"
  proof (cases "\<exists>s w3. seal_and_write L C rd (vb_manifest b1) w1 = (Inl s, w3) \<and> w2 = w3")
    case True
    then show ?thesis using seal_and_write_files(1,2) [OF _ fills assms(4)] by blast
  next
    case False
    with a \<open>a = Inl e\<close> have "w2 = w1" by (auto simp: bnd_eq split: if_splits)
    then show ?thesis by simp
  qed
  then have fr2: "blob_frame L rd w1 w2" by (simp add: blob_frame_def)
  have fr3: "blob_frame L rd w w2" by (rule blob_frame_trans [OF fr fr2])
  note un = unlink_blobs_files [OF u]
  have aft: "rng_after w w1" "rng_after w1 w'" "rng_after w w'"
    using fr fr2 un rng_after_trans by (auto simp: blob_frame_def)
  have "is_safe_writer_temp (path_file_name p) \<or> (\<exists>j. drawn_id L w w' j \<and> p = blob_path rd j)" if "fs_get w' p \<noteq> fs_get w p" for p
  proof (cases "fs_get w' p = fs_get w2 p")
    case True
    with that fr3 un show ?thesis unfolding blob_frame_def by (metis drawn_id_mono rng_after_refl)
  next
    case False
    with un obtain j where "j \<in> set (vb_staged b1)" "p = blob_path rd j" by blast
    with drawn_id_mono [OF st rng_after_refl aft(2)] show ?thesis by blast
  qed
  with aft(3) \<open>rd' = rd\<close> show ?thesis by (simp add: blob_frame_def)
qed

text \<open>A commit that returns: nothing happened, or the manifest of the batch is the one sealed on
  disk and held by the reader.\<close>

lemma commit_with_done:
  assumes "commit_with L C lim edits (rd, w) = (Inr (), (rd', w'))" and "vault_inv L (rd, w)" and "editing L edits"
    and "hexlower_spec L" and "stream_be32 L"
  obtains b1 w1 where "edits (vb_new rd lim, w) = (Inr (), (b1, w1))" "batch_run L rd w w1 b1" "batch_inv b1"
    "\<not> vb_changed b1" "rd' = rd" "w' = w1"
  | b1 w1 state buf pending where "edits (vb_new rd lim, w) = (Inr (), (b1, w1))" "batch_run L rd w w1 b1" "batch_inv b1"
    "vb_changed b1" "sealed_as L C rd (vb_manifest b1) state buf"
    "rd' = rd\<lparr>v2_manifest := vb_manifest b1, v2_state := Some state, v2_view := view_of (vb_manifest b1), v2_pending_reclaim := pending\<rparr>"
    "set pending \<subseteq> set (v2_pending_reclaim rd) \<union> set (vb_superseded b1)" "rng_after w1 w'"
    "\<And>p. fs_get w' p = ((fs_get w1)(manifest_path rd \<mapsto> FileNode buf)) p \<or>
       (\<exists>i \<in> set (v2_pending_reclaim rd) \<union> set (vb_superseded b1). p = blob_path rd i)"
proof -
  obtain q b1 w1 where q: "edits (vb_new rd lim, w) = (q, (b1, w1))" by (metis prod.collapse)
  have i: "rng_fills w" "draws_fresh L w (known_ids rd)" using assms(2) by (simp_all add: vault_inv_def)
  from assms(3) q have steps: "(edit_step L)\<^sup>*\<^sup>* (vb_new rd lim, w) (b1, w1)" by (simp add: editing_def)
  have run: "batch_run L rd w w1 b1" using edits_run [OF steps _ _ i(2,1) assms(4,5)] vault_inv_batch [OF assms(2)] by simp
  have inv: "batch_inv b1" using edits_inv [OF steps] vault_inv_batch(2) [OF assms(2)] by simp
  have fills: "rng_fills w1" using run i(1) blob_frame_rng by (auto simp: batch_run_def)
  have qr: "q = Inr ()"
    using assms(1) q by (cases q) (auto simp: commit_with_def run_edits_def bnd_eq attempt_eq on_snd_eq
        simp del: on_fst_run on_snd_run)
  show thesis
  proof (cases "vb_changed b1")
    case False
    with assms(1) q qr have "rd' = rd" "w' = w1" by (auto simp: commit_with_def run_edits_def attempt_run bnd_def)
    with that(1) q qr run inv False show thesis by blast
  next
    case True
    obtain a w2 where a: "seal_and_write L C rd (vb_manifest b1) w1 = (a, w2)" by force
    have "is_ok a" using assms(1) q qr a True
      by (cases a) (auto simp: commit_with_def run_edits_def attempt_run bnd_def on_snd_def split: prod.splits sum.splits)
    then obtain state d where ad: "a = Inr (state, d)" by (auto simp: is_ok_iff)
    from seal_and_write_files [OF a fills assms(4)] ad obtain buf where buf: "sealed_as L C rd (vb_manifest b1) state buf"
      "fs_get w2 = (fs_get w1)(manifest_path rd \<mapsto> FileNode buf)" "rng_after w1 w2" by blast
    let ?rd = "rd\<lparr>v2_manifest := vb_manifest b1, v2_state := Some state, v2_view := view_of (vb_manifest b1)\<rparr>"
    let ?all = "v2_pending_reclaim rd @ vb_superseded b1"
    have rc: "reclaim (vb_superseded b1) d (?rd, w2) = (Inr (), (rd', w'))"
      using assms(1) q qr a ad True by (simp add: commit_with_def run_edits_def attempt_run bnd_def)
    show thesis
    proof (cases d)
      case True
      with rc have "rd' = ?rd\<lparr>v2_pending_reclaim := []\<rparr>" and u: "unlink_blobs (?rd\<lparr>v2_pending_reclaim := ?all\<rparr>) ?all w2 = (Inr (), w')"
        by (auto simp: reclaim_def bnd_eq on_snd_eq simp del: on_snd_run)
      moreover from unlink_blobs_files [OF u] have "rng_after w1 w'" "\<And>p. fs_get w' p = fs_get w2 p \<or> (\<exists>i \<in> set ?all. p = blob_path rd i)"
        using rng_after_trans [OF buf(3)] by (auto simp: blob_path_def)
      ultimately show thesis using that(2) [OF q [unfolded qr] run inv \<open>vb_changed b1\<close> buf(1), of "[]"] buf(2) by auto
    next
      case False
      with rc have "rd' = ?rd\<lparr>v2_pending_reclaim := ?all\<rparr>" "w' = w2" by (auto simp: reclaim_def)
      then show thesis using that(2) [OF q [unfolded qr] run inv \<open>vb_changed b1\<close> buf(1), of ?all] buf(2,3) by auto
    qed
  qed
qed

text \<open>What the new manifest refers to survives the write of the manifest and the reclaiming.\<close>

lemma commit_keeps_blob:
  assumes "batch_run L rd w w1 b1" and "vault_inv L (rd, w)" and "i \<in> set (ids_of (vb_entries b1))"
    and "fs_get w' (blob_path rd i) = ((fs_get w1)(manifest_path rd \<mapsto> FileNode buf)) (blob_path rd i) \<or>
       (\<exists>j \<in> set (v2_pending_reclaim rd) \<union> set (vb_superseded b1). blob_path rd i = blob_path rd j)"
  shows "fs_get w' (blob_path rd i) = fs_get w1 (blob_path rd i)"
proof -
  have "blob_id_ok i" using assms(1,3) by (auto simp: batch_run_def list_all_iff)
  then have m: "blob_path rd i \<noteq> manifest_path rd" using manifest_not_blob [of i rd rd] by metis
  have "i \<notin> set (vb_superseded b1)" using assms(1,3) unfolding batch_run_def by blast
  moreover have "i \<notin> set (v2_pending_reclaim rd)"
  proof
    assume p: "i \<in> set (v2_pending_reclaim rd)"
    then have "drawn_id L w w1 i" using assms(1,3) unfolding batch_run_def by blast
    then have "i \<notin> known_ids rd" using assms(2) drawn_not_known by (auto simp: vault_inv_def)
    with p show False by (simp add: known_ids_def)
  qed
  ultimately show ?thesis using assms(4) m by (auto simp: blob_path_inj)
qed

lemma commit_keeps_inv:
  assumes "commit_with L C lim edits (rd, w) = (r, (rd', w'))" and "vault_inv L (rd, w)" and "editing L edits"
    and "hexlower_spec L" and "stream_be32 L"
  shows "vault_inv L (rd', w')"
proof (cases r)
  case (Inl e)
  from commit_with_failed [OF assms(1) [unfolded Inl] assms(2-5)] show ?thesis using frame_keeps_inv [OF assms(2)] by blast
next
  case (Inr u)
  then have run: "commit_with L C lim edits (rd, w) = (Inr (), (rd', w'))" using assms(1) by simp
  have i: "rng_fills w" "ids_sound rd" "draws_fresh L w (known_ids rd)" using assms(2) by (simp_all add: vault_inv_def)
  from run assms(2-5) show ?thesis
  proof (cases rule: commit_with_done)
    case (1 b1 w1)
    then show ?thesis using frame_keeps_inv [OF assms(2)] by (simp add: batch_run_def)
  next
    case (2 b1 w1 state buf pending)
    let ?es = "m2_entries (v2_manifest rd')"
    have es: "?es = vb_entries b1" using 2(6) by (simp add: vb_entries_def)
    have same: "fs_get w' (blob_path rd j) = fs_get w1 (blob_path rd j)" if "j \<in> set (ids_of (vb_entries b1))" for j
      by (rule commit_keeps_blob [OF 2(2) assms(2) that 2(9)])
    have aft: "rng_after w w1" using 2(2) by (simp add: batch_run_def blob_frame_def)
    have aft2: "rng_after w w'" by (rule rng_after_trans [OF aft 2(8)])
    have dr: "drawn_id L w w1 j \<Longrightarrow> drawn_id L w w' j" for j using drawn_id_mono [OF _ rng_after_refl 2(8)] by blast
    have not_pending: "j \<notin> set (v2_pending_reclaim rd)" if "j \<in> set (ids_of (vb_entries b1))" for j
      using that 2(2) drawn_not_known [OF i(3), of w1 j] unfolding batch_run_def known_ids_def by blast
    have "ids_sound rd'"
      using 2(2,7) not_pending unfolding ids_sound_def referenced_ids es by (auto simp: 2(6) batch_run_def)
    moreover have "draws_fresh L w' (known_ids rd')"
    proof (rule draws_fresh_after [OF i(3) aft2])
      fix j assume "j \<in> known_ids rd'"
      then show "j \<in> known_ids rd \<or> drawn_id L w w' j"
        using 2(2,7) dr unfolding known_ids_def referenced_ids es by (auto simp: 2(6) batch_run_def known_ids_def referenced_ids)
    qed
    moreover have "readable L rd' w' ?es"
    proof -
      have "readable L rd w' (vb_entries b1)"
        using readable_frame [of L rd w1 "vb_entries b1" w'] same 2(2) by (simp add: batch_run_def)
      then show ?thesis unfolding es using readable_cong [of rd' rd] 2(6) by simp
    qed
    moreover have "rng_fills w'" using i(1) aft2 by (simp add: rng_fills_def rng_after_def)
    moreover have "tree_wf (map (\<lambda>e. (e2_path e, e2_kind e)) ?es)" using 2(3) by (simp add: es batch_inv_def batch_shape_def)
    ultimately show ?thesis by (simp add: vault_inv_def)
  qed
qed

subsection \<open>Collecting garbage\<close>

lemma preserves_files:
  assumes "\<And>F. preserves (files F) m"
  shows "preserves (\<lambda>v. Q (fs_get v)) m"
proof (rule preservesI)
  fix v r v' assume "Q (fs_get v)" "m v = (r, v')"
  with preservesD [OF assms this(2), of "fs_get v"] show "Q (fs_get v')" by simp
qed

lemma preserves_files_noop [preserves_intros]: "preserves (files F) (syscall (ret ()))"
  by (rule preserves_syscall) (auto simp: preserves_def)

lemma gc_entry_files:
  assumes "gc_entry rd n k w = (r, w')"
  shows "rng_after w w'"
    and "fs_get w' p \<noteq> fs_get w p \<Longrightarrow> p = blob_path rd n \<and>
      (is_safe_writer_temp n \<or> blob_id_ok n \<and> n \<notin> set (referenced (v2_manifest rd)))"
proof -
  have "preserves (rng_after w) (gc_entry rd n k)"
    unfolding gc_entry_def Let_def by (intro rng_monad rng_intros rng_stable_after)
  from preservesD [OF this assms] show "rng_after w w'" by simp
  assume p: "fs_get w' p \<noteq> fs_get w p"
  let ?Q = "\<lambda>v. \<forall>p. fs_get v p \<noteq> fs_get w p \<longrightarrow> p = blob_path rd n"
  have rm: "preserves ?Q (std_remove_file (blob_path rd n))"
    by (rule preservesI) (drule std_remove_file_files, auto split: if_splits)
  have look: "preserves ?Q (std_symlink_metadata q)" "preserves ?Q (syscall (ret ()))" for q
    by (rule preserves_files [where Q = "\<lambda>F. \<forall>p. F p \<noteq> fs_get w p \<longrightarrow> p = blob_path rd n"], intro preserves_intros)+
  have "preserves ?Q (gc_entry rd n k)"
    unfolding gc_entry_def Let_def by (intro preserves_ret preserves_bnd preserves_if preserves_attempt rm look)
  from preservesD [OF this assms] p have "p = blob_path rd n" by simp
  moreover have "is_safe_writer_temp n \<or> is_ok (validate_blob_id n) \<and> n \<notin> set (referenced (v2_manifest rd))"
  proof (rule ccontr)
    assume "\<not> ?thesis"
    then have "preserves (files (fs_get w)) (gc_entry rd n k)"
      unfolding gc_entry_def Let_def by (intro preserves_intros) auto
    from preservesD [OF this assms] p show False by simp
  qed
  ultimately show "p = blob_path rd n \<and> (is_safe_writer_temp n \<or> blob_id_ok n \<and> n \<notin> set (referenced (v2_manifest rd)))"
    using validate_blob_id_iff [of n] by (auto simp: is_ok_iff)
qed

lemma gc_fold_files:
  "io_fold (gc_entry rd) names k w = (r, w') \<Longrightarrow>
     rng_after w w' \<and> (\<forall>p. fs_get w' p \<noteq> fs_get w p \<longrightarrow> (\<exists>n. p = blob_path rd n \<and>
       (is_safe_writer_temp n \<or> blob_id_ok n \<and> n \<notin> set (referenced (v2_manifest rd)))))"
proof (induction names arbitrary: k w)
  case (Cons n names)
  obtain q w1 where q: "gc_entry rd n k w = (q, w1)" by force
  note g = gc_entry_files [OF q]
  show ?case
  proof (cases q)
    case (Inl e)
    with Cons.prems q g show ?thesis by auto
  next
    case (Inr k')
    with Cons.prems q have "io_fold (gc_entry rd) names k' w1 = (r, w')" by simp
    from Cons.IH [OF this] g rng_after_trans show ?thesis by metis
  qed
qed simp

lemma collect_garbage_files:
  assumes "collect_garbage (rd, w) = (r, (rd', w'))"
  shows "(rd' = rd \<or> rd' = rd\<lparr>v2_pending_reclaim := []\<rparr>) \<and> rng_after w w' \<and>
    (\<forall>p. fs_get w' p \<noteq> fs_get w p \<longrightarrow> (\<exists>n. p = blob_path rd n \<and>
       (is_safe_writer_temp n \<or> blob_id_ok n \<and> n \<notin> set (referenced (v2_manifest rd)))))"
proof -
  let ?sync = "attempt (bnd (sync_dir (v2_dir rd)) (\<lambda>_. sync_dir (path_join (v2_dir rd) BLOBS_DIR)))"
  let ?list = "std_read_dir (path_join (v2_dir rd) BLOBS_DIR)"
  have look: "preserves (files F) ?sync" "preserves (files F) ?list" for F
  proof -
    show "preserves (files F) ?sync" by (intro preserves_intros)
    show "preserves (files F) ?list" unfolding std_read_dir_def
      by (rule preserves_syscall) (auto simp: preserves_def not_found_def split: option.splits node.splits)
  qed
  have rng: "preserves (rng_after w) ?sync" "preserves (rng_after w) ?list"
    by (intro rng_monad rng_intros rng_stable_after)+
  obtain q1 w1 where q1: "?sync w = (q1, w1)" by force
  obtain q2 w2 where q2: "?list w1 = (q2, w2)" by force
  have w12: "fs_get w1 = fs_get w" "fs_get w2 = fs_get w" "rng_after w w1" "rng_after w w2"
    using preservesD [OF look(1) q1, of "fs_get w"] preservesD [OF look(2) q2, of "fs_get w"]
      preservesD [OF rng(1) q1] preservesD [OF rng(2) q2] by auto
  obtain s where s: "q1 = Inr s" using q1 by (auto simp: attempt_eq)
  show ?thesis
  proof (cases "is_ok s \<and> is_ok q2")
    case False
    then have "rd' = rd \<and> (w' = w1 \<or> w' = w2)" using assms q1 q2 s
      by (cases q2) (auto simp: collect_garbage_def bnd_eq [of "gets _"] bnd_eq [of "on_snd _"] on_snd_eq
          simp del: on_snd_run split: if_splits)
    with w12 show ?thesis by auto
  next
    case True
    then obtain names where n: "q2 = Inr names" by (auto simp: is_ok_iff)
    obtain q3 w3 where q3: "io_fold (gc_entry rd) names 0 w2 = (q3, w3)" by force
    have "w' = w3 \<and> (rd' = rd \<or> rd' = rd\<lparr>v2_pending_reclaim := []\<rparr>)" using assms q1 q2 q3 s n True
      by (cases q3) (auto simp: collect_garbage_def bnd_eq [of "gets _"] bnd_eq [of "on_snd _"] bnd_eq [of "on_fst _"] on_snd_eq on_fst_eq
          simp del: on_snd_run on_fst_run)
    with gc_fold_files [OF q3] w12 rng_after_trans show ?thesis by metis
  qed
qed

lemma collect_keeps_inv:
  assumes "collect_garbage (rd, w) = (r, (rd', w'))" and "vault_inv L (rd, w)"
  shows "vault_inv L (rd', w')"
proof -
  note gc = collect_garbage_files [OF assms(1)]
  have i: "rng_fills w" "ids_sound rd" "draws_fresh L w (known_ids rd)" "readable L rd w (m2_entries (v2_manifest rd))"
    using assms(2) by (simp_all add: vault_inv_def)
  have m: "v2_manifest rd' = v2_manifest rd" "set (v2_pending_reclaim rd') \<subseteq> set (v2_pending_reclaim rd)"
    "v2_dir rd' = v2_dir rd" "v2_suite rd' = v2_suite rd" "v2_header_bytes rd' = v2_header_bytes rd" using gc by auto
  have same: "fs_get w' (blob_path rd j) = fs_get w (blob_path rd j)" if "j \<in> set (ids_of (m2_entries (v2_manifest rd)))" for j
  proof (rule ccontr)
    assume "\<not> ?thesis"
    then have "is_safe_writer_temp j \<or> j \<notin> set (referenced (v2_manifest rd))" using gc blob_path_inj by metis
    moreover have "blob_id_ok j" using i(2) that by (auto simp: ids_sound_def list_all_iff referenced_ids)
    ultimately show False using that blob_name [of j rd] by (simp add: referenced_ids)
  qed
  have aft: "rng_after w w'" using gc by blast
  have "draws_fresh L w' (known_ids rd')"
    by (rule draws_fresh_after [OF i(3) aft]) (use m in \<open>auto simp: known_ids_def\<close>)
  moreover have "readable L rd' w' (m2_entries (v2_manifest rd'))"
    using readable_frame [OF i(4) same] readable_cong [OF m(3-5)] m(1) by simp
  moreover have "rng_fills w'" using i(1) aft by (simp add: rng_fills_def rng_after_def)
  moreover have "ids_sound rd'" using i(2) m by (auto simp: ids_sound_def)
  ultimately show ?thesis using assms(2) m(1) by (simp add: vault_inv_def)
qed

subsection \<open>The operations of the vault are edits\<close>

lemma editing_ops:
  "editing L (vb_put_bytes L p bs mtime mode)" "editing L (vb_put_file L p src_path mtime mode)"
  "editing L (on_fst (vb_mkdir p))" "editing L (on_fst (vb_remove p))" "editing L (on_fst (vb_rename p q))"
  "editing L (on_fst (vb_set_attr p mtime mode))" "editing L (on_fst (add_dir_trusted p))"
  "tame src \<Longrightarrow> editing L (put_stream_trusted L p d sz src mtime mode)"
  unfolding editing_def
  by (auto simp: on_fst_eq simp del: on_fst_run intro: r_into_rtranclp edit_step.intros)

lemma editing_bnd:
  "editing L m \<Longrightarrow> (\<And>x s s'. m s = (Inr x, s') \<Longrightarrow> editing L (f x)) \<Longrightarrow> editing L (bnd m f)"
  unfolding editing_def bnd_eq by (metis rtranclp_trans)

lemma editing_ret: "editing L (ret x)"
  by (simp add: editing_def)

lemma editing_for: "(\<And>x. x \<in> set xs \<Longrightarrow> editing L (f x)) \<Longrightarrow> editing L (io_for f xs)"
  by (induction xs) (auto intro: editing_bnd editing_ret)

lemma editing_stage: "editing L (stage_vault_entry L e)"
  unfolding stage_vault_entry_def Let_def
  by (auto split: entry_kind.splits intro!: editing_ops editing_bnd editing_ret file_source_tame)

subsection \<open>Insertion and lookup\<close>

text \<open>What a placed file leaves in the batch.\<close>

lemma place_entries:
  assumes "place n blob d sz mtime mode b = (Inr (), b')" and "index_ok b"
  shows "blob_entry n blob d sz mtime mode \<in> set (vb_entries b')" "vb_changed b'"
    "e \<in> set (vb_entries b) \<Longrightarrow> e2_path e \<noteq> n \<Longrightarrow> e \<in> set (vb_entries b')"
proof -
  let ?b = "b\<lparr>vb_staged := vb_staged b @ [sb_file_id blob]\<rparr>" and ?e = "blob_entry n blob d sz mtime mode"
  show "?e \<in> set (vb_entries b')" "vb_changed b'"
    "e \<in> set (vb_entries b) \<Longrightarrow> e2_path e \<noteq> n \<Longrightarrow> e \<in> set (vb_entries b')"
  proof -
    have "?e \<in> set (vb_entries b') \<and> vb_changed b' \<and> (\<forall>e \<in> set (vb_entries b). e2_path e \<noteq> n \<longrightarrow> e \<in> set (vb_entries b'))"
    proof (cases "vb_index b n")
      case (Some i)
      then have i: "i < length (vb_entries b)" "e2_path (vb_entries b ! i) = n" using index_okD(1) [OF assms(2)] by blast+
      from assms(1) Some have "vb_entries b' = (vb_entries b)[i := ?e]" "vb_changed b'"
        by (auto simp: place_def Let_def blob_entry_def)
      moreover have "e \<in> set ((vb_entries b)[i := ?e])" if e: "e \<in> set (vb_entries b)" "e2_path e \<noteq> n" for e
      proof -
        from e(1) obtain j where "j < length (vb_entries b)" "e = vb_entries b ! j" by (metis in_set_conv_nth)
        with e(2) i show ?thesis by (metis length_list_update nth_list_update_neq nth_mem)
      qed
      ultimately show ?thesis using i(1) by (simp add: set_update_memI)
    next
      case None
      with assms(1) obtain b2 where q: "ensure_dirs n ?b = (Inr (), b2)" and b': "b' = (push_indexed ?e b2)\<lparr>vb_changed := True\<rparr>"
        by (auto simp: place_def Let_def blob_entry_def bnd_eq)
      have "preserves (\<lambda>b2. set (vb_entries b) \<subseteq> set (vb_entries b2)) (ensure_dirs n)"
        by (rule ensure_dirs_preserves) (auto simp: push_indexed_def)
      from preservesD [OF this q] b' show ?thesis by (auto simp: push_indexed_def)
    qed
    then show "?e \<in> set (vb_entries b')" "vb_changed b'"
      "e \<in> set (vb_entries b) \<Longrightarrow> e2_path e \<noteq> n \<Longrightarrow> e \<in> set (vb_entries b')" by blast+
  qed
qed

lemma file_entry_iff:
  assumes "distinct (map e2_path (m2_entries (v2_manifest rd)))"
  shows "file_entry rd q = Inr e \<longleftrightarrow>
    (\<exists>n. normalize_stored_path q = Inr n \<and> e \<in> set (m2_entries (v2_manifest rd)) \<and> e2_path e = n \<and> e2_kind e = File)"
proof -
  have "find (\<lambda>e. e2_path e = n) es = Some e \<longleftrightarrow> e \<in> set es \<and> e2_path e = n"
    if "distinct (map e2_path es)" for es n and e :: entry_v2
    using that by (induction es) (auto simp: image_iff)
  from this [OF assms] show ?thesis by (auto simp: file_entry_def result_simps split: if_splits)
qed

lemma vault_inv_distinct: "vault_inv L (rd, w) \<Longrightarrow> distinct (map e2_path (m2_entries (v2_manifest rd)))"
  using tree_wfD(1) by (fastforce simp: vault_inv_def comp_def)

lemma blob_holds_reader:
  "v2_dir rd' = v2_dir rd \<Longrightarrow> v2_suite rd' = v2_suite rd \<Longrightarrow> v2_header_bytes rd' = v2_header_bytes rd \<Longrightarrow>
     blob_holds L rd' w e data = blob_holds L rd w e data"
  by (simp add: blob_holds_def blob_path_def v2_alg_def)

lemma put_bytes_run:
  assumes "vb_put_bytes L path data mtime mode (b, w) = (Inr (), (b', w'))" and "batch_run L rd w0 w b" and "index_ok b"
    and "draws_fresh L w0 (known_ids rd)" and "rng_fills w0" and "hexlower_spec L" and "stream_be32 L"
  obtains n blob where "normalize_path path = Inr n" "vb_changed b'"
    "blob_entry n blob (blake3 L data) (len64 data) mtime mode \<in> set (vb_entries b')"
    "blob_holds L rd w' (blob_entry n blob (blake3 L data) (len64 data) mtime mode) data"
    "\<And>e. e \<in> set (vb_entries b) \<Longrightarrow> e2_path e \<noteq> n \<Longrightarrow> e \<in> set (vb_entries b')"
proof -
  from assms(1) obtain b1 n blob src where c: "count_op b = (Inr (), b1)" and n: "normalize_path path = Inr n"
    and wb: "write_blob L (vb_reader b1) (blake3 L data) (len64 data) (file_source data) w = (Inr (blob, src), w')"
    and pl: "place n blob (blake3 L data) (len64 data) mtime mode b1 = (Inr (), b')"
    unfolding vb_put_bytes_def Let_def
    by (auto simp: bnd_eq_Inr on_fst_eq on_snd_eq reject_dir_run simp del: on_fst_run on_snd_run split: prod.splits if_splits)
  have b1: "batch_run L rd w0 w b1" "index_ok b1"
    using preservesD [OF run_count_op c assms(2)] count_op_reader [OF c] assms(3) by simp_all
  then have rd: "vb_reader b1 = rd" and fr: "blob_frame L rd w0 w" by (simp_all add: batch_run_def)
  have holds: "blob_holds L rd w' (blob_entry n blob (blake3 L data) (len64 data) mtime mode) data"
    using write_blob_holds [OF wb [unfolded rd] blob_frame_rng [OF fr assms(5)] assms(6,7) file_source_tame] by simp
  have "vb_entries b1 = vb_entries b" using count_op_ok [OF c] by simp
  with place_entries [OF pl b1(2)] holds n that show thesis by metis
qed

lemma put_file_bytes_stored:
  assumes "v2_put_file_bytes L C path data mtime mode (rd, w) = (Inr (), (rd', w'))" and "vault_inv L (rd, w)"
    and "hexlower_spec L" and "stream_be32 L"
  obtains n e where "normalize_path path = Inr n" "file_entry rd' path = Inr e" "e2_size e = len64 data"
    "e2_chunk_size e = of_nat DEFAULT_CHUNK_SIZE" "blob_holds L rd' w' e data"
    "\<And>e d. e \<in> set (m2_entries (v2_manifest rd)) \<Longrightarrow> e2_path e \<noteq> n \<Longrightarrow> e2_kind e = File \<Longrightarrow> blob_holds L rd w e d \<Longrightarrow>
       e \<in> set (m2_entries (v2_manifest rd')) \<and> blob_holds L rd' w' e d"
proof -
  note commit = assms(1) [unfolded v2_put_file_bytes_def commit_batch_def]
  have i: "rng_fills w" "draws_fresh L w (known_ids rd)" using assms(2) by (simp_all add: vault_inv_def)
  have dist: "distinct (map e2_path (m2_entries (v2_manifest rd')))"
    using vault_inv_distinct [OF commit_keeps_inv [OF commit assms(2) editing_ops(1) assms(3,4)]] .
  have ix: "index_ok (vb_new rd (Some MAX_BATCH_OPS))" using vault_inv_batch(2) [OF assms(2)] by (simp add: batch_inv_def)
  note start = vault_inv_batch(1) [OF assms(2), of "Some MAX_BATCH_OPS"]
  from commit assms(2) editing_ops(1) assms(3,4) show thesis
  proof (cases rule: commit_with_done)
    case (1 b1 w1)
    with put_bytes_run [OF 1(1) start ix i(2,1) assms(3,4)] show thesis by metis
  next
    case (2 b1 w1 state buf pending)
    from put_bytes_run [OF 2(1) start ix i(2,1) assms(3,4)] obtain n blob where n: "normalize_path path = Inr n"
      and e: "blob_entry n blob (blake3 L data) (len64 data) mtime mode \<in> set (vb_entries b1)"
        "blob_holds L rd w1 (blob_entry n blob (blake3 L data) (len64 data) mtime mode) data"
      and other: "\<And>e. e \<in> set (vb_entries (vb_new rd (Some MAX_BATCH_OPS))) \<Longrightarrow> e2_path e \<noteq> n \<Longrightarrow> e \<in> set (vb_entries b1)" by metis
    let ?e = "blob_entry n blob (blake3 L data) (len64 data) mtime mode"
    have es: "m2_entries (v2_manifest rd') = vb_entries b1" using 2(6) by (simp add: vb_entries_def)
    have rd': "v2_dir rd' = v2_dir rd" "v2_suite rd' = v2_suite rd" "v2_header_bytes rd' = v2_header_bytes rd" using 2(6) by simp_all
    have keep: "blob_holds L rd' w' x d" if "x \<in> set (vb_entries b1)" "blob_holds L rd w1 x d" for x d
      unfolding blob_holds_reader [OF rd']
      using blob_holds_frame [OF that(2), of w'] commit_keeps_blob [OF 2(2) assms(2) _ 2(9)] that(1) by (auto simp: set_ids_of)
    have old: "blob_holds L rd w1 x d" if "x \<in> set (m2_entries (v2_manifest rd))" "blob_holds L rd w x d" for x d
    proof (rule blob_holds_frame [OF that(2)])
      fix j assume "e2_file_id x = Some j"
      then have "j \<in> set (referenced (v2_manifest rd))" using that(1) by (auto simp: referenced_ids set_ids_of)
      then have "blob_id_ok j" "j \<in> known_ids rd" using assms(2) by (auto simp: vault_inv_def ids_sound_def list_all_iff known_ids_def)
      then show "fs_get w1 (blob_path rd j) = fs_get w (blob_path rd j)"
        using frame_blob [of L rd w w1 j] 2(2) drawn_not_known [OF i(2)] by (auto simp: batch_run_def)
    qed
    have "file_entry rd' path = Inr ?e"
      unfolding file_entry_iff [OF dist] es using n e(1) by (auto simp: normalize_path_eq_Inr blob_entry_def)
    from that [OF n this _ _ keep [OF e]] show thesis
      using other keep old by (auto simp: blob_entry_def es vb_new_def vb_entries_def)
  qed
qed

end
