(* ===== verification/V2_Demo.thy ===== *)
theory V2_Demo
  imports V2_Invariant "HOL-Library.Code_Target_Nat"
begin

section \<open>A small vault\<close>

text \<open>
  A library, codecs and a vault on which the operations are evaluated: the concrete inputs of the
  theorems of the next theory.
\<close>

definition vault_lib :: lib where
  "vault_lib =
     \<lparr>blake3 = (\<lambda>_. replicate 32 0), blake3_keyed = (\<lambda>_ _. replicate 32 0),
      blake3_derive_key = (\<lambda>_ _. replicate 32 0),
      aead_encrypt = (\<lambda>_ _ _ _ m. Some (m @ demo_tag)), aead_decrypt = (\<lambda>_ _ _ _ c. demo_open c),
      stream_encrypt = (\<lambda>_ _ _ _ _ _ m. Some (m @ demo_tag)), stream_decrypt = (\<lambda>_ _ _ _ _ _ c. demo_open c),
      hexlower_encode = (\<lambda>b. concat (map (\<lambda>x. [demo_hex_digit (unat x div 16), demo_hex_digit (unat x mod 16)]) b)),
      hexlower_decode = demo_hex_decode,
      x25519_public = (\<lambda>_. []), x25519_dh = (\<lambda>_ _. []), x25519_contributory = (\<lambda>_. True),
      ed25519_public = (\<lambda>_. []), ed25519_sign = (\<lambda>_ _. []), ed25519_key_valid = (\<lambda>_. True),
      ed25519_verify_strict = (\<lambda>_ _ s. True), mlkem_public = (\<lambda>_. []), mlkem_key_valid = (\<lambda>_. True),
      mlkem_encapsulate_deterministic = (\<lambda>_ _. ([], [])), mlkem_decapsulate = (\<lambda>_ _. []),
      mldsa_public = (\<lambda>_. []), mldsa_sign = (\<lambda>_ _. []), mldsa_signature_decodes = (\<lambda>_. True), mldsa_verify = (\<lambda>_ _ s. True),
      argon2_params_valid = (\<lambda>_ _ _. True), argon2id = (\<lambda>_ _ _ _ _. None), base32_nopad_encode = (\<lambda>b. [])\<rparr>"

definition tiny_header :: vault_header_v2 where
  "tiny_header = \<lparr>vh_format_version = FORMAT_VERSION_V2, vh_suite_id = to_u16 Classic, vh_vault_id = replicate 16 3,
     vh_manifest_stanza = undefined\<rparr>"

definition tiny_codecs :: v2_codecs where
  "tiny_codecs = \<lparr>header_codec2 = \<lparr>enc = (\<lambda>_. Some []), dec = (\<lambda>_. Some (tiny_header, []))\<rparr>,
     manifest_codec2 = \<lparr>enc = (\<lambda>_. Some []), dec = (\<lambda>_. None)\<rparr>,
     envelope_codec3 = \<lparr>enc = (\<lambda>_. Some []), dec = (\<lambda>_. None)\<rparr>\<rparr>"

definition tiny_world :: world where
  "tiny_world = \<lparr>rng_source = (\<lambda>k n. if k < 100 then Some (replicate n (of_nat k)) else None), rng_calls = 0,
     io_faults = (\<lambda>_. None), io_calls = 0, fs = [(''v'', DirNode), (''v/blobs'', DirNode)]\<rparr>"

definition tiny_reader :: vault_reader_v2 where
  "tiny_reader = \<lparr>v2_dir = ''v'', v2_suite = Classic, v2_header_bytes = [], v2_manifest_key = replicate 32 1,
     v2_manifest = \<lparr>m2_vault_name = ''n'', m2_created_at = 0, m2_entries = []\<rparr>,
     v2_owner_fingerprint = replicate 32 2, v2_state = None, v2_view = [], v2_pending_reclaim = []\<rparr>"

lemma vault_lib_specs: "hexlower_spec vault_lib" "stream_be32 vault_lib" "aead_correct vault_lib"
  using demo_hex demo_aead(1,4)
  by (simp_all add: hexlower_spec_def stream_be32_def aead_correct_def vault_lib_def demo_lib_def)

lemma tiny_inv: "vault_inv vault_lib (tiny_reader, tiny_world)"
proof -
  have inj: "hex vault_lib x = hex vault_lib y \<Longrightarrow> x = y" for x y
    using vault_lib_specs(1) unfolding hex_def hexlower_spec_def by (metis option.inject)
  have "draws_fresh vault_lib tiny_world {}"
    unfolding draws_fresh_def
    by (auto simp: tiny_world_def dest!: inj split: if_splits) (simp add: word_unat_eq_iff unat_of_nat)
  then show ?thesis
    by (simp add: vault_inv_def known_ids_def ids_sound_def readable_def referenced_def tiny_reader_def tree_wf_def
        rng_fills_def tiny_world_def)
qed

lemma seal_and_write_intro:
  assumes "to_vec (manifest_codec2 C) m = Inr pt" and "vault_object_id L C (v2_header_bytes rd) = Inr oid"
    and "sm_next L (v2_owner_fingerprint rd) VaultManifest oid (to_u16 (v2_suite rd)) (map_option from_metadata (v2_state rd)) pt = Inr state"
    and "random_vec (nonce_len (v2_alg rd)) (snd (sync_dir (path_join (v2_dir rd) BLOBS_DIR) w)) = (Inr nonce, w1)"
    and "seal_with L (v2_alg rd) (v2_manifest_key rd) nonce (manifest_aad (v2_header_bytes rd) state) pt = Inr ct"
    and "to_vec (envelope_codec3 C) \<lparr>me_version = MANIFEST_ENVELOPE_VERSION, me_state = state, me_nonce = nonce, me_ciphertext = ct\<rparr> = Inr buf"
    and "write_atomic L (path_join (v2_dir rd) MANIFEST_FILE) buf w1 = (Inr d, w')"
  shows "seal_and_write L C rd m w = (Inr (state, d), w')"
  using assms by (simp add: seal_and_write_def Let_def attempt_run bnd_def)

text \<open>The same vault with some state.\<close>

definition stated_reader :: "state_metadata option \<Rightarrow> vault_reader_v2" where
  "stated_reader st = tiny_reader\<lparr>v2_state := st\<rparr>"

lemma tiny_put_run:
  "case vb_put_bytes vault_lib ''f'' [7] None None (vb_new (stated_reader st) (Some MAX_BATCH_OPS), tiny_world) of
     (r, (b, w)) \<Rightarrow> r = Inr () \<and> vb_changed b \<and> vb_superseded b = [] \<and>
       (case random_vec 24 (snd (sync_dir ''v/blobs'' w)) of
          (x, w1) \<Rightarrow> is_ok x \<and> length (projr x) = 24 \<and> fst (write_atomic vault_lib ''v/manifest'' [] w1) = Inr True)"
  by code_simp

lemma rng_stable_no_faults: "rng_stable no_faults"
  by (simp add: rng_stable_def no_faults_def)

lemma put_bytes_world:
  assumes "vb_put_bytes L p bs mtime mode (b, w) = (r, (b', w'))" and "rng_stable P" and "P w"
  shows "P w'"
  using assms unfolding vb_put_bytes_def Let_def
  by (auto simp: bnd_eq on_fst_eq on_snd_eq reject_dir_run simp del: on_fst_run on_snd_run split: prod.splits if_splits
      dest: preservesD [OF rng_blobs(2) [OF assms(2)]])

lemma stated_put:
  assumes "sm_next vault_lib (replicate 32 2) VaultManifest (hex vault_lib (replicate 16 3)) (to_u16 Classic)
      (map_option from_metadata st) [] = Inr st'"
  shows "\<exists>rd' w'. v2_put_file_bytes vault_lib tiny_codecs ''f'' [7] None None (stated_reader st, tiny_world) = (Inr (), (rd', w')) \<and>
    no_faults w' \<and> v2_state rd' = Some st'"
proof -
  obtain b w x w1 d w2 where put: "vb_put_bytes vault_lib ''f'' [7] None None (vb_new (stated_reader st) (Some MAX_BATCH_OPS), tiny_world) = (Inr (), (b, w))"
    and b: "vb_changed b" "vb_superseded b = []" and x: "random_vec 24 (snd (sync_dir ''v/blobs'' w)) = (Inr x, w1)" "length x = 24"
    and d: "write_atomic vault_lib ''v/manifest'' [] w1 = (Inr True, w2)"
    using tiny_put_run [of st] by (auto simp: is_ok_iff split: prod.splits dest!: run_fst)
  have enc: "to_vec (manifest_codec2 tiny_codecs) m = Inr []" "to_vec (envelope_codec3 tiny_codecs) e = Inr []" for m e
    by (simp_all add: to_vec_def tiny_codecs_def)
  have oid: "vault_object_id vault_lib tiny_codecs (v2_header_bytes (stated_reader st)) = Inr (hex vault_lib (replicate 16 3))"
    by (simp add: vault_object_id_def from_slice_def tiny_codecs_def tiny_header_def)
  have st: "sm_next vault_lib (v2_owner_fingerprint (stated_reader st)) VaultManifest (hex vault_lib (replicate 16 3))
      (to_u16 (v2_suite (stated_reader st))) (map_option from_metadata (v2_state (stated_reader st))) [] = Inr st'"
    using assms by (simp add: stated_reader_def tiny_reader_def)
  have alg: "v2_alg (stated_reader st) = XChaCha20Poly1305" "v2_dir (stated_reader st) = ''v''" by (simp_all add: v2_alg_def stated_reader_def tiny_reader_def)
  have paths: "path_join ''v'' BLOBS_DIR = ''v/blobs''" "path_join ''v'' MANIFEST_FILE = ''v/manifest''"
    by (simp_all add: path_join_def BLOBS_DIR_def MANIFEST_FILE_def)
  have nl: "nonce_len XChaCha20Poly1305 = 24" by (simp add: NONCE_LEN_def)
  have ct: "seal_with vault_lib (v2_alg (stated_reader st)) (v2_manifest_key (stated_reader st)) x (manifest_aad (v2_header_bytes (stated_reader st)) st') [] = Inr demo_tag"
    using x(2) by (simp add: seal_with_def cipher_def vault_lib_def alg nl) (simp add: stated_reader_def tiny_reader_def)
  have seal: "seal_and_write vault_lib tiny_codecs (stated_reader st) (vb_manifest b) w = (Inr (st', True), w2)"
    by (rule seal_and_write_intro [OF enc(1) oid st _ ct enc(2)]) (simp only: alg paths nl x(1), simp only: alg paths d)
  have "\<exists>rd'. v2_put_file_bytes vault_lib tiny_codecs ''f'' [7] None None (stated_reader st, tiny_world) = (Inr (), (rd', w2)) \<and> v2_state rd' = Some st'"
    using put b seal unfolding v2_put_file_bytes_def commit_batch_def commit_with_def
    by (simp add: run_edits_def attempt_run bnd_def reclaim_def unlink_blobs_def) (simp add: stated_reader_def tiny_reader_def)
  moreover have "no_faults w2"
  proof -
    have "no_faults w" using put_bytes_world [OF put rng_stable_no_faults] by (simp add: tiny_world_def no_faults_def)
    then have "no_faults (snd (sync_dir ''v/blobs'' w))"
      using preservesD [OF rng_writer(6) [OF rng_stable_no_faults]] by (metis prod.collapse)
    then have "no_faults w1" using preservesD [OF rng_random(3) [OF rng_stable_no_faults] x(1)] by blast
    then show ?thesis using preservesD [OF rng_writer(9) [OF rng_stable_no_faults] d] by blast
  qed
  ultimately show ?thesis by blast
qed

lemma tiny_put:
  "\<exists>rd' w'. v2_put_file_bytes vault_lib tiny_codecs ''f'' [7] None None (tiny_reader, tiny_world) = (Inr (), (rd', w')) \<and> no_faults w'"
proof -
  obtain st' where "sm_next vault_lib (replicate 32 2) VaultManifest (hex vault_lib (replicate 16 3)) (to_u16 Classic)
      (map_option from_metadata None) [] = Inr st'" by (simp add: sm_next_def)
  from stated_put [OF this] show ?thesis by (auto simp: stated_reader_def tiny_reader_def)
qed

end
