(* ===== verification/V2_Safety.thy ===== *)
theory V2_Safety
  imports V2_Demo
begin

section \<open>The vault loses nothing\<close>

text \<open>
  The properties of the at-rest vault as a whole: no sequence of commits and collections loses a
  file, a failed commit changes nothing, and what is put is what is read.
\<close>

inductive vault_step :: "lib \<Rightarrow> v2_codecs \<Rightarrow> vault_reader_v2 \<times> world \<Rightarrow> vault_reader_v2 \<times> world \<Rightarrow> bool" for L C where
  Commit: "commit_with L C lim edits s = (r, s') \<Longrightarrow> editing L edits \<Longrightarrow> vault_step L C s s'"
| Collect: "collect_garbage s = (r, s') \<Longrightarrow> vault_step L C s s'"

lemma vault_step_inv:
  assumes "vault_step L C s s'" and "vault_inv L s" and "hexlower_spec L" and "stream_be32 L"
  shows "vault_inv L s'"
  using assms(1,2)
proof (induction rule: vault_step.induct)
  case (Commit lim edits s r s')
  then show ?case using commit_keeps_inv [of L C lim edits "fst s" "snd s" r "fst s'" "snd s'"] assms(3,4) by simp
next
  case (Collect s r s')
  then show ?case using collect_keeps_inv [of "fst s" "snd s" r "fst s'" "snd s'"] by simp
qed

lemma vault_steps_inv:
  "(vault_step L C)\<^sup>*\<^sup>* s s' \<Longrightarrow> vault_inv L s \<Longrightarrow> hexlower_spec L \<Longrightarrow> stream_be32 L \<Longrightarrow> vault_inv L s'"
  by (induction rule: rtranclp_induct) (auto dest: vault_step_inv)

text \<open>C1. No operation loses a file. However many commits, successful or failed, and garbage
  collections a vault goes through, under every pattern of I/O failures, every file entry of the
  manifest the reader then holds can be read back when the disk answers, with the declared
  length and digest. The generator is assumed to draw no blob name twice.\<close>

theorem vault_never_loses_files:
  assumes "(vault_step L C)\<^sup>*\<^sup>* (rd, w) (rd', w')" and "vault_inv L (rd, w)"
    and "hexlower_spec L" and "stream_be32 L" and "aead_correct L"
  shows "vault_inv L (rd', w') \<and>
    (\<forall>path e. file_entry rd' path = Inr e \<and> no_faults w' \<and>
       unat (num_chunks (e2_size e) (ucast (e2_chunk_size e))) < 2 ^ 32 \<longrightarrow>
       (\<exists>data k. read_entry L rd' path w' = (Inr data, w'\<lparr>io_calls := k\<rparr>) \<and>
          blake3 L data = e2_blake3 e \<and> length data = unat (e2_size e)))"
proof -
  have inv: "vault_inv L (rd', w')" by (rule vault_steps_inv [OF assms(1-4)])
  have "\<exists>data k. read_entry L rd' path w' = (Inr data, w'\<lparr>io_calls := k\<rparr>) \<and> blake3 L data = e2_blake3 e \<and> length data = unat (e2_size e)"
    if e: "file_entry rd' path = Inr e" and "no_faults w'" "unat (num_chunks (e2_size e) (ucast (e2_chunk_size e))) < 2 ^ 32" for path e
  proof -
    from e have "e \<in> set (m2_entries (v2_manifest rd'))" "e2_kind e = File"
      unfolding file_entry_iff [OF vault_inv_distinct [OF inv]] by auto
    with inv obtain data where d: "blob_holds L rd' w' e data" by (auto simp: vault_inv_def readable_def)
    from read_entry_holds [OF assms(5) that(2) e d that(3)] d show ?thesis by (auto simp: blob_holds_def)
  qed
  with inv show ?thesis by blast
qed

theorem vault_never_loses_files_witness:
  "\<exists>rd' w' data k. (vault_step vault_lib tiny_codecs)\<^sup>*\<^sup>* (tiny_reader, tiny_world) (rd', w') \<and>
     read_entry vault_lib rd' ''f'' w' = (Inr data, w'\<lparr>io_calls := k\<rparr>)"
proof -
  from tiny_put obtain rd' w' where put: "v2_put_file_bytes vault_lib tiny_codecs ''f'' [7] None None (tiny_reader, tiny_world) = (Inr (), (rd', w'))"
    and nf: "no_faults w'" by blast
  have run: "(vault_step vault_lib tiny_codecs)\<^sup>*\<^sup>* (tiny_reader, tiny_world) (rd', w')"
    using vault_step.Commit [OF put [unfolded v2_put_file_bytes_def commit_batch_def] editing_ops(1)] by blast
  obtain e where e: "file_entry rd' ''f'' = Inr e" "e2_size e = len64 [7 :: byte]" "e2_chunk_size e = of_nat DEFAULT_CHUNK_SIZE"
    by (rule put_file_bytes_stored [OF put tiny_inv vault_lib_specs(1,2)])
  have "unat (num_chunks (e2_size e) (ucast (e2_chunk_size e))) < 2 ^ 32"
    unfolding e(2,3) by (simp add: num_chunks_def DEFAULT_CHUNK_SIZE_def)
  with vault_never_loses_files [OF run tiny_inv vault_lib_specs] e(1) nf run show ?thesis by blast
qed

lemma blob_frameD:
  "blob_frame L rd w w' \<Longrightarrow> fs_get w' p \<noteq> fs_get w p \<Longrightarrow>
     is_safe_writer_temp (path_file_name p) \<or> (\<exists>i. drawn_id L w w' i \<and> p = blob_path rd i)"
  by (simp add: blob_frame_def)

text \<open>C2. A failed commit changes nothing. If a commit reports an error - of an edit, of the
  seal or of any system call - the reader is exactly what it was, and the only files that differ
  are unfinished temporary files and blobs under names drawn in this commit: the manifest file and
  every blob the vault refers to are untouched.\<close>

theorem failed_commit_changes_nothing:
  assumes "commit_with L C lim edits (rd, w) = (Inl e, (rd', w'))" and "vault_inv L (rd, w)" and "editing L edits"
    and "hexlower_spec L" and "stream_be32 L"
  shows "rd' = rd \<and> fs_get w' (manifest_path rd) = fs_get w (manifest_path rd) \<and>
    (\<forall>i \<in> set (referenced (v2_manifest rd)). fs_get w' (blob_path rd i) = fs_get w (blob_path rd i)) \<and>
    (\<forall>p. fs_get w' p \<noteq> fs_get w p \<longrightarrow>
       is_safe_writer_temp (path_file_name p) \<or> (\<exists>i. drawn_id L w w' i \<and> p = blob_path rd i))"
proof -
  from commit_with_failed [OF assms] have rd: "rd' = rd" and fr: "blob_frame L rd w w'" by simp_all
  have i: "rng_fills w" "draws_fresh L w (known_ids rd)" "ids_sound rd" using assms(2) by (simp_all add: vault_inv_def)
  have ok: "blob_id_ok j" if "drawn_id L w w' j" for j
    using that i(1) assms(4) by (auto simp: drawn_id_def rng_fills_def blob_id_ok_def hex_def hexlower_spec_def)
  have "\<not> is_safe_writer_temp (path_file_name (manifest_path rd))"
    unfolding manifest_path_name by (simp add: is_safe_writer_temp_def strip_prefix_def)
  moreover have "manifest_path rd \<noteq> blob_path rd j" if "drawn_id L w w' j" for j using manifest_not_blob [OF ok [OF that]] .
  ultimately have m: "fs_get w' (manifest_path rd) = fs_get w (manifest_path rd)"
    using blob_frameD [OF fr, of "manifest_path rd"] by metis
  have "fs_get w' (blob_path rd j) = fs_get w (blob_path rd j)" if "j \<in> set (referenced (v2_manifest rd))" for j
    using frame_blob [OF fr, of j] drawn_not_known [OF i(2), of w' j] that i(3) by (auto simp: ids_sound_def known_ids_def list_all_iff)
  then have "\<forall>i \<in> set (referenced (v2_manifest rd)). fs_get w' (blob_path rd i) = fs_get w (blob_path rd i)" by (rule ballI)
  from rd m this fr [unfolded blob_frame_def, THEN conjunct2] show ?thesis by (intro conjI)
qed

theorem failed_commit_changes_nothing_witness:
  "\<exists>e rd' w'. commit_with vault_lib tiny_codecs (Some 1) (on_fst (vb_rename ''a'' ''b'')) (tiny_reader, tiny_world) = (Inl e, (rd', w')) \<and>
     rd' = tiny_reader"
proof -
  have "\<not> is_ok (fst (commit_with vault_lib tiny_codecs (Some 1) (on_fst (vb_rename ''a'' ''b'')) (tiny_reader, tiny_world)))" by code_simp
  then obtain e where "fst (commit_with vault_lib tiny_codecs (Some 1) (on_fst (vb_rename ''a'' ''b'')) (tiny_reader, tiny_world)) = Inl e"
    by (metis is_ok_iff sum.exhaust)
  then obtain rd' w' where r: "commit_with vault_lib tiny_codecs (Some 1) (on_fst (vb_rename ''a'' ''b'')) (tiny_reader, tiny_world) = (Inl e, (rd', w'))"
    by (metis prod.collapse)
  from failed_commit_changes_nothing [OF r tiny_inv editing_ops(5) vault_lib_specs(1,2)] r show ?thesis by blast
qed

text \<open>Reading refuses a blob of more than \<open>2 ^ 32 - 1\<close> chunks.\<close>

lemma open_blob_bounded:
  assumes "open_blob rd i sz chunk w = (Inr f, w')"
  shows "unat (num_chunks sz (ucast chunk)) < 2 ^ 32"
proof -
  have "num_chunks sz (ucast chunk) \<le> 0xFFFFFFFF"
    using assms by (auto simp: open_blob_def Let_def not_less split: if_splits)
  then show ?thesis by (simp add: word_le_nat_alt)
qed

lemma read_entry_bounded:
  assumes "read_entry L rd q w = (Inr d, v)" and "file_entry rd q = Inr f"
  shows "unat (num_chunks (e2_size f) (ucast (e2_chunk_size f))) < 2 ^ 32"
proof -
  obtain r s buf where r: "read_entry_to_writer L rd q vec_write (w, []) = (r, (s, buf))" by (metis prod.collapse)
  with assms have "r = Inr ()" by (cases r) (auto simp: read_entry_def bnd_eq_Inr with_local_def)
  with r assms(2) show ?thesis
    by (auto simp: read_entry_to_writer_def Let_def bnd_eq_Inr on_fst_eq simp del: on_fst_run split: if_splits dest: open_blob_bounded)
qed

lemma default_chunks_bounded:
  "length data \<le> 2 ^ 48 - 2 ^ 16 \<Longrightarrow> unat (num_chunks (len64 data) (ucast (of_nat DEFAULT_CHUNK_SIZE :: u32))) < 2 ^ 32"
  by (simp add: unat_num_chunks DEFAULT_CHUNK_SIZE_def unat_of_nat) (auto simp: div_less_iff_less_mult)

text \<open>C8. Insertion and lookup. A file put into the vault is read back byte for byte under the
  same path, and every other file reads as it did before.\<close>

theorem put_then_read:
  assumes "v2_put_file_bytes L C path data mtime mode (rd, w) = (Inr (), (rd', w'))" and "vault_inv L (rd, w)"
    and "hexlower_spec L" and "stream_be32 L" and "aead_correct L" and "no_faults w" and "no_faults w'"
    and "length data \<le> 2 ^ 48 - 2 ^ 16"
  shows "(\<exists>k. read_entry L rd' path w' = (Inr data, w'\<lparr>io_calls := k\<rparr>)) \<and>
    (\<forall>q e d v. file_entry rd q = Inr e \<and> normalize_path path \<noteq> Inr (e2_path e) \<and> read_entry L rd q w = (Inr d, v) \<longrightarrow>
       (\<exists>k. read_entry L rd' q w' = (Inr d, w'\<lparr>io_calls := k\<rparr>)))"
proof -
  obtain n e where n: "normalize_path path = Inr n" and e: "file_entry rd' path = Inr e" "e2_size e = len64 data"
      "e2_chunk_size e = of_nat DEFAULT_CHUNK_SIZE" "blob_holds L rd' w' e data"
    and other: "\<And>e d. e \<in> set (m2_entries (v2_manifest rd)) \<Longrightarrow> e2_path e \<noteq> n \<Longrightarrow> e2_kind e = File \<Longrightarrow> blob_holds L rd w e d \<Longrightarrow>
       e \<in> set (m2_entries (v2_manifest rd')) \<and> blob_holds L rd' w' e d"
    by (rule put_file_bytes_stored [OF assms(1-4)]) (rule that)
  have "unat (num_chunks (e2_size e) (ucast (e2_chunk_size e))) < 2 ^ 32"
    unfolding e(2,3) by (rule default_chunks_bounded [OF assms(8)])
  then have new: "\<exists>k. read_entry L rd' path w' = (Inr data, w'\<lparr>io_calls := k\<rparr>)"
    by (rule read_entry_holds [OF assms(5,7) e(1,4)])
  have inv': "vault_inv L (rd', w')"
    by (rule commit_keeps_inv [OF assms(1) [unfolded v2_put_file_bytes_def commit_batch_def] assms(2) editing_ops(1) assms(3,4)])
  have "\<exists>k. read_entry L rd' q w' = (Inr d, w'\<lparr>io_calls := k\<rparr>)"
    if q: "file_entry rd q = Inr f" "normalize_path path \<noteq> Inr (e2_path f)" "read_entry L rd q w = (Inr d, v)" for q f d v
  proof -
    from q(1) have f: "normalize_stored_path q = Inr (e2_path f)" "f \<in> set (m2_entries (v2_manifest rd))" "e2_kind f = File"
      unfolding file_entry_iff [OF vault_inv_distinct [OF assms(2)]] by auto
    with assms(2) obtain d' where d': "blob_holds L rd w f d'" by (auto simp: vault_inv_def readable_def)
    have c: "unat (num_chunks (e2_size f) (ucast (e2_chunk_size f))) < 2 ^ 32" by (rule read_entry_bounded [OF q(3,1)])
    from read_entry_holds [OF assms(5,6) q(1) d' c] q(3) have "d' = d" by auto
    moreover have "e2_path f \<noteq> n" using q(2) n by auto
    ultimately have "f \<in> set (m2_entries (v2_manifest rd'))" "blob_holds L rd' w' f d" using other [OF f(2) _ f(3) d'] by auto
    moreover from this f have "file_entry rd' q = Inr f" unfolding file_entry_iff [OF vault_inv_distinct [OF inv']] by auto
    ultimately show ?thesis using read_entry_holds [OF assms(5,7) _ _ c] by blast
  qed
  with new show ?thesis by blast
qed

theorem put_then_read_witness:
  "\<exists>rd' w' k. v2_put_file_bytes vault_lib tiny_codecs ''f'' [7] None None (tiny_reader, tiny_world) = (Inr (), (rd', w')) \<and>
     read_entry vault_lib rd' ''f'' w' = (Inr [7], w'\<lparr>io_calls := k\<rparr>)"
proof -
  from tiny_put obtain rd' w' where put: "v2_put_file_bytes vault_lib tiny_codecs ''f'' [7] None None (tiny_reader, tiny_world) = (Inr (), (rd', w'))"
    and nf: "no_faults w'" by blast
  have "no_faults tiny_world" by (simp add: no_faults_def tiny_world_def)
  from put_then_read [OF put tiny_inv vault_lib_specs this nf] put show ?thesis by auto
qed

end
