(* ===== verification/V1_Container.thy ===== *)
theory V1_Container
  imports V2_Store
begin

section \<open>The transport container (format.rs)\<close>

text \<open>
  A container is a preamble, a plaintext header, the sealed manifest, the chunked stream of all
  file contents in entry order, and the sender's signature of the hash of everything before it.
  A writer plans the header first, so that the length is known before any data flows; a reader
  verifies before it decrypts. The CBOR codecs of the header and the manifest are parameters;
  \<open>pqc\<close> says whether the build knows the hybrid suites.
\<close>

subsection \<open>Data\<close>

definition MAGIC_V1 :: bytes where "MAGIC_V1 = as_bytes ''FSEC'' @ [0x1A]"
definition FORMAT_VERSION :: u16 where "FORMAT_VERSION = 1"
definition PREAMBLE_LEN :: nat where "PREAMBLE_LEN = 11"
definition MAX_CONTAINER_HEADER_LEN :: nat where "MAX_CONTAINER_HEADER_LEN = 4 * 1024 * 1024"
definition MAX_IN_MEMORY_CONTAINER_LEN :: u64 where "MAX_IN_MEMORY_CONTAINER_LEN = 2 * 1024 * 1024 * 1024"
definition SIGNATURE_LEN :: nat where "SIGNATURE_LEN = 64"

record container_header =
  hd_suite_id :: u16
  hd_vault_id :: bytes
  hd_sender_sign_public :: bytes
  hd_sender_kem_public :: bytes
  hd_sender_mldsa_public :: "bytes option"
  hd_sender_mlkem_public :: "bytes option"
  hd_sender_fpr :: bytes
  hd_recipients :: "recipient_stanza list"
  hd_manifest_nonce :: bytes
  hd_manifest_len :: u64
  hd_data_stream_nonce :: bytes
  hd_data_chunk_size :: u32
  hd_data_len :: u64

record v1_codecs =
  header_codec1 :: "container_header codec"
  manifest_codec1 :: "manifest codec"

definition hybrid_sig_len :: "bool \<Rightarrow> nat" where
  "hybrid_sig_len pqc = (if pqc then 3309 else 0)"

definition trailer_len :: "bool \<Rightarrow> suite_id \<Rightarrow> nat" where
  "trailer_len pqc suite = (if is_hybrid suite then SIGNATURE_LEN + hybrid_sig_len pqc else SIGNATURE_LEN)"

record export_options =
  eo_suite :: suite_id
  eo_chunk_size :: nat

definition export_options_default :: export_options where
  "export_options_default = \<lparr>eo_suite = Classic, eo_chunk_size = DEFAULT_CHUNK_SIZE\<rparr>"

record added_file =
  af_vault_path :: string
  af_source :: string
  af_mtime :: "int option"
  af_mode :: "u32 option"

record imported_vault =
  iv_vault :: vault
  iv_suite :: suite_id
  iv_sender_fingerprint :: bytes
  iv_sender_sign_public :: bytes
  iv_sender_kem_public :: bytes
  iv_sender_mldsa_public :: "bytes option"
  iv_sender_mlkem_public :: "bytes option"

text \<open>A sender as the header names it: the name is left empty.\<close>

definition unnamed_public :: "bytes \<Rightarrow> bytes \<Rightarrow> bytes option \<Rightarrow> bytes option \<Rightarrow> public_identity" where
  "unnamed_public sign kem mldsa mlkem =
     \<lparr>pi_name = [], pi_created_at = 0, pi_sign_public = sign, pi_kem_public = kem,
      pi_mldsa_public = mldsa, pi_mlkem_public = mlkem\<rparr>"

definition sender_public :: "imported_vault \<Rightarrow> public_identity" where
  "sender_public v =
     unnamed_public (iv_sender_sign_public v) (iv_sender_kem_public v) (iv_sender_mldsa_public v) (iv_sender_mlkem_public v)"

subsection \<open>Readers\<close>

text \<open>\<open>VaultContentReader\<close>: the entries from the current one on and the position in it.\<close>

fun vcr_read :: "nat \<Rightarrow> (vault_entry list \<times> nat, bytes) op" where
  "vcr_read n ([], pos) = (Inr [], ([], pos))"
| "vcr_read n (e # es, pos) =
     (if ve_kind e \<noteq> File \<or> pos \<ge> length (ve_content e) then vcr_read n (es, 0)
      else let src = drop pos (ve_content e); m = min (length src) n
           in (Inr (take m src), (e # es, pos + m)))"

definition vcr_source :: "vault_entry list \<times> nat \<Rightarrow> source" where
  "vcr_source st =
     (case st of
        ([], _) \<Rightarrow> []
      | (e # es, pos) \<Rightarrow>
          (if ve_kind e = File then file_source (drop pos (ve_content e)) else []) @
          concat (map (\<lambda>e. if ve_kind e = File then file_source (ve_content e) else []) es))"

text \<open>\<open>ChainReader\<close>: the current source and the rest.\<close>

fun chain_read :: "nat \<Rightarrow> (source list, bytes) op" where
  "chain_read n [] = (Inr [], [])"
| "chain_read n (r # rs) =
     (case read n r of
        (Inl e, r') \<Rightarrow> (Inl e, r' # rs)
      | (Inr b, r') \<Rightarrow> if b \<noteq> [] then (Inr b, r' # rs) else chain_read n rs)"

definition chain_source :: "source list \<Rightarrow> source" where
  "chain_source rs = concat (map (takeWhile (\<lambda>x. x \<noteq> Inr [])) rs)"

text \<open>\<open>SelectReader\<close>: the segments with what is left of the current one, and the inner source.\<close>

function select_read :: "nat \<Rightarrow> ((nat \<times> bool) list \<times> source, bytes) op" where
  "select_read n ([], r) = (Inr [], ([], r))"
| "select_read n ((m, keep) # segs, r) =
     (if m = 0 then select_read n (segs, r)
      else if keep
      then let want = min m n in
           if want = 0 then (Inr [], ((m, keep) # segs, r))
           else case read want r of
                  (Inl e, r') \<Rightarrow> (Inl e, ((m, keep) # segs, r'))
                | (Inr b, r') \<Rightarrow>
                    if b = [] then (Inl (Io (IoKind UnexpectedEof)), ((m, keep) # segs, r'))
                    else (Inr b, ((m - length b, keep) # segs, r'))
      else case read (min m DEFAULT_CHUNK_SIZE) r of
             (Inl e, r') \<Rightarrow> (Inl e, ((m, keep) # segs, r'))
           | (Inr b, r') \<Rightarrow>
               if b = [] then (Inl (Io (IoKind UnexpectedEof)), ((m, keep) # segs, r'))
               else select_read n ((m - length b, keep) # segs, r'))"
  by pat_completeness auto
termination
  by (relation "measure (\<lambda>(n, segs, r). sum_list (map fst segs) + length segs)") auto

declare select_read.simps [simp del]

function select_source :: "(nat \<times> bool) list \<Rightarrow> source \<Rightarrow> source" where
  "select_source [] r = []"
| "select_source ((m, keep) # segs) r =
     (if m = 0 then select_source segs r
      else case r of
             [] \<Rightarrow> [Inl (IoKind UnexpectedEof)]
           | Inl e # rs \<Rightarrow> Inl e # select_source ((m, keep) # segs) rs
           | Inr b # rs \<Rightarrow>
               if b = [] then [Inl (IoKind UnexpectedEof)]
               else (if keep then [Inr (take m b)] else []) @
                 select_source ((m - length b, keep) # segs) (if length b \<le> m then rs else Inr (drop m b) # rs))"
  by pat_completeness auto
termination
  by (relation "measure (\<lambda>(segs, r). sum_list (map fst segs) + length segs + length r)") auto

declare select_source.simps [simp del]

subsection \<open>Manifests\<close>

fun build_entries :: "lib \<Rightarrow> u64 \<Rightarrow> vault_entry list \<Rightarrow> entry list" where
  "build_entries L off [] = []"
| "build_entries L off (e # es) =
     (case ve_kind e of
        File \<Rightarrow>
          let sz = ve_size e in
          \<lparr>en_path = ve_path e, en_kind = File, en_size = sz, en_mtime = ve_mtime e, en_mode = ve_mode e,
           en_blake3 = blake3 L (ve_content e), en_data_offset = off\<rparr> # build_entries L (saturating_add off sz) es
      | Dir \<Rightarrow>
          \<lparr>en_path = ve_path e, en_kind = Dir, en_size = 0, en_mtime = ve_mtime e, en_mode = ve_mode e,
           en_blake3 = replicate 32 0, en_data_offset = 0\<rparr> # build_entries L off es)"

definition build_manifest :: "lib \<Rightarrow> vault \<Rightarrow> manifest" where
  "build_manifest L v =
     \<lparr>mf_vault_name = vault_name v, mf_created_at = vault_created_at v, mf_entries = build_entries L 0 (vault_entries v)\<rparr>"

definition push_dir_entry :: "string \<Rightarrow> string set \<times> entry list \<Rightarrow> string set \<times> entry list" where
  "push_dir_entry path st =
     (case st of (seen, entries) \<Rightarrow>
        if path \<in> seen then (seen, entries)
        else (insert path seen,
              entries @ [\<lparr>en_path = path, en_kind = Dir, en_size = 0, en_mtime = None, en_mode = None,
                          en_blake3 = replicate 32 0, en_data_offset = 0\<rparr>]))"

fun push_ancestor_loop :: "string \<Rightarrow> string list \<Rightarrow> string set \<times> entry list \<Rightarrow> string set \<times> entry list" where
  "push_ancestor_loop acc [] st = st"
| "push_ancestor_loop acc (c # cs) st =
     (let acc' = (if acc \<noteq> [] then acc @ ''/'' else acc) @ c
      in push_ancestor_loop acc' cs (push_dir_entry acc' st))"

definition push_ancestor_dirs :: "string \<Rightarrow> string set \<times> entry list \<Rightarrow> string set \<times> entry list" where
  "push_ancestor_dirs norm_path st =
     (let comps = split_on slash norm_path
      in push_ancestor_loop [] (take (length comps - 1) comps) st)"

definition data_ciphertext_len :: "u64 \<Rightarrow> u64 \<Rightarrow> u64" where
  "data_ciphertext_len plaintext_len chunk_size =
     plaintext_len + num_chunks plaintext_len chunk_size * of_nat TAG_LEN"

subsection \<open>The writer\<close>

record container_plan =
  cp_sender :: identity
  cp_suite :: suite_id
  cp_alg :: aead_alg
  cp_cek :: bytes
  cp_header_bytes :: bytes
  cp_manifest_plaintext :: bytes
  cp_manifest_nonce :: bytes
  cp_data_stream_nonce :: bytes
  cp_manifest_len :: u64
  cp_data_len :: u64
  cp_chunk_size :: nat

definition plan_new ::
  "lib \<Rightarrow> v1_codecs \<Rightarrow> manifest \<Rightarrow> u64 \<Rightarrow> identity \<Rightarrow> public_identity list \<Rightarrow> export_options \<Rightarrow> container_plan io" where
  "plan_new L C manifest data_plaintext_len sender recipients options =
     (if recipients = [] then throw (Vault ''a container needs at least one recipient'')
      else if \<not> is_supported (eo_suite options) then throw (UnsupportedSuite (to_u16 (eo_suite options)))
      else if eo_chunk_size options = 0 then throw (Format ''chunk size'')
      else
        let suite = eo_suite options;
            alg = suite_aead_alg suite;
            sender_mldsa_public = map_option pq_public (id_mldsa sender);
            sender_mlkem_public = map_option pq_public (id_mlkem sender)
        in
        if is_hybrid suite \<and> (sender_mldsa_public = None \<or> sender_mlkem_public = None)
        then throw (MissingPqcKey ''hybrid container requires a sender with post-quantum keys'')
        else
          bnd (lift (to_vec (manifest_codec1 C) manifest)) (\<lambda>manifest_plaintext.
            let manifest_len = of_nat (length manifest_plaintext + TAG_LEN);
                data_len = data_ciphertext_len data_plaintext_len (of_nat (eo_chunk_size options))
            in
            bnd symkey_random (\<lambda>cek.
            bnd (random_vec (nonce_len alg)) (\<lambda>manifest_nonce.
            bnd (random_vec (stream_nonce_len alg)) (\<lambda>data_stream_nonce.
            bnd (random_array 16) (\<lambda>vault_id.
            bnd (io_fold (\<lambda>r stanzas. bnd (wrap_for_recipient L cek r suite) (\<lambda>s. ret (stanzas @ [s]))) recipients []) (\<lambda>stanzas.
              let header = \<lparr>hd_suite_id = to_u16 suite, hd_vault_id = vault_id,
                    hd_sender_sign_public = pi_sign_public (id_public L sender),
                    hd_sender_kem_public = pi_kem_public (id_public L sender),
                    hd_sender_mldsa_public = sender_mldsa_public, hd_sender_mlkem_public = sender_mlkem_public,
                    hd_sender_fpr = id_fingerprint L sender, hd_recipients = stanzas,
                    hd_manifest_nonce = manifest_nonce, hd_manifest_len = manifest_len,
                    hd_data_stream_nonce = data_stream_nonce, hd_data_chunk_size = of_nat (eo_chunk_size options),
                    hd_data_len = data_len\<rparr>
              in
              bnd (lift (to_vec (header_codec1 C) header)) (\<lambda>header_bytes.
                if length header_bytes > MAX_CONTAINER_HEADER_LEN \<or> length header_bytes > 0xFFFFFFFF
                then throw (Format ''header too large'')
                else
                  ret \<lparr>cp_sender = sender, cp_suite = suite, cp_alg = alg, cp_cek = cek, cp_header_bytes = header_bytes,
                       cp_manifest_plaintext = manifest_plaintext, cp_manifest_nonce = manifest_nonce,
                       cp_data_stream_nonce = data_stream_nonce, cp_manifest_len = manifest_len, cp_data_len = data_len,
                       cp_chunk_size = eo_chunk_size options\<rparr>))))))))"

definition container_len :: "bool \<Rightarrow> container_plan \<Rightarrow> u64" where
  "container_len pqc p =
     of_nat PREAMBLE_LEN + len64 (cp_header_bytes p) + cp_manifest_len p + cp_data_len p + of_nat (trailer_len pqc (cp_suite p))"

text \<open>
  \<open>HashingWriter\<close>: the buffered writer and what went through it to the hasher. A streaming
  operation on it runs on the inner writer, and the hasher takes every byte that writer accepted.
\<close>

record hashing_writer =
  hw_inner :: sink
  hw_hasher :: bytes

definition hw_new :: "sink \<Rightarrow> hashing_writer" where
  "hw_new inner = \<lparr>hw_inner = inner, hw_hasher = []\<rparr>"

definition hashing :: "(source \<times> sink, 'a) op \<Rightarrow> (source \<times> hashing_writer, 'a) op" where
  "hashing m = (\<lambda>(src, hw).
     case m (src, hw_inner hw) of
       (r, (src', k)) \<Rightarrow>
         (r, (src', \<lparr>hw_inner = k, hw_hasher = hw_hasher hw @ drop (length (sink_out (hw_inner hw))) (sink_out k)\<rparr>)))"

abbreviation hw_write_all :: "bytes \<Rightarrow> (source \<times> hashing_writer, unit) op" where
  "hw_write_all b \<equiv> hashing (on_snd (write_all b))"

definition write_body :: "lib \<Rightarrow> container_plan \<Rightarrow> (source \<times> hashing_writer, unit) op" where
  "write_body L p =
     bnd (hw_write_all MAGIC_V1) (\<lambda>_.
     bnd (hw_write_all (to_be_bytes FORMAT_VERSION)) (\<lambda>_.
     bnd (hw_write_all (to_be_bytes (of_nat (length (cp_header_bytes p)) :: u32))) (\<lambda>_.
     bnd (hw_write_all (cp_header_bytes p)) (\<lambda>_.
     bnd (lift (seal_with L (cp_alg p) (cp_cek p) (cp_manifest_nonce p) (cp_header_bytes p) (cp_manifest_plaintext p))) (\<lambda>enc_manifest.
       if len64 enc_manifest \<noteq> cp_manifest_len p then throw (Format ''manifest length mismatch'')
       else
         bnd (hw_write_all enc_manifest) (\<lambda>_.
         bnd (hashing (encrypt_stream_with L (cp_alg p) (cp_cek p) (cp_data_stream_nonce p) (cp_header_bytes p) (cp_chunk_size p))) (\<lambda>written.
           if written \<noteq> cp_data_len p then throw (Format ''data length mismatch'') else ret ())))))))"

definition plan_write :: "lib \<Rightarrow> container_plan \<Rightarrow> (source \<times> sink, unit) op" where
  "plan_write L p = (\<lambda>(src, out).
     case write_body L p (src, hw_new out) of
       (Inl e, (src', hw)) \<Rightarrow> (Inl e, (src', hw_inner hw))
     | (Inr _, (src', hw)) \<Rightarrow>
         let hash = blake3 L (hw_hasher hw) in
         bnd (on_snd (write_all (id_sign_message L (cp_sender p) hash))) (\<lambda>_.
         bnd (if is_hybrid (cp_suite p)
              then bnd (lift (sign_pqc L (cp_sender p) hash)) (\<lambda>pq_signature. on_snd (write_all pq_signature))
              else ret ()) (\<lambda>_.
         on_snd (write_all []))) (src', hw_inner hw))"

text \<open>
  A destination: how it runs a streaming operation. The caller keeps the buffer or the safe
  writer behind it; the last \<open>write_all\<close> of the operation stands for the flush.
\<close>

type_synonym 'o dest = "(source \<times> sink, unit) op \<Rightarrow> source \<Rightarrow> (world \<times> 'o, unit) op"

definition to_writer :: "safe_file_writer \<Rightarrow> unit dest" where
  "to_writer sw m src = on_fst (bnd (sw_stream sw m src) (\<lambda>_. ret ()))"

definition to_buffer :: "bytes dest" where
  "to_buffer m src = (\<lambda>(w, buf).
     case m (src, \<lparr>sink_out = buf, sink_calls = 0, sink_faults = (\<lambda>_. None)\<rparr>) of
       (r, (_, k)) \<Rightarrow> (r, (w, sink_out k)))"

definition write_container ::
  "lib \<Rightarrow> v1_codecs \<Rightarrow> manifest \<Rightarrow> u64 \<Rightarrow> source \<Rightarrow> identity \<Rightarrow> public_identity list \<Rightarrow> export_options \<Rightarrow> 'o dest \<Rightarrow>
   (world \<times> 'o, unit) op" where
  "write_container L C manifest data_plaintext_len data sender recipients options out =
     bnd (on_fst (plan_new L C manifest data_plaintext_len sender recipients options)) (\<lambda>plan.
     out (plan_write L plan) data)"

definition export_vault ::
  "lib \<Rightarrow> v1_codecs \<Rightarrow> vault \<Rightarrow> identity \<Rightarrow> public_identity list \<Rightarrow> export_options \<Rightarrow> 'o dest \<Rightarrow> (world \<times> 'o, unit) op" where
  "export_vault L C v sender recipients options out =
     write_container L C (build_manifest L v) (total_size v) (vcr_source (vault_entries v, 0)) sender recipients options out"

text \<open>A \<open>..._to_path\<close> variant: the same operation into a safe writer, committed at the end.\<close>

definition written_to_path :: "lib \<Rightarrow> string \<Rightarrow> (unit dest \<Rightarrow> (world \<times> unit, unit) op) \<Rightarrow> unit io" where
  "written_to_path L path m = with_writer L path (\<lambda>file. with_local () (m (to_writer file))) sw_commit"

definition export_vault_to_path ::
  "lib \<Rightarrow> v1_codecs \<Rightarrow> vault \<Rightarrow> identity \<Rightarrow> public_identity list \<Rightarrow> export_options \<Rightarrow> string \<Rightarrow> unit io" where
  "export_vault_to_path L C v sender recipients options path =
     written_to_path L path (export_vault L C v sender recipients options)"

subsection \<open>The importer\<close>

definition slice :: "nat \<Rightarrow> nat \<Rightarrow> 'a list \<Rightarrow> 'a list" where
  "slice a b xs = take (b - a) (drop a xs)"

definition verify_hybrid :: "lib \<Rightarrow> bool \<Rightarrow> suite_id \<Rightarrow> bytes option \<Rightarrow> bytes \<Rightarrow> bytes \<Rightarrow> unit result" where
  "verify_hybrid L pqc suite mldsa_key body_hash trailer =
     (if \<not> is_hybrid suite then Inr ()
      else if pqc
      then rbind (ok_or (Format ''hybrid container missing ML-DSA sender key'') mldsa_key) (\<lambda>mldsa_key.
             if length trailer < SIGNATURE_LEN then Inl (Format ''truncated hybrid signature'')
             else mldsa_check L mldsa_key body_hash (drop SIGNATURE_LEN trailer))
      else Inl (UnsupportedSuite (to_u16 suite)))"

definition verify_hybrid_signature :: "lib \<Rightarrow> bool \<Rightarrow> suite_id \<Rightarrow> container_header \<Rightarrow> bytes \<Rightarrow> bytes \<Rightarrow> unit result" where
  "verify_hybrid_signature L pqc suite header body_hash trailer =
     verify_hybrid L pqc suite (hd_sender_mldsa_public header) body_hash trailer"

text \<open>One round of the loop over the entries: the running size, the paths seen and the shape.\<close>

definition layout_step ::
  "entry \<Rightarrow> u64 \<times> string set \<times> (string \<times> entry_kind) list \<Rightarrow> (u64 \<times> string set \<times> (string \<times> entry_kind) list) result" where
  "layout_step e st =
     (case st of (tot, seen, shape) \<Rightarrow>
      rbind (normalize_path (en_path e)) (\<lambda>p.
        let shape = shape @ [(p, en_kind e)] in
        if p \<in> seen then Inl (Format ''duplicate path in manifest'')
        else if en_kind e = File
        then if en_data_offset e \<noteq> tot then Inl (Format ''non-contiguous data offset'')
             else rbind (ok_or (Format ''size overflow'') (checked_add tot (en_size e))) (\<lambda>tot.
                    Inr (tot, insert p seen, shape))
        else Inr (tot, insert p seen, shape)))"

definition saturating_mul :: "u64 \<Rightarrow> u64 \<Rightarrow> u64" where
  "saturating_mul a b = (case checked_mul a b of None \<Rightarrow> - 1 | Some c \<Rightarrow> c)"

definition validate_manifest_layout :: "manifest \<Rightarrow> u64 \<Rightarrow> u64 \<Rightarrow> (u64 \<times> u32) result" where
  "validate_manifest_layout m chunk_size data_len_ciphertext =
     (if chunk_size = 0 then Inl (Format ''bad chunk size'')
      else if length (mf_entries m) > MAX_MANIFEST_ENTRIES then Inl (Format ''too many manifest entries'')
      else
        rbind (rfold layout_step (mf_entries m) (0, {}, [])) (\<lambda>(total_plaintext, seen, shape).
          let chunks = num_chunks total_plaintext chunk_size in
          if chunks > 0xFFFFFFFF then Inl (Format ''too many chunks'')
          else
            rbind (check_tree_shape shape) (\<lambda>_.
            rbind (ok_or (Format ''length overflow'')
                     (checked_add total_plaintext (saturating_mul chunks (of_nat TAG_LEN)))) (\<lambda>expected.
              if expected \<noteq> data_len_ciphertext then Inl (Format ''data length mismatch'')
              else Inr (total_plaintext, ucast chunks)))))"

definition read_exact :: "nat \<Rightarrow> (source, bytes) op" where
  "read_exact n =
     bnd (read_chunk n) (\<lambda>b. if length b < n then throw (Io (IoKind UnexpectedEof)) else ret b)"

definition reconstruct_entry :: "lib \<Rightarrow> entry \<Rightarrow> u64 \<times> vault \<Rightarrow> (source, u64 \<times> vault) op" where
  "reconstruct_entry L e st =
     (case st of (offset, v) \<Rightarrow>
      bnd (lift (normalize_path (en_path e))) (\<lambda>path.
        case en_kind e of
          File \<Rightarrow>
            if en_data_offset e \<noteq> offset then throw (Format ''non-contiguous data offset'')
            else
              bnd (read_exact (unat (en_size e))) (\<lambda>contents.
                if \<not> ct_eq (blake3 L contents) (en_blake3 e) then throw Auth
                else
                  bnd (lift (ok_or (Format ''size overflow'') (checked_add offset (en_size e)))) (\<lambda>offset.
                  ret (offset, push_entry \<lparr>ve_path = path, ve_kind = File, ve_mtime = en_mtime e, ve_mode = en_mode e,
                                           ve_content = contents\<rparr> v)))
        | Dir \<Rightarrow>
            ret (offset, push_entry \<lparr>ve_path = path, ve_kind = Dir, ve_mtime = en_mtime e, ve_mode = en_mode e,
                                     ve_content = []\<rparr> v)))"

definition reconstruct_vault_streaming :: "lib \<Rightarrow> manifest \<Rightarrow> (source, vault) op" where
  "reconstruct_vault_streaming L m =
     bnd (io_fold (reconstruct_entry L) (mf_entries m) (0, vault_new (mf_vault_name m) (mf_created_at m))) (\<lambda>(offset, v).
     bnd (read 1) (\<lambda>extra.
       if extra = [] then ret v else throw (Format ''trailing data after last entry'')))"

text \<open>The two importers check the same fields of a header.\<close>

definition check_header_fields :: "bool \<Rightarrow> container_header \<Rightarrow> suite_id result" where
  "check_header_fields pqc h =
     rbind (from_u16 pqc (hd_suite_id h)) (\<lambda>suite.
       let alg = suite_aead_alg suite in
       if length (hd_manifest_nonce h) \<noteq> nonce_len alg \<or> length (hd_data_stream_nonce h) \<noteq> stream_nonce_len alg
       then Inl (Format ''bad nonce length'')
       else if hd_data_chunk_size h = 0 \<or> unat (hd_data_chunk_size h) > MAX_CHUNK_SIZE then Inl (Format ''bad chunk size'')
       else if hd_manifest_len h < of_nat TAG_LEN \<or> hd_manifest_len h > MAX_MANIFEST_LEN then Inl (Format ''bad manifest length'')
       else Inr suite)"

definition find_stanza :: "lib \<Rightarrow> identity \<Rightarrow> container_header \<Rightarrow> recipient_stanza result" where
  "find_stanza L i h = ok_or NotARecipient (find (\<lambda>s. ct_eq (recipient_fpr s) (id_fingerprint L i)) (hd_recipients h))"

text \<open>The checks of the preamble, up to the length of the header.\<close>

definition check_preamble :: "bytes \<Rightarrow> u32 result" where
  "check_preamble b =
     (if slice 0 5 b \<noteq> MAGIC_V1 then Inl (Format ''not a FileSec container'')
      else if from_be_bytes (slice 5 7 b) \<noteq> FORMAT_VERSION then Inl (Format ''unsupported format version'')
      else
        let header_len = from_be_bytes (slice 7 11 b) in
        if unat header_len > MAX_CONTAINER_HEADER_LEN then Inl (Format ''header too large'') else Inr header_len)"

text \<open>What the signature covers and the sections of a container, before anything is decrypted.\<close>

record container_parts =
  pt_header :: container_header
  pt_header_bytes :: bytes
  pt_suite :: suite_id
  pt_enc_manifest :: bytes
  pt_enc_data :: bytes

definition import_parts :: "lib \<Rightarrow> bool \<Rightarrow> v1_codecs \<Rightarrow> bytes \<Rightarrow> container_parts result" where
  "import_parts L pqc C b =
     (if length b < PREAMBLE_LEN then Inl (Format ''truncated preamble'')
      else
        rbind (check_preamble b) (\<lambda>header_len.
        rbind (ok_or (Format ''length overflow'') (checked_add (of_nat PREAMBLE_LEN) (ucast header_len))) (\<lambda>manifest_start :: u64.
        if length b < unat manifest_start then Inl (Format ''truncated header'')
        else
          let header_bytes = slice PREAMBLE_LEN (unat manifest_start) b in
          rbind (from_slice (header_codec1 C) header_bytes) (\<lambda>h.
          rbind (check_header_fields pqc h) (\<lambda>suite.
          if hd_data_len h < of_nat TAG_LEN \<or> unat (hd_data_len h) > length b then Inl (Format ''bad data length'')
          else
            rbind (ok_or (Format ''length overflow'') (checked_add manifest_start (hd_manifest_len h))) (\<lambda>manifest_end.
            rbind (ok_or (Format ''length overflow'') (checked_add manifest_end (hd_data_len h))) (\<lambda>data_end.
            rbind (ok_or (Format ''length overflow'') (checked_add data_end (of_nat (trailer_len pqc suite)))) (\<lambda>sig_end.
            if length b \<noteq> unat sig_end then Inl (Format ''container length does not match header'')
            else
              let body_hash = blake3 L (slice 0 (unat data_end) b);
                  signature = slice (unat data_end) (unat data_end + SIGNATURE_LEN) b in
              rbind (sign_verify L (hd_sender_sign_public h) body_hash signature) (\<lambda>_.
              rbind (verify_hybrid_signature L pqc suite h body_hash (slice (unat data_end) (unat sig_end) b)) (\<lambda>_.
              let sender = unnamed_public (hd_sender_sign_public h) (hd_sender_kem_public h)
                             (hd_sender_mldsa_public h) (hd_sender_mlkem_public h) in
              if \<not> ct_eq (fingerprint L sender) (hd_sender_fpr h) then Inl (Format ''sender fingerprint mismatch'')
              else
                Inr \<lparr>pt_header = h, pt_header_bytes = header_bytes, pt_suite = suite,
                     pt_enc_manifest = slice (unat manifest_start) (unat manifest_end) b,
                     pt_enc_data = slice (unat manifest_end) (unat data_end) b\<rparr>))))))))))"

definition import_vault :: "lib \<Rightarrow> bool \<Rightarrow> v1_codecs \<Rightarrow> bytes \<Rightarrow> identity \<Rightarrow> imported_vault result" where
  "import_vault L pqc C b i =
     rbind (import_parts L pqc C b) (\<lambda>p.
       let h = pt_header p; suite = pt_suite p; alg = suite_aead_alg suite in
       rbind (find_stanza L i h) (\<lambda>stanza.
       rbind (unwrap_with_identity L stanza i) (\<lambda>cek.
       rbind (open_with L alg cek (hd_manifest_nonce h) (pt_header_bytes p) (pt_enc_manifest p)) (\<lambda>manifest_plaintext.
       rbind (from_slice (manifest_codec1 C) manifest_plaintext) (\<lambda>manifest.
       rbind (validate_manifest_layout manifest (ucast (hd_data_chunk_size h)) (hd_data_len h)) (\<lambda>_.
       rbind (sdr_new_with alg cek (hd_data_stream_nonce h) (pt_header_bytes p) (file_source (pt_enc_data p))
                (unat (hd_data_chunk_size h))) (\<lambda>plaintext.
       rbind (fst (reconstruct_vault_streaming L manifest (sdr_source L plaintext))) (\<lambda>v.
         Inr \<lparr>iv_vault = v, iv_suite = suite, iv_sender_fingerprint = hd_sender_fpr h,
              iv_sender_sign_public = hd_sender_sign_public h, iv_sender_kem_public = hd_sender_kem_public h,
              iv_sender_mldsa_public = hd_sender_mldsa_public h, iv_sender_mlkem_public = hd_sender_mlkem_public h\<rparr>))))))))"

definition import_vault_from_path :: "lib \<Rightarrow> bool \<Rightarrow> v1_codecs \<Rightarrow> string \<Rightarrow> identity \<Rightarrow> imported_vault io" where
  "import_vault_from_path L pqc C path i =
     bnd (read_bounded_file path MAX_IN_MEMORY_CONTAINER_LEN) (\<lambda>b. lift (import_vault L pqc C b i))"

subsection \<open>The lazily opened container\<close>

record vault_reader =
  vr_path :: string
  vr_manifest :: manifest
  vr_cek :: bytes
  vr_header_bytes :: bytes
  vr_data_stream_nonce :: bytes
  vr_data_chunk_size :: u64
  vr_data_section_offset :: u64
  vr_total_plaintext :: u64
  vr_num_chunks :: u32
  vr_suite :: suite_id

abbreviation vr_entries :: "vault_reader \<Rightarrow> entry list" where
  "vr_entries self \<equiv> mf_entries (vr_manifest self)"

definition vr_file_count :: "vault_reader \<Rightarrow> nat" where
  "vr_file_count self = length (filter (\<lambda>e. en_kind e = File) (vr_entries self))"

definition vr_file_entry :: "vault_reader \<Rightarrow> string \<Rightarrow> entry result" where
  "vr_file_entry self path =
     rbind (normalize_path path) (\<lambda>norm.
     rbind (ok_or (Vault ''entry not found'') (find (\<lambda>e. en_path e = norm) (vr_entries self))) (\<lambda>e.
       if en_kind e \<noteq> File then Inl (Vault ''not a file'') else Inr e))"

definition vr_data_len :: "vault_reader \<Rightarrow> u64" where
  "vr_data_len self = vr_total_plaintext self + ucast (vr_num_chunks self) * of_nat TAG_LEN"

definition saturating_sub :: "u64 \<Rightarrow> u64 \<Rightarrow> u64" where
  "saturating_sub a b = (if b \<le> a then a - b else 0)"

text \<open>The chunk with the given index, cut to the part that overlaps the file: one round of the loop.\<close>

definition decrypt_overlap :: "lib \<Rightarrow> vault_reader \<Rightarrow> bytes \<Rightarrow> u64 \<Rightarrow> u64 \<Rightarrow> u64 \<Rightarrow> bytes io" where
  "decrypt_overlap L self file file_start file_end c =
     (let chunk = vr_data_chunk_size self;
          last_index = ucast (vr_num_chunks self) - 1;
          is_last = (c = last_index);
          pt_len = (if is_last then vr_total_plaintext self - last_index * chunk else chunk);
          ct_len = pt_len + of_nat TAG_LEN;
          ct_off = vr_data_section_offset self + c * (chunk + of_nat TAG_LEN)
      in bnd (read_exact_at file ct_off ct_len) (\<lambda>ct.
         bnd (lift (decrypt_chunk_with L (suite_aead_alg (vr_suite self)) (vr_cek self) (vr_data_stream_nonce self)
                      (vr_header_bytes self) (ucast c) is_last ct)) (\<lambda>pt.
           let chunk_start = c * chunk;
               lo = unat (saturating_sub file_start chunk_start);
               hi = unat (min file_end (chunk_start + pt_len) - chunk_start) in
           if hi > length pt \<or> lo > hi then throw (Format ''chunk range mismatch'')
           else ret (slice lo hi pt))))"

definition decrypt_entry_to_writer ::
  "lib \<Rightarrow> vault_reader \<Rightarrow> bytes \<Rightarrow> entry \<Rightarrow> (bytes \<Rightarrow> (world \<times> 'o, unit) op) \<Rightarrow> (world \<times> 'o, unit) op" where
  "decrypt_entry_to_writer L self file e out =
     (if en_size e = 0
      then if \<not> ct_eq (blake3 L []) (en_blake3 e) then throw Auth else ret ()
      else
        let chunk = vr_data_chunk_size self;
            last_index = ucast (vr_num_chunks self) - 1;
            file_start = en_data_offset e
        in
        bnd (lift (ok_or (Format ''entry range overflow'') (checked_add file_start (en_size e)))) (\<lambda>file_end.
          let first = file_start div chunk;
              final = (file_end - 1) div chunk
          in
          if final > last_index then throw (Format ''entry range out of bounds'')
          else
            bnd (io_fold (\<lambda>c hasher.
                   bnd (on_fst (decrypt_overlap L self file file_start file_end c)) (\<lambda>part.
                   bnd (out part) (\<lambda>_. ret (hasher @ part))))
                 (map of_nat [unat first..<Suc (unat final)]) []) (\<lambda>hasher.
              if \<not> ct_eq (blake3 L hasher) (en_blake3 e) then throw Auth else ret ())))"

definition vr_read_entry_to_writer ::
  "lib \<Rightarrow> vault_reader \<Rightarrow> string \<Rightarrow> (bytes \<Rightarrow> (world \<times> 'o, unit) op) \<Rightarrow> (world \<times> 'o, unit) op" where
  "vr_read_entry_to_writer L self path out =
     bnd (lift (vr_file_entry self path)) (\<lambda>e.
     bnd (on_fst (std_open_read (vr_path self))) (\<lambda>file.
     decrypt_entry_to_writer L self (node_bytes file) e out))"

definition vr_read_entry :: "lib \<Rightarrow> vault_reader \<Rightarrow> string \<Rightarrow> bytes io" where
  "vr_read_entry L self path =
     bnd (with_local [] (vr_read_entry_to_writer L self path vec_write)) (\<lambda>(_, buf). ret buf)"

definition vr_extract_entry :: "lib \<Rightarrow> vault_reader \<Rightarrow> string \<Rightarrow> bytes \<Rightarrow> entry \<Rightarrow> unit io" where
  "vr_extract_entry L self dest file e =
     bnd (lift (normalize_path (en_path e))) (\<lambda>norm.
       let target = path_join dest norm in
       case en_kind e of
         Dir \<Rightarrow> create_dirs_no_symlink dest target
       | File \<Rightarrow>
           bnd (create_dirs_no_symlink dest (std_parent target)) (\<lambda>_.
           with_writer L target
             (\<lambda>out. with_local () (decrypt_entry_to_writer L self file e (\<lambda>b. on_fst (sw_write_all out b))))
             sw_commit))"

definition vr_extract_to :: "lib \<Rightarrow> unicode_lib \<Rightarrow> vault_reader \<Rightarrow> string \<Rightarrow> unit io" where
  "vr_extract_to L U self dest =
     bnd (preflight_extraction U dest (map (\<lambda>e. (en_path e, en_kind e)) (vr_entries self))) (\<lambda>_.
     bnd (std_open_read (vr_path self)) (\<lambda>file.
     io_for (vr_extract_entry L self dest (node_bytes file)) (vr_entries self)))"

text \<open>Opened, positioned at the data section and cut to its length.\<close>

definition plaintext_reader :: "lib \<Rightarrow> vault_reader \<Rightarrow> source io" where
  "plaintext_reader L self =
     bnd (std_open_read (vr_path self)) (\<lambda>file.
     bnd (syscall (ret ())) (\<lambda>_.
       let limited = file_source (take (unat (vr_data_len self)) (drop (unat (vr_data_section_offset self)) (node_bytes file))) in
       bnd (lift (sdr_new_with (suite_aead_alg (vr_suite self)) (vr_cek self) (vr_data_stream_nonce self) (vr_header_bytes self)
                    limited (unat (vr_data_chunk_size self)))) (\<lambda>d.
         ret (sdr_source L d))))"

definition vr_to_vault :: "lib \<Rightarrow> vault_reader \<Rightarrow> vault io" where
  "vr_to_vault L self =
     bnd (plaintext_reader L self) (\<lambda>src. lift (fst (reconstruct_vault_streaming L (vr_manifest self) src)))"

subsection \<open>Rewriting a container\<close>

definition reexport ::
  "lib \<Rightarrow> v1_codecs \<Rightarrow> vault_reader \<Rightarrow> identity \<Rightarrow> public_identity list \<Rightarrow> export_options \<Rightarrow> 'o dest \<Rightarrow> (world \<times> 'o, unit) op" where
  "reexport L C self sender recipients options out =
     bnd (on_fst (plaintext_reader L self)) (\<lambda>data.
     write_container L C (vr_manifest self) (vr_total_plaintext self) data sender recipients options out)"

definition reexport_to_path ::
  "lib \<Rightarrow> v1_codecs \<Rightarrow> vault_reader \<Rightarrow> identity \<Rightarrow> public_identity list \<Rightarrow> export_options \<Rightarrow> string \<Rightarrow> unit io" where
  "reexport_to_path L C self sender recipients options path =
     written_to_path L path (reexport L C self sender recipients options)"

definition append_dir :: "string \<Rightarrow> string set \<times> entry list \<Rightarrow> (string set \<times> entry list) result" where
  "append_dir d st =
     rbind (normalize_path d) (\<lambda>norm. Inr (push_dir_entry norm (push_ancestor_dirs norm st)))"

definition append_file :: "lib \<Rightarrow> added_file \<Rightarrow> (string set \<times> entry list) \<times> u64 \<Rightarrow> ((string set \<times> entry list) \<times> u64) io" where
  "append_file L f st =
     (case st of (se, offset) \<Rightarrow>
      bnd (lift (normalize_path (af_vault_path f))) (\<lambda>norm.
        if norm \<in> fst se then throw (Vault (''path already exists: '' @ norm))
        else
          let (seen, entries) = push_ancestor_dirs norm se in
          bnd (hash_file L (af_source f)) (\<lambda>(digest, sz).
            let entries = entries @ [\<lparr>en_path = norm, en_kind = File, en_size = sz, en_mtime = af_mtime f,
                                     en_mode = af_mode f, en_blake3 = digest, en_data_offset = offset\<rparr>];
                seen = insert norm seen
            in bnd (lift (ok_or (Format ''size overflow'') (checked_add offset sz))) (\<lambda>offset.
               ret ((seen, entries), offset)))))"

definition open_sources :: "added_file list \<Rightarrow> source list io" where
  "open_sources added = io_fold (\<lambda>f srcs. bnd (std_open_read (af_source f)) (\<lambda>file. ret (srcs @ [file_source (node_bytes file)]))) added []"

definition append_files ::
  "lib \<Rightarrow> v1_codecs \<Rightarrow> vault_reader \<Rightarrow> identity \<Rightarrow> public_identity list \<Rightarrow> export_options \<Rightarrow> added_file list \<Rightarrow> string list \<Rightarrow>
   'o dest \<Rightarrow> (world \<times> 'o, unit) op" where
  "append_files L C self sender recipients options added added_dirs out =
     bnd (lift (rfold append_dir added_dirs (set (map en_path (vr_entries self)), vr_entries self))) (\<lambda>se.
     bnd (on_fst (io_fold (append_file L) added (se, vr_total_plaintext self))) (\<lambda>((seen, entries), offset).
     bnd (on_fst (plaintext_reader L self)) (\<lambda>existing.
     bnd (on_fst (open_sources added)) (\<lambda>sources.
       write_container L C ((vr_manifest self)\<lparr>mf_entries := entries\<rparr>) offset (chain_source (existing # sources))
         sender recipients options out))))"

definition append_files_to_path ::
  "lib \<Rightarrow> v1_codecs \<Rightarrow> vault_reader \<Rightarrow> identity \<Rightarrow> public_identity list \<Rightarrow> export_options \<Rightarrow> added_file list \<Rightarrow> string list \<Rightarrow>
   string \<Rightarrow> unit io" where
  "append_files_to_path L C self sender recipients options added added_dirs path =
     written_to_path L path (append_files L C self sender recipients options added added_dirs)"

text \<open>The survivors with their offsets recomputed, the segments of the old data, and the new size.\<close>

definition survive_step ::
  "(entry \<Rightarrow> bool) \<Rightarrow> entry \<Rightarrow> entry list \<times> (nat \<times> bool) list \<times> u64 \<Rightarrow> (entry list \<times> (nat \<times> bool) list \<times> u64) result" where
  "survive_step removed e st =
     (case st of (entries, segments, offset) \<Rightarrow>
      let segments = (if en_kind e = File then segments @ [(unat (en_size e), \<not> removed e)] else segments) in
      if removed e then Inr (entries, segments, offset)
      else if en_kind e = File
      then rbind (ok_or (Format ''size overflow'') (checked_add offset (en_size e))) (\<lambda>offset'.
             Inr (entries @ [e\<lparr>en_data_offset := offset\<rparr>], segments, offset'))
      else Inr (entries @ [e\<lparr>en_data_offset := 0\<rparr>], segments, offset))"

definition remove_matcher :: "string \<Rightarrow> (string \<times> string) list \<Rightarrow> (string \<times> string) list result" where
  "remove_matcher p matchers = rbind (normalize_path p) (\<lambda>norm. Inr (matchers @ [(norm, norm @ ''/'')]))"

definition is_removed :: "(string \<times> string) list \<Rightarrow> string \<Rightarrow> bool" where
  "is_removed matchers path = list_ex (\<lambda>(exact, pre). path = exact \<or> prefix pre path) matchers"

definition remove_paths ::
  "lib \<Rightarrow> v1_codecs \<Rightarrow> vault_reader \<Rightarrow> identity \<Rightarrow> public_identity list \<Rightarrow> export_options \<Rightarrow> string list \<Rightarrow> 'o dest \<Rightarrow>
   (world \<times> 'o, unit) op" where
  "remove_paths L C self sender recipients options remove out =
     bnd (lift (rfold remove_matcher remove [])) (\<lambda>matchers.
     bnd (lift (rfold (survive_step (\<lambda>e. is_removed matchers (en_path e))) (vr_entries self) ([], [], 0))) (\<lambda>(entries, segments, offset).
     bnd (on_fst (plaintext_reader L self)) (\<lambda>src.
       write_container L C ((vr_manifest self)\<lparr>mf_entries := entries\<rparr>) offset (select_source segments src)
         sender recipients options out)))"

definition remove_paths_to_path ::
  "lib \<Rightarrow> v1_codecs \<Rightarrow> vault_reader \<Rightarrow> identity \<Rightarrow> public_identity list \<Rightarrow> export_options \<Rightarrow> string list \<Rightarrow> string \<Rightarrow> unit io" where
  "remove_paths_to_path L C self sender recipients options remove path =
     written_to_path L path (remove_paths L C self sender recipients options remove)"

definition replace_file ::
  "lib \<Rightarrow> v1_codecs \<Rightarrow> vault_reader \<Rightarrow> identity \<Rightarrow> public_identity list \<Rightarrow> export_options \<Rightarrow> string \<Rightarrow> string \<Rightarrow> int option \<Rightarrow>
   u32 option \<Rightarrow> 'o dest \<Rightarrow> (world \<times> 'o, unit) op" where
  "replace_file L C self sender recipients options path new_source mtime mode out =
     bnd (lift (normalize_path path)) (\<lambda>target.
       if \<not> list_ex (\<lambda>e. en_path e = target \<and> en_kind e = File) (vr_entries self)
       then throw (Vault (''not a file in vault: '' @ target))
       else
         bnd (on_fst (hash_file L new_source)) (\<lambda>(new_blake3, new_size).
         bnd (lift (rfold (survive_step (\<lambda>e. en_kind e = File \<and> en_path e = target)) (vr_entries self) ([], [], 0))) (\<lambda>(entries, segments, offset).
           let entries = entries @ [\<lparr>en_path = target, en_kind = File, en_size = new_size, en_mtime = mtime, en_mode = mode,
                                    en_blake3 = new_blake3, en_data_offset = offset\<rparr>] in
           bnd (lift (ok_or (Format ''size overflow'') (checked_add offset new_size))) (\<lambda>offset.
           bnd (on_fst (plaintext_reader L self)) (\<lambda>src.
           bnd (on_fst (std_open_read new_source)) (\<lambda>file.
             write_container L C ((vr_manifest self)\<lparr>mf_entries := entries\<rparr>) offset
               (chain_source [select_source segments src, file_source (node_bytes file)])
               sender recipients options out))))))"

definition replace_file_to_path ::
  "lib \<Rightarrow> v1_codecs \<Rightarrow> vault_reader \<Rightarrow> identity \<Rightarrow> public_identity list \<Rightarrow> export_options \<Rightarrow> string \<Rightarrow> string \<Rightarrow> int option \<Rightarrow>
   u32 option \<Rightarrow> string \<Rightarrow> unit io" where
  "replace_file_to_path L C self sender recipients options path new_source mtime mode out_path =
     written_to_path L out_path (replace_file L C self sender recipients options path new_source mtime mode)"

subsection \<open>Opening and verifying\<close>

record verified_sender =
  vs_fingerprint :: bytes
  vs_sign_public :: bytes
  vs_kem_public :: bytes
  vs_mldsa_public :: "bytes option"
  vs_mlkem_public :: "bytes option"

definition vs_public :: "verified_sender \<Rightarrow> public_identity" where
  "vs_public s = unnamed_public (vs_sign_public s) (vs_kem_public s) (vs_mldsa_public s) (vs_mlkem_public s)"

text \<open>An open file: the world and the bytes after the cursor, with the hasher when there is one.\<close>

type_synonym open_file = "world \<times> bytes \<times> bytes option"

definition file_read_exact :: "nat \<Rightarrow> (open_file, bytes) op" where
  "file_read_exact n =
     bnd (on_fst (syscall (ret ()))) (\<lambda>_.
     bnd (gets (\<lambda>(w, rest, h). rest)) (\<lambda>rest.
       if length rest < n then throw (Io (IoKind UnexpectedEof))
       else bnd (modify (\<lambda>(w, rest, h). (w, drop n rest, h))) (\<lambda>_. ret (take n rest))))"

definition hasher_update :: "bytes \<Rightarrow> (open_file, unit) op" where
  "hasher_update b = modify (\<lambda>(w, rest, h). (w, rest, map_option (\<lambda>h. h @ b) h))"

definition open_reader_inner ::
  "lib \<Rightarrow> bool \<Rightarrow> v1_codecs \<Rightarrow> string \<Rightarrow> u64 \<Rightarrow> identity \<Rightarrow> (open_file, vault_reader \<times> verified_sender) op" where
  "open_reader_inner L pqc C path file_len i =
     bnd (file_read_exact PREAMBLE_LEN) (\<lambda>preamble.
     bnd (lift (check_preamble preamble)) (\<lambda>header_len.
     bnd (hasher_update preamble) (\<lambda>_.
     if saturating_add (of_nat PREAMBLE_LEN) (ucast header_len) > file_len then throw (Format ''truncated header'')
     else
       bnd (file_read_exact (unat header_len)) (\<lambda>header_bytes.
       bnd (hasher_update header_bytes) (\<lambda>_.
       bnd (lift (from_slice (header_codec1 C) header_bytes)) (\<lambda>h.
       bnd (lift (check_header_fields pqc h)) (\<lambda>suite.
       if hd_data_len h < of_nat TAG_LEN then throw (Format ''bad data length'')
       else
         let manifest_start = of_nat PREAMBLE_LEN + ucast header_len in
         bnd (lift (ok_or (Format ''length overflow'') (checked_add manifest_start (hd_manifest_len h)))) (\<lambda>data_section_offset.
         bnd (lift (ok_or (Format ''length overflow'')
                (Option.bind (checked_add data_section_offset (hd_data_len h)) (\<lambda>x. checked_add x (of_nat (trailer_len pqc suite)))))) (\<lambda>sig_end.
         if file_len \<noteq> sig_end then throw (Format ''container length does not match header'')
         else
           bnd (file_read_exact (unat (hd_manifest_len h))) (\<lambda>enc_manifest.
           bnd (hasher_update enc_manifest) (\<lambda>_.
             let sender = \<lparr>vs_fingerprint = hd_sender_fpr h, vs_sign_public = hd_sender_sign_public h,
                           vs_kem_public = hd_sender_kem_public h, vs_mldsa_public = hd_sender_mldsa_public h,
                           vs_mlkem_public = hd_sender_mlkem_public h\<rparr> in
             if \<not> ct_eq (fingerprint L (vs_public sender)) (hd_sender_fpr h) then throw (Format ''sender fingerprint mismatch'')
             else
               bnd (lift (find_stanza L i h)) (\<lambda>stanza.
               bnd (lift (unwrap_with_identity L stanza i)) (\<lambda>cek.
               bnd (lift (open_with L (suite_aead_alg suite) cek (hd_manifest_nonce h) header_bytes enc_manifest)) (\<lambda>manifest_plaintext.
               bnd (lift (from_slice (manifest_codec1 C) manifest_plaintext)) (\<lambda>manifest.
                 let chunk = ucast (hd_data_chunk_size h) in
                 bnd (lift (validate_manifest_layout manifest chunk (hd_data_len h))) (\<lambda>(total_plaintext, chunks).
                   ret (\<lparr>vr_path = path, vr_manifest = manifest, vr_cek = cek, vr_header_bytes = header_bytes,
                         vr_data_stream_nonce = hd_data_stream_nonce h, vr_data_chunk_size = chunk,
                         vr_data_section_offset = data_section_offset, vr_total_plaintext = total_plaintext,
                         vr_num_chunks = chunks, vr_suite = suite\<rparr>, sender)))))))))))))))))"

text \<open>The length by \<open>metadata\<close>, then the file by \<open>open\<close>.\<close>

definition file_and_len :: "string \<Rightarrow> (u64 \<times> bytes) io" where
  "file_and_len path =
     bnd (std_metadata path) (\<lambda>meta.
       let file_len = len64 (node_bytes meta) in
       if file_len < of_nat PREAMBLE_LEN then throw (Format ''truncated preamble'')
       else bnd (std_open_read path) (\<lambda>file. ret (file_len, node_bytes file)))"

definition open_vault_from_path :: "lib \<Rightarrow> bool \<Rightarrow> v1_codecs \<Rightarrow> string \<Rightarrow> identity \<Rightarrow> vault_reader io" where
  "open_vault_from_path L pqc C path i =
     bnd (file_and_len path) (\<lambda>(file_len, file).
     bnd (with_local (file, None) (open_reader_inner L pqc C path file_len i)) (\<lambda>((reader, sender), _).
       ret reader))"

text \<open>The rest of the body goes through the hasher a buffer at a time.\<close>

function hash_rest :: "nat \<Rightarrow> (open_file, unit) op" where
  "hash_rest remaining =
     (if remaining = 0 then ret ()
      else let want = min remaining DEFAULT_CHUNK_SIZE in
           bnd (file_read_exact want) (\<lambda>b. bnd (hasher_update b) (\<lambda>_. hash_rest (remaining - want))))"
  by pat_completeness auto
termination by (relation "measure id") (auto simp: DEFAULT_CHUNK_SIZE_def)

declare hash_rest.simps [simp del]

definition verify_verified_sender_hybrid :: "lib \<Rightarrow> bool \<Rightarrow> suite_id \<Rightarrow> verified_sender \<Rightarrow> bytes \<Rightarrow> bytes \<Rightarrow> unit result" where
  "verify_verified_sender_hybrid L pqc suite sender body_hash trailer =
     verify_hybrid L pqc suite (vs_mldsa_public sender) body_hash trailer"

definition verify_and_open :: "lib \<Rightarrow> bool \<Rightarrow> v1_codecs \<Rightarrow> string \<Rightarrow> identity \<Rightarrow> (vault_reader \<times> verified_sender) io" where
  "verify_and_open L pqc C path i =
     bnd (file_and_len path) (\<lambda>(file_len, file).
     bnd (with_local (file, Some [])
       (bnd (open_reader_inner L pqc C path file_len i) (\<lambda>(reader, sender).
        bnd (hash_rest (unat (vr_data_len reader))) (\<lambda>_.
        bnd (file_read_exact (trailer_len pqc (vr_suite reader))) (\<lambda>trailer.
        bnd (gets (\<lambda>(w, rest, h). blake3 L (case h of None \<Rightarrow> [] | Some h \<Rightarrow> h))) (\<lambda>body_hash.
        bnd (lift (sign_verify L (vs_sign_public sender) body_hash (take SIGNATURE_LEN trailer))) (\<lambda>_.
        bnd (lift (verify_verified_sender_hybrid L pqc (vr_suite reader) sender body_hash trailer)) (\<lambda>_.
          ret (reader, sender))))))))) (\<lambda>(result, _). ret result))"

end
