(* ===== verification/V1_Roundtrip.thy ===== *)
theory V1_Roundtrip
  imports V1_Container
begin

section \<open>What is written is what is read\<close>

text \<open>
  The reader adapters deliver the bytes their sources stand for; a container that a writer
  completed has the planned sections under a signature that verifies; an importer who is a
  recipient recovers the manifest and the content.
\<close>

subsection \<open>The adapters\<close>

lemma read_take: "0 < n \<Longrightarrow> seg \<noteq> [] \<Longrightarrow> read n (Inr seg # r) = (Inr (take n seg), (if length seg \<le> n then [] else [Inr (drop n seg)]) @ r)"
  by simp

lemma vcr_source_Cons:
  "vcr_source (e # es, pos) = (if ve_kind e = File then file_source (drop pos (ve_content e)) else []) @ vcr_source (es, 0)"
  by (cases es) (simp_all add: vcr_source_def)

lemma vcr_source_Nil [simp]: "vcr_source ([], pos) = []"
  by (simp add: vcr_source_def)

lemma vcr_read_source:
  assumes "0 < n" and "vcr_read n st = (r, st')"
  shows "read n (vcr_source st) = (r, vcr_source st')"
  using assms
proof (induction n st rule: vcr_read.induct)
  case (2 m e es pos)
  show ?case
  proof (cases "ve_kind e \<noteq> File \<or> pos \<ge> length (ve_content e)")
    case True
    with 2 show ?thesis by (auto simp: vcr_source_Cons file_source_def)
  next
    case False
    then have "drop pos (ve_content e) \<noteq> []" by auto
    with False "2.prems" show ?thesis
      by (auto simp: vcr_source_Cons file_source_def Let_def min_def drop_drop add.commute)
  qed
qed auto

lemma chain_source_Cons: "chain_source (r # rs) = takeWhile (\<lambda>x. x \<noteq> Inr []) r @ chain_source rs"
  by (simp add: chain_source_def)

lemma chain_read_source:
  assumes "0 < n" and "chain_read n rs = (x, rs')"
  shows "read n (chain_source rs) = (x, chain_source rs')"
  using assms
proof (induction n rs rule: chain_read.induct)
  case (2 m r rs)
  then show ?case
    by (cases r rule: tame.cases) (auto simp: chain_source_Cons split: if_splits)
qed (auto simp: chain_source_def)

text \<open>A segment consumed in two steps.\<close>

lemma select_source_zero: "select_source ((0, keep) # segs) r = select_source segs r"
  by (simp add: select_source.simps)

lemma select_source_seg:
  assumes "m \<noteq> 0" and "seg \<noteq> []"
  shows "select_source ((m, keep) # segs) (Inr seg # r) =
    (if keep then [Inr (take m seg)] else []) @
    select_source ((m - length seg, keep) # segs) (if length seg \<le> m then r else Inr (drop m seg) # r)"
  using assms by (subst select_source.simps) simp

lemma select_discard:
  assumes "0 < w" and "w \<le> m" and "read w r = (Inr b, r')" and "b \<noteq> []"
  shows "select_source ((m - length b, False) # segs) r' = select_source ((m, False) # segs) r"
proof -
  from assms(3,4) obtain seg rs where r: "r = Inr seg # rs" "b = take w seg" "r' = (if length seg \<le> w then rs else Inr (drop w seg) # rs)"
    by (cases r rule: tame.cases) auto
  show ?thesis
  proof (cases "length seg \<le> w")
    case True
    with r assms show ?thesis by (auto simp: select_source_seg)
  next
    case False
    have d: "drop w seg \<noteq> []" using False by simp
    show ?thesis
    proof (cases "m = w")
      case True
      with False r assms show ?thesis by (auto simp: select_source_seg select_source_zero min_def)
    next
      case m: False
      with False r assms d show ?thesis
        by (simp add: select_source_seg min_def)
    qed
  qed
qed

lemma select_keep:
  assumes "0 < w" and "w \<le> m" and "read w r = (Inr b, r')" and "b \<noteq> []" and "w = min m n"
  shows "read n (select_source ((m, True) # segs) r) = (Inr b, select_source ((m - length b, True) # segs) r')"
proof -
  from assms(3,4) obtain seg rs where r: "r = Inr seg # rs" "b = take w seg" "r' = (if length seg \<le> w then rs else Inr (drop w seg) # rs)"
    by (cases r rule: tame.cases) auto
  have seg: "seg \<noteq> []" "m \<noteq> 0" using assms r(2) by auto
  have b: "take n (take m seg) = b" using assms(5) r(2) by (simp add: min.commute)
  show ?thesis
  proof (cases "length seg \<le> w")
    case True
    then have "length seg \<le> m" "length seg \<le> n" using assms(5) by simp_all
    then show ?thesis using True r seg by (simp add: select_source_seg)
  next
    case long: False
    then have l: "length b = w" using r(2) by simp
    show ?thesis
    proof (cases "m = w")
      case True
      then show ?thesis using long l r seg assms(5) b by (simp add: select_source_seg select_source_zero)
    next
      case False
      then have n: "w = n" "n < m" "n < length seg" using assms(2,5) long by auto
      have "select_source ((m - n, True) # segs) (Inr (drop n seg) # rs) =
          Inr (drop n (take m seg)) # select_source ((m - length seg, True) # segs) (if length seg \<le> m then rs else Inr (drop m seg) # rs)"
        using n by (auto simp: select_source_seg drop_take)
      then show ?thesis using n l r seg b by (simp add: select_source_seg)
    qed
  qed
qed

lemma select_read_source:
  assumes "0 < n" and "select_read n st = (x, st')"
  shows "case x of Inl e \<Rightarrow> \<exists>s. read n (select_source (fst st) (snd st)) = (Inl e, s)
    | Inr b \<Rightarrow> read n (select_source (fst st) (snd st)) = (Inr b, select_source (fst st') (snd st'))"
  using assms
proof (induction n st rule: select_read.induct)
  case (1 n r)
  then show ?case by (auto simp: select_read.simps select_source.simps)
next
  case (2 n m keep segs r)
  show ?case
  proof (cases "m = 0")
    case True
    with 2 show ?thesis by (cases x) (simp_all add: select_read.simps select_source_zero)
  next
    case m: False
    let ?w = "if keep then min m n else min m DEFAULT_CHUNK_SIZE"
    have w: "0 < ?w" "?w \<le> m" using m "2.prems"(1) by (auto simp: DEFAULT_CHUNK_SIZE_def)
    obtain q r' where q: "read ?w r = (q, r')" by force
    have run: "select_read n ((m, keep) # segs, r) =
      (case q of Inl e \<Rightarrow> (Inl e, ((m, keep) # segs, r'))
       | Inr b \<Rightarrow> if b = [] then (Inl (Io (IoKind UnexpectedEof)), ((m, keep) # segs, r'))
           else if keep then (Inr b, ((m - length b, keep) # segs, r')) else select_read n ((m - length b, keep) # segs, r'))"
      using q m w(1) by (cases keep; cases q) (simp_all add: select_read.simps(2) Let_def)
    have fail: "\<exists>s. read n (select_source ((m, keep) # segs) r) = (Inl e, s)"
      if "q = Inl e \<or> q = Inr [] \<and> e = Io (IoKind UnexpectedEof)" for e
      using that q m w(1)
      by (cases r rule: tame.cases) (auto simp: select_source.simps split: if_splits)
    show ?thesis
    proof (cases "\<exists>b. q = Inr b \<and> b \<noteq> []")
      case False
      with fail run "2.prems"(2) show ?thesis by (cases q) (auto split: if_splits)
    next
      case True
      then obtain b where b: "q = Inr b" "b \<noteq> []" by blast
      show ?thesis
      proof (cases keep)
        case True
        with run b "2.prems"(2) select_keep [OF w, of r b r' n segs] q show ?thesis by auto
      next
        case False
        with run b "2.prems"(2) have rest: "select_read n ((m - length b, False) # segs, r') = (x, st')" by simp
        have "select_source ((m - length b, False) # segs) r' = select_source ((m, False) # segs) r"
          using select_discard [OF w, of r b r' segs] q b False by simp
        moreover have "(q, r') = read (min m DEFAULT_CHUNK_SIZE) r" using q False by simp
        ultimately show ?thesis using "2.IH"(2) [OF m False _ b, of r'] False rest "2.prems"(1) by (cases x) simp_all
      qed
    qed
  qed
qed

text \<open>The source of a decrypting reader carries what the reader still has to deliver.\<close>

lemma sdr_source_pending:
  "sdr_ok d \<Longrightarrow> sdr_pending L d = Inr b \<Longrightarrow> flowing (sdr_source L d) \<and> content (sdr_source L d) = b"
proof (induction L d arbitrary: b rule: sdr_source.induct)
  case (1 L d)
  have "0 < MAX_CHUNK_SIZE" by (simp add: MAX_CHUNK_SIZE_def)
  from sdr_read_pending [OF "1.prems" this] obtain out d' b' where r: "sdr_read L MAX_CHUNK_SIZE d = (Inr out, d')"
    and d': "sdr_ok d'" "sdr_pending L d' = Inr b'" "b = out @ b'" "out = [] \<longleftrightarrow> b = []"
    by blast
  show ?case
  proof (cases "out = []")
    case True
    with r d' show ?thesis by (simp add: sdr_source.simps)
  next
    case False
    with "1.IH" [OF r [symmetric] refl False d'(1,2)] r d'(3) show ?thesis
      by (subst (1 2) sdr_source.simps) (simp add: flowing_Cons)
  qed
qed

subsection \<open>What a writer leaves\<close>

lemma encrypt_stream_appends:
  assumes "stream_be32 L" and "tame r" and "encrypt_stream_with L alg key nonce aad sz (r, k) = (Inr n, (r', k'))"
  obtains cts where "stream_params alg key nonce sz" "chunked (aead_encrypt L alg key) nonce aad (chunks_of sz (content r)) cts"
    "sink_out k' = sink_out k @ concat cts" "n = len64 (concat cts)" "length cts \<le> 2 ^ 32" "flowing r" "r' = []"
proof -
  from encrypt_stream_done [OF assms(3,2)] have d: "stream_params alg key nonce sz" "flowing r" "r' = []"
    and run: "encrypt_stream_with L alg key nonce aad sz (r, k\<lparr>sink_faults := \<lambda>_. None\<rparr>) = (Inr n, ([], k'\<lparr>sink_faults := \<lambda>_. None\<rparr>))"
    by blast+
  have "faultless (k\<lparr>sink_faults := \<lambda>_. None\<rparr>)" by (simp add: faultless_def)
  from encrypt_stream_success [OF assms(1) d(1,2) this run] d that show thesis by auto
qed

lemma write_all_eq_Inr: "write_all b k = (Inr (), k') \<Longrightarrow> sink_out k' = sink_out k @ b"
  by (auto simp: write_all_def Let_def split: option.splits)

lemma hw_write_all_Inr:
  assumes "hw_write_all b (src, hw) = (Inr x, (src', hw'))"
  shows "src' = src \<and> sink_out (hw_inner hw') = sink_out (hw_inner hw) @ b \<and> hw_hasher hw' = hw_hasher hw @ b"
  using assms write_all_eq_Inr [of b "hw_inner hw"]
  by (cases "write_all b (hw_inner hw)") (auto simp: hashing_def)

lemma hashing_Inr:
  "hashing m (src, hw) = (Inr x, (src', hw')) \<Longrightarrow>
     m (src, hw_inner hw) = (Inr x, (src', hw_inner hw')) \<and>
     hw_hasher hw' = hw_hasher hw @ drop (length (sink_out (hw_inner hw))) (sink_out (hw_inner hw'))"
  by (auto simp: hashing_def split: prod.splits)

definition preamble_of :: "bytes \<Rightarrow> bytes" where
  "preamble_of hb = MAGIC_V1 @ to_be_bytes FORMAT_VERSION @ to_be_bytes (of_nat (length hb) :: u32)"

text \<open>The sections of a container written from a plan and the content of its data.\<close>

definition body_of :: "lib \<Rightarrow> container_plan \<Rightarrow> bytes \<Rightarrow> bytes \<Rightarrow> bytes list \<Rightarrow> bool" where
  "body_of L p data em cts \<longleftrightarrow>
     seal_with L (cp_alg p) (cp_cek p) (cp_manifest_nonce p) (cp_header_bytes p) (cp_manifest_plaintext p) = Inr em \<and>
     len64 em = cp_manifest_len p \<and>
     stream_params (cp_alg p) (cp_cek p) (cp_data_stream_nonce p) (cp_chunk_size p) \<and>
     chunked (aead_encrypt L (cp_alg p) (cp_cek p)) (cp_data_stream_nonce p) (cp_header_bytes p)
       (chunks_of (cp_chunk_size p) data) cts \<and>
     len64 (concat cts) = cp_data_len p \<and> length cts \<le> 2 ^ 32"

definition body_bytes :: "container_plan \<Rightarrow> bytes \<Rightarrow> bytes list \<Rightarrow> bytes" where
  "body_bytes p em cts = preamble_of (cp_header_bytes p) @ cp_header_bytes p @ em @ concat cts"

lemma write_body_written:
  assumes "write_body L p (src, hw_new k) = (Inr (), (src', hw))" and "tame src" and "stream_be32 L"
  obtains em cts where "body_of L p (content src) em cts" "flowing src"
    "hw_hasher hw = body_bytes p em cts" "sink_out (hw_inner hw) = sink_out k @ body_bytes p em cts"
proof -
  let ?start = "preamble_of (cp_header_bytes p) @ cp_header_bytes p"
  from assms(1) obtain h5 em written where
    em: "seal_with L (cp_alg p) (cp_cek p) (cp_manifest_nonce p) (cp_header_bytes p) (cp_manifest_plaintext p) = Inr em"
        "len64 em = cp_manifest_len p"
    and w5: "sink_out (hw_inner h5) = sink_out k @ ?start @ em" "hw_hasher h5 = ?start @ em"
    and enc: "hashing (encrypt_stream_with L (cp_alg p) (cp_cek p) (cp_data_stream_nonce p) (cp_header_bytes p) (cp_chunk_size p)) (src, h5)
        = (Inr written, (src', hw))" and written: "written = cp_data_len p"
    unfolding write_body_def
    by (auto simp: bnd_eq_Inr hw_new_def preamble_of_def split: if_splits dest!: hw_write_all_Inr)
  note enc' = hashing_Inr [OF enc]
  then have run: "encrypt_stream_with L (cp_alg p) (cp_cek p) (cp_data_stream_nonce p) (cp_header_bytes p) (cp_chunk_size p)
      (src, hw_inner h5) = (Inr written, (src', hw_inner hw))" by simp
  from encrypt_stream_appends [OF assms(3,2) run] obtain cts where
    c: "stream_params (cp_alg p) (cp_cek p) (cp_data_stream_nonce p) (cp_chunk_size p)"
      "chunked (aead_encrypt L (cp_alg p) (cp_cek p)) (cp_data_stream_nonce p) (cp_header_bytes p) (chunks_of (cp_chunk_size p) (content src)) cts"
      "sink_out (hw_inner hw) = sink_out (hw_inner h5) @ concat cts" "written = len64 (concat cts)" "length cts \<le> 2 ^ 32" "flowing src" by blast
  show thesis
  proof (rule that)
    show "body_of L p (content src) em cts" using em c written by (simp add: body_of_def)
    show "hw_hasher hw = body_bytes p em cts" "sink_out (hw_inner hw) = sink_out k @ body_bytes p em cts"
      using enc' w5 c(3) by (simp_all add: body_bytes_def)
  qed (rule c)
qed

definition signatures :: "lib \<Rightarrow> container_plan \<Rightarrow> bytes \<Rightarrow> bytes \<Rightarrow> bool" where
  "signatures L p body sigs \<longleftrightarrow>
     (if is_hybrid (cp_suite p)
      then \<exists>s. sign_pqc L (cp_sender p) (blake3 L body) = Inr s \<and> sigs = id_sign_message L (cp_sender p) (blake3 L body) @ s
      else sigs = id_sign_message L (cp_sender p) (blake3 L body))"

lemma plan_write_written:
  assumes "plan_write L p (src, k) = (Inr (), (src', k'))" and "tame src" and "stream_be32 L"
  obtains em cts sigs where "body_of L p (content src) em cts" "flowing src" "signatures L p (body_bytes p em cts) sigs"
    "sink_out k' = sink_out k @ body_bytes p em cts @ sigs"
proof -
  from assms(1) obtain s hw where w: "write_body L p (src, hw_new k) = (Inr (), (s, hw))"
    and rest: "bnd (on_snd (write_all (id_sign_message L (cp_sender p) (blake3 L (hw_hasher hw))))) (\<lambda>_.
         bnd (if is_hybrid (cp_suite p)
              then bnd (lift (sign_pqc L (cp_sender p) (blake3 L (hw_hasher hw)))) (\<lambda>pq_signature. on_snd (write_all pq_signature))
              else ret ()) (\<lambda>_.
         on_snd (write_all []))) (s, hw_inner hw) = (Inr (), (src', k'))"
    by (auto simp: plan_write_def Let_def split: prod.splits sum.splits)
  from write_body_written [OF w assms(2,3)] obtain em cts where b: "body_of L p (content src) em cts" "flowing src"
    "hw_hasher hw = body_bytes p em cts" "sink_out (hw_inner hw) = sink_out k @ body_bytes p em cts" by blast
  have "\<exists>sigs. signatures L p (body_bytes p em cts) sigs \<and> sink_out k' = sink_out (hw_inner hw) @ sigs"
    using rest unfolding b(3) signatures_def
    by (cases "is_hybrid (cp_suite p)") (auto simp: bnd_eq_Inr on_snd_eq simp del: on_snd_run dest!: write_all_eq_Inr)
  with that [OF b(1,2)] b(4) show thesis by auto
qed

subsection \<open>Cutting a container into its sections\<close>

lemma slice_append: "length a = i \<Longrightarrow> length a + length x = j \<Longrightarrow> slice i j (a @ x @ c) = x"
  by (auto simp: slice_def)

lemma length_preamble [simp]: "length (preamble_of hb) = PREAMBLE_LEN"
  by (simp add: preamble_of_def MAGIC_V1_def PREAMBLE_LEN_def)

lemma check_preamble_of:
  assumes "length hb \<le> MAX_CONTAINER_HEADER_LEN"
  shows "check_preamble (preamble_of hb @ r) = Inr (of_nat (length hb))"
proof -
  let ?v = "to_be_bytes FORMAT_VERSION" and ?l = "to_be_bytes (of_nat (length hb) :: u32)"
  have len: "length MAGIC_V1 = 5" "length ?v = 2" "length ?l = 4" by (simp_all add: MAGIC_V1_def)
  have "slice 0 5 (preamble_of hb @ r) = MAGIC_V1"
    using slice_append [of "[]" 0 MAGIC_V1 5 "?v @ ?l @ r"] len by (simp add: preamble_of_def)
  moreover have "slice 5 7 (preamble_of hb @ r) = ?v"
    using slice_append [of MAGIC_V1 5 ?v 7 "?l @ r"] len by (simp add: preamble_of_def)
  moreover have "slice 7 11 (preamble_of hb @ r) = ?l"
    using slice_append [of "MAGIC_V1 @ ?v" 7 ?l 11 r] len by (simp add: preamble_of_def)
  moreover have "unat (of_nat (length hb) :: u32) = length hb"
    using assms by (simp add: unat_of_nat MAX_CONTAINER_HEADER_LEN_def)
  ultimately show ?thesis using assms by (simp add: check_preamble_def)
qed

lemma checked_add_nat:
  "unat a + unat b < 2 ^ 64 \<Longrightarrow> \<exists>c. checked_add (a :: u64) b = Some c \<and> unat c = unat a + unat b"
  by (auto simp: checked_add_def unat_word_ariths)

lemma import_parts_sections:
  assumes "length hb \<le> MAX_CONTAINER_HEADER_LEN" and h: "from_slice (header_codec1 C) hb = Inr h"
    and "check_header_fields pqc h = Inr suite"
    and m: "unat (hd_manifest_len h) = length em" and d: "unat (hd_data_len h) = length data" and "TAG_LEN \<le> length data"
    and t: "length sigs = trailer_len pqc suite"
    and bound: "PREAMBLE_LEN + length hb + length em + length data + length sigs < 2 ^ 64"
    and body: "body = preamble_of hb @ hb @ em @ data"
    and "sign_verify L (hd_sender_sign_public h) (blake3 L body) (take SIGNATURE_LEN sigs) = Inr ()"
    and "verify_hybrid_signature L pqc suite h (blake3 L body) sigs = Inr ()"
    and "fingerprint L (unnamed_public (hd_sender_sign_public h) (hd_sender_kem_public h)
           (hd_sender_mldsa_public h) (hd_sender_mlkem_public h)) = hd_sender_fpr h"
  shows "import_parts L pqc C (body @ sigs) = Inr \<lparr>pt_header = h, pt_header_bytes = hb, pt_suite = suite,
      pt_enc_manifest = em, pt_enc_data = data\<rparr>"
proof -
  let ?b = "body @ sigs" and ?H = "PREAMBLE_LEN + length hb"
  have uh: "unat (of_nat (length hb) :: u32) = length hb"
    using assms(1) by (simp add: unat_of_nat MAX_CONTAINER_HEADER_LEN_def)
  have "ucast (of_nat (length hb) :: u32) = (of_nat (length hb) :: u64)" using uh by (metis of_nat_unat)
  then have uH: "unat (ucast (of_nat (length hb) :: u32) :: u64) = length hb" using bound by (simp only: unat_len64)
  obtain ms where ms: "checked_add (of_nat PREAMBLE_LEN :: u64) (ucast (of_nat (length hb) :: u32)) = Some ms" "unat ms = ?H"
    using checked_add_nat [of "of_nat PREAMBLE_LEN" "ucast (of_nat (length hb) :: u32)"] uH bound by (auto simp: PREAMBLE_LEN_def)
  obtain me where me: "checked_add ms (hd_manifest_len h) = Some me" "unat me = ?H + length em"
    using checked_add_nat [of ms "hd_manifest_len h"] ms(2) m bound by auto
  obtain de where de: "checked_add me (hd_data_len h) = Some de" "unat de = length body"
    using checked_add_nat [of me "hd_data_len h"] me(2) d bound by (auto simp: body)
  have ut: "unat (of_nat (trailer_len pqc suite) :: u64) = length sigs" using t bound by (simp add: unat_of_nat)
  obtain se where se: "checked_add de (of_nat (trailer_len pqc suite)) = Some se" "unat se = length ?b"
    using checked_add_nat [of de "of_nat (trailer_len pqc suite)"] de(2) ut bound by (auto simp: body)
  have slices: "slice PREAMBLE_LEN ?H ?b = hb" "slice ?H (?H + length em) ?b = em"
    "slice (?H + length em) (length body) ?b = data" "slice 0 (length body) ?b = body"
    "slice (length body) (length body + SIGNATURE_LEN) ?b = take SIGNATURE_LEN sigs"
    "slice (length body) (length ?b) ?b = sigs"
    by (simp_all add: slice_def body)
  have "\<not> hd_data_len h < of_nat TAG_LEN" using d assms(6) by (simp add: word_less_nat_alt TAG_LEN_def)
  moreover have "unat (hd_data_len h) \<le> length ?b" using d by (simp add: body)
  moreover have "check_preamble ?b = Inr (of_nat (length hb))" using check_preamble_of [OF assms(1)] by (simp add: body)
  ultimately show ?thesis
    unfolding import_parts_def
    using ms me de se slices h assms(3,10,11,12) by (simp add: body Let_def)
qed

subsection \<open>The plan\<close>

text \<open>The sizes that the types of a header fix.\<close>

definition stanza_typed :: "recipient_stanza \<Rightarrow> bool" where
  "stanza_typed s \<longleftrightarrow> length (recipient_fpr s) = 32 \<and> length (ephemeral_public s) = 32"

definition header_typed :: "container_header \<Rightarrow> bool" where
  "header_typed h \<longleftrightarrow>
     length (hd_vault_id h) = 16 \<and> length (hd_sender_sign_public h) = 32 \<and> length (hd_sender_kem_public h) = 32 \<and>
     length (hd_sender_fpr h) = 32 \<and> list_all stanza_typed (hd_recipients h)"

definition planned_header :: "lib \<Rightarrow> container_plan \<Rightarrow> bytes \<Rightarrow> recipient_stanza list \<Rightarrow> container_header" where
  "planned_header L p vault_id stanzas =
     \<lparr>hd_suite_id = to_u16 (cp_suite p), hd_vault_id = vault_id,
      hd_sender_sign_public = ed25519_public L (id_sign (cp_sender p)), hd_sender_kem_public = x25519_public L (id_kem (cp_sender p)),
      hd_sender_mldsa_public = map_option pq_public (id_mldsa (cp_sender p)),
      hd_sender_mlkem_public = map_option pq_public (id_mlkem (cp_sender p)),
      hd_sender_fpr = id_fingerprint L (cp_sender p), hd_recipients = stanzas,
      hd_manifest_nonce = cp_manifest_nonce p, hd_manifest_len = cp_manifest_len p,
      hd_data_stream_nonce = cp_data_stream_nonce p, hd_data_chunk_size = of_nat (cp_chunk_size p), hd_data_len = cp_data_len p\<rparr>"

definition wrapped_to :: "lib \<Rightarrow> container_plan \<Rightarrow> public_identity \<Rightarrow> recipient_stanza \<Rightarrow> bool" where
  "wrapped_to L p r s \<longleftrightarrow> (\<exists>w w'. wrap_for_recipient L (cp_cek p) r (cp_suite p) w = (Inr s, w'))"

lemma ret_eq_Inr: "ret x w = (Inr y, w') \<longleftrightarrow> y = x \<and> w' = w"
  by auto

lemma wrap_fold:
  assumes "io_fold (\<lambda>r stanzas. bnd (wrap_for_recipient L cek r suite) (\<lambda>s. ret (stanzas @ [s]))) rs st w = (Inr st', w')"
  shows "\<exists>new. st' = st @ new \<and> list_all2 (\<lambda>r s. \<exists>w w'. wrap_for_recipient L cek r suite w = (Inr s, w')) rs new"
  using assms
proof (induction rs arbitrary: st w)
  case (Cons r rs)
  from Cons.prems obtain s w1 where s: "wrap_for_recipient L cek r suite w = (Inr s, w1)"
    and rest: "io_fold (\<lambda>r stanzas. bnd (wrap_for_recipient L cek r suite) (\<lambda>s. ret (stanzas @ [s]))) rs (st @ [s]) w1 = (Inr st', w')"
    by (simp only: io_fold.simps bnd_eq_Inr ret_eq_Inr) blast
  from Cons.IH [OF rest] s show ?case by fastforce
qed simp

lemma random_vec_step: "random_vec n w = (Inr b, w') \<Longrightarrow> rng_fills w \<Longrightarrow> length b = n \<and> rng_fills w'"
  and symkey_step: "symkey_random w = (Inr b, w') \<Longrightarrow> rng_fills w \<Longrightarrow> length b = 32 \<and> rng_fills w'"
  using random_array_step [of n w b w'] random_array_step [of 32 w b w']
  by (simp_all add: random_vec_def symkey_random_def random_array_def)

lemma plan_new_planned:
  assumes "plan_new L C m n sender rs options w = (Inr p, w')" and "rng_fills w"
  obtains vault_id stanzas where
    "to_vec (manifest_codec1 C) m = Inr (cp_manifest_plaintext p)"
    "to_vec (header_codec1 C) (planned_header L p vault_id stanzas) = Inr (cp_header_bytes p)"
    "length (cp_header_bytes p) \<le> MAX_CONTAINER_HEADER_LEN"
    "list_all2 (wrapped_to L p) rs stanzas" "length vault_id = 16" "length (cp_cek p) = 32"
    "length (cp_manifest_nonce p) = nonce_len (cp_alg p)" "length (cp_data_stream_nonce p) = stream_nonce_len (cp_alg p)"
    "cp_alg p = suite_aead_alg (cp_suite p)" "cp_suite p = eo_suite options" "cp_sender p = sender"
    "cp_chunk_size p = eo_chunk_size options" "cp_manifest_len p = of_nat (length (cp_manifest_plaintext p) + TAG_LEN)"
    "cp_data_len p = data_ciphertext_len n (of_nat (cp_chunk_size p))"
    "is_hybrid (cp_suite p) \<Longrightarrow> id_mldsa sender \<noteq> None \<and> id_mlkem sender \<noteq> None"
proof -
  from assms(1) obtain pt cek w1 mn w2 sn w3 vid w4 stanzas w5 hb where
    pt: "to_vec (manifest_codec1 C) m = Inr pt" and cek: "symkey_random w = (Inr cek, w1)"
    and mn: "random_vec (nonce_len (suite_aead_alg (eo_suite options))) w1 = (Inr mn, w2)"
    and sn: "random_vec (stream_nonce_len (suite_aead_alg (eo_suite options))) w2 = (Inr sn, w3)"
    and vid: "random_array 16 w3 = (Inr vid, w4)"
    and st: "io_fold (\<lambda>r stanzas. bnd (wrap_for_recipient L cek r (eo_suite options)) (\<lambda>s. ret (stanzas @ [s]))) rs [] w4 = (Inr stanzas, w5)"
    and p: "p = \<lparr>cp_sender = sender, cp_suite = eo_suite options, cp_alg = suite_aead_alg (eo_suite options), cp_cek = cek,
        cp_header_bytes = hb, cp_manifest_plaintext = pt, cp_manifest_nonce = mn, cp_data_stream_nonce = sn,
        cp_manifest_len = of_nat (length pt + TAG_LEN), cp_data_len = data_ciphertext_len n (of_nat (eo_chunk_size options)),
        cp_chunk_size = eo_chunk_size options\<rparr>"
    and hb: "to_vec (header_codec1 C) (planned_header L p vid stanzas) = Inr hb" "length hb \<le> MAX_CONTAINER_HEADER_LEN"
    and hy: "is_hybrid (eo_suite options) \<Longrightarrow> id_mldsa sender \<noteq> None \<and> id_mlkem sender \<noteq> None"
    unfolding plan_new_def
    by (auto simp: bnd_eq_Inr Let_def planned_header_def split: if_splits)
  note r1 = symkey_step [OF cek assms(2)]
  note r2 = random_vec_step [OF mn conjunct2 [OF r1]]
  note r3 = random_vec_step [OF sn conjunct2 [OF r2]]
  note r4 = random_array_step [OF vid conjunct2 [OF r3]]
  have "list_all2 (wrapped_to L p) rs stanzas" using wrap_fold [OF st] by (simp add: wrapped_to_def [abs_def] p)
  from that [OF _ _ _ this, of vid] show thesis using pt hb hy r1 r2 r3 r4 by (simp add: p)
qed

subsection \<open>The sections of a written container\<close>

lemma wrapped_stanza:
  assumes "wrapped_to L p r s" and "blake3_lengths L" and "x25519_spec L"
  shows "recipient_fpr s = fingerprint L r \<and> stanza_typed s"
proof -
  from assms(1) obtain w e shared w1 where "ephemeral_agree L (pi_kem_public r) w = (Inr (shared, e), w1)"
    and s: "recipient_fpr s = fingerprint L r" "ephemeral_public s = e"
    by (auto simp: wrapped_to_def wrap_for_recipient_def bnd_eq_Inr)
  then obtain x where "x25519_public L x = e" by (auto simp: ephemeral_agree_def bnd_eq_Inr Let_def split: if_splits)
  then have "length e = 32" using assms(3) by (auto simp: x25519_spec_def)
  then show ?thesis using s blake3_lengthsD(1) [OF assms(2)] by (simp add: stanza_typed_def fingerprint_def)
qed

lemma length_concat_le: "\<forall>c\<in>set cs. length c \<le> k \<Longrightarrow> length (concat cs) \<le> length cs * k"
  by (induction cs) auto

lemma chunks_cover: "0 < c \<Longrightarrow> length data \<le> length (chunks_of c data) * c"
  using length_concat_le [of "chunks_of c data" c] chunks_of_lengths [of c _ data] by simp

definition container_of :: "lib \<Rightarrow> v1_codecs \<Rightarrow> container_plan \<Rightarrow> bytes \<Rightarrow> recipient_stanza list \<Rightarrow> bytes \<Rightarrow> bytes \<Rightarrow> bytes list \<Rightarrow> bytes \<Rightarrow> bool" where
  "container_of L C p vid stanzas data em cts sigs \<longleftrightarrow>
     to_vec (header_codec1 C) (planned_header L p vid stanzas) = Inr (cp_header_bytes p) \<and> length vid = 16 \<and>
     length (cp_header_bytes p) \<le> MAX_CONTAINER_HEADER_LEN \<and> length (cp_manifest_plaintext p) + TAG_LEN \<le> unat MAX_MANIFEST_LEN \<and>
     cp_alg p = suite_aead_alg (cp_suite p) \<and> length (cp_manifest_nonce p) = nonce_len (cp_alg p) \<and>
     cp_manifest_len p = of_nat (length (cp_manifest_plaintext p) + TAG_LEN) \<and>
     (is_hybrid (cp_suite p) \<longrightarrow> id_mldsa (cp_sender p) \<noteq> None) \<and>
     list_all stanza_typed stanzas \<and> body_of L p data em cts \<and> length (chunks_of (cp_chunk_size p) data) < 2 ^ 32 \<and>
     signatures L p (body_bytes p em cts) sigs"

text \<open>The sections have the lengths that the header declares, and the whole container the length that
  was announced for it.\<close>

lemma container_lengths:
  assumes c: "container_of L C p vid stanzas data em cts sigs"
    and "aead_correct L" and "ed25519_spec L" and "mldsa_spec L" and "identity_ok L (cp_sender p)"
  shows "unat (cp_manifest_len p) = length em" and "TAG_LEN \<le> length em" and "length em \<le> unat MAX_MANIFEST_LEN"
    and "unat (cp_data_len p) = length (concat cts)" and "TAG_LEN \<le> length (concat cts)" and "length (concat cts) < 2 ^ 57"
    and "length sigs = trailer_len True (cp_suite p)"
proof -
  let ?cs = "chunks_of (cp_chunk_size p) data"
  from c have ml: "length (cp_manifest_plaintext p) + TAG_LEN \<le> unat MAX_MANIFEST_LEN"
    and cm: "cp_manifest_len p = of_nat (length (cp_manifest_plaintext p) + TAG_LEN)"
    and b: "body_of L p data em cts" and n: "length ?cs < 2 ^ 32" and sg: "signatures L p (body_bytes p em cts) sigs"
    unfolding container_of_def by blast+
  from b have em: "seal_with L (cp_alg p) (cp_cek p) (cp_manifest_nonce p) (cp_header_bytes p) (cp_manifest_plaintext p) = Inr em"
    and sp: "stream_params (cp_alg p) (cp_cek p) (cp_data_stream_nonce p) (cp_chunk_size p)"
    and ch: "chunked (aead_encrypt L (cp_alg p) (cp_cek p)) (cp_data_stream_nonce p) (cp_header_bytes p) ?cs cts"
    and dl: "len64 (concat cts) = cp_data_len p" unfolding body_of_def by blast+
  have cs: "0 < cp_chunk_size p" "cp_chunk_size p \<le> MAX_CHUNK_SIZE" using sp by (simp_all add: stream_params_def)
  have le: "length em = length (cp_manifest_plaintext p) + TAG_LEN"
    using em aead_correctD(2) [OF assms(2)] by (auto simp: seal_with_def result_simps split: if_splits)
  then show "TAG_LEN \<le> length em" "length em \<le> unat MAX_MANIFEST_LEN" using ml by simp_all
  show "unat (cp_manifest_len p) = length em" using cm le ml by (simp add: unat_of_nat MAX_MANIFEST_LEN_def del: of_nat_add)
  have ld: "length (concat cts) = length data + TAG_LEN * length ?cs"
    using length_concat_sealed [OF chunked_sealed(2) [OF assms(2) ch cs(1)]] by simp
  have "length ?cs * cp_chunk_size p \<le> 2 ^ 32 * MAX_CHUNK_SIZE" using n cs(2) by (intro mult_le_mono) simp_all
  then show ld2: "length (concat cts) < 2 ^ 57" using chunks_cover [OF cs(1), of data] n ld by (simp add: MAX_CHUNK_SIZE_def TAG_LEN_def)
  show "unat (cp_data_len p) = length (concat cts)" using ld2 dl unat_len64 [of "concat cts"] by simp
  have "1 \<le> length ?cs" by (simp add: Suc_le_eq)
  then show "TAG_LEN \<le> length (concat cts)" using ld by (simp add: TAG_LEN_def)
  show "length sigs = trailer_len True (cp_suite p)"
    using sg assms(3-5)
    by (auto simp: signatures_def trailer_len_def hybrid_sig_len_def id_sign_message_def ed25519_spec_def SIGNATURE_LEN_def
        sign_pqc_def mldsa_signature_def mldsa_key_from_seed_def mldsa_spec_def identity_ok_def result_simps split: if_splits)
qed

lemma container_length:
  assumes c: "container_of L C p vid stanzas data em cts sigs"
    and "aead_correct L" and "ed25519_spec L" and "mldsa_spec L" and "identity_ok L (cp_sender p)"
  shows "length (body_bytes p em cts @ sigs) = unat (container_len True p)" and "length (body_bytes p em cts @ sigs) < 2 ^ 64"
proof -
  note l = container_lengths [OF assms]
  have hl: "length (cp_header_bytes p) \<le> MAX_CONTAINER_HEADER_LEN" using c by (simp add: container_of_def)
  have t: "trailer_len True (cp_suite p) \<le> 3373" by (simp add: trailer_len_def SIGNATURE_LEN_def hybrid_sig_len_def)
  let ?n = "PREAMBLE_LEN + length (cp_header_bytes p) + length em + length (concat cts) + trailer_len True (cp_suite p)"
  have n: "length (body_bytes p em cts @ sigs) = ?n" using l(7) by (simp add: body_bytes_def)
  have small: "?n < 2 ^ 64" using hl t l(3,6) by (simp add: PREAMBLE_LEN_def MAX_CONTAINER_HEADER_LEN_def MAX_MANIFEST_LEN_def)
  have "container_len True p = of_nat ?n"
    by (simp add: container_len_def flip: l(1,4))
  then have "unat (container_len True p) = ?n" using small by (simp add: unat_of_nat del: of_nat_add)
  then show "length (body_bytes p em cts @ sigs) = unat (container_len True p)" and "length (body_bytes p em cts @ sigs) < 2 ^ 64"
    using n small by simp_all
qed

lemma signatures_verify:
  assumes sg: "signatures L p body sigs" and hy: "is_hybrid (cp_suite p) \<longrightarrow> id_mldsa (cp_sender p) \<noteq> None"
    and "ed25519_spec L" and "mldsa_spec L" and "identity_ok L (cp_sender p)"
  shows "sign_verify L (ed25519_public L (id_sign (cp_sender p))) (blake3 L body) (take SIGNATURE_LEN sigs) = Inr ()"
    and "verify_hybrid L True (cp_suite p) (map_option pq_public (id_mldsa (cp_sender p))) (blake3 L body) sigs = Inr ()"
proof -
  have "take SIGNATURE_LEN sigs = id_sign_message L (cp_sender p) (blake3 L body)"
    using sg assms(3) by (auto simp: signatures_def id_sign_message_def ed25519_spec_def SIGNATURE_LEN_def split: if_splits)
  then show "sign_verify L (ed25519_public L (id_sign (cp_sender p))) (blake3 L body) (take SIGNATURE_LEN sigs) = Inr ()"
    using sign_verify_sign [OF assms(3)] by (simp add: id_sign_message_def)
  show "verify_hybrid L True (cp_suite p) (map_option pq_public (id_mldsa (cp_sender p))) (blake3 L body) sigs = Inr ()"
  proof (cases "is_hybrid (cp_suite p)")
    case True
    with hy obtain m where m: "id_mldsa (cp_sender p) = Some m" by auto
    with sg True obtain s where s: "mldsa_signature L (pq_seed m) (blake3 L body) = Inr s"
      "sigs = id_sign_message L (cp_sender p) (blake3 L body) @ s"
      by (auto simp: signatures_def sign_pqc_def result_simps)
    from m assms(5) have pq: "length (pq_seed m) = 32" "pq_public m = mldsa_public L (pq_seed m)" by (simp_all add: identity_ok_def)
    have "mldsa_check L (pq_public m) (blake3 L body) s = Inr ()"
      using mldsa_sign_check [OF assms(4) s(1)] pq by (simp add: mldsa_public_from_seed_def mldsa_key_from_seed_def)
    moreover have "drop SIGNATURE_LEN sigs = s" "\<not> length sigs < SIGNATURE_LEN"
      using s(2) assms(3) by (simp_all add: id_sign_message_def ed25519_spec_def SIGNATURE_LEN_def)
    ultimately show ?thesis using True m by (simp add: verify_hybrid_def)
  qed (simp add: verify_hybrid_def)
qed

lemma container_parts:
  assumes c: "container_of L C p vid stanzas data em cts sigs" and "codec_ok header_typed (header_codec1 C)"
    and "aead_correct L" and "ed25519_spec L" and "mldsa_spec L" and "x25519_spec L" and "blake3_lengths L"
    and "identity_ok L (cp_sender p)"
  shows "import_parts L True C (body_bytes p em cts @ sigs) =
    Inr \<lparr>pt_header = planned_header L p vid stanzas, pt_header_bytes = cp_header_bytes p, pt_suite = cp_suite p,
         pt_enc_manifest = em, pt_enc_data = concat cts\<rparr>"
proof -
  let ?h = "planned_header L p vid stanzas" and ?body = "body_bytes p em cts"
  from c have enc: "to_vec (header_codec1 C) ?h = Inr (cp_header_bytes p)" and vid: "length vid = 16"
    and hl: "length (cp_header_bytes p) \<le> MAX_CONTAINER_HEADER_LEN"
    and alg: "cp_alg p = suite_aead_alg (cp_suite p)" and mn: "length (cp_manifest_nonce p) = nonce_len (cp_alg p)"
    and hy: "is_hybrid (cp_suite p) \<longrightarrow> id_mldsa (cp_sender p) \<noteq> None" and st: "list_all stanza_typed stanzas"
    and sp: "stream_params (cp_alg p) (cp_cek p) (cp_data_stream_nonce p) (cp_chunk_size p)" and sg: "signatures L p ?body sigs"
    unfolding container_of_def body_of_def by blast+
  note l = container_lengths [OF c assms(3-5,8)] and total = container_length [OF c assms(3-5,8)]
  have cs: "0 < cp_chunk_size p" "cp_chunk_size p \<le> MAX_CHUNK_SIZE" using sp by (simp_all add: stream_params_def)
  have uc: "unat (of_nat (cp_chunk_size p) :: u32) = cp_chunk_size p" using cs(2) by (simp add: unat_of_nat MAX_CHUNK_SIZE_def)
  have typed: "header_typed ?h"
    using vid st assms(4,6) blake3_lengthsD(1) [OF assms(7)]
    by (simp add: header_typed_def planned_header_def ed25519_spec_def x25519_spec_def id_fingerprint_def fingerprint_def)
  show ?thesis
  proof (rule import_parts_sections [OF hl])
    show "from_slice (header_codec1 C) (cp_header_bytes p) = Inr ?h" by (rule from_slice_to_vec [OF assms(2) typed enc])
    have "of_nat (cp_chunk_size p) \<noteq> (0 :: u32)" using uc cs(1) by (metis less_numeral_extra(3) unat_0)
    moreover have "\<not> cp_manifest_len p < of_nat TAG_LEN" using l(1,2) by (simp add: word_less_nat_alt TAG_LEN_def)
    moreover have "\<not> MAX_MANIFEST_LEN < cp_manifest_len p" using l(1,3) by (simp add: word_less_nat_alt)
    ultimately show "check_header_fields True ?h = Inr (cp_suite p)"
      using mn sp cs(2) uc by (simp add: check_header_fields_def planned_header_def alg stream_params_def)
    show "PREAMBLE_LEN + length (cp_header_bytes p) + length em + length (concat cts) + length sigs < 2 ^ 64"
      using total(2) by (simp add: body_bytes_def)
    show "?body = preamble_of (cp_header_bytes p) @ cp_header_bytes p @ em @ concat cts" by (simp add: body_bytes_def)
    show "sign_verify L (hd_sender_sign_public ?h) (blake3 L ?body) (take SIGNATURE_LEN sigs) = Inr ()"
      "verify_hybrid_signature L True (cp_suite p) ?h (blake3 L ?body) sigs = Inr ()"
      using signatures_verify [OF sg hy assms(4,5,8)] by (simp_all add: planned_header_def verify_hybrid_signature_def)
    show "fingerprint L (unnamed_public (hd_sender_sign_public ?h) (hd_sender_kem_public ?h)
           (hd_sender_mldsa_public ?h) (hd_sender_mlkem_public ?h)) = hd_sender_fpr ?h"
      by (simp add: planned_header_def unnamed_public_def id_fingerprint_def fingerprint_def fingerprint_input_def id_public_def)
  qed (use l in \<open>simp_all add: planned_header_def\<close>)
qed

subsection \<open>The recipient's side\<close>

lemma find_first:
  assumes "list_all2 R rs ss" and "\<And>r s. R r s \<Longrightarrow> f s = g r" and "r \<in> set rs" and "g r = x"
  obtains r' s where "find (\<lambda>s. f s = x) ss = Some s" "r' \<in> set rs" "g r' = x" "R r' s"
proof -
  from assms(1,3) obtain s where "s \<in> set ss" "R r s" by (metis list_all2_conv_all_nth in_set_conv_nth)
  then have "\<exists>s\<in>set ss. f s = x" using assms(2,4) by auto
  then obtain s' where s': "find (\<lambda>s. f s = x) ss = Some s'" by (metis (mono_tags, lifting) find_None_iff not_None_eq)
  then obtain i where i: "i < length ss" "s' = ss ! i" "f s' = x" by (auto simp: find_Some_iff)
  with assms(1) have "R (rs ! i) s'" "rs ! i \<in> set rs" by (auto simp: list_all2_conv_all_nth)
  with that s' i(3) assms(2) show thesis by metis
qed

lemma wrap_same_keys:
  "same_keys r r' \<Longrightarrow> wrap_for_recipient L cek r suite = wrap_for_recipient L cek r' suite"
proof -
  assume k: "same_keys r r'"
  then have "fingerprint L r = fingerprint L r'" "pi_kem_public r = pi_kem_public r'"
    by (simp_all add: same_keys_def fingerprint_def fingerprint_input_def)
  moreover have "wrap_hybrid_kwk L shared e r = wrap_hybrid_kwk L shared e r'" for shared e
    using k by (simp add: wrap_hybrid_kwk_def same_keys_def)
  ultimately show ?thesis by (simp add: wrap_for_recipient_def cong: if_cong)
qed

text \<open>\<open>i\<close> is one of the recipients, and nobody with other keys has its fingerprint.\<close>

definition addressed :: "lib \<Rightarrow> identity \<Rightarrow> public_identity list \<Rightarrow> bool" where
  "addressed L i rs \<longleftrightarrow>
     (\<exists>r\<in>set rs. same_keys r (id_public L i)) \<and>
     (\<forall>r\<in>set rs. fingerprint L r = id_fingerprint L i \<longrightarrow> same_keys r (id_public L i))"

lemma recipient_key:
  assumes "addressed L i rs" and "list_all2 (wrapped_to L p) rs stanzas" and "identity_ok L i" and "length (cp_cek p) = 32"
    and "x25519_spec L" and "mlkem_spec L" and "aead_correct L" and "blake3_lengths L"
  shows "\<exists>s. find_stanza L i (planned_header L p vid stanzas) = Inr s \<and> unwrap_with_identity L s i = Inr (cp_cek p)"
proof -
  from assms(1) obtain r where r: "r \<in> set rs" "same_keys r (id_public L i)" unfolding addressed_def by blast
  then have fr: "fingerprint L r = id_fingerprint L i"
    by (simp add: same_keys_def id_fingerprint_def fingerprint_def fingerprint_input_def)
  have R: "recipient_fpr s = fingerprint L r" if "wrapped_to L p r s" for r s
    using wrapped_stanza [OF that assms(8,5)] by blast
  obtain r' s where s: "find (\<lambda>s. recipient_fpr s = id_fingerprint L i) stanzas = Some s" "r' \<in> set rs"
    "fingerprint L r' = id_fingerprint L i" "wrapped_to L p r' s"
    by (rule find_first [OF assms(2), of recipient_fpr "fingerprint L" r, OF R r(1) fr])
  with assms(1) have k: "same_keys r' (id_public L i)" unfolding addressed_def by blast
  from s(4) obtain w w' where "wrap_for_recipient L (cp_cek p) (id_public L i) (cp_suite p) w = (Inr s, w')"
    unfolding wrapped_to_def wrap_same_keys [OF k] by blast
  from wrap_unwrap [OF this assms(3,4,5,6,7)] s(1) show ?thesis
    by (simp add: find_stanza_def planned_header_def)
qed

text \<open>The reader of sealed chunks delivers what was sealed.\<close>

lemma sealed_source:
  assumes "aead_correct L" and "stream_be32 L" and "stream_params alg key nonce c"
    and "chunked (aead_encrypt L alg key) nonce aad (chunks_of c data) cts" and "length (chunks_of c data) < 2 ^ 32"
  obtains d where "sdr_new_with alg key nonce aad (file_source (concat cts)) c = Inr d"
    and "flowing (sdr_source L d)" and "content (sdr_source L d) = data"
proof -
  have c: "0 < c" using assms(3) by (simp add: stream_params_def)
  have fl: "flowing (file_source (concat cts))" "content (file_source (concat cts)) = concat cts" by simp_all
  obtain d where d: "sdr_new_with alg key nonce aad (file_source (concat cts)) c = Inr d"
    using assms(3) read_chunk_flowing [OF fl(1), of "c + TAG_LEN"]
    by (auto simp: sdr_new_with_def stream_params_def stream_new_ok Let_def)
  from sdr_new_pending [OF d fl(1), of L] have ok: "sdr_ok d"
    and pend: "sdr_pending L d = rbind (run_chunks (decrypt_next L aad) (decrypt_last L aad)
        (stream_start alg key nonce) (chunks_of (c + TAG_LEN) (concat cts))) (\<lambda>pts. Inr (concat pts))"
    by simp_all
  note sealed = chunked_sealed [OF assms(1,4) c]
  have "run_chunks (decrypt_next L aad) (decrypt_last L aad) (stream_start alg key nonce) cts = Inr (chunks_of c data)"
    using run_chunked(2) [OF assms(2), of nonce alg aad key cts "chunks_of c data"] sealed(1) assms(3-5)
    by (auto simp: stream_steps stream_params_def chunked_def)
  then have "sdr_pending L d = Inr data" unfolding pend sealed(3) by simp
  from sdr_source_pending [OF ok this] show thesis using that [OF d] by blast
qed

lemma import_written:
  assumes c: "container_of L C p vid stanzas data em cts sigs" and "codec_ok header_typed (header_codec1 C)"
    and "aead_correct L" and "stream_be32 L" and "ed25519_spec L" and "mldsa_spec L" and "x25519_spec L" and "mlkem_spec L"
    and "blake3_lengths L" and "identity_ok L (cp_sender p)" and "identity_ok L i"
    and "addressed L i rs" and "list_all2 (wrapped_to L p) rs stanzas"
    and "codec_ok VM (manifest_codec1 C)" and "VM m" and "to_vec (manifest_codec1 C) m = Inr (cp_manifest_plaintext p)"
  shows "\<exists>s. flowing s \<and> content s = data \<and>
    import_vault L True C (body_bytes p em cts @ sigs) i =
      rbind (validate_manifest_layout m (of_nat (cp_chunk_size p)) (cp_data_len p)) (\<lambda>_.
      rbind (fst (reconstruct_vault_streaming L m s)) (\<lambda>v.
        Inr \<lparr>iv_vault = v, iv_suite = cp_suite p, iv_sender_fingerprint = id_fingerprint L (cp_sender p),
             iv_sender_sign_public = ed25519_public L (id_sign (cp_sender p)),
             iv_sender_kem_public = x25519_public L (id_kem (cp_sender p)),
             iv_sender_mldsa_public = map_option pq_public (id_mldsa (cp_sender p)),
             iv_sender_mlkem_public = map_option pq_public (id_mlkem (cp_sender p))\<rparr>))"
proof -
  let ?h = "planned_header L p vid stanzas" and ?cs = "chunks_of (cp_chunk_size p) data"
  note parts = container_parts [OF c assms(2,3,5,6,7,9,10)]
  from c have alg: "cp_alg p = suite_aead_alg (cp_suite p)" and b: "body_of L p data em cts" and n: "length ?cs < 2 ^ 32"
    unfolding container_of_def by blast+
  from b have em: "seal_with L (cp_alg p) (cp_cek p) (cp_manifest_nonce p) (cp_header_bytes p) (cp_manifest_plaintext p) = Inr em"
    and sp: "stream_params (cp_alg p) (cp_cek p) (cp_data_stream_nonce p) (cp_chunk_size p)"
    and ch: "chunked (aead_encrypt L (cp_alg p) (cp_cek p)) (cp_data_stream_nonce p) (cp_header_bytes p) ?cs cts"
    unfolding body_of_def by blast+
  have cs: "0 < cp_chunk_size p" "cp_chunk_size p \<le> MAX_CHUNK_SIZE" and kl: "length (cp_cek p) = 32"
    using sp by (simp_all add: stream_params_def)
  have uc: "unat (of_nat (cp_chunk_size p) :: u32) = cp_chunk_size p" using cs(2) by (simp add: unat_of_nat MAX_CHUNK_SIZE_def)
  then have uc64: "ucast (of_nat (cp_chunk_size p) :: u32) = (of_nat (cp_chunk_size p) :: u64)" by (metis of_nat_unat)
  obtain s where s: "find_stanza L i ?h = Inr s" "unwrap_with_identity L s i = Inr (cp_cek p)"
    using recipient_key [OF assms(12,13,11) kl assms(7,8,3,9)] by blast
  have op: "open_with L (cp_alg p) (cp_cek p) (cp_manifest_nonce p) (cp_header_bytes p) em = Inr (cp_manifest_plaintext p)"
    using em aead_correctD(1) [OF assms(3)] by (auto simp: seal_with_def open_with_def result_simps split: if_splits)
  have mf: "from_slice (manifest_codec1 C) (cp_manifest_plaintext p) = Inr m"
    by (rule from_slice_to_vec [OF assms(14-16)])
  obtain d where d: "sdr_new_with (cp_alg p) (cp_cek p) (cp_data_stream_nonce p) (cp_header_bytes p) (file_source (concat cts)) (cp_chunk_size p) = Inr d"
    and "flowing (sdr_source L d)" "content (sdr_source L d) = data" using sealed_source [OF assms(3,4) sp ch n] by blast
  moreover have "import_vault L True C (body_bytes p em cts @ sigs) i =
      rbind (validate_manifest_layout m (of_nat (cp_chunk_size p)) (cp_data_len p)) (\<lambda>_.
      rbind (fst (reconstruct_vault_streaming L m (sdr_source L d))) (\<lambda>v.
        Inr \<lparr>iv_vault = v, iv_suite = cp_suite p, iv_sender_fingerprint = id_fingerprint L (cp_sender p),
             iv_sender_sign_public = ed25519_public L (id_sign (cp_sender p)),
             iv_sender_kem_public = x25519_public L (id_kem (cp_sender p)),
             iv_sender_mldsa_public = map_option pq_public (id_mldsa (cp_sender p)),
             iv_sender_mlkem_public = map_option pq_public (id_mlkem (cp_sender p))\<rparr>))"
    unfolding import_vault_def parts
    using s op mf d uc by (simp add: Let_def alg) (simp add: planned_header_def uc64)
  ultimately show ?thesis by blast
qed

subsection \<open>The vault behind a manifest\<close>

definition file_data :: "vault_entry \<Rightarrow> bytes" where
  "file_data e = (if ve_kind e = File then ve_content e else [])"

definition vault_data :: "vault_entry list \<Rightarrow> bytes" where
  "vault_data es = concat (map file_data es)"

definition entry_good :: "vault_entry \<Rightarrow> bool" where
  "entry_good e \<longleftrightarrow> normalize_path (ve_path e) = Inr (ve_path e) \<and> (ve_kind e = Dir \<longrightarrow> ve_content e = [])"

definition vault_good :: "vault \<Rightarrow> bool" where
  "vault_good v \<longleftrightarrow>
     list_all entry_good (vault_entries v) \<and> distinct (map ve_path (vault_entries v)) \<and>
     check_tree_shape (vault_shape v) = Inr () \<and> length (vault_entries v) \<le> MAX_MANIFEST_ENTRIES"

text \<open>An importer normalizes the names of a container. So a vault arrives with clean names, provided that each is one
  that normalization lets through.\<close>

definition named_good :: "vault_entry \<Rightarrow> bool" where
  "named_good e \<longleftrightarrow> is_ok (normalize_path (ve_path e)) \<and> (ve_kind e = Dir \<longrightarrow> ve_content e = [])"

definition cleaned :: "vault_entry \<Rightarrow> vault_entry" where
  "cleaned e = (case normalize_path (ve_path e) of Inl _ \<Rightarrow> e | Inr n \<Rightarrow> e\<lparr>ve_path := n\<rparr>)"

definition cleaned_vault :: "vault \<Rightarrow> vault" where
  "cleaned_vault v = v\<lparr>vault_entries := map cleaned (vault_entries v)\<rparr>"

lemma cleaned_simps [simp]:
  "ve_kind (cleaned e) = ve_kind e" "ve_content (cleaned e) = ve_content e" "ve_mtime (cleaned e) = ve_mtime e"
  "ve_mode (cleaned e) = ve_mode e"
  by (auto simp: cleaned_def split: sum.split)

lemma cleaned_path: "normalize_path (ve_path e) = Inr n \<Longrightarrow> ve_path (cleaned e) = n"
  by (simp add: cleaned_def)

lemma good_cleaned: "entry_good e \<Longrightarrow> named_good e \<and> cleaned e = e"
  by (simp add: entry_good_def named_good_def cleaned_def)

lemma vault_good_cleaned:
  assumes "vault_good v"
  shows "list_all named_good (vault_entries v)" and "cleaned_vault v = v"
proof -
  have good: "\<forall>e\<in>set (vault_entries v). entry_good e" using assms by (simp add: vault_good_def list_all_iff)
  then show "list_all named_good (vault_entries v)" using good_cleaned by (simp add: list_all_iff)
  from good have "map cleaned (vault_entries v) = vault_entries v" using good_cleaned by (intro map_idI) blast
  then show "cleaned_vault v = v" by (simp add: cleaned_vault_def)
qed

lemma vault_data_simps [simp]:
  "vault_data [] = []" "vault_data (e # es) = file_data e @ vault_data es" "vault_data (es @ es2) = vault_data es @ vault_data es2"
  by (simp_all add: vault_data_def)

lemma vcr_source_data: "flowing (vcr_source (es, 0)) \<and> content (vcr_source (es, 0)) = vault_data es"
proof (induction es)
  case (Cons e es)
  then show ?case by (auto simp: vcr_source_Cons file_data_def file_source_def flowing_Cons)
qed simp

lemma saturating_add_nat: "k + n < 2 ^ 64 \<Longrightarrow> saturating_add (of_nat k :: u64) (of_nat n) = of_nat (k + n)"
  by (simp add: saturating_add_def checked_add_def unat_of_nat)

lemma checked_add_of_nat: "k + n < 2 ^ 64 \<Longrightarrow> checked_add (of_nat k :: u64) (of_nat n) = Some (of_nat (k + n))"
  by (simp add: checked_add_def unat_of_nat)

definition dir_of :: "vault_entry \<Rightarrow> entry" where
  "dir_of e = \<lparr>en_path = ve_path e, en_kind = Dir, en_size = 0, en_mtime = ve_mtime e, en_mode = ve_mode e,
     en_blake3 = replicate 32 0, en_data_offset = 0\<rparr>"

definition file_of :: "lib \<Rightarrow> u64 \<Rightarrow> vault_entry \<Rightarrow> entry" where
  "file_of L off e = \<lparr>en_path = ve_path e, en_kind = File, en_size = len64 (ve_content e), en_mtime = ve_mtime e, en_mode = ve_mode e,
     en_blake3 = blake3 L (ve_content e), en_data_offset = off\<rparr>"

lemma build_entries_Cons:
  assumes "k + length (file_data e) < 2 ^ 64"
  shows "build_entries L (of_nat k) (e # es) =
    (if ve_kind e = File then file_of L (of_nat k) e else dir_of e) # build_entries L (of_nat (k + length (file_data e))) es"
  using saturating_add_nat [of k "length (ve_content e)"] assms
  by (cases "ve_kind e") (simp_all add: Let_def file_of_def dir_of_def ve_size_def file_data_def del: of_nat_add)

lemma total_size_data:
  assumes "\<And>e. e \<in> set (vault_entries v) \<Longrightarrow> ve_kind e = Dir \<Longrightarrow> ve_content e = []"
  shows "total_size v = len64 (vault_data (vault_entries v))"
proof -
  have "sum_list (map ve_size es) = len64 (vault_data es)" if "\<forall>e\<in>set es. ve_kind e = Dir \<longrightarrow> ve_content e = []" for es
    using that by (induction es) (auto simp: ve_size_def file_data_def intro: entry_kind.exhaust)
  then show ?thesis using assms by (simp add: total_size_def)
qed

lemma read_exact_flowing:
  assumes "flowing s" and "n \<le> length (content s)"
  shows "\<exists>s'. read_exact n s = (Inr (take n (content s)), s') \<and> flowing s' \<and> content s' = drop n (content s)"
  using read_chunk_flowing [OF assms(1), of n] assms(2) by (auto simp: read_exact_def bnd_def)

lemma reconstruct_entry_run:
  assumes "named_good e" and "k + length (file_data e) < 2 ^ 64" and "flowing s" and "content s = file_data e @ rest"
  shows "\<exists>s'. reconstruct_entry L (if ve_kind e = File then file_of L (of_nat k) e else dir_of e) (of_nat k, v) s
      = (Inr (of_nat (k + length (file_data e)), push_entry (cleaned e) v), s') \<and> flowing s' \<and> content s' = rest"
proof -
  obtain n where n: "normalize_path (ve_path e) = Inr n" using assms(1) by (auto simp: named_good_def is_ok_iff)
  note path = cleaned_path [OF n]
  show ?thesis
  proof (cases "ve_kind e")
  case File
  then have d: "file_data e = ve_content e" by (simp add: file_data_def)
  have u: "unat (len64 (ve_content e)) = length (ve_content e)" using assms(2) d by simp
  from read_exact_flowing [OF assms(3), of "length (ve_content e)"] assms(4) d obtain s' where
    "read_exact (length (ve_content e)) s = (Inr (ve_content e), s')" "flowing s'" "content s' = rest" by auto
  moreover have "push_entry \<lparr>ve_path = n, ve_kind = File, ve_mtime = ve_mtime e, ve_mode = ve_mode e, ve_content = ve_content e\<rparr> v
      = push_entry (cleaned e) v"
    using File n by (cases e) (simp add: cleaned_def)
  ultimately show ?thesis using File n checked_add_of_nat [OF assms(2)] u d
    by (auto simp: reconstruct_entry_def file_of_def bnd_def del: of_nat_add)
next
  case Dir
  with assms(1) n have "push_entry \<lparr>ve_path = n, ve_kind = Dir, ve_mtime = ve_mtime e, ve_mode = ve_mode e, ve_content = []\<rparr> v
      = push_entry (cleaned e) v"
    by (cases e) (simp add: named_good_def cleaned_def)
  then show ?thesis using Dir n assms by (auto simp: reconstruct_entry_def dir_of_def file_data_def bnd_def)
  qed
qed

lemma reconstruct_loop:
  assumes "list_all named_good es" and "k + length (vault_data es) < 2 ^ 64" and "flowing s" and "content s = vault_data es @ rest"
  shows "\<exists>s'. io_fold (reconstruct_entry L) (build_entries L (of_nat k) es) (of_nat k, v) s
      = (Inr (of_nat (k + length (vault_data es)), v\<lparr>vault_entries := vault_entries v @ map cleaned es\<rparr>), s') \<and> flowing s' \<and> content s' = rest"
  using assms
proof (induction es arbitrary: k v s)
  case (Cons e es)
  have b: "k + length (file_data e) < 2 ^ 64" using Cons.prems(2) by simp
  from reconstruct_entry_run [OF _ b Cons.prems(3), of "vault_data es @ rest" L v] Cons.prems(1,4) obtain s1 where
    r: "reconstruct_entry L (if ve_kind e = File then file_of L (of_nat k) e else dir_of e) (of_nat k, v) s
      = (Inr (of_nat (k + length (file_data e)), push_entry (cleaned e) v), s1)" "flowing s1" "content s1 = vault_data es @ rest" by auto
  from Cons.IH [of "k + length (file_data e)" s1 "push_entry (cleaned e) v"] Cons.prems r(2,3) obtain s' where
    "io_fold (reconstruct_entry L) (build_entries L (of_nat (k + length (file_data e))) es) (of_nat (k + length (file_data e)), push_entry (cleaned e) v) s1
      = (Inr (of_nat (k + length (file_data e) + length (vault_data es)), (push_entry (cleaned e) v)\<lparr>vault_entries := vault_entries (push_entry (cleaned e) v) @ map cleaned es\<rparr>), s')"
    "flowing s'" "content s' = rest" by (auto simp: add.assoc)
  then show ?case unfolding build_entries_Cons [OF b] using r(1)
    by (simp add: bnd_def push_entry_def add.assoc del: of_nat_add build_entries.simps)
qed auto

lemma reconstruct_built:
  assumes "list_all named_good (vault_entries v)" and "length (vault_data (vault_entries v)) < 2 ^ 64"
    and "flowing s" and "content s = vault_data (vault_entries v)"
  shows "fst (reconstruct_vault_streaming L (build_manifest L v) s) = Inr (cleaned_vault v)"
proof -
  let ?v0 = "vault_new (vault_name v) (vault_created_at v)"
  from reconstruct_loop [OF assms(1), of 0 s "[]" L ?v0] assms(2-4) obtain s' where
    r: "io_fold (reconstruct_entry L) (build_entries L 0 (vault_entries v)) (0, ?v0) s
      = (Inr (of_nat (length (vault_data (vault_entries v))), ?v0\<lparr>vault_entries := vault_entries ?v0 @ map cleaned (vault_entries v)\<rparr>), s')"
      "flowing s'" "content s' = []" by auto
  have "s' = []" using r(2,3) flowing_content_Nil by blast
  then show ?thesis using r(1)
    by (simp add: reconstruct_vault_streaming_def build_manifest_def bnd_def vault_new_def cleaned_vault_def)
qed

subsection \<open>The layout of a built manifest is valid\<close>

lemma layout_loop:
  assumes "list_all named_good es" and "distinct (map (ve_path \<circ> cleaned) es)" and "seen \<inter> set (map (ve_path \<circ> cleaned) es) = {}"
    and "k + length (vault_data es) < 2 ^ 64"
  shows "rfold layout_step (build_entries L (of_nat k) es) (of_nat k, seen, shape)
    = Inr (of_nat (k + length (vault_data es)), seen \<union> set (map (ve_path \<circ> cleaned) es),
        shape @ map (\<lambda>e. (ve_path (cleaned e), ve_kind e)) es)"
  using assms
proof (induction es arbitrary: k seen shape)
  case (Cons e es)
  obtain n where n: "normalize_path (ve_path e) = Inr n" using Cons.prems(1) by (auto simp: named_good_def is_ok_iff)
  note path = cleaned_path [OF n]
  have b: "k + length (file_data e) < 2 ^ 64" using Cons.prems(4) by simp
  have "layout_step (if ve_kind e = File then file_of L (of_nat k) e else dir_of e) (of_nat k, seen, shape)
      = Inr (of_nat (k + length (file_data e)), insert n seen, shape @ [(n, ve_kind e)])"
    using Cons.prems n path b checked_add_of_nat [of k "length (ve_content e)"]
    by (cases "ve_kind e") (auto simp: layout_step_def file_of_def dir_of_def file_data_def Let_def simp del: of_nat_add)
  moreover have "rfold layout_step (build_entries L (of_nat (k + length (file_data e))) es)
      (of_nat (k + length (file_data e)), insert n seen, shape @ [(n, ve_kind e)])
    = Inr (of_nat (k + length (file_data e) + length (vault_data es)), insert n seen \<union> set (map (ve_path \<circ> cleaned) es),
           (shape @ [(n, ve_kind e)]) @ map (\<lambda>e. (ve_path (cleaned e), ve_kind e)) es)"
    by (rule Cons.IH) (use Cons.prems path in auto)
  ultimately show ?case unfolding build_entries_Cons [OF b]
    by (simp add: add.assoc path del: of_nat_add build_entries.simps)
qed simp

text \<open>The arithmetic of a data section of at most \<open>2 ^ 32 - 1\<close> chunks.\<close>

lemma data_section:
  assumes "0 < c" and "c \<le> MAX_CHUNK_SIZE" and "length (chunks_of c data) < 2 ^ 32"
  shows "unat (num_chunks (len64 data) (of_nat c)) = length (chunks_of c data)"
    and "length data < 2 ^ 56"
    and "unat (data_ciphertext_len (len64 data) (of_nat c)) = length data + TAG_LEN * length (chunks_of c data)"
    and "checked_add (len64 data) (saturating_mul (num_chunks (len64 data) (of_nat c)) (of_nat TAG_LEN))
           = Some (data_ciphertext_len (len64 data) (of_nat c))"
proof -
  have "length (chunks_of c data) * c \<le> 2 ^ 32 * MAX_CHUNK_SIZE" using assms by (intro mult_le_mono) simp_all
  moreover have "length (chunks_of c data) * c \<noteq> 2 ^ 32 * MAX_CHUNK_SIZE"
  proof -
    have "length (chunks_of c data) * c \<le> length (chunks_of c data) * MAX_CHUNK_SIZE" using assms(2) by simp
    also have "\<dots> < 2 ^ 32 * MAX_CHUNK_SIZE" using assms(3) by (intro mult_strict_right_mono) (simp_all add: MAX_CHUNK_SIZE_def)
    finally show ?thesis by simp
  qed
  ultimately show d: "length data < 2 ^ 56" using chunks_cover [OF assms(1), of data] by (simp add: MAX_CHUNK_SIZE_def)
  then have ud: "unat (len64 data) = length data" by simp
  have uc: "unat (of_nat c :: u64) = c" using assms(2) by (simp add: unat_of_nat MAX_CHUNK_SIZE_def)
  have z: "len64 data = 0 \<longleftrightarrow> data = []" using d by (auto dest: arg_cong [where f = unat] simp: ud)
  have "0 < unat (of_nat c :: u64)" using uc assms(1) by simp
  from unat_num_chunks [OF this, of "len64 data"]
  show n: "unat (num_chunks (len64 data) (of_nat c)) = length (chunks_of c data)"
    unfolding uc ud z length_chunks_of [OF assms(1)] .
  have m: "unat (num_chunks (len64 data) (of_nat c) * of_nat TAG_LEN) = TAG_LEN * length (chunks_of c data)"
    using n assms(3) by (simp add: unat_word_ariths TAG_LEN_def)
  show s: "unat (data_ciphertext_len (len64 data) (of_nat c)) = length data + TAG_LEN * length (chunks_of c data)"
    using m ud d assms(3) by (simp add: data_ciphertext_len_def unat_word_ariths TAG_LEN_def)
  have "saturating_mul (num_chunks (len64 data) (of_nat c)) (of_nat TAG_LEN) = num_chunks (len64 data) (of_nat c) * of_nat TAG_LEN"
    using n assms(3) by (simp add: saturating_mul_def checked_mul_def TAG_LEN_def)
  then show "checked_add (len64 data) (saturating_mul (num_chunks (len64 data) (of_nat c)) (of_nat TAG_LEN))
           = Some (data_ciphertext_len (len64 data) (of_nat c))"
    using m ud d assms(3) by (simp add: checked_add_def data_ciphertext_len_def TAG_LEN_def)
qed

lemma validate_built:
  assumes "list_all named_good (vault_entries v)" "vault_good (cleaned_vault v)" and "data = vault_data (vault_entries v)"
    and "0 < c" and "c \<le> MAX_CHUNK_SIZE" and "length (chunks_of c data) < 2 ^ 32"
  shows "validate_manifest_layout (build_manifest L v) (of_nat c) (data_ciphertext_len (len64 data) (of_nat c))
    = Inr (len64 data, of_nat (length (chunks_of c data)))"
proof -
  note ds = data_section [OF assms(4-6)]
  have uc: "(of_nat c :: u64) \<noteq> 0" using assms(4,5) by (simp add: of_nat_eq_0_iff MAX_CHUNK_SIZE_def word_of_nat_eq_0_iff nat_dvd_not_less)
  have es: "length (build_entries L k es) = length es" for k es
    by (induction es arbitrary: k) (auto simp: Let_def split: entry_kind.splits)
  from assms(2) have good: "distinct (map (ve_path \<circ> cleaned) (vault_entries v))"
    "check_tree_shape (map (\<lambda>e. (ve_path (cleaned e), ve_kind e)) (vault_entries v)) = Inr ()" "length (vault_entries v) \<le> MAX_MANIFEST_ENTRIES"
    by (simp_all add: vault_good_def vault_shape_def cleaned_vault_def comp_def)
  from layout_loop [OF assms(1) good(1), of "{}" 0 L "[]"] ds(2) assms(3)
  have "rfold layout_step (build_entries L 0 (vault_entries v)) (0, {}, []) =
      Inr (len64 data, set (map (ve_path \<circ> cleaned) (vault_entries v)), map (\<lambda>e. (ve_path (cleaned e), ve_kind e)) (vault_entries v))" by simp
  moreover have "\<not> num_chunks (len64 data) (of_nat c) > 0xFFFFFFFF" using ds(1) assms(6) by (simp add: word_less_nat_alt)
  moreover have "ucast (num_chunks (len64 data) (of_nat c)) = (of_nat (unat (num_chunks (len64 data) (of_nat c))) :: u32)" by simp
  then have "ucast (num_chunks (len64 data) (of_nat c)) = (of_nat (length (chunks_of c data)) :: u32)" unfolding ds(1) .
  ultimately show ?thesis using uc es good ds(4)
    by (simp add: validate_manifest_layout_def build_manifest_def Let_def)
qed

subsection \<open>From writer to importer\<close>

text \<open>What the library documents, and what an export needs.\<close>

definition crypto_ok :: "lib \<Rightarrow> bool" where
  "crypto_ok L \<longleftrightarrow>
     aead_correct L \<and> stream_be32 L \<and> ed25519_spec L \<and> mldsa_spec L \<and> x25519_spec L \<and> mlkem_spec L \<and> blake3_lengths L"

definition time_typed :: "int \<Rightarrow> bool" where
  "time_typed t \<longleftrightarrow> - (2 ^ 63) \<le> t \<and> t < 2 ^ 63"

definition manifest_typed :: "manifest \<Rightarrow> bool" where
  "manifest_typed m \<longleftrightarrow>
     time_typed (mf_created_at m) \<and>
     list_all (\<lambda>e. length (en_blake3 e) = 32 \<and> pred_option time_typed (en_mtime e)) (mf_entries m)"

definition v1_codecs_ok :: "v1_codecs \<Rightarrow> bool" where
  "v1_codecs_ok C \<longleftrightarrow> codec_ok header_typed (header_codec1 C) \<and> codec_ok manifest_typed (manifest_codec1 C)"

definition vault_typed :: "vault \<Rightarrow> bool" where
  "vault_typed v \<longleftrightarrow>
     time_typed (vault_created_at v) \<and> list_all (\<lambda>e. pred_option time_typed (ve_mtime e)) (vault_entries v)"

lemma build_manifest_typed:
  assumes "vault_typed v" and "blake3_lengths L"
  shows "manifest_typed (build_manifest L v)"
proof -
  have "list_all (\<lambda>e. length (en_blake3 e) = 32 \<and> pred_option time_typed (en_mtime e)) (build_entries L k es)"
    if "list_all (\<lambda>e. pred_option time_typed (ve_mtime e)) es" for k es
    using that blake3_lengthsD(1) [OF assms(2)] by (induction es arbitrary: k) (auto simp: Let_def split: entry_kind.splits)
  then show ?thesis using assms(1) by (simp add: manifest_typed_def vault_typed_def build_manifest_def)
qed

text \<open>The vault fits a container of chunks of the given size: its content in fewer than \<open>2 ^ 32\<close>
  chunks and its manifest in the limit.\<close>

definition fits :: "lib \<Rightarrow> v1_codecs \<Rightarrow> nat \<Rightarrow> vault \<Rightarrow> bool" where
  "fits L C c v \<longleftrightarrow>
     length (chunks_of c (vault_data (vault_entries v))) < 2 ^ 32 \<and>
     (\<forall>pt. to_vec (manifest_codec1 C) (build_manifest L v) = Inr pt \<longrightarrow> length pt + TAG_LEN \<le> unat MAX_MANIFEST_LEN)"

lemma to_buffer_Inr:
  assumes "to_buffer m src (w, buf) = (Inr (), (w', b))"
  obtains src' k where "m (src, \<lparr>sink_out = buf, sink_calls = 0, sink_faults = (\<lambda>_. None)\<rparr>) = (Inr (), (src', k))" "b = sink_out k" "w' = w"
  using assms by (auto simp: to_buffer_def split: prod.splits)

text \<open>What a plan wrote is a container of the sections it planned.\<close>

lemma planned_container:
  assumes "plan_new L C m n sender rs options w = (Inr p, w1)" and "to_buffer (plan_write L p) data (w1, []) = (Inr (), (w', b))"
    and "rng_fills w" and "tame data" and "crypto_ok L"
    and "\<And>pt. to_vec (manifest_codec1 C) m = Inr pt \<Longrightarrow> length pt + TAG_LEN \<le> unat MAX_MANIFEST_LEN"
    and "length (chunks_of (eo_chunk_size options) (content data)) < 2 ^ 32"
  obtains vid stanzas em cts sigs where "container_of L C p vid stanzas (content data) em cts sigs"
    "b = body_bytes p em cts @ sigs" "list_all2 (wrapped_to L p) rs stanzas"
    "to_vec (manifest_codec1 C) m = Inr (cp_manifest_plaintext p)"
    "cp_suite p = eo_suite options" "cp_sender p = sender" "cp_chunk_size p = eo_chunk_size options"
    "cp_data_len p = data_ciphertext_len n (of_nat (eo_chunk_size options))" "flowing data"
proof -
  from to_buffer_Inr [OF assms(2)] obtain src' k where
    k: "plan_write L p (data, \<lparr>sink_out = [], sink_calls = 0, sink_faults = (\<lambda>_. None)\<rparr>) = (Inr (), (src', k))" "b = sink_out k" by metis
  have be: "stream_be32 L" using assms(5) by (simp add: crypto_ok_def)
  from plan_write_written [OF k(1) assms(4) be] obtain em cts sigs where w: "body_of L p (content data) em cts" "flowing data"
    "signatures L p (body_bytes p em cts) sigs" "b = body_bytes p em cts @ sigs" using k(2) by (metis append_Nil sink.select_convs(1))
  from plan_new_planned [OF assms(1,3)] obtain vid stanzas where
    q: "to_vec (manifest_codec1 C) m = Inr (cp_manifest_plaintext p)"
    "to_vec (header_codec1 C) (planned_header L p vid stanzas) = Inr (cp_header_bytes p)"
    "length (cp_header_bytes p) \<le> MAX_CONTAINER_HEADER_LEN"
    "list_all2 (wrapped_to L p) rs stanzas" "length vid = 16" 
    "length (cp_manifest_nonce p) = nonce_len (cp_alg p)"
    "cp_alg p = suite_aead_alg (cp_suite p)" "cp_suite p = eo_suite options" "cp_sender p = sender"
    "cp_chunk_size p = eo_chunk_size options" "cp_manifest_len p = of_nat (length (cp_manifest_plaintext p) + TAG_LEN)"
    "cp_data_len p = data_ciphertext_len n (of_nat (cp_chunk_size p))"
    "is_hybrid (cp_suite p) \<Longrightarrow> id_mldsa sender \<noteq> None \<and> id_mlkem sender \<noteq> None" by metis
  have "list_all stanza_typed stanzas"
    using q(4) wrapped_stanza [of L p] assms(5)
    by (auto simp: crypto_ok_def list_all_length list_all2_conv_all_nth)
  then have "container_of L C p vid stanzas (content data) em cts sigs"
    using q w assms(6,7) by (simp add: container_of_def)
  from that [OF this w(4) q(4,1,8,9,10)] q(10,12) w(2) show thesis by simp
qed

lemma write_container_buffer:
  assumes "write_container L C m n data sender rs options to_buffer (w, []) = (Inr (), (w', b))"
  obtains p w1 where "plan_new L C m n sender rs options w = (Inr p, w1)" "to_buffer (plan_write L p) data (w1, []) = (Inr (), (w', b))"
  using assms by (auto simp: write_container_def bnd_eq_Inr on_fst_eq simp del: on_fst_run)

lemma planned_length:
  assumes "plan_new L C m n sender rs options w = (Inr p, w1)" and "to_buffer (plan_write L p) data (w1, []) = (Inr (), (w', b))"
    and "rng_fills w" and "tame data" and "crypto_ok L" and "identity_ok L sender"
    and "\<And>pt. to_vec (manifest_codec1 C) m = Inr pt \<Longrightarrow> length pt + TAG_LEN \<le> unat MAX_MANIFEST_LEN"
    and "length (chunks_of (eo_chunk_size options) (content data)) < 2 ^ 32"
  shows "length b = unat (container_len True p)"
  using planned_container [OF assms(1-5,7,8)] container_length(1) [of L C p] assms(5,6)
  unfolding crypto_ok_def by metis

text \<open>Any container whose manifest is that of a vault and whose data is its content imports to
  that vault, for every recipient.\<close>

definition imported_from :: "lib \<Rightarrow> identity \<Rightarrow> suite_id \<Rightarrow> vault \<Rightarrow> imported_vault" where
  "imported_from L sender suite v =
     \<lparr>iv_vault = v, iv_suite = suite, iv_sender_fingerprint = id_fingerprint L sender,
      iv_sender_sign_public = ed25519_public L (id_sign sender), iv_sender_kem_public = x25519_public L (id_kem sender),
      iv_sender_mldsa_public = map_option pq_public (id_mldsa sender),
      iv_sender_mlkem_public = map_option pq_public (id_mlkem sender)\<rparr>"

lemma layout_shape:
  assumes "rfold layout_step es (k, seen, shape) = Inr (k', seen', shape')"
  shows "\<exists>xs. shape' = shape @ xs \<and> list_all2 (\<lambda>e x. normalize_path (en_path e) = Inr (fst x) \<and> snd x = en_kind e) es xs \<and>
    distinct (map fst xs) \<and> seen \<inter> set (map fst xs) = {}"
  using assms
proof (induction es arbitrary: k seen shape)
  case (Cons e es)
  from Cons.prems obtain st where one: "layout_step e (k, seen, shape) = Inr st" and rest: "rfold layout_step es st = Inr (k', seen', shape')"
    by (auto simp: rbind_eq_Inr)
  from one obtain p k1 where p: "normalize_path (en_path e) = Inr p" "p \<notin> seen" "st = (k1, insert p seen, shape @ [(p, en_kind e)])"
    by (auto simp: layout_step_def rbind_eq_Inr Let_def split: if_splits)
  with rest have r: "rfold layout_step es (k1, insert p seen, shape @ [(p, en_kind e)]) = Inr (k', seen', shape')" by simp
  from Cons.IH [OF r] obtain xs where "shape' = shape @ (p, en_kind e) # xs"
    "list_all2 (\<lambda>e x. normalize_path (en_path e) = Inr (fst x) \<and> snd x = en_kind e) es xs"
    "distinct (map fst xs)" "insert p seen \<inter> set (map fst xs) = {}" by auto
  then show ?case using p by (intro exI [of _ "(p, en_kind e) # xs"]) auto
qed simp

lemma written_arrives:
  assumes "write_container L C (build_manifest L v) n data sender rs options to_buffer (w, []) = (Inr (), (w', b))"
    and "tame data" and "content data = vault_data (vault_entries v)" and "n = len64 (content data)"
    and "crypto_ok L" and "v1_codecs_ok C" and "rng_fills w" and "vault_typed v"
    and "fits L C (eo_chunk_size options) v"
    and "identity_ok L sender" and "identity_ok L i" and "addressed L i rs"
  shows "list_all named_good (vault_entries v) \<and> vault_good (cleaned_vault v) \<longrightarrow>
      import_vault L True C b i = Inr (imported_from L sender (eo_suite options) (cleaned_vault v))"
    and "(\<exists>e\<in>set (vault_entries v). \<not> is_ok (normalize_path (ve_path e))) \<longrightarrow> \<not> is_ok (import_vault L True C b i)"
proof -
  let ?c = "eo_chunk_size options" and ?d = "vault_data (vault_entries v)"
  from assms(9) have ft: "length (chunks_of ?c ?d) < 2 ^ 32"
    "\<And>pt. to_vec (manifest_codec1 C) (build_manifest L v) = Inr pt \<Longrightarrow> length pt + TAG_LEN \<le> unat MAX_MANIFEST_LEN"
    by (simp_all add: fits_def)
  from assms(5) have lib: "aead_correct L" "stream_be32 L" "ed25519_spec L" "mldsa_spec L" "x25519_spec L" "mlkem_spec L" "blake3_lengths L"
    by (simp_all add: crypto_ok_def)
  from assms(6) have cd: "codec_ok header_typed (header_codec1 C)" "codec_ok manifest_typed (manifest_codec1 C)"
    by (simp_all add: v1_codecs_ok_def)
  obtain p w1 where pl: "plan_new L C (build_manifest L v) n sender rs options w = (Inr p, w1)"
    "to_buffer (plan_write L p) data (w1, []) = (Inr (), (w', b))" using write_container_buffer [OF assms(1)] by blast
  obtain vid stanzas em cts sigs where w: "container_of L C p vid stanzas ?d em cts sigs" "b = body_bytes p em cts @ sigs"
      "list_all2 (wrapped_to L p) rs stanzas" "to_vec (manifest_codec1 C) (build_manifest L v) = Inr (cp_manifest_plaintext p)"
      "cp_suite p = eo_suite options" "cp_sender p = sender" "cp_chunk_size p = ?c" "cp_data_len p = data_ciphertext_len n (of_nat ?c)"
    using planned_container [OF pl assms(7,2,5) ft(2)] ft(1) unfolding assms(3) by metis
  have sp: "0 < ?c" "?c \<le> MAX_CHUNK_SIZE" using w(1,7) by (auto simp: container_of_def body_of_def stream_params_def)
  obtain s where s: "flowing s" "content s = ?d"
    and im: "import_vault L True C b i =
      rbind (validate_manifest_layout (build_manifest L v) (of_nat ?c) (cp_data_len p)) (\<lambda>_.
      rbind (fst (reconstruct_vault_streaming L (build_manifest L v) s)) (\<lambda>v'. Inr (imported_from L sender (eo_suite options) v')))"
    using import_written [OF w(1) cd(1) lib(1-7) _ assms(11,12) w(3) cd(2) build_manifest_typed [OF assms(8) lib(7)] w(4)] assms(10)
    unfolding w(2,5,6,7) imported_from_def by metis
  have dl: "cp_data_len p = data_ciphertext_len (len64 ?d) (of_nat ?c)" using w(8) assms(3,4) by simp
  have len: "length ?d < 2 ^ 64" using data_section(2) [OF sp ft(1)] by simp
  show "list_all named_good (vault_entries v) \<and> vault_good (cleaned_vault v) \<longrightarrow>
      import_vault L True C b i = Inr (imported_from L sender (eo_suite options) (cleaned_vault v))"
  proof (intro impI, elim conjE)
    assume good: "list_all named_good (vault_entries v)" "vault_good (cleaned_vault v)"
    show "import_vault L True C b i = Inr (imported_from L sender (eo_suite options) (cleaned_vault v))"
      unfolding im dl validate_built [OF good refl sp ft(1)] using reconstruct_built [OF good(1) len s] by simp
  qed
  have paths: "map en_path (build_entries L k es) = map ve_path es" for k es
    by (induction es arbitrary: k) (auto simp: Let_def split: entry_kind.splits)
  have "is_ok (normalize_path (ve_path e))" if ok: "is_ok (import_vault L True C b i)" and e: "e \<in> set (vault_entries v)" for e
  proof -
    from ok obtain r where "validate_manifest_layout (build_manifest L v) (of_nat ?c) (cp_data_len p) = Inr r"
      unfolding im by (auto simp: is_ok_iff rbind_eq_Inr)
    then obtain tot seen shape where "rfold layout_step (build_entries L 0 (vault_entries v)) (0, {}, []) = Inr (tot, seen, shape)"
      by (auto simp: validate_manifest_layout_def build_manifest_def rbind_eq_Inr Let_def split: if_splits)
    from layout_shape [OF this] have "\<forall>x\<in>set (build_entries L 0 (vault_entries v)). is_ok (normalize_path (en_path x))"
      by (force simp: list_all2_conv_all_nth in_set_conv_nth is_ok_iff)
    moreover have "ve_path e \<in> en_path ` set (build_entries L 0 (vault_entries v))"
      using e paths [of 0 "vault_entries v"] by (metis image_eqI list.set_map)
    ultimately show ?thesis by force
  qed
  then show "(\<exists>e\<in>set (vault_entries v). \<not> is_ok (normalize_path (ve_path e))) \<longrightarrow> \<not> is_ok (import_vault L True C b i)" by blast
qed

lemma written_imports:
  assumes "write_container L C (build_manifest L v) n data sender rs options to_buffer (w, []) = (Inr (), (w', b))"
    and "tame data" and "content data = vault_data (vault_entries v)" and "n = len64 (content data)"
    and "crypto_ok L" and "v1_codecs_ok C" and "rng_fills w" and "vault_good v" and "vault_typed v"
    and "fits L C (eo_chunk_size options) v"
    and "identity_ok L sender" and "identity_ok L i" and "addressed L i rs"
  shows "import_vault L True C b i = Inr (imported_from L sender (eo_suite options) v)"
  using written_arrives(1) [OF assms(1-7,9-13)] vault_good_cleaned [OF assms(8)] assms(8) by simp

subsection \<open>A writer returns\<close>

lemma write_all_faults: "write_all b k = (x, k') \<Longrightarrow> sink_faults k' = sink_faults k"
  by (auto simp: write_all_def Let_def split: option.splits)

lemma stream_loop_faults:
  "stream_loop nextf lastf sz s current written rk = (x, (r', k')) \<Longrightarrow> sink_faults k' = sink_faults (snd rk)"
proof (induction nextf lastf sz s current written rk rule: stream_loop.induct)
  case (1 nextf lastf sz s current written r k)
  note run = "1.prems" [unfolded stream_loop.simps [of nextf lastf sz s current written r k]]
  obtain c r1 where c: "read_chunk sz r = (c, r1)" by force
  show ?case
  proof (cases "\<exists>nxt out s'. c = Inr nxt \<and> nxt \<noteq> [] \<and> nextf s current = Inr (out, s') \<and> is_ok (fst (write_all out k))")
    case True
    then obtain nxt out s' k1 where n: "c = Inr nxt" "nxt \<noteq> []" "nextf s current = Inr (out, s')" "write_all out k = (Inr (), k1)"
      by (auto simp: is_ok_iff dest!: run_fst)
    with run c have "stream_loop nextf lastf sz s' nxt (written + len64 out) (r1, k1) = (x, (r', k'))" by simp
    from "1.IH" [OF c [symmetric] n(1,2,3) refl n(4) [symmetric] refl this] write_all_faults [OF n(4)] show ?thesis by simp
  next
    case False
    with run c show ?thesis
      by (auto simp: is_ok_def split: sum.splits if_splits prod.splits dest: write_all_faults) (metis fst_conv)+
  qed
qed

lemma encrypt_stream_faults:
  "encrypt_stream_with L alg key nonce aad sz (r, k) = (x, (r', k')) \<Longrightarrow> sink_faults k' = sink_faults k"
  by (auto simp: encrypt_stream_with_def split: if_splits sum.splits prod.splits dest: stream_loop_faults)

lemma hw_write_all_ok:
  "faultless (hw_inner hw) \<Longrightarrow> \<exists>hw'. hw_write_all b (src, hw) = (Inr (), (src, hw')) \<and> faultless (hw_inner hw')"
  using write_all_faultless [of "hw_inner hw" b] by (auto simp: hashing_def)

lemma write_body_returns:
  assumes "faultless k" and "flowing src" and "aead_total L" and "aead_correct L" and "stream_be32 L"
    and "length (cp_manifest_nonce p) = nonce_len (cp_alg p)" and "length (cp_manifest_plaintext p) < 2 ^ 32"
    and "cp_manifest_len p = of_nat (length (cp_manifest_plaintext p) + TAG_LEN)"
    and "stream_params (cp_alg p) (cp_cek p) (cp_data_stream_nonce p) (cp_chunk_size p)"
    and "length (chunks_of (cp_chunk_size p) (content src)) < 2 ^ 32"
    and "cp_data_len p = data_ciphertext_len (len64 (content src)) (of_nat (cp_chunk_size p))"
  shows "\<exists>src' hw. write_body L p (src, hw_new k) = (Inr (), (src', hw)) \<and> faultless (hw_inner hw)"
proof -
  have k0: "faultless (hw_inner (hw_new k))" using assms(1) by (simp add: hw_new_def)
  obtain h1 where 1: "hw_write_all MAGIC_V1 (src, hw_new k) = (Inr (), (src, h1))" "faultless (hw_inner h1)"
    using hw_write_all_ok [OF k0] by blast
  obtain h2 where 2: "hw_write_all (to_be_bytes FORMAT_VERSION) (src, h1) = (Inr (), (src, h2))" "faultless (hw_inner h2)"
    using hw_write_all_ok [OF 1(2)] by blast
  obtain h3 where 3: "hw_write_all (to_be_bytes (of_nat (length (cp_header_bytes p)) :: u32)) (src, h2) = (Inr (), (src, h3))" "faultless (hw_inner h3)"
    using hw_write_all_ok [OF 2(2)] by blast
  obtain h4 where 4: "hw_write_all (cp_header_bytes p) (src, h3) = (Inr (), (src, h4))" "faultless (hw_inner h4)"
    using hw_write_all_ok [OF 3(2)] by blast
  have key: "length (cp_cek p) = 32" "0 < cp_chunk_size p" "cp_chunk_size p \<le> MAX_CHUNK_SIZE" using assms(9) by (simp_all add: stream_params_def)
  obtain em where em: "aead_encrypt L (cp_alg p) (cp_cek p) (cp_manifest_nonce p) (cp_header_bytes p) (cp_manifest_plaintext p) = Some em"
    using aead_totalD [OF assms(3) key(1) assms(6,7)] by blast
  have seal: "seal_with L (cp_alg p) (cp_cek p) (cp_manifest_nonce p) (cp_header_bytes p) (cp_manifest_plaintext p) = Inr em"
    using em key(1) assms(6) by (simp add: seal_with_def cipher_def)
  have lem: "len64 em = cp_manifest_len p" using aead_correctD(2) [OF assms(4) em] assms(8) by simp
  obtain h5 where 5: "hw_write_all em (src, h4) = (Inr (), (src, h5))" "faultless (hw_inner h5)"
    using hw_write_all_ok [OF 4(2)] by blast
  obtain n r' k' where e: "encrypt_stream_with L (cp_alg p) (cp_cek p) (cp_data_stream_nonce p) (cp_header_bytes p) (cp_chunk_size p)
      (src, hw_inner h5) = (Inr n, (r', k'))"
    using encrypt_stream_returns [OF assms(3,5,9,2) 5(2)] assms(10) by (metis less_imp_le)
  obtain cts where cts: "chunked (aead_encrypt L (cp_alg p) (cp_cek p)) (cp_data_stream_nonce p) (cp_header_bytes p)
      (chunks_of (cp_chunk_size p) (content src)) cts" "n = len64 (concat cts)"
    using encrypt_stream_success [OF assms(5,9,2) 5(2) e] by blast
  have ld: "length (concat cts) = length (content src) + TAG_LEN * length (chunks_of (cp_chunk_size p) (content src))"
    using length_concat_sealed [OF chunked_sealed(2) [OF assms(4) cts(1) key(2)]] by simp
  have "n = cp_data_len p"
    using arg_cong [OF data_section(3) [OF key(2,3) assms(10)], where f = "of_nat :: nat \<Rightarrow> u64"]
    unfolding assms(11) cts(2) ld [symmetric] by simp
  moreover have "faultless k'" using encrypt_stream_faults [OF e] 5(2) by (simp add: faultless_def)
  ultimately show ?thesis using 1 2 3 4 5 seal lem e by (simp add: write_body_def bnd_def) (simp add: hashing_def)
qed

lemma plan_write_returns:
  assumes "plan_new L C m n sender rs options w = (Inr p, w')" and "rng_fills w" and "flowing data" and "n = len64 (content data)"
    and "eo_chunk_size options \<le> MAX_CHUNK_SIZE" and "length (chunks_of (eo_chunk_size options) (content data)) < 2 ^ 32"
    and "\<And>pt. to_vec (manifest_codec1 C) m = Inr pt \<Longrightarrow> length pt + TAG_LEN \<le> unat MAX_MANIFEST_LEN"
    and "crypto_ok L" and "aead_total L" and "identity_ok L sender"
  shows "\<exists>b. to_buffer (plan_write L p) data (w', buf) = (Inr (), (w', b))"
proof -
  from plan_new_planned [OF assms(1,2)] obtain vid stanzas where
    q: "to_vec (manifest_codec1 C) m = Inr (cp_manifest_plaintext p)" "length (cp_cek p) = 32"
    "length (cp_manifest_nonce p) = nonce_len (cp_alg p)" "length (cp_data_stream_nonce p) = stream_nonce_len (cp_alg p)"
    "cp_alg p = suite_aead_alg (cp_suite p)" "cp_suite p = eo_suite options" "cp_sender p = sender"
    "cp_chunk_size p = eo_chunk_size options" "cp_manifest_len p = of_nat (length (cp_manifest_plaintext p) + TAG_LEN)"
    "cp_data_len p = data_ciphertext_len n (of_nat (cp_chunk_size p))"
    "is_hybrid (cp_suite p) \<Longrightarrow> id_mldsa sender \<noteq> None \<and> id_mlkem sender \<noteq> None" by metis
  have c0: "eo_chunk_size options \<noteq> 0" using assms(1) by (auto simp: plan_new_def split: if_splits)
  let ?k = "\<lparr>sink_out = buf, sink_calls = 0, sink_faults = \<lambda>_. None\<rparr>"
  have "length (cp_manifest_plaintext p) < 2 ^ 32" using assms(7) [OF q(1)] by (simp add: MAX_MANIFEST_LEN_def)
  then obtain src' hw where b: "write_body L p (data, hw_new ?k) = (Inr (), (src', hw))" "faultless (hw_inner hw)"
    using write_body_returns [of ?k data L p] assms(3-6,8,9) q c0 by (auto simp: faultless_def stream_params_def crypto_ok_def)
  obtain k1 where 1: "write_all (id_sign_message L (cp_sender p) (blake3 L (hw_hasher hw))) (hw_inner hw) = (Inr (), k1)" "faultless k1"
    using write_all_faultless [OF b(2)] by blast
  obtain k2 where 2: "(if is_hybrid (cp_suite p)
              then bnd (lift (sign_pqc L (cp_sender p) (blake3 L (hw_hasher hw)))) (\<lambda>pq_signature. on_snd (write_all pq_signature))
              else ret ()) (src', k1) = (Inr (), (src', k2))" "faultless k2"
  proof (cases "is_hybrid (cp_suite p)")
    case True
    with q(11) obtain m where m: "id_mldsa sender = Some m" by auto
    with assms(10) have "sign_pqc L sender h = Inr (mldsa_sign L (pq_seed m) h)" for h
      by (simp add: sign_pqc_def mldsa_signature_def mldsa_key_from_seed_def identity_ok_def)
    moreover obtain k2 where "write_all (mldsa_sign L (pq_seed m) (blake3 L (hw_hasher hw))) k1 = (Inr (), k2)" "faultless k2"
      using write_all_faultless [OF 1(2)] by blast
    ultimately show thesis using True q(7) that by (simp add: bnd_def)
  qed (use 1(2) that in auto)
  obtain k3 where 3: "write_all [] k2 = (Inr (), k3)" using write_all_faultless [OF 2(2)] by blast
  show ?thesis
    using b 1 2(1) 3 by (simp add: to_buffer_def plan_write_def Let_def bnd_def)
qed

subsection \<open>What an accepted container holds\<close>

lemma reconstruct_shape:
  assumes "io_fold (reconstruct_entry L) es (off, v) src = (Inr (off', v'), src')"
  shows "\<exists>ys. vault_entries v' = vault_entries v @ ys \<and>
    list_all2 (\<lambda>e y. normalize_path (en_path e) = Inr (ve_path y) \<and> ve_kind y = en_kind e \<and>
      (ve_kind y = Dir \<longrightarrow> ve_content y = [])) es ys"
  using assms
proof (induction es arbitrary: off v src)
  case (Cons e es)
  from Cons.prems obtain off1 v1 src1 where one: "reconstruct_entry L e (off, v) src = (Inr (off1, v1), src1)"
    and r: "io_fold (reconstruct_entry L) es (off1, v1) src1 = (Inr (off', v'), src')"
    by (auto simp: bnd_eq_Inr)
  let ?y = "last (vault_entries v1)"
  have y: "v1 = push_entry ?y v" "normalize_path (en_path e) = Inr (ve_path ?y)" "ve_kind ?y = en_kind e"
    "ve_kind ?y = Dir \<longrightarrow> ve_content ?y = []"
    using one by (cases "en_kind e"; auto simp: reconstruct_entry_def bnd_eq_Inr ret_eq_Inr push_entry_def split: if_splits)+
  from Cons.IH [OF r] obtain ys where "vault_entries v' = vault_entries v1 @ ys"
    "list_all2 (\<lambda>e y. normalize_path (en_path e) = Inr (ve_path y) \<and> ve_kind y = en_kind e \<and>
      (ve_kind y = Dir \<longrightarrow> ve_content y = [])) es ys" by blast
  moreover have "vault_entries v1 = vault_entries v @ [?y]" using arg_cong [OF y(1), of vault_entries] by (simp add: push_entry_def)
  ultimately show ?case using y(2-4) by (intro exI [of _ "?y # ys"]) simp
qed (simp add: ret_eq_Inr)

lemma normalize_path_idem: "normalize_path p = Inr n \<Longrightarrow> normalize_path n = Inr n"
  by (auto simp: normalize_path_eq_Inr dest: normalize_stored_path_canonical canonical_normalizes)

lemma imported_good:
  assumes "import_vault L pqc C b i = Inr iv"
  shows "vault_good (iv_vault iv)"
proof -
  from assms obtain m cs n r src v where lay: "validate_manifest_layout m cs n = Inr r"
    and rec: "fst (reconstruct_vault_streaming L m src) = Inr v" and iv: "iv_vault iv = v"
    by (auto simp: import_vault_def rbind_eq_Inr Let_def)
  from lay obtain k seen shape where few: "length (mf_entries m) \<le> MAX_MANIFEST_ENTRIES"
    and f: "rfold layout_step (mf_entries m) (0, {}, []) = Inr (k, seen, shape)" and tree: "check_tree_shape shape = Inr ()"
    by (auto simp: validate_manifest_layout_def rbind_eq_Inr Let_def split: if_splits)
  from layout_shape [OF f] obtain xs where xs: "shape = xs" "distinct (map fst xs)"
    "list_all2 (\<lambda>e x. normalize_path (en_path e) = Inr (fst x) \<and> snd x = en_kind e) (mf_entries m) xs" by auto
  from rec obtain off src1 where "io_fold (reconstruct_entry L) (mf_entries m) (0, vault_new (mf_vault_name m) (mf_created_at m)) src = (Inr (off, v), src1)"
    by (cases "reconstruct_vault_streaming L m src") (auto simp: reconstruct_vault_streaming_def bnd_eq_Inr ret_eq_Inr split: if_splits)
  from reconstruct_shape [OF this] obtain ys where ys: "vault_entries v = ys"
    "list_all2 (\<lambda>e y. normalize_path (en_path e) = Inr (ve_path y) \<and> ve_kind y = en_kind e \<and>
      (ve_kind y = Dir \<longrightarrow> ve_content y = [])) (mf_entries m) ys" by (auto simp: vault_new_def)
  have "xs = map (\<lambda>y. (ve_path y, ve_kind y)) ys"
    using xs(3) ys(2) by (auto simp: list_all2_conv_all_nth intro!: nth_equalityI prod_eqI)
  moreover have "list_all entry_good ys"
    using ys(2) normalize_path_idem by (fastforce simp: list_all_length list_all2_conv_all_nth entry_good_def)
  moreover have "length ys \<le> MAX_MANIFEST_ENTRIES" using few ys(2) by (simp add: list_all2_lengthD)
  ultimately show ?thesis using iv xs(1,2) tree ys(1) by (simp add: vault_good_def vault_shape_def comp_def)
qed

end
