(* ===== verification/V1_Reader.thy ===== *)
theory V1_Reader
  imports V1_Roundtrip V2_Blobs
begin

section \<open>The lazy reader sees what the importer sees\<close>

text \<open>
  Both readers parse the same sections of a container. On a disk that answers, opening with
  verification and then reading the whole stream succeeds exactly when the in-memory import does,
  with the same vault and the same sender.
\<close>

subsection \<open>The sections of a file\<close>

text \<open>The sections that both parsers cut, with plain numbers: no sum of lengths overflows.\<close>

definition parsed :: "bool \<Rightarrow> v1_codecs \<Rightarrow> bytes \<Rightarrow> container_parts \<Rightarrow> nat \<Rightarrow> bool" where
  "parsed pqc C b p data_end \<longleftrightarrow>
     PREAMBLE_LEN \<le> length b \<and>
     (\<exists>hl. check_preamble b = Inr hl \<and>
        (let ms = PREAMBLE_LEN + unat hl; me = ms + unat (hd_manifest_len (pt_header p)) in
         data_end = me + unat (hd_data_len (pt_header p)) \<and>
         length b = data_end + trailer_len pqc (pt_suite p) \<and>
         pt_header_bytes p = slice PREAMBLE_LEN ms b \<and> pt_enc_manifest p = slice ms me b \<and> pt_enc_data p = slice me data_end b)) \<and>
     from_slice (header_codec1 C) (pt_header_bytes p) = Inr (pt_header p) \<and>
     check_header_fields pqc (pt_header p) = Inr (pt_suite p) \<and>
     TAG_LEN \<le> unat (hd_data_len (pt_header p))"

definition header_sender :: "container_header \<Rightarrow> public_identity" where
  "header_sender h = unnamed_public (hd_sender_sign_public h) (hd_sender_kem_public h) (hd_sender_mldsa_public h) (hd_sender_mlkem_public h)"

definition body_signed :: "lib \<Rightarrow> bool \<Rightarrow> bytes \<Rightarrow> container_parts \<Rightarrow> nat \<Rightarrow> bool" where
  "body_signed L pqc b p data_end \<longleftrightarrow>
     sign_verify L (hd_sender_sign_public (pt_header p)) (blake3 L (take data_end b)) (take SIGNATURE_LEN (drop data_end b)) = Inr () \<and>
     verify_hybrid L pqc (pt_suite p) (hd_sender_mldsa_public (pt_header p)) (blake3 L (take data_end b)) (drop data_end b) = Inr ()"

lemma checked_add_Some:
  "checked_add (a :: u64) b = Some c \<longleftrightarrow> unat a + unat b < 2 ^ 64 \<and> unat c = unat a + unat b"
  using checked_add_nat [of a b] by (auto simp: checked_add_def unat_word_ariths word_unat_eq_iff)

lemma header_len_small:
  "check_preamble b = Inr hl \<Longrightarrow> unat hl \<le> MAX_CONTAINER_HEADER_LEN"
  by (auto simp: check_preamble_def Let_def split: if_splits)

lemma unat_up: "unat (ucast (x :: u32) :: u64) = unat x"
proof -
  have "unat x < 2 ^ 32" using unsigned_less [of x, where ?'a = nat] by simp
  moreover have "(ucast x :: u64) = of_nat (unat x)" by simp
  ultimately show ?thesis by (simp add: unat_of_nat del: of_nat_unat)
qed

lemma trailer_small: "trailer_len pqc s \<le> 3373" "SIGNATURE_LEN \<le> trailer_len pqc s"
  by (simp_all add: trailer_len_def hybrid_sig_len_def SIGNATURE_LEN_def)

lemma unat_trailer: "unat (of_nat (trailer_len pqc s) :: u64) = trailer_len pqc s"
  using trailer_small(1) [of pqc s] by (simp add: unat_of_nat)

lemma import_parts_iff:
  assumes "length b < 2 ^ 64"
  shows "import_parts L pqc C b = Inr p \<longleftrightarrow>
    (\<exists>data_end. parsed pqc C b p data_end \<and> body_signed L pqc b p data_end \<and>
       fingerprint L (header_sender (pt_header p)) = hd_sender_fpr (pt_header p))"
    (is "?l \<longleftrightarrow> ?r")
proof
  assume ?l
  then obtain hl ms me de se where 1: "PREAMBLE_LEN \<le> length b" "check_preamble b = Inr hl"
    "checked_add (of_nat PREAMBLE_LEN :: u64) (ucast hl) = Some ms"
    "from_slice (header_codec1 C) (slice PREAMBLE_LEN (unat ms) b) = Inr (pt_header p)"
    "check_header_fields pqc (pt_header p) = Inr (pt_suite p)" "\<not> hd_data_len (pt_header p) < of_nat TAG_LEN"
    "checked_add ms (hd_manifest_len (pt_header p)) = Some me" "checked_add me (hd_data_len (pt_header p)) = Some de"
    "checked_add de (of_nat (trailer_len pqc (pt_suite p))) = Some se" "length b = unat se"
    "sign_verify L (hd_sender_sign_public (pt_header p)) (blake3 L (slice 0 (unat de) b)) (slice (unat de) (unat de + SIGNATURE_LEN) b) = Inr ()"
    "verify_hybrid_signature L pqc (pt_suite p) (pt_header p) (blake3 L (slice 0 (unat de) b)) (slice (unat de) (unat se) b) = Inr ()"
    "fingerprint L (header_sender (pt_header p)) = hd_sender_fpr (pt_header p)"
    "pt_header_bytes p = slice PREAMBLE_LEN (unat ms) b" "pt_enc_manifest p = slice (unat ms) (unat me) b" "pt_enc_data p = slice (unat me) (unat de) b"
    by (auto simp: import_parts_def result_simps Let_def header_sender_def split: if_splits)
  have n: "unat ms = PREAMBLE_LEN + unat hl" "unat me = unat ms + unat (hd_manifest_len (pt_header p))"
    "unat de = unat me + unat (hd_data_len (pt_header p))" "unat se = unat de + trailer_len pqc (pt_suite p)"
    using 1(3,7,8,9) by (auto simp: checked_add_Some unat_up unat_trailer PREAMBLE_LEN_def)
  have "parsed pqc C b p (unat de)"
    using 1 n by (auto simp: parsed_def Let_def word_less_nat_alt TAG_LEN_def)
  moreover have "body_signed L pqc b p (unat de)" using 1(10-12) by (simp add: body_signed_def slice_def verify_hybrid_signature_def)
  ultimately show ?r using 1(13) by blast
next
  assume ?r
  then obtain de where p: "parsed pqc C b p de" and s: "body_signed L pqc b p de"
    and f: "fingerprint L (header_sender (pt_header p)) = hd_sender_fpr (pt_header p)" by blast
  from p obtain hl where hl: "check_preamble b = Inr hl" "length b = de + trailer_len pqc (pt_suite p)"
    and de: "de = PREAMBLE_LEN + unat hl + unat (hd_manifest_len (pt_header p)) + unat (hd_data_len (pt_header p))"
    and secs: "pt_header_bytes p = slice PREAMBLE_LEN (PREAMBLE_LEN + unat hl) b"
      "pt_enc_manifest p = slice (PREAMBLE_LEN + unat hl) (PREAMBLE_LEN + unat hl + unat (hd_manifest_len (pt_header p))) b"
      "pt_enc_data p = slice (PREAMBLE_LEN + unat hl + unat (hd_manifest_len (pt_header p))) de b"
    by (auto simp: parsed_def Let_def)
  obtain ms where ms: "checked_add (of_nat PREAMBLE_LEN :: u64) (ucast hl) = Some ms" "unat ms = PREAMBLE_LEN + unat hl"
    using checked_add_nat [of "of_nat PREAMBLE_LEN" "ucast hl"] assms hl(2) de by (auto simp: unat_up PREAMBLE_LEN_def)
  obtain me where me: "checked_add ms (hd_manifest_len (pt_header p)) = Some me" "unat me = unat ms + unat (hd_manifest_len (pt_header p))"
    using checked_add_nat [of ms "hd_manifest_len (pt_header p)"] assms hl(2) de ms(2) by auto
  obtain d where d: "checked_add me (hd_data_len (pt_header p)) = Some d" "unat d = de"
    using checked_add_nat [of me "hd_data_len (pt_header p)"] assms hl(2) de ms(2) me(2) by auto
  obtain se where se: "checked_add d (of_nat (trailer_len pqc (pt_suite p))) = Some se" "unat se = length b"
    using checked_add_nat [of d "of_nat (trailer_len pqc (pt_suite p))"] assms hl(2) d(2) by (auto simp: unat_trailer)
  have sig: "slice de (de + SIGNATURE_LEN) b = take SIGNATURE_LEN (drop de b)" "slice de (length b) b = drop de b" "slice 0 de b = take de b"
    by (simp_all add: slice_def)
  have "\<not> hd_data_len (pt_header p) < of_nat TAG_LEN" using p by (simp add: parsed_def word_less_nat_alt TAG_LEN_def)
  then show ?l
    using p hl ms me d se secs s f de sig
    by (simp add: import_parts_def Let_def parsed_def body_signed_def verify_hybrid_signature_def header_sender_def)
qed

subsection \<open>Opening\<close>

lemma file_read_exact_run:
  assumes "no_faults w"
  shows "file_read_exact n (w, rest, h) =
    (if length rest < n then (Inl (Io (IoKind UnexpectedEof)), (w\<lparr>io_calls := io_calls w + 1\<rparr>, rest, h))
     else (Inr (take n rest), (w\<lparr>io_calls := io_calls w + 1\<rparr>, drop n rest, h)))"
  by (simp add: file_read_exact_def bnd_def syscall_no_faults [OF assms])

lemma hasher_update_run [simp]: "hasher_update b (w, rest, h) = (Inr (), (w, rest, map_option (\<lambda>h. h @ b) h))"
  by (simp add: hasher_update_def)

lemma no_faults_calls: "no_faults w \<Longrightarrow> no_faults (w\<lparr>io_calls := k\<rparr>)"
  by (simp add: no_faults_def)

lemma check_preamble_take: "PREAMBLE_LEN \<le> length b \<Longrightarrow> check_preamble (take PREAMBLE_LEN b) = check_preamble b"
  by (simp add: check_preamble_def slice_def PREAMBLE_LEN_def drop_take min_def)

text \<open>The content key and the manifest, as both readers get them from the sections.\<close>

definition unlocked ::
  "lib \<Rightarrow> v1_codecs \<Rightarrow> identity \<Rightarrow> container_parts \<Rightarrow> bytes \<Rightarrow> manifest \<Rightarrow> u64 \<Rightarrow> u32 \<Rightarrow> bool" where
  "unlocked L C i p cek m tot n \<longleftrightarrow>
     (\<exists>stanza pt. find_stanza L i (pt_header p) = Inr stanza \<and> unwrap_with_identity L stanza i = Inr cek \<and>
        open_with L (suite_aead_alg (pt_suite p)) cek (hd_manifest_nonce (pt_header p)) (pt_header_bytes p) (pt_enc_manifest p) = Inr pt \<and>
        from_slice (manifest_codec1 C) pt = Inr m) \<and>
     validate_manifest_layout m (ucast (hd_data_chunk_size (pt_header p))) (hd_data_len (pt_header p)) = Inr (tot, n)"

definition reader_of :: "string \<Rightarrow> container_parts \<Rightarrow> nat \<Rightarrow> bytes \<Rightarrow> manifest \<Rightarrow> u64 \<Rightarrow> u32 \<Rightarrow> vault_reader" where
  "reader_of path p off cek m tot n =
     \<lparr>vr_path = path, vr_manifest = m, vr_cek = cek, vr_header_bytes = pt_header_bytes p,
      vr_data_stream_nonce = hd_data_stream_nonce (pt_header p), vr_data_chunk_size = ucast (hd_data_chunk_size (pt_header p)),
      vr_data_section_offset = of_nat off, vr_total_plaintext = tot, vr_num_chunks = n, vr_suite = pt_suite p\<rparr>"

definition verified_of :: "container_header \<Rightarrow> verified_sender" where
  "verified_of h = \<lparr>vs_fingerprint = hd_sender_fpr h, vs_sign_public = hd_sender_sign_public h, vs_kem_public = hd_sender_kem_public h,
     vs_mldsa_public = hd_sender_mldsa_public h, vs_mlkem_public = hd_sender_mlkem_public h\<rparr>"

lemma vs_public_verified: "vs_public (verified_of h) = header_sender h"
  by (simp add: vs_public_def verified_of_def header_sender_def)

text \<open>Where the cursor is when a container was opened: at its data.\<close>

definition data_start :: "container_parts \<Rightarrow> nat \<Rightarrow> nat" where
  "data_start p data_end = data_end - unat (hd_data_len (pt_header p))"

lemma open_inner_iff:
  assumes "no_faults w" and "length b < 2 ^ 64" and "PREAMBLE_LEN \<le> length b"
  shows "open_reader_inner L pqc C path (len64 b) i (w, b, h) = (Inr (rd, s), st) \<longleftrightarrow>
    (\<exists>p de cek m tot n. parsed pqc C b p de \<and> fingerprint L (header_sender (pt_header p)) = hd_sender_fpr (pt_header p) \<and>
       unlocked L C i p cek m tot n \<and> rd = reader_of path p (data_start p de) cek m tot n \<and> s = verified_of (pt_header p) \<and>
       st = (w\<lparr>io_calls := io_calls w + 3\<rparr>, drop (data_start p de) b, map_option (\<lambda>h. h @ take (data_start p de) b) h))"
    (is "?l \<longleftrightarrow> ?r")
proof
  note run = file_read_exact_run [OF assms(1)] file_read_exact_run [OF no_faults_calls [OF assms(1)]]
  have ub: "unat (len64 b) = length b" using assms(2) by simp
  {
    assume ?l
    then obtain hl hd suite off se stanza cek pt m tot n where 1: "check_preamble b = Inr hl"
      "unat hl \<le> length b - PREAMBLE_LEN"
      "from_slice (header_codec1 C) (take (unat hl) (drop PREAMBLE_LEN b)) = Inr hd" "check_header_fields pqc hd = Inr suite"
      "\<not> hd_data_len hd < of_nat TAG_LEN" "checked_add (of_nat PREAMBLE_LEN + ucast hl) (hd_manifest_len hd) = Some off"
      "Option.bind (checked_add off (hd_data_len hd)) (\<lambda>x. checked_add x (of_nat (trailer_len pqc suite))) = Some se" "len64 b = se"
      "unat (hd_manifest_len hd) \<le> length b - PREAMBLE_LEN - unat hl"
      "fingerprint L (vs_public (verified_of hd)) = hd_sender_fpr hd" "find_stanza L i hd = Inr stanza" "unwrap_with_identity L stanza i = Inr cek"
      "open_with L (suite_aead_alg suite) cek (hd_manifest_nonce hd) (take (unat hl) (drop PREAMBLE_LEN b))
         (take (unat (hd_manifest_len hd)) (drop (unat hl) (drop PREAMBLE_LEN b))) = Inr pt"
      "from_slice (manifest_codec1 C) pt = Inr m" "validate_manifest_layout m (ucast (hd_data_chunk_size hd)) (hd_data_len hd) = Inr (tot, n)"
      "s = verified_of hd"
      "rd = \<lparr>vr_path = path, vr_manifest = m, vr_cek = cek, vr_header_bytes = take (unat hl) (drop PREAMBLE_LEN b),
         vr_data_stream_nonce = hd_data_stream_nonce hd, vr_data_chunk_size = ucast (hd_data_chunk_size hd),
         vr_data_section_offset = off, vr_total_plaintext = tot, vr_num_chunks = n, vr_suite = suite\<rparr>"
      "st = (w\<lparr>io_calls := io_calls w + 3\<rparr>, drop (unat (hd_manifest_len hd)) (drop (unat hl) (drop PREAMBLE_LEN b)),
         map_option (\<lambda>h. ((h @ take PREAMBLE_LEN b) @ take (unat hl) (drop PREAMBLE_LEN b)) @ take (unat (hd_manifest_len hd)) (drop (unat hl) (drop PREAMBLE_LEN b))) h)"
      using assms(3) unfolding open_reader_inner_def
      by (auto simp: bnd_eq_Inr run result_simps check_preamble_take Let_def verified_of_def not_less option.map_comp comp_def
          split: if_splits)
    let ?H = "PREAMBLE_LEN + unat hl"
    let ?de = "?H + unat (hd_manifest_len hd) + unat (hd_data_len hd)"
    let ?p = "\<lparr>pt_header = hd, pt_header_bytes = take (unat hl) (drop PREAMBLE_LEN b), pt_suite = suite,
        pt_enc_manifest = take (unat (hd_manifest_len hd)) (drop (unat hl) (drop PREAMBLE_LEN b)),
        pt_enc_data = slice (?H + unat (hd_manifest_len hd)) ?de b\<rparr>"
    have H: "unat (of_nat PREAMBLE_LEN + ucast hl :: u64) = ?H"
      using header_len_small [OF 1(1)] by (simp add: unat_word_ariths unat_up PREAMBLE_LEN_def MAX_CONTAINER_HEADER_LEN_def)
    obtain x where x: "checked_add off (hd_data_len hd) = Some x" "checked_add x (of_nat (trailer_len pqc suite)) = Some se"
      using 1(7) by (auto simp: bind_eq_Some_conv)
    have n: "unat off = ?H + unat (hd_manifest_len hd)" "unat x = ?de" "length b = ?de + trailer_len pqc suite"
      using 1(6,8) x H ub by (auto simp: checked_add_Some unat_trailer)
    have ds: "data_start ?p ?de = ?H + unat (hd_manifest_len hd)" by (simp add: data_start_def)
    have "TAG_LEN \<le> unat (hd_data_len hd)" using 1(5) by (simp add: word_less_nat_alt TAG_LEN_def)
    then have "parsed pqc C b ?p ?de"
      using 1(1,3,4) n(3) assms(3) by (auto simp: parsed_def Let_def slice_def drop_drop add.commute)
    moreover have "unlocked L C i ?p cek m tot n" using 1(11-15) by (simp add: unlocked_def)
    moreover have "rd = reader_of path ?p (data_start ?p ?de) cek m tot n"
    proof -
      have "off = of_nat (?H + unat (hd_manifest_len hd))" unfolding n(1) [symmetric] by simp
      then show ?thesis unfolding ds 1(17) reader_of_def by simp
    qed
    moreover have "st = (w\<lparr>io_calls := io_calls w + 3\<rparr>, drop (data_start ?p ?de) b, map_option (\<lambda>h. h @ take (data_start ?p ?de) b) h)"
      unfolding 1(18) ds by (simp add: take_add drop_drop add.commute add.left_commute)
    moreover have "fingerprint L (header_sender (pt_header ?p)) = hd_sender_fpr (pt_header ?p)" "s = verified_of (pt_header ?p)"
      using 1(10,16) by (simp_all add: vs_public_verified)
    ultimately show ?r by blast
  }
  assume ?r
  then obtain p de cek m tot n where p: "parsed pqc C b p de" and f: "fingerprint L (header_sender (pt_header p)) = hd_sender_fpr (pt_header p)"
    and u: "unlocked L C i p cek m tot n" and rd: "rd = reader_of path p (data_start p de) cek m tot n" and s: "s = verified_of (pt_header p)"
    and st: "st = (w\<lparr>io_calls := io_calls w + 3\<rparr>, drop (data_start p de) b, map_option (\<lambda>h. h @ take (data_start p de) b) h)" by blast
  from p obtain hl where hl: "check_preamble b = Inr hl" "length b = de + trailer_len pqc (pt_suite p)"
    and de: "de = PREAMBLE_LEN + unat hl + unat (hd_manifest_len (pt_header p)) + unat (hd_data_len (pt_header p))"
    and secs: "pt_header_bytes p = take (unat hl) (drop PREAMBLE_LEN b)"
      "pt_enc_manifest p = take (unat (hd_manifest_len (pt_header p))) (drop (unat hl) (drop PREAMBLE_LEN b))"
    by (auto simp: parsed_def Let_def slice_def drop_drop add.commute)
  let ?H = "PREAMBLE_LEN + unat hl" and ?h = "pt_header p"
  have ds: "data_start p de = ?H + unat (hd_manifest_len ?h)" by (simp add: data_start_def de)
  have H: "unat (of_nat PREAMBLE_LEN + ucast hl :: u64) = ?H"
    using header_len_small [OF hl(1)] by (simp add: unat_word_ariths unat_up PREAMBLE_LEN_def MAX_CONTAINER_HEADER_LEN_def)
  have "checked_add (of_nat PREAMBLE_LEN) (ucast hl) = Some (of_nat PREAMBLE_LEN + ucast hl :: u64)"
    using H header_len_small [OF hl(1)] by (simp add: checked_add_Some unat_up PREAMBLE_LEN_def MAX_CONTAINER_HEADER_LEN_def)
  then have sat: "\<not> saturating_add (of_nat PREAMBLE_LEN) (ucast hl) > len64 b"
    using H ub hl(2) de by (simp add: saturating_add_def word_less_nat_alt)
  obtain off where off: "checked_add (of_nat PREAMBLE_LEN + ucast hl) (hd_manifest_len ?h) = Some off" "unat off = ?H + unat (hd_manifest_len ?h)"
    using checked_add_nat [of "of_nat PREAMBLE_LEN + ucast hl" "hd_manifest_len ?h"] assms(2) hl(2) de H by auto
  obtain x where x: "checked_add off (hd_data_len ?h) = Some x" "unat x = de"
    using checked_add_nat [of off "hd_data_len ?h"] assms(2) hl(2) de off(2) by auto
  obtain se where se: "checked_add x (of_nat (trailer_len pqc (pt_suite p))) = Some se" "unat se = length b"
    using checked_add_nat [of x "of_nat (trailer_len pqc (pt_suite p))"] assms(2) hl(2) x(2) by (auto simp: unat_trailer)
  have se': "len64 b = se" using se(2) ub by (simp add: word_unat_eq_iff)
  have off': "off = of_nat (data_start p de)" unfolding ds off(2) [symmetric] by simp
  have "\<not> hd_data_len ?h < of_nat TAG_LEN" using p by (simp add: parsed_def word_less_nat_alt TAG_LEN_def)
  moreover have "unat hl \<le> length b - PREAMBLE_LEN" "unat (hd_manifest_len ?h) \<le> length b - PREAMBLE_LEN - unat hl"
    using hl(2) de by simp_all
  moreover have "take PREAMBLE_LEN b @ take (unat hl) (drop PREAMBLE_LEN b) @ take (unat (hd_manifest_len ?h)) (drop (unat hl) (drop PREAMBLE_LEN b))
      = take (data_start p de) b" unfolding ds by (simp add: take_add drop_drop add.commute add.left_commute)
  moreover have "drop (unat (hd_manifest_len ?h)) (drop (unat hl) (drop PREAMBLE_LEN b)) = drop (data_start p de) b"
    unfolding ds by (simp add: drop_drop add.commute add.left_commute)
  moreover obtain stanza pt where "find_stanza L i ?h = Inr stanza" "unwrap_with_identity L stanza i = Inr cek"
      "open_with L (suite_aead_alg (pt_suite p)) cek (hd_manifest_nonce ?h) (take (unat hl) (drop PREAMBLE_LEN b))
         (take (unat (hd_manifest_len ?h)) (drop (unat hl) (drop PREAMBLE_LEN b))) = Inr pt"
      "from_slice (manifest_codec1 C) pt = Inr m" "validate_manifest_layout m (ucast (hd_data_chunk_size ?h)) (hd_data_len ?h) = Inr (tot, n)"
    using u unfolding unlocked_def secs by blast
  moreover have "from_slice (header_codec1 C) (take (unat hl) (drop PREAMBLE_LEN b)) = Inr ?h" "check_header_fields pqc ?h = Inr (pt_suite p)"
    using p unfolding parsed_def secs(1) by blast+
  moreover have "fingerprint L (vs_public (verified_of ?h)) = hd_sender_fpr ?h" using f by (simp add: vs_public_verified)
  ultimately show ?l
    using hl(1) off x(1) se(1) se' sat assms(3)
    unfolding rd s st open_reader_inner_def reader_of_def secs off'
    by (simp add: bnd_def run check_preamble_take Let_def verified_of_def option.map_comp comp_def not_less)
qed

subsection \<open>Verifying and reading\<close>

lemma hash_rest_run:
  "no_faults w \<Longrightarrow> n \<le> length rest \<Longrightarrow>
     \<exists>k. hash_rest n (w, rest, Some h) = (Inr (), (w\<lparr>io_calls := k\<rparr>, drop n rest, Some (h @ take n rest)))"
proof (induction n arbitrary: w rest h rule: less_induct)
  case (less n)
  show ?case
  proof (cases "n = 0")
    case True
    have "w = w\<lparr>io_calls := io_calls w\<rparr>" by simp
    then show ?thesis using True by (subst hash_rest.simps) (auto intro: exI [of _ "io_calls w"])
  next
    case False
    let ?m = "min n DEFAULT_CHUNK_SIZE"
    have m: "n - ?m < n" "n - ?m \<le> length (drop ?m rest)" "?m \<le> length rest" using False less.prems(2) by (auto simp: DEFAULT_CHUNK_SIZE_def)
    from less.IH [OF m(1) no_faults_calls [OF less.prems(1), of "io_calls w + 1"] m(2), of "h @ take ?m rest"] obtain k where
      "hash_rest (n - ?m) (w\<lparr>io_calls := io_calls w + 1\<rparr>, drop ?m rest, Some (h @ take ?m rest)) =
        (Inr (), (w\<lparr>io_calls := k\<rparr>, drop (n - ?m) (drop ?m rest), Some ((h @ take ?m rest) @ take (n - ?m) (drop ?m rest))))" by auto
    moreover have "take ?m rest @ take (n - ?m) (drop ?m rest) = take n rest" by (metis le_add_diff_inverse min.cobounded1 take_add)
    ultimately show ?thesis using False m(3)
      by (subst hash_rest.simps) (auto simp: bnd_def file_read_exact_run [OF less.prems(1)] Let_def drop_drop)
  qed
qed

lemma layout_data_len:
  assumes "validate_manifest_layout m c dl = Inr (tot, n)"
  shows "tot + ucast n * of_nat TAG_LEN = dl"
proof -
  from assms obtain t where t: "tot = t" "n = ucast (num_chunks t c)" "\<not> num_chunks t c > 0xFFFFFFFF"
    "checked_add t (saturating_mul (num_chunks t c) (of_nat TAG_LEN)) = Some dl"
    by (auto simp: validate_manifest_layout_def result_simps Let_def split: if_splits)
  have le: "unat (num_chunks t c) \<le> 0xFFFFFFFF" using t(3) by (simp add: word_less_nat_alt)
  have "(ucast (num_chunks t c) :: u32) = of_nat (unat (num_chunks t c))" by simp
  then have "unat (ucast (num_chunks t c) :: u32) = unat (num_chunks t c)" using le by (simp add: unat_of_nat del: of_nat_unat)
  then have "(ucast n :: u64) = num_chunks t c" unfolding t(2) by (simp add: word_unat_eq_iff unat_up)
  moreover have "saturating_mul (num_chunks t c) (of_nat TAG_LEN) = num_chunks t c * of_nat TAG_LEN"
    using le by (simp add: saturating_mul_def checked_mul_def TAG_LEN_def)
  moreover have "dl = t + saturating_mul (num_chunks t c) (of_nat TAG_LEN)"
    using t(4) by (auto simp: checked_add_def split: if_splits)
  ultimately show ?thesis using t(1) by simp
qed

definition opens_as ::
  "lib \<Rightarrow> bool \<Rightarrow> v1_codecs \<Rightarrow> identity \<Rightarrow> bytes \<Rightarrow> container_parts \<Rightarrow> nat \<Rightarrow> bytes \<Rightarrow> manifest \<Rightarrow> u64 \<Rightarrow> u32 \<Rightarrow> bool" where
  "opens_as L pqc C i b p de cek m tot n \<longleftrightarrow>
     parsed pqc C b p de \<and> fingerprint L (header_sender (pt_header p)) = hd_sender_fpr (pt_header p) \<and>
     unlocked L C i p cek m tot n"

lemma file_and_len_run:
  assumes "no_faults w" and "fs_get w path = Some (FileNode b)" and "length b < 2 ^ 64"
  shows "file_and_len path w =
    (if length b < PREAMBLE_LEN then (Inl (Format ''truncated preamble''), w\<lparr>io_calls := io_calls w + 1\<rparr>)
     else (Inr (len64 b, b), w\<lparr>io_calls := io_calls w + 2\<rparr>))"
proof -
  have "len64 b < of_nat PREAMBLE_LEN \<longleftrightarrow> length b < PREAMBLE_LEN" using assms(3) by (simp add: word_less_nat_alt PREAMBLE_LEN_def)
  then show ?thesis using assms
    by (simp add: file_and_len_def bnd_def std_metadata_def std_open_read_def syscall_no_faults no_faults_calls follow_file Let_def)
qed

lemma with_local_eq: "with_local t m s = (Inr (x, t'), s') \<longleftrightarrow> m (s, t) = (Inr x, (s', t'))"
  by (cases "m (s, t)"; cases "fst (m (s, t))") (auto simp: with_local_def)

lemma parsed_bounds:
  "parsed pqc C b p de \<Longrightarrow> data_start p de + unat (hd_data_len (pt_header p)) = de \<and> de + trailer_len pqc (pt_suite p) = length b \<and>
     PREAMBLE_LEN \<le> length b \<and> pt_enc_data p = take (unat (hd_data_len (pt_header p))) (drop (data_start p de) b)"
  by (auto simp: parsed_def Let_def data_start_def slice_def)

lemma verify_and_open_iff:
  assumes "no_faults w" and "fs_get w path = Some (FileNode b)" and "length b < 2 ^ 64"
  shows "verify_and_open L pqc C path i w = (Inr (rd, s), w') \<longleftrightarrow>
    (\<exists>p de cek m tot n. opens_as L pqc C i b p de cek m tot n \<and> body_signed L pqc b p de \<and>
       rd = reader_of path p (data_start p de) cek m tot n \<and> s = verified_of (pt_header p) \<and>
       snd (verify_and_open L pqc C path i w) = w')"
    (is "?l \<longleftrightarrow> ?r")
    and "verify_and_open L pqc C path i w = (Inr (rd, s), w') \<Longrightarrow> \<exists>k. w' = w\<lparr>io_calls := k\<rparr>" (is "_ \<Longrightarrow> ?world")
proof -
  have "(?l \<longleftrightarrow> ?r) \<and> (?l \<longrightarrow> ?world)"
proof (cases "length b < PREAMBLE_LEN")
  case True
  then show ?thesis using file_and_len_run [OF assms]
    by (auto simp: verify_and_open_def bnd_def opens_as_def parsed_def)
next
  case False
  let ?w = "w\<lparr>io_calls := io_calls w + 2\<rparr>"
  have nf: "no_faults ?w" using no_faults_calls [OF assms(1)] .
  let ?rest = "\<lambda>(reader, sender).
        bnd (hash_rest (unat (vr_data_len reader))) (\<lambda>_.
        bnd (file_read_exact (trailer_len pqc (vr_suite reader))) (\<lambda>trailer.
        bnd (gets (\<lambda>(w, rest, h). blake3 L (case h of None \<Rightarrow> [] | Some h \<Rightarrow> h))) (\<lambda>body_hash.
        bnd (lift (sign_verify L (vs_sign_public sender) body_hash (take SIGNATURE_LEN trailer))) (\<lambda>_.
        bnd (lift (verify_verified_sender_hybrid L pqc (vr_suite reader) sender body_hash trailer)) (\<lambda>_.
          ret (reader, sender))))))"
  have start: "verify_and_open L pqc C path i w =
      bnd (with_local (b, Some []) (bnd (open_reader_inner L pqc C path (len64 b) i) ?rest)) (\<lambda>(result, _). ret result) ?w"
    using file_and_len_run [OF assms] False by (simp add: verify_and_open_def bnd_def)
  have "PREAMBLE_LEN \<le> length b" using False by simp
  note inner = open_inner_iff [OF nf assms(3) this]
  have rest: "(\<exists>x st'. ?rest (reader_of path p (data_start p de) cek m tot n, verified_of (pt_header p))
        (v, drop (data_start p de) b, Some (take (data_start p de) b)) = (Inr x, st')) \<longleftrightarrow> body_signed L pqc b p de" 
    and rest_val: "?rest (reader_of path p (data_start p de) cek m tot n, verified_of (pt_header p))
        (v, drop (data_start p de) b, Some (take (data_start p de) b)) = (Inr x, st') \<Longrightarrow>
        x = (reader_of path p (data_start p de) cek m tot n, verified_of (pt_header p)) \<and> (\<exists>k. fst st' = v\<lparr>io_calls := k\<rparr>)"
    if "no_faults v" and o: "opens_as L pqc C i b p de cek m tot n" for v p de cek m tot n x st'
  proof -
    have pb: "data_start p de + unat (hd_data_len (pt_header p)) = de" "de + trailer_len pqc (pt_suite p) = length b"
      using o parsed_bounds by (auto simp: opens_as_def)
    have dl: "vr_data_len (reader_of path p (data_start p de) cek m tot n) = hd_data_len (pt_header p)"
      using o layout_data_len by (auto simp: opens_as_def unlocked_def vr_data_len_def reader_of_def)
    have "unat (hd_data_len (pt_header p)) \<le> length (drop (data_start p de) b)" using pb by simp
    then obtain k where k: "hash_rest (unat (hd_data_len (pt_header p))) (v, drop (data_start p de) b, Some (take (data_start p de) b)) =
        (Inr (), (v\<lparr>io_calls := k\<rparr>, drop de b, Some (take de b)))"
      using hash_rest_run [OF \<open>no_faults v\<close>, where n = "unat (hd_data_len (pt_header p))" and rest = "drop (data_start p de) b"
          and h = "take (data_start p de) b"] pb
      by (auto simp: drop_drop add.commute take_add [symmetric])
    show "(\<exists>x st'. ?rest (reader_of path p (data_start p de) cek m tot n, verified_of (pt_header p))
        (v, drop (data_start p de) b, Some (take (data_start p de) b)) = (Inr x, st')) \<longleftrightarrow> body_signed L pqc b p de"
      "?rest (reader_of path p (data_start p de) cek m tot n, verified_of (pt_header p))
        (v, drop (data_start p de) b, Some (take (data_start p de) b)) = (Inr x, st') \<Longrightarrow>
        x = (reader_of path p (data_start p de) cek m tot n, verified_of (pt_header p)) \<and> (\<exists>k. fst st' = v\<lparr>io_calls := k\<rparr>)"
      using k dl pb(2) file_read_exact_run [OF no_faults_calls [OF that(1), of k]]
      by (auto simp: bnd_eq_Inr body_signed_def verify_verified_sender_hybrid_def verified_of_def reader_of_def split: if_splits)
  qed
  have "?r" "?world" if ?l
  proof -
    have snd: "snd (verify_and_open L pqc C path i w) = w'" using that by simp
    from that obtain rd1 s1 st1 st2 where o: "open_reader_inner L pqc C path (len64 b) i (?w, b, Some []) = (Inr (rd1, s1), st1)"
      and r: "?rest (rd1, s1) st1 = (Inr (rd, s), st2)" and w': "w' = fst st2"
      unfolding start by (auto simp: bnd_eq_Inr with_local_eq)
    from o [unfolded inner] obtain p de cek m tot n where a: "opens_as L pqc C i b p de cek m tot n"
      "rd1 = reader_of path p (data_start p de) cek m tot n" "s1 = verified_of (pt_header p)"
      "st1 = (?w\<lparr>io_calls := io_calls ?w + 3\<rparr>, drop (data_start p de) b, Some (take (data_start p de) b))"
      by (auto simp: opens_as_def)
    have r': "?rest (reader_of path p (data_start p de) cek m tot n, verified_of (pt_header p))
        (?w\<lparr>io_calls := io_calls ?w + 3\<rparr>, drop (data_start p de) b, Some (take (data_start p de) b)) = (Inr (rd, s), st2)"
      using r unfolding a(2-4) .
    show ?r using rest [OF no_faults_calls [OF nf] a(1)] rest_val [OF no_faults_calls [OF nf] a(1) r'] r' a(1) snd by blast
    show ?world using rest_val [OF no_faults_calls [OF nf] a(1) r'] w' by auto
  qed
  moreover have ?l if ?r
  proof -
    from that obtain p de cek m tot n where a: "opens_as L pqc C i b p de cek m tot n" "body_signed L pqc b p de"
       "rd = reader_of path p (data_start p de) cek m tot n" "s = verified_of (pt_header p)"
       "snd (verify_and_open L pqc C path i w) = w'" by blast
    let ?st = "(?w\<lparr>io_calls := io_calls ?w + 3\<rparr>, drop (data_start p de) b, Some (take (data_start p de) b))"
    have o: "open_reader_inner L pqc C path (len64 b) i (?w, b, Some []) = (Inr (rd, s), ?st)"
      unfolding inner using a(1,3,4) by (fastforce simp: opens_as_def)
    obtain x st' where r: "?rest (rd, s) ?st = (Inr x, st')"
      using rest [OF no_faults_calls [OF nf] a(1)] a(2) unfolding a(3,4) by blast
    have x: "x = (rd, s)" using rest_val [OF no_faults_calls [OF nf] a(1)] r unfolding a(3,4) by blast
    have "fst (verify_and_open L pqc C path i w) = Inr (rd, s)"
      unfolding start using o r x by (simp add: bnd_def with_local_def split: prod.splits)
    then show ?l using a(5) by (metis prod.collapse)
  qed
  ultimately show ?thesis by blast
qed
  then show "?l \<longleftrightarrow> ?r" and "?l \<Longrightarrow> ?world" by blast+
qed

text \<open>Reading everything through an opened reader.\<close>

definition imported_of :: "container_parts \<Rightarrow> vault \<Rightarrow> imported_vault" where
  "imported_of p v =
     \<lparr>iv_vault = v, iv_suite = pt_suite p, iv_sender_fingerprint = hd_sender_fpr (pt_header p),
      iv_sender_sign_public = hd_sender_sign_public (pt_header p), iv_sender_kem_public = hd_sender_kem_public (pt_header p),
      iv_sender_mldsa_public = hd_sender_mldsa_public (pt_header p), iv_sender_mlkem_public = hd_sender_mlkem_public (pt_header p)\<rparr>"

lemma import_vault_iff:
  "import_vault L pqc C b i = Inr iv \<longleftrightarrow>
     (\<exists>p cek m tot n d v. import_parts L pqc C b = Inr p \<and> unlocked L C i p cek m tot n \<and>
        sdr_new_with (suite_aead_alg (pt_suite p)) cek (hd_data_stream_nonce (pt_header p)) (pt_header_bytes p)
          (file_source (pt_enc_data p)) (unat (hd_data_chunk_size (pt_header p))) = Inr d \<and>
        fst (reconstruct_vault_streaming L m (sdr_source L d)) = Inr v \<and>
        iv = imported_of p v)"
  by (auto simp: import_vault_def result_simps Let_def unlocked_def imported_of_def)

lemma vr_to_vault_run:
  assumes "no_faults w" and "fs_get w path = Some (FileNode b)" and "length b < 2 ^ 64" and "opens_as L pqc C i b p de cek m tot n"
  shows "fst (vr_to_vault L (reader_of path p (data_start p de) cek m tot n) w) =
    rbind (sdr_new_with (suite_aead_alg (pt_suite p)) cek (hd_data_stream_nonce (pt_header p)) (pt_header_bytes p)
          (file_source (pt_enc_data p)) (unat (hd_data_chunk_size (pt_header p)))) (\<lambda>d.
      fst (reconstruct_vault_streaming L m (sdr_source L d)))"
proof -
  let ?rd = "reader_of path p (data_start p de) cek m tot n"
  have b: "data_start p de \<le> length b" "pt_enc_data p = take (unat (hd_data_len (pt_header p))) (drop (data_start p de) b)"
    using assms(4) parsed_bounds [of pqc C b p de] by (auto simp: opens_as_def)
  have dl: "vr_data_len ?rd = hd_data_len (pt_header p)"
    using assms(4) layout_data_len by (auto simp: opens_as_def unlocked_def vr_data_len_def reader_of_def)
  have off: "unat (vr_data_section_offset ?rd) = data_start p de"
    using b(1) assms(3) by (simp add: reader_of_def unat_of_nat)
  show ?thesis
    using assms(1,2) b(2) dl off
    by (simp add: vr_to_vault_def plaintext_reader_def bnd_def std_open_read_def syscall_no_faults no_faults_calls follow_file
        lift_def reader_of_def unat_up rbind_def split: sum.splits)
qed

text \<open>The two importers, side by side.\<close>

lemma verified_import:
  assumes "no_faults w" and "fs_get w path = Some (FileNode b)" and "length b < 2 ^ 64"
  shows "import_vault L pqc C b i = Inr iv \<longleftrightarrow>
    (\<exists>rd s w'. verify_and_open L pqc C path i w = (Inr (rd, s), w') \<and> fst (vr_to_vault L rd w') = Inr (iv_vault iv) \<and>
       vr_suite rd = iv_suite iv \<and> vs_fingerprint s = iv_sender_fingerprint iv \<and> vs_public s = sender_public iv)"
    (is "?l \<longleftrightarrow> ?r")
proof -
  note opened = verify_and_open_iff(1) [OF assms, of L pqc C i] and stays = verify_and_open_iff(2) [OF assms, of L pqc C i]
  have reads: "fst (vr_to_vault L (reader_of path p (data_start p de) cek m tot n) w') =
      rbind (sdr_new_with (suite_aead_alg (pt_suite p)) cek (hd_data_stream_nonce (pt_header p)) (pt_header_bytes p)
            (file_source (pt_enc_data p)) (unat (hd_data_chunk_size (pt_header p)))) (\<lambda>d.
        fst (reconstruct_vault_streaming L m (sdr_source L d)))"
    if "opens_as L pqc C i b p de cek m tot n" and "w' = w\<lparr>io_calls := k\<rparr>" for p de cek m tot n w' k
    using vr_to_vault_run [OF no_faults_calls [OF assms(1), of k] _ assms(3) that(1)] assms(2) that(2) by simp
  have parts: "import_parts L pqc C b = Inr p \<and> unlocked L C i p cek m tot n \<longleftrightarrow>
      (\<exists>de. opens_as L pqc C i b p de cek m tot n \<and> body_signed L pqc b p de)" for p cek m tot n
    by (auto simp: import_parts_iff [OF assms(3)] opens_as_def)
  show ?thesis
  proof
    assume ?l
    then obtain p cek m tot n d v where 0: "import_parts L pqc C b = Inr p \<and> unlocked L C i p cek m tot n" and 1:
        "sdr_new_with (suite_aead_alg (pt_suite p)) cek (hd_data_stream_nonce (pt_header p)) (pt_header_bytes p)
          (file_source (pt_enc_data p)) (unat (hd_data_chunk_size (pt_header p))) = Inr d"
        "fst (reconstruct_vault_streaming L m (sdr_source L d)) = Inr v"
        "iv = imported_of p v"
      unfolding import_vault_iff by blast
    obtain de where 2: "opens_as L pqc C i b p de cek m tot n" "body_signed L pqc b p de" using 0 unfolding parts by blast
    let ?rd = "reader_of path p (data_start p de) cek m tot n" and ?w = "snd (verify_and_open L pqc C path i w)"
    have o: "verify_and_open L pqc C path i w = (Inr (?rd, verified_of (pt_header p)), ?w)" using opened 2 by blast
    obtain k where "?w = w\<lparr>io_calls := k\<rparr>" using stays [OF o] by blast
    from reads [OF 2(1) this] have "fst (vr_to_vault L ?rd ?w) = Inr v" using 1(1,2) by simp
    moreover have "vr_suite ?rd = pt_suite p" "vs_public (verified_of (pt_header p)) = sender_public iv"
        "vs_fingerprint (verified_of (pt_header p)) = hd_sender_fpr (pt_header p)"
      using 1(3) by (simp_all add: reader_of_def sender_public_def vs_public_def verified_of_def imported_of_def)
    ultimately show ?r using o 1(3) by (fastforce simp: imported_of_def)
  next
    assume ?r
    then obtain rd s w' where o: "verify_and_open L pqc C path i w = (Inr (rd, s), w')" and v: "fst (vr_to_vault L rd w') = Inr (iv_vault iv)"
      and f: "vr_suite rd = iv_suite iv" "vs_fingerprint s = iv_sender_fingerprint iv" "vs_public s = sender_public iv" by blast
    from o [unfolded opened] obtain p de cek m tot n where 1: "opens_as L pqc C i b p de cek m tot n" "body_signed L pqc b p de"
      "rd = reader_of path p (data_start p de) cek m tot n" "s = verified_of (pt_header p)" by blast
    obtain k where "w' = w\<lparr>io_calls := k\<rparr>" using stays [OF o] by blast
    from reads [OF 1(1) this] v obtain d where
        "sdr_new_with (suite_aead_alg (pt_suite p)) cek (hd_data_stream_nonce (pt_header p)) (pt_header_bytes p)
          (file_source (pt_enc_data p)) (unat (hd_data_chunk_size (pt_header p))) = Inr d"
        "fst (reconstruct_vault_streaming L m (sdr_source L d)) = Inr (iv_vault iv)"
      unfolding 1(3) by (auto simp: rbind_def split: sum.splits)
    moreover have "iv = imported_of p (iv_vault iv)"
      using f unfolding 1(3,4)
      by (simp add: reader_of_def verified_of_def vs_public_def sender_public_def unnamed_public_def imported_of_def)
    moreover have "import_parts L pqc C b = Inr p \<and> unlocked L C i p cek m tot n" using parts 1(1,2) by blast
    ultimately show ?l unfolding import_vault_iff by blast
  qed
qed

end
