(* ===== verification/V1_Properties.thy ===== *)
theory V1_Properties
  imports V1_Reader "HOL-Library.Code_Target_Nat"
begin

section \<open>The transport container: properties\<close>

text \<open>
  A library, codecs and a vault for evaluating the model, and the properties of the container
  format: the round trip of export and import, the equivalence of the streaming reader with the
  in-memory one, and what an accepted signature means.
\<close>

subsection \<open>A small container\<close>

definition stanza_fields :: "recipient_stanza \<Rightarrow> bytes list" where
  "stanza_fields s = [recipient_fpr s, ephemeral_public s, option_field (mlkem_ciphertext s), wrap_nonce s, wrapped_cek s]"

definition stanza_of_fields :: "bytes list \<Rightarrow> recipient_stanza option" where
  "stanza_of_fields xs =
     (case xs of
        [a, b, c, d, e] \<Rightarrow> Some \<lparr>recipient_fpr = a, ephemeral_public = b, mlkem_ciphertext = option_of_field c, wrap_nonce = d, wrapped_cek = e\<rparr>
      | _ \<Rightarrow> None)"

definition header_fields :: "container_header \<Rightarrow> bytes list" where
  "header_fields h =
     [nat_field (unat (hd_suite_id h)), hd_vault_id h, hd_sender_sign_public h, hd_sender_kem_public h,
      option_field (hd_sender_mldsa_public h), option_field (hd_sender_mlkem_public h), hd_sender_fpr h,
      hd_manifest_nonce h, nat_field (unat (hd_manifest_len h)), hd_data_stream_nonce h,
      nat_field (unat (hd_data_chunk_size h)), nat_field (unat (hd_data_len h))] @
     map (\<lambda>s. record_field (stanza_fields s)) (hd_recipients h)"

definition header_of_fields :: "bytes list \<Rightarrow> container_header option" where
  "header_of_fields xs =
     (case xs of
        a # b # c # d # e # f # g # h # i # j # k # l # rs \<Rightarrow>
          map_option (\<lambda>rs.
            \<lparr>hd_suite_id = word_of_field a, hd_vault_id = b, hd_sender_sign_public = c, hd_sender_kem_public = d,
             hd_sender_mldsa_public = option_of_field e, hd_sender_mlkem_public = option_of_field f, hd_sender_fpr = g,
             hd_recipients = rs, hd_manifest_nonce = h, hd_manifest_len = word_of_field i, hd_data_stream_nonce = j,
             hd_data_chunk_size = word_of_field k, hd_data_len = word_of_field l\<rparr>)
            (all_some (map (\<lambda>r. Option.bind (record_of_field r) stanza_of_fields) rs))
      | _ \<Rightarrow> None)"

definition entry_fields :: "entry \<Rightarrow> bytes list" where
  "entry_fields e =
     [as_bytes (en_path e), (case en_kind e of File \<Rightarrow> [] | Dir \<Rightarrow> [0]), nat_field (unat (en_size e)),
      option_field (map_option int_field (en_mtime e)), option_field (map_option (\<lambda>m. nat_field (unat m)) (en_mode e)),
      en_blake3 e, nat_field (unat (en_data_offset e))]"

definition entry_of_fields :: "bytes list \<Rightarrow> entry option" where
  "entry_of_fields xs =
     (case xs of
        [a, b, c, d, e, f, g] \<Rightarrow> Some
          \<lparr>en_path = string_of_field a, en_kind = (if b = [] then File else Dir), en_size = word_of_field c,
           en_mtime = map_option int_of_field (option_of_field d), en_mode = map_option word_of_field (option_of_field e),
           en_blake3 = f, en_data_offset = word_of_field g\<rparr>
      | _ \<Rightarrow> None)"

definition manifest_fields :: "manifest \<Rightarrow> bytes list" where
  "manifest_fields m =
     as_bytes (mf_vault_name m) # int_field (mf_created_at m) # map (\<lambda>e. record_field (entry_fields e)) (mf_entries m)"

definition manifest_of_fields :: "bytes list \<Rightarrow> manifest option" where
  "manifest_of_fields xs =
     (case xs of
        a # b # es \<Rightarrow>
          map_option (\<lambda>es. \<lparr>mf_vault_name = string_of_field a, mf_created_at = int_of_field b, mf_entries = es\<rparr>)
            (all_some (map (\<lambda>r. Option.bind (record_of_field r) entry_of_fields) es))
      | _ \<Rightarrow> None)"

definition demo_v1 :: v1_codecs where
  "demo_v1 = \<lparr>header_codec1 = fields_codec header_typed header_fields header_of_fields,
     manifest_codec1 = fields_codec manifest_typed manifest_fields manifest_of_fields\<rparr>"

lemma demo_v1_ok: "v1_codecs_ok demo_v1"
proof -
  have s: "stanza_of_fields (stanza_fields s) = Some s" for s
    by (simp add: stanza_of_fields_def stanza_fields_def)
  have "entry_of_fields (entry_fields e) = Some e" for e
    by (cases "en_kind e") (simp_all add: entry_of_fields_def entry_fields_def option.map_comp comp_def option.map_ident)
  then have "manifest_of_fields (manifest_fields m) = Some m" for m
    by (simp add: manifest_of_fields_def manifest_fields_def comp_def)
  moreover have "header_of_fields (header_fields h) = Some h" for h
    using s by (simp add: header_of_fields_def header_fields_def comp_def)
  ultimately show ?thesis by (simp add: v1_codecs_ok_def demo_v1_def fields_codec_ok)
qed

definition demo_identity :: identity where
  "demo_identity = \<lparr>id_name = [], id_created_at = 0, id_sign = replicate 32 0, id_kem = replicate 32 0, id_mldsa = None, id_mlkem = None\<rparr>"

definition demo_world :: world where
  "demo_world = \<lparr>rng_source = (\<lambda>_ n. Some (replicate n 0)), rng_calls = 0, io_faults = (\<lambda>_. None), io_calls = 0, fs = []\<rparr>"

definition demo_vault :: vault where
  "demo_vault = \<lparr>vault_name = ''v'', vault_created_at = 7, vault_entries =
     [\<lparr>ve_path = ''d'', ve_kind = Dir, ve_mtime = None, ve_mode = None, ve_content = []\<rparr>,
      \<lparr>ve_path = ''d/f'', ve_kind = File, ve_mtime = Some 5, ve_mode = None, ve_content = [1, 2, 3, 4, 5]\<rparr>,
      \<lparr>ve_path = ''g'', ve_kind = File, ve_mtime = None, ve_mode = None, ve_content = [6]\<rparr>]\<rparr>"

definition demo_options :: export_options where
  "demo_options = \<lparr>eo_suite = Classic, eo_chunk_size = 4\<rparr>"

lemma demo_crypto: "crypto_ok demo_lib"
  using demo_aead demo_keys demo_hashes by (simp add: crypto_ok_def)

lemma demo_identity_ok: "identity_ok demo_lib demo_identity" "addressed demo_lib demo_identity [id_public demo_lib demo_identity]"
  "rng_fills demo_world"
  by (simp_all add: identity_ok_def demo_identity_def addressed_def same_keys_def rng_fills_def demo_world_def)

lemma demo_entries: "build_entries demo_lib 0 (vault_entries demo_vault) =
    [\<lparr>en_path = ''d'', en_kind = Dir, en_size = 0, en_mtime = None, en_mode = None, en_blake3 = replicate 32 0, en_data_offset = 0\<rparr>,
     \<lparr>en_path = ''d/f'', en_kind = File, en_size = 5, en_mtime = Some 5, en_mode = None, en_blake3 = replicate 32 0, en_data_offset = 0\<rparr>,
     \<lparr>en_path = ''g'', en_kind = File, en_size = 1, en_mtime = None, en_mode = None, en_blake3 = replicate 32 0, en_data_offset = 5\<rparr>]"
  by (simp add: demo_vault_def ve_size_def demo_lib_def saturating_add_def checked_add_def Let_def)

lemma demo_manifest_bytes:
  "\<exists>pt. to_vec (manifest_codec1 demo_v1) (build_manifest demo_lib demo_vault) = Inr pt \<and> length pt \<le> 1000"
  by (simp add: to_vec_def demo_v1_def fields_codec_def build_manifest_def demo_entries manifest_fields_def entry_fields_def
      length_put_bytes_eq length_put_fields_eq record_field_def option_field_def int_field_def nat_field_def)
    (simp add: demo_vault_def)

lemma demo_vault_ok: "vault_good demo_vault" "vault_typed demo_vault" "fits demo_lib demo_v1 4 demo_vault"
proof -
  show "vault_good demo_vault" by code_simp
  show "vault_typed demo_vault" by (simp add: vault_typed_def demo_vault_def time_typed_def)
  show "fits demo_lib demo_v1 4 demo_vault"
    using demo_manifest_bytes
    by (auto simp: fits_def MAX_MANIFEST_LEN_def TAG_LEN_def length_chunks_of) (simp add: demo_vault_def file_data_def)
qed

definition zero_world :: "world \<Rightarrow> bool" where
  "zero_world w \<longleftrightarrow> rng_source w = (\<lambda>_ n. Some (replicate n 0))"

lemma zero_random:
  assumes "zero_world w"
  shows "\<exists>w'. getrandom n w = (Inr (replicate n 0), w') \<and> zero_world w'"
  using assms by (simp add: getrandom_def zero_world_def Let_def)

lemma demo_wrap:
  assumes "zero_world w"
  shows "\<exists>w' s. wrap_for_recipient demo_lib (replicate 32 0) (id_public demo_lib demo_identity) Classic w = (Inr s, w') \<and>
    length (recipient_fpr s) = 32 \<and> length (ephemeral_public s) = 32 \<and> mlkem_ciphertext s = None \<and>
    length (wrap_nonce s) = 24 \<and> length (wrapped_cek s) = 48"
proof -
  obtain w1 where 1: "getrandom 32 w = (Inr (replicate 32 0), w1)" "zero_world w1" using zero_random [OF assms] by blast
  obtain w2 where 2: "getrandom 24 w1 = (Inr (replicate 24 0), w2)" using zero_random [OF 1(2)] by blast
  show ?thesis using 1(1) 2
    by (simp add: wrap_for_recipient_def ephemeral_agree_def random_defs bnd_def Let_def derive_kwk_def derive_subkey_def
        seal_def seal_with_def cipher_def NONCE_LEN_def fingerprint_def demo_lib_def demo_tag_def)
qed

lemma demo_plan_at:
  assumes "zero_world w0"
  shows "\<exists>p w. plan_new demo_lib demo_v1 (build_manifest demo_lib demo_vault) 6 demo_identity [id_public demo_lib demo_identity] demo_options w0
     = (Inr p, w)"
proof -
  obtain pt where pt: "to_vec (manifest_codec1 demo_v1) (build_manifest demo_lib demo_vault) = Inr pt" "length pt \<le> 1000"
    using demo_manifest_bytes by blast
  obtain w1 where 1: "getrandom 32 w0 = (Inr (replicate 32 0), w1)" "zero_world w1" using zero_random [OF assms] by blast
  obtain w2 where 2: "getrandom 24 w1 = (Inr (replicate 24 0), w2)" "zero_world w2" using zero_random [OF 1(2)] by blast
  obtain w3 where 3: "getrandom 19 w2 = (Inr (replicate 19 0), w3)" "zero_world w3" using zero_random [OF 2(2)] by blast
  obtain w4 where 4: "getrandom 16 w3 = (Inr (replicate 16 0), w4)" "zero_world w4" using zero_random [OF 3(2)] by blast
  obtain w5 s where 5: "wrap_for_recipient demo_lib (replicate 32 0) (id_public demo_lib demo_identity) Classic w4 = (Inr s, w5)"
    and s: "length (recipient_fpr s) = 32" "length (ephemeral_public s) = 32" "mlkem_ciphertext s = None"
      "length (wrap_nonce s) = 24" "length (wrapped_cek s) = 48" using demo_wrap [OF 4(2)] by blast
  have n: "stream_nonce_len XChaCha20Poly1305 = 19" "nonce_len XChaCha20Poly1305 = 24"
    by (simp_all add: stream_nonce_len_def NONCE_LEN_def STREAM_OVERHEAD_def)
  have u: "unat (of_nat (length pt) + (of_nat TAG_LEN) :: u64) \<le> 1016"
  proof -
    have "of_nat (length pt) + (of_nat TAG_LEN) = (of_nat (length pt + 16) :: u64)" by (simp add: TAG_LEN_def)
    moreover have "unat (of_nat (length pt + 16) :: u64) = length pt + 16" using pt(2) by (simp add: unat_of_nat del: of_nat_add)
    ultimately show ?thesis using pt(2) by simp
  qed
  have d: "unat (data_ciphertext_len 6 4) = 38" by (simp add: data_ciphertext_len_def num_chunks_def TAG_LEN_def)
  have k: "length (pi_sign_public (id_public demo_lib demo_identity)) = 32" "length (pi_kem_public (id_public demo_lib demo_identity)) = 32"
    "length (id_fingerprint demo_lib demo_identity) = 32"
    by (simp_all add: demo_lib_def id_fingerprint_def fingerprint_def)
  show ?thesis
    using pt 1(1) 2(1) 3(1) 4(1) 5 n s u d k
    by (simp add: plan_new_def demo_options_def is_supported_def bnd_def random_defs Let_def to_vec_def demo_v1_def fields_codec_def
        header_fields_def stanza_fields_def record_field_def option_field_def nat_field_def length_put_fields_eq length_put_bytes_eq
        MAX_CONTAINER_HEADER_LEN_def id_public_def demo_identity_def)
qed

lemma demo_plan:
  "\<exists>p w. plan_new demo_lib demo_v1 (build_manifest demo_lib demo_vault) 6 demo_identity [id_public demo_lib demo_identity] demo_options demo_world
     = (Inr p, w)"
  by (rule demo_plan_at) (simp add: zero_world_def demo_world_def)

lemma demo_data: "tame (vcr_source (vault_entries demo_vault, 0))"
  "length (chunks_of (eo_chunk_size demo_options) (content (vcr_source (vault_entries demo_vault, 0)))) < 2 ^ 32"
  "\<forall>pt. to_vec (manifest_codec1 demo_v1) (build_manifest demo_lib demo_vault) = Inr pt \<longrightarrow> length pt + TAG_LEN \<le> unat MAX_MANIFEST_LEN"
  "content (vcr_source (vault_entries demo_vault, 0)) = [1, 2, 3, 4, 5, 6]" "flowing (vcr_source (vault_entries demo_vault, 0))"
proof -
  let ?d = "vcr_source (vault_entries demo_vault, 0)"
  show d: "content ?d = [1, 2, 3, 4, 5, 6]" "flowing ?d"
    using vcr_source_data [of "vault_entries demo_vault"] by (simp_all add: demo_vault_def file_data_def)
  then show "tame ?d" by (intro flowing_tame)
  show "length (chunks_of (eo_chunk_size demo_options) (content ?d)) < 2 ^ 32"
    using d(1) by (simp add: demo_options_def length_chunks_of)
  show "\<forall>pt. to_vec (manifest_codec1 demo_v1) (build_manifest demo_lib demo_vault) = Inr pt \<longrightarrow> length pt + TAG_LEN \<le> unat MAX_MANIFEST_LEN"
    using demo_vault_ok(3) by (simp add: fits_def)
qed

lemma demo_written:
  "\<exists>p w b. plan_new demo_lib demo_v1 (build_manifest demo_lib demo_vault) 6 demo_identity
      [id_public demo_lib demo_identity] demo_options demo_world = (Inr p, w) \<and>
     to_buffer (plan_write demo_lib p) (vcr_source (vault_entries demo_vault, 0)) (w, []) = (Inr (), (w, b))"
proof -
  from demo_plan obtain p w where p: "plan_new demo_lib demo_v1 (build_manifest demo_lib demo_vault) 6 demo_identity
      [id_public demo_lib demo_identity] demo_options demo_world = (Inr p, w)" by blast
  have "\<exists>b. to_buffer (plan_write demo_lib p) (vcr_source (vault_entries demo_vault, 0)) (w, []) = (Inr (), (w, b))"
    using plan_write_returns [OF p demo_identity_ok(3) demo_data(5) _ _ demo_data(2) _ demo_crypto demo_aead(3) demo_identity_ok(1)] demo_data(3,4)
    by (simp add: demo_options_def MAX_CHUNK_SIZE_def)
  with p show ?thesis by blast
qed

lemma demo_export:
  "\<exists>w b. export_vault demo_lib demo_v1 demo_vault demo_identity [id_public demo_lib demo_identity] demo_options to_buffer (demo_world, [])
     = (Inr (), (w, b)) \<and> length b < 2 ^ 64"
proof -
  obtain p w b where p: "plan_new demo_lib demo_v1 (build_manifest demo_lib demo_vault) 6 demo_identity
      [id_public demo_lib demo_identity] demo_options demo_world = (Inr p, w)"
    "to_buffer (plan_write demo_lib p) (vcr_source (vault_entries demo_vault, 0)) (w, []) = (Inr (), (w, b))"
    using demo_written by blast
  have "length b = unat (container_len True p)"
    using planned_length [OF p demo_identity_ok(3) demo_data(1) demo_crypto demo_identity_ok(1) _ demo_data(2)] demo_data(3) by blast
  then have "length b < 2 ^ 64" using unsigned_less [of "container_len True p", where ?'a = nat] by simp
  moreover have "total_size demo_vault = 6" by (simp add: total_size_def demo_vault_def ve_size_def)
  ultimately show ?thesis using p by (auto simp: export_vault_def write_container_def bnd_def)
qed

lemma export_imports:
  assumes "crypto_ok L" and "v1_codecs_ok C" and "vault_good v" and "vault_typed v" and "fits L C (eo_chunk_size options) v"
    and "identity_ok L sender" and "identity_ok L i" and "addressed L i rs" and "rng_fills w"
    and "export_vault L C v sender rs options to_buffer (w, []) = (Inr (), (w', b))"
  shows "import_vault L True C b i = Inr (imported_from L sender (eo_suite options) v)"
proof -
  have "flowing (vcr_source (vault_entries v, 0))" and c: "content (vcr_source (vault_entries v, 0)) = vault_data (vault_entries v)"
    using vcr_source_data by blast+
  then have "tame (vcr_source (vault_entries v, 0))" by (intro flowing_tame)
  moreover have "total_size v = len64 (vault_data (vault_entries v))"
    using total_size_data [of v] assms(3) by (auto simp: vault_good_def entry_good_def list_all_iff)
  ultimately show ?thesis
    using written_imports [OF assms(10) [unfolded export_vault_def] _ c _ assms(1,2,9,3,4,5,6,7,8)] c by simp
qed

lemma demo_imports:
  assumes "export_vault demo_lib demo_v1 demo_vault demo_identity [id_public demo_lib demo_identity] demo_options to_buffer (demo_world, [])
       = (Inr (), (w, b))"
  shows "import_vault demo_lib True demo_v1 b demo_identity = Inr (imported_from demo_lib demo_identity Classic demo_vault)"
proof -
  have "fits demo_lib demo_v1 (eo_chunk_size demo_options) demo_vault" using demo_vault_ok(3) by (simp add: demo_options_def)
  from export_imports [OF demo_crypto demo_v1_ok demo_vault_ok(1,2) this demo_identity_ok(1,1,2,3) assms] show ?thesis
    by (simp add: demo_options_def)
qed

subsection \<open>Properties\<close>

text \<open>C5. A container carries its vault. Whatever a completed export wrote, every recipient
  imports it as the very vault that was exported, with the sender's keys and fingerprint: all
  three suites, one or two signatures, any chunk size, any number of recipients.\<close>

theorem export_import_roundtrip:
  assumes "crypto_ok L" and "v1_codecs_ok C" and "vault_good v" and "vault_typed v" and "fits L C (eo_chunk_size options) v"
    and "identity_ok L sender" and "identity_ok L i" and "addressed L i rs" and "rng_fills w"
    and "export_vault L C v sender rs options to_buffer (w, []) = (Inr (), (w', b))"
  shows "import_vault L True C b i = Inr (imported_from L sender (eo_suite options) v)"
  by (rule export_imports [OF assms])

theorem export_import_roundtrip_witness:
  "\<exists>w b. export_vault demo_lib demo_v1 demo_vault demo_identity [id_public demo_lib demo_identity] demo_options to_buffer (demo_world, [])
       = (Inr (), (w, b)) \<and>
     import_vault demo_lib True demo_v1 b demo_identity = Inr (imported_from demo_lib demo_identity Classic demo_vault)"
proof -
  obtain w b where e: "export_vault demo_lib demo_v1 demo_vault demo_identity [id_public demo_lib demo_identity] demo_options to_buffer (demo_world, [])
       = (Inr (), (w, b))" using demo_export by blast
  have "fits demo_lib demo_v1 (eo_chunk_size demo_options) demo_vault" using demo_vault_ok(3) by (simp add: demo_options_def)
  from export_import_roundtrip [OF demo_crypto demo_v1_ok demo_vault_ok(1,2) this demo_identity_ok(1,1,2,3) e] e show ?thesis
    by (auto simp: demo_options_def)
qed

text \<open>C32. The length that a direct transfer announces before it encrypts anything is exact: for
  every manifest and every source of data, a container that was written completely has as many
  bytes as \<open>container_len\<close> said.\<close>

theorem declared_length_exact:
  assumes "crypto_ok L" and "identity_ok L sender" and "rng_fills w" and "tame data"
    and "plan_new L C m n sender rs options w = (Inr p, w1)"
    and "length (chunks_of (eo_chunk_size options) (content data)) < 2 ^ 32"
    and "\<forall>pt. to_vec (manifest_codec1 C) m = Inr pt \<longrightarrow> length pt + TAG_LEN \<le> unat MAX_MANIFEST_LEN"
    and "to_buffer (plan_write L p) data (w1, []) = (Inr (), (w2, b))"
  shows "length b = unat (container_len True p)"
  using planned_length [OF assms(5,8,3,4,1,2) _ assms(6)] assms(7) by blast

theorem declared_length_exact_witness:
  "\<exists>p w b. to_buffer (plan_write demo_lib p) (vcr_source (vault_entries demo_vault, 0)) (w, []) = (Inr (), (w, b)) \<and>
     length b = unat (container_len True p)"
proof -
  obtain p w b where e: "plan_new demo_lib demo_v1 (build_manifest demo_lib demo_vault) 6 demo_identity
      [id_public demo_lib demo_identity] demo_options demo_world = (Inr p, w)"
    "to_buffer (plan_write demo_lib p) (vcr_source (vault_entries demo_vault, 0)) (w, []) = (Inr (), (w, b))"
    using demo_written by blast
  from declared_length_exact [OF demo_crypto demo_identity_ok(1,3) demo_data(1) e(1) demo_data(2,3) e(2)] e(2) show ?thesis
    by blast
qed

text \<open>C16. The streaming reader accepts exactly what the importer accepts. On a disk that answers,
  opening a container with verification and then reading all of it succeeds just when importing
  its bytes does, with the same vault, suite, fingerprint and sender keys. (Only the order of the
  checks differs: the streaming reader opens the manifest before the signature is checked.)\<close>

theorem verify_open_equals_import:
  assumes "no_faults w" and "fs_get w path = Some (FileNode b)" and "length b < 2 ^ 64"
  shows "import_vault L pqc C b i = Inr iv \<longleftrightarrow>
    (\<exists>rd s w'. verify_and_open L pqc C path i w = (Inr (rd, s), w') \<and> fst (vr_to_vault L rd w') = Inr (iv_vault iv) \<and>
       vr_suite rd = iv_suite iv \<and> vs_fingerprint s = iv_sender_fingerprint iv \<and> vs_public s = sender_public iv)"
  by (rule verified_import [OF assms])

theorem verify_open_equals_import_witness:
  "\<exists>w rd s w'. verify_and_open demo_lib True demo_v1 ''c'' demo_identity w = (Inr (rd, s), w') \<and>
     fst (vr_to_vault demo_lib rd w') = Inr demo_vault"
proof -
  obtain w1 b where e: "export_vault demo_lib demo_v1 demo_vault demo_identity [id_public demo_lib demo_identity] demo_options to_buffer (demo_world, [])
       = (Inr (), (w1, b))" and l: "length b < 2 ^ 64" using demo_export by blast
  have i: "import_vault demo_lib True demo_v1 b demo_identity = Inr (imported_from demo_lib demo_identity Classic demo_vault)"
    using demo_imports [OF e] .
  let ?w = "demo_world\<lparr>fs := [(''c'', FileNode b)]\<rparr>"
  have "no_faults ?w" "fs_get ?w ''c'' = Some (FileNode b)" by (simp_all add: no_faults_def demo_world_def fs_get_def)
  from verify_open_equals_import [OF this l, of demo_lib True demo_v1 demo_identity "imported_from demo_lib demo_identity Classic demo_vault"] i
  show ?thesis by (auto simp: imported_from_def)
qed

text \<open>C15. Whatever bytes the importer accepts, from whomever they are, the vault they give is well formed:
  every path is relative, normalized and free of traversal, no two entries share a path, nothing
  lies beneath a file, a directory has no content, and there are not more entries than the limit;
  a vault that such an importer can be given again.\<close>

theorem import_accepts_only_good:
  assumes "import_vault L pqc C b i = Inr iv"
  shows "vault_good (iv_vault iv)"
  by (rule imported_good [OF assms])

theorem import_accepts_only_good_witness:
  "\<exists>b iv. import_vault demo_lib True demo_v1 b demo_identity = Inr iv \<and> vault_entries (iv_vault iv) \<noteq> [] \<and> vault_good (iv_vault iv)"
proof -
  obtain w b where e: "export_vault demo_lib demo_v1 demo_vault demo_identity [id_public demo_lib demo_identity] demo_options to_buffer (demo_world, [])
       = (Inr (), (w, b))" using demo_export by blast
  from import_accepts_only_good [OF demo_imports [OF e]] demo_imports [OF e] show ?thesis
    by (intro exI conjI) (auto simp: imported_from_def demo_vault_def)
qed

text \<open>C33. Writing a container comes to an end and reports success. For every plan, every source that
  gives its data in whatever pieces, and a destination that takes every write, the loop over the
  chunks ends and the container is complete.\<close>

theorem export_completes:
  assumes "crypto_ok L" and "aead_total L" and "identity_ok L sender" and "rng_fills w" and "flowing data"
    and "plan_new L C m (len64 (content data)) sender rs options w = (Inr p, w1)" and "eo_chunk_size options \<le> MAX_CHUNK_SIZE"
    and "length (chunks_of (eo_chunk_size options) (content data)) < 2 ^ 32"
    and "\<forall>pt. to_vec (manifest_codec1 C) m = Inr pt \<longrightarrow> length pt + TAG_LEN \<le> unat MAX_MANIFEST_LEN"
  shows "\<exists>b. to_buffer (plan_write L p) data (w1, buf) = (Inr (), (w1, b))"
  using plan_write_returns [OF assms(6,4,5) refl assms(7,8) _ assms(1,2,3)] assms(9) by blast

theorem export_completes_witness:
  "\<exists>p w b. to_buffer (plan_write demo_lib p) (vcr_source (vault_entries demo_vault, 0)) (w, []) = (Inr (), (w, b))"
proof -
  from demo_plan obtain p w where "plan_new demo_lib demo_v1 (build_manifest demo_lib demo_vault) 6 demo_identity
      [id_public demo_lib demo_identity] demo_options demo_world = (Inr p, w)" by blast
  then have p: "plan_new demo_lib demo_v1 (build_manifest demo_lib demo_vault) (len64 (content (vcr_source (vault_entries demo_vault, 0)))) demo_identity
      [id_public demo_lib demo_identity] demo_options demo_world = (Inr p, w)" using demo_data(4) by simp
  have "eo_chunk_size demo_options \<le> MAX_CHUNK_SIZE" by (simp add: demo_options_def MAX_CHUNK_SIZE_def)
  from export_completes [OF demo_crypto demo_aead(3) demo_identity_ok(1,3) demo_data(5) p this demo_data(2,3)] show ?thesis by blast
qed

end
