(* ===== verification/V2_Export.thy ===== *)
theory V2_Export
  imports V2_Blobs V2_Commit V1_Roundtrip
begin

section \<open>A transport container from a vault at rest (format_v2.rs)\<close>

text \<open>
  An at-rest vault is written as a signed container without holding its plaintext: the manifest of
  the container is computed from the metadata, and the data are the blobs, decrypted one after the
  other. The trash stays behind.
\<close>

record export_file =
  xf_file_id :: string
  xf_key :: bytes
  xf_nonce :: bytes
  xf_blake3 :: bytes
  xf_size :: u64
  xf_chunk_size :: u32

record v2_export_plan =
  xp_reader :: vault_reader_v2
  xp_files :: "export_file list"
  xp_plan :: container_plan

text \<open>One round of the loop over the manifest: the entries, the blobs to stream and the offset.\<close>

definition export_step :: "entry_v2 \<Rightarrow> entry list \<times> export_file list \<times> u64 \<Rightarrow> (entry list \<times> export_file list \<times> u64) result" where
  "export_step e st =
     (case st of (entries, todo, offset) \<Rightarrow>
      if is_trashed (e2_path e) then Inr st
      else
        case e2_kind e of
          Dir \<Rightarrow>
            Inr (entries @ [\<lparr>en_path = e2_path e, en_kind = Dir, en_size = 0, en_mtime = e2_mtime e, en_mode = e2_mode e,
                             en_blake3 = replicate 32 0, en_data_offset = 0\<rparr>], todo, offset)
        | File \<Rightarrow>
            let entries = entries @ [\<lparr>en_path = e2_path e, en_kind = File, en_size = e2_size e, en_mtime = e2_mtime e,
                                      en_mode = e2_mode e, en_blake3 = e2_blake3 e, en_data_offset = offset\<rparr>] in
            rbind (blob_id e) (\<lambda>file_id.
            rbind (ok_or (Format ''missing blob key'') (e2_key e)) (\<lambda>key.
            rbind (ok_or (Format ''missing blob nonce'') (e2_nonce e)) (\<lambda>nonce.
              let todo = todo @ [\<lparr>xf_file_id = file_id, xf_key = key, xf_nonce = nonce, xf_blake3 = e2_blake3 e,
                                    xf_size = e2_size e, xf_chunk_size = e2_chunk_size e\<rparr>] in
              rbind (ok_or (Format ''size overflow'') (checked_add offset (e2_size e))) (\<lambda>offset.
                Inr (entries, todo, offset))))))"

definition export_plan ::
  "lib \<Rightarrow> v1_codecs \<Rightarrow> vault_reader_v2 \<Rightarrow> identity \<Rightarrow> public_identity list \<Rightarrow> export_options \<Rightarrow> v2_export_plan io" where
  "export_plan L C self sender recipients options =
     bnd (lift (rfold export_step (m2_entries (v2_manifest self)) ([], [], 0))) (\<lambda>(entries, todo, offset).
       let manifest = \<lparr>mf_vault_name = m2_vault_name (v2_manifest self), mf_created_at = m2_created_at (v2_manifest self),
                       mf_entries = entries\<rparr> in
       bnd (plan_new L C manifest offset sender recipients options) (\<lambda>plan.
         ret \<lparr>xp_reader = self, xp_files = todo, xp_plan = plan\<rparr>))"

definition xp_container_size :: "bool \<Rightarrow> v2_export_plan \<Rightarrow> u64" where
  "xp_container_size pqc self = container_len pqc (xp_plan self)"

text \<open>
  \<open>V2PlaintextReader\<close> as a source: each blob is opened and decrypted in turn, a blob that does not
  open is an error where its data would begin, and after its data its digest is checked. The model
  opens the blobs when the source is made; the code does so between the writes to the destination,
  which are not calls on the blobs.
\<close>

definition auth_io_err :: io_error where "auth_io_err = IoWrapped InvalidData Auth"

definition advance_blob :: "vault_reader_v2 \<Rightarrow> export_file \<Rightarrow> stream_decrypt_reader io" where
  "advance_blob self f =
     bnd (open_blob self (xf_file_id f) (xf_size f) (xf_chunk_size f)) (\<lambda>file.
       lift (sdr_new_with (v2_alg self) (xf_key f) (xf_nonce f) (v2_header_bytes self) (file_source file) (unat (xf_chunk_size f))))"

definition current_blob :: "lib \<Rightarrow> export_file \<Rightarrow> error + stream_decrypt_reader \<Rightarrow> source" where
  "current_blob L f opened =
     (case opened of
        Inl e \<Rightarrow> [Inl (IoWrapped InvalidData e)]
      | Inr d \<Rightarrow>
          let data = sdr_source L d in
          data @ (if ct_eq (blake3 L (content data)) (xf_blake3 f) then [] else [Inl auth_io_err]))"

definition stream_blob :: "lib \<Rightarrow> vault_reader_v2 \<Rightarrow> export_file \<Rightarrow> source \<Rightarrow> source io" where
  "stream_blob L self f data = bnd (attempt (advance_blob self f)) (\<lambda>opened. ret (data @ current_blob L f opened))"

definition plaintext_source :: "lib \<Rightarrow> vault_reader_v2 \<Rightarrow> export_file list \<Rightarrow> source io" where
  "plaintext_source L self todo = io_fold (stream_blob L self) todo []"

definition xp_write_to :: "lib \<Rightarrow> v2_export_plan \<Rightarrow> 'o dest \<Rightarrow> (world \<times> 'o, unit) op" where
  "xp_write_to L self out =
     bnd (on_fst (plaintext_source L (xp_reader self) (xp_files self))) (\<lambda>data.
       out (plan_write L (xp_plan self)) data)"

definition v2_export ::
  "lib \<Rightarrow> v1_codecs \<Rightarrow> vault_reader_v2 \<Rightarrow> identity \<Rightarrow> public_identity list \<Rightarrow> export_options \<Rightarrow> 'o dest \<Rightarrow> (world \<times> 'o, unit) op" where
  "v2_export L C reader sender recipients options out =
     bnd (on_fst (export_plan L C reader sender recipients options)) (\<lambda>plan. xp_write_to L plan out)"

definition export_v2_to_path ::
  "lib \<Rightarrow> v1_codecs \<Rightarrow> vault_reader_v2 \<Rightarrow> identity \<Rightarrow> public_identity list \<Rightarrow> export_options \<Rightarrow> string \<Rightarrow> unit io" where
  "export_v2_to_path L C reader sender recipients options path =
     bnd (export_plan L C reader sender recipients options) (\<lambda>plan.
       written_to_path L path (xp_write_to L plan))"

subsection \<open>The vault that is exported\<close>

definition exported_entry :: "(entry_v2 \<Rightarrow> bytes) \<Rightarrow> entry_v2 \<Rightarrow> vault_entry" where
  "exported_entry data e =
     \<lparr>ve_path = e2_path e, ve_kind = e2_kind e, ve_mtime = e2_mtime e, ve_mode = e2_mode e,
      ve_content = (if e2_kind e = File then data e else [])\<rparr>"

definition exported_vault :: "vault_reader_v2 \<Rightarrow> (entry_v2 \<Rightarrow> bytes) \<Rightarrow> vault" where
  "exported_vault rd data =
     \<lparr>vault_name = m2_vault_name (v2_manifest rd), vault_created_at = m2_created_at (v2_manifest rd),
      vault_entries = map (exported_entry data) (filter (\<lambda>e. \<not> is_trashed (e2_path e)) (m2_entries (v2_manifest rd)))\<rparr>"

definition export_file_of :: "entry_v2 \<Rightarrow> export_file" where
  "export_file_of e =
     \<lparr>xf_file_id = the (e2_file_id e), xf_key = the (e2_key e), xf_nonce = the (e2_nonce e), xf_blake3 = e2_blake3 e,
      xf_size = e2_size e, xf_chunk_size = e2_chunk_size e\<rparr>"

abbreviation live_files :: "entry_v2 list \<Rightarrow> entry_v2 list" where
  "live_files es \<equiv> filter (\<lambda>e. \<not> is_trashed (e2_path e) \<and> e2_kind e = File) es"

lemma checked_add_eq: "checked_add (a :: u64) b = Some c \<longleftrightarrow> unat a + unat b < 2 ^ 64 \<and> c = a + b"
  by (auto simp: checked_add_def)

lemma export_step_other:
  "is_trashed (e2_path e) \<Longrightarrow> export_step e st = Inr st"
  "\<not> is_trashed (e2_path e) \<Longrightarrow> e2_kind e = Dir \<Longrightarrow>
     export_step e (ents, todo, off) = Inr (ents @ [dir_of (exported_entry data e)], todo, off)"
  by (simp_all add: export_step_def dir_of_def exported_entry_def split: prod.splits)

lemma export_step_file:
  assumes "\<not> is_trashed (e2_path e)" and "e2_kind e = File" and "blob_holds L rd w e (data e)"
  shows "export_step e (ents, todo, off) =
    rbind (ok_or (Format ''size overflow'') (checked_add off (e2_size e))) (\<lambda>off'.
      Inr (ents @ [file_of L off (exported_entry data e)], todo @ [export_file_of e], off'))"
proof -
  from assms(3) obtain i key nonce where e: "e2_file_id e = Some i" "e2_key e = Some key" "e2_nonce e = Some nonce" "blob_id_ok i"
    and sz: "length (data e) = unat (e2_size e)" "blake3 L (data e) = e2_blake3 e" by (auto simp: blob_holds_def)
  have "blob_id e = Inr i" using e(1,4) validate_blob_id_iff [of i] by (simp add: blob_id_def)
  moreover have "len64 (data e) = e2_size e" using sz(1) by simp
  ultimately show ?thesis using assms(1,2) e(1-3) sz(2)
    by (simp add: export_step_def Let_def file_of_def exported_entry_def export_file_of_def)
qed

lemma export_loop:
  assumes "rfold export_step es (ents, todo, of_nat k) = Inr (ents', todo', off)" and "k < 2 ^ 64"
    and "\<forall>e\<in>set (live_files es). blob_holds L rd w e (data e)"
  shows "let vs = map (exported_entry data) (filter (\<lambda>e. \<not> is_trashed (e2_path e)) es) in
    ents' = ents @ build_entries L (of_nat k) vs \<and> todo' = todo @ map export_file_of (live_files es) \<and>
    k + length (vault_data vs) < 2 ^ 64 \<and> off = of_nat (k + length (vault_data vs))"
  using assms
proof (induction es arbitrary: ents todo k)
  case (Cons e es)
  let ?vs = "map (exported_entry data) (filter (\<lambda>e. \<not> is_trashed (e2_path e)) es)"
  consider "is_trashed (e2_path e)" | "\<not> is_trashed (e2_path e)" "e2_kind e = Dir" | "\<not> is_trashed (e2_path e)" "e2_kind e = File"
    by (cases "e2_kind e") auto
  then show ?case
  proof cases
    case 1
    then show ?thesis using Cons.IH [of ents todo k] Cons.prems by (simp add: export_step_other Let_def)
  next
    case 2
    let ?v = "exported_entry data e"
    have d: "file_data ?v = []" "ve_kind ?v = Dir" using 2 by (simp_all add: file_data_def exported_entry_def)
    have k: "k + length (file_data ?v) < 2 ^ 64" using Cons.prems(2) d(1) by simp
    have IH: "let vs = ?vs in ents' = (ents @ [dir_of ?v]) @ build_entries L (of_nat k) vs \<and>
        todo' = todo @ map export_file_of (live_files es) \<and> k + length (vault_data vs) < 2 ^ 64 \<and> off = of_nat (k + length (vault_data vs))"
      by (rule Cons.IH) (use 2 Cons.prems in \<open>simp_all add: export_step_other(2) [of e _ _ _ data]\<close>)
    show ?thesis using IH 2 d build_entries_Cons [OF k, of L ?vs] by (simp add: Let_def)
  next
    case 3
    let ?v = "exported_entry data e"
    have h: "blob_holds L rd w e (data e)" using Cons.prems(3) 3 by simp
    then have sz: "length (data e) = unat (e2_size e)" by (auto simp: blob_holds_def)
    have v: "file_data ?v = data e" "ve_kind ?v = File" using 3 by (simp_all add: file_data_def exported_entry_def)
    obtain off1 where a: "checked_add (of_nat k) (e2_size e) = Some off1"
      and r: "rfold export_step es (ents @ [file_of L (of_nat k) ?v], todo @ [export_file_of e], off1) = Inr (ents', todo', off)"
      using Cons.prems(1) unfolding rfold.simps export_step_file [where data = data, OF 3 h] by (auto simp: rbind_eq_Inr ok_or_eq_Inr)
    have l: "(of_nat (length (data e)) :: u64) = e2_size e" using sz by simp
    have k: "k + length (file_data ?v) < 2 ^ 64" using a Cons.prems(2) sz v(1) by (auto simp: checked_add_eq unat_of_nat)
    have off1: "off1 = of_nat (k + length (file_data ?v))" using a v(1) l by (auto simp: checked_add_eq)
    have IH: "let vs = ?vs in ents' = (ents @ [file_of L (of_nat k) ?v]) @ build_entries L (of_nat (k + length (file_data ?v))) vs \<and>
        todo' = (todo @ [export_file_of e]) @ map export_file_of (live_files es) \<and>
        k + length (file_data ?v) + length (vault_data vs) < 2 ^ 64 \<and> off = of_nat (k + length (file_data ?v) + length (vault_data vs))"
      using Cons.IH [OF r [unfolded off1] k] Cons.prems(3) by simp
    show ?thesis using IH 3 v build_entries_Cons [OF k(1), of L ?vs]
      by (simp add: Let_def add.assoc del: of_nat_add build_entries.simps)
  qed
qed (simp add: Let_def)

definition blobs_intact :: "lib \<Rightarrow> vault_reader_v2 \<Rightarrow> world \<Rightarrow> (entry_v2 \<Rightarrow> bytes) \<Rightarrow> bool" where
  "blobs_intact L rd w data \<longleftrightarrow>
     (\<forall>e\<in>set (live_files (m2_entries (v2_manifest rd))). blob_holds L rd w e (data e) \<and>
        unat (num_chunks (e2_size e) (ucast (e2_chunk_size e))) < 2 ^ 32)"

lemma advance_blob_holds:
  assumes "aead_correct L" and "stream_be32 L" and "no_faults w" and "blob_holds L rd w e data"
    and "unat (num_chunks (e2_size e) (ucast (e2_chunk_size e))) < 2 ^ 32"
  obtains d where "advance_blob rd (export_file_of e) w = (Inr d, w\<lparr>io_calls := io_calls w + 2\<rparr>)"
    and "flowing (sdr_source L d)" and "content (sdr_source L d) = data"
proof -
  let ?c = "unat (e2_chunk_size e)"
  from assms(4) obtain i key nonce cts where e: "e2_file_id e = Some i" "e2_key e = Some key" "e2_nonce e = Some nonce"
    and p: "stream_params (v2_alg rd) key nonce ?c" and f: "fs_get w (blob_path rd i) = Some (FileNode (concat cts))"
    and c: "chunked (aead_encrypt L (v2_alg rd) key) nonce (v2_header_bytes rd) (chunks_of ?c data) cts"
    and sz: "length data = unat (e2_size e)" by (auto simp: blob_holds_def)
  have c0: "0 < ?c" "?c \<le> MAX_CHUNK_SIZE" using p by (simp_all add: stream_params_def)
  have nc: "unat (num_chunks (e2_size e) (of_nat ?c)) < 2 ^ 32" using assms(5) by simp
  have n: "length (chunks_of ?c data) < 2 ^ 32" using blob_arith(1) [OF c0 sz nc] nc by simp
  have "length (concat cts) = length data + TAG_LEN * length (chunks_of ?c data)"
    using length_concat_sealed [OF chunked_sealed(2) [OF assms(1) c c0(1)]] by simp
  note op = open_blob_holds [OF assms(3) f refl c0 sz nc this]
  from sealed_source [OF assms(1,2) p c n] obtain d where
    "sdr_new_with (v2_alg rd) key nonce (v2_header_bytes rd) (file_source (concat cts)) ?c = Inr d"
    "flowing (sdr_source L d)" "content (sdr_source L d) = data" by metis
  with op e show thesis by (intro that) (simp_all add: advance_blob_def export_file_of_def bnd_def)
qed

lemma content_append [simp]: "content (a @ b) = content a @ content b"
  by (induction a rule: content.induct) simp_all

lemma flowing_append [simp]: "flowing (a @ b) \<longleftrightarrow> flowing a \<and> flowing b"
  by (auto simp: flowing_def)

lemma plaintext_source_holds:
  assumes "aead_correct L" and "stream_be32 L" and "no_faults w"
    and "\<forall>e\<in>set es. blob_holds L rd w e (data e) \<and> unat (num_chunks (e2_size e) (ucast (e2_chunk_size e))) < 2 ^ 32"
    and "flowing src"
  shows "\<exists>src' k. io_fold (stream_blob L rd)
      (map export_file_of es) src w = (Inr src', w\<lparr>io_calls := k\<rparr>) \<and> flowing src' \<and> content src' = content src @ concat (map data es)"
  using assms(3-5)
proof (induction es arbitrary: w src)
  case Nil
  then show ?case by (intro exI [of _ src] exI [of _ "io_calls w"]) simp
next
  case (Cons e es)
  from Cons.prems(2) have h: "blob_holds L rd w e (data e)" "unat (num_chunks (e2_size e) (ucast (e2_chunk_size e))) < 2 ^ 32" by simp_all
  from advance_blob_holds [OF assms(1,2) Cons.prems(1) h] obtain d where
    d: "advance_blob rd (export_file_of e) w = (Inr d, w\<lparr>io_calls := io_calls w + 2\<rparr>)" "flowing (sdr_source L d)"
      "content (sdr_source L d) = data e" by blast
  have "blake3 L (data e) = e2_blake3 e" using h(1) by (auto simp: blob_holds_def)
  then have cur: "current_blob L (export_file_of e) (Inr d) = sdr_source L d"
    using d(3) by (simp add: current_blob_def export_file_of_def)
  let ?w = "w\<lparr>io_calls := io_calls w + 2\<rparr>"
  have step: "stream_blob L rd (export_file_of e) src w = (Inr (src @ sdr_source L d), ?w)"
    using d(1) cur by (simp add: stream_blob_def bnd_def attempt_def)
  have "\<exists>src' k. io_fold (stream_blob L rd)
      (map export_file_of es) (src @ sdr_source L d) ?w = (Inr src', ?w\<lparr>io_calls := k\<rparr>) \<and> flowing src' \<and>
      content src' = content (src @ sdr_source L d) @ concat (map data es)"
  proof (rule Cons.IH)
    show "no_faults ?w" using Cons.prems(1) by (simp add: no_faults_def)
    have "fs_get ?w = fs_get w" by (simp add: fs_get_def)
    then show "\<forall>e\<in>set es. blob_holds L rd ?w e (data e) \<and> unat (num_chunks (e2_size e) (ucast (e2_chunk_size e))) < 2 ^ 32"
      using Cons.prems(2) by (simp add: blob_holds_def)
    show "flowing (src @ sdr_source L d)" using Cons.prems(3) d(2) by simp
  qed
  then show ?case using d(3) step by (simp add: bnd_def [of "stream_blob L rd (export_file_of e) src"])
qed

lemma exported_data: "vault_data (vault_entries (exported_vault rd data)) = concat (map data (live_files (m2_entries (v2_manifest rd))))"
proof -
  have "vault_data (map (exported_entry data) (filter (\<lambda>e. \<not> is_trashed (e2_path e)) es)) = concat (map data (live_files es))" for es
  proof (induction es)
    case (Cons e es)
    then show ?case by (cases "e2_kind e") (simp_all add: exported_entry_def file_data_def)
  qed simp
  then show ?thesis by (simp add: exported_vault_def)
qed

lemma plan_new_world:
  assumes "plan_new L C m n sender rs options w = (Inr p, w1)"
  shows "fs_get w1 = fs_get w \<and> (no_faults w \<longrightarrow> no_faults w1)"
proof -
  have "preserves (\<lambda>v. fs_get v = fs_get w \<and> io_faults v = io_faults w) (wrap_for_recipient L cek r suite)" for cek r suite
    unfolding wrap_for_recipient_def ephemeral_agree_def wrap_hybrid_kwk_def mlkem_encapsulate_def random_defs Let_def
    by (intro preserves_intros) (simp_all add: fs_get_def)
  then have "preserves (\<lambda>v. fs_get v = fs_get w \<and> io_faults v = io_faults w) (plan_new L C m n sender rs options)"
    unfolding plan_new_def random_defs Let_def by (intro preserves_intros) (simp_all add: fs_get_def)
  from preservesD [OF this assms] show ?thesis by (simp add: no_faults_def)
qed

text \<open>The export of an intact vault is the export of its content.\<close>

lemma v2_export_written:
  assumes "aead_correct L" and "stream_be32 L" and "no_faults w" and "blobs_intact L rd w data"
    and "v2_export L C rd sender rs options to_buffer (w, buf) = (Inr (), (w', b))"
  shows "\<exists>src w1. write_container L C (build_manifest L (exported_vault rd data)) (len64 (content src)) src sender rs options to_buffer (w, buf)
      = (Inr (), (w1, b)) \<and> flowing src \<and> content src = vault_data (vault_entries (exported_vault rd data))"
proof -
  let ?v = "exported_vault rd data" and ?es = "m2_entries (v2_manifest rd)"
  obtain q w1 where q: "export_plan L C rd sender rs options w = (q, w1)" by force
  with assms(5) obtain plan where pl: "export_plan L C rd sender rs options w = (Inr plan, w1)"
    and wr: "xp_write_to L plan to_buffer (w1, buf) = (Inr (), (w', b))"
    by (cases q) (auto simp: v2_export_def bnd_def)
  from pl obtain ents todo off p where f: "rfold export_step ?es ([], [], 0) = Inr (ents, todo, off)"
    and p: "plan_new L C \<lparr>mf_vault_name = m2_vault_name (v2_manifest rd), mf_created_at = m2_created_at (v2_manifest rd),
        mf_entries = ents\<rparr> off sender rs options w = (Inr p, w1)" and plan: "plan = \<lparr>xp_reader = rd, xp_files = todo, xp_plan = p\<rparr>"
    by (auto simp: export_plan_def bnd_eq_Inr Let_def ret_eq_Inr)
  have int: "\<forall>e\<in>set (live_files ?es). blob_holds L rd w e (data e)" using assms(4) by (simp add: blobs_intact_def)
  from export_loop [where k = 0 and ents = "[]" and todo = "[]", OF _ _ int] f
  have l: "ents = build_entries L 0 (vault_entries ?v)" "todo = map export_file_of (live_files ?es)" "off = len64 (vault_data (vault_entries ?v))"
    by (simp_all add: Let_def exported_vault_def)
  have w1: "fs_get w1 = fs_get w" "no_faults w1"
    using plan_new_world [OF p] assms(3) by simp_all
  have "\<forall>e\<in>set (live_files ?es). blob_holds L rd w1 e (data e) \<and> unat (num_chunks (e2_size e) (ucast (e2_chunk_size e))) < 2 ^ 32"
    using assms(4) w1(1) by (simp add: blobs_intact_def blob_holds_def)
  from plaintext_source_holds [OF assms(1,2) w1(2) this, of "[]"] obtain src k where
    src: "plaintext_source L rd todo w1 = (Inr src, w1\<lparr>io_calls := k\<rparr>)" "flowing src" "content src = vault_data (vault_entries ?v)"
    by (auto simp: plaintext_source_def l(2) exported_data)
  have "to_buffer (plan_write L p) src (w1\<lparr>io_calls := k\<rparr>, buf) = (Inr (), (w', b))"
    using wr src(1) by (simp add: xp_write_to_def plan bnd_def)
  then have "to_buffer (plan_write L p) src (w1, buf) = (Inr (), (w1, b))"
    by (auto simp: to_buffer_def split: prod.splits)
  moreover have "plan_new L C (build_manifest L ?v) (len64 (content src)) sender rs options w = (Inr p, w1)"
    using p l src(3) by (simp add: build_manifest_def exported_vault_def)
  ultimately show ?thesis using src by (intro exI [of _ src] exI [of _ w1]) (simp add: write_container_def bnd_def)
qed

end
