(* ===== verification/V2_Exported.thy ===== *)
theory V2_Exported
  imports V2_Export V1_Properties
begin

section \<open>What is exported is what arrives\<close>

text \<open>
  The end-to-end property of sending a vault: the blobs on the sender's disk, the container and the
  recipient's importer agree on every file.
\<close>

definition sent_entry :: "string \<Rightarrow> int option \<Rightarrow> string \<Rightarrow> bytes \<Rightarrow> entry_v2" where
  "sent_entry path mtime i data =
     \<lparr>e2_path = path, e2_kind = File, e2_size = len64 data, e2_mtime = mtime, e2_mode = None, e2_blake3 = blake3 demo_lib data,
      e2_file_id = Some i, e2_key = Some (replicate 32 1), e2_nonce = Some (replicate 19 2), e2_chunk_size = 4\<rparr>"

definition sent_dir :: "string \<Rightarrow> entry_v2" where
  "sent_dir path =
     \<lparr>e2_path = path, e2_kind = Dir, e2_size = 0, e2_mtime = None, e2_mode = None, e2_blake3 = replicate 32 0,
      e2_file_id = None, e2_key = None, e2_nonce = None, e2_chunk_size = 0\<rparr>"

definition sent_reader :: vault_reader_v2 where
  "sent_reader = \<lparr>v2_dir = ''v'', v2_suite = Classic, v2_header_bytes = [], v2_manifest_key = replicate 32 1,
     v2_manifest = \<lparr>m2_vault_name = ''v'', m2_created_at = 7, m2_entries =
       [sent_dir ''d'', sent_entry ''d/f'' (Some 5) (replicate 32 CHR ''a'') [1, 2, 3, 4, 5],
        sent_entry ''g'' None (replicate 32 CHR ''b'') [6],
        sent_dir ''.trash'', sent_entry ''.trash/x'' None (replicate 32 CHR ''c'') [9]]\<rparr>,
     v2_owner_fingerprint = replicate 32 2, v2_state = None, v2_view = [], v2_pending_reclaim = []\<rparr>"

definition sent_world :: world where
  "sent_world = demo_world\<lparr>fs :=
     [(blob_path sent_reader (replicate 32 CHR ''a''), FileNode ([1, 2, 3, 4] @ demo_tag @ [5] @ demo_tag)),
      (blob_path sent_reader (replicate 32 CHR ''b''), FileNode ([6] @ demo_tag))]\<rparr>"

definition sent_data :: "entry_v2 \<Rightarrow> bytes" where
  "sent_data e = (if e2_path e = ''g'' then [6] else [1, 2, 3, 4, 5])"

lemma sent_vault: "exported_vault sent_reader sent_data = demo_vault"
  by (simp add: exported_vault_def exported_entry_def sent_reader_def sent_data_def demo_vault_def sent_entry_def sent_dir_def
      is_trashed_def TRASH_DIR_def)

lemma sent_live: "live_files (m2_entries (v2_manifest sent_reader)) =
    [sent_entry ''d/f'' (Some 5) (replicate 32 CHR ''a'') [1, 2, 3, 4, 5], sent_entry ''g'' None (replicate 32 CHR ''b'') [6]]"
  by (simp add: sent_reader_def sent_entry_def sent_dir_def is_trashed_def TRASH_DIR_def)

lemma sent_intact: "blobs_intact demo_lib sent_reader sent_world sent_data"
proof -
  have ne: "blob_path sent_reader (replicate 32 CHR ''b'') \<noteq> blob_path sent_reader (replicate 32 CHR ''a'')"
    by (simp add: blob_path_def path_join_def sent_reader_def BLOBS_DIR_def)
  have p: "stream_params (v2_alg sent_reader) (replicate 32 1) (replicate 19 2) 4"
    by (simp add: stream_params_def v2_alg_def sent_reader_def MAX_CHUNK_SIZE_def stream_nonce_len_def NONCE_LEN_def STREAM_OVERHEAD_def)
  have c: "chunks_of 4 [1, 2, 3, 4, 5 :: byte] = [[1, 2, 3, 4], [5]]" "chunks_of 4 [6 :: byte] = [[6]]" by code_simp+
  have "blob_holds demo_lib sent_reader sent_world (sent_entry ''d/f'' (Some 5) (replicate 32 CHR ''a'') [1, 2, 3, 4, 5]) [1, 2, 3, 4, 5]"
    unfolding blob_holds_def
    by (rule exI [of _ "replicate 32 CHR ''a''"], rule exI [of _ "replicate 32 1"], rule exI [of _ "replicate 19 2"], rule exI [of _ "[[1, 2, 3, 4] @ demo_tag, [5] @ demo_tag]"])
       (use p c in \<open>simp add: sent_entry_def sent_world_def fs_get_def chunked_def demo_lib_def blob_id_ok_def is_lower_hex_def less_Suc_eq list_all_iff\<close>)
  moreover have "blob_holds demo_lib sent_reader sent_world (sent_entry ''g'' None (replicate 32 CHR ''b'') [6]) [6]"
    unfolding blob_holds_def
    by (rule exI [of _ "replicate 32 CHR ''b''"], rule exI [of _ "replicate 32 1"], rule exI [of _ "replicate 19 2"], rule exI [of _ "[[6] @ demo_tag]"])
       (use p c ne in \<open>simp add: sent_entry_def sent_world_def fs_get_def chunked_def demo_lib_def blob_id_ok_def is_lower_hex_def list_all_iff\<close>)
  ultimately show ?thesis
    unfolding blobs_intact_def sent_live by (simp add: sent_data_def) (simp add: sent_entry_def num_chunks_def)
qed

lemma sent_names:
  "normalize_stored_path ''d'' = Inr ''d''" "normalize_stored_path ''d/f'' = Inr ''d/f''" "normalize_stored_path ''g'' = Inr ''g''"
  "normalize_stored_path ''.trash'' = Inr ''.trash''" "normalize_stored_path ''.trash/x'' = Inr ''.trash/x''"
  "is_ok (normalize_path ''d'') \<and> is_ok (normalize_path ''d/f'') \<and> is_ok (normalize_path ''g'')"
  by code_simp+

lemma sent_valid: "validate_manifest_v2 (v2_manifest sent_reader) (v2_alg sent_reader) = Inr ()"
proof -
  have "blob_id_ok (replicate 32 c)" if "is_lower_hex c" for c
    using that by (simp add: blob_id_ok_def list_all_iff)
  moreover have "stream_nonce_len (v2_alg sent_reader) = 19"
    by (simp add: v2_alg_def sent_reader_def stream_nonce_len_def NONCE_LEN_def STREAM_OVERHEAD_def)
  moreover have "m2_entries (v2_manifest sent_reader) =
       [sent_dir ''d'', sent_entry ''d/f'' (Some 5) (replicate 32 CHR ''a'') [1, 2, 3, 4, 5],
        sent_entry ''g'' None (replicate 32 CHR ''b'') [6],
        sent_dir ''.trash'', sent_entry ''.trash/x'' None (replicate 32 CHR ''c'') [9]]" by (simp add: sent_reader_def)
  moreover have "unat (num_chunks 5 (4 :: u64)) = 2" "unat (num_chunks 6 (4 :: u64)) = 2" "unat (num_chunks 1 (4 :: u64)) = 1"
    by (simp_all add: num_chunks_def)
  ultimately show ?thesis
    unfolding validate_manifest_v2_iff manifest_valid_def
    by (simp add: sent_entry_def sent_dir_def norm_of_def sent_names file_entry_ok_def is_lower_hex_def declared_size_def
        MAX_MANIFEST_ENTRIES_def MAX_CHUNK_SIZE_def beneath_def)
qed

lemma sent_export:
  "\<exists>w b. v2_export demo_lib demo_v1 sent_reader demo_identity [id_public demo_lib demo_identity] demo_options to_buffer (sent_world, [])
     = (Inr (), (w, b))"
proof -
  let ?m = "build_manifest demo_lib demo_vault"
  have f: "rfold export_step (m2_entries (v2_manifest sent_reader)) ([], [], 0)
      = Inr (mf_entries ?m, map export_file_of (live_files (m2_entries (v2_manifest sent_reader))), 6)"
  proof -
    have "validate_blob_id (replicate 32 CHR ''a'') = Inr ()" "validate_blob_id (replicate 32 CHR ''b'') = Inr ()"
      by (simp_all add: validate_blob_id_iff blob_id_ok_def list_all_iff is_lower_hex_def)
    then show ?thesis unfolding sent_live
      by (simp add: sent_reader_def export_step_def sent_entry_def sent_dir_def is_trashed_def TRASH_DIR_def blob_id_def
          checked_add_def build_manifest_def demo_vault_def export_file_of_def Let_def ve_size_def saturating_add_def)
  qed
  obtain p w where p: "plan_new demo_lib demo_v1 ?m 6 demo_identity [id_public demo_lib demo_identity] demo_options sent_world = (Inr p, w)"
    using demo_plan_at [of sent_world] by (auto simp: zero_world_def sent_world_def demo_world_def)
  have w: "fs_get w = fs_get sent_world" "no_faults w" using plan_new_world [OF p] by (simp_all add: no_faults_def sent_world_def demo_world_def)
  have "\<forall>e\<in>set (live_files (m2_entries (v2_manifest sent_reader))). blob_holds demo_lib sent_reader w e (sent_data e) \<and>
      unat (num_chunks (e2_size e) (ucast (e2_chunk_size e))) < 2 ^ 32"
    using sent_intact w(1) by (simp add: blobs_intact_def blob_holds_def)
  from plaintext_source_holds [OF _ _ w(2) this, of "[]"] demo_crypto obtain src k where
    src: "plaintext_source demo_lib sent_reader (map export_file_of (live_files (m2_entries (v2_manifest sent_reader)))) w = (Inr src, w\<lparr>io_calls := k\<rparr>)"
      "flowing src" "content src = [1, 2, 3, 4, 5, 6]"
    unfolding plaintext_source_def exported_data [symmetric] sent_vault by (auto simp: crypto_ok_def demo_vault_def file_data_def)
  have "rng_fills sent_world" by (simp add: rng_fills_def sent_world_def demo_world_def)
  from plan_write_returns [OF p this src(2) _ _ _ _ demo_crypto demo_aead(3) demo_identity_ok(1)] src(3) demo_data(3) obtain b where
    "to_buffer (plan_write demo_lib p) src (w, []) = (Inr (), (w, b))"
    by (auto simp: demo_options_def MAX_CHUNK_SIZE_def length_chunks_of)
  then have "to_buffer (plan_write demo_lib p) src (w\<lparr>io_calls := k\<rparr>, []) = (Inr (), (w\<lparr>io_calls := k\<rparr>, b))"
    by (auto simp: to_buffer_def split: prod.splits)
  moreover have "export_plan demo_lib demo_v1 sent_reader demo_identity [id_public demo_lib demo_identity] demo_options sent_world
      = (Inr \<lparr>xp_reader = sent_reader, xp_files = map export_file_of (live_files (m2_entries (v2_manifest sent_reader))), xp_plan = p\<rparr>, w)"
    using f p by (simp add: export_plan_def bnd_def lift_def) (simp add: sent_reader_def build_manifest_def demo_vault_def)
  ultimately show ?thesis using src(1) by (simp add: v2_export_def xp_write_to_def bnd_def)
qed

text \<open>An opened vault whose live names an importer lets through, under the names that it gives them.\<close>

lemma received_good:
  assumes "validate_manifest_v2 (v2_manifest rd) alg = Inr ()" and "v = exported_vault rd data"
    and "\<forall>e\<in>set (vault_entries v). is_ok (normalize_path (ve_path e))"
  shows "list_all named_good (vault_entries v) \<and> vault_good (cleaned_vault v)"
proof -
  let ?es = "m2_entries (v2_manifest rd)" and ?live = "\<lambda>e. \<not> is_trashed (e2_path e)"
  let ?c = "\<lambda>e. cleaned (exported_entry data e)"
  have vs: "vault_entries v = map (exported_entry data) (filter ?live ?es)" by (simp add: assms(2) exported_vault_def)
  from assms(1) have valid: "manifest_valid alg (v2_manifest rd)" by (simp add: validate_manifest_v2_iff)
  then have valid: "length ?es \<le> MAX_MANIFEST_ENTRIES" "distinct (map norm_of ?es)"
      "\<forall>e\<in>set ?es. \<forall>f\<in>set ?es. e2_kind f = File \<longrightarrow> \<not> beneath (norm_of f) (norm_of e)"
    unfolding manifest_valid_def by blast+
  have path: "ve_path (?c e) = norm_of e \<and> normalize_path (norm_of e) = Inr (norm_of e)" if "e \<in> set (filter ?live ?es)" for e
  proof -
    from assms(3) that obtain n where n: "normalize_path (e2_path e) = Inr n" unfolding vs by (force simp: exported_entry_def is_ok_iff)
    then have "norm_of e = n" by (auto simp: norm_of_def normalize_path_eq_Inr)
    with n show ?thesis using normalize_path_idem cleaned_path [of "exported_entry data e" n] by (simp add: exported_entry_def)
  qed
  have kind: "ve_kind (exported_entry data e) = e2_kind e" "e2_kind e = Dir \<Longrightarrow> ve_content (exported_entry data e) = []" for e
    by (simp_all add: exported_entry_def)
  have "map ve_path (vault_entries (cleaned_vault v)) = map norm_of (filter ?live ?es)"
    using path by (simp add: cleaned_vault_def vs)
  moreover have "vault_shape (cleaned_vault v) = map (\<lambda>e. (norm_of e, e2_kind e)) (filter ?live ?es)"
    using path kind by (simp add: cleaned_vault_def vs vault_shape_def)
  moreover have "distinct (map norm_of (filter ?live ?es))" by (rule distinct_map_filter [OF valid(2)])
  moreover have "check_tree_shape (map (\<lambda>e. (norm_of e, e2_kind e)) (filter ?live ?es)) = Inr ()"
    using valid(3) by (auto simp: check_tree_shape_iff)
  moreover have "list_all entry_good (vault_entries (cleaned_vault v))"
    using path kind by (auto simp: cleaned_vault_def vs list_all_iff entry_good_def)
  moreover have "length (vault_entries (cleaned_vault v)) \<le> MAX_MANIFEST_ENTRIES"
    using valid(1) order.trans [OF length_filter_le] by (simp add: cleaned_vault_def vs)
  moreover have "list_all named_good (vault_entries v)"
    using assms(3) kind unfolding vs by (auto simp: list_all_iff named_good_def)
  ultimately show ?thesis by (simp add: vault_good_def)
qed



end
