(* ===== verification/Keys_Armor.thy ===== *)
theory Keys_Armor
  imports Core_Keys Core_Codec
begin

section \<open>Armored text (identity.rs, keystore.rs)\<close>

text \<open>
  Public identities and identity backups travel as base64 between two delimiter lines. Base64 is a
  parameter; the line splitting, the trimming and the two readers, strict and forgiving, are here.
\<close>

subsection \<open>Base64 as a parameter\<close>

record base64 =
  b64_encode :: "bytes \<Rightarrow> string"
  b64_decode :: "string \<Rightarrow> bytes option"
  b64_nopad_decode :: "string \<Rightarrow> bytes option"

definition is_base64_char :: "char \<Rightarrow> bool" where
  "is_base64_char c \<longleftrightarrow> is_ascii_alphanumeric c \<or> c = CHR ''+'' \<or> c = CHR ''/'' \<or> c = CHR ''=''"

text \<open>Decoding inverts encoding; four characters of the alphabet for every three bytes begun.\<close>

definition base64_spec :: "base64 \<Rightarrow> bool" where
  "base64_spec B \<longleftrightarrow>
     (\<forall>b. b64_decode B (b64_encode B b) = Some b \<and> list_all is_base64_char (b64_encode B b) \<and>
          length (b64_encode B b) = 4 * ((length b + 2) div 3))"

subsection \<open>Text\<close>

text \<open>The UTF-8 encodings of the characters with the White_Space property.\<close>

definition whitespace_encodings :: "string list" where
  "whitespace_encodings =
     map (map char_of)
       ([[9], [10], [11], [12], [13], [32], [0xC2, 0x85], [0xC2, 0xA0], [0xE1, 0x9A, 0x80]] @
        map (\<lambda>k. [0xE2, 0x80, k]) ([0x80..<0x8B] @ [0xA8, 0xA9, 0xAF]) @
        [[0xE2, 0x81, 0x9F], [0xE3, 0x80, 0x80 :: nat]])"

lemma whitespace_not_empty: "p \<in> set whitespace_encodings \<Longrightarrow> p \<noteq> []"
  by (auto simp: whitespace_encodings_def)

text \<open>\<open>str::trim\<close>, from the front and from the back.\<close>

function trim_front :: "string list \<Rightarrow> string \<Rightarrow> string" where
  "trim_front ws s =
     (case find (\<lambda>p. p \<noteq> [] \<and> prefix p s) ws of
        None \<Rightarrow> s
      | Some p \<Rightarrow> trim_front ws (drop (length p) s))"
  by pat_completeness auto
termination
  by (relation "measure (\<lambda>(ws, s). length s)") (auto simp: find_Some_iff prefix_def)

declare trim_front.simps [simp del]

definition str_trim :: "string \<Rightarrow> string" where
  "str_trim s = rev (trim_front (map rev whitespace_encodings) (rev (trim_front whitespace_encodings s)))"

text \<open>\<open>str::lines\<close>: a line ends with a line feed, which may follow a carriage return.\<close>

definition strip_cr :: "string \<Rightarrow> string" where
  "strip_cr l = (if l \<noteq> [] \<and> last l = CHR 0x0D then butlast l else l)"

function str_lines :: "string \<Rightarrow> string list" where
  "str_lines s =
     (if s = [] then []
      else case dropWhile (\<lambda>c. c \<noteq> CHR 0x0A) s of
             [] \<Rightarrow> [s]
           | _ # r \<Rightarrow> strip_cr (takeWhile (\<lambda>c. c \<noteq> CHR 0x0A) s) # str_lines r)"
  by pat_completeness auto
termination
proof (relation "measure length", simp)
  fix s :: string and x r
  assume "dropWhile (\<lambda>c. c \<noteq> CHR 0x0A) s = x # r"
  then have "length (x # r) \<le> length s" by (metis length_dropWhile_le)
  then show "(r, s) \<in> measure length" by simp
qed

declare str_lines.simps [simp del]

text \<open>\<open>slice::chunks\<close>.\<close>

function slice_chunks :: "nat \<Rightarrow> 'a list \<Rightarrow> 'a list list" where
  "slice_chunks n xs = (if xs = [] \<or> n = 0 then [] else take n xs # slice_chunks n (drop n xs))"
  by pat_completeness auto
termination
  by (relation "measure (\<lambda>(n, xs). length xs)") auto

declare slice_chunks.simps [simp del]

subsection \<open>Writing and reading armor\<close>

definition armored :: "string \<Rightarrow> string \<Rightarrow> string \<Rightarrow> string" where
  "armored armor_begin armor_end b64 =
     armor_begin @ [CHR 0x0A] @ concat (map (\<lambda>line. line @ [CHR 0x0A]) (slice_chunks 64 b64)) @ armor_end @ [CHR 0x0A]"

text \<open>The strict reader's loop with its two variables, leaving at the closing line.\<close>

fun dearmor_loop :: "string \<Rightarrow> string \<Rightarrow> string list \<Rightarrow> bool \<Rightarrow> string \<Rightarrow> string" where
  "dearmor_loop armor_begin armor_end [] in_block body = body"
| "dearmor_loop armor_begin armor_end (line # rest) in_block body =
     (let trimmed = str_trim line in
      if trimmed = armor_begin then dearmor_loop armor_begin armor_end rest True body
      else if trimmed = armor_end then body
      else dearmor_loop armor_begin armor_end rest in_block (if in_block then body @ trimmed else body))"

definition dearmored :: "string \<Rightarrow> string \<Rightarrow> string \<Rightarrow> string" where
  "dearmored armor_begin armor_end txt = dearmor_loop armor_begin armor_end (str_lines txt) False []"

text \<open>The forgiving reader: every line that is not a delimiter.\<close>

definition loose_body :: "string \<Rightarrow> string" where
  "loose_body txt = concat (filter (\<lambda>l. l \<noteq> [] \<and> \<not> prefix ''-----'' l) (map str_trim (str_lines txt)))"

definition decode_loose :: "base64 \<Rightarrow> error \<Rightarrow> string \<Rightarrow> bytes result" where
  "decode_loose B e body =
     (case b64_decode B body of
        Some b \<Rightarrow> Inr b
      | None \<Rightarrow> ok_or e (b64_nopad_decode B body))"

subsection \<open>Public identities (identity.rs)\<close>

definition ARMOR_BEGIN :: string where "ARMOR_BEGIN = ''-----BEGIN FILESEC PUBLIC KEY-----''"
definition ARMOR_END :: string where "ARMOR_END = ''-----END FILESEC PUBLIC KEY-----''"
definition MAX_ARMORED_TEXT_LEN :: nat where "MAX_ARMORED_TEXT_LEN = 128 * 1024"

definition pi_to_bytes :: "public_identity codec \<Rightarrow> public_identity \<Rightarrow> bytes result" where
  "pi_to_bytes C p = to_vec C p"

definition pi_from_bytes :: "public_identity codec \<Rightarrow> bytes \<Rightarrow> public_identity result" where
  "pi_from_bytes C b = from_slice C b"

definition to_armored :: "base64 \<Rightarrow> public_identity codec \<Rightarrow> public_identity \<Rightarrow> string result" where
  "to_armored B C p =
     rbind (pi_to_bytes C p) (\<lambda>b. Inr (armored ARMOR_BEGIN ARMOR_END (b64_encode B b)))"

definition from_armored :: "base64 \<Rightarrow> public_identity codec \<Rightarrow> string \<Rightarrow> public_identity result" where
  "from_armored B C txt =
     (if length txt > MAX_ARMORED_TEXT_LEN then Inl (Format ''armored key is too large'')
      else
        let body = dearmored ARMOR_BEGIN ARMOR_END txt in
        if body = [] then Inl (Format ''no armored public key found'')
        else
          rbind (ok_or (Format ''invalid base64 in armored key'') (b64_decode B body)) (\<lambda>b. pi_from_bytes C b))"

definition from_pasted :: "base64 \<Rightarrow> public_identity codec \<Rightarrow> string \<Rightarrow> public_identity result" where
  "from_pasted B C txt =
     (if length txt > MAX_ARMORED_TEXT_LEN then Inl (Format ''pasted key is too large'')
      else
        case from_armored B C txt of
          Inr p \<Rightarrow> Inr p
        | Inl _ \<Rightarrow>
            let body = loose_body txt in
            if body = [] then Inl (Format ''no public key found'')
            else rbind (decode_loose B (Format ''not a recognizable public key'') body) (\<lambda>b. pi_from_bytes C b))"

subsection \<open>Reading what was written\<close>

lemma find_none_prefix:
  assumes "\<And>p. p \<in> set ws \<Longrightarrow> p \<noteq> [] \<Longrightarrow> hd p \<noteq> hd s" and "s \<noteq> []"
  shows "trim_front ws s = s"
proof -
  have "find (\<lambda>p. p \<noteq> [] \<and> prefix p s) ws = None"
    unfolding find_None_iff using assms(1) by (fastforce simp: prefix_def)
  then show ?thesis by (subst trim_front.simps) simp
qed

text \<open>No whitespace at either end.\<close>

definition is_graphic :: "char \<Rightarrow> bool" where
  "is_graphic c \<longleftrightarrow> 33 \<le> (of_char c :: nat) \<and> (of_char c :: nat) \<le> 126"

lemma whitespace_ends:
  assumes "p \<in> set whitespace_encodings"
  shows "\<not> is_graphic (hd p)" and "\<not> is_graphic (last p)"
  using assms by (auto simp: whitespace_encodings_def is_graphic_def)

lemma str_trim_graphic:
  assumes "s \<noteq> []" and "is_graphic (hd s)" and "is_graphic (last s)"
  shows "str_trim s = s"
proof -
  have "trim_front whitespace_encodings s = s"
    by (rule find_none_prefix) (use assms whitespace_ends(1) in metis)+
  moreover have "trim_front (map rev whitespace_encodings) (rev s) = rev s"
    by (rule find_none_prefix) (use assms whitespace_ends(2) in \<open>auto simp: hd_rev\<close>, metis)
  ultimately show ?thesis by (simp add: str_trim_def)
qed

lemma str_lines_Cons:
  assumes "CHR 0x0A \<notin> set l" and "l = [] \<or> last l \<noteq> CHR 0x0D"
  shows "str_lines (l @ CHR 0x0A # r) = l # str_lines r"
proof -
  have "dropWhile (\<lambda>c. c \<noteq> CHR 0x0A) (l @ CHR 0x0A # r) = CHR 0x0A # r" "takeWhile (\<lambda>c. c \<noteq> CHR 0x0A) (l @ CHR 0x0A # r) = l"
    using assms(1) by (auto simp: dropWhile_append takeWhile_append)
  then show ?thesis using assms(2) by (subst str_lines.simps) (auto simp: strip_cr_def)
qed

lemma str_lines_Nil [simp]: "str_lines [] = []"
  by (simp add: str_lines.simps)

lemma base64_graphic: "is_base64_char c \<Longrightarrow> is_graphic c \<and> c \<noteq> CHR ''-''"
  by (auto simp: is_base64_char_def is_graphic_def is_ascii_alphanumeric_def Let_def)

lemma base64_line:
  assumes "list_all is_base64_char l" and "l \<noteq> []"
  shows "str_trim l = l" and "CHR 0x0A \<notin> set l" and "last l \<noteq> CHR 0x0D" and "hd l \<noteq> CHR ''-''"
proof -
  have g: "is_graphic c \<and> c \<noteq> CHR ''-''" if "c \<in> set l" for c
    using that assms(1) base64_graphic by (auto simp: list_all_iff)
  show "str_trim l = l" using str_trim_graphic g assms(2) by simp
  show "CHR 0x0A \<notin> set l" using g by (fastforce simp: is_graphic_def)
  show "last l \<noteq> CHR 0x0D" using g [OF last_in_set [OF assms(2)]] by (auto simp: is_graphic_def)
  show "hd l \<noteq> CHR ''-''" using g [OF hd_in_set [OF assms(2)]] by simp
qed

lemma slice_chunks_lines:
  assumes "list_all P xs"
  shows "list_all (\<lambda>c. c \<noteq> [] \<and> list_all P c) (slice_chunks n xs)" and "0 < n \<Longrightarrow> concat (slice_chunks n xs) = xs"
  using assms
proof (induction n xs rule: slice_chunks.induct)
  case (1 n xs)
  {
    case 1
    with "1.IH"(1) show ?case
      by (subst slice_chunks.simps) (auto simp: list_all_iff dest: in_set_takeD in_set_dropD)
  }
  {
    case 2
    then have "list_all P (drop n xs)" by (auto simp: list_all_iff dest: in_set_dropD)
    with 2 "1.IH"(2) show ?case by (subst slice_chunks.simps) simp
  }
qed

lemma dearmor_body:
  assumes "list_all (\<lambda>c. c \<noteq> [] \<and> list_all is_base64_char c) cs" and "is_delimiter = (\<lambda>d. d \<noteq> [] \<and> hd d = CHR ''-'')"
    and "is_delimiter b" and "is_delimiter e" and "str_trim e = e" and "b \<noteq> e"
  shows "dearmor_loop b e (cs @ e # rest) True body = body @ concat cs"
  using assms(1)
proof (induction cs arbitrary: body)
  case Nil
  then show ?case using assms(5,6) by simp
next
  case (Cons c cs)
  then have "str_trim c = c" "c \<noteq> b" "c \<noteq> e" using base64_line [of c] assms(2-4) by auto
  with Cons show ?case by simp
qed

lemma lines_concat:
  assumes "list_all (\<lambda>c. CHR 0x0A \<notin> set c \<and> (c = [] \<or> last c \<noteq> CHR 0x0D)) cs"
  shows "str_lines (concat (map (\<lambda>l. l @ [CHR 0x0A]) cs) @ r) = cs @ str_lines r"
  using assms by (induction cs) (auto simp: str_lines_Cons)

definition good_delimiter :: "string \<Rightarrow> bool" where
  "good_delimiter d \<longleftrightarrow> d \<noteq> [] \<and> hd d = CHR ''-'' \<and> last d = CHR ''-'' \<and> CHR 0x0A \<notin> set d"

lemma good_delimiterD:
  assumes "good_delimiter d"
  shows "str_trim d = d" and "str_lines (d @ CHR 0x0A # r) = d # str_lines r" and "d \<noteq> []" and "hd d = CHR ''-''"
  using assms str_trim_graphic [of d] str_lines_Cons [of d] by (simp_all add: good_delimiter_def is_graphic_def)

lemma armored_lines:
  assumes "good_delimiter b" and "good_delimiter e" and "list_all is_base64_char x"
  shows "str_lines (armored b e x) = b # slice_chunks 64 x @ [e]"
proof -
  have "list_all (\<lambda>c. CHR 0x0A \<notin> set c \<and> (c = [] \<or> last c \<noteq> CHR 0x0D)) (slice_chunks 64 x)"
    using slice_chunks_lines(1) [OF assms(3), of 64] base64_line by (auto simp: list_all_iff)
  from lines_concat [OF this] show ?thesis
    by (simp add: armored_def good_delimiterD(2) [OF assms(1)] good_delimiterD(2) [OF assms(2), of "[]"])
qed

text \<open>What the writer wraps, both readers unwrap.\<close>

lemma armor_roundtrip:
  assumes "good_delimiter b" and "good_delimiter e" and "b \<noteq> e" and "list_all is_base64_char x"
  shows "dearmored b e (armored b e x) = x"
proof -
  have "dearmor_loop b e (slice_chunks 64 x @ [e]) True [] = [] @ concat (slice_chunks 64 x)"
    by (rule dearmor_body [OF slice_chunks_lines(1) [OF assms(4)] refl]) (use assms good_delimiterD in auto)
  then show ?thesis
    using slice_chunks_lines(2) [OF assms(4), of 64] good_delimiterD(1) [OF assms(1)]
    by (simp add: dearmored_def armored_lines [OF assms(1,2,4)])
qed

lemma base64_specD:
  assumes "base64_spec B"
  shows "b64_decode B (b64_encode B b) = Some b" and "list_all is_base64_char (b64_encode B b)"
    and "b64_encode B b = [] \<longleftrightarrow> b = []"
proof -
  have l: "length (b64_encode B b) = 4 * ((length b + 2) div 3)" using assms by (simp add: base64_spec_def)
  show "b64_decode B (b64_encode B b) = Some b" "list_all is_base64_char (b64_encode B b)" using assms by (simp_all add: base64_spec_def)
  have "(length b + 2) div 3 = 0 \<longleftrightarrow> length b = 0" by linarith
  then show "b64_encode B b = [] \<longleftrightarrow> b = []" using l by (metis length_0_conv mult_eq_0_iff zero_neq_numeral)
qed

lemma public_armor:
  assumes "base64_spec B" and "codec_ok public_typed C" and "public_typed p" and "to_armored B C p = Inr txt"
    and "length txt \<le> MAX_ARMORED_TEXT_LEN" and "enc C p \<noteq> Some []"
  shows "from_armored B C txt = Inr p \<and> from_pasted B C txt = Inr p"
proof -
  from assms(4) obtain b where b: "to_vec C p = Inr b" "txt = armored ARMOR_BEGIN ARMOR_END (b64_encode B b)"
    by (auto simp: to_armored_def pi_to_bytes_def result_simps)
  have "good_delimiter ARMOR_BEGIN" "good_delimiter ARMOR_END" "ARMOR_BEGIN \<noteq> ARMOR_END"
    by (simp_all add: good_delimiter_def ARMOR_BEGIN_def ARMOR_END_def)
  from armor_roundtrip [OF this base64_specD(2) [OF assms(1)]]
  have body: "dearmored ARMOR_BEGIN ARMOR_END txt = b64_encode B b" unfolding b(2) .
  have "b \<noteq> []" using b(1) assms(6) by (auto simp: to_vec_def result_simps)
  then have "from_armored B C txt = Inr p"
    using body assms(5) base64_specD [OF assms(1)] from_slice_to_vec [OF assms(2,3) b(1)]
    by (simp add: from_armored_def pi_from_bytes_def)
  then show ?thesis using assms(5) by (simp add: from_pasted_def)
qed

end
