(* ===== verification/Keys_Keystore.thy ===== *)
theory Keys_Keystore
  imports Keys_Armor Core_State Core_Aead
begin

section \<open>The keystore (keystore.rs)\<close>

text \<open>
  The private identity is sealed once under a random data key, and the data key once per way in:
  one passphrase slot, any number of passkey slots, at most one device slot. The current format
  signs this body together with an epoch and a hash chain. The CBOR codecs are parameters.
\<close>

subsection \<open>Constants and data\<close>

definition VERSION_V1 :: u16 where "VERSION_V1 = 1"
definition VERSION_V2 :: u16 where "VERSION_V2 = 2"
definition VERSION_V3 :: u16 where "VERSION_V3 = 3"
definition MAGIC_V2 :: bytes where "MAGIC_V2 = as_bytes ''FSK'' @ [0x1A]"
definition MAGIC_BACKUP :: bytes where "MAGIC_BACKUP = as_bytes ''FSB'' @ [0x1A]"
definition VERSION_BACKUP_V1 :: u16 where "VERSION_BACKUP_V1 = 1"
definition BACKUP_ARMOR_BEGIN :: string where "BACKUP_ARMOR_BEGIN = ''-----BEGIN FILESEC IDENTITY BACKUP-----''"
definition BACKUP_ARMOR_END :: string where "BACKUP_ARMOR_END = ''-----END FILESEC IDENTITY BACKUP-----''"
definition SALT_LEN :: nat where "SALT_LEN = 16"
definition AAD_V1 :: bytes where "AAD_V1 = as_bytes ''FileSec keystore v1''"
definition AAD_BUNDLE_V2 :: bytes where "AAD_BUNDLE_V2 = as_bytes ''FileSec keystore v2 bundle''"
definition WRAP_AAD_V2 :: bytes where "WRAP_AAD_V2 = as_bytes ''FileSec keystore v2 dek-wrap''"
definition AAD_BACKUP_V1 :: bytes where "AAD_BACKUP_V1 = as_bytes ''FileSec identity backup v1''"
definition PASSKEY_KEK_CONTEXT :: string where "PASSKEY_KEK_CONTEXT = ''FileSec passkey keyslot v1''"
definition DEVICE_KEK_CONTEXT :: string where "DEVICE_KEK_CONTEXT = ''FileSec device unlock keyslot v1''"
definition KEYSTORE_ID :: string where "KEYSTORE_ID = ''identity-keystore''"

record secret_bundle =
  sb_name :: string
  sb_created_at :: int
  sb_sign_secret :: bytes
  sb_kem_secret :: bytes
  sb_mldsa_seed :: "bytes option"
  sb_mldsa_public :: "bytes option"
  sb_mlkem_seed :: "bytes option"
  sb_mlkem_public :: "bytes option"

record passkey_enrollment =
  pe_credential_id :: bytes
  pe_rp_id :: string
  pe_hmac_salt :: bytes
  pe_label :: string
  pe_added_at :: int
  pe_hmac_output :: bytes

record passkey_info =
  pk_credential_id :: bytes
  pk_rp_id :: string
  pk_hmac_salt :: bytes
  pk_label :: string
  pk_added_at :: int

record keystore_v1 =
  k1_version :: u16
  k1_kdf :: kdf_params
  k1_salt :: bytes
  k1_nonce :: bytes
  k1_ciphertext :: bytes

record identity_backup_v1 =
  ib_version :: u16
  ib_kdf :: kdf_params
  ib_salt :: bytes
  ib_nonce :: bytes
  ib_ciphertext :: bytes

record passphrase_slot =
  ps_kdf :: kdf_params
  ps_salt :: bytes
  ps_nonce :: bytes
  ps_wrapped_dek :: bytes

record passkey_slot =
  sl_credential_id :: bytes
  sl_rp_id :: string
  sl_hmac_salt :: bytes
  sl_label :: string
  sl_added_at :: int
  sl_metadata_bound :: bool
  sl_nonce :: bytes
  sl_wrapped_dek :: bytes

record device_slot =
  ds_nonce :: bytes
  ds_wrapped_dek :: bytes

record keystore_v2 =
  k2_version :: u16
  k2_bundle_nonce :: bytes
  k2_bundle_ct :: bytes
  k2_passphrase :: passphrase_slot
  k2_passkeys :: "passkey_slot list"
  k2_device :: "device_slot option"

record keystore_v3 =
  k3_version :: u16
  k3_state :: state_metadata
  k3_public_identity :: public_identity
  k3_body :: keystore_v2
  k3_signature :: bytes

text \<open>\<open>Inner\<close>, the representation behind \<open>KeystoreFile\<close>.\<close>

datatype inner = V1 keystore_v1 | V2 keystore_v2 | V3 keystore_v3

record keystore_codecs =
  kc_bundle :: "secret_bundle codec"
  kc_v1 :: "keystore_v1 codec"
  kc_v2 :: "keystore_v2 codec"
  kc_v3 :: "keystore_v3 codec"
  kc_backup :: "identity_backup_v1 codec"

subsection \<open>The secret bundle\<close>

definition build_bundle :: "identity \<Rightarrow> secret_bundle" where
  "build_bundle i =
     \<lparr>sb_name = id_name i, sb_created_at = id_created_at i, sb_sign_secret = id_sign i, sb_kem_secret = id_kem i,
      sb_mldsa_seed = map_option pq_seed (id_mldsa i), sb_mldsa_public = map_option pq_public (id_mldsa i),
      sb_mlkem_seed = map_option pq_seed (id_mlkem i), sb_mlkem_public = map_option pq_public (id_mlkem i)\<rparr>"

fun pqc_pair :: "bytes option \<Rightarrow> bytes option \<Rightarrow> (bytes \<times> bytes) option result" where
  "pqc_pair (Some p) (Some s) = Inr (Some (p, s))"
| "pqc_pair None None = Inr None"
| "pqc_pair _ _ = Inl (Format ''incomplete post-quantum key pair in identity'')"

definition derives :: "bytes \<Rightarrow> bytes result \<Rightarrow> unit result" where
  "derives public derived =
     rbind derived (\<lambda>d.
       if ct_eq d public then Inr () else Inl (Format ''post-quantum public key does not match its secret seed''))"

definition check_pqc_pairs :: "lib \<Rightarrow> bool \<Rightarrow> secret_bundle \<Rightarrow> ((bytes \<times> bytes) option \<times> (bytes \<times> bytes) option) result" where
  "check_pqc_pairs L pqc b =
     rbind (pqc_pair (sb_mldsa_public b) (sb_mldsa_seed b)) (\<lambda>mldsa.
     rbind (pqc_pair (sb_mlkem_public b) (sb_mlkem_seed b)) (\<lambda>mlkem.
       if (mldsa \<noteq> None) \<noteq> (mlkem \<noteq> None) then Inl (Format ''identity carries only one of the two post-quantum keys'')
       else
         rbind (if pqc then
                  rbind (case mldsa of Some (public, seed) \<Rightarrow> derives public (mldsa_public_from_seed L seed) | None \<Rightarrow> Inr ()) (\<lambda>_.
                  case mlkem of Some (public, seed) \<Rightarrow> derives public (mlkem_public_from_seed L seed) | None \<Rightarrow> Inr ())
                else Inr ()) (\<lambda>_.
           Inr (mldsa, mlkem))))"

definition bundle_into_identity :: "lib \<Rightarrow> bool \<Rightarrow> secret_bundle \<Rightarrow> identity result" where
  "bundle_into_identity L pqc b =
     rbind (check_pqc_pairs L pqc b) (\<lambda>(mldsa, mlkem).
       Inr (from_parts (sb_name b) (sb_created_at b) (sb_sign_secret b) (sb_kem_secret b) mldsa mlkem))"

subsection \<open>Wrapping the data key\<close>

definition passphrase_wrap_aad :: "lib \<Rightarrow> bytes \<Rightarrow> kdf_params \<Rightarrow> bytes" where
  "passphrase_wrap_aad L salt params =
     (let h = append_lp [] (as_bytes ''passphrase'');
          h = append_lp h salt;
          h = append_lp h (to_le_bytes (m_cost params));
          h = append_lp h (to_le_bytes (t_cost params));
          h = append_lp h (to_le_bytes (p_cost params))
      in WRAP_AAD_V2 @ blake3 L h)"

definition passkey_wrap_aad :: "lib \<Rightarrow> bytes \<Rightarrow> string \<Rightarrow> bytes \<Rightarrow> (string \<times> int) option \<Rightarrow> bytes" where
  "passkey_wrap_aad L credential_id rp_id hmac_salt metadata =
     (let h = append_lp [] (as_bytes ''passkey'');
          h = append_lp h credential_id;
          h = append_lp h (as_bytes rp_id);
          h = append_lp h hmac_salt;
          h = (case metadata of
                 Some (label, added_at) \<Rightarrow> append_lp (append_lp h (as_bytes label)) (to_le_bytes (word_of_int added_at :: u64))
               | None \<Rightarrow> h)
      in WRAP_AAD_V2 @ blake3 L h)"

definition device_wrap_aad :: "lib \<Rightarrow> bytes" where
  "device_wrap_aad L = WRAP_AAD_V2 @ blake3 L (append_lp [] (as_bytes ''device''))"

definition wrap_dek :: "lib \<Rightarrow> bytes \<Rightarrow> bytes \<Rightarrow> bytes \<Rightarrow> (bytes \<times> bytes) io" where
  "wrap_dek L kek dek aad =
     bnd (random_vec NONCE_LEN) (\<lambda>nonce.
     bnd (lift (seal L kek nonce aad dek)) (\<lambda>ciphertext.
       ret (nonce, ciphertext)))"

definition unwrap_dek :: "lib \<Rightarrow> bytes \<Rightarrow> bytes \<Rightarrow> bytes \<Rightarrow> bytes \<Rightarrow> bytes result" where
  "unwrap_dek L kek nonce ciphertext aad =
     rbind (aead_open L kek nonce aad ciphertext) (\<lambda>pt.
       if length pt \<noteq> 32 then Inl (BadKey ''wrapped DEK length'') else Inr pt)"

definition encrypt_bundle :: "lib \<Rightarrow> keystore_codecs \<Rightarrow> bytes \<Rightarrow> identity \<Rightarrow> (bytes \<times> bytes) io" where
  "encrypt_bundle L C dek i =
     bnd (lift (to_vec (kc_bundle C) (build_bundle i))) (\<lambda>plaintext.
     bnd (random_vec NONCE_LEN) (\<lambda>nonce.
     bnd (lift (seal L dek nonce AAD_BUNDLE_V2 plaintext)) (\<lambda>ciphertext.
       ret (nonce, ciphertext))))"

definition decrypt_bundle :: "lib \<Rightarrow> bool \<Rightarrow> keystore_codecs \<Rightarrow> bytes \<Rightarrow> bytes \<Rightarrow> bytes \<Rightarrow> identity result" where
  "decrypt_bundle L pqc C dek nonce ciphertext =
     rbind (aead_open L dek nonce AAD_BUNDLE_V2 ciphertext) (\<lambda>plaintext.
     rbind (from_slice (kc_bundle C) plaintext) (bundle_into_identity L pqc))"

subsection \<open>Version 1\<close>

definition v1_create :: "lib \<Rightarrow> keystore_codecs \<Rightarrow> identity \<Rightarrow> bytes \<Rightarrow> kdf_params \<Rightarrow> keystore_v1 io" where
  "v1_create L C i passphrase params =
     bnd (random_vec SALT_LEN) (\<lambda>salt.
     bnd (lift (derive_master_key L passphrase salt params)) (\<lambda>master.
     bnd (random_vec NONCE_LEN) (\<lambda>nonce.
     bnd (lift (to_vec (kc_bundle C) (build_bundle i))) (\<lambda>plaintext.
     bnd (lift (seal L master nonce AAD_V1 plaintext)) (\<lambda>ciphertext.
       ret \<lparr>k1_version = VERSION_V1, k1_kdf = params, k1_salt = salt, k1_nonce = nonce, k1_ciphertext = ciphertext\<rparr>)))))"

definition v1_unlock :: "lib \<Rightarrow> bool \<Rightarrow> keystore_codecs \<Rightarrow> keystore_v1 \<Rightarrow> bytes \<Rightarrow> identity result" where
  "v1_unlock L pqc C k passphrase =
     rbind (derive_master_key L passphrase (k1_salt k) (k1_kdf k)) (\<lambda>master.
     rbind (map_err (\<lambda>_. BadPassphrase) (aead_open L master (k1_nonce k) AAD_V1 (k1_ciphertext k))) (\<lambda>plaintext.
     rbind (from_slice (kc_bundle C) plaintext) (bundle_into_identity L pqc)))"

subsection \<open>Backups\<close>

definition export_identity_armored ::
  "lib \<Rightarrow> base64 \<Rightarrow> keystore_codecs \<Rightarrow> identity \<Rightarrow> bytes \<Rightarrow> kdf_params \<Rightarrow> string io" where
  "export_identity_armored L B C i passphrase params =
     bnd (random_vec SALT_LEN) (\<lambda>salt.
     bnd (lift (derive_master_key L passphrase salt params)) (\<lambda>master.
     bnd (random_vec NONCE_LEN) (\<lambda>nonce.
     bnd (lift (to_vec (kc_bundle C) (build_bundle i))) (\<lambda>plaintext.
     bnd (lift (seal L master nonce AAD_BACKUP_V1 plaintext)) (\<lambda>ciphertext.
     bnd (lift (to_vec (kc_backup C) \<lparr>ib_version = VERSION_BACKUP_V1, ib_kdf = params, ib_salt = salt, ib_nonce = nonce,
                                     ib_ciphertext = ciphertext\<rparr>)) (\<lambda>body.
       ret (armored BACKUP_ARMOR_BEGIN BACKUP_ARMOR_END
              (b64_encode B (MAGIC_BACKUP @ to_be_bytes VERSION_BACKUP_V1 @ body)))))))))"

definition import_identity_armored ::
  "lib \<Rightarrow> bool \<Rightarrow> base64 \<Rightarrow> keystore_codecs \<Rightarrow> string \<Rightarrow> bytes \<Rightarrow> identity result" where
  "import_identity_armored L pqc B C txt passphrase =
     (let body = dearmored BACKUP_ARMOR_BEGIN BACKUP_ARMOR_END txt;
          body = (if body = [] then loose_body txt else body) in
      if body = [] then Inl (Format ''no identity backup found'')
      else
        rbind (decode_loose B (Format ''invalid base64 in identity backup'') body) (\<lambda>framed.
          if length framed < length MAGIC_BACKUP + 2 \<or> take (length MAGIC_BACKUP) framed \<noteq> MAGIC_BACKUP
          then Inl (Format ''not a FileSec identity backup'')
          else if from_be_bytes (take 2 (drop (length MAGIC_BACKUP) framed)) \<noteq> VERSION_BACKUP_V1
          then Inl (Format ''unsupported identity backup version'')
          else
            rbind (from_slice (kc_backup C) (drop (length MAGIC_BACKUP + 2) framed)) (\<lambda>backup.
              if ib_version backup \<noteq> VERSION_BACKUP_V1 then Inl (Format ''identity backup version mismatch'')
              else
                rbind (validate_for_open (ib_kdf backup)) (\<lambda>_.
                rbind (derive_master_key L passphrase (ib_salt backup) (ib_kdf backup)) (\<lambda>master.
                rbind (map_err (\<lambda>_. BadPassphrase) (aead_open L master (ib_nonce backup) AAD_BACKUP_V1 (ib_ciphertext backup))) (\<lambda>plaintext.
                rbind (from_slice (kc_bundle C) plaintext) (bundle_into_identity L pqc)))))))"

subsection \<open>Version 2: keyslots\<close>

definition build_passphrase_slot :: "lib \<Rightarrow> bytes \<Rightarrow> bytes \<Rightarrow> kdf_params \<Rightarrow> passphrase_slot io" where
  "build_passphrase_slot L dek passphrase params =
     bnd (random_vec SALT_LEN) (\<lambda>salt.
     bnd (lift (derive_master_key L passphrase salt params)) (\<lambda>kek.
     bnd (wrap_dek L kek dek (passphrase_wrap_aad L salt params)) (\<lambda>(nonce, wrapped_dek).
       ret \<lparr>ps_kdf = params, ps_salt = salt, ps_nonce = nonce, ps_wrapped_dek = wrapped_dek\<rparr>)))"

definition create_with_dek ::
  "lib \<Rightarrow> keystore_codecs \<Rightarrow> identity \<Rightarrow> bytes \<Rightarrow> kdf_params \<Rightarrow> (keystore_v2 \<times> bytes) io" where
  "create_with_dek L C i passphrase params =
     bnd symkey_random (\<lambda>dek.
     bnd (encrypt_bundle L C dek i) (\<lambda>(bundle_nonce, bundle_ct).
     bnd (build_passphrase_slot L dek passphrase params) (\<lambda>slot.
       ret (\<lparr>k2_version = VERSION_V2, k2_bundle_nonce = bundle_nonce, k2_bundle_ct = bundle_ct, k2_passphrase = slot,
             k2_passkeys = [], k2_device = None\<rparr>, dek))))"

definition unlock_dek_with_passphrase :: "lib \<Rightarrow> keystore_v2 \<Rightarrow> bytes \<Rightarrow> bytes result" where
  "unlock_dek_with_passphrase L k passphrase =
     (let slot = k2_passphrase k in
      rbind (derive_master_key L passphrase (ps_salt slot) (ps_kdf slot)) (\<lambda>kek.
        map_err (\<lambda>_. BadPassphrase)
          (unwrap_dek L kek (ps_nonce slot) (ps_wrapped_dek slot) (passphrase_wrap_aad L (ps_salt slot) (ps_kdf slot)))))"

definition v2_unlock :: "lib \<Rightarrow> bool \<Rightarrow> keystore_codecs \<Rightarrow> keystore_v2 \<Rightarrow> bytes \<Rightarrow> identity result" where
  "v2_unlock L pqc C k passphrase =
     rbind (unlock_dek_with_passphrase L k passphrase) (\<lambda>dek.
       decrypt_bundle L pqc C dek (k2_bundle_nonce k) (k2_bundle_ct k))"

definition v2_unlock_with_passkey :: "lib \<Rightarrow> bool \<Rightarrow> keystore_codecs \<Rightarrow> keystore_v2 \<Rightarrow> nat \<Rightarrow> bytes \<Rightarrow> identity result" where
  "v2_unlock_with_passkey L pqc C k index hmac_output =
     rbind (ok_or (Format ''passkey slot index out of range'')
              (if index < length (k2_passkeys k) then Some (k2_passkeys k ! index) else None)) (\<lambda>slot.
       let kek = derive_subkey L PASSKEY_KEK_CONTEXT hmac_output;
           metadata = (if sl_metadata_bound slot then Some (sl_label slot, sl_added_at slot) else None);
           aad = passkey_wrap_aad L (sl_credential_id slot) (sl_rp_id slot) (sl_hmac_salt slot) metadata
       in rbind (unwrap_dek L kek (sl_nonce slot) (sl_wrapped_dek slot) aad) (\<lambda>dek.
            decrypt_bundle L pqc C dek (k2_bundle_nonce k) (k2_bundle_ct k)))"

definition v2_add_passkey :: "lib \<Rightarrow> bytes \<Rightarrow> passkey_enrollment \<Rightarrow> (keystore_v2 \<times> world, unit) op" where
  "v2_add_passkey L dek e =
     (let kek = derive_subkey L PASSKEY_KEK_CONTEXT (pe_hmac_output e);
          aad = passkey_wrap_aad L (pe_credential_id e) (pe_rp_id e) (pe_hmac_salt e) (Some (pe_label e, pe_added_at e))
      in bnd (on_snd (wrap_dek L kek dek aad)) (\<lambda>(nonce, wrapped_dek).
         on_fst (modify (\<lambda>k. k\<lparr>k2_passkeys := k2_passkeys k @
           [\<lparr>sl_credential_id = pe_credential_id e, sl_rp_id = pe_rp_id e, sl_hmac_salt = pe_hmac_salt e, sl_label = pe_label e,
             sl_added_at = pe_added_at e, sl_metadata_bound = True, sl_nonce = nonce, sl_wrapped_dek = wrapped_dek\<rparr>]\<rparr>))))"

definition set_device_slot :: "lib \<Rightarrow> bytes \<Rightarrow> bytes \<Rightarrow> (keystore_v2 \<times> world, unit) op" where
  "set_device_slot L dek token =
     (let kek = derive_subkey L DEVICE_KEK_CONTEXT token
      in bnd (on_snd (wrap_dek L kek dek (device_wrap_aad L))) (\<lambda>(nonce, wrapped_dek).
         on_fst (modify (\<lambda>k. k\<lparr>k2_device := Some \<lparr>ds_nonce = nonce, ds_wrapped_dek = wrapped_dek\<rparr>\<rparr>))))"

definition unlock_with_device :: "lib \<Rightarrow> bool \<Rightarrow> keystore_codecs \<Rightarrow> keystore_v2 \<Rightarrow> bytes \<Rightarrow> identity result" where
  "unlock_with_device L pqc C k token =
     rbind (ok_or (Format ''no device-unlock slot is enrolled'') (k2_device k)) (\<lambda>slot.
       let kek = derive_subkey L DEVICE_KEK_CONTEXT token in
       rbind (unwrap_dek L kek (ds_nonce slot) (ds_wrapped_dek slot) (device_wrap_aad L)) (\<lambda>dek.
         decrypt_bundle L pqc C dek (k2_bundle_nonce k) (k2_bundle_ct k)))"

subsection \<open>Version 3: signed state\<close>

definition v3_build :: "lib \<Rightarrow> keystore_codecs \<Rightarrow> keystore_v2 \<Rightarrow> identity \<Rightarrow> state_anchor option \<Rightarrow> keystore_v3 result" where
  "v3_build L C body i previous =
     rbind (to_vec (kc_v2 C) body) (\<lambda>payload.
     rbind (sm_next L (id_fingerprint L i) Keystore KEYSTORE_ID 0 previous payload) (\<lambda>state.
       Inr \<lparr>k3_version = VERSION_V3, k3_state = state, k3_public_identity = id_public L i, k3_body = body,
            k3_signature = id_sign_message L i (authenticated_data state)\<rparr>))"

definition v3_verify :: "lib \<Rightarrow> keystore_codecs \<Rightarrow> keystore_v3 \<Rightarrow> unit result" where
  "v3_verify L C k =
     (if k3_version k \<noteq> VERSION_V3 \<or> sm_object_type (k3_state k) \<noteq> Keystore \<or> sm_object_id (k3_state k) \<noteq> KEYSTORE_ID \<or>
         sm_suite_id (k3_state k) \<noteq> 0 \<or> sm_identity_fingerprint (k3_state k) \<noteq> fingerprint L (k3_public_identity k)
      then Inl (StateMismatch ''keystore identity-keystore'')
      else
        rbind (to_vec (kc_v2 C) (k3_body k)) (\<lambda>payload.
        rbind (verify_payload L (k3_state k) payload) (\<lambda>_.
          if length (k3_signature k) \<noteq> 64 then Inl (Format ''bad keystore state signature length'')
          else
            map_err (\<lambda>_. StateMismatch (sm_label (k3_state k)))
              (sign_verify L (pi_sign_public (k3_public_identity k)) (authenticated_data (k3_state k)) (k3_signature k)))))"

definition v3_advance :: "lib \<Rightarrow> keystore_codecs \<Rightarrow> identity \<Rightarrow> (keystore_v3, unit) op" where
  "v3_advance L C i =
     bnd (gets id) (\<lambda>k.
       if id_fingerprint L i \<noteq> sm_identity_fingerprint (k3_state k) then throw (StateMismatch (sm_label (k3_state k)))
       else
         bnd (lift (to_vec (kc_v2 C) (k3_body k))) (\<lambda>payload.
         bnd (lift (sm_next L (id_fingerprint L i) Keystore KEYSTORE_ID 0 (Some (from_metadata (k3_state k))) payload)) (\<lambda>state.
           modify (\<lambda>k. k\<lparr>k3_state := state, k3_signature := id_sign_message L i (authenticated_data state)\<rparr>))))"

subsection \<open>The keystore file\<close>

text \<open>Matching on \<open>&mut self\<close>: an operation on what a constructor, or a field, holds.\<close>

definition held :: "('k \<Rightarrow> 's) \<Rightarrow> 'k \<Rightarrow> ('k \<times> world, 'a) op \<Rightarrow> ('s \<times> world, 'a) op" where
  "held c k m = (\<lambda>(self, w). case m (k, w) of (r, (k', w')) \<Rightarrow> (r, (c k', w')))"

abbreviation on_body :: "keystore_v3 \<Rightarrow> (keystore_v2 \<times> world, 'a) op \<Rightarrow> (inner \<times> world, 'a) op" where
  "on_body v3 m \<equiv> held (\<lambda>body. V3 (v3\<lparr>k3_body := body\<rparr>)) (k3_body v3) m"

definition advance_self :: "lib \<Rightarrow> keystore_codecs \<Rightarrow> identity \<Rightarrow> (inner \<times> world, unit) op" where
  "advance_self L C i =
     bnd (gets fst) (\<lambda>self.
       case self of
         V3 v3 \<Rightarrow> held V3 v3 (on_fst (v3_advance L C i))
       | _ \<Rightarrow> ret ())"

definition ks_create :: "lib \<Rightarrow> keystore_codecs \<Rightarrow> identity \<Rightarrow> bytes \<Rightarrow> kdf_params \<Rightarrow> inner io" where
  "ks_create L C i passphrase params =
     bnd (create_with_dek L C i passphrase params) (\<lambda>(body, _).
     bnd (lift (v3_build L C body i None)) (\<lambda>v3. ret (V3 v3)))"

definition ks_to_bytes :: "lib \<Rightarrow> keystore_codecs \<Rightarrow> inner \<Rightarrow> bytes result" where
  "ks_to_bytes L C self =
     (case self of
        V3 v3 \<Rightarrow>
          rbind (v3_verify L C v3) (\<lambda>_.
          rbind (to_vec (kc_v3 C) v3) (\<lambda>body.
            Inr (MAGIC_V2 @ to_be_bytes VERSION_V3 @ body)))
      | _ \<Rightarrow> Inl (LegacyState ''keystore''))"

definition parse_legacy :: "keystore_codecs \<Rightarrow> bytes \<Rightarrow> inner result" where
  "parse_legacy C bs =
     (if length bs \<ge> length MAGIC_V2 + 2 \<and> take (length MAGIC_V2) bs = MAGIC_V2
      then
        if from_be_bytes (take 2 (drop (length MAGIC_V2) bs)) \<noteq> VERSION_V2
        then Inl (Format ''unsupported legacy keystore version'')
        else
          rbind (from_slice (kc_v2 C) (drop (length MAGIC_V2 + 2) bs)) (\<lambda>v2.
            if k2_version v2 \<noteq> VERSION_V2 then Inl (Format ''keystore version mismatch'')
            else rbind (validate_for_open (ps_kdf (k2_passphrase v2))) (\<lambda>_. Inr (V2 v2)))
      else
        rbind (from_slice (kc_v1 C) bs) (\<lambda>v1.
          if k1_version v1 \<noteq> VERSION_V1 then Inl (Format ''unsupported keystore version'')
          else rbind (validate_for_open (k1_kdf v1)) (\<lambda>_. Inr (V1 v1))))"

definition ks_from_bytes :: "lib \<Rightarrow> keystore_codecs \<Rightarrow> bytes \<Rightarrow> inner result" where
  "ks_from_bytes L C bs =
     (if length bs < length MAGIC_V2 + 2 \<or> take (length MAGIC_V2) bs \<noteq> MAGIC_V2
      then rbind (parse_legacy C bs) (\<lambda>_. Inl (LegacyState ''keystore''))
      else
        let version = from_be_bytes (take 2 (drop (length MAGIC_V2) bs)) in
        if version \<noteq> VERSION_V3
        then
          if version = VERSION_V2 then rbind (parse_legacy C bs) (\<lambda>_. Inl (LegacyState ''keystore''))
          else Inl (Format ''unsupported keystore version'')
        else
          rbind (from_slice (kc_v3 C) (drop (length MAGIC_V2 + 2) bs)) (\<lambda>v3.
          rbind (validate_for_open (ps_kdf (k2_passphrase (k3_body v3)))) (\<lambda>_.
          rbind (v3_verify L C v3) (\<lambda>_.
            Inr (V3 v3)))))"

definition ks_recover_legacy :: "lib \<Rightarrow> bool \<Rightarrow> keystore_codecs \<Rightarrow> bytes \<Rightarrow> bytes \<Rightarrow> inner io" where
  "ks_recover_legacy L pqc C bs passphrase =
     bnd (lift (parse_legacy C bs)) (\<lambda>legacy.
       case legacy of
         V1 v1 \<Rightarrow>
           bnd (lift (v1_unlock L pqc C v1 passphrase)) (\<lambda>i.
           bnd (create_with_dek L C i passphrase (k1_kdf v1)) (\<lambda>(body, _).
           bnd (lift (v3_build L C body i None)) (\<lambda>v3. ret (V3 v3))))
       | V2 body \<Rightarrow>
           bnd (lift (v2_unlock L pqc C body passphrase)) (\<lambda>i.
           bnd (lift (v3_build L C body i None)) (\<lambda>v3. ret (V3 v3)))
       | V3 _ \<Rightarrow> throw (Format ''keystore is already rollback protected''))"

definition ks_unlock :: "lib \<Rightarrow> bool \<Rightarrow> keystore_codecs \<Rightarrow> inner \<Rightarrow> bytes \<Rightarrow> identity result" where
  "ks_unlock L pqc C self passphrase =
     (case self of
        V1 v1 \<Rightarrow> v1_unlock L pqc C v1 passphrase
      | V2 v2 \<Rightarrow> v2_unlock L pqc C v2 passphrase
      | V3 v3 \<Rightarrow> v2_unlock L pqc C (k3_body v3) passphrase)"

definition has_passkeys :: "inner \<Rightarrow> bool" where
  "has_passkeys self =
     (case self of V1 _ \<Rightarrow> False | V2 v2 \<Rightarrow> k2_passkeys v2 \<noteq> [] | V3 v3 \<Rightarrow> k2_passkeys (k3_body v3) \<noteq> [])"

definition slot_info :: "passkey_slot \<Rightarrow> passkey_info" where
  "slot_info s =
     \<lparr>pk_credential_id = sl_credential_id s, pk_rp_id = sl_rp_id s, pk_hmac_salt = sl_hmac_salt s,
      pk_label = sl_label s, pk_added_at = sl_added_at s\<rparr>"

definition passkey_slots :: "inner \<Rightarrow> passkey_info list" where
  "passkey_slots self =
     (case self of
        V2 v2 \<Rightarrow> map slot_info (k2_passkeys v2)
      | V3 v3 \<Rightarrow> map slot_info (k2_passkeys (k3_body v3))
      | V1 _ \<Rightarrow> [])"

definition ks_add_passkey ::
  "lib \<Rightarrow> bool \<Rightarrow> keystore_codecs \<Rightarrow> bytes \<Rightarrow> passkey_enrollment \<Rightarrow> (inner \<times> world, unit) op" where
  "ks_add_passkey L pqc C passphrase e =
     bnd (gets fst) (\<lambda>self.
     bnd (case self of
            V1 v1 \<Rightarrow>
              bnd (lift (v1_unlock L pqc C v1 passphrase)) (\<lambda>i.
              bnd (on_snd (create_with_dek L C i passphrase (k1_kdf v1))) (\<lambda>(v2, dek).
              bnd (on_fst (modify (\<lambda>_. V2 v2))) (\<lambda>_. ret (dek, i))))
          | V2 v2 \<Rightarrow>
              bnd (lift (v2_unlock L pqc C v2 passphrase)) (\<lambda>i.
              bnd (lift (unlock_dek_with_passphrase L v2 passphrase)) (\<lambda>dek. ret (dek, i)))
          | V3 v3 \<Rightarrow>
              bnd (lift (unlock_dek_with_passphrase L (k3_body v3) passphrase)) (\<lambda>dek.
              bnd (lift (v2_unlock L pqc C (k3_body v3) passphrase)) (\<lambda>i. ret (dek, i)))) (\<lambda>(dek, signer).
     bnd (gets fst) (\<lambda>self.
       case self of
         V2 v2 \<Rightarrow> held V2 v2 (v2_add_passkey L dek e)
       | V3 v3 \<Rightarrow> bnd (on_body v3 (v2_add_passkey L dek e)) (\<lambda>_. advance_self L C signer)
       | V1 _ \<Rightarrow> throw (Format ''keystore promotion failed''))))"

definition remove_nth :: "nat \<Rightarrow> 'a list \<Rightarrow> 'a list" where
  "remove_nth i xs = take i xs @ drop (Suc i) xs"

definition ks_remove_passkey :: "lib \<Rightarrow> keystore_codecs \<Rightarrow> nat \<Rightarrow> identity \<Rightarrow> (inner \<times> world, unit) op" where
  "ks_remove_passkey L C index i =
     bnd (gets fst) (\<lambda>self.
       case self of
         V2 v2 \<Rightarrow>
           if index < length (k2_passkeys v2)
           then held V2 v2 (on_fst (modify (\<lambda>k. k\<lparr>k2_passkeys := remove_nth index (k2_passkeys k)\<rparr>)))
           else throw (Format ''passkey slot index out of range'')
       | V3 v3 \<Rightarrow>
           if index < length (k2_passkeys (k3_body v3))
           then bnd (on_body v3 (on_fst (modify (\<lambda>k. k\<lparr>k2_passkeys := remove_nth index (k2_passkeys k)\<rparr>)))) (\<lambda>_.
                  advance_self L C i)
           else throw (Format ''passkey slot index out of range'')
       | V1 _ \<Rightarrow> throw (Format ''no passkeys are enrolled''))"

definition ks_unlock_with_passkey :: "lib \<Rightarrow> bool \<Rightarrow> keystore_codecs \<Rightarrow> inner \<Rightarrow> nat \<Rightarrow> bytes \<Rightarrow> identity result" where
  "ks_unlock_with_passkey L pqc C self slot_index hmac_output =
     (case self of
        V2 v2 \<Rightarrow> v2_unlock_with_passkey L pqc C v2 slot_index hmac_output
      | V3 v3 \<Rightarrow> v2_unlock_with_passkey L pqc C (k3_body v3) slot_index hmac_output
      | V1 _ \<Rightarrow> Inl (Format ''no passkeys are enrolled''))"

definition set_device_token :: "lib \<Rightarrow> bool \<Rightarrow> keystore_codecs \<Rightarrow> bytes \<Rightarrow> bytes \<Rightarrow> (inner \<times> world, unit) op" where
  "set_device_token L pqc C passphrase token =
     bnd (gets fst) (\<lambda>self.
       case self of
         V3 v3 \<Rightarrow>
           bnd (lift (unlock_dek_with_passphrase L (k3_body v3) passphrase)) (\<lambda>dek.
           bnd (lift (decrypt_bundle L pqc C dek (k2_bundle_nonce (k3_body v3)) (k2_bundle_ct (k3_body v3)))) (\<lambda>signer.
           bnd (on_body v3 (set_device_slot L dek token)) (\<lambda>_.
             advance_self L C signer)))
       | _ \<Rightarrow> throw (LegacyState ''keystore''))"

definition remove_device_token :: "lib \<Rightarrow> keystore_codecs \<Rightarrow> identity \<Rightarrow> (inner \<times> world, unit) op" where
  "remove_device_token L C i =
     bnd (gets fst) (\<lambda>self.
       case self of
         V3 v3 \<Rightarrow>
           bnd (on_body v3 (on_fst (modify (\<lambda>k. k\<lparr>k2_device := None\<rparr>)))) (\<lambda>_.
             if k2_device (k3_body v3) \<noteq> None then advance_self L C i else ret ())
       | _ \<Rightarrow> throw (LegacyState ''keystore''))"

definition has_device_token :: "inner \<Rightarrow> bool" where
  "has_device_token self = (case self of V3 v3 \<Rightarrow> k2_device (k3_body v3) \<noteq> None | _ \<Rightarrow> False)"

definition unlock_with_device_token :: "lib \<Rightarrow> bool \<Rightarrow> keystore_codecs \<Rightarrow> inner \<Rightarrow> bytes \<Rightarrow> identity result" where
  "unlock_with_device_token L pqc C self token =
     (case self of
        V3 v3 \<Rightarrow> unlock_with_device L pqc C (k3_body v3) token
      | _ \<Rightarrow> Inl (Format ''no device-unlock slot is enrolled''))"

definition continue_identity ::
  "lib \<Rightarrow> bool \<Rightarrow> keystore_codecs \<Rightarrow> inner \<Rightarrow> bytes \<Rightarrow> identity \<Rightarrow> identity \<Rightarrow> inner io" where
  "continue_identity L pqc C self passphrase current successor =
     (case self of
        V3 v3 \<Rightarrow>
          bnd (lift (unlock_dek_with_passphrase L (k3_body v3) passphrase)) (\<lambda>dek.
          bnd (lift (decrypt_bundle L pqc C dek (k2_bundle_nonce (k3_body v3)) (k2_bundle_ct (k3_body v3)))) (\<lambda>stored.
            if id_fingerprint L stored \<noteq> id_fingerprint L current \<or>
               sm_identity_fingerprint (k3_state v3) \<noteq> id_fingerprint L current
            then throw (StateMismatch ''keystore does not hold the active identity'')
            else if ed25519_public L (id_sign successor) \<noteq> ed25519_public L (id_sign stored) \<or>
                    x25519_public L (id_kem successor) \<noteq> x25519_public L (id_kem stored)
            then throw (StateMismatch ''successor identity changes the classical keys'')
            else
              bnd (encrypt_bundle L C dek successor) (\<lambda>(bundle_nonce, bundle_ct).
                let body = \<lparr>k2_version = VERSION_V2, k2_bundle_nonce = bundle_nonce, k2_bundle_ct = bundle_ct,
                            k2_passphrase = k2_passphrase (k3_body v3), k2_passkeys = k2_passkeys (k3_body v3),
                            k2_device = k2_device (k3_body v3)\<rparr> in
                bnd (lift (v3_build L C body successor None)) (\<lambda>v3. ret (V3 v3)))))
      | _ \<Rightarrow> throw (LegacyState ''keystore''))"

definition ks_state_metadata :: "inner \<Rightarrow> state_metadata option" where
  "ks_state_metadata self = (case self of V3 v3 \<Rightarrow> Some (k3_state v3) | _ \<Rightarrow> None)"

end
