(* ===== verification/Keys_Unlock.thy ===== *)
theory Keys_Unlock
  imports Keys_Keystore Core_Envelope
begin

section \<open>What opens a keystore\<close>

text \<open>
  A keystore promises what a ring of keys promises: the identity, one passphrase, a list of passkey
  secrets and perhaps a device token, each of which opens it. Every operation of \<open>KeystoreFile\<close>
  is the operation of that name on the ring.
\<close>

subsection \<open>Hypotheses on the codecs\<close>

definition bundle_typed :: "secret_bundle \<Rightarrow> bool" where
  "bundle_typed b \<longleftrightarrow> i64_typed (sb_created_at b) \<and> length (sb_sign_secret b) = 32 \<and> length (sb_kem_secret b) = 32"

definition v2_typed :: "keystore_v2 \<Rightarrow> bool" where
  "v2_typed k \<longleftrightarrow> list_all (\<lambda>s. i64_typed (sl_added_at s)) (k2_passkeys k)"

definition state_typed :: "state_metadata \<Rightarrow> bool" where
  "state_typed s \<longleftrightarrow>
     length (sm_identity_fingerprint s) = 32 \<and> length (sm_previous_state_hash s) = 32 \<and> length (sm_current_state_hash s) = 32"

definition v3_typed :: "keystore_v3 \<Rightarrow> bool" where
  "v3_typed k \<longleftrightarrow> v2_typed (k3_body k) \<and> public_typed (k3_public_identity k) \<and> state_typed (k3_state k)"

definition keystore_codecs_ok :: "keystore_codecs \<Rightarrow> bool" where
  "keystore_codecs_ok C \<longleftrightarrow>
     codec_ok bundle_typed (kc_bundle C) \<and> codec_ok v2_typed (kc_v2 C) \<and> codec_ok v3_typed (kc_v3 C) \<and>
     codec_ok (\<lambda>_. True) (kc_backup C)"

definition keystore_lib_ok :: "lib \<Rightarrow> bool" where
  "keystore_lib_ok L \<longleftrightarrow> aead_correct L \<and> blake3_lengths L \<and> ed25519_spec L \<and> x25519_spec L"

text \<open>An identity as the generators make it: both post-quantum keys or none.\<close>

definition whole_identity :: "lib \<Rightarrow> identity \<Rightarrow> bool" where
  "whole_identity L i \<longleftrightarrow> identity_ok L i \<and> i64_typed (id_created_at i) \<and> (id_mldsa i = None \<longleftrightarrow> id_mlkem i = None)"

subsection \<open>Sealing and opening\<close>

lemma bundle_roundtrip:
  assumes "whole_identity L i"
  shows "bundle_into_identity L pqc (build_bundle i) = Inr i" and "bundle_typed (build_bundle i)"
proof -
  show "bundle_typed (build_bundle i)"
    using assms by (simp add: bundle_typed_def build_bundle_def whole_identity_def identity_ok_def)
  show "bundle_into_identity L pqc (build_bundle i) = Inr i"
  proof (cases "id_mldsa i")
    case None
    with assms have "id_mlkem i = None" by (simp add: whole_identity_def)
    with None show ?thesis
      by (simp add: bundle_into_identity_def check_pqc_pairs_def build_bundle_def from_parts_def)
  next
    case (Some m)
    with assms obtain k where k: "id_mlkem i = Some k" by (auto simp: whole_identity_def)
    with Some assms have "length (pq_seed m) = 32" "pq_public m = mldsa_public L (pq_seed m)"
      "length (pq_seed k) = 64" "pq_public k = mlkem_public L (pq_seed k)"
      by (auto simp: whole_identity_def identity_ok_def)
    with Some k show ?thesis
      by (simp add: bundle_into_identity_def check_pqc_pairs_def build_bundle_def from_parts_def derives_def
          mldsa_public_from_seed_def mldsa_key_from_seed_def mlkem_public_from_seed_def mlkem_keypair_from_seed_def)
  qed
qed

lemma wrap_unwrap_dek:
  assumes "aead_correct L" and "wrap_dek L kek dek aad w = (Inr (n, c), w')" and "length dek = 32"
  shows "unwrap_dek L kek n c aad = Inr dek"
  using assms seal_open by (auto simp: wrap_dek_def unwrap_dek_def bnd_eq_Inr)

lemma encrypt_decrypt_bundle:
  assumes "aead_correct L" and "codec_ok bundle_typed (kc_bundle C)" and "whole_identity L i"
    and "encrypt_bundle L C dek i w = (Inr (n, c), w')"
  shows "decrypt_bundle L pqc C dek n c = Inr i"
proof -
  from assms(4) obtain pt where pt: "to_vec (kc_bundle C) (build_bundle i) = Inr pt" "seal L dek n AAD_BUNDLE_V2 pt = Inr c"
    by (auto simp: encrypt_bundle_def bnd_eq_Inr)
  show ?thesis
    using seal_open [OF assms(1) pt(2)] from_slice_to_vec [OF assms(2) bundle_roundtrip(2) [OF assms(3)] pt(1)]
      bundle_roundtrip(1) [OF assms(3)]
    by (simp add: decrypt_bundle_def)
qed

subsection \<open>The abstract key ring\<close>

record ring =
  rg_identity :: identity
  rg_passphrase :: bytes
  rg_keys :: "bytes list"
  rg_device :: "bytes option"

datatype ring_op =
    AddPasskey bytes passkey_enrollment
  | RemovePasskey nat identity
  | SetDevice bytes bytes
  | RemoveDevice identity
  | Continue bytes identity identity

definition new_ring :: "identity \<Rightarrow> bytes \<Rightarrow> ring" where
  "new_ring i passphrase = \<lparr>rg_identity = i, rg_passphrase = passphrase, rg_keys = [], rg_device = None\<rparr>"

fun ring_step :: "ring_op \<Rightarrow> ring \<Rightarrow> ring" where
  "ring_step (AddPasskey _ e) r = r\<lparr>rg_keys := rg_keys r @ [pe_hmac_output e]\<rparr>"
| "ring_step (RemovePasskey k _) r = r\<lparr>rg_keys := remove_nth k (rg_keys r)\<rparr>"
| "ring_step (SetDevice _ token) r = r\<lparr>rg_device := Some token\<rparr>"
| "ring_step (RemoveDevice _) r = r\<lparr>rg_device := None\<rparr>"
| "ring_step (Continue _ _ successor) r = r\<lparr>rg_identity := successor\<rparr>"

text \<open>The caller holds the passphrase and the active identity.\<close>

fun ring_allows :: "lib \<Rightarrow> ring_op \<Rightarrow> ring \<Rightarrow> bool" where
  "ring_allows L (AddPasskey p e) r \<longleftrightarrow> p = rg_passphrase r \<and> i64_typed (pe_added_at e)"
| "ring_allows L (RemovePasskey _ i) r \<longleftrightarrow> i = rg_identity r"
| "ring_allows L (SetDevice p _) r \<longleftrightarrow> p = rg_passphrase r"
| "ring_allows L (RemoveDevice i) r \<longleftrightarrow> i = rg_identity r"
| "ring_allows L (Continue p _ successor) r \<longleftrightarrow> p = rg_passphrase r \<and> whole_identity L successor"

fun ring_allows_all :: "lib \<Rightarrow> ring_op list \<Rightarrow> ring \<Rightarrow> bool" where
  "ring_allows_all L [] r = True"
| "ring_allows_all L (c # cs) r = (ring_allows L c r \<and> ring_allows_all L cs (ring_step c r))"

fun ks_step :: "lib \<Rightarrow> bool \<Rightarrow> keystore_codecs \<Rightarrow> ring_op \<Rightarrow> (inner \<times> world, unit) op" where
  "ks_step L pqc C (AddPasskey p e) = ks_add_passkey L pqc C p e"
| "ks_step L pqc C (RemovePasskey k i) = ks_remove_passkey L C k i"
| "ks_step L pqc C (SetDevice p token) = set_device_token L pqc C p token"
| "ks_step L pqc C (RemoveDevice i) = remove_device_token L C i"
| "ks_step L pqc C (Continue p current successor) =
     bnd (gets fst) (\<lambda>self.
     bnd (on_snd (continue_identity L pqc C self p current successor)) (\<lambda>next.
       on_fst (modify (\<lambda>_. next))))"

definition slot_opens :: "lib \<Rightarrow> bytes \<Rightarrow> passkey_slot \<Rightarrow> bytes \<Rightarrow> bool" where
  "slot_opens L dek slot output \<longleftrightarrow>
     unwrap_dek L (derive_subkey L PASSKEY_KEK_CONTEXT output) (sl_nonce slot) (sl_wrapped_dek slot)
       (passkey_wrap_aad L (sl_credential_id slot) (sl_rp_id slot) (sl_hmac_salt slot)
          (if sl_metadata_bound slot then Some (sl_label slot, sl_added_at slot) else None)) = Inr dek"

definition device_opens :: "lib \<Rightarrow> bytes \<Rightarrow> device_slot \<Rightarrow> bytes \<Rightarrow> bool" where
  "device_opens L dek slot token \<longleftrightarrow>
     unwrap_dek L (derive_subkey L DEVICE_KEK_CONTEXT token) (ds_nonce slot) (ds_wrapped_dek slot) (device_wrap_aad L) = Inr dek"

definition body_opens :: "lib \<Rightarrow> bool \<Rightarrow> keystore_codecs \<Rightarrow> bytes \<Rightarrow> keystore_v2 \<Rightarrow> ring \<Rightarrow> bool" where
  "body_opens L pqc C dek k r \<longleftrightarrow>
     length dek = 32 \<and> decrypt_bundle L pqc C dek (k2_bundle_nonce k) (k2_bundle_ct k) = Inr (rg_identity r) \<and>
     unlock_dek_with_passphrase L k (rg_passphrase r) = Inr dek \<and>
     validate_for_open (ps_kdf (k2_passphrase k)) = Inr () \<and>
     list_all2 (slot_opens L dek) (k2_passkeys k) (rg_keys r) \<and>
     rel_option (device_opens L dek) (k2_device k) (rg_device r) \<and> v2_typed k"

definition v3_sound :: "lib \<Rightarrow> keystore_codecs \<Rightarrow> keystore_v3 \<Rightarrow> identity \<Rightarrow> bool" where
  "v3_sound L C v3 i \<longleftrightarrow>
     v3_verify L C v3 = Inr () \<and> k3_public_identity v3 = id_public L i \<and> state_typed (k3_state v3) \<and> whole_identity L i"

definition ks_holds :: "lib \<Rightarrow> bool \<Rightarrow> keystore_codecs \<Rightarrow> inner \<Rightarrow> ring \<Rightarrow> bool" where
  "ks_holds L pqc C ks r \<longleftrightarrow>
     (\<exists>v3 dek. ks = V3 v3 \<and> body_opens L pqc C dek (k3_body v3) r \<and> v3_sound L C v3 (rg_identity r))"

subsection \<open>Signed states\<close>

lemma sm_next_typed:
  assumes "sm_next L fpr Keystore KEYSTORE_ID 0 previous payload = Inr s" and "blake3_lengths L" and "length fpr = 32"
    and "\<And>a. previous = Some a \<Longrightarrow> length (sa_current_state_hash a) = 32"
  shows "state_typed s \<and> sm_suite_id s = 0 \<and> sm_identity_fingerprint s = fpr \<and> sm_object_type s = Keystore \<and> sm_object_id s = KEYSTORE_ID"
proof (cases previous)
  case None
  with assms(1) have "sm_next L fpr Keystore KEYSTORE_ID 0 None payload = Inr s" by simp
  from sm_next_None [OF this] show ?thesis
    using blake3_lengthsD(1) [OF assms(2)] assms(3) by (simp add: state_typed_def GENESIS_HASH_def expected_hash_eq)
next
  case (Some a)
  with assms(1) have "sm_next L fpr Keystore KEYSTORE_ID 0 (Some a) payload = Inr s" by simp
  from sm_next_Some [OF this] show ?thesis
    using blake3_lengthsD(1) [OF assms(2)] assms(3,4) Some by (simp add: state_typed_def expected_hash_eq)
qed

lemma signed_state_verifies:
  assumes "to_vec (kc_v2 C) (k3_body v3) = Inr payload"
    and "sm_next L (id_fingerprint L i) Keystore KEYSTORE_ID 0 previous payload = Inr (k3_state v3)"
    and "k3_signature v3 = id_sign_message L i (authenticated_data (k3_state v3))"
    and "k3_version v3 = VERSION_V3" and "k3_public_identity v3 = id_public L i"
    and "keystore_lib_ok L" and "whole_identity L i" and "\<And>a. previous = Some a \<Longrightarrow> length (sa_current_state_hash a) = 32"
  shows "v3_sound L C v3 i"
proof -
  have b: "blake3_lengths L" "ed25519_spec L" using assms(6) by (simp_all add: keystore_lib_ok_def)
  have "length (id_fingerprint L i) = 32" using blake3_lengthsD(1) [OF b(1)] by (simp add: id_fingerprint_def fingerprint_def)
  note t = sm_next_typed [OF assms(2) b(1) this assms(8)]
  have "length (ed25519_sign L (id_sign i) m) = 64" for m using b(2) by (simp add: ed25519_spec_def)
  then have "v3_verify L C v3 = Inr ()"
    using assms(1,3-5) t sm_next_verifies [OF assms(2)] sign_verify_sign [OF b(2)]
    by (simp add: v3_verify_def id_fingerprint_def id_sign_message_def)
  then show ?thesis using t assms(5,7) by (simp add: v3_sound_def)
qed

lemma v3_build_sound:
  assumes "v3_build L C body i None = Inr v3" and "keystore_lib_ok L" and "whole_identity L i"
  shows "v3_sound L C v3 i \<and> k3_body v3 = body \<and> sm_epoch (k3_state v3) = 1"
proof -
  from assms(1) obtain payload where p: "to_vec (kc_v2 C) body = Inr payload"
    "sm_next L (id_fingerprint L i) Keystore KEYSTORE_ID 0 None payload = Inr (k3_state v3)"
    "k3_signature v3 = id_sign_message L i (authenticated_data (k3_state v3))" "k3_version v3 = VERSION_V3"
    "k3_public_identity v3 = id_public L i" "k3_body v3 = body"
    by (auto simp: v3_build_def result_simps)
  show ?thesis
    using signed_state_verifies [OF _ p(2-5) assms(2,3)] p(1,6) sm_next_None [OF p(2)] by simp
qed

text \<open>An anchor that was set to the old state takes the new one as its successor.\<close>

definition next_of :: "state_metadata \<Rightarrow> state_metadata \<Rightarrow> bool" where
  "next_of s t \<longleftrightarrow> check_candidate (from_metadata s) t = Inr True"

lemma v3_advance_run:
  assumes "v3_advance L C i v3 = (Inr (), v3')"
  obtains payload state where "to_vec (kc_v2 C) (k3_body v3) = Inr payload"
    "sm_next L (id_fingerprint L i) Keystore KEYSTORE_ID 0 (Some (from_metadata (k3_state v3))) payload = Inr state"
    "v3' = v3\<lparr>k3_state := state, k3_signature := id_sign_message L i (authenticated_data state)\<rparr>"
  using assms by (auto simp: v3_advance_def bnd_eq_Inr split: if_splits)

lemma v3_advance_next:
  assumes "v3_advance L C i v3 = (Inr (), v3')"
  shows "next_of (k3_state v3) (k3_state v3')"
proof -
  from v3_advance_run [OF assms] obtain payload state where
    n: "sm_next L (id_fingerprint L i) Keystore KEYSTORE_ID 0 (Some (from_metadata (k3_state v3))) payload = Inr state"
    and st: "k3_state v3' = state" by fastforce
  have m: "sm_object_type (k3_state v3) = Keystore" "sm_object_id (k3_state v3) = KEYSTORE_ID"
    "sm_identity_fingerprint (k3_state v3) = id_fingerprint L i"
    using n by (auto simp: sm_next_def from_metadata_def split: if_splits)
  note s = sm_next_Some [OF n]
  have "unat (sm_epoch state) = unat (sm_epoch (k3_state v3)) + 1" using s by (simp add: from_metadata_def)
  then have up: "sm_epoch (k3_state v3) < sm_epoch state" and "unat (sm_epoch state) = unat (sm_epoch (k3_state v3)) + 1"
    by (simp_all add: word_less_nat_alt)
  then have "sm_epoch state = saturating_add (sm_epoch (k3_state v3)) 1"
    using saturating_add_one [OF up] by (simp add: word_unat_eq_iff)
  moreover have "sm_epoch state \<noteq> sm_epoch (k3_state v3)" "\<not> sm_epoch state < sm_epoch (k3_state v3)" using up by auto
  ultimately show ?thesis
    using s m unfolding st by (simp add: next_of_def check_candidate_def from_metadata_def Let_def)
qed

lemma v3_advance_sound:
  assumes "v3_advance L C i (v3\<lparr>k3_body := body\<rparr>) = (Inr (), v3')" and "v3_sound L C v3 i" and "keystore_lib_ok L"
  shows "v3_sound L C v3' i \<and> k3_body v3' = body"
proof -
  from v3_advance_run [OF assms(1)] obtain payload state where p: "to_vec (kc_v2 C) body = Inr payload"
    "sm_next L (id_fingerprint L i) Keystore KEYSTORE_ID 0 (Some (from_metadata (k3_state v3))) payload = Inr state"
    and v: "v3' = v3\<lparr>k3_body := body, k3_state := state, k3_signature := id_sign_message L i (authenticated_data state)\<rparr>"
    by (metis keystore_v3.select_convs(2,4) keystore_v3.surjective keystore_v3.update_convs(4))
  have s: "k3_version v3 = VERSION_V3" "k3_public_identity v3 = id_public L i" "state_typed (k3_state v3)" "whole_identity L i"
    using assms(2) by (auto simp: v3_sound_def v3_verify_def split: if_splits)
  have "v3_sound L C v3' i"
    by (rule signed_state_verifies [where previous = "Some (from_metadata (k3_state v3))" and payload = payload])
      (use p s assms(3) in \<open>simp_all add: v from_metadata_def state_typed_def\<close>)
  then show ?thesis by (simp add: v)
qed

subsection \<open>Every operation is the ring's\<close>

lemma held_eq: "held c k m (self, w) = (r, (self', w')) \<longleftrightarrow> (\<exists>k'. m (k, w) = (r, (k', w')) \<and> self' = c k')"
  by (auto simp: held_def split: prod.splits)

lemma advance_self_V3: "advance_self L C i (V3 v3, w) = (r, (ks, w')) \<longleftrightarrow> (\<exists>v3'. v3_advance L C i v3 = (r, v3') \<and> ks = V3 v3' \<and> w' = w)"
  by (auto simp: advance_self_def bnd_def gets_def held_eq on_fst_eq)

lemma on_modify_eq: "on_fst (modify f) (k, w) = (r, (k', w')) \<longleftrightarrow> r = Inr () \<and> k' = f k \<and> w' = w"
  by (auto simp: on_fst_def modify_def)

lemma v2_add_passkey_run:
  assumes "v2_add_passkey L dek e (k, w) = (Inr (), (k', w'))" and "aead_correct L" and "length dek = 32"
  shows "\<exists>slot. k' = k\<lparr>k2_passkeys := k2_passkeys k @ [slot]\<rparr> \<and> slot_opens L dek slot (pe_hmac_output e) \<and> sl_added_at slot = pe_added_at e"
proof -
  from assms(1) obtain n c where n: "wrap_dek L (derive_subkey L PASSKEY_KEK_CONTEXT (pe_hmac_output e)) dek
      (passkey_wrap_aad L (pe_credential_id e) (pe_rp_id e) (pe_hmac_salt e) (Some (pe_label e, pe_added_at e))) w = (Inr (n, c), w')"
    and k: "k' = k\<lparr>k2_passkeys := k2_passkeys k @
           [\<lparr>sl_credential_id = pe_credential_id e, sl_rp_id = pe_rp_id e, sl_hmac_salt = pe_hmac_salt e, sl_label = pe_label e,
             sl_added_at = pe_added_at e, sl_metadata_bound = True, sl_nonce = n, sl_wrapped_dek = c\<rparr>]\<rparr>"
    by (auto simp: v2_add_passkey_def Let_def bnd_eq_Inr on_snd_eq on_modify_eq simp del: on_snd_run on_fst_run)
  from wrap_unwrap_dek [OF assms(2) n assms(3)] show ?thesis unfolding k by (fastforce simp: slot_opens_def)
qed

lemma set_device_slot_run:
  assumes "set_device_slot L dek token (k, w) = (Inr (), (k', w'))" and "aead_correct L" and "length dek = 32"
  shows "\<exists>slot. k' = k\<lparr>k2_device := Some slot\<rparr> \<and> device_opens L dek slot token"
proof -
  from assms(1) obtain n c where n: "wrap_dek L (derive_subkey L DEVICE_KEK_CONTEXT token) dek (device_wrap_aad L) w = (Inr (n, c), w')"
    and k: "k' = k\<lparr>k2_device := Some \<lparr>ds_nonce = n, ds_wrapped_dek = c\<rparr>\<rparr>"
    by (auto simp: set_device_slot_def Let_def bnd_eq_Inr on_snd_eq on_modify_eq simp del: on_snd_run on_fst_run)
  from wrap_unwrap_dek [OF assms(2) n assms(3)] show ?thesis unfolding k by (fastforce simp: device_opens_def)
qed

lemma remove_nth_all2: "list_all2 P xs ys \<Longrightarrow> list_all2 P (remove_nth n xs) (remove_nth n ys)"
  by (auto simp: remove_nth_def intro!: list_all2_appendI list_all2_takeI list_all2_dropI)

lemma remove_nth_all: "list_all P xs \<Longrightarrow> list_all P (remove_nth n xs)"
  by (auto simp: remove_nth_def list_all_iff dest: in_set_takeD in_set_dropD)

text \<open>Changing the slots leaves the other ways in alone.\<close>

lemma body_opens_update:
  assumes "body_opens L pqc C dek k r"
  shows "slot_opens L dek slot out \<Longrightarrow> i64_typed (sl_added_at slot) \<Longrightarrow>
      body_opens L pqc C dek (k\<lparr>k2_passkeys := k2_passkeys k @ [slot]\<rparr>) (r\<lparr>rg_keys := rg_keys r @ [out]\<rparr>)"
    and "body_opens L pqc C dek (k\<lparr>k2_passkeys := remove_nth n (k2_passkeys k)\<rparr>) (r\<lparr>rg_keys := remove_nth n (rg_keys r)\<rparr>)"
    and "device_opens L dek ds token \<Longrightarrow> body_opens L pqc C dek (k\<lparr>k2_device := Some ds\<rparr>) (r\<lparr>rg_device := Some token\<rparr>)"
    and "body_opens L pqc C dek (k\<lparr>k2_device := None\<rparr>) (r\<lparr>rg_device := None\<rparr>)"
proof -
  show "body_opens L pqc C dek (k\<lparr>k2_passkeys := remove_nth n (k2_passkeys k)\<rparr>) (r\<lparr>rg_keys := remove_nth n (rg_keys r)\<rparr>)"
    using assms by (auto simp: body_opens_def unlock_dek_with_passphrase_def v2_typed_def intro: remove_nth_all2 remove_nth_all)
qed (use assms in \<open>auto simp: body_opens_def unlock_dek_with_passphrase_def v2_typed_def intro: list_all2_appendI\<close>)

lemma v2_unlock_opens: "body_opens L pqc C dek k r \<Longrightarrow> v2_unlock L pqc C k (rg_passphrase r) = Inr (rg_identity r)"
  by (simp add: body_opens_def v2_unlock_def)

lemma advanced_holds:
  assumes "v3_advance L C (rg_identity r) (v3\<lparr>k3_body := body\<rparr>) = (Inr (), v3')" and "v3_sound L C v3 (rg_identity r)"
    and "keystore_lib_ok L" and "body_opens L pqc C dek body r'" and "rg_identity r' = rg_identity r"
  shows "ks_holds L pqc C (V3 v3') r'"
  using v3_advance_sound [OF assms(1-3)] assms(4,5) by (auto simp: ks_holds_def)

lemma ks_step_refines:
  assumes "ks_holds L pqc C ks r" and "ring_allows L c r" and "ks_step L pqc C c (ks, w) = (Inr (), (ks', w'))"
    and "keystore_lib_ok L" and "keystore_codecs_ok C"
  shows "ks_holds L pqc C ks' (ring_step c r)"
proof -
  from assms(1) obtain v3 dek where ks: "ks = V3 v3" and b: "body_opens L pqc C dek (k3_body v3) r" and s: "v3_sound L C v3 (rg_identity r)"
    by (auto simp: ks_holds_def)
  have ac: "aead_correct L" using assms(4) by (simp add: keystore_lib_ok_def)
  have dl: "length dek = 32" and dk: "unlock_dek_with_passphrase L (k3_body v3) (rg_passphrase r) = Inr dek"
    and db: "decrypt_bundle L pqc C dek (k2_bundle_nonce (k3_body v3)) (k2_bundle_ct (k3_body v3)) = Inr (rg_identity r)"
    using b by (simp_all add: body_opens_def)
  note un = v2_unlock_opens [OF b]
  note mut = bnd_eq_Inr held_eq advance_self_V3 on_modify_eq gets_def
  show ?thesis
  proof (cases c)
    case (AddPasskey p e)
    with assms(2,3) dk un obtain k1 w1 v3' where 1: "v2_add_passkey L dek e (k3_body v3, w) = (Inr (), (k1, w1))"
      "v3_advance L C (rg_identity r) (v3\<lparr>k3_body := k1\<rparr>) = (Inr (), v3')" "ks' = V3 v3'"
      by (auto simp: ks ks_add_passkey_def mut)
    from v2_add_passkey_run [OF 1(1) ac dl] obtain slot where
      "k1 = (k3_body v3)\<lparr>k2_passkeys := k2_passkeys (k3_body v3) @ [slot]\<rparr>" "slot_opens L dek slot (pe_hmac_output e)"
      "sl_added_at slot = pe_added_at e" by blast
    then have "body_opens L pqc C dek k1 (ring_step c r)" using body_opens_update(1) [OF b] assms(2) AddPasskey by simp
    from advanced_holds [OF 1(2) s assms(4) this] show ?thesis using 1(3) AddPasskey by simp
  next
    case (RemovePasskey n i)
    with assms(2,3) obtain v3' where
      "v3_advance L C (rg_identity r) (v3\<lparr>k3_body := (k3_body v3)\<lparr>k2_passkeys := remove_nth n (k2_passkeys (k3_body v3))\<rparr>\<rparr>) = (Inr (), v3')"
      "ks' = V3 v3'"
      by (auto simp: ks ks_remove_passkey_def mut split: if_splits)
    from advanced_holds [OF this(1) s assms(4) body_opens_update(2) [OF b]] this(2) show ?thesis using RemovePasskey by simp
  next
    case (SetDevice p token)
    with assms(2,3) dk db obtain k1 w1 v3' where 1: "set_device_slot L dek token (k3_body v3, w) = (Inr (), (k1, w1))"
      "v3_advance L C (rg_identity r) (v3\<lparr>k3_body := k1\<rparr>) = (Inr (), v3')" "ks' = V3 v3'"
      by (auto simp: ks set_device_token_def mut)
    from set_device_slot_run [OF 1(1) ac dl] obtain slot where
      "k1 = (k3_body v3)\<lparr>k2_device := Some slot\<rparr>" "device_opens L dek slot token" by blast
    then have "body_opens L pqc C dek k1 (ring_step c r)" using body_opens_update(3) [OF b] SetDevice by simp
    from advanced_holds [OF 1(2) s assms(4) this] show ?thesis using 1(3) SetDevice by simp
  next
    case (RemoveDevice i)
    let ?body = "(k3_body v3)\<lparr>k2_device := None\<rparr>"
    show ?thesis
    proof (cases "k2_device (k3_body v3) = None")
      case True
      then have "rg_device r = None" "?body = k3_body v3" using b by (auto simp: body_opens_def)
      moreover have "v3\<lparr>k3_body := k3_body v3\<rparr> = v3" by simp
      ultimately have "ring_step c r = r" "ks' = ks"
        using True assms(3) RemoveDevice by (auto simp: ks remove_device_token_def mut)
      then show ?thesis using assms(1) by simp
    next
      case False
      with assms(2,3) RemoveDevice obtain v3' where
        "v3_advance L C (rg_identity r) (v3\<lparr>k3_body := ?body\<rparr>) = (Inr (), v3')" "ks' = V3 v3'"
        by (auto simp: ks remove_device_token_def mut)
      from advanced_holds [OF this(1) s assms(4) body_opens_update(4) [OF b]] this(2) show ?thesis using RemoveDevice by simp
    qed
  next
    case (Continue p current successor)
    with assms(2,3) dk db obtain n ct w1 v3' where 1: "encrypt_bundle L C dek successor w = (Inr (n, ct), w1)"
      "v3_build L C \<lparr>k2_version = VERSION_V2, k2_bundle_nonce = n, k2_bundle_ct = ct, k2_passphrase = k2_passphrase (k3_body v3),
          k2_passkeys = k2_passkeys (k3_body v3), k2_device = k2_device (k3_body v3)\<rparr> successor None = Inr v3'" "ks' = V3 v3'"
      by (auto simp: ks continue_identity_def mut Let_def on_snd_eq split: if_splits simp del: on_snd_run on_fst_run)
    have g: "whole_identity L successor" using assms(2) Continue by simp
    have "decrypt_bundle L pqc C dek n ct = Inr successor"
      using encrypt_decrypt_bundle [OF ac _ g 1(1)] assms(5) by (simp add: keystore_codecs_ok_def)
    then have "body_opens L pqc C dek (k3_body v3') (r\<lparr>rg_identity := successor\<rparr>)"
      using b v3_build_sound [OF 1(2) assms(4) g] by (simp add: body_opens_def unlock_dek_with_passphrase_def v2_typed_def)
    then show ?thesis using v3_build_sound [OF 1(2) assms(4) g] 1(3) Continue by (auto simp: ks_holds_def)
  qed
qed

subsection \<open>From creation to the file\<close>

lemma ks_create_holds:
  assumes "ks_create L C i passphrase params w = (Inr ks, w')" and "keystore_lib_ok L" and "keystore_codecs_ok C"
    and "whole_identity L i" and "rng_fills w"
  shows "ks_holds L pqc C ks (new_ring i passphrase)"
proof -
  have ac: "aead_correct L" using assms(2) by (simp add: keystore_lib_ok_def)
  from assms(1) obtain dek w1 bn bc w2 slot w3 v3 where d: "symkey_random w = (Inr dek, w1)"
    and e: "encrypt_bundle L C dek i w1 = (Inr (bn, bc), w2)"
    and sl: "build_passphrase_slot L dek passphrase params w2 = (Inr slot, w3)"
    and b: "v3_build L C \<lparr>k2_version = VERSION_V2, k2_bundle_nonce = bn, k2_bundle_ct = bc, k2_passphrase = slot,
             k2_passkeys = [], k2_device = None\<rparr> i None = Inr v3" and ks: "ks = V3 v3"
    by (auto simp: ks_create_def create_with_dek_def bnd_eq_Inr)
  have dl: "length dek = 32" using getrandom_length [OF assms(5)] d by (simp add: random_defs)
  from sl obtain salt kek n c w4 where m: "derive_master_key L passphrase salt params = Inr kek"
    "wrap_dek L kek dek (passphrase_wrap_aad L salt params) w4 = (Inr (n, c), w3)"
    "slot = \<lparr>ps_kdf = params, ps_salt = salt, ps_nonce = n, ps_wrapped_dek = c\<rparr>"
    by (auto simp: build_passphrase_slot_def bnd_eq_Inr)
  have "validate_for_open params = Inr ()" using m(1) by (auto simp: derive_master_key_def result_simps)
  moreover have "decrypt_bundle L pqc C dek bn bc = Inr i"
    using encrypt_decrypt_bundle [OF ac _ assms(4) e] assms(3) by (simp add: keystore_codecs_ok_def)
  ultimately have "body_opens L pqc C dek (k3_body v3) (new_ring i passphrase)"
    using v3_build_sound [OF b assms(2,4)] dl m wrap_unwrap_dek [OF ac m(2) dl]
    by (simp add: body_opens_def new_ring_def v2_typed_def unlock_dek_with_passphrase_def)
  then show ?thesis
    using v3_build_sound [OF b assms(2,4)] ks by (auto simp: ks_holds_def new_ring_def)
qed

definition ks_run :: "lib \<Rightarrow> bool \<Rightarrow> keystore_codecs \<Rightarrow> ring_op list \<Rightarrow> (inner \<times> world, unit) op" where
  "ks_run L pqc C cs = io_for (ks_step L pqc C) cs"

lemma ks_run_refines:
  assumes "ks_run L pqc C cs (ks, w) = (Inr (), (ks', w'))" and "ks_holds L pqc C ks r" and "ring_allows_all L cs r"
    and "keystore_lib_ok L" and "keystore_codecs_ok C"
  shows "ks_holds L pqc C ks' (fold ring_step cs r)"
  using assms(1-3)
proof (induction cs arbitrary: ks w r)
  case (Cons c cs)
  from Cons.prems(1) obtain ks1 w1 where 1: "ks_step L pqc C c (ks, w) = (Inr (), (ks1, w1))"
    and 2: "ks_run L pqc C cs (ks1, w1) = (Inr (), (ks', w'))"
    by (auto simp: ks_run_def bnd_eq_Inr)
  have "ks_holds L pqc C ks1 (ring_step c r)" using ks_step_refines [OF Cons.prems(2) _ 1 assms(4,5)] Cons.prems(3) by simp
  from Cons.IH [OF 2 this] Cons.prems(3) show ?case by simp
qed (simp add: ks_run_def)

lemma whole_identity_public: "whole_identity L i \<Longrightarrow> keystore_lib_ok L \<Longrightarrow> public_typed (id_public L i)"
  by (simp add: public_typed_def whole_identity_def keystore_lib_ok_def ed25519_spec_def x25519_spec_def i64_typed_def id_public_def)

text \<open>What is held can be written, and what was written is read back.\<close>

lemma ks_bytes_roundtrip:
  assumes "ks_holds L pqc C ks r" and "keystore_lib_ok L" and "keystore_codecs_ok C"
  shows "\<exists>b. ks_to_bytes L C ks = Inr b \<and> ks_from_bytes L C b = Inr ks"
proof -
  from assms(1) obtain v3 dek where ks: "ks = V3 v3" and b: "body_opens L pqc C dek (k3_body v3) r" and s: "v3_sound L C v3 (rg_identity r)"
    by (auto simp: ks_holds_def)
  have t: "v3_typed v3"
    using b s whole_identity_public [of L "rg_identity r"] assms(2) by (simp add: v3_typed_def body_opens_def v3_sound_def)
  have c: "codec_ok v3_typed (kc_v3 C)" using assms(3) by (simp add: keystore_codecs_ok_def)
  obtain body where body: "to_vec (kc_v3 C) v3 = Inr body" using to_vec_total [OF c t] by blast
  have "length (MAGIC_V2) = 4" by (simp add: MAGIC_V2_def)
  moreover have "take 2 (to_be_bytes VERSION_V3 @ body) = to_be_bytes VERSION_V3" "drop 2 (to_be_bytes VERSION_V3 @ body) = body"
    by (simp_all add: length_to_be_bytes)
  ultimately show ?thesis
    using s b body from_slice_to_vec [OF c t body]
    by (auto simp: ks ks_to_bytes_def ks_from_bytes_def v3_sound_def body_opens_def Let_def length_to_be_bytes)
qed

lemma ks_holds_opens:
  assumes "ks_holds L pqc C ks r"
  shows "ks_unlock L pqc C ks (rg_passphrase r) = Inr (rg_identity r)"
    and "length (passkey_slots ks) = length (rg_keys r)"
    and "k < length (rg_keys r) \<Longrightarrow> ks_unlock_with_passkey L pqc C ks k (rg_keys r ! k) = Inr (rg_identity r)"
    and "has_device_token ks \<longleftrightarrow> rg_device r \<noteq> None"
    and "rg_device r = Some token \<Longrightarrow> unlock_with_device_token L pqc C ks token = Inr (rg_identity r)"
proof -
  from assms obtain v3 dek where ks: "ks = V3 v3" and b: "body_opens L pqc C dek (k3_body v3) r" by (auto simp: ks_holds_def)
  have l: "list_all2 (slot_opens L dek) (k2_passkeys (k3_body v3)) (rg_keys r)" and d: "rel_option (device_opens L dek) (k2_device (k3_body v3)) (rg_device r)"
    and db: "decrypt_bundle L pqc C dek (k2_bundle_nonce (k3_body v3)) (k2_bundle_ct (k3_body v3)) = Inr (rg_identity r)"
    using b by (simp_all add: body_opens_def)
  show "ks_unlock L pqc C ks (rg_passphrase r) = Inr (rg_identity r)" using v2_unlock_opens [OF b] by (simp add: ks ks_unlock_def)
  show "length (passkey_slots ks) = length (rg_keys r)" using list_all2_lengthD [OF l] by (simp add: ks passkey_slots_def)
  show "ks_unlock_with_passkey L pqc C ks k (rg_keys r ! k) = Inr (rg_identity r)" if "k < length (rg_keys r)"
    using list_all2_nthD2 [OF l that] that list_all2_lengthD [OF l] db
    by (simp add: ks ks_unlock_with_passkey_def v2_unlock_with_passkey_def slot_opens_def Let_def)
  show "has_device_token ks \<longleftrightarrow> rg_device r \<noteq> None" using d by (auto simp: ks has_device_token_def option_rel_Some1 option_rel_Some2 rel_option_iff split: option.splits)
  show "unlock_with_device_token L pqc C ks token = Inr (rg_identity r)" if "rg_device r = Some token"
  proof -
    from d that obtain slot where "k2_device (k3_body v3) = Some slot" "device_opens L dek slot token"
      by (auto simp: option_rel_Some2)
    then show ?thesis using db by (simp add: ks unlock_with_device_token_def unlock_with_device_def device_opens_def Let_def)
  qed
qed

subsection \<open>Permitted changes go through\<close>

lemma seal_returns:
  "aead_total L \<Longrightarrow> length k = 32 \<Longrightarrow> length n = NONCE_LEN \<Longrightarrow> length m < 2 ^ 32 \<Longrightarrow> \<exists>c. seal L k n aad m = Inr c"
  using aead_totalD [of L k n XChaCha20Poly1305 m aad] by (auto simp: seal_def seal_with_def cipher_def NONCE_LEN_def)

lemma wrap_dek_returns:
  assumes "aead_total L" and "rng_answers w" and "length kek = 32" and "length dek = 32"
  shows "\<exists>n c w'. wrap_dek L kek dek aad w = (Inr (n, c), w') \<and> rng_answers w'"
proof -
  obtain n w' where n: "getrandom NONCE_LEN w = (Inr n, w')" "length n = NONCE_LEN" "rng_answers w'" using random_answers [OF assms(2)] by blast
  obtain c where "seal L kek n aad dek = Inr c" using seal_returns [OF assms(1,3) n(2), of dek] assms(4) by auto
  with n show ?thesis by (simp add: wrap_dek_def random_defs bnd_def)
qed

lemma encrypt_bundle_returns:
  assumes "aead_total L" and "rng_answers w" and "length dek = 32" and "to_vec (kc_bundle C) (build_bundle i) = Inr pt" and "length pt < 2 ^ 32"
  shows "\<exists>n c w'. encrypt_bundle L C dek i w = (Inr (n, c), w') \<and> rng_answers w'"
proof -
  obtain n w' where n: "getrandom NONCE_LEN w = (Inr n, w')" "length n = NONCE_LEN" "rng_answers w'" using random_answers [OF assms(2)] by blast
  obtain c where "seal L dek n AAD_BUNDLE_V2 pt = Inr c" using seal_returns [OF assms(1,3) n(2) assms(5)] by auto
  with n assms(4) show ?thesis by (simp add: encrypt_bundle_def random_defs bnd_def)
qed

lemma v3_advance_returns:
  assumes "v3_sound L C v3 i" and "codec_ok v2_typed (kc_v2 C)" and "v2_typed body" and "unat (sm_epoch (k3_state v3)) < 2 ^ 64 - 1"
  shows "\<exists>v3'. v3_advance L C i (v3\<lparr>k3_body := body\<rparr>) = (Inr (), v3') \<and>
    unat (sm_epoch (k3_state v3')) = unat (sm_epoch (k3_state v3)) + 1"
proof -
  obtain payload where p: "to_vec (kc_v2 C) body = Inr payload" using to_vec_total [OF assms(2,3)] by blast
  have m: "sm_object_type (k3_state v3) = Keystore" "sm_object_id (k3_state v3) = KEYSTORE_ID"
    "sm_identity_fingerprint (k3_state v3) = id_fingerprint L i"
    using assms(1) by (auto simp: v3_sound_def v3_verify_def id_fingerprint_def split: if_splits)
  have "unat (sm_epoch (k3_state v3)) + unat (1 :: u64) < 2 ^ 64" using assms(4) by simp
  then obtain e where "checked_add (sm_epoch (k3_state v3)) 1 = Some e" by (simp add: checked_add_def)
  then obtain s where s: "sm_next L (id_fingerprint L i) Keystore KEYSTORE_ID 0 (Some (from_metadata (k3_state v3))) payload = Inr s"
    using m by (simp add: sm_next_def from_metadata_def)
  show ?thesis using p m s sm_next_Some [OF s] by (simp add: v3_advance_def bnd_def gets_def modify_def from_metadata_def)
qed

text \<open>What a change needs: a slot to remove, the active identity to continue.\<close>

fun ring_ready :: "lib \<Rightarrow> keystore_codecs \<Rightarrow> ring_op \<Rightarrow> ring \<Rightarrow> bool" where
  "ring_ready L C (RemovePasskey k _) r \<longleftrightarrow> k < length (rg_keys r)"
| "ring_ready L C (Continue _ current successor) r \<longleftrightarrow>
     id_fingerprint L current = id_fingerprint L (rg_identity r) \<and> id_sign successor = id_sign (rg_identity r) \<and>
     id_kem successor = id_kem (rg_identity r) \<and> (\<forall>pt. to_vec (kc_bundle C) (build_bundle successor) = Inr pt \<longrightarrow> length pt < 2 ^ 32)"
| "ring_ready L C _ r \<longleftrightarrow> True"

definition ks_epoch :: "inner \<Rightarrow> nat" where
  "ks_epoch ks = (case ks_state_metadata ks of None \<Rightarrow> 0 | Some s \<Rightarrow> unat (sm_epoch s))"

lemma ks_step_returns:
  assumes "ks_holds L pqc C ks r" and "ring_allows L c r" and "ring_ready L C c r" and "ks_epoch ks < 2 ^ 64 - 1"
    and "keystore_lib_ok L" and "keystore_codecs_ok C" and "aead_total L" and "rng_answers w"
  shows "\<exists>ks' w'. ks_step L pqc C c (ks, w) = (Inr (), (ks', w')) \<and> rng_answers w' \<and> ks_epoch ks' \<le> ks_epoch ks + 1"
proof -
  from assms(1) obtain v3 dek where ks: "ks = V3 v3" and b: "body_opens L pqc C dek (k3_body v3) r" and s: "v3_sound L C v3 (rg_identity r)"
    by (auto simp: ks_holds_def)
  have dl: "length dek = 32" and dk: "unlock_dek_with_passphrase L (k3_body v3) (rg_passphrase r) = Inr dek"
    and db: "decrypt_bundle L pqc C dek (k2_bundle_nonce (k3_body v3)) (k2_bundle_ct (k3_body v3)) = Inr (rg_identity r)"
    and ty: "v2_typed (k3_body v3)" and kl: "length (k2_passkeys (k3_body v3)) = length (rg_keys r)"
    using b by (auto simp: body_opens_def dest: list_all2_lengthD)
  have ac: "aead_correct L" and bl: "blake3_lengths L" using assms(5) by (simp_all add: keystore_lib_ok_def)
  have cv: "codec_ok v2_typed (kc_v2 C)" and cb: "codec_ok bundle_typed (kc_bundle C)" using assms(6) by (simp_all add: keystore_codecs_ok_def)
  note un = v2_unlock_opens [OF b]
  have kek: "length (derive_subkey L ctx x) = 32" for ctx x using blake3_lengthsD(3) [OF bl] by (simp add: derive_subkey_def)
  have ep: "unat (sm_epoch (k3_state v3)) < 2 ^ 64 - 1"
    using assms(4) by (simp add: ks_epoch_def ks_state_metadata_def ks)
  note adv = v3_advance_returns [OF s cv _ ep]
  note mut = bnd_def held_def gets_def modify_def advance_self_def
  have el: "ks_epoch (V3 v) = unat (sm_epoch (k3_state v))" for v by (simp add: ks_epoch_def ks_state_metadata_def)
  show ?thesis
  proof (cases c)
    case (AddPasskey p e)
    obtain n ct w1 where 1: "wrap_dek L (derive_subkey L PASSKEY_KEK_CONTEXT (pe_hmac_output e)) dek
      (passkey_wrap_aad L (pe_credential_id e) (pe_rp_id e) (pe_hmac_salt e) (Some (pe_label e, pe_added_at e))) w = (Inr (n, ct), w1)"
      "rng_answers w1" using wrap_dek_returns [OF assms(7,8) kek dl] by blast
    let ?slot = "\<lparr>sl_credential_id = pe_credential_id e, sl_rp_id = pe_rp_id e, sl_hmac_salt = pe_hmac_salt e, sl_label = pe_label e,
             sl_added_at = pe_added_at e, sl_metadata_bound = True, sl_nonce = n, sl_wrapped_dek = ct\<rparr>"
    let ?body = "(k3_body v3)\<lparr>k2_passkeys := k2_passkeys (k3_body v3) @ [?slot]\<rparr>"
    have "v2_typed ?body" using ty assms(2) AddPasskey by (simp add: v2_typed_def)
    from adv [OF this] obtain v3' where "v3_advance L C (rg_identity r) (v3\<lparr>k3_body := ?body\<rparr>) = (Inr (), v3')"
      "unat (sm_epoch (k3_state v3')) = unat (sm_epoch (k3_state v3)) + 1" by blast
    then show ?thesis using 1 assms(2) dk un AddPasskey
      by (simp add: ks ks_add_passkey_def v2_add_passkey_def mut el Let_def)
  next
    case (RemovePasskey n i)
    let ?body = "(k3_body v3)\<lparr>k2_passkeys := remove_nth n (k2_passkeys (k3_body v3))\<rparr>"
    have "v2_typed ?body" using ty remove_nth_all by (fastforce simp: v2_typed_def)
    from adv [OF this] obtain v3' where "v3_advance L C (rg_identity r) (v3\<lparr>k3_body := ?body\<rparr>) = (Inr (), v3')"
      "unat (sm_epoch (k3_state v3')) = unat (sm_epoch (k3_state v3)) + 1" by blast
    then show ?thesis using assms(2,3,8) kl RemovePasskey
      by (simp add: ks ks_remove_passkey_def mut el Let_def)
  next
    case (SetDevice p token)
    obtain n ct w1 where 1: "wrap_dek L (derive_subkey L DEVICE_KEK_CONTEXT token) dek (device_wrap_aad L) w = (Inr (n, ct), w1)"
      "rng_answers w1" using wrap_dek_returns [OF assms(7,8) kek dl] by blast
    let ?body = "(k3_body v3)\<lparr>k2_device := Some \<lparr>ds_nonce = n, ds_wrapped_dek = ct\<rparr>\<rparr>"
    have "v2_typed ?body" using ty by (simp add: v2_typed_def)
    from adv [OF this] obtain v3' where "v3_advance L C (rg_identity r) (v3\<lparr>k3_body := ?body\<rparr>) = (Inr (), v3')"
      "unat (sm_epoch (k3_state v3')) = unat (sm_epoch (k3_state v3)) + 1" by blast
    then show ?thesis using 1 assms(2) dk db SetDevice
      by (simp add: ks set_device_token_def set_device_slot_def mut el Let_def)
  next
    case (RemoveDevice i)
    let ?body = "(k3_body v3)\<lparr>k2_device := None\<rparr>"
    have "v2_typed ?body" using ty by (simp add: v2_typed_def)
    from adv [OF this] obtain v3' where "v3_advance L C (rg_identity r) (v3\<lparr>k3_body := ?body\<rparr>) = (Inr (), v3')"
      "unat (sm_epoch (k3_state v3')) = unat (sm_epoch (k3_state v3)) + 1" by blast
    then show ?thesis using assms(2,8) RemoveDevice
      by (cases "k2_device (k3_body v3)") (simp_all add: ks remove_device_token_def mut el Let_def)
  next
    case (Continue p current successor)
    have g: "whole_identity L successor" using assms(2) Continue by simp
    obtain pt where pt: "to_vec (kc_bundle C) (build_bundle successor) = Inr pt" using to_vec_total [OF cb bundle_roundtrip(2) [OF g]] by blast
    then have "length pt < 2 ^ 32" using assms(3) Continue by simp
    from encrypt_bundle_returns [OF assms(7,8) dl pt this] obtain n ct w1 where
      1: "encrypt_bundle L C dek successor w = (Inr (n, ct), w1)" "rng_answers w1" by blast
    let ?body = "\<lparr>k2_version = VERSION_V2, k2_bundle_nonce = n, k2_bundle_ct = ct, k2_passphrase = k2_passphrase (k3_body v3),
          k2_passkeys = k2_passkeys (k3_body v3), k2_device = k2_device (k3_body v3)\<rparr>"
    have "v2_typed ?body" using ty by (simp add: v2_typed_def)
    then obtain payload where "to_vec (kc_v2 C) ?body = Inr payload" using to_vec_total [OF cv] by blast
    then obtain v3' where 2: "v3_build L C ?body successor None = Inr v3'" by (simp add: v3_build_def sm_next_def Let_def)
    have f: "sm_identity_fingerprint (k3_state v3) = id_fingerprint L (rg_identity r)"
      using s by (auto simp: v3_sound_def v3_verify_def id_fingerprint_def split: if_splits)
    show ?thesis
      using 1 2 dk db f assms(2,3) v3_build_sound [OF 2 assms(5) g] Continue
      by (simp add: ks continue_identity_def mut el Let_def)
  qed
qed

fun ring_ready_all :: "lib \<Rightarrow> keystore_codecs \<Rightarrow> ring_op list \<Rightarrow> ring \<Rightarrow> bool" where
  "ring_ready_all L C [] r = True"
| "ring_ready_all L C (c # cs) r = (ring_ready L C c r \<and> ring_ready_all L C cs (ring_step c r))"

lemma ks_run_returns:
  assumes "ks_holds L pqc C ks r" and "ring_allows_all L cs r" and "ring_ready_all L C cs r" and "ks_epoch ks + length cs < 2 ^ 64"
    and "keystore_lib_ok L" and "keystore_codecs_ok C" and "aead_total L" and "rng_answers w"
  shows "\<exists>ks' w'. ks_run L pqc C cs (ks, w) = (Inr (), (ks', w'))"
  using assms(1-4,8)
proof (induction cs arbitrary: ks w r)
  case (Cons c cs)
  have "\<exists>ks' w'. ks_step L pqc C c (ks, w) = (Inr (), (ks', w')) \<and> rng_answers w' \<and> ks_epoch ks' \<le> ks_epoch ks + 1"
    by (rule ks_step_returns [OF Cons.prems(1) _ _ _ assms(5-7) Cons.prems(5)]) (use Cons.prems in simp_all)
  then obtain ks1 w1 where 1: "ks_step L pqc C c (ks, w) = (Inr (), (ks1, w1))" "rng_answers w1" "ks_epoch ks1 \<le> ks_epoch ks + 1" by blast
  have "ks_holds L pqc C ks1 (ring_step c r)" using ks_step_refines [OF Cons.prems(1) _ 1(1) assms(5,6)] Cons.prems(2) by simp
  from Cons.IH [OF this _ _ _ 1(2)] obtain ks' w' where "ks_run L pqc C cs (ks1, w1) = (Inr (), (ks', w'))"
    using Cons.prems 1(3) by auto
  then show ?case using 1(1) by (simp add: ks_run_def bnd_def)
qed (simp add: ks_run_def)

lemma ks_create_rng: "preserves rng_answers (ks_create L C i passphrase params)"
proof -
  have random: "preserves rng_answers (getrandom n)" for n
    by (rule preserves_getrandom) (simp add: rng_answers_def rng_fills_def)
  show ?thesis
    unfolding ks_create_def create_with_dek_def encrypt_bundle_def build_passphrase_slot_def wrap_dek_def random_defs
    by (intro preserves_bnd preserves_lift preserves_ret preserves_prod random)
qed

lemma ks_create_epoch: "ks_create L C i passphrase params w = (Inr ks, w') \<Longrightarrow> ks_epoch ks = 1"
  by (auto simp: ks_create_def bnd_eq_Inr v3_build_def result_simps ks_epoch_def ks_state_metadata_def dest!: sm_next_None)

text \<open>Every change of a signed keystore is the next state of its chain.\<close>

lemma ks_step_next:
  assumes "ks_step L pqc C c (V3 v3, w) = (Inr (), (ks', w'))" and "\<forall>p i j. c \<noteq> Continue p i j"
  shows "\<exists>v3'. ks' = V3 v3' \<and> (next_of (k3_state v3) (k3_state v3') \<or> v3' = v3 \<and> \<not> has_device_token (V3 v3))"
proof -
  note mut = bnd_eq_Inr held_eq advance_self_V3 on_modify_eq gets_def
  have nxt: "v3_advance L C i (v3\<lparr>k3_body := body\<rparr>) = (Inr (), v3') \<Longrightarrow> next_of (k3_state v3) (k3_state v3')" for i body v3'
    using v3_advance_next by fastforce
  show ?thesis
  proof (cases c)
    case (RemoveDevice i)
    have "v3\<lparr>k3_body := (k3_body v3)\<lparr>k2_device := None\<rparr>\<rparr> = v3" if "k2_device (k3_body v3) = None"
    proof -
      from that have "(k3_body v3)\<lparr>k2_device := None\<rparr> = k3_body v3" by simp
      then show ?thesis by simp
    qed
    with RemoveDevice assms(1) nxt show ?thesis
      by (auto simp: remove_device_token_def mut has_device_token_def split: if_splits)
  qed (use assms nxt in \<open>auto simp: ks_add_passkey_def ks_remove_passkey_def set_device_token_def mut split: if_splits\<close>)
qed

subsection \<open>Backups\<close>

lemma backup_restores:
  assumes "export_identity_armored L B C i passphrase params w = (Inr txt, w')" and "base64_spec B"
    and "aead_correct L" and "keystore_codecs_ok C" and "whole_identity L i"
  shows "import_identity_armored L pqc B C txt passphrase = Inr i"
proof -
  from assms(1) obtain salt master nonce pt ct body where m: "derive_master_key L passphrase salt params = Inr master"
    and pt: "to_vec (kc_bundle C) (build_bundle i) = Inr pt" and ct: "seal L master nonce AAD_BACKUP_V1 pt = Inr ct"
    and body: "to_vec (kc_backup C) \<lparr>ib_version = VERSION_BACKUP_V1, ib_kdf = params, ib_salt = salt, ib_nonce = nonce,
                                     ib_ciphertext = ct\<rparr> = Inr body"
    and tx: "txt = armored BACKUP_ARMOR_BEGIN BACKUP_ARMOR_END
                (b64_encode B (MAGIC_BACKUP @ to_be_bytes VERSION_BACKUP_V1 @ body))"
    by (auto simp: export_identity_armored_def bnd_eq_Inr)
  let ?framed = "MAGIC_BACKUP @ to_be_bytes VERSION_BACKUP_V1 @ body"
  have "good_delimiter BACKUP_ARMOR_BEGIN" "good_delimiter BACKUP_ARMOR_END" "BACKUP_ARMOR_BEGIN \<noteq> BACKUP_ARMOR_END"
    by (simp_all add: good_delimiter_def BACKUP_ARMOR_BEGIN_def BACKUP_ARMOR_END_def)
  from armor_roundtrip [OF this base64_specD(2) [OF assms(2)]]
  have d: "dearmored BACKUP_ARMOR_BEGIN BACKUP_ARMOR_END txt = b64_encode B ?framed" unfolding tx .
  have "length MAGIC_BACKUP = 4" by (simp add: MAGIC_BACKUP_def)
  moreover have "take 2 (to_be_bytes VERSION_BACKUP_V1 @ body) = to_be_bytes VERSION_BACKUP_V1" "drop 2 (to_be_bytes VERSION_BACKUP_V1 @ body) = body"
    by (simp_all add: length_to_be_bytes)
  moreover have "b64_encode B ?framed \<noteq> []" using base64_specD(3) [OF assms(2), of ?framed] by (simp add: MAGIC_BACKUP_def)
  moreover have "from_slice (kc_backup C) body = Inr \<lparr>ib_version = VERSION_BACKUP_V1, ib_kdf = params, ib_salt = salt, ib_nonce = nonce, ib_ciphertext = ct\<rparr>"
    using from_slice_to_vec [OF _ _ body] assms(4) by (auto simp: keystore_codecs_ok_def)
  moreover have "from_slice (kc_bundle C) pt = Inr (build_bundle i)"
    using from_slice_to_vec [of bundle_typed, OF _ bundle_roundtrip(2) [OF assms(5)] pt] assms(4) by (simp add: keystore_codecs_ok_def)
  moreover have "validate_for_open params = Inr ()" using m by (auto simp: derive_master_key_def result_simps)
  ultimately show ?thesis
    using d m base64_specD(1) [OF assms(2), of ?framed] seal_open [OF assms(3) ct] bundle_roundtrip(1) [OF assms(5)]
    by (simp add: import_identity_armored_def decode_loose_def Let_def length_to_be_bytes)
qed

end
