(* ===== verification/Keys_Properties.thy ===== *)
theory Keys_Properties
  imports Keys_Unlock Net_Transport "HOL-Library.Code_Target_Nat"
begin

section \<open>The keystore: properties\<close>

text \<open>
  Codecs for evaluating the model, and what the keystore promises: every way in opens it after any
  sequence of changes, every change is one step of the signed chain, and a backup restores.
\<close>

subsection \<open>A concrete keystore\<close>

definition kdf_fields :: "kdf_params \<Rightarrow> bytes list" where
  "kdf_fields p = [nat_field (unat (m_cost p)), nat_field (unat (t_cost p)), nat_field (unat (p_cost p))]"

definition kdf_of_fields :: "bytes list \<Rightarrow> kdf_params option" where
  "kdf_of_fields xs =
     (case xs of [a, b, c] \<Rightarrow> Some \<lparr>m_cost = word_of_field a, t_cost = word_of_field b, p_cost = word_of_field c\<rparr> | _ \<Rightarrow> None)"

definition bundle_fields :: "secret_bundle \<Rightarrow> bytes list" where
  "bundle_fields b =
     [as_bytes (sb_name b), int_field (sb_created_at b), sb_sign_secret b, sb_kem_secret b, option_field (sb_mldsa_seed b),
      option_field (sb_mldsa_public b), option_field (sb_mlkem_seed b), option_field (sb_mlkem_public b)]"

definition bundle_of_fields :: "bytes list \<Rightarrow> secret_bundle option" where
  "bundle_of_fields xs =
     (case xs of
        [a, b, c, d, e, f, g, h] \<Rightarrow>
          Some \<lparr>sb_name = string_of_field a, sb_created_at = int_of_field b, sb_sign_secret = c, sb_kem_secret = d,
                sb_mldsa_seed = option_of_field e, sb_mldsa_public = option_of_field f, sb_mlkem_seed = option_of_field g,
                sb_mlkem_public = option_of_field h\<rparr>
      | _ \<Rightarrow> None)"

definition passkey_fields :: "passkey_slot \<Rightarrow> bytes list" where
  "passkey_fields s =
     [sl_credential_id s, as_bytes (sl_rp_id s), sl_hmac_salt s, as_bytes (sl_label s), int_field (sl_added_at s),
      (if sl_metadata_bound s then [1] else []), sl_nonce s, sl_wrapped_dek s]"

definition passkey_of_fields :: "bytes list \<Rightarrow> passkey_slot option" where
  "passkey_of_fields xs =
     (case xs of
        [a, b, c, d, e, f, g, h] \<Rightarrow>
          Some \<lparr>sl_credential_id = a, sl_rp_id = string_of_field b, sl_hmac_salt = c, sl_label = string_of_field d,
                sl_added_at = int_of_field e, sl_metadata_bound = (f \<noteq> []), sl_nonce = g, sl_wrapped_dek = h\<rparr>
      | _ \<Rightarrow> None)"

text \<open>The body: eight fields, then one per passkey.\<close>

definition v2_fields :: "keystore_v2 \<Rightarrow> bytes list" where
  "v2_fields k =
     [nat_field (unat (k2_version k)), k2_bundle_nonce k, k2_bundle_ct k, record_field (kdf_fields (ps_kdf (k2_passphrase k))),
      ps_salt (k2_passphrase k), ps_nonce (k2_passphrase k), ps_wrapped_dek (k2_passphrase k),
      option_field (map_option (\<lambda>d. record_field [ds_nonce d, ds_wrapped_dek d]) (k2_device k))] @
     map (\<lambda>s. record_field (passkey_fields s)) (k2_passkeys k)"

definition device_of_field :: "bytes \<Rightarrow> device_slot option" where
  "device_of_field b =
     (case record_of_field b of Some [n, d] \<Rightarrow> Some \<lparr>ds_nonce = n, ds_wrapped_dek = d\<rparr> | _ \<Rightarrow> None)"

definition v2_of_fields :: "bytes list \<Rightarrow> keystore_v2 option" where
  "v2_of_fields xs =
     (case xs of
        a # b # c # d # e # f # g # h # rest \<Rightarrow>
          Option.bind (Option.bind (record_of_field d) kdf_of_fields) (\<lambda>p.
          Option.bind (all_some (map (\<lambda>x. Option.bind (record_of_field x) passkey_of_fields) rest)) (\<lambda>ks.
            Some \<lparr>k2_version = word_of_field a, k2_bundle_nonce = b, k2_bundle_ct = c,
                  k2_passphrase = \<lparr>ps_kdf = p, ps_salt = e, ps_nonce = f, ps_wrapped_dek = g\<rparr>,
                  k2_passkeys = ks, k2_device = Option.bind (option_of_field h) device_of_field\<rparr>))
      | _ \<Rightarrow> None)"

fun object_type_of_field :: "bytes \<Rightarrow> state_object_type" where
  "object_type_of_field b = (if b = [0] then Keystore else if b = [1] then Contacts else if b = [2] then Registry else VaultManifest)"

definition object_type_field :: "state_object_type \<Rightarrow> bytes" where
  "object_type_field t = [case t of Keystore \<Rightarrow> 0 | Contacts \<Rightarrow> 1 | Registry \<Rightarrow> 2 | VaultManifest \<Rightarrow> 3]"

definition v3_fields :: "keystore_v3 \<Rightarrow> bytes list" where
  "v3_fields k =
     (let s = k3_state k; p = k3_public_identity k in
      [nat_field (unat (k3_version k)), sm_identity_fingerprint s, object_type_field (sm_object_type s), as_bytes (sm_object_id s),
       nat_field (unat (sm_suite_id s)), nat_field (unat (sm_epoch s)), sm_previous_state_hash s, sm_current_state_hash s,
       as_bytes (pi_name p), int_field (pi_created_at p), pi_sign_public p, pi_kem_public p, option_field (pi_mldsa_public p),
       option_field (pi_mlkem_public p), record_field (v2_fields (k3_body k)), k3_signature k])"

definition v3_of_fields :: "bytes list \<Rightarrow> keystore_v3 option" where
  "v3_of_fields xs =
     (case xs of
        [a, b, c, d, e, f, g, h, i, j, k, l, m, n, q, r] \<Rightarrow>
          Option.bind (Option.bind (record_of_field q) v2_of_fields) (\<lambda>body.
            Some \<lparr>k3_version = word_of_field a,
                  k3_state = \<lparr>sm_identity_fingerprint = b, sm_object_type = object_type_of_field c, sm_object_id = string_of_field d,
                    sm_suite_id = word_of_field e, sm_epoch = word_of_field f, sm_previous_state_hash = g, sm_current_state_hash = h\<rparr>,
                  k3_public_identity = \<lparr>pi_name = string_of_field i, pi_created_at = int_of_field j, pi_sign_public = k,
                    pi_kem_public = l, pi_mldsa_public = option_of_field m, pi_mlkem_public = option_of_field n\<rparr>,
                  k3_body = body, k3_signature = r\<rparr>)
      | _ \<Rightarrow> None)"

definition backup_fields :: "identity_backup_v1 \<Rightarrow> bytes list" where
  "backup_fields b =
     [nat_field (unat (ib_version b)), record_field (kdf_fields (ib_kdf b)), ib_salt b, ib_nonce b, ib_ciphertext b]"

definition backup_of_fields :: "bytes list \<Rightarrow> identity_backup_v1 option" where
  "backup_of_fields xs =
     (case xs of
        [a, b, c, d, e] \<Rightarrow>
          Option.bind (Option.bind (record_of_field b) kdf_of_fields) (\<lambda>p.
            Some \<lparr>ib_version = word_of_field a, ib_kdf = p, ib_salt = c, ib_nonce = d, ib_ciphertext = e\<rparr>)
      | _ \<Rightarrow> None)"

definition demo_keystore :: keystore_codecs where
  "demo_keystore =
     \<lparr>kc_bundle = fields_codec bundle_typed bundle_fields bundle_of_fields,
      kc_v1 = \<lparr>enc = (\<lambda>_. None), dec = (\<lambda>_. None)\<rparr>,
      kc_v2 = fields_codec v2_typed v2_fields v2_of_fields,
      kc_v3 = fields_codec v3_typed v3_fields v3_of_fields,
      kc_backup = fields_codec (\<lambda>_. True) backup_fields backup_of_fields\<rparr>"

lemma kdf_fields_inverse [simp]: "kdf_of_fields (kdf_fields p) = Some p"
  by (simp add: kdf_of_fields_def kdf_fields_def)

lemma bundle_fields_inverse [simp]: "bundle_of_fields (bundle_fields b) = Some b"
  by (simp add: bundle_of_fields_def bundle_fields_def)

lemma passkey_fields_inverse [simp]: "passkey_of_fields (passkey_fields s) = Some s"
  by (simp add: passkey_of_fields_def passkey_fields_def)

lemma v2_fields_inverse [simp]: "v2_of_fields (v2_fields k) = Some k"
proof -
  have "map (\<lambda>x. Option.bind (record_of_field x) passkey_of_fields) (map (\<lambda>s. record_field (passkey_fields s)) (k2_passkeys k))
      = map Some (k2_passkeys k)" by simp
  moreover have "Option.bind (map_option (\<lambda>d. record_field [ds_nonce d, ds_wrapped_dek d]) (k2_device k)) device_of_field = k2_device k"
    by (cases "k2_device k") (simp_all add: device_of_field_def)
  ultimately show ?thesis by (simp add: v2_of_fields_def v2_fields_def comp_def)
qed

lemma v3_fields_inverse [simp]: "v3_of_fields (v3_fields k) = Some k"
  by (cases "sm_object_type (k3_state k)") (simp_all add: v3_of_fields_def v3_fields_def object_type_field_def Let_def)

lemma backup_fields_inverse [simp]: "backup_of_fields (backup_fields b) = Some b"
  by (simp add: backup_of_fields_def backup_fields_def)

lemma demo_keystore_ok: "keystore_codecs_ok demo_keystore" "keystore_lib_ok demo_lib"
  using demo_aead demo_hashes demo_keys
  by (simp_all add: keystore_codecs_ok_def demo_keystore_def fields_codec_ok keystore_lib_ok_def)

definition demo_kdf :: kdf_params where "demo_kdf = \<lparr>m_cost = 8, t_cost = 1, p_cost = 1\<rparr>"

definition demo_enrollment :: "byte \<Rightarrow> passkey_enrollment" where
  "demo_enrollment b =
     \<lparr>pe_credential_id = [b], pe_rp_id = ''fs'', pe_hmac_salt = [], pe_label = ''k'', pe_added_at = 7, pe_hmac_output = [b, b]\<rparr>"

definition demo_successor :: identity where "demo_successor = demo_identity\<lparr>id_name := ''b''\<rparr>"

definition demo_changes :: "ring_op list" where
  "demo_changes =
     [AddPasskey [1] (demo_enrollment 4), AddPasskey [1] (demo_enrollment 5), SetDevice [1] [9], RemovePasskey 0 demo_identity,
      Continue [1] demo_identity demo_successor]"

lemma demo_master: "derive_master_key demo_lib p salt demo_kdf = Inr (replicate 32 8)"
  by (simp add: derive_master_key_def validate_for_open_def policy_validate_def policy_open_def demo_kdf_def checked_mul_def demo_lib_def)

lemma demo_whole: "whole_identity demo_lib demo_identity" "whole_identity demo_lib demo_successor"
  by (simp_all add: whole_identity_def identity_ok_def demo_identity_def demo_successor_def i64_typed_def)

lemma demo_bundle_length:
  assumes "i \<in> {demo_identity, demo_successor}" and "to_vec (kc_bundle demo_keystore) (build_bundle i) = Inr pt"
  shows "length pt < 2 ^ 32"
proof -
  have "pt = put_fields (bundle_fields (build_bundle i))"
    using assms(2) by (simp add: to_vec_def demo_keystore_def fields_codec_def split: if_splits)
  then show ?thesis
    using assms(1)
    by (auto simp: bundle_fields_def build_bundle_def demo_successor_def demo_identity_def
        length_put_fields_eq length_put_bytes_eq int_field_def nat_field_def option_field_def)
qed

lemma demo_answers: "rng_answers demo_world"
  by (simp add: rng_answers_def rng_fills_def demo_world_def)

lemma demo_created: "\<exists>ks w. ks_create demo_lib demo_keystore demo_identity [1] demo_kdf demo_world = (Inr ks, w)"
proof -
  obtain dek w1 where 1: "getrandom 32 demo_world = (Inr dek, w1)" "length dek = 32" "rng_answers w1" using random_answers [OF demo_answers] by blast
  obtain pt where pt: "to_vec (kc_bundle demo_keystore) (build_bundle demo_identity) = Inr pt"
    using to_vec_total [of bundle_typed, OF _ bundle_roundtrip(2) [OF demo_whole(1)]] demo_keystore_ok(1)
    by (auto simp: keystore_codecs_ok_def)
  have "length pt < 2 ^ 32" using demo_bundle_length [OF _ pt] by simp
  from encrypt_bundle_returns [OF demo_aead(3) 1(3,2) pt this] obtain n c w2 where
    2: "encrypt_bundle demo_lib demo_keystore dek demo_identity w1 = (Inr (n, c), w2)" "rng_answers w2" by blast
  obtain salt w3 where 3: "getrandom SALT_LEN w2 = (Inr salt, w3)" "rng_answers w3" using random_answers [OF 2(2)] by blast
  have "length (replicate 32 (8 :: byte)) = 32" by simp
  from wrap_dek_returns [OF demo_aead(3) 3(2) this 1(2)] obtain wn wc w4 where
    4: "wrap_dek demo_lib (replicate 32 8) dek (passphrase_wrap_aad demo_lib salt demo_kdf) w3 = (Inr (wn, wc), w4)" by blast
  let ?body = "\<lparr>k2_version = VERSION_V2, k2_bundle_nonce = n, k2_bundle_ct = c,
    k2_passphrase = \<lparr>ps_kdf = demo_kdf, ps_salt = salt, ps_nonce = wn, ps_wrapped_dek = wc\<rparr>, k2_passkeys = [], k2_device = None\<rparr>"
  have "v2_typed ?body" by (simp add: v2_typed_def)
  then obtain payload where "to_vec (kc_v2 demo_keystore) ?body = Inr payload"
    using to_vec_total [of v2_typed "kc_v2 demo_keystore"] demo_keystore_ok(1) by (auto simp: keystore_codecs_ok_def)
  then show ?thesis
    using 1(1) 2(1) 3(1) 4 demo_master
    by (simp add: ks_create_def create_with_dek_def build_passphrase_slot_def random_defs bnd_def v3_build_def sm_next_def Let_def)
qed

lemma demo_allowed:
  "ring_allows_all demo_lib demo_changes (new_ring demo_identity [1])"
  "ring_ready_all demo_lib demo_keystore demo_changes (new_ring demo_identity [1])"
  using demo_whole(2) demo_bundle_length [of demo_successor]
  by (simp_all add: demo_changes_def new_ring_def demo_enrollment_def i64_typed_def remove_nth_def demo_successor_def)

text \<open>Base64 itself.\<close>

definition b64_char :: "nat \<Rightarrow> char" where
  "b64_char k =
     (if k < 26 then char_of (65 + k) else if k < 52 then char_of (71 + k) else if k < 62 then char_of (k - 4)
      else if k = 62 then CHR ''+'' else CHR ''/'')"

definition b64_value :: "char \<Rightarrow> nat" where
  "b64_value c =
     (let n = of_char c in
      if 65 \<le> n \<and> n \<le> 90 then n - 65 else if 97 \<le> n \<and> n \<le> 122 then n - 71 else if 48 \<le> n \<and> n \<le> 57 then n + 4
      else if n = 43 then 62 else 63)"

fun b64_text :: "nat list \<Rightarrow> string" where
  "b64_text [] = []"
| "b64_text [a] = [b64_char (a div 4), b64_char (a mod 4 * 16), CHR ''='', CHR ''='']"
| "b64_text [a, b] = [b64_char (a div 4), b64_char (a mod 4 * 16 + b div 16), b64_char (b mod 16 * 4), CHR ''='']"
| "b64_text (a # b # c # r) =
     [b64_char (a div 4), b64_char (a mod 4 * 16 + b div 16), b64_char (b mod 16 * 4 + c div 64), b64_char (c mod 64)] @ b64_text r"

fun b64_read :: "string \<Rightarrow> nat list option" where
  "b64_read [] = Some []"
| "b64_read (p # q # r # s # rest) =
     (let x = b64_value p; y = b64_value q; z = b64_value r; w = b64_value s in
      if s = CHR ''='' then
        (if rest \<noteq> [] then None
         else if r = CHR ''='' then Some [x * 4 + y div 16]
         else Some [x * 4 + y div 16, y mod 16 * 16 + z div 4])
      else map_option (\<lambda>t. [x * 4 + y div 16, y mod 16 * 16 + z div 4, z mod 4 * 64 + w] @ t) (b64_read rest))"
| "b64_read _ = None"

definition demo_base64 :: base64 where
  "demo_base64 =
     \<lparr>b64_encode = (\<lambda>b. b64_text (map unat b)), b64_decode = (\<lambda>s. map_option (map of_nat) (b64_read s)),
      b64_nopad_decode = (\<lambda>_. None)\<rparr>"

lemma base64_pad [simp]: "is_base64_char (CHR ''='')"
  by (simp add: is_base64_char_def)

lemma b64_digit: "k < 64 \<Longrightarrow> b64_value (b64_char k) = k \<and> b64_char k \<noteq> CHR ''='' \<and> is_base64_char (b64_char k)"
  by (auto simp: char_of_iff b64_value_def b64_char_def is_base64_char_def is_ascii_alphanumeric_def Let_def)

lemma six_bits: "a < 256 \<Longrightarrow> b < 256 \<Longrightarrow> a mod 4 * 16 + b div 16 < (64 :: nat)" "c < 256 \<Longrightarrow> b mod 16 * 4 + c div 64 < (64 :: nat)"
  by linarith+

lemma byte_bits: "a < 256 \<Longrightarrow> a div 4 < (64 :: nat)" "b < 256 \<Longrightarrow> b div 16 < (16 :: nat)" "c < 256 \<Longrightarrow> c div 64 < (4 :: nat)"
  by linarith+

lemma b64_read_text:
  "\<forall>x\<in>set xs. x < 256 \<Longrightarrow> b64_read (b64_text xs) = Some xs \<and> list_all is_base64_char (b64_text xs) \<and>
     length (b64_text xs) = 4 * ((length xs + 2) div 3)"
proof (induction xs rule: b64_text.induct)
  case (2 a)
  then show ?case using b64_digit [of "a div 4"] b64_digit [of "a mod 4 * 16"] by (simp add: Let_def)
next
  case (3 a b)
  have "b64_value (b64_char (a mod 4 * 16 + b div 16)) = a mod 4 * 16 + b div 16" "is_base64_char (b64_char (a mod 4 * 16 + b div 16))"
    using b64_digit [OF six_bits(1) [of a b]] 3 by simp_all
  then show ?case using 3 b64_digit [of "a div 4"] b64_digit [of "b mod 16 * 4"] byte_bits(1) [of a] byte_bits(2) [of b]
    by (simp add: Let_def)
next
  case (4 a b c r)
  have "b64_value (b64_char (a mod 4 * 16 + b div 16)) = a mod 4 * 16 + b div 16" "is_base64_char (b64_char (a mod 4 * 16 + b div 16))"
    "b64_value (b64_char (b mod 16 * 4 + c div 64)) = b mod 16 * 4 + c div 64" "is_base64_char (b64_char (b mod 16 * 4 + c div 64))"
    using b64_digit [OF six_bits(1) [of a b]] b64_digit [OF six_bits(2) [of c b]] 4 by simp_all
  then show ?case using 4 b64_digit [of "a div 4"] b64_digit [of "c mod 64"] byte_bits(1) [of a] byte_bits(2) [of b] byte_bits(3) [of c] div_add_self1 [of 3 "length r + 2"]
    by (simp add: Let_def algebra_simps)
qed simp

lemma demo_base64_ok: "base64_spec demo_base64"
proof -
  have "\<forall>x\<in>set (map unat b). x < 256" for b :: bytes
    using unsigned_less [where ?'a = nat and ?'b = 8] by auto
  note b = b64_read_text [OF this]
  show ?thesis using b by (simp add: base64_spec_def demo_base64_def comp_def)
qed

subsection \<open>Properties\<close>

text \<open>C13. A keystore is a ring of keys. After its creation and any sequence of changes that its
  owner may make (adding and removing passkeys, setting and forgetting a device token, continuing
  with an upgraded identity), none of which is refused, the file can be written and read back, and
  the passphrase, every passkey still enrolled, in order, and the device token if there is one,
  each open it and give the current identity: what the abstract ring says.\<close>

theorem keystore_refines_ring:
  assumes "keystore_lib_ok L" and "aead_total L" and "keystore_codecs_ok C" and "whole_identity L i" and "rng_answers w"
    and "ks_create L C i passphrase params w = (Inr ks, w1)"
    and "ring_allows_all L cs (new_ring i passphrase)" and "ring_ready_all L C cs (new_ring i passphrase)"
    and "length cs < 2 ^ 64 - 1" and "r = fold ring_step cs (new_ring i passphrase)"
  shows "\<exists>ks' w' b. ks_run L pqc C cs (ks, w1) = (Inr (), (ks', w')) \<and>
     ks_to_bytes L C ks' = Inr b \<and> ks_from_bytes L C b = Inr ks' \<and>
     ks_unlock L pqc C ks' passphrase = Inr (rg_identity r) \<and>
     length (passkey_slots ks') = length (rg_keys r) \<and>
     (\<forall>k<length (rg_keys r). ks_unlock_with_passkey L pqc C ks' k (rg_keys r ! k) = Inr (rg_identity r)) \<and>
     (case rg_device r of
        None \<Rightarrow> \<not> has_device_token ks'
      | Some token \<Rightarrow> unlock_with_device_token L pqc C ks' token = Inr (rg_identity r))"
proof -
  have h: "ks_holds L pqc C ks (new_ring i passphrase)"
    using ks_create_holds [OF assms(6,1,3,4)] assms(5) by (simp add: rng_answers_def)
  have "rng_answers w1" using preservesD [OF ks_create_rng assms(6,5)] .
  then obtain ks' w' where r: "ks_run L pqc C cs (ks, w1) = (Inr (), (ks', w'))"
    using ks_run_returns [OF h assms(7,8) _ assms(1,3,2)] ks_create_epoch [OF assms(6)] assms(9) by fastforce
  note h' = ks_run_refines [OF r h assms(7,1,3), folded assms(10)]
  have "rg_passphrase (ring_step c r) = rg_passphrase r" for c r by (cases c) simp_all
  then have "rg_passphrase (fold ring_step cs r) = rg_passphrase r" for r by (induction cs arbitrary: r) simp_all
  then have "rg_passphrase r = passphrase" unfolding assms(10) by (simp add: new_ring_def)
  then show ?thesis
    using r ks_bytes_roundtrip [OF h' assms(1,3)] ks_holds_opens [OF h'] by (auto split: option.split)
qed

text \<open>C34. No change of a signed keystore leaves the chain: whatever operation succeeds, with
  whatever arguments, on whatever keystore, the new state is the one that an anchor at the old
  state accepts as its successor (epoch plus one, previous hash the old hash, same object and
  identity), except for forgetting a device when none was remembered, which changes nothing.
  Continuing with another identity starts a new chain and is not meant here.\<close>

theorem keystore_change_is_next_state:
  assumes "ks_step L pqc C c (V3 v3, w) = (Inr (), (ks', w'))" and "\<forall>p i j. c \<noteq> Continue p i j"
  shows "\<exists>v3'. ks' = V3 v3' \<and>
    (check_candidate (from_metadata (k3_state v3)) (k3_state v3') = Inr True \<or> v3' = v3 \<and> \<not> has_device_token (V3 v3))"
  using ks_step_next [OF assms] by (simp add: next_of_def)

theorem keystore_refines_ring_witness:
  "\<exists>ks w ks' w' b. ks_create demo_lib demo_keystore demo_identity [1] demo_kdf demo_world = (Inr ks, w) \<and>
     ks_run demo_lib True demo_keystore demo_changes (ks, w) = (Inr (), (ks', w')) \<and>
     ks_to_bytes demo_lib demo_keystore ks' = Inr b \<and> ks_from_bytes demo_lib demo_keystore b = Inr ks' \<and>
     ks_unlock demo_lib True demo_keystore ks' [1] = Inr demo_successor \<and>
     ks_unlock_with_passkey demo_lib True demo_keystore ks' 0 [5, 5] = Inr demo_successor \<and>
     unlock_with_device_token demo_lib True demo_keystore ks' [9] = Inr demo_successor"
proof -
  obtain ks w where c: "ks_create demo_lib demo_keystore demo_identity [1] demo_kdf demo_world = (Inr ks, w)" using demo_created by blast
  have r: "fold ring_step demo_changes (new_ring demo_identity [1]) =
      \<lparr>rg_identity = demo_successor, rg_passphrase = [1], rg_keys = [[5, 5]], rg_device = Some [9]\<rparr>"
    by (simp add: demo_changes_def new_ring_def demo_enrollment_def remove_nth_def)
  have "length demo_changes < 2 ^ 64 - 1" by (simp add: demo_changes_def)
  from keystore_refines_ring [OF demo_keystore_ok(2) demo_aead(3) demo_keystore_ok(1) demo_whole(1) demo_answers c demo_allowed this refl, of True] c
  show ?thesis unfolding r by fastforce
qed

theorem keystore_change_is_next_state_witness:
  "\<exists>v3 w v3' w'. set_device_token demo_lib True demo_keystore [1] [9] (V3 v3, w) = (Inr (), (V3 v3', w')) \<and>
     check_candidate (from_metadata (k3_state v3)) (k3_state v3') = Inr True"
proof -
  obtain ks w where c: "ks_create demo_lib demo_keystore demo_identity [1] demo_kdf demo_world = (Inr ks, w)" using demo_created by blast
  have h: "ks_holds demo_lib True demo_keystore ks (new_ring demo_identity [1])"
    using ks_create_holds [OF c demo_keystore_ok(2,1) demo_whole(1)] demo_answers by (simp add: rng_answers_def)
  then obtain v3 where v: "ks = V3 v3" by (auto simp: ks_holds_def)
  have "rng_answers w" using preservesD [OF ks_create_rng c demo_answers] .
  from ks_step_returns [OF h _ _ _ demo_keystore_ok(2,1) demo_aead(3) this, of "SetDevice [1] [9]"] ks_create_epoch [OF c]
  obtain ks' w' where s: "ks_step demo_lib True demo_keystore (SetDevice [1] [9]) (V3 v3, w) = (Inr (), (ks', w'))"
    by (auto simp: new_ring_def v)
  from keystore_change_is_next_state [OF this] obtain v3' where n: "ks' = V3 v3'"
    "check_candidate (from_metadata (k3_state v3)) (k3_state v3') = Inr True \<or> v3' = v3 \<and> \<not> has_device_token (V3 v3)" by auto
  have "ks_holds demo_lib True demo_keystore ks' (ring_step (SetDevice [1] [9]) (new_ring demo_identity [1]))"
    using ks_step_refines [OF h _ s [folded v] demo_keystore_ok(2,1)] by (simp add: new_ring_def)
  then have "has_device_token (V3 v3')" using ks_holds_opens(4) n(1) by fastforce
  then show ?thesis using s n by auto
qed

text \<open>C35. A backup restores the identity. Whatever armored text an export produced, importing it with
  the same passphrase gives the identity back, with its post-quantum keys when it has them.\<close>

theorem backup_roundtrip:
  assumes "export_identity_armored L B C i passphrase params w = (Inr armor, w')" and "base64_spec B"
    and "aead_correct L" and "keystore_codecs_ok C" and "whole_identity L i"
  shows "import_identity_armored L pqc B C armor passphrase = Inr i"
  by (rule backup_restores [OF assms])

theorem backup_roundtrip_witness:
  "\<exists>armor w. export_identity_armored demo_lib demo_base64 demo_keystore demo_identity [1] demo_kdf demo_world = (Inr armor, w) \<and>
     import_identity_armored demo_lib True demo_base64 demo_keystore armor [1] = Inr demo_identity"
proof -
  obtain salt w1 where 1: "getrandom SALT_LEN demo_world = (Inr salt, w1)" "rng_answers w1" using random_answers [OF demo_answers] by blast
  obtain n w2 where 2: "getrandom NONCE_LEN w1 = (Inr n, w2)" "length n = NONCE_LEN" using random_answers [OF 1(2)] by blast
  obtain pt where pt: "to_vec (kc_bundle demo_keystore) (build_bundle demo_identity) = Inr pt" by (simp add: to_vec_def demo_keystore_def fields_codec_def)
  have "length pt < 2 ^ 32" using pt demo_bundle_length by auto
  then obtain ct where ct: "seal demo_lib (replicate 32 8) n AAD_BACKUP_V1 pt = Inr ct"
    using seal_returns [OF demo_aead(3) _ 2(2)] by (metis length_replicate)
  obtain body where "to_vec (kc_backup demo_keystore) \<lparr>ib_version = VERSION_BACKUP_V1, ib_kdf = demo_kdf, ib_salt = salt, ib_nonce = n,
      ib_ciphertext = ct\<rparr> = Inr body" by (simp add: to_vec_def demo_keystore_def fields_codec_def)
  then have e: "export_identity_armored demo_lib demo_base64 demo_keystore demo_identity [1] demo_kdf demo_world =
      (Inr (armored BACKUP_ARMOR_BEGIN BACKUP_ARMOR_END (b64_encode demo_base64 (MAGIC_BACKUP @ to_be_bytes VERSION_BACKUP_V1 @ body))), w2)"
    using 1 2 pt ct demo_master by (simp add: export_identity_armored_def random_defs bnd_def)
  from backup_roundtrip [OF this demo_base64_ok demo_aead(1) demo_keystore_ok(1) demo_whole(1)] e show ?thesis by blast
qed

end
