(* ===== verification/Keys_Contacts.thy ===== *)
theory Keys_Contacts
  imports Core_Keys Core_Codec
begin

section \<open>The contact book (contacts.rs)\<close>

text \<open>
  Other parties' public identities with the trust the user gave them: the operations of the book,
  what loading does to the names, and the abstract map from fingerprints to trust that the book
  implements.
\<close>

subsection \<open>The data\<close>

datatype trust = Unverified | Verified

record contact =
  ct_identity :: public_identity
  ct_trust :: trust
  ct_added_at :: int
  ct_verified_at :: "int option"

definition contact_fingerprint :: "lib \<Rightarrow> contact \<Rightarrow> bytes" where
  "contact_fingerprint L c = fingerprint L (ct_identity c)"

datatype upsert_outcome = Added | Unchanged | Renamed string string bool

record contact_book =
  cb_contacts :: "contact list"

text \<open>\<open>String::push\<close> of a character appends its UTF-8 encoding.\<close>

definition utf8_of :: "nat \<Rightarrow> nat list" where
  "utf8_of c =
     (if c < 0x80 then [c]
      else if c < 0x800 then [0xC0 + c div 64, 0x80 + c mod 64]
      else if c < 0x10000 then [0xE0 + c div 4096, 0x80 + c div 64 mod 64, 0x80 + c mod 64]
      else [0xF0 + c div 262144, 0x80 + c div 4096 mod 64, 0x80 + c div 64 mod 64, 0x80 + c mod 64])"

definition string_of :: "nat list \<Rightarrow> string" where
  "string_of cs = map char_of (concat (map utf8_of cs))"

definition sanitized :: "public_identity \<Rightarrow> public_identity" where
  "sanitized p = p\<lparr>pi_name := string_of (sanitize_display_name (chars (pi_name p)))\<rparr>"

subsection \<open>The operations\<close>

text \<open>\<open>iter_mut().find(..)\<close>: the first element that satisfies the test, which the body replaces.\<close>

fun update_first :: "('a \<Rightarrow> bool) \<Rightarrow> ('a \<Rightarrow> 'a) \<Rightarrow> 'a list \<Rightarrow> 'a list" where
  "update_first p f [] = []"
| "update_first p f (x # xs) = (if p x then f x # xs else x # update_first p f xs)"

definition cb_upsert :: "lib \<Rightarrow> public_identity \<Rightarrow> int \<Rightarrow> contact_book \<Rightarrow> upsert_outcome \<times> contact_book" where
  "cb_upsert L incoming now self =
     (let p = sanitized incoming; fpr = fingerprint L p; here = (\<lambda>c. contact_fingerprint L c = fpr) in
      case find here (cb_contacts self) of
        Some existing \<Rightarrow>
          (if pi_name (ct_identity existing) = pi_name p then Unchanged
           else Renamed (pi_name (ct_identity existing)) (pi_name p) (ct_trust existing = Verified),
           self\<lparr>cb_contacts := update_first here (\<lambda>c. c\<lparr>ct_identity := p\<rparr>) (cb_contacts self)\<rparr>)
      | None \<Rightarrow>
          (Added,
           self\<lparr>cb_contacts := cb_contacts self @
             [\<lparr>ct_identity = p, ct_trust = Unverified, ct_added_at = now, ct_verified_at = None\<rparr>]\<rparr>))"

definition cb_find :: "lib \<Rightarrow> contact_book \<Rightarrow> bytes \<Rightarrow> contact option" where
  "cb_find L self fpr = find (\<lambda>c. contact_fingerprint L c = fpr) (cb_contacts self)"

definition cb_set_trust :: "lib \<Rightarrow> bytes \<Rightarrow> trust \<Rightarrow> int \<Rightarrow> contact_book \<Rightarrow> bool \<times> contact_book" where
  "cb_set_trust L fpr t now self =
     (let here = (\<lambda>c. contact_fingerprint L c = fpr) in
      case find here (cb_contacts self) of
        Some _ \<Rightarrow>
          (True,
           self\<lparr>cb_contacts :=
             update_first here (\<lambda>c. c\<lparr>ct_trust := t, ct_verified_at := (case t of Verified \<Rightarrow> Some now | Unverified \<Rightarrow> None)\<rparr>)
               (cb_contacts self)\<rparr>)
      | None \<Rightarrow> (False, self))"

definition cb_remove :: "lib \<Rightarrow> bytes \<Rightarrow> contact_book \<Rightarrow> bool \<times> contact_book" where
  "cb_remove L fpr self =
     (let kept = filter (\<lambda>c. contact_fingerprint L c \<noteq> fpr) (cb_contacts self) in
      (length kept \<noteq> length (cb_contacts self), self\<lparr>cb_contacts := kept\<rparr>))"

definition cb_to_bytes :: "contact_book codec \<Rightarrow> contact_book \<Rightarrow> bytes result" where
  "cb_to_bytes C self = to_vec C self"

definition cb_from_bytes :: "contact_book codec \<Rightarrow> bytes \<Rightarrow> contact_book result" where
  "cb_from_bytes C b =
     rbind (from_slice C b) (\<lambda>book.
       Inr (book\<lparr>cb_contacts := map (\<lambda>c. c\<lparr>ct_identity := sanitized (ct_identity c)\<rparr>) (cb_contacts book)\<rparr>))"

subsection \<open>Text written and read\<close>

lemma utf8_parts:
  "x < 32 \<Longrightarrow> (0xC0 + x) mod 32 = (x :: nat)" "x < 16 \<Longrightarrow> (0xE0 + x) mod 16 = (x :: nat)" "x < 8 \<Longrightarrow> (0xF0 + x) mod 8 = (x :: nat)"
  "(0x80 + x mod 64) mod 64 = (x mod 64 :: nat)"
  using mod_mult_self2 [of x 32 6] mod_mult_self2 [of x 16 14] mod_mult_self2 [of x 8 30] mod_mult_self2 [of "x mod 64" 64 2]
  by (simp_all add: add.commute)

lemma base64_digits:
  "c div 4096 * 4096 + c div 64 mod 64 * 64 + c mod 64 = (c :: nat)"
  "c div 262144 * 262144 + c div 4096 mod 64 * 4096 + c div 64 mod 64 * 64 + c mod 64 = c"
proof -
  have d: "c div 4096 = c div 64 div 64" "c div 262144 = c div 4096 div 64" by (simp_all add: div_mult2_eq [symmetric])
  show 1: "c div 4096 * 4096 + c div 64 mod 64 * 64 + c mod 64 = c"
    using div_mult_mod_eq [of c 64] div_mult_mod_eq [of "c div 64" 64] unfolding d(1) by linarith
  then show "c div 262144 * 262144 + c div 4096 mod 64 * 4096 + c div 64 mod 64 * 64 + c mod 64 = c"
    using div_mult_mod_eq [of "c div 4096" 64] unfolding d(2) by linarith
qed

lemma utf8_of_decodes:
  assumes "c < 0x110000"
  shows "utf8_chars (utf8_of c @ xs) = c # utf8_chars xs"
proof -
  consider "c < 0x80" | "0x80 \<le> c" "c < 0x800" | "0x800 \<le> c" "c < 0x10000" | "0x10000 \<le> c" by linarith
  then show ?thesis
  proof cases
    case 2
    then have "c div 64 < 32" by simp
    then show ?thesis using 2 by (simp add: utf8_of_def utf8_parts)
  next
    case 3
    then have "c div 4096 < 16" by simp
    then show ?thesis using 3 base64_digits(1) [of c] by (simp add: utf8_of_def utf8_parts)
  next
    case 4
    have "c div 262144 < 8" using assms by simp
    then show ?thesis using 4 base64_digits(2) [of c] by (simp add: utf8_of_def utf8_parts)
  qed (simp add: utf8_of_def)
qed

lemma utf8_of_bytes: "c < 0x110000 \<Longrightarrow> b \<in> set (utf8_of c) \<Longrightarrow> b < 256"
  by (auto simp: utf8_of_def split: if_splits)

text \<open>Characters written as a string are read back.\<close>

lemma chars_string_of:
  assumes "\<forall>c\<in>set cs. c < 0x110000"
  shows "chars (string_of cs) = cs"
proof -
  have "\<forall>b\<in>set (concat (map utf8_of cs)). b < 256" using assms utf8_of_bytes by fastforce
  then have "map of_char (string_of cs) = concat (map utf8_of cs)" by (auto simp: string_of_def intro!: map_idI)
  moreover have "utf8_chars (concat (map utf8_of cs)) = cs"
    using assms by (induction cs) (simp_all add: utf8_of_decodes)
  ultimately show ?thesis by (simp add: chars_def)
qed

lemma sanitize_loop_subset: "set (sanitize_loop cs out count sp) \<subseteq> insert 32 (set cs \<union> set out)"
  by (induction cs out count sp rule: sanitize_loop.induct) (auto split: if_splits, blast+)

text \<open>A Rust string holds Unicode scalar values only.\<close>

definition str_valid :: "string \<Rightarrow> bool" where
  "str_valid s \<longleftrightarrow> (\<forall>c\<in>set (chars s). c < 0x110000)"

lemma chars_sanitized: "str_valid (pi_name p) \<Longrightarrow> chars (pi_name (sanitized p)) = sanitize_display_name (chars (pi_name p))"
  unfolding sanitized_def using sanitize_loop_subset [of "chars (pi_name p)" "[]" 0 False]
  by (auto simp: str_valid_def sanitize_display_name_def intro!: chars_string_of)

subsection \<open>Sanitizing again\<close>

text \<open>A clean text: shown characters with single spaces between them; what the loop has written so
  far, and with a possible space after it, what it returns when it stops at the limit.\<close>

definition no_double :: "nat list \<Rightarrow> bool" where
  "no_double cs \<longleftrightarrow> successively (\<lambda>a b. \<not> (a = 32 \<and> b = 32)) cs \<and> (cs \<noteq> [] \<longrightarrow> hd cs \<noteq> 32) \<and> (\<forall>c\<in>set cs. c = 32 \<or> shown_char c)"

definition clean :: "nat list \<Rightarrow> bool" where
  "clean cs \<longleftrightarrow> no_double cs \<and> (cs \<noteq> [] \<longrightarrow> last cs \<noteq> 32)"

lemma space_not_shown [simp]: "\<not> shown_char 32"
  by (simp add: shown_char_def is_whitespace_def)

lemma no_double_append: "clean out \<Longrightarrow> c = 32 \<or> shown_char c \<Longrightarrow> out \<noteq> [] \<or> c \<noteq> 32 \<Longrightarrow> no_double (out @ [c])"
  by (auto simp: clean_def no_double_def successively_append_iff hd_append)

lemma clean_append: "clean out \<Longrightarrow> shown_char c \<Longrightarrow> clean (out @ [c])"
  using no_double_append [of out c] by (cases "c = 32") (auto simp: clean_def)

lemma clean_append_space: "clean out \<Longrightarrow> out \<noteq> [] \<Longrightarrow> shown_char c \<Longrightarrow> clean (out @ [32, c])"
  by (auto simp: clean_def no_double_def successively_append_iff hd_append)

definition sanitary :: "nat list \<Rightarrow> bool" where
  "sanitary cs \<longleftrightarrow> no_double cs \<and> (clean cs \<or> length cs = MAX_DISPLAY_NAME_LEN)"

lemma sanitize_loop_clean: "clean out \<Longrightarrow> count = length out \<Longrightarrow> sanitary (sanitize_loop cs out count sp)"
proof (induction cs out count sp rule: sanitize_loop.induct)
  case (1 out count sp)
  then show ?case by (simp add: clean_def sanitary_def)
next
  case (2 c cs out count sp)
  show ?case
  proof (cases "count \<ge> MAX_DISPLAY_NAME_LEN \<or> is_spoofing_format_char c \<or> is_whitespace c \<or> is_control c")
    case True
    moreover have "sanitary out" using 2(6) by (simp add: clean_def sanitary_def)
    ultimately show ?thesis using 2 by (cases "is_spoofing_format_char c"; cases "is_whitespace c") auto
  next
    case False
    then have "shown_char c" by (simp add: shown_char_def)
    moreover have "sanitary (out @ [32])" if "out \<noteq> []" "Suc (length out) = MAX_DISPLAY_NAME_LEN"
      using that no_double_append [of out 32] 2(6) by (simp add: sanitary_def)
    ultimately show ?thesis
      using 2 False clean_append [of out c] clean_append_space [of out c] by (auto simp: le_Suc_eq)
  qed
qed

text \<open>One trailing space is all that a second pass can remove.\<close>

definition rtrim1 :: "nat list \<Rightarrow> nat list" where
  "rtrim1 cs = (if cs \<noteq> [] \<and> last cs = 32 then butlast cs else cs)"

lemma resanitize_loop:
  assumes "no_double (out @ (if sp then [32] else []) @ cs)" and "length (out @ (if sp then [32] else []) @ cs) \<le> MAX_DISPLAY_NAME_LEN"
    and "out \<noteq> [] \<longrightarrow> last out \<noteq> 32" and "sp \<longrightarrow> out \<noteq> []"
  shows "sanitize_loop cs out (length out) sp = rtrim1 (out @ (if sp then [32] else []) @ cs)"
  using assms
proof (induction cs arbitrary: out sp)
  case Nil
  then show ?case by (auto simp: rtrim1_def)
next
  case (Cons c cs)
  have c: "c = 32 \<or> shown_char c" using Cons.prems(1) by (auto simp: no_double_def)
  show ?case
  proof (cases "c = 32")
    case True
    have "\<not> sp" using Cons.prems(1) True by (auto simp: no_double_def successively_append_iff)
    moreover have "out \<noteq> []" using Cons.prems(1) True calculation by (auto simp: no_double_def)
    ultimately show ?thesis
      using Cons.IH [of out True] Cons.prems True
      by (simp add: is_whitespace_def is_spoofing_format_char_def)
  next
    case False
    then have "shown_char c" using c by simp
    then show ?thesis
      using Cons.IH [of "out @ [32, c]" False] Cons.IH [of "out @ [c]" False] Cons.prems False
      by (auto simp: shown_char_def)
  qed
qed

lemma sanitize_sanitary: "sanitary (sanitize_display_name raw)"
  using sanitize_loop_clean [of "[]" 0 raw False] by (simp add: sanitize_display_name_def clean_def no_double_def)

lemma sanitize_again: "sanitize_display_name (sanitize_display_name raw) = rtrim1 (sanitize_display_name raw)"
  using resanitize_loop [of "[]" False "sanitize_display_name raw"] sanitize_sanitary [of raw] sanitize_loop_bound [of "[]" 0 raw False]
  by (simp add: sanitize_display_name_def sanitary_def)

subsection \<open>The book as a map from fingerprints to trust\<close>

type_synonym trust_map = "bytes \<rightharpoonup> trust \<times> int option"

definition trusted :: "lib \<Rightarrow> contact_book \<Rightarrow> trust_map" where
  "trusted L self fpr = map_option (\<lambda>c. (ct_trust c, ct_verified_at c)) (cb_find L self fpr)"

text \<open>What the user does: importing a key, setting its trust, removing it; and the application
  storing the book and loading it at its next start.\<close>

datatype book_op = Import public_identity int | SetTrust bytes trust int | Forget bytes | Reload

fun book_step :: "lib \<Rightarrow> contact_book codec \<Rightarrow> book_op \<Rightarrow> contact_book \<Rightarrow> contact_book result" where
  "book_step L C (Import p now) self = Inr (snd (cb_upsert L p now self))"
| "book_step L C (SetTrust fpr t now) self = Inr (snd (cb_set_trust L fpr t now self))"
| "book_step L C (Forget fpr) self = Inr (snd (cb_remove L fpr self))"
| "book_step L C Reload self = rbind (cb_to_bytes C self) (cb_from_bytes C)"

fun book_run :: "lib \<Rightarrow> contact_book codec \<Rightarrow> book_op list \<Rightarrow> contact_book \<Rightarrow> contact_book result" where
  "book_run L C [] self = Inr self"
| "book_run L C (a # as) self = rbind (book_step L C a self) (book_run L C as)"

fun trust_step :: "lib \<Rightarrow> book_op \<Rightarrow> trust_map \<Rightarrow> trust_map" where
  "trust_step L (Import p now) m =
     (if fingerprint L p \<in> dom m then m else m(fingerprint L p \<mapsto> (Unverified, None)))"
| "trust_step L (SetTrust fpr t now) m =
     (if fpr \<in> dom m then m(fpr \<mapsto> (t, if t = Verified then Some now else None)) else m)"
| "trust_step L (Forget fpr) m = m(fpr := None)"
| "trust_step L Reload m = m"

fun op_typed :: "book_op \<Rightarrow> bool" where
  "op_typed (Import p now) \<longleftrightarrow> public_typed p \<and> str_valid (pi_name p) \<and> i64_typed now"
| "op_typed (SetTrust fpr t now) \<longleftrightarrow> i64_typed now"
| "op_typed _ \<longleftrightarrow> True"

definition contact_typed :: "contact \<Rightarrow> bool" where
  "contact_typed c \<longleftrightarrow> public_typed (ct_identity c) \<and> i64_typed (ct_added_at c) \<and> pred_option i64_typed (ct_verified_at c)"

definition book_typed :: "contact_book \<Rightarrow> bool" where
  "book_typed self \<longleftrightarrow> list_all contact_typed (cb_contacts self)"

definition display_safe :: "string \<Rightarrow> bool" where
  "display_safe s \<longleftrightarrow>
     length (chars s) \<le> MAX_DISPLAY_NAME_LEN \<and>
     list_all (\<lambda>c. c = 32 \<or> (\<not> is_spoofing_format_char c \<and> \<not> is_whitespace c \<and> \<not> is_control c)) (chars s)"

definition contact_good :: "contact \<Rightarrow> bool" where
  "contact_good c \<longleftrightarrow>
     contact_typed c \<and> str_valid (pi_name (ct_identity c)) \<and> display_safe (pi_name (ct_identity c)) \<and>
     (ct_trust c = Verified \<longleftrightarrow> ct_verified_at c \<noteq> None)"

definition book_good :: "lib \<Rightarrow> contact_book \<Rightarrow> bool" where
  "book_good L self \<longleftrightarrow>
     distinct (map (contact_fingerprint L) (cb_contacts self)) \<and> list_all contact_good (cb_contacts self)"

lemma update_first_same: "(\<And>x. p x \<Longrightarrow> g (f x) = g x) \<Longrightarrow> map g (update_first p f xs) = map g xs"
  by (induction xs) auto

lemma update_first_all: "list_all Q xs \<Longrightarrow> (\<And>x. Q x \<Longrightarrow> p x \<Longrightarrow> Q (f x)) \<Longrightarrow> list_all Q (update_first p f xs)"
  by (induction xs) auto

lemma find_update_first:
  "(\<And>x. k x = b \<Longrightarrow> k (f x) = k x) \<Longrightarrow>
     find (\<lambda>x. k x = a) (update_first (\<lambda>x. k x = b) f xs) =
       (if a = b then map_option f (find (\<lambda>x. k x = a) xs) else find (\<lambda>x. k x = a) xs)"
  by (induction xs) auto

lemma find_two_lists: "find p (xs @ ys) = (case find p xs of None \<Rightarrow> find p ys | Some x \<Rightarrow> Some x)"
  by (induction xs) auto

lemma find_filter_key: "find (\<lambda>x. k x = a) (filter (\<lambda>x. k x \<noteq> b) xs) = (if a = b then None else find (\<lambda>x. k x = a) xs)"
  by (induction xs) auto

lemma find_map_key: "(\<And>x. k (f x) = k x) \<Longrightarrow> find (\<lambda>x. k x = a) (map f xs) = map_option f (find (\<lambda>x. k x = a) xs)"
  by (induction xs) auto

lemma fingerprint_sanitized [simp]: "fingerprint L (sanitized p) = fingerprint L p"
  by (simp add: sanitized_def fingerprint_def fingerprint_input_def)

lemma sanitized_typed [simp]: "public_typed (sanitized p) = public_typed p"
  by (simp add: sanitized_def public_typed_def)

lemma sanitized_safe:
  assumes "str_valid (pi_name p)"
  shows "str_valid (pi_name (sanitized p))" and "display_safe (pi_name (sanitized p))"
proof -
  let ?s = "sanitize_display_name (chars (pi_name p))"
  have "\<forall>c\<in>set ?s. c < 0x110000"
    using assms sanitize_loop_subset [of "chars (pi_name p)" "[]" 0 False] by (auto simp: str_valid_def sanitize_display_name_def)
  then show "str_valid (pi_name (sanitized p))" using chars_sanitized [OF assms] by (simp add: str_valid_def)
  show "display_safe (pi_name (sanitized p))"
    using chars_sanitized [OF assms] sanitize_loop_bound [of "[]" 0 "chars (pi_name p)" False]
      sanitize_loop_chars [of "[]" _ "chars (pi_name p)" 0 False]
    by (auto simp: display_safe_def sanitize_display_name_def list_all_iff shown_char_def)
qed

lemma contact_sanitized: "contact_good c \<Longrightarrow> contact_good (c\<lparr>ct_identity := sanitized (ct_identity c)\<rparr>)"
  by (auto simp: contact_good_def contact_typed_def sanitized_safe)

lemma trusted_simps:
  "trusted L (self\<lparr>cb_contacts := cs\<rparr>) f = map_option (\<lambda>c. (ct_trust c, ct_verified_at c)) (find (\<lambda>c. contact_fingerprint L c = f) cs)"
  by (simp add: trusted_def cb_find_def)

lemma trusted_dom: "f \<in> dom (trusted L self) \<longleftrightarrow> find (\<lambda>c. contact_fingerprint L c = f) (cb_contacts self) \<noteq> None"
  by (auto simp: trusted_def cb_find_def domIff)

lemma found_known: "find (\<lambda>c. k c = f) cs = None \<longleftrightarrow> f \<notin> set (map k cs)"
  by (auto simp: find_None_iff)

lemma upsert_refines:
  assumes "book_good L self" and "op_typed (Import p now)" and "self' = snd (cb_upsert L p now self)"
  shows "book_good L self' \<and> trusted L self' = trust_step L (Import p now) (trusted L self)"
proof -
  let ?k = "contact_fingerprint L"
  let ?here = "\<lambda>c. ?k c = fingerprint L p"
  let ?p = "sanitized p"
  let ?f = "\<lambda>c. c\<lparr>ct_identity := ?p\<rparr>"
  let ?new = "\<lparr>ct_identity = ?p, ct_trust = Unverified, ct_added_at = now, ct_verified_at = None\<rparr> :: contact"
  have p: "public_typed ?p" "str_valid (pi_name ?p)" "display_safe (pi_name ?p)" "i64_typed now"
    using assms(2) sanitized_safe [of p] by simp_all
  have k: "?k (?f c) = ?k c" if "?here c" for c using that by (simp add: contact_fingerprint_def)
  show ?thesis
  proof (cases "find ?here (cb_contacts self)")
    case None
    then have s: "self' = self\<lparr>cb_contacts := cb_contacts self @ [?new]\<rparr>"
      using assms(3) by (simp add: cb_upsert_def Let_def)
    have "book_good L self'"
      using assms(1) p None unfolding found_known
      by (simp add: s book_good_def contact_good_def contact_typed_def contact_fingerprint_def [of L ?new])
    moreover have "trusted L self' = trust_step L (Import p now) (trusted L self)"
      using None
      by (auto simp: s trusted_simps find_two_lists trusted_dom contact_fingerprint_def [of L ?new] fun_eq_iff trusted_def cb_find_def
          split: option.splits)
    ultimately show ?thesis ..
  next
    case (Some c)
    then have s: "self' = self\<lparr>cb_contacts := update_first ?here ?f (cb_contacts self)\<rparr>"
      using assms(3) by (simp add: cb_upsert_def Let_def)
    have "book_good L self'"
      using assms(1) p
      by (auto simp: s book_good_def contact_good_def contact_typed_def update_first_same [of ?here ?k ?f, OF k] intro!: update_first_all)
    moreover have "trusted L self' f = trust_step L (Import p now) (trusted L self) f" for f
      using Some find_update_first [of ?k "fingerprint L p" ?f f "cb_contacts self", OF k]
      by (auto simp: s trusted_simps trusted_dom) (simp_all add: trusted_def cb_find_def)
    ultimately show ?thesis by blast
  qed
qed

lemma set_trust_refines:
  assumes "book_good L self" and "op_typed (SetTrust fpr t now)" and "self' = snd (cb_set_trust L fpr t now self)"
  shows "book_good L self' \<and> trusted L self' = trust_step L (SetTrust fpr t now) (trusted L self)"
proof -
  let ?k = "contact_fingerprint L"
  let ?f = "\<lambda>c. c\<lparr>ct_trust := t, ct_verified_at := (case t of Verified \<Rightarrow> Some now | Unverified \<Rightarrow> None)\<rparr>"
  have k: "?k (?f c) = ?k c" for c by (simp add: contact_fingerprint_def)
  show ?thesis
  proof (cases "find (\<lambda>c. ?k c = fpr) (cb_contacts self)")
    case None
    then have "self' = self" using assms(3) by (simp add: cb_set_trust_def)
    then show ?thesis using None assms(1) by (simp add: trusted_dom)
  next
    case (Some c)
    then have s: "self' = self\<lparr>cb_contacts := update_first (\<lambda>c. ?k c = fpr) ?f (cb_contacts self)\<rparr>"
      using assms(3) by (simp add: cb_set_trust_def)
    have "contact_good (?f c)" if "contact_good c" for c
      using that assms(2) by (cases t) (auto simp: contact_good_def contact_typed_def)
    then have "book_good L self'"
      using assms(1) by (auto simp: s book_good_def update_first_same [of "\<lambda>c. ?k c = fpr" ?k ?f, OF k] intro!: update_first_all)
    moreover have "trusted L self' f = trust_step L (SetTrust fpr t now) (trusted L self) f" for f
      using Some find_update_first [of ?k fpr ?f f "cb_contacts self", OF k]
      by (cases t) (auto simp: s trusted_simps trusted_dom, simp_all add: trusted_def cb_find_def)
    ultimately show ?thesis by blast
  qed
qed

lemma remove_refines:
  assumes "book_good L self" and "self' = snd (cb_remove L fpr self)"
  shows "book_good L self' \<and> trusted L self' = trust_step L (Forget fpr) (trusted L self)"
proof -
  have s: "self' = self\<lparr>cb_contacts := filter (\<lambda>c. contact_fingerprint L c \<noteq> fpr) (cb_contacts self)\<rparr>"
    using assms(2) by (simp add: cb_remove_def Let_def)
  have "book_good L self'"
    using assms(1) by (auto simp: s book_good_def list_all_iff distinct_map_filter)
  then show ?thesis
    by (auto simp: s trusted_simps find_filter_key fun_eq_iff trusted_def cb_find_def)
qed

lemma reload_refines:
  assumes "book_good L self" and "codec_ok book_typed C"
  obtains self' where "rbind (cb_to_bytes C self) (cb_from_bytes C) = Inr self'" "book_good L self'" "trusted L self' = trusted L self"
proof -
  let ?k = "contact_fingerprint L"
  let ?f = "\<lambda>c. c\<lparr>ct_identity := sanitized (ct_identity c)\<rparr>"
  have t: "book_typed self" using assms(1) by (auto simp: book_good_def book_typed_def contact_good_def list_all_iff)
  from to_vec_total [of book_typed C self, OF assms(2) t] obtain b where b: "to_vec C self = Inr b" by blast
  let ?self = "self\<lparr>cb_contacts := map ?f (cb_contacts self)\<rparr>"
  have k: "?k (?f c) = ?k c" for c by (simp add: contact_fingerprint_def)
  have "rbind (cb_to_bytes C self) (cb_from_bytes C) = Inr ?self"
    using b from_slice_to_vec [OF assms(2) t b] by (simp add: cb_to_bytes_def cb_from_bytes_def)
  moreover have "book_good L ?self"
    using assms(1) contact_sanitized by (auto simp: book_good_def list_all_iff comp_def k)
  moreover have "trusted L ?self = trusted L self"
    by (simp add: fun_eq_iff trusted_simps find_map_key [where k = ?k and f = ?f, OF k] option.map_comp comp_def) (simp add: trusted_def cb_find_def)
  ultimately show thesis by (rule that)
qed

lemma book_step_refines:
  assumes "book_good L self" and "op_typed a" and "codec_ok book_typed C"
  obtains self' where "book_step L C a self = Inr self'" "book_good L self'" "trusted L self' = trust_step L a (trusted L self)"
proof (cases a)
  case (Import p now)
  then show thesis using that upsert_refines [OF assms(1) _ refl, of p now] assms(2) by simp
next
  case (SetTrust fpr t now)
  then show thesis using that set_trust_refines [OF assms(1) _ refl, of fpr t now] assms(2) by simp
next
  case (Forget fpr)
  then show thesis using that remove_refines [OF assms(1) refl, of fpr] by simp
next
  case Reload
  then show thesis using that reload_refines [OF assms(1,3)] by force
qed

lemma book_run_refines:
  assumes "codec_ok book_typed C"
  shows "book_good L self \<Longrightarrow> list_all op_typed as \<Longrightarrow>
    \<exists>self'. book_run L C as self = Inr self' \<and> book_good L self' \<and> trusted L self' = fold (trust_step L) as (trusted L self)"
proof (induction as arbitrary: self)
  case (Cons a as)
  then obtain self1 where 1: "book_step L C a self = Inr self1" "book_good L self1" "trusted L self1 = trust_step L a (trusted L self)"
    using book_step_refines [OF _ _ assms, of L self a] by force
  with Cons.IH [OF 1(2)] Cons.prems show ?case by simp
qed simp

subsection \<open>A book written and read\<close>

definition public_fields :: "public_identity \<Rightarrow> bytes list" where
  "public_fields p =
     [as_bytes (pi_name p), int_field (pi_created_at p), pi_sign_public p, pi_kem_public p,
      option_field (pi_mldsa_public p), option_field (pi_mlkem_public p)]"

definition public_of_fields :: "bytes list \<Rightarrow> public_identity option" where
  "public_of_fields xs =
     (case xs of
        [a, b, c, d, e, f] \<Rightarrow>
          Some \<lparr>pi_name = string_of_field a, pi_created_at = int_of_field b, pi_sign_public = c, pi_kem_public = d,
                pi_mldsa_public = option_of_field e, pi_mlkem_public = option_of_field f\<rparr>
      | _ \<Rightarrow> None)"

definition contact_fields :: "contact \<Rightarrow> bytes list" where
  "contact_fields c =
     [record_field (public_fields (ct_identity c)), (if ct_trust c = Verified then [1] else []), int_field (ct_added_at c),
      option_field (map_option int_field (ct_verified_at c))]"

definition contact_of_fields :: "bytes list \<Rightarrow> contact option" where
  "contact_of_fields xs =
     (case xs of
        [a, b, c, d] \<Rightarrow>
          map_option (\<lambda>p. \<lparr>ct_identity = p, ct_trust = (if b = [] then Unverified else Verified), ct_added_at = int_of_field c,
                           ct_verified_at = map_option int_of_field (option_of_field d)\<rparr>)
            (Option.bind (record_of_field a) public_of_fields)
      | _ \<Rightarrow> None)"

definition demo_book :: "contact_book codec" where
  "demo_book =
     fields_codec book_typed (\<lambda>b. map (\<lambda>c. record_field (contact_fields c)) (cb_contacts b))
       (\<lambda>xs. map_option (\<lambda>cs. \<lparr>cb_contacts = cs\<rparr>) (all_some (map (\<lambda>r. Option.bind (record_of_field r) contact_of_fields) xs)))"

lemma demo_book_ok: "codec_ok book_typed demo_book"
proof -
  have p: "public_of_fields (public_fields p) = Some p" for p
    by (simp add: public_of_fields_def public_fields_def)
  have "contact_of_fields (contact_fields c) = Some c" for c
    by (cases "ct_trust c") (simp_all add: contact_of_fields_def contact_fields_def p option.map_comp comp_def option.map_ident)
  then show ?thesis unfolding demo_book_def by (intro fields_codec_ok) (simp add: comp_def)
qed

definition demo_public :: "string \<Rightarrow> public_identity" where
  "demo_public name =
     \<lparr>pi_name = name, pi_created_at = 5, pi_sign_public = replicate 32 1, pi_kem_public = replicate 32 2,
      pi_mldsa_public = Some [7], pi_mlkem_public = Some [8]\<rparr>"

subsection \<open>Properties\<close>

text \<open>C36. The contact book is a map from fingerprints to trust. Whatever keys are imported, trusted,
  removed, stored and loaded, starting with an empty book, no step fails, the book holds every
  fingerprint once, with a display-safe name, and the trust it reports is that of the abstract
  map, in which only the user's own decision verifies a contact, an import never changes a
  decision, and a removed contact starts again unverified.\<close>

theorem contact_book_refines_trust_map:
  assumes "codec_ok book_typed C" and "list_all op_typed as"
  shows "\<exists>self. book_run L C as \<lparr>cb_contacts = []\<rparr> = Inr self \<and>
     trusted L self = fold (trust_step L) as Map.empty \<and>
     distinct (map (contact_fingerprint L) (cb_contacts self)) \<and>
     list_all (\<lambda>c. display_safe (pi_name (ct_identity c)) \<and> (ct_trust c = Verified \<longleftrightarrow> ct_verified_at c \<noteq> None)) (cb_contacts self)"
proof -
  have "book_good L \<lparr>cb_contacts = []\<rparr>" "trusted L \<lparr>cb_contacts = []\<rparr> = Map.empty"
    by (simp_all add: book_good_def trusted_def cb_find_def fun_eq_iff)
  with book_run_refines [OF assms(1) _ assms(2), of L "\<lparr>cb_contacts = []\<rparr>"]
  show ?thesis by (auto simp: book_good_def contact_good_def list_all_iff)
qed

theorem contact_book_refines_trust_map_witness:
  "\<exists>self. book_run demo_lib demo_book
       [Import (demo_public ''bob'') 7, SetTrust (replicate 32 0) Verified 8, Reload, Import (demo_public '' rob '') 9] \<lparr>cb_contacts = []\<rparr> = Inr self \<and>
     trusted demo_lib self (replicate 32 0) = Some (Verified, Some 8)"
proof -
  have v: "str_valid ''bob''" "str_valid '' rob ''" by (simp_all add: str_valid_def chars_def)
  have "fingerprint demo_lib (demo_public n) = replicate 32 0" for n by (simp add: fingerprint_def demo_lib_def)
  moreover have "list_all op_typed [Import (demo_public ''bob'') 7, SetTrust (replicate 32 0) Verified 8, Reload, Import (demo_public '' rob '') 9]"
    using v by (simp add: i64_typed_def public_typed_def demo_public_def)
  ultimately show ?thesis
    using contact_book_refines_trust_map [OF demo_book_ok, of _ demo_lib] by fastforce
qed

text \<open>C37. An import can replace the keys of a verified contact. Take a verified contact with both
  post-quantum keys, whose name is already sanitized. The identity that carries its ML-KEM key at
  the end of its ML-DSA field has the same fingerprint, so importing it replaces the contact's
  identity, reports that nothing changed and keeps the contact verified, although the keys differ
  and the contact can no longer receive under the hybrid suite.\<close>

theorem import_replaces_verified_keys:
  assumes "cb_find L self (fingerprint L p) = Some c" and "ct_identity c = p" and "ct_trust c = Verified"
    and "sanitized p = p" and "pi_mldsa_public p = Some d" and "pi_mlkem_public p = Some k"
  shows "\<exists>self' c'.
     cb_upsert L (p\<lparr>pi_mldsa_public := Some (d @ as_bytes ''ml-kem-768'' @ k), pi_mlkem_public := None\<rparr>) now self = (Unchanged, self') \<and>
     cb_find L self' (fingerprint L p) = Some c' \<and> ct_trust c' = Verified \<and> ct_verified_at c' = ct_verified_at c \<and>
     is_hybrid_capable p \<and> \<not> is_hybrid_capable (ct_identity c') \<and> \<not> same_keys (ct_identity c') p"
proof -
  let ?q = "p\<lparr>pi_mldsa_public := Some (d @ as_bytes ''ml-kem-768'' @ k), pi_mlkem_public := None\<rparr>"
  let ?k = "contact_fingerprint L"
  have f: "fingerprint L ?q = fingerprint L p"
    using assms(5,6) by (simp add: fingerprint_def fingerprint_input_def)
  have s: "sanitized ?q = ?q"
    using arg_cong [OF assms(4), of pi_name] by (simp add: sanitized_def)
  let ?self = "self\<lparr>cb_contacts := update_first (\<lambda>c. ?k c = fingerprint L p) (\<lambda>c. c\<lparr>ct_identity := ?q\<rparr>) (cb_contacts self)\<rparr>"
  have "cb_upsert L ?q now self = (Unchanged, ?self)"
    using assms(1,2) by (simp add: cb_upsert_def s f cb_find_def Let_def)
  moreover have "cb_find L ?self (fingerprint L p) = Some (c\<lparr>ct_identity := ?q\<rparr>)"
    using assms(1) find_update_first [of ?k "fingerprint L p" "\<lambda>c. c\<lparr>ct_identity := ?q\<rparr>" "fingerprint L p" "cb_contacts self"]
    by (simp add: cb_find_def contact_fingerprint_def f)
  ultimately show ?thesis using assms(3,5,6) by (auto simp: is_hybrid_capable_def same_keys_def)
qed

theorem import_replaces_verified_keys_witness:
  "let p = demo_public ''bob''; c = \<lparr>ct_identity = p, ct_trust = Verified, ct_added_at = 1, ct_verified_at = Some 2\<rparr> in
   \<exists>self'. cb_upsert demo_lib (p\<lparr>pi_mldsa_public := Some (7 # as_bytes ''ml-kem-768'' @ [8]), pi_mlkem_public := None\<rparr>) 3
       \<lparr>cb_contacts = [c]\<rparr> = (Unchanged, self') \<and> cb_contacts self' \<noteq> [c]"
proof -
  let ?p = "demo_public ''bob''" and ?c = "\<lparr>ct_identity = demo_public ''bob'', ct_trust = Verified, ct_added_at = 1, ct_verified_at = Some 2\<rparr>"
  have "sanitize_display_name (chars ''bob'') = [98, 111, 98]"
    by (simp add: chars_def sanitize_display_name_def MAX_DISPLAY_NAME_LEN_def is_spoofing_format_char_def is_whitespace_def is_control_def)
  then have "pi_name (sanitized ?p) = ''bob''" by (simp add: sanitized_def demo_public_def string_of_def utf8_of_def char_of_iff)
  then have "sanitized ?p = ?p" by (simp add: sanitized_def demo_public_def)
  moreover have "cb_find demo_lib \<lparr>cb_contacts = [?c]\<rparr> (fingerprint demo_lib ?p) = Some ?c"
    by (simp add: cb_find_def contact_fingerprint_def)
  ultimately obtain self' c' where "cb_upsert demo_lib (?p\<lparr>pi_mldsa_public := Some ([7] @ as_bytes ''ml-kem-768'' @ [8]), pi_mlkem_public := None\<rparr>) 3
       \<lparr>cb_contacts = [?c]\<rparr> = (Unchanged, self')" "cb_find demo_lib self' (fingerprint demo_lib ?p) = Some c'" "\<not> same_keys (ct_identity c') ?p"
    using import_replaces_verified_keys [of demo_lib "\<lparr>cb_contacts = [?c]\<rparr>" ?p ?c "[7]" "[8]" 3] by (auto simp: demo_public_def)
  then show ?thesis
    by (auto simp: Let_def cb_find_def same_keys_def contact_fingerprint_def split: if_splits)
qed

text \<open>C38. Sanitizing is not idempotent, and settles after one more pass: a sanitized name ends in a
  space only when it was cut at the limit, sanitizing it again, as loading the stored contact book
  does, removes that space and nothing else, and then it stays as it is. There are such names.\<close>

theorem sanitize_display_name_again:
  "(let s = sanitize_display_name raw; t = sanitize_display_name s in
     (if s \<noteq> [] \<and> last s = 32 then t = butlast s \<and> length s = MAX_DISPLAY_NAME_LEN else t = s) \<and>
     sanitize_display_name t = t) \<and>
   sanitize_display_name (sanitize_display_name (replicate 95 97 @ [32, 97])) \<noteq> sanitize_display_name (replicate 95 97 @ [32, 97])"
proof -
  have r: "clean s \<Longrightarrow> rtrim1 s = s" for s by (auto simp: clean_def rtrim1_def)
  have "sanitary s \<Longrightarrow> clean (rtrim1 s)" for s
  proof (cases "s \<noteq> [] \<and> last s = 32")
    case True
    assume s: "sanitary s"
    from True have b: "s = butlast s @ [32]" by (metis append_butlast_last_id)
    have "no_double (butlast s @ [32])" using s b by (simp add: sanitary_def)
    then have "clean (butlast s)" unfolding no_double_def clean_def successively_append_iff by auto
    then show ?thesis using True by (simp add: rtrim1_def)
  qed (auto simp: sanitary_def clean_def rtrim1_def)
  then have c: "clean (rtrim1 (sanitize_display_name raw))" for raw using sanitize_sanitary by blast
  have "sanitize_display_name (replicate 95 97 @ [32, 97]) = replicate 95 97 @ [32]"
    using sanitize_letters [of 95 "[]" "[32, 97]"]
    by (simp add: sanitize_display_name_def MAX_DISPLAY_NAME_LEN_def is_spoofing_format_char_def is_whitespace_def is_control_def)
  then have n: "rtrim1 (sanitize_display_name (replicate 95 97 @ [32, 97])) \<noteq> sanitize_display_name (replicate 95 97 @ [32, 97])"
    by (simp add: rtrim1_def)
  have "sanitize_display_name raw \<noteq> [] \<and> last (sanitize_display_name raw) = 32 \<longrightarrow>
      length (sanitize_display_name raw) = MAX_DISPLAY_NAME_LEN"
    using sanitize_sanitary [of raw] by (auto simp: sanitary_def clean_def)
  then show ?thesis
    using n r [OF c [of raw]] unfolding Let_def sanitize_again by (simp add: sanitize_again) (simp add: rtrim1_def)
qed

end
