(* ===== verification/Store_Anchors.thy ===== *)
theory Store_Anchors
  imports V2_Store Keys_Armor
begin

section \<open>Rollback anchors of the local store (anchors.rs, store.rs)\<close>

text \<open>
  The desktop application keeps the high-water anchors of its protected objects outside the data
  directory, in the secure storage of the operating system, or, in the explicitly degraded mode,
  in a file of the data directory. Here are the storage interface and its in-memory
  implementation, the selection of the backend, and the reading and writing of anchors.

  An operation of the store acts on a pair of the secure storage's state and the world. Its errors
  are the user-facing strings of the source: a message, a core error shown as text, or either with
  a label before it or a note after it. Locks are not modelled: a transaction runs alone, which is what they are for.
\<close>

subsection \<open>Errors\<close>

datatype store_error = Msg string | Shown error | Labelled string store_error | Noted store_error string store_error

type_synonym ('s, 'a) sop = "('s \<times> world, store_error, 'a) fallible"

text \<open>\<open>.map_err(err)\<close> on a core operation, on the world or without effects.\<close>

definition core_io :: "'a io \<Rightarrow> ('s, 'a) sop" where
  "core_io m = on_snd (\<lambda>w. case m w of (r, w') \<Rightarrow> (map_err Shown r, w'))"

definition core :: "'a result \<Rightarrow> ('s, 'a) sop" where
  "core r = lift (map_err Shown r)"

text \<open>\<open>let _ = ..\<close>.\<close>

definition ignored :: "('s, 'e, 'a) fallible \<Rightarrow> ('s, 'e, unit) fallible" where
  "ignored m = bnd (attempt m) (\<lambda>_. ret ())"

text \<open>Whether the error text starts with \<open>state-anchor mismatch\<close>, which of the core errors only
  \<open>StateMismatch\<close> does.\<close>

fun shows_mismatch :: "store_error \<Rightarrow> bool" where
  "shows_mismatch (Msg s) = prefix ''state-anchor mismatch'' s"
| "shows_mismatch (Shown e) = (case e of StateMismatch _ \<Rightarrow> True | _ \<Rightarrow> False)"
| "shows_mismatch (Labelled s e) = prefix ''state-anchor mismatch'' (s @ '': '')"
| "shows_mismatch (Noted e note e') = shows_mismatch e"

subsection \<open>Secure storage\<close>

text \<open>The trait: operations on a state that the store does not look into.\<close>

record 's secure_ops =
  so_load :: "string \<Rightarrow> 's \<Rightarrow> (string + bytes option) \<times> 's"
  so_save :: "string \<Rightarrow> bytes \<Rightarrow> 's \<Rightarrow> (string + unit) \<times> 's"
  so_delete :: "string \<Rightarrow> 's \<Rightarrow> (string + unit) \<times> 's"

text \<open>The in-memory implementation.\<close>

record memory_anchor_storage =
  ms_records :: "(string \<times> bytes) list"
  ms_unavailable :: bool
  ms_fail_saves :: bool
  ms_capacity :: "nat option"
  ms_lookups :: nat

definition ms_new :: memory_anchor_storage where
  "ms_new = \<lparr>ms_records = [], ms_unavailable = False, ms_fail_saves = False, ms_capacity = None, ms_lookups = 0\<rparr>"

definition with_record_capacity :: "nat \<Rightarrow> memory_anchor_storage" where
  "with_record_capacity bytes = ms_new\<lparr>ms_capacity := Some bytes\<rparr>"

definition set_unavailable :: "bool \<Rightarrow> memory_anchor_storage \<Rightarrow> memory_anchor_storage" where
  "set_unavailable unavailable self = self\<lparr>ms_unavailable := unavailable\<rparr>"

definition set_fail_saves :: "bool \<Rightarrow> memory_anchor_storage \<Rightarrow> memory_anchor_storage" where
  "set_fail_saves fail self = self\<lparr>ms_fail_saves := fail\<rparr>"

definition largest_record :: "memory_anchor_storage \<Rightarrow> nat" where
  "largest_record self = foldr (\<lambda>(_, v) m. max (length v) m) (ms_records self) 0"

definition check_available :: "memory_anchor_storage \<Rightarrow> string + unit" where
  "check_available self = (if ms_unavailable self then Inl ''secure storage is unavailable'' else Inr ())"

definition ms_load :: "string \<Rightarrow> (memory_anchor_storage, string, bytes option) fallible" where
  "ms_load account =
     bnd (modify (\<lambda>s. s\<lparr>ms_lookups := ms_lookups s + 1\<rparr>)) (\<lambda>_.
     bnd (gets id) (\<lambda>s.
     bnd (lift (check_available s)) (\<lambda>_.
       ret (map_of (ms_records s) account))))"

definition ms_save :: "string \<Rightarrow> bytes \<Rightarrow> (memory_anchor_storage, string, unit) fallible" where
  "ms_save account b =
     bnd (gets id) (\<lambda>s.
     bnd (lift (check_available s)) (\<lambda>_.
       if ms_fail_saves s then throw ''secure storage write failed''
       else if (case ms_capacity s of Some capacity \<Rightarrow> length b > capacity | None \<Rightarrow> False) then throw ''secure storage record too large''
       else modify (\<lambda>s. s\<lparr>ms_records := AList.update account b (ms_records s)\<rparr>)))"

definition ms_delete :: "string \<Rightarrow> (memory_anchor_storage, string, unit) fallible" where
  "ms_delete account =
     bnd (gets id) (\<lambda>s.
     bnd (lift (check_available s)) (\<lambda>_.
       modify (\<lambda>s. s\<lparr>ms_records := AList.delete account (ms_records s)\<rparr>)))"

definition memory_storage :: "memory_anchor_storage secure_ops" where
  "memory_storage = \<lparr>so_load = ms_load, so_save = ms_save, so_delete = ms_delete\<rparr>"

text \<open>
  What the store relies on: the storage is a table of records that answers, or fails, without
  changing anything but the record it is given. A failed save may have gone through.
\<close>

locale anchor_storage =
  fixes S :: "'s secure_ops" and peek :: "'s \<Rightarrow> string \<Rightarrow> bytes option"
  assumes load_answers: "so_load S k s = (Inr v, s') \<Longrightarrow> v = peek s k"
    and load_keeps: "so_load S k s = (r, s') \<Longrightarrow> peek s' = peek s"
    and save_writes: "so_save S k b s = (Inr (), s') \<Longrightarrow> peek s' = (peek s)(k \<mapsto> b)"
    and save_writes_only: "so_save S k b s = (Inl e, s') \<Longrightarrow> peek s' = peek s \<or> peek s' = (peek s)(k \<mapsto> b)"
    and delete_removes: "so_delete S k s = (Inr (), s') \<Longrightarrow> peek s' = (peek s)(k := None)"
    and delete_removes_only: "so_delete S k s = (Inl e, s') \<Longrightarrow> peek s' = peek s \<or> peek s' = (peek s)(k := None)"
begin

lemma save_effect: "so_save S k b s = (r, s') \<Longrightarrow> peek s' = peek s \<or> peek s' = (peek s)(k \<mapsto> b)"
  using save_writes save_writes_only by (cases r) auto

end

definition peek_memory :: "memory_anchor_storage \<Rightarrow> string \<Rightarrow> bytes option" where
  "peek_memory s k = map_of (ms_records s) k"

interpretation memory: anchor_storage memory_storage peek_memory
proof (unfold_locales, goal_cases)
  case (1 k s v s')
  then show ?case by (auto simp: memory_storage_def ms_load_def bnd_eq_Inr peek_memory_def)
next
  case (2 k s r s')
  then show ?case
    by (auto simp: memory_storage_def ms_load_def bnd_eq check_available_def peek_memory_def fun_eq_iff split: if_splits)
next
  case (3 k b s s')
  then show ?case
    by (auto simp: memory_storage_def ms_save_def bnd_eq_Inr check_available_def peek_memory_def update_conv' fun_eq_iff split: if_splits)
next
  case (4 k b s e s')
  then show ?case
    by (auto simp: memory_storage_def ms_save_def bnd_eq_Inl check_available_def peek_memory_def split: if_splits)
next
  case (5 k s s')
  then show ?case
    by (auto simp: memory_storage_def ms_delete_def bnd_eq_Inr check_available_def peek_memory_def delete_conv' fun_eq_iff split: if_splits)
next
  case (6 k s e s')
  then show ?case
    by (auto simp: memory_storage_def ms_delete_def bnd_eq_Inl check_available_def peek_memory_def split: if_splits)
qed

subsection \<open>Constants and records\<close>

definition KEYSTORE_FILE :: string where "KEYSTORE_FILE = ''keystore.fsk''"
definition CONTACTS_FILE :: string where "CONTACTS_FILE = ''contacts.fsec''"
definition INDEX_FILE :: string where "INDEX_FILE = ''index.fsec''"
definition ANCHORS_VERSION :: u16 where "ANCHORS_VERSION = 1"
definition ANCHOR_ROOT_VERSION :: u16 where "ANCHOR_ROOT_VERSION = 2"
definition OBJECT_ANCHOR_VERSION :: u16 where "OBJECT_ANCHOR_VERSION = 1"
definition MAX_SECURE_ANCHOR_RECORD :: nat where "MAX_SECURE_ANCHOR_RECORD = 2048"
definition MAX_ANCHOR_OBJECT_ID :: nat where "MAX_ANCHOR_OBJECT_ID = 128"
definition ANCHORS_FILE :: string where "ANCHORS_FILE = ''.state-anchors''"
definition ANCHORS_BACKEND_FILE :: string where "ANCHORS_BACKEND_FILE = ''.state-anchor-backend''"
definition QUARANTINE_DIR :: string where "QUARANTINE_DIR = ''quarantine''"
definition BACKEND_MARKER_SECURE :: string where "BACKEND_MARKER_SECURE = ''secure-v1''"
definition BACKEND_MARKER_DEGRADED :: string where "BACKEND_MARKER_DEGRADED = ''degraded-v1''"
definition MAX_BACKEND_MARKER_LEN :: nat where "MAX_BACKEND_MARKER_LEN = 64"
definition ANCHOR_RECOVERY_REQUIRED :: string where "ANCHOR_RECOVERY_REQUIRED = ''rollback-protection anchors need recovery''"

datatype anchor_backend = SecureStorage | DegradedFile

record migration_record =
  mr_version :: u16
  mr_old_fingerprint :: bytes
  mr_new_fingerprint :: bytes
  mr_journal_hash :: bytes

record anchor_set =
  as_version :: u16
  as_anchors :: "state_anchor list"
  as_migration :: "migration_record option"

record anchor_root =
  ar_version :: u16
  ar_migration :: "migration_record option"

record object_anchor_record =
  oa_version :: u16
  oa_anchor :: state_anchor

record anchor_codecs =
  ac_set :: "anchor_set codec"
  ac_root :: "anchor_root codec"
  ac_object :: "object_anchor_record codec"
  ac_probe :: "u16 codec"

text \<open>The fixed part of a \<open>Store\<close>; \<open>'s\<close> is the state of the secure storage, which may be absent.\<close>

record store =
  st_data_dir :: string
  st_vaults_dir :: string
  st_checkout_dir :: string
  st_backend :: anchor_backend
  st_account :: string

definition deleted_vault_anchor :: "lib \<Rightarrow> identity \<Rightarrow> string \<Rightarrow> state_anchor" where
  "deleted_vault_anchor L i oid =
     \<lparr>sa_identity_fingerprint = id_fingerprint L i, sa_object_type = VaultManifest, sa_object_id = oid, sa_suite_id = 0,
      sa_epoch = - 1, sa_current_state_hash = replicate 32 0xff\<rparr>"

fun object_tag :: "state_object_type \<Rightarrow> string" where
  "object_tag Keystore = ''keystore''"
| "object_tag Contacts = ''contacts''"
| "object_tag Registry = ''registry''"
| "object_tag VaultManifest = ''vault''"

definition object_anchor_account :: "lib \<Rightarrow> string \<Rightarrow> state_object_type \<Rightarrow> string \<Rightarrow> string" where
  "object_anchor_account L root ty oid =
     ''anchor:'' @ object_tag ty @ '':'' @ hexlower_encode L (as_bytes oid) @ ''@'' @ root"

definition encode_root_record :: "anchor_codecs \<Rightarrow> store_error + bytes" where
  "encode_root_record C = map_err Shown (to_vec (ac_root C) \<lparr>ar_version = ANCHOR_ROOT_VERSION, ar_migration = None\<rparr>)"

subsection \<open>Files of the store\<close>

definition std_exists :: "string \<Rightarrow> bool io" where
  "std_exists p = bnd (attempt (if p = [] then syscall not_found else std_metadata p)) (\<lambda>m. ret (is_ok m))"

text \<open>\<open>rename\<close> of a file or of a directory with what is beneath it.\<close>

definition moved :: "string \<Rightarrow> string \<Rightarrow> string \<Rightarrow> string" where
  "moved a b p = (if p = a \<or> prefix (a @ ''/'') p then b @ drop (length a) p else p)"

definition std_rename_tree :: "string \<Rightarrow> string \<Rightarrow> unit io" where
  "std_rename_tree a b = syscall (\<lambda>w.
     case fs_get w a of
       None \<Rightarrow> not_found w
     | Some n \<Rightarrow>
         if fs_get w (parent_or_dot b) \<noteq> Some DirNode then not_found w
         else if n \<noteq> DirNode then
           (if fs_get w b = Some DirNode then (Inl (Io (IoKind OtherIo)), w) else (Inr (), fs_put b n (fs_del a w)))
         else if a = b then (Inr (), w)
         else if prefix (a @ ''/'') b \<or> fs_get w b \<notin> {None, Some DirNode} \<or> (\<exists>(q, _)\<in>set (fs w). prefix (b @ ''/'') q)
         then (Inl (Io (IoKind OtherIo)), w)
         else (Inr (), w\<lparr>fs := map (\<lambda>(p, m). (moved a b p, m)) (AList.delete b (fs w))\<rparr>))"

definition write_private_export :: "lib \<Rightarrow> string \<Rightarrow> bytes \<Rightarrow> ('s, unit) sop" where
  "write_private_export L path contents = core_io (with_writer L path (\<lambda>w. sw_write_all w contents) sw_commit)"

definition write_private_atomic :: "lib \<Rightarrow> string \<Rightarrow> bytes \<Rightarrow> ('s, unit) sop" where
  "write_private_atomic L final_path b = write_private_export L final_path b"

definition harden_file :: "string \<Rightarrow> unit io" where
  "harden_file path = bnd (attempt (syscall (ret ()))) (\<lambda>_. ret ())"

definition reject_oversized_file :: "string \<Rightarrow> nat \<Rightarrow> string \<Rightarrow> ('s, unit) sop" where
  "reject_oversized_file path max_len label =
     bnd (core_io (std_metadata path)) (\<lambda>meta.
       if \<not> is_file meta then throw (Msg (label @ '' is not a file''))
       else if length (node_bytes meta) > max_len then throw (Msg (label @ '' is too large''))
       else ret ())"

definition read_bounded_store_file :: "string \<Rightarrow> u64 \<Rightarrow> string \<Rightarrow> ('s, bytes) sop" where
  "read_bounded_store_file path max_len label =
     on_snd (\<lambda>w. case read_bounded_file path max_len w of (r, w') \<Rightarrow> (map_err (\<lambda>e. Labelled label (Shown e)) r, w'))"

definition random_hex :: "lib \<Rightarrow> nat \<Rightarrow> ('s, string) sop" where
  "random_hex L n = bnd (core_io (random_array n)) (\<lambda>b. ret (hexlower_encode L b))"

definition new_vault_id :: "lib \<Rightarrow> ('s, string) sop" where
  "new_vault_id L = random_hex L 16"

definition keystore_path :: "store \<Rightarrow> string" where "keystore_path st = path_join (st_data_dir st) KEYSTORE_FILE"
definition contacts_path :: "store \<Rightarrow> string" where "contacts_path st = path_join (st_data_dir st) CONTACTS_FILE"
definition index_path :: "store \<Rightarrow> string" where "index_path st = path_join (st_data_dir st) INDEX_FILE"
definition anchors_path :: "store \<Rightarrow> string" where "anchors_path st = path_join (st_data_dir st) ANCHORS_FILE"
definition vault_path :: "store \<Rightarrow> string \<Rightarrow> string" where "vault_path st oid = path_join (st_vaults_dir st) (oid @ ''.fsec'')"
definition vault_dir_v2 :: "store \<Rightarrow> string \<Rightarrow> string" where "vault_dir_v2 st oid = path_join (st_vaults_dir st) (oid @ ''.fsv2'')"

subsection \<open>Reading and writing anchors\<close>

text \<open>An operation of the storage, its error under a label.\<close>

definition stored :: "string \<Rightarrow> ('s, string, 'a) fallible \<Rightarrow> ('s, 'a) sop" where
  "stored label m = on_fst (\<lambda>s. case m s of (r, s') \<Rightarrow> (map_err (\<lambda>e. Labelled label (Msg e)) r, s'))"

definition secure_storage :: "'s secure_ops option \<Rightarrow> ('s, 's secure_ops) sop" where
  "secure_storage secure = lift (ok_or (Msg ''OS secure storage is not available in this build'') secure)"

definition load_anchors :: "'s secure_ops option \<Rightarrow> string \<Rightarrow> ('s, bytes option) sop" where
  "load_anchors secure account =
     bnd (secure_storage secure) (\<lambda>S. stored ''could not read rollback anchors'' (so_load S account))"

definition save_anchors :: "'s secure_ops option \<Rightarrow> string \<Rightarrow> bytes \<Rightarrow> ('s, unit) sop" where
  "save_anchors secure account b =
     bnd (secure_storage secure) (\<lambda>S. stored ''could not save rollback anchors'' (so_save S account b))"

definition load_file_anchor_set :: "anchor_codecs \<Rightarrow> store \<Rightarrow> ('s, anchor_set) sop" where
  "load_file_anchor_set C st =
     bnd (core_io (std_exists (anchors_path st))) (\<lambda>there.
     bnd (if there then read_bounded_store_file (anchors_path st) (4 * 1024 * 1024) ''state anchor file'' else ret []) (\<lambda>b.
       if b = [] then ret \<lparr>as_version = ANCHORS_VERSION, as_anchors = [], as_migration = None\<rparr>
       else
         bnd (core (from_slice (ac_set C) b)) (\<lambda>set.
           if as_version set \<noteq> ANCHORS_VERSION then throw (Msg ''unsupported state anchor format'') else ret set)))"

definition save_file_anchor_set :: "lib \<Rightarrow> anchor_codecs \<Rightarrow> store \<Rightarrow> anchor_set \<Rightarrow> ('s, unit) sop" where
  "save_file_anchor_set L C st aset =
     bnd (core (to_vec (ac_set C) aset)) (\<lambda>b. write_private_atomic L (anchors_path st) b)"

definition same_object :: "state_object_type \<Rightarrow> string \<Rightarrow> state_anchor \<Rightarrow> bool" where
  "same_object ty oid a \<longleftrightarrow> sa_object_type a = ty \<and> sa_object_id a = oid"

definition get_anchor ::
  "lib \<Rightarrow> anchor_codecs \<Rightarrow> 's secure_ops option \<Rightarrow> store \<Rightarrow> state_object_type \<Rightarrow> string \<Rightarrow> ('s, state_anchor option) sop" where
  "get_anchor L C secure st ty oid =
     (case st_backend st of
        SecureStorage \<Rightarrow>
          bnd (load_anchors secure (object_anchor_account L (st_account st) ty oid)) (\<lambda>m.
            case m of
              None \<Rightarrow> ret None
            | Some b \<Rightarrow>
                bnd (core (from_slice (ac_object C) b)) (\<lambda>record.
                  if oa_version record \<noteq> OBJECT_ANCHOR_VERSION \<or> \<not> same_object ty oid (oa_anchor record)
                  then throw (Msg (''malformed rollback anchor record for '' @ state_label ty oid))
                  else ret (Some (oa_anchor record))))
      | DegradedFile \<Rightarrow>
          bnd (load_file_anchor_set C st) (\<lambda>set. ret (find (same_object ty oid) (as_anchors set))))"

fun replace_or_push :: "('a \<Rightarrow> bool) \<Rightarrow> 'a \<Rightarrow> 'a list \<Rightarrow> 'a list" where
  "replace_or_push p y [] = [y]"
| "replace_or_push p y (x # xs) = (if p x then y # xs else x # replace_or_push p y xs)"

definition put_anchor ::
  "lib \<Rightarrow> anchor_codecs \<Rightarrow> 's secure_ops option \<Rightarrow> store \<Rightarrow> state_anchor \<Rightarrow> ('s, unit) sop" where
  "put_anchor L C secure st anchor =
     (if length (sa_object_id anchor) > MAX_ANCHOR_OBJECT_ID then throw (Msg ''state object id is too long to anchor'')
      else
        case st_backend st of
          SecureStorage \<Rightarrow>
            bnd (core (to_vec (ac_object C) \<lparr>oa_version = OBJECT_ANCHOR_VERSION, oa_anchor = anchor\<rparr>)) (\<lambda>b.
              if length b > MAX_SECURE_ANCHOR_RECORD
              then throw (Msg ''rollback anchor record exceeds the secure-storage limit'')
              else save_anchors secure (object_anchor_account L (st_account st) (sa_object_type anchor) (sa_object_id anchor)) b)
        | DegradedFile \<Rightarrow>
            bnd (load_file_anchor_set C st) (\<lambda>set.
              save_file_anchor_set L C st
                (set\<lparr>as_anchors := replace_or_push (same_object (sa_object_type anchor) (sa_object_id anchor)) anchor (as_anchors set)\<rparr>)))"

text \<open>The version of a root record is read from either layout.\<close>

definition upgrade_secure_anchor_layout :: "lib \<Rightarrow> anchor_codecs \<Rightarrow> 's secure_ops option \<Rightarrow> store \<Rightarrow> ('s, unit) sop" where
  "upgrade_secure_anchor_layout L C secure st =
     (if st_backend st \<noteq> SecureStorage then ret ()
      else
        bnd (load_anchors secure (st_account st)) (\<lambda>m.
          case m of
            None \<Rightarrow>
              throw (Labelled ANCHOR_RECOVERY_REQUIRED (Msg ''the anchor root record disappeared from OS secure storage''))
          | Some b \<Rightarrow>
              bnd (core (from_slice (ac_probe C) b)) (\<lambda>version.
                if version = ANCHOR_ROOT_VERSION then ret ()
                else if version = ANCHORS_VERSION then
                  bnd (core (from_slice (ac_set C) b)) (\<lambda>legacy.
                  bnd (io_for (put_anchor L C secure st) (as_anchors legacy)) (\<lambda>_.
                  bnd (lift (encode_root_record C)) (\<lambda>root. save_anchors secure (st_account st) root)))
                else throw (Msg ''unsupported state anchor format''))))"

subsection \<open>Accepting states\<close>

definition quarantine :: "lib \<Rightarrow> store \<Rightarrow> string \<Rightarrow> ('s, string) sop" where
  "quarantine L st path =
     (let dir = path_join (st_data_dir st) QUARANTINE_DIR in
      bnd (core_io (std_create_dir_all dir)) (\<lambda>_.
      bnd (core_io (harden_dir dir)) (\<lambda>_.
        let leaf = (if path_file_name path \<in> {[], ''.'', ''..''} then ''state'' else path_file_name path) in
        bnd (random_hex L 8) (\<lambda>sfx.
          let target = path_join dir (leaf @ ''.rollback-'' @ sfx) in
          bnd (core_io (std_rename_tree path target)) (\<lambda>_. ret target)))))"

definition current_anchor ::
  "lib \<Rightarrow> anchor_codecs \<Rightarrow> 's secure_ops option \<Rightarrow> store \<Rightarrow> bytes \<Rightarrow> state_object_type \<Rightarrow> string \<Rightarrow> ('s, state_anchor option) sop" where
  "current_anchor L C secure st fpr ty oid =
     bnd (get_anchor L C secure st ty oid) (\<lambda>m.
       case m of
         Some anchor \<Rightarrow>
           if sa_identity_fingerprint anchor \<noteq> fpr
           then throw (Msg (''state-anchor mismatch for '' @ state_label ty oid @ '': it belongs to a different identity''))
           else ret (Some anchor)
       | None \<Rightarrow> ret None)"

text \<open>A failed check moves the suspect object away, as far as that works.\<close>

definition guarded :: "lib \<Rightarrow> store \<Rightarrow> string \<Rightarrow> ('s, unit) sop \<Rightarrow> ('s, unit) sop" where
  "guarded L st suspect_path m =
     bnd (attempt m) (\<lambda>r.
       case r of
         Inr _ \<Rightarrow> ret ()
       | Inl e \<Rightarrow>
           bnd (core_io (std_exists suspect_path)) (\<lambda>there.
           bnd (if there then ignored (quarantine L st suspect_path) else ret ()) (\<lambda>_.
             throw e)))"

definition accept_state ::
  "lib \<Rightarrow> anchor_codecs \<Rightarrow> 's secure_ops option \<Rightarrow> store \<Rightarrow> state_metadata \<Rightarrow> string \<Rightarrow> ('s, unit) sop" where
  "accept_state L C secure st state suspect_path =
     guarded L st suspect_path
       (bnd (get_anchor L C secure st (sm_object_type state) (sm_object_id state)) (\<lambda>m.
        bnd (case m of Some anchor \<Rightarrow> core (check_candidate anchor state) | None \<Rightarrow> ret True) (\<lambda>should_update.
          if should_update then put_anchor L C secure st (from_metadata state) else ret ())))"

definition check_loaded_state ::
  "lib \<Rightarrow> anchor_codecs \<Rightarrow> 's secure_ops option \<Rightarrow> store \<Rightarrow> state_metadata \<Rightarrow> string \<Rightarrow> ('s, unit) sop" where
  "check_loaded_state L C secure st state suspect_path =
     guarded L st suspect_path
       (bnd (get_anchor L C secure st (sm_object_type state) (sm_object_id state)) (\<lambda>m.
          case m of
            Some anchor \<Rightarrow>
              bnd (core (check_candidate anchor state)) (\<lambda>newer.
                if newer then put_anchor L C secure st (from_metadata state) else ret ())
          | None \<Rightarrow> ret ()))"

definition check_state_transition ::
  "lib \<Rightarrow> anchor_codecs \<Rightarrow> 's secure_ops option \<Rightarrow> store \<Rightarrow> state_metadata \<Rightarrow> ('s, unit) sop" where
  "check_state_transition L C secure st state =
     bnd (get_anchor L C secure st (sm_object_type state) (sm_object_id state)) (\<lambda>m.
       case m of
         Some anchor \<Rightarrow> bnd (core (check_candidate anchor state)) (\<lambda>_. ret ())
       | None \<Rightarrow> ret ())"

definition commit_state ::
  "lib \<Rightarrow> anchor_codecs \<Rightarrow> 's secure_ops option \<Rightarrow> store \<Rightarrow> state_metadata \<Rightarrow> ('s, unit) sop" where
  "commit_state L C secure st state = accept_state L C secure st state []"

subsection \<open>Choosing the backend\<close>

datatype secure_probe = Established | ProbeEmpty | Unreachable

definition probe_secure :: "'s secure_ops option \<Rightarrow> string \<Rightarrow> 's \<Rightarrow> secure_probe \<times> 's" where
  "probe_secure secure account s =
     (case secure of
        None \<Rightarrow> (Unreachable, s)
      | Some S \<Rightarrow>
          (case so_load S account s of
             (Inr (Some _), s') \<Rightarrow> (Established, s')
           | (Inr None, s') \<Rightarrow> (ProbeEmpty, s')
           | (Inl _, s') \<Rightarrow> (Unreachable, s')))"

datatype backend_marker = SecureMarker | DegradedMarker | Malformed

text \<open>A file that is not UTF-8 is none of the two markers either.\<close>

definition read_backend_marker :: "string \<Rightarrow> backend_marker option io" where
  "read_backend_marker path =
     bnd (attempt (std_symlink_metadata path)) (\<lambda>m.
       case m of
         Inl _ \<Rightarrow> ret None
       | Inr meta \<Rightarrow>
           if \<not> is_file meta \<or> length (node_bytes meta) > MAX_BACKEND_MARKER_LEN then ret (Some Malformed)
           else
             bnd (attempt (std_open_read path)) (\<lambda>r.
               case r of
                 Inl _ \<Rightarrow> ret (Some Malformed)
               | Inr file \<Rightarrow>
                   let trimmed = str_trim (map (\<lambda>b. char_of (unat b)) (node_bytes file)) in
                   ret (Some (if \<not> is_file file then Malformed
                              else if trimmed = BACKEND_MARKER_SECURE then SecureMarker
                              else if trimmed = BACKEND_MARKER_DEGRADED then DegradedMarker
                              else Malformed))))"

definition write_backend_marker :: "lib \<Rightarrow> string \<Rightarrow> anchor_backend \<Rightarrow> ('s, unit) sop" where
  "write_backend_marker L data_dir backend =
     (let value = (case backend of SecureStorage \<Rightarrow> BACKEND_MARKER_SECURE | DegradedFile \<Rightarrow> BACKEND_MARKER_DEGRADED)
      in write_private_atomic L (path_join data_dir ANCHORS_BACKEND_FILE) (as_bytes (value @ [CHR 0x0A])))"

definition keystore_is_v3 :: "string \<Rightarrow> bool io" where
  "keystore_is_v3 path =
     bnd (attempt (std_open_read path)) (\<lambda>r.
       ret (case r of
              Inr (FileNode b) \<Rightarrow> length b \<ge> 6 \<and> take 4 b = as_bytes ''FSK'' @ [0x1a] \<and> take 2 (drop 4 b) = [0, 3]
            | _ \<Rightarrow> False))"

definition recovery_required :: "string \<Rightarrow> store_error" where
  "recovery_required why = Labelled ANCHOR_RECOVERY_REQUIRED (Msg why)"

definition establish_secure_anchor_record ::
  "anchor_codecs \<Rightarrow> 's secure_ops option \<Rightarrow> string \<Rightarrow> bool \<Rightarrow> ('s, anchor_backend) sop" where
  "establish_secure_anchor_record C secure account protected_state =
     bnd (lift (encode_root_record C)) (\<lambda>b.
       case secure of
         None \<Rightarrow> if \<not> protected_state then ret DegradedFile else throw (recovery_required ''OS secure storage is not available'')
       | Some S \<Rightarrow>
           bnd (attempt (on_fst (\<lambda>s. case so_save S account b s of (r, s') \<Rightarrow> (map_err Msg r, s')))) (\<lambda>r.
             case r of
               Inr _ \<Rightarrow> ret SecureStorage
             | Inl e \<Rightarrow>
                 if \<not> protected_state then ret DegradedFile
                 else throw (Labelled (ANCHOR_RECOVERY_REQUIRED @ '': could not record anchors in OS secure storage'') e)))"

text \<open>The table of the source, in its order.\<close>

definition choose_backend ::
  "secure_probe \<Rightarrow> backend_marker option \<Rightarrow> bool \<Rightarrow> bool \<Rightarrow> store_error + anchor_backend" where
  "choose_backend probe marker protected_state file_anchors =
     (if probe = Established then Inr SecureStorage
      else if marker = Some Malformed then Inl (recovery_required ''the anchor backend marker is malformed'')
      else if probe = ProbeEmpty \<and> marker = Some SecureMarker \<and> protected_state
      then Inl (recovery_required ''the anchors are missing from OS secure storage; refusing to trust existing protected state'')
      else if probe = Unreachable \<and> marker = Some SecureMarker
      then Inl (recovery_required ''OS secure storage holding the anchors of this store is unavailable'')
      else if probe = ProbeEmpty \<and> marker = Some SecureMarker then Inr SecureStorage
      else if marker = Some DegradedMarker then Inr DegradedFile
      else if marker = None \<and> file_anchors then Inr DegradedFile
      else if probe = ProbeEmpty \<and> marker = None then Inr SecureStorage
      else if probe = Unreachable \<and> marker = None \<and> protected_state
      then Inl (recovery_required ''the anchor backend marker is missing and OS secure storage is unavailable'')
      else Inr DegradedFile)"

definition select_anchor_backend ::
  "lib \<Rightarrow> anchor_codecs \<Rightarrow> string \<Rightarrow> string \<Rightarrow> 's secure_ops option \<Rightarrow> ('s, anchor_backend) sop" where
  "select_anchor_backend L C data_dir account secure =
     bnd (core_io (read_backend_marker (path_join data_dir ANCHORS_BACKEND_FILE))) (\<lambda>marker.
     bnd (core_io (keystore_is_v3 (path_join data_dir KEYSTORE_FILE))) (\<lambda>protected_state.
     bnd (core_io (std_exists (path_join data_dir ANCHORS_FILE))) (\<lambda>file_anchors.
     bnd (on_fst (\<lambda>s. case probe_secure secure account s of (q, s') \<Rightarrow> (Inr q, s'))) (\<lambda>probe.
     bnd (lift (choose_backend probe marker protected_state file_anchors)) (\<lambda>backend.
     bnd (if backend = SecureStorage \<and> probe = ProbeEmpty
          then establish_secure_anchor_record C secure account protected_state
          else ret backend) (\<lambda>backend.
       let wanted = (case backend of SecureStorage \<Rightarrow> SecureMarker | DegradedFile \<Rightarrow> DegradedMarker) in
       bnd (if marker \<noteq> Some wanted then write_backend_marker L data_dir backend else ret ()) (\<lambda>_.
         ret backend)))))))"

subsection \<open>Anchors in the secure storage\<close>

definition anchor_in :: "anchor_codecs \<Rightarrow> state_object_type \<Rightarrow> string \<Rightarrow> bytes option \<Rightarrow> state_anchor option" where
  "anchor_in C ty oid m =
     (case m of
        None \<Rightarrow> None
      | Some b \<Rightarrow>
          (case from_slice (ac_object C) b of
             Inl _ \<Rightarrow> None
           | Inr r \<Rightarrow> if oa_version r = OBJECT_ANCHOR_VERSION \<and> same_object ty oid (oa_anchor r) then Some (oa_anchor r) else None))"

definition anchor_view :: "lib \<Rightarrow> anchor_codecs \<Rightarrow> store \<Rightarrow> (string \<Rightarrow> bytes option) \<Rightarrow> state_object_type \<Rightarrow> string \<Rightarrow> state_anchor option" where
  "anchor_view L C st table ty oid = anchor_in C ty oid (table (object_anchor_account L (st_account st) ty oid))"

definition anchor_typed :: "object_anchor_record \<Rightarrow> bool" where
  "anchor_typed r \<longleftrightarrow> length (sa_identity_fingerprint (oa_anchor r)) = 32 \<and> length (sa_current_state_hash (oa_anchor r)) = 32"

text \<open>No two objects have the same account, and none has the account of the root record.\<close>

lemma object_tag_inj: "object_tag a @ CHR '':'' # x = object_tag b @ CHR '':'' # y \<Longrightarrow> a = b \<and> x = y"
  by (cases a; cases b) auto

lemma hex_at_end:
  assumes "list_all is_lower_hex a" and "list_all is_lower_hex b" and "a @ CHR ''@'' # x = b @ CHR ''@'' # y"
  shows "a = b \<and> x = y"
proof -
  have "takeWhile (\<lambda>c. c \<noteq> CHR ''@'') (a @ CHR ''@'' # x) = a" if "list_all is_lower_hex a" for a x
    using that by (induction a) (auto simp: is_lower_hex_def)
  then show ?thesis using assms by (metis append_same_eq same_append_eq list.inject)
qed

lemma account_inj:
  assumes "hexlower_spec L" and "object_anchor_account L root ty oid = object_anchor_account L root ty' oid'"
  shows "ty = ty' \<and> oid = oid'"
proof -
  have e: "object_tag ty @ CHR '':'' # hexlower_encode L (as_bytes oid) @ CHR ''@'' # root =
      object_tag ty' @ CHR '':'' # hexlower_encode L (as_bytes oid') @ CHR ''@'' # root"
    using assms(2) by (simp add: object_anchor_account_def)
  have h: "list_all is_lower_hex (hexlower_encode L b)" for b using assms(1) by (simp add: hexlower_spec_def)
  from object_tag_inj [OF e] hex_at_end [OF h h] have "ty = ty'" "hexlower_encode L (as_bytes oid) = hexlower_encode L (as_bytes oid')"
    by blast+
  moreover then have "as_bytes oid = as_bytes oid'" using assms(1) unfolding hexlower_spec_def by (metis option.inject)
  ultimately show ?thesis by (simp add: as_bytes_inj)
qed

context anchor_storage
begin

lemma load_anchors_run:
  assumes "load_anchors (Some S) account (s, w) = (r, (s', w'))"
  shows "w' = w \<and> peek s' = peek s \<and> (\<forall>v. r = Inr v \<longrightarrow> v = peek s account)"
proof -
  obtain q t where q: "so_load S account s = (q, t)" by force
  show ?thesis using assms q load_keeps [OF q] load_answers [of account s _ t]
    by (cases q) (auto simp: load_anchors_def secure_storage_def stored_def)
qed

lemma save_anchors_run:
  assumes "save_anchors (Some S) account b (s, w) = (r, (s', w'))"
  shows "w' = w \<and> (peek s' = (peek s)(account \<mapsto> b) \<or> (\<exists>e. r = Inl e) \<and> peek s' = peek s)"
proof -
  obtain q t where q: "so_save S account b s = (q, t)" by force
  show ?thesis using assms q save_effect [OF q] save_writes [of account b s t]
    by (cases q) (auto simp: save_anchors_def secure_storage_def stored_def)
qed

lemma get_anchor_secure:
  assumes "st_backend st = SecureStorage" and "get_anchor L C (Some S) st ty oid (s, w) = (r, (s', w'))"
  shows "w' = w \<and> peek s' = peek s \<and> (\<forall>m. r = Inr m \<longrightarrow> m = anchor_view L C st (peek s) ty oid)"
proof -
  obtain q t v where q: "load_anchors (Some S) (object_anchor_account L (st_account st) ty oid) (s, w) = (q, (t, v))" by (metis prod_cases3)
  note run = load_anchors_run [OF q]
  show ?thesis
  proof (cases q)
    case (Inl e)
    then show ?thesis using assms q run by (auto simp: get_anchor_def)
  next
    case (Inr m)
    then have m: "peek s (object_anchor_account L (st_account st) ty oid) = m" "v = w" "peek t = peek s" using run by auto
    show ?thesis
    proof (cases m)
      case None
      then show ?thesis using assms q Inr m by (auto simp: get_anchor_def anchor_view_def anchor_in_def)
    next
      case (Some b)
      then show ?thesis using assms q Inr m
        by (cases "from_slice (ac_object C) b") (auto simp: get_anchor_def core_def anchor_view_def anchor_in_def split: if_splits)
    qed
  qed
qed

lemma put_anchor_secure:
  assumes "st_backend st = SecureStorage" and "put_anchor L C (Some S) st a (s, w) = (r, (s', w'))"
    and "codec_ok anchor_typed (ac_object C)" and "anchor_typed \<lparr>oa_version = OBJECT_ANCHOR_VERSION, oa_anchor = a\<rparr>"
    and "hexlower_spec L"
  shows "w' = w \<and>
    (anchor_view L C st (peek s') = (\<lambda>ty oid. if same_object ty oid a then Some a else anchor_view L C st (peek s) ty oid) \<or>
     (\<exists>e. r = Inl e) \<and> peek s' = peek s)"
proof (cases "length (sa_object_id a) > MAX_ANCHOR_OBJECT_ID")
  case True
  then show ?thesis using assms(1,2) by (auto simp: put_anchor_def)
next
  case False
  let ?r = "\<lparr>oa_version = OBJECT_ANCHOR_VERSION, oa_anchor = a\<rparr>"
  from to_vec_total [of anchor_typed "ac_object C" ?r, OF assms(3,4)] obtain b where b: "to_vec (ac_object C) ?r = Inr b" by blast
  have d: "from_slice (ac_object C) b = Inr ?r" using from_slice_to_vec [OF assms(3,4) b] .
  let ?k = "object_anchor_account L (st_account st) (sa_object_type a) (sa_object_id a)"
  have upd: "anchor_view L C st ((peek s)(?k \<mapsto> b)) =
      (\<lambda>ty oid. if same_object ty oid a then Some a else anchor_view L C st (peek s) ty oid)"
    using d account_inj [OF assms(5), of "st_account st" _ _ "sa_object_type a" "sa_object_id a"]
    by (intro ext) (auto simp: anchor_view_def anchor_in_def same_object_def)
  show ?thesis
  proof (cases "length b > MAX_SECURE_ANCHOR_RECORD")
    case True
    then show ?thesis using assms(1,2) False b by (auto simp: put_anchor_def core_def)
  next
    case small: False
    then have "save_anchors (Some S) ?k b (s, w) = (r, (s', w'))"
      using assms(1,2) False b by (simp add: put_anchor_def core_def)
    from save_anchors_run [OF this] show ?thesis unfolding upd [symmetric] by auto
  qed
qed

end

subsection \<open>What accepting a state does to the anchors\<close>

type_synonym anchor_table = "state_object_type \<Rightarrow> string \<Rightarrow> state_anchor option"

definition raised :: "state_metadata \<Rightarrow> anchor_table \<Rightarrow> anchor_table" where
  "raised m V = (\<lambda>ty oid. if same_object ty oid (from_metadata m) then Some (from_metadata m) else V ty oid)"

definition acceptable :: "anchor_table \<Rightarrow> state_metadata \<Rightarrow> bool" where
  "acceptable V m \<longleftrightarrow>
     (case V (sm_object_type m) (sm_object_id m) of None \<Rightarrow> True | Some a \<Rightarrow> is_ok (check_candidate a m))"

definition metadata_sized :: "state_metadata \<Rightarrow> bool" where
  "metadata_sized m \<longleftrightarrow> length (sm_identity_fingerprint m) = 32 \<and> length (sm_current_state_hash m) = 32"

lemma raised_same: "V (sm_object_type m) (sm_object_id m) = Some (from_metadata m) \<Longrightarrow> raised m V = V"
  by (auto simp: raised_def fun_eq_iff same_object_def from_metadata_def)

lemma raised_at [simp]: "raised m V (sm_object_type m) (sm_object_id m) = Some (from_metadata m)"
  by (simp add: raised_def same_object_def from_metadata_def)

lemma core_io_eq: "core_io m (s, w) = (r, (s', w')) \<longleftrightarrow> s' = s \<and> (\<exists>q. m w = (q, w') \<and> r = map_err Shown q)"
  by (auto simp: core_io_def split: prod.splits)

lemma core_run [simp]: "core r sw = (map_err Shown r, sw)"
  by (simp add: core_def)

lemma preserves_core_io [preserves_intros]: "preserves (\<lambda>sw. fst sw = t) (core_io m)"
  by (auto simp: preserves_def core_io_eq)

lemma preserves_core [preserves_intros]: "preserves P (core r)"
  by (auto simp: preserves_def)

lemma preserves_let [preserves_intros]: "(\<And>x. preserves P (f x)) \<Longrightarrow> preserves P (let x = y in f x)"
  by simp

lemma preserves_ignored [preserves_intros]: "preserves P m \<Longrightarrow> preserves P (ignored m)"
  unfolding ignored_def by (intro preserves_intros)

lemma quarantine_storage [preserves_intros]: "preserves (\<lambda>sw. fst sw = t) (quarantine L st p)"
  unfolding quarantine_def random_hex_def by (intro preserves_intros)

lemma std_exists_files [preserves_intros]: "preserves (files F) (std_exists p)"
  unfolding std_exists_def
  by (intro preserves_intros) (auto intro!: preserves_syscall simp: preserves_def not_found_def)

lemma guarded_run:
  assumes "guarded L st p m (s, w) = (r, (s', w'))"
  shows "\<exists>w1. m (s, w) = (r, (s', w1)) \<and> (is_ok r \<longrightarrow> w' = w1) \<and> (p = [] \<longrightarrow> fs_get w' = fs_get w1)"
proof -
  obtain q t w1 where q: "m (s, w) = (q, (t, w1))" by (metis prod_cases3)
  let ?rest = "\<lambda>e. bnd (core_io (std_exists p)) (\<lambda>there.
           bnd (if there then ignored (quarantine L st p) else ret ()) (\<lambda>_. throw e)) :: ('a, unit) sop"
  have none: "std_exists [] w1 = (Inr False, w1\<lparr>io_calls := io_calls w1 + 1\<rparr>)"
    by (cases "io_faults w1 (io_calls w1)") (simp_all add: std_exists_def bnd_def attempt_def syscall_def not_found_def)
  have e: "\<exists>w2. ?rest e (t, w1) = (Inl e, (t, w2)) \<and> (p = [] \<longrightarrow> fs_get w2 = fs_get w1)" for e
  proof (cases "p = []")
    case True
    then show ?thesis using none by (simp add: bnd_def core_io_def)
  next
    case False
    have "preserves (\<lambda>sw. fst sw = t) (?rest e)" by (intro preserves_intros)
    moreover have "fst (?rest e sw) = Inl e" for sw
      by (cases sw) (auto simp: bnd_def core_io_def std_exists_def ignored_def attempt_def split: prod.splits sum.splits)
    ultimately show ?thesis
      unfolding preserves_def using False by (metis fst_conv prod.collapse)
  qed
  show ?thesis
  proof (cases q)
    case (Inl x)
    then have "guarded L st p m (s, w) = ?rest x (t, w1)" using q by (simp add: guarded_def bnd_def attempt_def)
    then show ?thesis using e [of x] assms q Inl by auto
  next
    case (Inr x)
    then show ?thesis using assms q by (auto simp: guarded_def bnd_def attempt_def)
  qed
qed

context anchor_storage
begin

lemma accept_secure:
  assumes "st_backend st = SecureStorage" and "accept_state L C (Some S) st m p (s, w) = (r, (s', w'))"
    and "codec_ok anchor_typed (ac_object C)" and "metadata_sized m" and "hexlower_spec L"
  shows "let V = anchor_view L C st (peek s); V' = anchor_view L C st (peek s') in
     (is_ok r \<longrightarrow> w' = w \<and> acceptable V m \<and> V' = raised m V) \<and> (V' = V \<or> acceptable V m \<and> V' = raised m V) \<and>
     (p = [] \<longrightarrow> fs_get w' = fs_get w)"
proof -
  let ?V = "anchor_view L C st (peek s)"
  let ?body = "bnd (get_anchor L C (Some S) st (sm_object_type m) (sm_object_id m)) (\<lambda>a.
        bnd (case a of Some anchor \<Rightarrow> core (check_candidate anchor m) | None \<Rightarrow> ret True) (\<lambda>should_update.
          if should_update then put_anchor L C (Some S) st (from_metadata m) else ret ()))"
  have typed: "anchor_typed \<lparr>oa_version = OBJECT_ANCHOR_VERSION, oa_anchor = from_metadata m\<rparr>"
    using assms(4) by (simp add: anchor_typed_def metadata_sized_def from_metadata_def)
  have eq: "(\<lambda>ty oid. if same_object ty oid (from_metadata m) then Some (from_metadata m) else V ty oid) = raised m V" for V
    by (simp add: raised_def)
  from guarded_run [OF assms(2) [unfolded accept_state_def]] obtain w1 where
    b: "?body (s, w) = (r, (s', w1))" and k: "is_ok r \<longrightarrow> w' = w1" "p = [] \<longrightarrow> fs_get w' = fs_get w1" by blast
  obtain q t v where q: "get_anchor L C (Some S) st (sm_object_type m) (sm_object_id m) (s, w) = (q, (t, v))" by (metis prod_cases3)
  from get_anchor_secure [OF assms(1) q] have g: "v = w" "peek t = peek s" "\<And>a. q = Inr a \<Longrightarrow> a = ?V (sm_object_type m) (sm_object_id m)" by auto
  note put = put_anchor_secure [OF assms(1) _ assms(3) typed assms(5), unfolded eq]
  show ?thesis
  proof (cases q)
    case (Inl e)
    then show ?thesis using b q g k by (auto simp: Let_def)
  next
    case (Inr a)
    note a = g(3) [OF Inr, symmetric]
    show ?thesis
    proof (cases a)
      case None
      then have "put_anchor L C (Some S) st (from_metadata m) (t, w) = (r, (s', w1))" using b q Inr g(1) by simp
      from put [OF this] show ?thesis using k a None g(2) by (auto simp: Let_def acceptable_def)
    next
      case (Some anchor)
      show ?thesis
      proof (cases "check_candidate anchor m")
        case (Inl e)
        then show ?thesis using b q Inr Some g k by (auto simp: Let_def)
      next
        case newer: (Inr newer)
        show ?thesis
        proof (cases newer)
          case True
          then have "put_anchor L C (Some S) st (from_metadata m) (t, w) = (r, (s', w1))" using b q Inr g(1) Some newer by simp
          from put [OF this] show ?thesis using k a Some g(2) newer by (auto simp: Let_def acceptable_def)
        next
          case False
          then have "anchor = from_metadata m" using newer check_candidate_eq_False by auto
          then have "raised m ?V = ?V" using a Some by (intro raised_same) simp
          then show ?thesis using b q Inr g Some newer False k a by (auto simp: Let_def acceptable_def)
        qed
      qed
    qed
  qed
qed

lemma check_loaded_secure:
  assumes "st_backend st = SecureStorage" and "check_loaded_state L C (Some S) st m p (s, w) = (r, (s', w'))"
    and "codec_ok anchor_typed (ac_object C)" and "metadata_sized m" and "hexlower_spec L"
  shows "let V = anchor_view L C st (peek s); V' = anchor_view L C st (peek s') in
     (is_ok r \<longrightarrow> w' = w \<and> acceptable V m \<and> (V' = raised m V \<or> V (sm_object_type m) (sm_object_id m) = None \<and> V' = V)) \<and>
     (V' = V \<or> acceptable V m \<and> V' = raised m V)"
proof (cases "anchor_view L C st (peek s) (sm_object_type m) (sm_object_id m)")
  case None
  from guarded_run [OF assms(2) [unfolded check_loaded_state_def]] obtain w1 where
    b: "bnd (get_anchor L C (Some S) st (sm_object_type m) (sm_object_id m)) (\<lambda>a. case a of
            Some anchor \<Rightarrow> bnd (core (check_candidate anchor m)) (\<lambda>newer.
                if newer then put_anchor L C (Some S) st (from_metadata m) else ret ())
          | None \<Rightarrow> ret ()) (s, w) = (r, (s', w1))" and k: "is_ok r \<longrightarrow> w' = w1" by blast
  obtain q t v where q: "get_anchor L C (Some S) st (sm_object_type m) (sm_object_id m) (s, w) = (q, (t, v))" by (metis prod_cases3)
  from get_anchor_secure [OF assms(1) q] have "v = w" "peek t = peek s" "\<And>a. q = Inr a \<Longrightarrow> a = None" using None by auto
  then show ?thesis using b q k None by (cases q) (auto simp: Let_def acceptable_def)
next
  case (Some anchor)
  have "accept_state L C (Some S) st m p (s, w) = check_loaded_state L C (Some S) st m p (s, w)"
  proof -
    obtain q t v where q: "get_anchor L C (Some S) st (sm_object_type m) (sm_object_id m) (s, w) = (q, (t, v))" by (metis prod_cases3)
    from get_anchor_secure [OF assms(1) q] have "\<And>a. q = Inr a \<Longrightarrow> a = Some anchor" using Some by auto
    then have "bnd (get_anchor L C (Some S) st (sm_object_type m) (sm_object_id m)) (\<lambda>a.
        bnd (case a of Some anchor \<Rightarrow> core (check_candidate anchor m) | None \<Rightarrow> ret True) (\<lambda>should_update.
          if should_update then put_anchor L C (Some S) st (from_metadata m) else ret ())) (s, w)
      = bnd (get_anchor L C (Some S) st (sm_object_type m) (sm_object_id m)) (\<lambda>a. case a of
            Some anchor \<Rightarrow> bnd (core (check_candidate anchor m)) (\<lambda>newer.
                if newer then put_anchor L C (Some S) st (from_metadata m) else ret ())
          | None \<Rightarrow> ret ()) (s, w)"
      using q by (cases q) auto
    then show ?thesis by (simp add: accept_state_def check_loaded_state_def guarded_def bnd_def attempt_def)
  qed
  with accept_secure [OF assms(1) _ assms(3-5), of p s w r s' w'] assms(2) show ?thesis by (auto simp: Let_def)
qed

lemma check_transition_secure:
  assumes "st_backend st = SecureStorage" and "check_state_transition L C (Some S) st m (s, w) = (r, (s', w'))"
  shows "w' = w \<and> peek s' = peek s \<and> (is_ok r \<longrightarrow> acceptable (anchor_view L C st (peek s)) m)"
proof -
  obtain q t v where q: "get_anchor L C (Some S) st (sm_object_type m) (sm_object_id m) (s, w) = (q, (t, v))" by (metis prod_cases3)
  from get_anchor_secure [OF assms(1) q] have g: "v = w" "peek t = peek s"
    "\<And>a. q = Inr a \<Longrightarrow> a = anchor_view L C st (peek s) (sm_object_type m) (sm_object_id m)" by auto
  show ?thesis
  proof (cases q)
    case (Inl e)
    then show ?thesis using assms(2) q g by (auto simp: check_state_transition_def)
  next
    case (Inr a)
    note a = g(3) [OF Inr, symmetric]
    show ?thesis
    proof (cases a)
      case None
      then show ?thesis using assms(2) q g(1,2) Inr a by (auto simp: check_state_transition_def acceptable_def)
    next
      case (Some x)
      then show ?thesis using assms(2) q g(1,2) Inr a
        by (cases "check_candidate x m") (auto simp: check_state_transition_def acceptable_def)
    qed
  qed
qed

end

end
