(* ===== verification/Store_Objects.thy ===== *)
theory Store_Objects
  imports Store_Anchors Keys_Keystore Keys_Contacts V1_Container
begin

section \<open>Protected objects of the local store (store.rs)\<close>

text \<open>
  The keystore, the contact book and the registry of vaults: how the store writes and loads them
  under the rollback anchors, the explicit recovery of their legacy forms, and the unprotected
  preferences. The payloads of a container are serialized by codecs given as parameters.
\<close>

subsection \<open>Data\<close>

definition MAX_KEYSTORE_FILE_LEN :: u64 where "MAX_KEYSTORE_FILE_LEN = 16 * 1024 * 1024"
definition MAX_SELF_BLOB_CONTAINER_LEN :: nat where "MAX_SELF_BLOB_CONTAINER_LEN = 64 * 1024 * 1024"
definition MAX_SELF_BLOB_PLAINTEXT_LEN :: u64 where "MAX_SELF_BLOB_PLAINTEXT_LEN = 16 * 1024 * 1024"
definition PROTECTED_STATE_VERSION :: u16 where "PROTECTED_STATE_VERSION = 1"
definition REGISTRY_BLOB :: string where "REGISTRY_BLOB = ''registry''"
definition CONTACTS_BLOB :: string where "CONTACTS_BLOB = ''contacts''"
definition PREFS_FILE :: string where "PREFS_FILE = ''.prefs''"
definition MAX_PREFS_FILE_LEN :: u64 where "MAX_PREFS_FILE_LEN = 64 * 1024"
definition PREFS_VERSION :: u16 where "PREFS_VERSION = 1"

record 'p protected_state =
  pt_version :: u16
  pt_state :: state_metadata
  pt_payload :: 'p

record vault_meta =
  vm_id :: string
  vm_name :: string
  vm_created_at :: int
  vm_modified_at :: int
  vm_file_count :: u64
  vm_total_size :: u64

record registry =
  reg_vaults :: "vault_meta list"

definition registry_upsert :: "vault_meta \<Rightarrow> registry \<Rightarrow> registry" where
  "registry_upsert m self = self\<lparr>reg_vaults := replace_or_push (\<lambda>v. vm_id v = vm_id m) m (reg_vaults self)\<rparr>"

definition registry_remove :: "string \<Rightarrow> registry \<Rightarrow> registry" where
  "registry_remove oid self = self\<lparr>reg_vaults := filter (\<lambda>v. vm_id v \<noteq> oid) (reg_vaults self)\<rparr>"

datatype theme_choice = System | Light | Dark

record prefs =
  pf_version :: u16
  pf_theme :: theme_choice

definition prefs_default :: prefs where
  "prefs_default = \<lparr>pf_version = PREFS_VERSION, pf_theme = System\<rparr>"

text \<open>What the operations of a store are given: the libraries, the codecs, the secure storage and
  the feature of the build. The clock is the argument \<open>now\<close> of what reads it.\<close>

record store_codecs =
  sc_anchors :: anchor_codecs
  sc_keys :: keystore_codecs
  sc_v1 :: v1_codecs
  sc_contacts :: "contact_book codec"
  sc_contacts_state :: "contact_book protected_state codec"
  sc_registry :: "registry codec"
  sc_registry_state :: "registry protected_state codec"
  sc_prefs :: "prefs codec"

record 's store_env =
  env_lib :: lib
  env_pqc :: bool
  env_codecs :: store_codecs
  env_secure :: "'s secure_ops option"

definition self_suite :: "bool \<Rightarrow> identity \<Rightarrow> suite_id" where
  "self_suite pqc i = (if pqc \<and> id_mldsa i \<noteq> None \<and> id_mlkem i \<noteq> None then Hybrid else Classic)"

definition self_options :: "bool \<Rightarrow> identity \<Rightarrow> export_options" where
  "self_options pqc i = export_options_default\<lparr>eo_suite := self_suite pqc i\<rparr>"

abbreviation env_accept :: "'s store_env \<Rightarrow> store \<Rightarrow> state_metadata \<Rightarrow> string \<Rightarrow> ('s, unit) sop" where
  "env_accept E \<equiv> accept_state (env_lib E) (sc_anchors (env_codecs E)) (env_secure E)"

abbreviation env_commit :: "'s store_env \<Rightarrow> store \<Rightarrow> state_metadata \<Rightarrow> ('s, unit) sop" where
  "env_commit E \<equiv> commit_state (env_lib E) (sc_anchors (env_codecs E)) (env_secure E)"

subsection \<open>The keystore\<close>

definition keystore_exists :: "store \<Rightarrow> ('s, bool) sop" where
  "keystore_exists st = core_io (std_exists (keystore_path st))"

definition save_keystore :: "'s store_env \<Rightarrow> store \<Rightarrow> inner \<Rightarrow> ('s, unit) sop" where
  "save_keystore E st ks =
     bnd (lift (ok_or (Msg ''legacy keystore must be recovered before it can be saved'') (ks_state_metadata ks))) (\<lambda>state.
     bnd (check_state_transition (env_lib E) (sc_anchors (env_codecs E)) (env_secure E) st state) (\<lambda>_.
     bnd (core (ks_to_bytes (env_lib E) (sc_keys (env_codecs E)) ks)) (\<lambda>b.
     bnd (write_private_atomic (env_lib E) (keystore_path st) b) (\<lambda>_.
     bnd (core_io (harden_file (keystore_path st))) (\<lambda>_.
       env_commit E st state)))))"

definition load_keystore :: "'s store_env \<Rightarrow> store \<Rightarrow> ('s, inner) sop" where
  "load_keystore E st =
     bnd (read_bounded_store_file (keystore_path st) MAX_KEYSTORE_FILE_LEN ''keystore file'') (\<lambda>b.
     bnd (core (ks_from_bytes (env_lib E) (sc_keys (env_codecs E)) b)) (\<lambda>ks.
     bnd (lift (ok_or (Msg ''keystore has no rollback-protection metadata'') (ks_state_metadata ks))) (\<lambda>state.
     bnd (check_loaded_state (env_lib E) (sc_anchors (env_codecs E)) (env_secure E) st state (keystore_path st)) (\<lambda>_.
       ret ks))))"

definition confirm_unlocked_keystore :: "'s store_env \<Rightarrow> store \<Rightarrow> inner \<Rightarrow> identity \<Rightarrow> ('s, unit) sop" where
  "confirm_unlocked_keystore E st ks i =
     bnd (lift (ok_or (Msg ''keystore has no rollback-protection metadata'') (ks_state_metadata ks))) (\<lambda>state.
       if sm_identity_fingerprint state \<noteq> id_fingerprint (env_lib E) i
       then throw (Msg ''the unlocked identity does not match the keystore'')
       else env_accept E st state (keystore_path st))"

definition recover_legacy_keystore :: "'s store_env \<Rightarrow> store \<Rightarrow> bytes \<Rightarrow> ('s, inner) sop" where
  "recover_legacy_keystore E st passphrase =
     bnd (read_bounded_store_file (keystore_path st) MAX_KEYSTORE_FILE_LEN ''keystore file'') (\<lambda>b.
     bnd (core_io (ks_recover_legacy (env_lib E) (env_pqc E) (sc_keys (env_codecs E)) b passphrase)) (\<lambda>ks.
     bnd (save_keystore E st ks) (\<lambda>_. ret ks)))"

subsection \<open>Self-encrypted blobs\<close>

text \<open>A core operation with a state of its own, created here.\<close>

definition save_blob :: "'s store_env \<Rightarrow> int \<Rightarrow> identity \<Rightarrow> string \<Rightarrow> string \<Rightarrow> bytes \<Rightarrow> ('s, unit) sop" where
  "save_blob E now i path name b =
     (case add_file name b None None (vault_new name now) of
        (Inl e, _) \<Rightarrow> throw (Shown e)
      | (Inr _, v) \<Rightarrow>
          bnd (core_io (export_vault_to_path (env_lib E) (sc_v1 (env_codecs E)) v i [id_public (env_lib E) i]
                 (self_options (env_pqc E) i) path)) (\<lambda>_.
          core_io (harden_file path)))"

definition load_blob :: "'s store_env \<Rightarrow> identity \<Rightarrow> string \<Rightarrow> string \<Rightarrow> ('s, (bytes \<times> suite_id) option) sop" where
  "load_blob E i path name =
     bnd (core_io (std_exists path)) (\<lambda>there.
       if \<not> there then ret None
       else
         bnd (reject_oversized_file path MAX_SELF_BLOB_CONTAINER_LEN ''stored metadata file'') (\<lambda>_.
         bnd (core_io (open_vault_from_path (env_lib E) (env_pqc E) (sc_v1 (env_codecs E)) path i)) (\<lambda>reader.
         bnd (lift (ok_or (Msg ''stored blob is missing its entry'')
                (find (\<lambda>e. en_path e = name \<and> en_kind e = File) (vr_entries reader)))) (\<lambda>e.
           if en_size e > MAX_SELF_BLOB_PLAINTEXT_LEN then throw (Msg ''stored metadata blob is too large'')
           else
             bnd (core_io (vr_read_entry (env_lib E) reader name)) (\<lambda>b.
               ret (Some (b, vr_suite reader)))))))"

definition save_protected_blob ::
  "'s store_env \<Rightarrow> store \<Rightarrow> int \<Rightarrow> 'p codec \<Rightarrow> 'p protected_state codec \<Rightarrow> identity \<Rightarrow> string \<Rightarrow> string \<Rightarrow>
     state_object_type \<Rightarrow> string \<Rightarrow> 'p \<Rightarrow> ('s, unit) sop" where
  "save_protected_blob E st now CP CS i path entry_name ty oid payload =
     bnd (core (to_vec CP payload)) (\<lambda>payload_bytes.
     bnd (current_anchor (env_lib E) (sc_anchors (env_codecs E)) (env_secure E) st (id_fingerprint (env_lib E) i) ty oid) (\<lambda>previous.
     bnd (core (sm_next (env_lib E) (id_fingerprint (env_lib E) i) ty oid (to_u16 (self_suite (env_pqc E) i)) previous payload_bytes)) (\<lambda>state.
     bnd (core (to_vec CS \<lparr>pt_version = PROTECTED_STATE_VERSION, pt_state = state, pt_payload = payload\<rparr>)) (\<lambda>b.
     bnd (save_blob E now i path entry_name b) (\<lambda>_.
       env_commit E st state)))))"

definition read_protected_record ::
  "'s store_env \<Rightarrow> 'p codec \<Rightarrow> 'p protected_state codec \<Rightarrow> identity \<Rightarrow> string \<Rightarrow> string \<Rightarrow>
     state_object_type \<Rightarrow> string \<Rightarrow> ('s, 'p protected_state option) sop" where
  "read_protected_record E CP CS i path entry_name ty oid =
     bnd (load_blob E i path entry_name) (\<lambda>m.
       case m of
         None \<Rightarrow> ret None
       | Some (b, suite) \<Rightarrow>
           (case from_slice CS b of
              Inl _ \<Rightarrow>
                if is_ok (from_slice CP b)
                then throw (Msg (''legacy '' @ object_type_display ty @ '' state requires explicit recovery''))
                else throw (Msg (''malformed protected '' @ object_type_display ty @ '' state''))
            | Inr record \<Rightarrow>
                if pt_version record \<noteq> PROTECTED_STATE_VERSION
                   \<or> sm_identity_fingerprint (pt_state record) \<noteq> id_fingerprint (env_lib E) i
                   \<or> sm_object_type (pt_state record) \<noteq> ty
                   \<or> sm_object_id (pt_state record) \<noteq> oid
                   \<or> sm_suite_id (pt_state record) \<noteq> to_u16 suite
                then throw (Msg (''state-anchor mismatch for '' @ state_label ty oid))
                else
                  bnd (core (to_vec CP (pt_payload record))) (\<lambda>payload_bytes.
                  bnd (core (verify_payload (env_lib E) (pt_state record) payload_bytes)) (\<lambda>_.
                    ret (Some record)))))"

definition load_protected_blob ::
  "'s store_env \<Rightarrow> store \<Rightarrow> 'p codec \<Rightarrow> 'p protected_state codec \<Rightarrow> identity \<Rightarrow> string \<Rightarrow> string \<Rightarrow>
     state_object_type \<Rightarrow> string \<Rightarrow> ('s, 'p option) sop" where
  "load_protected_blob E st CP CS i path entry_name ty oid =
     bnd (attempt (read_protected_record E CP CS i path entry_name ty oid)) (\<lambda>r.
       case r of
         Inl e \<Rightarrow>
           bnd (if shows_mismatch e then ignored (quarantine (env_lib E) st path) else ret ()) (\<lambda>_. throw e)
       | Inr None \<Rightarrow> ret None
       | Inr (Some record) \<Rightarrow>
           bnd (env_accept E st (pt_state record) path) (\<lambda>_.
             ret (Some (pt_payload record))))"

subsection \<open>Contacts, the registry and the preferences\<close>

definition load_contacts :: "'s store_env \<Rightarrow> store \<Rightarrow> identity \<Rightarrow> ('s, contact_book) sop" where
  "load_contacts E st i =
     bnd (load_protected_blob E st (sc_contacts (env_codecs E)) (sc_contacts_state (env_codecs E)) i (contacts_path st)
            CONTACTS_BLOB Contacts ''contacts'') (\<lambda>m.
       ret (case m of Some book \<Rightarrow> book | None \<Rightarrow> \<lparr>cb_contacts = []\<rparr>))"

definition save_contacts :: "'s store_env \<Rightarrow> store \<Rightarrow> int \<Rightarrow> identity \<Rightarrow> contact_book \<Rightarrow> ('s, unit) sop" where
  "save_contacts E st now i book =
     save_protected_blob E st now (sc_contacts (env_codecs E)) (sc_contacts_state (env_codecs E)) i (contacts_path st)
       CONTACTS_BLOB Contacts ''contacts'' book"

definition load_registry :: "'s store_env \<Rightarrow> store \<Rightarrow> identity \<Rightarrow> ('s, registry) sop" where
  "load_registry E st i =
     bnd (load_protected_blob E st (sc_registry (env_codecs E)) (sc_registry_state (env_codecs E)) i (index_path st)
            REGISTRY_BLOB Registry ''registry'') (\<lambda>m.
       ret (case m of Some reg \<Rightarrow> reg | None \<Rightarrow> \<lparr>reg_vaults = []\<rparr>))"

definition save_registry :: "'s store_env \<Rightarrow> store \<Rightarrow> int \<Rightarrow> identity \<Rightarrow> registry \<Rightarrow> ('s, unit) sop" where
  "save_registry E st now i reg =
     save_protected_blob E st now (sc_registry (env_codecs E)) (sc_registry_state (env_codecs E)) i (index_path st)
       REGISTRY_BLOB Registry ''registry'' reg"

definition recover_legacy_contacts :: "'s store_env \<Rightarrow> store \<Rightarrow> int \<Rightarrow> identity \<Rightarrow> ('s, contact_book) sop" where
  "recover_legacy_contacts E st now i =
     bnd (load_blob E i (contacts_path st) CONTACTS_BLOB) (\<lambda>m.
     bnd (case m of
            Some (b, _) \<Rightarrow> core (cb_from_bytes (sc_contacts (env_codecs E)) b)
          | None \<Rightarrow> ret \<lparr>cb_contacts = []\<rparr>) (\<lambda>book.
     bnd (save_contacts E st now i book) (\<lambda>_. ret book)))"

definition recover_legacy_registry :: "'s store_env \<Rightarrow> store \<Rightarrow> int \<Rightarrow> identity \<Rightarrow> ('s, registry) sop" where
  "recover_legacy_registry E st now i =
     bnd (load_blob E i (index_path st) REGISTRY_BLOB) (\<lambda>m.
     bnd (case m of
            Some (b, _) \<Rightarrow> core (from_slice (sc_registry (env_codecs E)) b)
          | None \<Rightarrow> ret \<lparr>reg_vaults = []\<rparr>) (\<lambda>reg.
     bnd (save_registry E st now i reg) (\<lambda>_. ret reg)))"

definition prefs_path :: "store \<Rightarrow> string" where "prefs_path st = path_join (st_data_dir st) PREFS_FILE"

text \<open>Infallible.\<close>

definition load_prefs :: "'s store_env \<Rightarrow> store \<Rightarrow> ('s, prefs) sop" where
  "load_prefs E st =
     bnd (core_io (std_exists (prefs_path st))) (\<lambda>there.
       if \<not> there then ret prefs_default
       else
         bnd (attempt (read_bounded_store_file (prefs_path st) MAX_PREFS_FILE_LEN ''preferences file'')) (\<lambda>r.
           case r of
             Inl _ \<Rightarrow> ret prefs_default
           | Inr b \<Rightarrow>
               ret (case from_slice (sc_prefs (env_codecs E)) b of
                      Inr p \<Rightarrow> if pf_version p = PREFS_VERSION then p else prefs_default
                    | Inl _ \<Rightarrow> prefs_default)))"

definition save_prefs :: "'s store_env \<Rightarrow> store \<Rightarrow> prefs \<Rightarrow> ('s, unit) sop" where
  "save_prefs E st p =
     bnd (core (to_vec (sc_prefs (env_codecs E)) p)) (\<lambda>b.
       write_private_atomic (env_lib E) (prefs_path st) b)"

end
