(* ===== verification/Store_Rollback.thy ===== *)
theory Store_Rollback
  imports Store_Objects Keys_Unlock
begin

section \<open>The keystore under its anchor\<close>

text \<open>
  What saving, loading and confirming the keystore do to its file and to the anchors, when the
  anchors are in the secure storage; from that, that the keystores a store accepts only move
  forward whatever happens to the data directory, and that an interrupted save leaves a keystore
  that loads.
\<close>

subsection \<open>Private writes\<close>

lemma with_writer_bnd: "with_writer L path body (\<lambda>sw. bnd (fin sw) g) = bnd (with_writer L path body fin) g"
  unfolding with_writer_def bnd_assoc
  by (intro arg_cong2 [where f = bnd] refl ext) (auto simp: bnd_def split: prod.splits sum.splits)

lemma write_private_files:
  assumes "write_private_atomic L p b (s, w) = (r, (s', w'))" and "rng_fills w" and "hexlower_spec L"
    and "\<not> is_safe_writer_temp (path_file_name p)"
  shows "s' = s \<and>
    (is_ok r \<and> fs_get w' = (fs_get w)(p \<mapsto> FileNode b) \<or> \<not> is_ok r \<and> fs_get w' p = fs_get w p)"
proof -
  have e: "with_writer L p (\<lambda>w. sw_write_all w b) sw_commit = bnd (write_atomic L p b) (\<lambda>_. ret ())"
    unfolding write_atomic_def with_writer_bnd [symmetric] by (simp add: sw_commit_def [abs_def])
  obtain q w1 where q: "write_atomic L p b w = (q, w1)" by force
  have "s' = s" "w' = w1" "is_ok r = is_ok q"
    using assms(1) q by (cases q; auto simp: write_private_atomic_def write_private_export_def e core_io_eq bnd_def)+
  moreover have "is_ok q \<and> fs_get w1 = (fs_get w)(p \<mapsto> FileNode b) \<or> \<not> is_ok q \<and> fs_get w1 p = fs_get w p"
    using write_atomic_files [OF q assms(2)]
  proof (elim disjE exE conjE)
    fix e sfx x
    assume e: "q = Inl e"
      and t: "let tmp = path_join (parent_or_dot p) (temp_name L sfx) in
           length sfx = 8 \<and> fs_get w tmp = None \<and> fs_get w1 = (fs_get w)(tmp \<mapsto> FileNode x)"
    have "is_safe_writer_temp (path_file_name (path_join (parent_or_dot p) (temp_name L sfx)))"
      using temp_name_shape [OF assms(3), of sfx] t by (simp add: path_file_name_join Let_def)
    then have "p \<noteq> path_join (parent_or_dot p) (temp_name L sfx)" using assms(4) by auto
    then show ?thesis using e t by (auto simp: Let_def)
  qed auto
  ultimately show ?thesis by simp
qed

lemma keystore_name: "\<not> is_safe_writer_temp (path_file_name (keystore_path st))"
proof -
  have "path_file_name (keystore_path st) = ''keystore.fsk''"
    unfolding keystore_path_def KEYSTORE_FILE_def by (rule path_file_name_join) simp
  then show ?thesis by (simp add: is_safe_writer_temp_def strip_prefix_def)
qed

lemma harden_file_files: "harden_file p w = (r, w') \<Longrightarrow> r = Inr () \<and> fs_get w' = fs_get w"
  by (auto simp: harden_file_def bnd_eq attempt_eq syscall_eq Let_def split: option.splits)

subsection \<open>States of keystores\<close>

lemma verified_state:
  assumes "v3_verify L C v3 = Inr ()" and "blake3_lengths L"
  shows "sm_object_type (k3_state v3) = Keystore \<and> sm_object_id (k3_state v3) = KEYSTORE_ID \<and> metadata_sized (k3_state v3)"
  using assms
  by (auto simp: v3_verify_def rbind_eq_Inr metadata_sized_def fingerprint_def verify_payload_def expected_hash_eq
      blake3_lengthsD(1) split: if_splits)

lemma to_bytes_state:
  assumes "ks_to_bytes L C ks = Inr b" and "ks_state_metadata ks = Some m" and "blake3_lengths L"
  shows "sm_object_type m = Keystore \<and> sm_object_id m = KEYSTORE_ID \<and> metadata_sized m"
  using assms verified_state [OF _ assms(3)] by (cases ks) (auto simp: ks_to_bytes_def ks_state_metadata_def rbind_eq_Inr)

lemma from_bytes_state:
  assumes "ks_from_bytes L C b = Inr ks" and "blake3_lengths L"
  obtains m where "ks_state_metadata ks = Some m" "sm_object_type m = Keystore" "sm_object_id m = KEYSTORE_ID" "metadata_sized m"
  using assms verified_state [OF _ assms(2)]
  by (auto simp: ks_from_bytes_def rbind_eq_Inr Let_def ks_state_metadata_def split: if_splits)

subsection \<open>The operations\<close>

locale secure_store = anchor_storage S peek for S :: "'s secure_ops" and peek :: "'s \<Rightarrow> string \<Rightarrow> bytes option" +
  fixes E :: "'s store_env" and st :: store
  assumes secure: "env_secure E = Some S" "st_backend st = SecureStorage"
    and object_codec: "codec_ok anchor_typed (ac_object (sc_anchors (env_codecs E)))"
    and hashes: "blake3_lengths (env_lib E)" and hex: "hexlower_spec (env_lib E)"
begin

abbreviation V :: "'s \<Rightarrow> anchor_table" where
  "V s \<equiv> anchor_view (env_lib E) (sc_anchors (env_codecs E)) st (peek s)"

lemma accepted:
  assumes "env_accept E st m p (s, w) = (r, (s', w'))" and "metadata_sized m"
  shows "(is_ok r \<longrightarrow> w' = w \<and> acceptable (V s) m \<and> V s' = raised m (V s)) \<and>
    (V s' = V s \<or> acceptable (V s) m \<and> V s' = raised m (V s)) \<and> (p = [] \<longrightarrow> fs_get w' = fs_get w)"
  using accept_secure [OF secure(2) assms(1) [unfolded secure(1)] object_codec assms(2) hex] by (simp add: Let_def)

lemma save_keystore_run:
  assumes "save_keystore E st ks (s, w) = (r, (s', w'))" and "rng_fills w"
  shows "\<not> is_ok r \<and> V s' = V s \<and> fs_get w' (keystore_path st) = fs_get w (keystore_path st) \<or>
    (\<exists>m b. ks_state_metadata ks = Some m \<and> ks_to_bytes (env_lib E) (sc_keys (env_codecs E)) ks = Inr b \<and>
       sm_object_type m = Keystore \<and> sm_object_id m = KEYSTORE_ID \<and> acceptable (V s) m \<and>
       fs_get w' (keystore_path st) = Some (FileNode b) \<and>
       (V s' = raised m (V s) \<or> \<not> is_ok r \<and> V s' = V s))"
proof (cases "ks_state_metadata ks")
  case None
  then show ?thesis using assms(1) by (auto simp: save_keystore_def)
next
  case (Some m)
  obtain q s1 w1 where q: "check_state_transition (env_lib E) (sc_anchors (env_codecs E)) (Some S) st m (s, w) = (q, (s1, w1))"
    by (metis prod_cases3)
  note t = check_transition_secure [OF secure(2) q]
  show ?thesis
  proof (cases q)
    case (Inl e)
    then have "r = Inl e" "s' = s1" "w' = w1" using assms(1) q Some by (auto simp: save_keystore_def secure(1))
    then show ?thesis using t by simp
  next
    case (Inr u)
    show ?thesis
    proof (cases "ks_to_bytes (env_lib E) (sc_keys (env_codecs E)) ks")
      case (Inl e)
      then have "r = Inl (Shown e)" "s' = s1" "w' = w1"
        using assms(1) q Some \<open>q = Inr u\<close> by (auto simp: save_keystore_def secure(1))
      then show ?thesis using t by simp
    next
      case bytes: (Inr b)
      note m = to_bytes_state [OF bytes Some hashes]
      obtain q2 s2 w2 where q2: "write_private_atomic (env_lib E) (keystore_path st) b (s1, w1) = (q2, (s2, w2))" by (metis prod_cases3)
      have "rng_fills w1" using t assms(2) by simp
      note f = write_private_files [OF q2 this hex keystore_name]
      show ?thesis
      proof (cases q2)
        case (Inl e)
        then have "r = Inl e" "s' = s2" "w' = w2"
          using assms(1) q Some \<open>q = Inr u\<close> bytes q2 by (auto simp: save_keystore_def secure(1))
        then show ?thesis using t f Inl by simp
      next
        case written: (Inr u2)
        obtain q3 w3 where q3: "harden_file (keystore_path st) w2 = (q3, w3)" by force
        note h = harden_file_files [OF q3]
        have "env_accept E st m [] (s2, w3) = (r, (s', w'))"
          using assms(1) q Some \<open>q = Inr u\<close> bytes q2 written q3 h
          by (simp add: save_keystore_def secure(1) core_io_def commit_state_def)
        note a = accepted [OF this m [THEN conjunct2, THEN conjunct2]]
        have "fs_get w' (keystore_path st) = Some (FileNode b)"
          using f h written a by simp
        then show ?thesis using Some bytes m t f written a \<open>q = Inr u\<close> by (auto simp: Let_def)
      qed
    qed
  qed
qed

lemma load_keystore_run:
  assumes "load_keystore E st (s, w) = (r, (s', w'))"
  shows "(V s' = V s \<or> (\<exists>m. sm_object_type m = Keystore \<and> sm_object_id m = KEYSTORE_ID \<and> acceptable (V s) m \<and> V s' = raised m (V s))) \<and>
    (\<forall>ks. r = Inr ks \<longrightarrow> (\<exists>m. ks_state_metadata ks = Some m \<and> sm_object_type m = Keystore \<and> sm_object_id m = KEYSTORE_ID \<and>
       acceptable (V s) m \<and> (V s' = raised m (V s) \<or> V s Keystore KEYSTORE_ID = None \<and> V s' = V s)))"
proof -
  obtain q s1 w1 where q: "read_bounded_store_file (keystore_path st) MAX_KEYSTORE_FILE_LEN ''keystore file'' (s, w) = (q, (s1, w1))"
    by (metis prod_cases3)
  have s1: "s1 = s" using q by (auto simp: read_bounded_store_file_def split: prod.splits)
  show ?thesis
  proof (cases q)
    case (Inl e)
    then show ?thesis using assms q s1 by (auto simp: load_keystore_def)
  next
    case (Inr b)
    show ?thesis
    proof (cases "ks_from_bytes (env_lib E) (sc_keys (env_codecs E)) b")
      case (Inl e)
      then show ?thesis using assms q s1 Inr by (auto simp: load_keystore_def)
    next
      case ks: (Inr ks)
      from from_bytes_state [OF ks hashes] obtain m where m: "ks_state_metadata ks = Some m" "sm_object_type m = Keystore"
        "sm_object_id m = KEYSTORE_ID" "metadata_sized m" .
      obtain q2 s2 w2 where q2: "check_loaded_state (env_lib E) (sc_anchors (env_codecs E)) (Some S) st m (keystore_path st) (s, w1) = (q2, (s2, w2))"
        by (metis prod_cases3)
      note c = check_loaded_secure [OF secure(2) q2 object_codec m(4) hex]
      show ?thesis using assms q s1 Inr ks m c q2
        by (cases q2) (auto simp: load_keystore_def secure(1) Let_def)
    qed
  qed
qed

lemma confirm_keystore_run:
  assumes "confirm_unlocked_keystore E st ks i (s, w) = (r, (s', w'))" and "ks_state_metadata ks = Some m" and "metadata_sized m"
  shows "(V s' = V s \<or> acceptable (V s) m \<and> V s' = raised m (V s)) \<and> (is_ok r \<longrightarrow> acceptable (V s) m \<and> V s' = raised m (V s))"
proof (cases "sm_identity_fingerprint m = id_fingerprint (env_lib E) i")
  case False
  then show ?thesis using assms by (auto simp: confirm_unlocked_keystore_def)
next
  case True
  then have "env_accept E st m (keystore_path st) (s, w) = (r, (s', w'))" using assms by (simp add: confirm_unlocked_keystore_def)
  from accepted [OF this assms(3)] show ?thesis by auto
qed

end

subsection \<open>Everything that can happen to the keystore\<close>

text \<open>
  The application saves, loads and confirms keystores; between any two steps the data directory
  may be replaced by whatever an attacker likes, and the store may work on other objects.
  \<open>Kept\<close> are the states that were saved or confirmed, \<open>Loaded\<close> those that were loaded.
\<close>

datatype keystore_event = Kept state_metadata | Loaded state_metadata

inductive keystore_run ::
  "'s store_env \<Rightarrow> store \<Rightarrow> ('s \<Rightarrow> anchor_table) \<Rightarrow> 's \<times> world \<Rightarrow> keystore_event list \<Rightarrow> 's \<times> world \<Rightarrow> bool"
  for E :: "'s store_env" and st :: store and view :: "'s \<Rightarrow> anchor_table" and start :: "'s \<times> world" where
  begun: "keystore_run E st view start [] start"
| saved: "keystore_run E st view start es (s, w) \<Longrightarrow> rng_fills w \<Longrightarrow> save_keystore E st ks (s, w) = (Inr (), sw) \<Longrightarrow>
    ks_state_metadata ks = Some m \<Longrightarrow> keystore_run E st view start (es @ [Kept m]) sw"
| save_failed: "keystore_run E st view start es (s, w) \<Longrightarrow> rng_fills w \<Longrightarrow> save_keystore E st ks (s, w) = (Inl e, sw) \<Longrightarrow>
    keystore_run E st view start es sw"
| loaded: "keystore_run E st view start es (s, w) \<Longrightarrow> load_keystore E st (s, w) = (Inr ks, sw) \<Longrightarrow>
    ks_state_metadata ks = Some m \<Longrightarrow> keystore_run E st view start (es @ [Loaded m]) sw"
| load_failed: "keystore_run E st view start es (s, w) \<Longrightarrow> load_keystore E st (s, w) = (Inl e, sw) \<Longrightarrow>
    keystore_run E st view start es sw"
| confirmed: "keystore_run E st view start es (s, w) \<Longrightarrow> confirm_unlocked_keystore E st ks i (s, w) = (Inr (), sw) \<Longrightarrow>
    ks_state_metadata ks = Some m \<Longrightarrow> sm_object_type m = Keystore \<Longrightarrow> sm_object_id m = KEYSTORE_ID \<Longrightarrow> metadata_sized m \<Longrightarrow>
    keystore_run E st view start (es @ [Kept m]) sw"
| confirm_failed: "keystore_run E st view start es (s, w) \<Longrightarrow> confirm_unlocked_keystore E st ks i (s, w) = (Inl e, sw) \<Longrightarrow>
    ks_state_metadata ks = Some m \<Longrightarrow> sm_object_type m = Keystore \<Longrightarrow> sm_object_id m = KEYSTORE_ID \<Longrightarrow> metadata_sized m \<Longrightarrow>
    keystore_run E st view start es sw"
| tampered: "keystore_run E st view start es (s, w) \<Longrightarrow> keystore_run E st view start es (s, w')"
| elsewhere: "keystore_run E st view start es (s, w) \<Longrightarrow> view s' Keystore KEYSTORE_ID = view s Keystore KEYSTORE_ID \<Longrightarrow>
    keystore_run E st view start es (s', w')"

definition above :: "state_metadata \<Rightarrow> state_anchor \<Rightarrow> bool" where
  "above m a \<longleftrightarrow>
     sa_identity_fingerprint a = sm_identity_fingerprint m \<and> sm_epoch m \<le> sa_epoch a \<and>
     (sa_epoch a = sm_epoch m \<longrightarrow> sa_current_state_hash a = sm_current_state_hash m)"

lemma above_self: "above m (from_metadata m)"
  by (simp add: above_def from_metadata_def)

lemma above_accepted:
  assumes "above m a" and "check_candidate a m' = Inr newer"
  shows "above m (from_metadata m')"
proof (cases newer)
  case True
  then have c: "sa_identity_fingerprint a = sm_identity_fingerprint m'" "unat (sm_epoch m') = unat (sa_epoch a) + 1"
    using assms(2) check_candidate_eq_True by auto
  then have "sa_epoch a < sm_epoch m'" by (simp add: word_less_nat_alt)
  then show ?thesis using assms(1) c(1) by (auto simp: above_def from_metadata_def)
next
  case False
  then have "from_metadata m' = a" using assms(2) check_candidate_eq_False by auto
  then show ?thesis using assms(1) by simp
qed

lemma kept_mem: "es ! i = Kept x \<Longrightarrow> i < length es \<Longrightarrow> Kept x \<in> set es"
  by (metis nth_mem)

fun event_state :: "keystore_event \<Rightarrow> state_metadata" where
  "event_state (Kept m) = m"
| "event_state (Loaded m) = m"

context secure_store
begin

text \<open>What a step does to the keystore's anchor.\<close>

abbreviation anchored :: "'s \<Rightarrow> state_anchor option" where
  "anchored s \<equiv> V s Keystore KEYSTORE_ID"

lemma raise_anchored:
  assumes "acceptable (V s) m" and "sm_object_type m = Keystore" and "sm_object_id m = KEYSTORE_ID" and "V s' = raised m (V s)"
  shows "anchored s' = Some (from_metadata m) \<and> (\<forall>x. (\<exists>a. anchored s = Some a \<and> above x a) \<longrightarrow> above x (from_metadata m))"
proof -
  have "anchored s' = Some (from_metadata m)"
    using raised_at [of m "V s"] assms(2-4) by simp
  moreover have "above x (from_metadata m)" if "anchored s = Some a" "above x a" for x a
    using that assms(1-3) above_accepted by (auto simp: acceptable_def is_ok_iff)
  ultimately show ?thesis by blast
qed

lemma accepted_above:
  assumes "acceptable (V s) m" and "sm_object_type m = Keystore" and "sm_object_id m = KEYSTORE_ID"
    and "anchored s = Some a" and "above x a"
  shows "above x (from_metadata m)"
  using assms above_accepted by (auto simp: acceptable_def is_ok_iff)

lemma keystore_run_invariant:
  assumes "keystore_run E st V start es sw"
  shows "(\<forall>x. Kept x \<in> set es \<longrightarrow> (\<exists>a. anchored (fst sw) = Some a \<and> above x a)) \<and>
    (\<forall>i j x. i < j \<longrightarrow> j < length es \<longrightarrow> es ! i = Kept x \<longrightarrow> above x (from_metadata (event_state (es ! j))))"
  using assms
proof (induction rule: keystore_run.induct)
  case begun
  then show ?case by simp
next
  case (saved es s w ks sw m)
  obtain s' w' where sw: "sw = (s', w')" by force
  have a: "acceptable (V s) m" "sm_object_type m = Keystore" "sm_object_id m = KEYSTORE_ID" "V s' = raised m (V s)"
    using save_keystore_run [OF saved.hyps(3) [unfolded sw] saved.hyps(2)] saved.hyps(4) by auto
  from raise_anchored [OF a] have "\<forall>x. Kept x \<in> set es \<longrightarrow> above x (from_metadata m)" "anchored s' = Some (from_metadata m)"
    using saved.IH by auto
  then show ?case using saved.IH above_self sw by (auto simp: nth_append less_Suc_eq dest: kept_mem)
next
  case (save_failed es s w ks e sw)
  obtain s' w' where sw: "sw = (s', w')" by force
  from save_keystore_run [OF save_failed.hyps(3) [unfolded sw] save_failed.hyps(2)]
  consider "V s' = V s" | m where "acceptable (V s) m" "sm_object_type m = Keystore" "sm_object_id m = KEYSTORE_ID" "V s' = raised m (V s)"
    by auto
  then show ?case
  proof cases
    case 1
    then show ?thesis using save_failed.IH sw by simp
  next
    case 2
    from raise_anchored [OF this] show ?thesis using save_failed.IH sw by auto
  qed
next
  case (loaded es s w ks sw m)
  obtain s' w' where sw: "sw = (s', w')" by force
  from load_keystore_run [OF loaded.hyps(2) [unfolded sw]] loaded.hyps(3)
  have a: "acceptable (V s) m" "sm_object_type m = Keystore" "sm_object_id m = KEYSTORE_ID"
    and v: "V s' = raised m (V s) \<or> anchored s = None \<and> V s' = V s" by auto
  have up: "above x (from_metadata m)" if "Kept x \<in> set es" for x
    using accepted_above [OF a] loaded.IH that by auto
  from v have "\<forall>x. Kept x \<in> set es \<longrightarrow> (\<exists>a. anchored s' = Some a \<and> above x a)"
  proof
    assume "V s' = raised m (V s)"
    from raise_anchored [OF a this] up show ?thesis by auto
  next
    assume "anchored s = None \<and> V s' = V s"
    then show ?thesis using loaded.IH by auto
  qed
  then show ?case using loaded.IH up sw by (auto simp: nth_append less_Suc_eq dest: kept_mem)
next
  case (load_failed es s w e sw)
  obtain s' w' where sw: "sw = (s', w')" by force
  from load_keystore_run [OF load_failed.hyps(2) [unfolded sw]]
  consider "V s' = V s" | m where "acceptable (V s) m" "sm_object_type m = Keystore" "sm_object_id m = KEYSTORE_ID" "V s' = raised m (V s)"
    by auto
  then show ?case
  proof cases
    case 1
    then show ?thesis using load_failed.IH sw by simp
  next
    case 2
    from raise_anchored [OF this] show ?thesis using load_failed.IH sw by auto
  qed
next
  case (confirmed es s w ks i sw m)
  obtain s' w' where sw: "sw = (s', w')" by force
  have a: "acceptable (V s) m" "V s' = raised m (V s)"
    using confirm_keystore_run [OF confirmed.hyps(2) [unfolded sw] confirmed.hyps(3,6)] by auto
  from raise_anchored [OF a(1) confirmed.hyps(4,5) a(2)]
  have "\<forall>x. Kept x \<in> set es \<longrightarrow> above x (from_metadata m)" "anchored s' = Some (from_metadata m)"
    using confirmed.IH by auto
  then show ?case using confirmed.IH above_self sw by (auto simp: nth_append less_Suc_eq dest: kept_mem)
next
  case (confirm_failed es s w ks i e sw m)
  obtain s' w' where sw: "sw = (s', w')" by force
  from confirm_keystore_run [OF confirm_failed.hyps(2) [unfolded sw] confirm_failed.hyps(3,6)]
  consider "V s' = V s" | "acceptable (V s) m" "V s' = raised m (V s)" by auto
  then show ?case
  proof cases
    case 1
    then show ?thesis using confirm_failed.IH sw by simp
  next
    case 2
    from raise_anchored [OF 2(1) confirm_failed.hyps(4,5) 2(2)] show ?thesis using confirm_failed.IH sw by auto
  qed
next
  case (tampered es s w w')
  then show ?case by simp
next
  case (elsewhere es s w s' w')
  then show ?case by simp
qed

end

subsection \<open>Loading after an interruption\<close>

text \<open>A storage that is up answers every call, and stays up; the records of anchors fit in it.\<close>

definition storage_answers :: "'s secure_ops \<Rightarrow> ('s \<Rightarrow> bool) \<Rightarrow> bool" where
  "storage_answers S up \<longleftrightarrow>
     (\<forall>k t. up t \<longrightarrow> (\<exists>v t'. so_load S k t = (Inr v, t') \<and> up t')) \<and>
     (\<forall>k b t. up t \<and> length b \<le> MAX_SECURE_ANCHOR_RECORD \<longrightarrow> (\<exists>t'. so_save S k b t = (Inr (), t') \<and> up t'))"

definition anchors_small :: "anchor_codecs \<Rightarrow> bool" where
  "anchors_small C \<longleftrightarrow>
     (\<forall>a b. anchor_typed \<lparr>oa_version = OBJECT_ANCHOR_VERSION, oa_anchor = a\<rparr> \<and> length (sa_object_id a) \<le> MAX_ANCHOR_OBJECT_ID \<and>
        to_vec (ac_object C) \<lparr>oa_version = OBJECT_ANCHOR_VERSION, oa_anchor = a\<rparr> = Inr b \<longrightarrow> length b \<le> MAX_SECURE_ANCHOR_RECORD)"

lemma follow_here: "fs_get w p = Some (FileNode b) \<Longrightarrow> follow (Suc n) w p = Some (FileNode b)"
  by simp

lemma read_bounded_here:
  assumes "no_faults w" and "fs_get w p = Some (FileNode b)" and "length b \<le> unat mx" and "mx \<noteq> - 1"
  shows "\<exists>w'. read_bounded_file p mx w = (Inr b, w')"
proof -
  have f: "follow 40 v p = Some (FileNode b)" if "fs_get v = fs_get w" for v
    using follow_here [of v p b 39] that assms(2) by (simp only: eval_nat_numeral BitM.simps)
  define w1 where "w1 = w\<lparr>io_calls := io_calls w + 1\<rparr>"
  define w2 where "w2 = w1\<lparr>io_calls := io_calls w1 + 1\<rparr>"
  have same: "fs_get w1 = fs_get w" "fs_get w2 = fs_get w" "no_faults w1"
    using assms(1) by (simp_all add: w1_def w2_def no_faults_def)
  have m: "std_metadata p w = (Inr (FileNode b), w1)"
    unfolding std_metadata_def syscall_no_faults [OF assms(1)] w1_def [symmetric] f [OF same(1)] by simp
  have op: "std_open_read p w1 = (Inr (FileNode b), w2)"
    unfolding std_open_read_def syscall_no_faults [OF same(3)] w2_def [symmetric] f [OF same(2)] by simp
  have r: "fst (read_bounded mx (file_source b)) = Inr b"
    using read_bounded_flowing [OF file_source_flowing(1) assms(4), of b] assms(3) by auto
  show ?thesis
    unfolding read_bounded_file_def using m op r assms(3) by (simp add: bnd_def lift_def)
qed

context secure_store
begin

lemma get_anchor_answers:
  assumes "storage_answers S up" and "up s" and "V s ty oid = Some a"
  shows "\<exists>s'. get_anchor (env_lib E) (sc_anchors (env_codecs E)) (Some S) st ty oid (s, w) = (Inr (Some a), (s', w)) \<and> up s'"
proof -
  let ?k = "object_anchor_account (env_lib E) (st_account st) ty oid"
  from assms(1,2) obtain v t where l: "so_load S ?k s = (Inr v, t)" "up t" unfolding storage_answers_def by blast
  then have v: "v = peek s ?k" using load_answers by blast
  from assms(3) obtain b where b: "peek s ?k = Some b" by (cases "peek s ?k") (auto simp: anchor_view_def anchor_in_def)
  have "load_anchors (Some S) ?k (s, w) = (Inr (Some b), (t, w))"
    using l v b by (simp add: load_anchors_def secure_storage_def stored_def)
  then show ?thesis
    using assms(3) b l(2) secure(2)
    by (cases "from_slice (ac_object (sc_anchors (env_codecs E))) b")
       (auto simp: get_anchor_def anchor_view_def anchor_in_def split: if_splits)
qed

lemma put_anchor_answers:
  assumes "storage_answers S up" and "up s" and "anchors_small (sc_anchors (env_codecs E))"
    and "anchor_typed \<lparr>oa_version = OBJECT_ANCHOR_VERSION, oa_anchor = a\<rparr>" and "length (sa_object_id a) \<le> MAX_ANCHOR_OBJECT_ID"
  shows "\<exists>s'. put_anchor (env_lib E) (sc_anchors (env_codecs E)) (Some S) st a (s, w) = (Inr (), (s', w))"
proof -
  let ?r = "\<lparr>oa_version = OBJECT_ANCHOR_VERSION, oa_anchor = a\<rparr>"
  from to_vec_total [of anchor_typed _ ?r, OF object_codec assms(4)] obtain b where
    b: "to_vec (ac_object (sc_anchors (env_codecs E))) ?r = Inr b" by blast
  then have n: "length b \<le> MAX_SECURE_ANCHOR_RECORD" using assms(3-5) unfolding anchors_small_def by blast
  let ?k = "object_anchor_account (env_lib E) (st_account st) (sa_object_type a) (sa_object_id a)"
  from assms(1,2) n obtain t where "so_save S ?k b s = (Inr (), t)" unfolding storage_answers_def by blast
  then show ?thesis
    using b n assms(5) secure(2) by (simp add: put_anchor_def save_anchors_def secure_storage_def stored_def)
qed

lemma load_keystore_returns:
  assumes "storage_answers S up" and "up s" and "anchors_small (sc_anchors (env_codecs E))"
    and "no_faults w" and "fs_get w (keystore_path st) = Some (FileNode b)" and "length b \<le> unat MAX_KEYSTORE_FILE_LEN"
    and "ks_from_bytes (env_lib E) (sc_keys (env_codecs E)) b = Inr ks" and "ks_state_metadata ks = Some m"
    and "V s Keystore KEYSTORE_ID = Some a" and "check_candidate a m = Inr newer"
  shows "\<exists>sw. load_keystore E st (s, w) = (Inr ks, sw)"
proof -
  from read_bounded_here [OF assms(4,5,6)] obtain w1 where "read_bounded_file (keystore_path st) MAX_KEYSTORE_FILE_LEN w = (Inr b, w1)"
    by (auto simp: MAX_KEYSTORE_FILE_LEN_def)
  then have r: "read_bounded_store_file (keystore_path st) MAX_KEYSTORE_FILE_LEN ''keystore file'' (s, w) = (Inr b, (s, w1))"
    by (simp add: read_bounded_store_file_def)
  from from_bytes_state [OF assms(7) hashes] assms(8) have m: "sm_object_type m = Keystore" "sm_object_id m = KEYSTORE_ID" "metadata_sized m"
    by auto
  from get_anchor_answers [OF assms(1,2,9)] obtain s1 where
    g: "get_anchor (env_lib E) (sc_anchors (env_codecs E)) (Some S) st Keystore KEYSTORE_ID (s, w1) = (Inr (Some a), (s1, w1))" "up s1" by blast
  have "anchor_typed \<lparr>oa_version = OBJECT_ANCHOR_VERSION, oa_anchor = from_metadata m\<rparr>" "length (sa_object_id (from_metadata m)) \<le> MAX_ANCHOR_OBJECT_ID"
    using m by (simp_all add: anchor_typed_def from_metadata_def metadata_sized_def KEYSTORE_ID_def MAX_ANCHOR_OBJECT_ID_def)
  from put_anchor_answers [OF assms(1) g(2) assms(3) this] obtain s2 where
    p: "put_anchor (env_lib E) (sc_anchors (env_codecs E)) (Some S) st (from_metadata m) (s1, w1) = (Inr (), (s2, w1))" by blast
  show ?thesis
    using r assms(7,8,10) m(1,2) g(1) p
    by (cases newer) (simp_all add: load_keystore_def check_loaded_state_def guarded_def secure(1) bnd_def attempt_def)
qed

lemma interrupted_save_loads:
  assumes "rng_fills w" and "fs_get w (keystore_path st) = Some (FileNode b0)"
    and "ks_from_bytes (env_lib E) (sc_keys (env_codecs E)) b0 = Inr ks0" and "ks_state_metadata ks0 = Some m0"
    and "V s Keystore KEYSTORE_ID = Some (from_metadata m0)"
    and "ks_to_bytes (env_lib E) (sc_keys (env_codecs E)) ks1 = Inr b1" and "ks_from_bytes (env_lib E) (sc_keys (env_codecs E)) b1 = Inr ks1"
    and "length b0 \<le> unat MAX_KEYSTORE_FILE_LEN" and "length b1 \<le> unat MAX_KEYSTORE_FILE_LEN"
    and "save_keystore E st ks1 (s, w) = (r, (s', w'))"
    and "storage_answers S up" and "up t" and "anchors_small (sc_anchors (env_codecs E))"
    and "peek t = peek s'" and "no_faults v" and "fs_get v = fs_get w'"
  shows "\<exists>ks sw. load_keystore E st (t, v) = (Inr ks, sw) \<and> (ks = ks1 \<or> \<not> is_ok r \<and> ks = ks0)"
proof -
  note load = load_keystore_returns [OF assms(11,12,13,15)]
  have t: "V t = V s'" using assms(14) by simp
  have refl: "check_candidate (from_metadata m) m = Inr False" for m by (simp add: check_candidate_eq_False)
  from save_keystore_run [OF assms(10,1)] show ?thesis
  proof (elim disjE conjE exE)
    assume "\<not> is_ok r" and "V s' = V s" and f: "fs_get w' (keystore_path st) = fs_get w (keystore_path st)"
    then have "V t Keystore KEYSTORE_ID = Some (from_metadata m0)" using assms(5) t by simp
    moreover have "fs_get v (keystore_path st) = Some (FileNode b0)" using f assms(2,16) by simp
    ultimately show ?thesis using load [OF _ assms(8,3,4) _ refl] \<open>\<not> is_ok r\<close> by blast
  next
    fix m b
    assume m: "ks_state_metadata ks1 = Some m" "ks_to_bytes (env_lib E) (sc_keys (env_codecs E)) ks1 = Inr b"
      "sm_object_type m = Keystore" "sm_object_id m = KEYSTORE_ID" "acceptable (V s) m"
      and f: "fs_get w' (keystore_path st) = Some (FileNode b)" and v: "V s' = raised m (V s)"
    then have "V t Keystore KEYSTORE_ID = Some (from_metadata m)" using t raised_at [of m "V s"] by simp
    moreover have "fs_get v (keystore_path st) = Some (FileNode b1)" using f assms(6,16) m(2) by simp
    ultimately show ?thesis using load [OF _ assms(9,7) m(1) _ refl] by blast
  next
    fix m b
    assume m: "ks_state_metadata ks1 = Some m" "ks_to_bytes (env_lib E) (sc_keys (env_codecs E)) ks1 = Inr b"
      "sm_object_type m = Keystore" "sm_object_id m = KEYSTORE_ID" "acceptable (V s) m"
      and f: "fs_get w' (keystore_path st) = Some (FileNode b)" and v: "V s' = V s"
    from m(3-5) assms(5) obtain newer where "check_candidate (from_metadata m0) m = Inr newer"
      by (auto simp: acceptable_def is_ok_iff)
    moreover have "V t Keystore KEYSTORE_ID = Some (from_metadata m0)" using v assms(5) t by simp
    moreover have "fs_get v (keystore_path st) = Some (FileNode b1)" using f assms(6,16) m(2) by simp
    ultimately show ?thesis using load [OF _ assms(9,7) m(1)] by blast
  qed
qed

end

end
