(* ===== verification/Core_Calm.thy ===== *)
theory Core_Calm
  imports Core_SafeIO Core_Envelope
begin

section \<open>Runs without failures\<close>

text \<open>
  What an operation does in a world where no call fails: a calculus of total correctness, in which
  an operation, from given files, ends with a given result and given files. The theorems that say
  that something succeeds once the system works again rest on it.
\<close>

definition calm :: "world \<Rightarrow> (string \<Rightarrow> node option) \<Rightarrow> bool" where
  "calm w F \<longleftrightarrow> no_faults w \<and> rng_answers w \<and> fs_get w = F"

definition runs_to :: "'a io \<Rightarrow> (string \<Rightarrow> node option) \<Rightarrow> error + 'a \<Rightarrow> (string \<Rightarrow> node option) \<Rightarrow> bool" where
  "runs_to m F r G \<longleftrightarrow> (\<forall>w. calm w F \<longrightarrow> (\<exists>w'. m w = (r, w') \<and> calm w' G))"

named_theorems runs_intros \<open>rules of the calculus\<close>

lemma runs_toD: "runs_to m F r G \<Longrightarrow> calm w F \<Longrightarrow> \<exists>w'. m w = (r, w') \<and> calm w' G"
  by (simp add: runs_to_def)

lemma runs_ret [runs_intros]: "runs_to (ret x) F (Inr x) F"
  by (simp add: runs_to_def)

lemma runs_throw [runs_intros]: "runs_to (throw e) F (Inl e) F"
  by (simp add: runs_to_def)

lemma runs_lift [runs_intros]: "runs_to (lift r) F r F"
  by (simp add: runs_to_def lift_def)

lemma runs_bnd: "runs_to m F (Inr x) G \<Longrightarrow> runs_to (f x) G r H \<Longrightarrow> runs_to (bnd m f) F r H"
  by (fastforce simp: runs_to_def bnd_def)

lemma runs_bnd_fails: "runs_to m F (Inl e) G \<Longrightarrow> runs_to (bnd m f) F (Inl e) G"
  by (fastforce simp: runs_to_def bnd_def)

lemma runs_attempt [runs_intros]: "runs_to m F r G \<Longrightarrow> runs_to (attempt m) F (Inr r) G"
  by (fastforce simp: runs_to_def attempt_def)

lemma runs_syscall:
  assumes "\<And>w. fs_get w = F \<Longrightarrow> m w = (r, g w)" and "\<And>w. fs_get w = F \<Longrightarrow> fs_get (g w) = G"
    and "\<And>w. io_faults (g w) = io_faults w \<and> rng_source (g w) = rng_source w"
  shows "runs_to (syscall m) F r G"
  unfolding runs_to_def
proof (intro allI impI)
  fix w assume w: "calm w F"
  let ?w = "w\<lparr>io_calls := io_calls w + 1\<rparr>"
  have f: "fs_get ?w = F" using w by (simp add: calm_def)
  have "syscall m w = (r, g ?w)" using w assms(1) [OF f] by (simp add: calm_def syscall_no_faults)
  moreover have "calm (g ?w) G"
    using w assms(2) [OF f] assms(3) [of ?w] by (simp add: calm_def no_faults_def rng_answers_def rng_fills_def)
  ultimately show "\<exists>w'. syscall m w = (r, w') \<and> calm w' G" by blast
qed

lemma runs_random:
  assumes "\<And>b. length b = n \<Longrightarrow> runs_to (f b) F r G"
  shows "runs_to (bnd (random_array n) f) F r G"
  unfolding runs_to_def
proof (intro allI impI)
  fix w assume w: "calm w F"
  then obtain b w1 where b: "getrandom n w = (Inr b, w1)" "length b = n" "rng_answers w1"
    using random_answers by (metis calm_def)
  have "calm w1 F" using w b(3) getrandom_world [OF b(1)] by (simp add: calm_def no_faults_def)
  from runs_toD [OF assms [OF b(2)] this] show "\<exists>w'. bnd (random_array n) f w = (r, w') \<and> calm w' G"
    using b(1) by (simp add: bnd_def random_array_def)
qed

subsection \<open>System calls\<close>

lemma follow_fs: "fs_get v = fs_get w \<Longrightarrow> follow n v p = follow n w p"
  by (induction n arbitrary: p) (auto split: option.split node.split)

lemma follow_node: "fs_get w p = Some n \<Longrightarrow> (\<forall>t. n \<noteq> SymlinkNode t) \<Longrightarrow> follow (Suc k) w p = Some n"
  by (cases n) auto

lemma follow_40: "fs_get w p = Some n \<Longrightarrow> (\<forall>t. n \<noteq> SymlinkNode t) \<Longrightarrow> follow 40 w p = Some n"
proof -
  assume a: "fs_get w p = Some n" "\<forall>t. n \<noteq> SymlinkNode t"
  have "(40 :: nat) = Suc 39" by simp
  then show ?thesis using follow_node [OF a, of 39] by (simp only:)
qed

lemma fs_put_other:
  "io_faults (fs_put p n w) = io_faults w" "rng_source (fs_put p n w) = rng_source w"
  "io_faults (fs_del p w) = io_faults w" "rng_source (fs_del p w) = rng_source w"
  by (simp_all add: fs_put_def fs_del_def)

lemma runs_metadata:
  "F p = Some n \<Longrightarrow> (\<forall>t. n \<noteq> SymlinkNode t) \<Longrightarrow> runs_to (std_metadata p) F (Inr n) F"
  "F p = Some n \<Longrightarrow> (\<forall>t. n \<noteq> SymlinkNode t) \<Longrightarrow> runs_to (std_open_read p) F (Inr n) F"
  unfolding std_metadata_def std_open_read_def
  by (rule runs_syscall [where g = id]; simp add: follow_40)+

lemma runs_symlink_metadata:
  "runs_to (std_symlink_metadata p) F (case F p of None \<Rightarrow> Inl (Io (IoKind NotFound)) | Some n \<Rightarrow> Inr n) F"
  unfolding std_symlink_metadata_def
  by (rule runs_syscall [where g = id]) (auto simp: not_found_def throw_def split: option.split)

lemma runs_create_new:
  "F p = None \<Longrightarrow> F (parent_or_dot p) = Some DirNode \<Longrightarrow> runs_to (std_create_new p) F (Inr ()) (F(p \<mapsto> FileNode []))"
  unfolding std_create_new_def
  by (rule runs_syscall [where g = "fs_put p (FileNode [])"]) (auto simp: fs_get_put fun_eq_iff fs_put_other)

lemma runs_append:
  "F p = Some (FileNode old) \<Longrightarrow> runs_to (std_append p b) F (Inr ()) (F(p \<mapsto> FileNode (old @ b)))"
  unfolding std_append_def
  by (rule runs_syscall [where g = "fs_put p (FileNode (old @ b))"]) (auto simp: fs_get_put fun_eq_iff fs_put_other)

lemma runs_sync: "runs_to (std_sync p) F (Inr ()) F"
  unfolding std_sync_def by (rule runs_syscall [where g = id]) auto

lemma runs_rename:
  "F a = Some n \<Longrightarrow> F b \<noteq> Some DirNode \<Longrightarrow> runs_to (std_rename a b) F (Inr ()) (F(a := None, b \<mapsto> n))"
  unfolding std_rename_def
  by (rule runs_syscall [where g = "\<lambda>w. fs_put b n (fs_del a w)"])
     (auto simp: fs_get_put fs_get_del fun_eq_iff fs_put_other)

subsection \<open>Replacing a file\<close>

lemma parent_join:
  assumes "d \<noteq> []" and "last d \<noteq> CHR ''/''" and "CHR ''/'' \<notin> set n"
  shows "parent_or_dot (path_join d n) = d"
proof -
  have "dropWhile (\<lambda>c. c \<noteq> CHR ''/'') (rev n @ CHR ''/'' # rev d) = CHR ''/'' # rev d"
    using assms(3) by (subst dropWhile_append2) auto
  then have "path_parent (path_join d n) = d"
    using assms(1,2) by (simp add: path_parent_def path_join_def)
  then show ?thesis using assms(1) by (simp add: parent_or_dot_def)
qed

text \<open>No unfinished write is in the directory.\<close>

definition tidy :: "string \<Rightarrow> (string \<Rightarrow> node option) \<Rightarrow> bool" where
  "tidy d F \<longleftrightarrow> (\<forall>t. is_safe_writer_temp t \<longrightarrow> F (path_join d t) = None)"

text \<open>The file \<open>n\<close> of the directory \<open>d\<close> can be written.\<close>

definition replaceable :: "lib \<Rightarrow> string \<Rightarrow> string \<Rightarrow> (string \<Rightarrow> node option) \<Rightarrow> bool" where
  "replaceable L d n F \<longleftrightarrow>
     hexlower_spec L \<and> d \<noteq> [] \<and> last d \<noteq> CHR ''/'' \<and> F d = Some DirNode \<and>
     CHR ''/'' \<notin> set n \<and> \<not> is_safe_writer_temp n \<and> tidy d F \<and>
     F (path_join d n) \<noteq> Some DirNode \<and> (\<forall>t. F (path_join d n) \<noteq> Some (SymlinkNode t))"

abbreviation temp_at :: "lib \<Rightarrow> string \<Rightarrow> bytes \<Rightarrow> string" where "temp_at L d x \<equiv> path_join d (temp_name L x)"

abbreviation writer_at :: "lib \<Rightarrow> string \<Rightarrow> string \<Rightarrow> bytes \<Rightarrow> safe_file_writer" where
  "writer_at L d n x \<equiv> \<lparr>sw_dest = path_join d n, sw_tmp = temp_at L d x, sw_file = True, sw_committed = False\<rparr>"

lemma path_join_eq: "d \<noteq> [] \<Longrightarrow> last d \<noteq> CHR ''/'' \<Longrightarrow> path_join d n = d @ CHR ''/'' # n"
  by (simp add: path_join_def)

lemma temp_new:
  assumes "replaceable L d n F" and "length x = 8"
  shows "F (temp_at L d x) = None" "temp_at L d x \<noteq> path_join d n" "temp_at L d x \<noteq> d" "parent_or_dot (temp_at L d x) = d"
    "parent_or_dot (path_join d n) = d" "path_join d n \<noteq> d"
proof -
  have t: "is_safe_writer_temp (temp_name L x)" "CHR ''/'' \<notin> set (temp_name L x)"
    using temp_name_shape [of L x] assms by (auto simp: replaceable_def)
  then show "F (temp_at L d x) = None" using assms(1) by (auto simp: tidy_def replaceable_def)
  have "temp_name L x \<noteq> n" using t(1) assms(1) by (auto simp: replaceable_def)
  then show "temp_at L d x \<noteq> path_join d n" "temp_at L d x \<noteq> d" "path_join d n \<noteq> d"
    using assms(1) by (auto simp: replaceable_def path_join_eq)
  show "parent_or_dot (temp_at L d x) = d" "parent_or_dot (path_join d n) = d"
    using parent_join assms(1) t(2) by (auto simp: replaceable_def)
qed

lemma runs_not_link:
  assumes "replaceable L d n F" and "G (path_join d n) = F (path_join d n)"
  shows "runs_to (reject_symlink (path_join d n)) G (Inr ()) G"
  unfolding reject_symlink_def
  using assms
  by (intro runs_bnd [OF runs_attempt [OF runs_symlink_metadata]])
     (auto simp: runs_ret replaceable_def split: option.split node.split)

lemma runs_create:
  assumes "replaceable L d n F"
    and "\<And>x. length x = 8 \<Longrightarrow> runs_to (f (writer_at L d n x)) (F(temp_at L d x \<mapsto> FileNode [])) r G"
  shows "runs_to (bnd (sw_create L (path_join d n)) f) F r G"
proof -
  have loop: "runs_to (bnd (create_private_temp_loop L (Suc k) d)
      (\<lambda>tmp. f \<lparr>sw_dest = path_join d n, sw_tmp = tmp, sw_file = True, sw_committed = False\<rparr>)) F r G" for k
    unfolding create_private_temp_loop.simps bnd_assoc
  proof (rule runs_random)
    fix x :: bytes assume x: "length x = 8"
    have "runs_to (open_new_private (temp_at L d x)) F (Inr ()) (F(temp_at L d x \<mapsto> FileNode []))"
      unfolding open_new_private_def using runs_create_new [of F "temp_at L d x"] temp_new [OF assms(1) x] assms(1)
      by (simp add: replaceable_def)
    note new = runs_attempt [OF this]
    show "runs_to (bnd (let candidate = temp_at L d x in bnd (attempt (open_new_private candidate)) (case_sum
            (\<lambda>e. if has_kind AlreadyExists e then create_private_temp_loop L k d else throw e) (\<lambda>_. ret candidate)))
          (\<lambda>tmp. f \<lparr>sw_dest = path_join d n, sw_tmp = tmp, sw_file = True, sw_committed = False\<rparr>)) F r G"
      unfolding Let_def bnd_assoc by (rule runs_bnd [OF new]) (simp add: assms(2) [OF x])
  qed
  have "parent_or_dot (path_join d n) = d" using temp_new(5) [OF assms(1), of "replicate 8 0"] by simp
  then have "runs_to (bnd (create_private_temp L (parent_or_dot (path_join d n)) (path_join d n))
      (\<lambda>tmp. f \<lparr>sw_dest = path_join d n, sw_tmp = tmp, sw_file = True, sw_committed = False\<rparr>)) F r G"
    using loop [of 7] by (simp add: create_private_temp_def)
  then show ?thesis
    unfolding sw_create_def bnd_assoc bnd_ret_left by (rule runs_bnd [OF runs_not_link [OF assms(1), of F, simplified]])
qed

lemma runs_commit:
  assumes "replaceable L d n F" and "length x = 8"
  shows "runs_to (sw_commit (writer_at L d n x)) (F(temp_at L d x \<mapsto> FileNode b)) (Inr ()) (F(path_join d n \<mapsto> FileNode b))"
proof -
  let ?p = "path_join d n"
  let ?t = "temp_at L d x"
  let ?G = "F(?t \<mapsto> FileNode b)"
  let ?H = "F(?p \<mapsto> FileNode b)"
  note new = temp_new [OF assms]
  have "?G(?t := None, ?p \<mapsto> FileNode b) = ?H" using new by (auto simp: fun_eq_iff)
  then have mv: "runs_to (std_rename ?t ?p) ?G (Inr ()) ?H"
    using runs_rename [of ?G ?t "FileNode b" ?p] new assms(1) by (auto simp: replaceable_def)
  have "runs_to (reject_symlink ?p) ?G (Inr ()) ?G" using runs_not_link [OF assms(1), of ?G] new by simp
  from runs_bnd [OF this mv] have "runs_to (bnd (reject_symlink ?p) (\<lambda>_. std_rename ?t ?p)) ?G (Inr ()) ?H" .
  from runs_bnd [OF runs_sync [of ?t] this] have body: "runs_to (sw_commit_body (writer_at L d n x)) ?G (Inr ()) ?H"
    by (simp only: sw_commit_body_def safe_file_writer.select_convs not_True_eq_False if_False)
  have "runs_to (std_open_read d) ?H (Inr DirNode) ?H" using assms(1) new(6) by (intro runs_metadata(2)) (auto simp: replaceable_def)
  then have sync: "runs_to (sync_dir d) ?H (Inr ()) ?H"
    unfolding sync_dir_def by (rule runs_bnd) (rule runs_sync)
  have "runs_to (sw_commit_without_dir_sync (writer_at L d n x)) ?G (Inr ()) ?H"
    unfolding sw_commit_without_dir_sync_def by (rule runs_bnd [OF runs_attempt [OF body]]) (simp add: sw_drop_def runs_ret)
  moreover have "runs_to (bnd (attempt (sync_dir d)) (\<lambda>r. ret (is_ok r))) ?H (Inr True) ?H"
    by (rule runs_bnd [OF runs_attempt [OF sync]]) (simp add: runs_ret)
  ultimately have "runs_to (sw_commit_durable (writer_at L d n x)) ?G (Inr True) ?H"
    unfolding sw_commit_durable_def using new(5) by (simp add: runs_bnd)
  then show ?thesis unfolding sw_commit_def by (rule runs_bnd) (rule runs_ret)
qed

lemma runs_with_writer:
  assumes "replaceable L d n F"
  shows "runs_to (with_writer L (path_join d n) (\<lambda>sw. sw_write_all sw b) sw_commit) F (Inr ()) (F(path_join d n \<mapsto> FileNode b))"
  unfolding with_writer_def
proof (rule runs_create [OF assms])
  fix x :: bytes assume x: "length x = 8"
  let ?t = "temp_at L d x"
  have "runs_to (sw_write_all (writer_at L d n x) b) (F(?t \<mapsto> FileNode [])) (Inr ()) (F(?t \<mapsto> FileNode b))"
    using runs_append [of "F(?t \<mapsto> FileNode [])" ?t "[]" b] by (simp add: sw_write_all_def)
  note w = runs_attempt [OF this]
  show "runs_to (bnd (attempt (sw_write_all (writer_at L d n x) b))
       (case_sum (\<lambda>e. bnd (sw_drop (writer_at L d n x)) (\<lambda>_. throw e)) (\<lambda>_. sw_commit (writer_at L d n x))))
     (F(?t \<mapsto> FileNode [])) (Inr ()) (F(path_join d n \<mapsto> FileNode b))"
    by (rule runs_bnd [OF w]) (simp add: runs_commit [OF assms x])
qed

end
