(* ===== verification/Store_Properties.thy ===== *)
theory Store_Properties
  imports Store_Rollback Keys_Properties Core_Calm
begin

section \<open>The local store: properties\<close>

text \<open>
  A store with its anchors in the in-memory secure storage, on which the theorems are applied, and
  what the store promises about its keystore, about the choice of its anchor backend, and about
  the anchors themselves.
\<close>

subsection \<open>A concrete store\<close>

definition anchor_fields :: "object_anchor_record \<Rightarrow> bytes list" where
  "anchor_fields r =
     (let a = oa_anchor r in
      [nat_field (unat (oa_version r)), sa_identity_fingerprint a, object_type_field (sa_object_type a), as_bytes (sa_object_id a),
       to_be_bytes (sa_suite_id a), to_be_bytes (sa_epoch a), sa_current_state_hash a])"

definition anchor_of_fields :: "bytes list \<Rightarrow> object_anchor_record option" where
  "anchor_of_fields xs =
     (case xs of
        [a, b, c, d, e, f, g] \<Rightarrow>
          Some \<lparr>oa_version = word_of_field a,
                oa_anchor = \<lparr>sa_identity_fingerprint = b, sa_object_type = object_type_of_field c, sa_object_id = string_of_field d,
                  sa_suite_id = from_be_bytes e, sa_epoch = from_be_bytes f, sa_current_state_hash = g\<rparr>\<rparr>
      | _ \<Rightarrow> None)"

definition no_codec :: "'a codec" where "no_codec = \<lparr>enc = (\<lambda>_. None), dec = (\<lambda>_. None)\<rparr>"

definition demo_anchors :: anchor_codecs where
  "demo_anchors =
     \<lparr>ac_set = no_codec, ac_root = \<lparr>enc = (\<lambda>_. Some [0, 2]),
        dec = (\<lambda>b. if b = [0, 2] then Some (\<lparr>ar_version = ANCHOR_ROOT_VERSION, ar_migration = None\<rparr>, []) else None)\<rparr>,
      ac_object = fields_codec anchor_typed anchor_fields anchor_of_fields,
      ac_probe = \<lparr>enc = (\<lambda>_. None), dec = (\<lambda>b. if b = [0, 2] then Some (ANCHOR_ROOT_VERSION, []) else None)\<rparr>\<rparr>"

definition demo_store_codecs :: store_codecs where
  "demo_store_codecs =
     \<lparr>sc_anchors = demo_anchors, sc_keys = demo_keystore,
      sc_v1 = \<lparr>header_codec1 = no_codec, manifest_codec1 = no_codec\<rparr>, sc_contacts = no_codec, sc_contacts_state = no_codec,
      sc_registry = no_codec, sc_registry_state = no_codec, sc_prefs = no_codec\<rparr>"

definition demo_env :: "memory_anchor_storage store_env" where
  "demo_env = \<lparr>env_lib = demo_lib, env_pqc = True, env_codecs = demo_store_codecs, env_secure = Some memory_storage\<rparr>"

definition demo_store :: store where
  "demo_store = \<lparr>st_data_dir = ''d'', st_vaults_dir = ''d/vaults'', st_checkout_dir = ''d/checkout'', st_backend = SecureStorage,
     st_account = ''/d''\<rparr>"

lemma from_be_bytes_u64 [simp]: "from_be_bytes (to_be_bytes (w :: u64)) = w"
  by (simp add: from_be_bytes_to_be_bytes)

lemma anchor_fields_inverse [simp]: "anchor_of_fields (anchor_fields r) = Some r"
  by (cases r; cases "oa_anchor r"; cases "sa_object_type (oa_anchor r)") (simp_all add: anchor_of_fields_def anchor_fields_def object_type_field_def Let_def)

lemma demo_specs: "hexlower_spec demo_lib" "blake3_lengths demo_lib"
  using demo_hex demo_hashes by (simp_all add: hexlower_spec_def)

interpretation demo: secure_store memory_storage peek_memory demo_env demo_store
  by unfold_locales
     (simp_all add: demo_env_def demo_store_def demo_store_codecs_def demo_anchors_def fields_codec_ok demo_specs)

text \<open>Signed keystores of the same identity, by epoch.\<close>

definition demo_body :: keystore_v2 where
  "demo_body =
     \<lparr>k2_version = VERSION_V2, k2_bundle_nonce = [], k2_bundle_ct = [],
      k2_passphrase = \<lparr>ps_kdf = demo_kdf, ps_salt = [], ps_nonce = [], ps_wrapped_dek = []\<rparr>, k2_passkeys = [], k2_device = None\<rparr>"

definition demo_state :: "u64 \<Rightarrow> state_metadata" where
  "demo_state n =
     \<lparr>sm_identity_fingerprint = fingerprint demo_lib (id_public demo_lib demo_identity), sm_object_type = Keystore,
      sm_object_id = KEYSTORE_ID, sm_suite_id = 0, sm_epoch = n, sm_previous_state_hash = replicate 32 0,
      sm_current_state_hash = replicate 32 0\<rparr>"

definition demo_v3 :: "u64 \<Rightarrow> keystore_v3" where
  "demo_v3 n =
     \<lparr>k3_version = VERSION_V3, k3_state = demo_state n, k3_public_identity = id_public demo_lib demo_identity, k3_body = demo_body,
      k3_signature = replicate 64 3\<rparr>"

definition demo_v3_bytes :: "u64 \<Rightarrow> bytes" where
  "demo_v3_bytes n = MAGIC_V2 @ to_be_bytes VERSION_V3 @ put_fields (v3_fields (demo_v3 n))"

lemma demo_v3_verifies: "0 < n \<Longrightarrow> v3_verify demo_lib demo_keystore (demo_v3 n) = Inr ()"
  by (auto simp: v3_verify_def demo_v3_def demo_state_def verify_payload_def expected_hash_def sign_verify_def to_vec_def
      demo_keystore_def fields_codec_def demo_lib_def id_public_def demo_identity_def)

lemma demo_v3_typed: "v3_typed (demo_v3 n)"
  by (simp add: v3_typed_def v2_typed_def demo_v3_def demo_body_def public_typed_def state_typed_def demo_state_def demo_lib_def
      id_public_def demo_identity_def fingerprint_def i64_typed_def)

lemma demo_v3_file:
  assumes "0 < n"
  shows "ks_to_bytes demo_lib demo_keystore (V3 (demo_v3 n)) = Inr (demo_v3_bytes n)"
    and "ks_from_bytes demo_lib demo_keystore (demo_v3_bytes n) = Inr (V3 (demo_v3 n))"
proof -
  have e: "to_vec (kc_v3 demo_keystore) (demo_v3 n) = Inr (put_fields (v3_fields (demo_v3 n)))"
    by (simp add: to_vec_def demo_keystore_def fields_codec_def)
  then show "ks_to_bytes demo_lib demo_keystore (V3 (demo_v3 n)) = Inr (demo_v3_bytes n)"
    using demo_v3_verifies [OF assms] by (simp add: ks_to_bytes_def demo_v3_bytes_def)
  have c: "codec_ok v3_typed (kc_v3 demo_keystore)" using demo_keystore_ok(1) by (simp add: keystore_codecs_ok_def)
  note d = from_slice_to_vec [OF c demo_v3_typed e]
  have "length MAGIC_V2 = 4" by (simp add: MAGIC_V2_def)
  moreover have "take 2 (to_be_bytes VERSION_V3 @ x) = to_be_bytes VERSION_V3" "drop 2 (to_be_bytes VERSION_V3 @ x) = x" for x
    by (simp_all add: length_to_be_bytes)
  moreover have "k3_version (demo_v3 n) = VERSION_V3" "validate_for_open (ps_kdf (k2_passphrase (k3_body (demo_v3 n)))) = Inr ()"
    "k2_version (k3_body (demo_v3 n)) = VERSION_V2"
    by (simp_all add: demo_v3_def demo_body_def demo_kdf_def validate_for_open_def policy_open_def policy_validate_def checked_mul_def)
  ultimately show "ks_from_bytes demo_lib demo_keystore (demo_v3_bytes n) = Inr (V3 (demo_v3 n))"
    using d demo_v3_verifies [OF assms]
    by (simp add: ks_from_bytes_def demo_v3_bytes_def Let_def length_to_be_bytes)
qed

lemma demo_v3_small: "unat n < 1000 \<Longrightarrow> length (demo_v3_bytes n) \<le> unat MAX_KEYSTORE_FILE_LEN"
  by (simp add: demo_v3_bytes_def MAGIC_V2_def length_to_be_bytes v3_fields_def length_put_fields_eq length_put_bytes_eq demo_v3_def demo_state_def
      Let_def nat_field_def option_field_def int_field_def object_type_field_def record_field_def v2_fields_def kdf_fields_def
      demo_body_def demo_kdf_def demo_lib_def id_public_def demo_identity_def fingerprint_def KEYSTORE_ID_def MAX_KEYSTORE_FILE_LEN_def
      VERSION_V3_def VERSION_V2_def)

text \<open>A storage that holds the anchor of one of them.\<close>

definition demo_anchored :: "u64 \<Rightarrow> memory_anchor_storage" where
  "demo_anchored n =
     ms_new\<lparr>ms_records := [(object_anchor_account demo_lib ''/d'' Keystore KEYSTORE_ID,
       put_fields (anchor_fields \<lparr>oa_version = OBJECT_ANCHOR_VERSION, oa_anchor = from_metadata (demo_state n)\<rparr>))]\<rparr>"

lemma demo_state_typed: "anchor_typed \<lparr>oa_version = OBJECT_ANCHOR_VERSION, oa_anchor = from_metadata (demo_state n)\<rparr>"
  by (simp add: anchor_typed_def from_metadata_def demo_state_def demo_lib_def fingerprint_def)

lemma demo_anchored_view: "demo.V (demo_anchored n) Keystore KEYSTORE_ID = Some (from_metadata (demo_state n))"
proof -
  let ?r = "\<lparr>oa_version = OBJECT_ANCHOR_VERSION, oa_anchor = from_metadata (demo_state n)\<rparr>"
  have "from_slice (fields_codec anchor_typed anchor_fields anchor_of_fields) (put_fields (anchor_fields ?r)) = Inr ?r"
    by (rule from_slice_to_vec [where V = anchor_typed]) (simp_all add: fields_codec_ok demo_state_typed, simp add: to_vec_def fields_codec_def)
  then show ?thesis
    by (simp add: anchor_view_def anchor_in_def peek_memory_def demo_anchored_def demo_env_def demo_store_codecs_def demo_anchors_def
        demo_store_def same_object_def from_metadata_def demo_state_def)
qed

lemma demo_storage_answers: "storage_answers memory_storage (\<lambda>s. \<not> ms_unavailable s \<and> \<not> ms_fail_saves s \<and> ms_capacity s = None)"
  by (simp add: storage_answers_def memory_storage_def ms_load_def ms_save_def bnd_def check_available_def gets_def modify_def ret_def lift_def)

lemma demo_anchors_small: "anchors_small demo_anchors"
  by (auto simp: anchors_small_def demo_anchors_def to_vec_def fields_codec_def anchor_fields_def Let_def length_put_fields_eq length_put_bytes_eq
      nat_field_def object_type_field_def length_to_be_bytes anchor_typed_def MAX_ANCHOR_OBJECT_ID_def MAX_SECURE_ANCHOR_RECORD_def
      OBJECT_ANCHOR_VERSION_def)

subsection \<open>The choice of the backend\<close>

text \<open>A read of at most \<open>n\<close> calls whose answer depends on the files alone, unless one of these calls
  fails. It answers in any case, and leaves the files as they are.\<close>

definition reads :: "nat \<Rightarrow> 'a io \<Rightarrow> world \<Rightarrow> 'a \<Rightarrow> bool" where
  "reads n m w x \<longleftrightarrow> (\<forall>v. fs_get v = fs_get w \<longrightarrow> (\<exists>r v'. m v = (Inr r, v') \<and> (r = x \<or> call_failed v v') \<and>
     fs_get v' = fs_get w \<and> io_faults v' = io_faults v \<and> rng_source v' = rng_source v \<and>
     io_calls v \<le> io_calls v' \<and> io_calls v' \<le> io_calls v + n))"

lemma readsD:
  assumes "reads n m w x" and "fs_get v = fs_get w" and "m v = (r, v')"
  shows "\<exists>y. r = Inr y \<and> (y = x \<or> call_failed v v')" and "fs_get v' = fs_get w" and "io_faults v' = io_faults v"
    and "rng_source v' = rng_source v" and "io_calls v \<le> io_calls v'" and "io_calls v' \<le> io_calls v + n"
  using assms unfolding reads_def by force+

lemma reads_calm:
  assumes "reads n m w x" and "no_faults v" and "fs_get v = fs_get w" and "m v = (r, v')"
  shows "r = Inr x \<and> no_faults v' \<and> fs_get v' = fs_get w \<and> rng_source v' = rng_source v"
  using readsD [OF assms(1,3,4)] assms(2) by (auto simp: no_faults_def call_failed_def)

lemma reads_answer: "reads n m w x \<Longrightarrow> no_faults v \<Longrightarrow> fs_get v = fs_get w \<Longrightarrow> fst (m v) = Inr x"
  using reads_calm [of n m w x v] by (metis prod.collapse)

lemma call_failed_trans:
  "io_faults v' = io_faults v \<Longrightarrow> io_calls v \<le> io_calls v' \<Longrightarrow> io_calls v' \<le> io_calls v'' \<Longrightarrow>
     call_failed v v' \<or> call_failed v' v'' \<Longrightarrow> call_failed v v''"
  unfolding call_failed_def by (metis le_trans order.strict_trans2)

lemma reads_ret: "reads n (ret x) w x"
  by (simp add: reads_def)

lemma reads_bnd:
  assumes "reads a m w x" and "\<And>r. reads b (f r) w (g r)"
  shows "reads (a + b) (bnd m f) w (g x)"
  unfolding reads_def
proof (intro allI impI)
  fix v assume v: "fs_get v = fs_get w"
  obtain q v1 where 1: "m v = (q, v1)" by force
  note d = readsD [OF assms(1) v 1]
  then obtain y where y: "q = Inr y" "y = x \<or> call_failed v v1" by blast
  obtain q' v2 where 2: "f y v1 = (q', v2)" by force
  note e = readsD [OF assms(2) d(2) 2]
  have "y = x \<or> call_failed v v2" "call_failed v1 v2 \<longrightarrow> call_failed v v2"
    using y(2) call_failed_trans [OF d(3,5) e(5)] by blast+
  then show "\<exists>r v'. bnd m f v = (Inr r, v') \<and> (r = g x \<or> call_failed v v') \<and> fs_get v' = fs_get w \<and>
      io_faults v' = io_faults v \<and> rng_source v' = rng_source v \<and> io_calls v \<le> io_calls v' \<and> io_calls v' \<le> io_calls v + (a + b)"
    using 1 2 y(1) d e by (fastforce simp: bnd_def)
qed

lemma reads_syscall:
  assumes "\<And>v. fs_get v = fs_get w \<Longrightarrow> m v = (r, v)"
  shows "reads 1 (attempt (syscall m)) w r"
  unfolding reads_def
proof (intro allI impI)
  fix v assume v: "fs_get v = fs_get w"
  let ?v = "v\<lparr>io_calls := io_calls v + 1\<rparr>"
  have "m ?v = (r, ?v)" using v by (intro assms) simp
  then show "\<exists>q v'. attempt (syscall m) v = (Inr q, v') \<and> (q = r \<or> call_failed v v') \<and> fs_get v' = fs_get w \<and>
      io_faults v' = io_faults v \<and> rng_source v' = rng_source v \<and> io_calls v \<le> io_calls v' \<and> io_calls v' \<le> io_calls v + 1"
    using v by (auto simp: attempt_def syscall_def Let_def call_failed_def split: option.split)
qed

lemma reads_follow: "\<exists>r. reads 1 (attempt (syscall (\<lambda>w. case follow n w p of None \<Rightarrow> not_found w | Some n \<Rightarrow> ret n w))) w r"
proof (intro exI reads_syscall)
  fix v assume "fs_get v = fs_get w"
  from follow_fs [OF this, of n p]
  show "(case follow n v p of None \<Rightarrow> not_found v | Some n \<Rightarrow> ret n v) =
      (case follow n w p of None \<Rightarrow> Inl (Io (IoKind NotFound)) | Some n \<Rightarrow> Inr n, v)"
    by (simp add: not_found_def throw_def split: option.split)
qed

lemma reads_stat:
  "\<exists>r. reads 1 (attempt (std_metadata p)) w r" "\<exists>r. reads 1 (attempt (std_open_read p)) w r"
  "\<exists>r. reads 1 (attempt (std_symlink_metadata p)) w r" "\<exists>r. reads 1 (attempt (syscall not_found :: node io)) w r"
proof -
  show "\<exists>r. reads 1 (attempt (std_metadata p)) w r" "\<exists>r. reads 1 (attempt (std_open_read p)) w r"
    unfolding std_metadata_def std_open_read_def by (rule reads_follow)+
  show "\<exists>r. reads 1 (attempt (std_symlink_metadata p)) w r"
    unfolding std_symlink_metadata_def
    by (rule exI, rule reads_syscall [where r = "case fs_get w p of None \<Rightarrow> Inl (Io (IoKind NotFound)) | Some n \<Rightarrow> Inr n"])
       (simp add: not_found_def throw_def split: option.split)
  show "\<exists>r. reads 1 (attempt (syscall not_found :: node io)) w r"
    by (rule exI, rule reads_syscall [where r = "Inl (Io (IoKind NotFound))"]) (simp add: not_found_def throw_def)
qed

lemma reads_ex_ret: "\<exists>x. reads n (ret y) w x"
  by (rule exI, rule reads_ret)

lemma reads_ex_bnd:
  assumes "\<exists>r. reads a m w r" and "\<And>r. \<exists>x. reads b (f r) w x" and "n = a + b"
  shows "\<exists>x. reads n (bnd m f) w x"
proof -
  from assms(1) obtain r where r: "reads a m w r" by blast
  have "\<forall>r. \<exists>x. reads b (f r) w x" using assms(2) by blast
  then obtain g where "\<forall>r. reads b (f r) w (g r)" by (rule choice [THEN exE])
  with reads_bnd [OF r, of b f g] show ?thesis unfolding assms(3) by blast
qed

lemma reads_exists: "\<exists>x. reads 1 (std_exists p) w x"
  unfolding std_exists_def
  by (rule reads_ex_bnd [where a = 1 and b = 0]) (simp_all add: reads_stat [unfolded One_nat_def] reads_ex_ret)

lemma reads_v3: "\<exists>x. reads 1 (keystore_is_v3 p) w x"
  unfolding keystore_is_v3_def by (rule reads_ex_bnd [where a = 1 and b = 0]) (simp_all add: reads_stat [unfolded One_nat_def] reads_ex_ret)

lemma reads_marker: "\<exists>x. reads 2 (read_backend_marker p) w x"
proof -
  have opened: "\<exists>x. reads 1 (bnd (attempt (std_open_read p)) (case_sum (\<lambda>_. ret (Some Malformed)) (\<lambda>file. ret (f file)))) w x" for f
  proof (rule reads_ex_bnd [where a = 1 and b = 0, OF reads_stat(2)])
    show "\<exists>x. reads 0 (case_sum (\<lambda>_. ret (Some Malformed)) (\<lambda>file. ret (f file)) r) w x" for r
      by (cases r) (simp_all add: reads_ex_ret)
  qed simp
  show ?thesis
    unfolding read_backend_marker_def
  proof (rule reads_ex_bnd [where a = 1 and b = 1, OF reads_stat(3)])
    fix r :: "error + node"
    show "\<exists>x. reads 1 (case r of
         Inl _ \<Rightarrow> ret None
       | Inr meta \<Rightarrow>
           if \<not> is_file meta \<or> length (node_bytes meta) > MAX_BACKEND_MARKER_LEN then ret (Some Malformed)
           else
             bnd (attempt (std_open_read p)) (\<lambda>r.
               case r of
                 Inl _ \<Rightarrow> ret (Some Malformed)
               | Inr file \<Rightarrow>
                   let trimmed = str_trim (map (\<lambda>b. char_of (unat b)) (node_bytes file)) in
                   ret (Some (if \<not> is_file file then Malformed
                              else if trimmed = BACKEND_MARKER_SECURE then SecureMarker
                              else if trimmed = BACKEND_MARKER_DEGRADED then DegradedMarker
                              else Malformed)))) w x"
      by (cases r) (simp_all only: sum.case Let_def split: if_split, (intro conjI impI reads_ex_ret opened)+)
  qed simp
qed

lemma choose_backend_degraded:
  assumes "choose_backend probe marker protected file_anchors = Inr DegradedFile"
  shows "probe \<noteq> Established \<and> (protected \<longrightarrow> marker = Some DegradedMarker \<or> marker = None \<and> file_anchors)"
proof (cases marker)
  case None
  then show ?thesis using assms by (cases probe) (auto simp: choose_backend_def split: if_splits)
next
  case (Some m)
  then show ?thesis using assms by (cases probe; cases m) (auto simp: choose_backend_def split: if_splits)
qed

lemma on_fst_run2: "on_fst m (s, w) = (case m s of (r, s') \<Rightarrow> (r, (s', w)))"
  by (simp add: on_fst_def)

lemma establish_run:
  assumes "anchor_storage S peek" and "establish_secure_anchor_record C (Some S) account protected (s, w) = (Inr backend, (s', w'))"
  shows "w' = w \<and> (backend = SecureStorage \<and> (\<exists>b. peek s' = (peek s)(account \<mapsto> b)) \<or>
     backend = DegradedFile \<and> \<not> protected \<and> (\<forall>k. k \<noteq> account \<longrightarrow> peek s' k = peek s k))"
proof -
  from assms(2) obtain b where b: "encode_root_record C = Inr b"
    by (auto simp: establish_secure_anchor_record_def bnd_eq_Inr)
  obtain q t where q: "so_save S account b s = (q, t)" by force
  note e = anchor_storage.save_effect [OF assms(1) q]
  show ?thesis
  proof (cases q)
    case (Inl x)
    then show ?thesis using assms(2) b q e
      by (auto simp: establish_secure_anchor_record_def bnd_def attempt_def split: if_splits)
  next
    case (Inr u)
    then show ?thesis using assms(2) b q anchor_storage.save_writes [OF assms(1), of account b s t]
      by (auto simp: establish_secure_anchor_record_def bnd_def attempt_def)
  qed
qed

lemma write_marker_storage: "write_backend_marker L dir b (s, w) = (r, (s', w')) \<Longrightarrow> s' = s"
  by (simp add: write_backend_marker_def write_private_atomic_def write_private_export_def core_io_eq Let_def)

lemma select_backend_run:
  assumes "\<forall>S. secure = Some S \<longrightarrow> anchor_storage S peek"
    and "select_anchor_backend L C dir account secure (s, w) = (Inr backend, (s', w'))"
    and "reads 2 (read_backend_marker (path_join dir ANCHORS_BACKEND_FILE)) w marker"
    and "reads 1 (keystore_is_v3 (path_join dir KEYSTORE_FILE)) w protected"
    and "reads 1 (std_exists (path_join dir ANCHORS_FILE)) w file_anchors"
  obtains probe t mk pr fa chosen where "probe_secure secure account s = (probe, t)"
    and "choose_backend probe mk pr fa = Inr chosen" and "peek t = peek s"
    and "mk = marker \<and> pr = protected \<and> fa = file_anchors \<or>
      (\<exists>i. io_calls w \<le> i \<and> i < io_calls w + 4 \<and> io_faults w i \<noteq> None)"
    and "chosen = SecureStorage \<and> probe = ProbeEmpty \<and>
        (backend = SecureStorage \<and> (\<exists>b. peek s' = (peek s)(account \<mapsto> b)) \<or>
         backend = DegradedFile \<and> \<not> pr \<and> (\<forall>k. k \<noteq> account \<longrightarrow> peek s' k = peek s k)) \<or>
      \<not> (chosen = SecureStorage \<and> probe = ProbeEmpty) \<and> backend = chosen \<and> peek s' = peek s"
proof -
  obtain r1 w1 where 1: "read_backend_marker (path_join dir ANCHORS_BACKEND_FILE) w = (r1, w1)" by force
  note m1 = readsD [OF assms(3) refl 1]
  obtain r2 w2 where 2: "keystore_is_v3 (path_join dir KEYSTORE_FILE) w1 = (r2, w2)" by force
  note m2 = readsD [OF assms(4) m1(2) 2]
  obtain r3 w3 where 3: "std_exists (path_join dir ANCHORS_FILE) w2 = (r3, w3)" by force
  note m3 = readsD [OF assms(5) m2(2) 3]
  from m1(1) m2(1) m3(1) obtain mk pr fa where r: "r1 = Inr mk" "r2 = Inr pr" "r3 = Inr fa"
    and ok: "mk = marker \<or> call_failed w w1" "pr = protected \<or> call_failed w1 w2" "fa = file_anchors \<or> call_failed w2 w3" by blast
  have late: "call_failed u u' \<Longrightarrow> \<exists>i. io_calls w \<le> i \<and> i < io_calls w + 4 \<and> io_faults w i \<noteq> None"
    if "io_faults u = io_faults w" "io_calls w \<le> io_calls u" "io_calls u' \<le> io_calls w + 4" for u u'
    using that unfolding call_failed_def by (metis le_trans order.strict_trans2)
  have read: "mk = marker \<and> pr = protected \<and> fa = file_anchors \<or>
      (\<exists>i. io_calls w \<le> i \<and> i < io_calls w + 4 \<and> io_faults w i \<noteq> None)"
    using ok late [of w w1] late [of w1 w2] late [of w2 w3] m1(3,5,6) m2(3,5,6) m3(3,5,6) by fastforce
  obtain probe t where p: "probe_secure secure account s = (probe, t)" by force
  have t: "peek t = peek s" using assms(1) p anchor_storage.load_keeps
    by (fastforce simp: probe_secure_def split: option.splits prod.splits sum.splits)
  let ?rest = "\<lambda>chosen. bnd (if chosen = SecureStorage \<and> probe = ProbeEmpty
          then establish_secure_anchor_record C secure account pr else ret chosen) (\<lambda>backend.
       let wanted = (case backend of SecureStorage \<Rightarrow> SecureMarker | DegradedFile \<Rightarrow> DegradedMarker) in
       bnd (if mk \<noteq> Some wanted then write_backend_marker L dir backend else ret ()) (\<lambda>_. ret backend))"
  have "bnd (lift (choose_backend probe mk pr fa)) ?rest (t, w3) = (Inr backend, (s', w'))"
    using assms(2) 1 2 3 p unfolding r select_anchor_backend_def by (simp add: bnd_def core_io_def)
  then obtain chosen where c: "choose_backend probe mk pr fa = Inr chosen"
    and rest: "?rest chosen (t, w3) = (Inr backend, (s', w'))"
    by (auto simp: bnd_eq_Inr)
  obtain x where x: "(if chosen = SecureStorage \<and> probe = ProbeEmpty
          then establish_secure_anchor_record C secure account pr else ret chosen) (t, w3) = (Inr backend, (s', x))"
    using rest write_marker_storage by (fastforce simp: bnd_eq_Inr Let_def split: if_splits)
  have "\<exists>S. secure = Some S" if "probe = ProbeEmpty"
    using p that by (auto simp: probe_secure_def split: option.splits)
  then show thesis
    using that [OF p c t read] x assms(1) t establish_run [of _ peek C account pr t w3 backend s' x]
    by (cases "chosen = SecureStorage \<and> probe = ProbeEmpty") auto
qed

lemma established_select:
  assumes "so_load S account s = (Inr (Some b), t)" and "no_faults w" and "rng_answers w"
    and "replaceable L dir ANCHORS_BACKEND_FILE (fs_get w)"
  shows "\<exists>s' w'. select_anchor_backend L C dir account (Some S) (s, w) = (Inr SecureStorage, (s', w'))"
proof -
  from reads_marker reads_v3 reads_exists obtain marker protected file_anchors where
    l: "reads 2 (read_backend_marker (path_join dir ANCHORS_BACKEND_FILE)) w marker"
      "reads 1 (keystore_is_v3 (path_join dir KEYSTORE_FILE)) w protected" "reads 1 (std_exists (path_join dir ANCHORS_FILE)) w file_anchors"
    by metis
  obtain r1 w1 where 1: "read_backend_marker (path_join dir ANCHORS_BACKEND_FILE) w = (r1, w1)" by force
  note m1 = reads_calm [OF l(1) assms(2) refl 1]
  obtain r2 w2 where 2: "keystore_is_v3 (path_join dir KEYSTORE_FILE) w1 = (r2, w2)" by force
  note m2 = reads_calm [OF l(2) _ _ 2]
  obtain r3 w3 where 3: "std_exists (path_join dir ANCHORS_FILE) w2 = (r3, w3)" by force
  note m3 = reads_calm [OF l(3) _ _ 3]
  have r: "r1 = Inr marker" "r2 = Inr protected" "r3 = Inr file_anchors" and w3: "calm w3 (fs_get w)"
    using m1 m2 m3 assms(3) by (auto simp: calm_def rng_answers_def rng_fills_def)
  obtain w4 where "with_writer L (path_join dir ANCHORS_BACKEND_FILE) (\<lambda>sw. sw_write_all sw (as_bytes (BACKEND_MARKER_SECURE @ [CHR 0x0A]))) sw_commit w3
      = (Inr (), w4)"
    using runs_toD [OF runs_with_writer [OF assms(4)] w3] by blast
  then have "write_backend_marker L dir SecureStorage (t, w3) = (Inr (), (t, w4))"
    by (simp add: write_backend_marker_def write_private_atomic_def write_private_export_def core_io_def)
  moreover have "probe_secure (Some S) account s = (Established, t)" using assms(1) by (simp add: probe_secure_def)
  moreover have "choose_backend Established marker protected file_anchors = Inr SecureStorage" by (simp add: choose_backend_def)
  ultimately show ?thesis
    using 1 2 3 unfolding r select_anchor_backend_def
    by (cases "marker = Some SecureMarker") (simp_all add: bnd_def core_io_def)
qed

subsection \<open>Properties\<close>

text \<open>C3. The keystore never goes back. Let the application save, confirm and load keystores in any
  order, with any of these failing, while the data directory is rewritten in between in any way
  whatever; the anchors are in a secure storage that keeps its contract. Once a state was saved or
  confirmed, every state that is saved, confirmed or loaded later belongs to the same identity, is
  of the same epoch or a later one, and has the same hash if it is of the same epoch.\<close>

theorem keystore_never_rolls_back:
  assumes "anchor_storage S peek" and "env_secure E = Some S" and "st_backend st = SecureStorage"
    and "codec_ok anchor_typed (ac_object (sc_anchors (env_codecs E)))" and "blake3_lengths (env_lib E)" and "hexlower_spec (env_lib E)"
    and "keystore_run E st (\<lambda>s. anchor_view (env_lib E) (sc_anchors (env_codecs E)) st (peek s)) start es sw"
    and "i < j" and "j < length es" and "es ! i = Kept m" and "m' = event_state (es ! j)"
  shows "sm_identity_fingerprint m' = sm_identity_fingerprint m \<and> sm_epoch m \<le> sm_epoch m' \<and>
    (sm_epoch m' = sm_epoch m \<longrightarrow> sm_current_state_hash m' = sm_current_state_hash m)"
proof -
  have "secure_store S peek E st"
    using assms(1-6) by (simp add: secure_store_def secure_store_axioms_def)
  from secure_store.keystore_run_invariant [OF this assms(7)] assms(8-11)
  show ?thesis by (auto simp: above_def from_metadata_def)
qed

text \<open>C14. An interrupted save loses nothing. The store holds a keystore with its anchor and saves
  another; the save may fail at any call, from the first to the last, or the process may die there
  (all later calls fail). When the secure storage and the file system work again, loading succeeds
  and gives the new keystore, or the old one if the save reported an error.\<close>

theorem interrupted_save_still_loads:
  assumes "anchor_storage S peek" and "env_secure E = Some S" and "st_backend st = SecureStorage"
    and "codec_ok anchor_typed (ac_object (sc_anchors (env_codecs E)))" and "blake3_lengths (env_lib E)" and "hexlower_spec (env_lib E)"
    and "rng_fills w" and "fs_get w (keystore_path st) = Some (FileNode b0)"
    and "ks_from_bytes (env_lib E) (sc_keys (env_codecs E)) b0 = Inr ks0" and "ks_state_metadata ks0 = Some m0"
    and "anchor_view (env_lib E) (sc_anchors (env_codecs E)) st (peek s) Keystore KEYSTORE_ID = Some (from_metadata m0)"
    and "ks_to_bytes (env_lib E) (sc_keys (env_codecs E)) ks1 = Inr b1" and "ks_from_bytes (env_lib E) (sc_keys (env_codecs E)) b1 = Inr ks1"
    and "length b0 \<le> unat MAX_KEYSTORE_FILE_LEN" and "length b1 \<le> unat MAX_KEYSTORE_FILE_LEN"
    and "save_keystore E st ks1 (s, w) = (r, (s', w'))"
    and "storage_answers S up" and "up t" and "anchors_small (sc_anchors (env_codecs E))"
    and "peek t = peek s'" and "no_faults v" and "fs_get v = fs_get w'"
  shows "\<exists>ks sw. load_keystore E st (t, v) = (Inr ks, sw) \<and> (ks = ks1 \<or> \<not> is_ok r \<and> ks = ks0)"
proof -
  have "secure_store S peek E st"
    using assms(1-6) by (simp add: secure_store_def secure_store_axioms_def)
  from secure_store.interrupted_save_loads [OF this assms(7-22)] show ?thesis .
qed

text \<open>C39. The choice of the backend fails closed, as far as the data directory can be read. Whatever
  the directory holds, whatever calls fail and whether or not there is a secure storage, opening a
  store leaves every anchor in the secure storage as it was; if the storage answers with the store's
  root record the backend is the secure storage; and if the secure storage is chosen, a root record is
  in it. A store with a signed keystore on disk is only opened in the degraded mode if the marker on disk
  says degraded, if there is no marker but a file of anchors, or if one of the first four calls,
  those that read the directory, failed: the code takes a failing call for a missing marker, an unsigned
  keystore or a missing file of anchors. What is on disk is what the readers answer in the world with
  the same files where every call answers.\<close>

theorem backend_choice_fails_closed:
  assumes "\<forall>S. secure = Some S \<longrightarrow> anchor_storage S peek"
    and "select_anchor_backend L C dir account secure (s, w) = (Inr backend, (s', w'))"
    and "on_disk = w\<lparr>io_faults := (\<lambda>_. None)\<rparr>"
  shows "(\<forall>k. k \<noteq> account \<longrightarrow> peek s' k = peek s k) \<and>
    ((\<exists>S b t. secure = Some S \<and> so_load S account s = (Inr (Some b), t)) \<longrightarrow> backend = SecureStorage \<and> peek s' = peek s) \<and>
    (backend = SecureStorage \<longrightarrow> peek s' account \<noteq> None) \<and>
    (backend = DegradedFile \<and> fst (keystore_is_v3 (path_join dir KEYSTORE_FILE) on_disk) = Inr True \<longrightarrow>
       fst (read_backend_marker (path_join dir ANCHORS_BACKEND_FILE) on_disk) = Inr (Some DegradedMarker) \<or>
       fst (read_backend_marker (path_join dir ANCHORS_BACKEND_FILE) on_disk) = Inr None \<and>
       fst (std_exists (path_join dir ANCHORS_FILE) on_disk) = Inr True \<or>
       (\<exists>i. io_calls w \<le> i \<and> i < io_calls w + 4 \<and> io_faults w i \<noteq> None))"
proof -
  from reads_marker reads_v3 reads_exists obtain marker protected file_anchors where
    l: "reads 2 (read_backend_marker (path_join dir ANCHORS_BACKEND_FILE)) w marker"
      "reads 1 (keystore_is_v3 (path_join dir KEYSTORE_FILE)) w protected" "reads 1 (std_exists (path_join dir ANCHORS_FILE)) w file_anchors"
    by metis
  have "no_faults on_disk" "fs_get on_disk = fs_get w" by (auto simp: assms(3) no_faults_def fs_get_def)
  note here = l [THEN reads_answer, OF this]
  from select_backend_run [OF assms(1,2) l] obtain probe t mk pr fa chosen where
    p: "probe_secure secure account s = (probe, t)" and c: "choose_backend probe mk pr fa = Inr chosen"
    and read: "mk = marker \<and> pr = protected \<and> fa = file_anchors \<or>
      (\<exists>i. io_calls w \<le> i \<and> i < io_calls w + 4 \<and> io_faults w i \<noteq> None)"
    and run: "chosen = SecureStorage \<and> probe = ProbeEmpty \<and>
        (backend = SecureStorage \<and> (\<exists>b. peek s' = (peek s)(account \<mapsto> b)) \<or>
         backend = DegradedFile \<and> \<not> pr \<and> (\<forall>k. k \<noteq> account \<longrightarrow> peek s' k = peek s k)) \<or>
      \<not> (chosen = SecureStorage \<and> probe = ProbeEmpty) \<and> backend = chosen \<and> peek s' = peek s" .
  have held: "probe = Established \<longleftrightarrow> (\<exists>S b t. secure = Some S \<and> so_load S account s = (Inr (Some b), t))"
    using p by (auto simp: probe_secure_def split: prod.splits sum.splits option.splits)
  have est: "probe = Established \<Longrightarrow> peek s account \<noteq> None"
    using held assms(1) anchor_storage.load_answers by fastforce
  have sec: "chosen = SecureStorage \<Longrightarrow> probe = Established \<or> probe = ProbeEmpty"
    using c by (cases probe) (auto simp: choose_backend_def split: if_splits)
  have first: "probe = Established \<Longrightarrow> chosen = SecureStorage" using c by (simp add: choose_backend_def)
  have deg: "backend = DegradedFile \<Longrightarrow> pr \<Longrightarrow> mk = Some DegradedMarker \<or> mk = None \<and> fa"
    using run choose_backend_degraded [of probe mk pr fa] c by auto
  show ?thesis
  proof (intro conjI impI)
    show "\<forall>k. k \<noteq> account \<longrightarrow> peek s' k = peek s k" using run by auto
    show "backend = SecureStorage" "peek s' = peek s" if "\<exists>S b t. secure = Some S \<and> so_load S account s = (Inr (Some b), t)"
      using that held first run by auto
    show "peek s' account \<noteq> None" if "backend = SecureStorage"
      using that est sec run by auto
    assume "backend = DegradedFile \<and> fst (keystore_is_v3 (path_join dir KEYSTORE_FILE) on_disk) = Inr True"
    then show "fst (read_backend_marker (path_join dir ANCHORS_BACKEND_FILE) on_disk) = Inr (Some DegradedMarker) \<or>
       fst (read_backend_marker (path_join dir ANCHORS_BACKEND_FILE) on_disk) = Inr None \<and>
       fst (std_exists (path_join dir ANCHORS_FILE) on_disk) = Inr True \<or>
       (\<exists>i. io_calls w \<le> i \<and> i < io_calls w + 4 \<and> io_faults w i \<noteq> None)"
      using deg read unfolding here by blast
  qed
qed

text \<open>C40. The degraded mode fails open. With the anchors in a file of the data directory, if the call
  that looks for this file fails, for whatever reason (a permission, an I/O error), the file counts
  as absent: the check of a loaded state passes for every state, an older one included.\<close>

theorem degraded_check_fails_open:
  assumes "st_backend st = DegradedFile" and "io_faults w (io_calls w) = Some k"
  shows "fst (check_loaded_state L C secure st m path (s, w)) = Inr ()"
proof -
  have "fst (std_exists (anchors_path st) w) = Inr False"
    using assms(2) by (auto simp: std_exists_def std_metadata_def syscall_def attempt_def bnd_def Let_def)
  then show ?thesis
    using assms(1)
    by (cases "std_exists (anchors_path st) w")
       (simp add: check_loaded_state_def guarded_def attempt_def bnd_def get_anchor_def load_file_anchor_set_def core_io_def)
qed

text \<open>A directory with a keystore in it, whose calls fail from some call on.\<close>

definition keystore_world :: "u64 \<Rightarrow> nat \<Rightarrow> world" where
  "keystore_world n dies =
     demo_world\<lparr>fs := [(''d'', DirNode), (''d/keystore.fsk'', FileNode (demo_v3_bytes n))],
       io_faults := (\<lambda>k. if k < dies then None else Some OtherIo)\<rparr>"

lemma keystore_world_file: "fs_get (keystore_world n dies) (keystore_path demo_store) = Some (FileNode (demo_v3_bytes n))"
  by (simp add: keystore_world_def keystore_path_def demo_store_def KEYSTORE_FILE_def path_join_def fs_get_def)

abbreviation storage_up :: "memory_anchor_storage \<Rightarrow> bool" where
  "storage_up \<equiv> \<lambda>s. \<not> ms_unavailable s \<and> \<not> ms_fail_saves s \<and> ms_capacity s = None"

theorem keystore_never_rolls_back_witness:
  "\<exists>es sw. keystore_run demo_env demo_store (\<lambda>s. anchor_view demo_lib demo_anchors demo_store (peek_memory s)) (demo_anchored 1, demo_world) es sw \<and>
     es = [Kept (demo_state 1), Loaded (demo_state 2)] \<and> sm_epoch (demo_state 1) \<le> sm_epoch (demo_state 2) \<and>
     sm_identity_fingerprint (demo_state 2) = sm_identity_fingerprint (demo_state 1)"
proof -
  let ?ks = "\<lambda>n. V3 (demo_v3 n)"
  have env: "env_lib demo_env = demo_lib" "sc_anchors (env_codecs demo_env) = demo_anchors" "env_secure demo_env = Some memory_storage"
    "sc_keys (env_codecs demo_env) = demo_keystore"
    by (simp_all add: demo_env_def demo_store_codecs_def)
  have st: "ks_state_metadata (?ks n) = Some (demo_state n)" for n by (simp add: ks_state_metadata_def demo_v3_def)
  have same: "check_candidate (from_metadata (demo_state 1)) (demo_state 1) = Inr False" by (simp add: check_candidate_eq_False)
  have up0: "storage_up (demo_anchored 1)" by (simp add: demo_anchored_def ms_new_def)
  obtain s1 where g: "get_anchor demo_lib demo_anchors (Some memory_storage) demo_store Keystore KEYSTORE_ID (demo_anchored 1, demo_world)
      = (Inr (Some (from_metadata (demo_state 1))), (s1, demo_world))" and up1: "storage_up s1"
    using demo.get_anchor_answers [OF demo_storage_answers up0 demo_anchored_view, unfolded env] by blast
  have c: "confirm_unlocked_keystore demo_env demo_store (?ks 1) demo_identity (demo_anchored 1, demo_world) = (Inr (), (s1, demo_world))"
    using g same
    by (simp add: confirm_unlocked_keystore_def st env accept_state_def guarded_def attempt_def bnd_def)
       (simp add: demo_state_def id_fingerprint_def)
  have m: "metadata_sized (demo_state n)" for n by (simp add: metadata_sized_def demo_state_def fingerprint_def demo_lib_def)
  have v1: "demo.V s1 Keystore KEYSTORE_ID = Some (from_metadata (demo_state 1))"
    using demo.confirm_keystore_run [OF c st m] raised_at [of "demo_state 1"] by (simp add: demo_state_def)
  let ?w = "keystore_world 2 100\<lparr>io_faults := (\<lambda>_. None)\<rparr>"
  have f: "no_faults ?w" "fs_get ?w (keystore_path demo_store) = Some (FileNode (demo_v3_bytes 2))"
    using keystore_world_file [of 2 100] by (simp_all add: no_faults_def fs_get_def)
  have newer: "check_candidate (from_metadata (demo_state 1)) (demo_state 2) = Inr True"
    by (simp add: check_candidate_def from_metadata_def demo_state_def saturating_add_def checked_add_def)
  obtain sw where l: "load_keystore demo_env demo_store (s1, ?w) = (Inr (?ks 2), sw)"
    using demo.load_keystore_returns [OF demo_storage_answers up1 _ f demo_v3_small _ st v1 newer] demo_anchors_small
      demo_v3_file(2) [of 2] by (auto simp: env)
  let ?V = "\<lambda>s. anchor_view demo_lib demo_anchors demo_store (peek_memory s)"
  have "keystore_run demo_env demo_store ?V (demo_anchored 1, demo_world) ([] @ [Kept (demo_state 1)]) (s1, demo_world)"
    using keystore_run.confirmed [OF keystore_run.begun c st _ _ m] by (simp add: demo_state_def)
  then have "keystore_run demo_env demo_store ?V (demo_anchored 1, demo_world) [Kept (demo_state 1)] (s1, ?w)"
    using keystore_run.tampered by fastforce
  from keystore_run.loaded [OF this l st] have run: "keystore_run demo_env demo_store ?V (demo_anchored 1, demo_world)
      [Kept (demo_state 1), Loaded (demo_state 2)] sw" by simp
  from keystore_never_rolls_back [OF memory.anchor_storage_axioms demo.secure(1,2) demo.object_codec demo.hashes demo.hex, unfolded env, OF run,
      of 0 1 "demo_state 1" "demo_state 2"]
  have "sm_epoch (demo_state 1) \<le> sm_epoch (demo_state 2)" "sm_identity_fingerprint (demo_state 2) = sm_identity_fingerprint (demo_state 1)"
    by simp_all
  then show ?thesis using run by blast
qed

theorem interrupted_save_still_loads_witness:
  "case save_keystore demo_env demo_store (V3 (demo_v3 2)) (demo_anchored 1, keystore_world 1 6) of
     (r, (s', w')) \<Rightarrow> \<exists>ks sw. load_keystore demo_env demo_store
        (s'\<lparr>ms_unavailable := False, ms_fail_saves := False, ms_capacity := None\<rparr>, w'\<lparr>io_faults := (\<lambda>_. None)\<rparr>) = (Inr ks, sw) \<and>
        ks \<in> {V3 (demo_v3 1), V3 (demo_v3 2)}"
proof -
  have env: "env_lib demo_env = demo_lib" "sc_anchors (env_codecs demo_env) = demo_anchors" "env_secure demo_env = Some memory_storage"
    "sc_keys (env_codecs demo_env) = demo_keystore"
    by (simp_all add: demo_env_def demo_store_codecs_def)
  have st: "ks_state_metadata (V3 (demo_v3 n)) = Some (demo_state n)" for n by (simp add: ks_state_metadata_def demo_v3_def)
  obtain r s' w' where s: "save_keystore demo_env demo_store (V3 (demo_v3 2)) (demo_anchored 1, keystore_world 1 6) = (r, (s', w'))"
    by (metis prod_cases3)
  let ?t = "s'\<lparr>ms_unavailable := False, ms_fail_saves := False, ms_capacity := None\<rparr>"
  let ?v = "w'\<lparr>io_faults := (\<lambda>_. None)\<rparr>"
  have rng: "rng_fills (keystore_world 1 6)" by (simp add: rng_fills_def keystore_world_def demo_world_def)
  have t: "storage_up ?t" "peek_memory ?t = peek_memory s'" "no_faults ?v" "fs_get ?v = fs_get w'"
    by (auto simp: peek_memory_def no_faults_def fs_get_def fun_eq_iff)
  have small: "anchors_small (sc_anchors (env_codecs demo_env))" using demo_anchors_small by (simp add: env)
  have "length (demo_v3_bytes 1) \<le> unat MAX_KEYSTORE_FILE_LEN" "length (demo_v3_bytes 2) \<le> unat MAX_KEYSTORE_FILE_LEN"
    by (rule demo_v3_small, simp)+
  from interrupted_save_still_loads [OF memory.anchor_storage_axioms demo.secure(1,2) demo.object_codec demo.hashes demo.hex rng
      keystore_world_file _ st demo_anchored_view _ _ this s demo_storage_answers t(1) small t(2-4)]
  obtain ks sw where "load_keystore demo_env demo_store (?t, ?v) = (Inr ks, sw)" "ks = V3 (demo_v3 2) \<or> \<not> is_ok r \<and> ks = V3 (demo_v3 1)"
    using demo_v3_file [of 1] demo_v3_file [of 2] by (auto simp: env)
  then show ?thesis using s by auto
qed

definition rooted :: memory_anchor_storage where
  "rooted = ms_new\<lparr>ms_records := [(''/d'', [0, 2])]\<rparr>"

definition planted :: world where
  "planted = demo_world\<lparr>fs := [(''d'', DirNode), (''d/.state-anchor-backend'', FileNode (replicate 65 0))]\<rparr>"

lemma planted_replaceable: "replaceable demo_lib ''d'' ANCHORS_BACKEND_FILE (fs_get planted)"
proof -
  have temp: "t \<noteq> ''.state-anchor-backend''" if "is_safe_writer_temp t" for t
    using that by (auto simp: is_safe_writer_temp_def strip_prefix_def split: if_splits)
  show ?thesis
    using temp
    by (auto simp: replaceable_def demo_specs ANCHORS_BACKEND_FILE_def planted_def fs_get_def path_join_eq tidy_def
        is_safe_writer_temp_def strip_prefix_def)
qed

theorem backend_choice_fails_closed_witness:
  "\<exists>s' w'. select_anchor_backend demo_lib demo_anchors ''d'' ''/d'' (Some memory_storage) (rooted, planted) = (Inr SecureStorage, (s', w')) \<and>
     peek_memory s' = peek_memory rooted"
proof -
  have w: "no_faults planted" "rng_answers planted"
    by (simp_all add: no_faults_def planted_def demo_world_def rng_answers_def rng_fills_def)
  obtain t where t: "so_load memory_storage ''/d'' rooted = (Inr (Some [0, 2]), t)"
    by (simp add: memory_storage_def ms_load_def rooted_def ms_new_def bnd_def check_available_def)
  obtain s' w' where r: "select_anchor_backend demo_lib demo_anchors ''d'' ''/d'' (Some memory_storage) (rooted, planted) = (Inr SecureStorage, (s', w'))"
    using established_select [OF t w planted_replaceable] by blast
  have "\<forall>S. Some memory_storage = Some S \<longrightarrow> anchor_storage S peek_memory" using memory.anchor_storage_axioms by simp
  from backend_choice_fails_closed [OF this r refl] r t show ?thesis by blast
qed

theorem degraded_check_fails_open_witness:
  "fst (check_loaded_state demo_lib demo_anchors None (demo_store\<lparr>st_backend := DegradedFile\<rparr>) (demo_state 1) ''d/keystore.fsk''
     (ms_new, keystore_world 1 0)) = Inr ()"
  by (rule degraded_check_fails_open) (simp_all add: keystore_world_def)

end
