(* ===== verification/V2_Import.thy ===== *)
theory V2_Import
  imports V2_Commit V1_Container
begin

section \<open>A vault from a transport container (format_v2.rs)\<close>

text \<open>
  A verified container is transcoded into a fresh at-rest vault, file by file: its plaintext is one
  stream in the order of the entries, so each file is the next part of it.
\<close>

text \<open>\<open>take\<close> on a reader that is used afterwards: what the limited reader delivers, and the rest.\<close>

fun take_source :: "nat \<Rightarrow> source \<Rightarrow> source \<times> source" where
  "take_source n [] = ([], [])"
| "take_source n (x # r) =
     (if n = 0 then ([], x # r)
      else case x of
             Inl e \<Rightarrow> (case take_source n r of (a, b) \<Rightarrow> (Inl e # a, b))
           | Inr seg \<Rightarrow>
               if length seg \<le> n then (case take_source (n - length seg) r of (a, b) \<Rightarrow> (Inr seg # a, b))
               else ([Inr (take n seg)], Inr (drop n seg) # r))"

definition restage_v1_entry :: "lib \<Rightarrow> entry \<Rightarrow> source \<times> u64 \<Rightarrow> (vault_batch \<times> world, source \<times> u64) op" where
  "restage_v1_entry L e st =
     (case st of (plaintext, offset) \<Rightarrow>
      case en_kind e of
        Dir \<Rightarrow> bnd (on_fst (add_dir_trusted (en_path e))) (\<lambda>_. ret (plaintext, offset))
      | File \<Rightarrow>
          if en_data_offset e \<noteq> offset then throw (Format ''non-contiguous data offset'')
          else
            case take_source (unat (en_size e)) plaintext of (src, rest) \<Rightarrow>
              bnd (put_stream_trusted L (en_path e) (en_blake3 e) (en_size e) src (en_mtime e) (en_mode e)) (\<lambda>_.
              bnd (lift (ok_or (Format ''size overflow'') (checked_add offset (en_size e)))) (\<lambda>offset.
                ret (rest, offset))))"

definition end_of_stream :: "source \<Rightarrow> unit result" where
  "end_of_stream src =
     rbind (fst (read 1 src)) (\<lambda>b. if b = [] then Inr () else Inl (Format ''trailing data after last entry''))"

definition from_reader_v1_inner ::
  "lib \<Rightarrow> v2_codecs \<Rightarrow> string \<Rightarrow> identity \<Rightarrow> suite_id \<Rightarrow> vault_reader \<Rightarrow> string option \<Rightarrow> vault_reader_v2 io" where
  "from_reader_v1_inner L C dir i suite reader object_id =
     bnd (created L C dir i suite (mf_vault_name (vr_manifest reader)) (mf_created_at (vr_manifest reader)) object_id) (\<lambda>me.
     bnd (plaintext_reader L reader) (\<lambda>plaintext.
     filled L C
       (bnd (io_fold (restage_v1_entry L) (vr_entries reader) (plaintext, 0)) (\<lambda>(plaintext, _). lift (end_of_stream plaintext)))
       me))"

definition from_reader_v1 ::
  "lib \<Rightarrow> v2_codecs \<Rightarrow> string \<Rightarrow> identity \<Rightarrow> suite_id \<Rightarrow> vault_reader \<Rightarrow> vault_reader_v2 io" where
  "from_reader_v1 L C dir i suite reader = from_reader_v1_inner L C dir i suite reader None"

definition from_reader_v1_with_object_id ::
  "lib \<Rightarrow> v2_codecs \<Rightarrow> string \<Rightarrow> identity \<Rightarrow> suite_id \<Rightarrow> vault_reader \<Rightarrow> string \<Rightarrow> vault_reader_v2 io" where
  "from_reader_v1_with_object_id L C dir i suite reader object_id = from_reader_v1_inner L C dir i suite reader (Some object_id)"

lemma take_source_content:
  assumes "flowing r" and "take_source n r = (a, b)"
  shows "flowing a \<and> flowing b \<and> content a = take n (content r) \<and> content b = drop n (content r)"
  using assms
proof (induction n r arbitrary: a b rule: take_source.induct)
  case (2 n x r)
  then obtain seg where x: "x = Inr seg" "seg \<noteq> []" "flowing r" by (auto simp: flowing_Cons)
  show ?case
  proof (cases "n = 0 \<or> n < length seg")
    case True
    then show ?thesis using 2(4) 2(3) x by (auto simp: flowing_Cons split: if_splits)
  next
    case False
    obtain a' b' where t: "take_source (n - length seg) r = (a', b')" by force
    from 2(2) [OF _ x(1) _ x(3) t] False 2(4) t x show ?thesis by (auto simp: flowing_Cons)
  qed
qed simp

end
