(* ===== verification/Store_Vaults.thy ===== *)
theory Store_Vaults
  imports Store_Objects V2_Import "HOL-Library.List_Lexorder" "HOL-Library.Char_ord"
begin

section \<open>The vaults of the local store (store.rs)\<close>

text \<open>
  Creating, opening, changing and deleting vaults as transactions of the store: the directory of a
  vault under its rollback anchor, staged creation, the check that a change starts from the current
  state, deletion through tombstones, and what puts the registry and the directories back in
  agreement after an interruption. File names are taken to be UTF-8, every file has one name, and
  permissions are not modelled.
\<close>

subsection \<open>Directories and wiping\<close>

definition std_remove_any :: "string \<Rightarrow> unit io" where
  "std_remove_any p = syscall (\<lambda>w. if fs_get w p = None then not_found w else (Inr (), fs_del p w))"

text \<open>\<open>remove_dir_all\<close>: one call for each thing in the directory, what is deeper first, then the
  directory itself; a link is removed, not followed.\<close>

definition beneath_paths :: "string \<Rightarrow> world \<Rightarrow> string list" where
  "beneath_paths p w = rev (sort_key length (filter (prefix (p @ ''/'')) (map fst (fs w))))"

definition std_remove_dir_all :: "string \<Rightarrow> unit io" where
  "std_remove_dir_all p =
     bnd (std_symlink_metadata p) (\<lambda>n.
       case n of
         FileNode _ \<Rightarrow> throw (Io (IoKind OtherIo))
       | SymlinkNode _ \<Rightarrow> std_remove_file p
       | DirNode \<Rightarrow> bnd (gets (beneath_paths p)) (\<lambda>qs. io_for std_remove_any (qs @ [p])))"

text \<open>A write at an offset of an open file.\<close>

definition std_overwrite :: "string \<Rightarrow> nat \<Rightarrow> bytes \<Rightarrow> unit io" where
  "std_overwrite p off b = syscall (\<lambda>w. case fs_get w p of
       Some (FileNode old) \<Rightarrow> (Inr (), fs_put p (FileNode (take off old @ b @ drop (off + length b) old)) w)
     | _ \<Rightarrow> not_found w)"

definition WIPE_BLOCK :: nat where "WIPE_BLOCK = 64 * 1024"

function wipe_loop :: "string \<Rightarrow> nat \<Rightarrow> nat \<Rightarrow> unit io" where
  "wipe_loop p written len =
     (if written < len
      then
        let n = min (len - written) WIPE_BLOCK in
        bnd (random_vec n) (\<lambda>buf.
        bnd (std_overwrite p written buf) (\<lambda>_. wipe_loop p (written + n) len))
      else ret ())"
  by pat_completeness auto
termination by (relation "measure (\<lambda>(p, written, len). len - written)") (auto simp: WIPE_BLOCK_def)

declare wipe_loop.simps [simp del]

definition secure_wipe :: "string \<Rightarrow> ('s, unit) sop" where
  "secure_wipe path =
     bnd (core_io (attempt (std_symlink_metadata path))) (\<lambda>m.
       case m of
         Inl e \<Rightarrow> if has_kind NotFound e then ret () else throw (Shown e)
       | Inr (SymlinkNode _) \<Rightarrow> core_io (std_remove_file path)
       | Inr DirNode \<Rightarrow> throw (Msg ''refusing to wipe a non-regular file'')
       | Inr (FileNode b) \<Rightarrow>
           core_io (
             bnd (std_open_read path) (\<lambda>_.
             bnd (wipe_loop path 0 (length b)) (\<lambda>_.
             bnd (std_sync path) (\<lambda>_.
             std_remove_file path)))))"

definition wipe_vault_dir :: "string \<Rightarrow> ('s, unit) sop" where
  "wipe_vault_dir dir =
     bnd (core_io (attempt (std_read_dir (path_join dir BLOBS_DIR)))) (\<lambda>rd.
     bnd (case rd of
            Inr names \<Rightarrow> io_for (\<lambda>n. ignored (secure_wipe (path_join (path_join dir BLOBS_DIR) n))) names
          | Inl _ \<Rightarrow> ret ()) (\<lambda>_.
     bnd (ignored (secure_wipe (path_join dir MANIFEST_FILE))) (\<lambda>_.
     bnd (ignored (secure_wipe (path_join dir HEADER_FILE))) (\<lambda>_.
     ignored (core_io (std_remove_dir_all dir))))))"

subsection \<open>Committing a change of a vault\<close>

definition STALE_STATE :: string where "STALE_STATE = ''this vault changed since it was opened''"

definition NO_STATE :: store_error where "NO_STATE = Msg ''vault has no rollback-protection metadata''"

text \<open>A core operation on a reader that the store holds, which it changes.\<close>

definition on_reader :: "vault_reader_v2 \<Rightarrow> (vault_reader_v2 \<times> world, 'a) op \<Rightarrow> ('s, vault_reader_v2) sop" where
  "on_reader reader m = (\<lambda>(s, w). case m (reader, w) of (r, (reader', w')) \<Rightarrow> (map_sum Shown (\<lambda>_. reader') r, (s, w')))"

definition commit_vault_reader :: "'s store_env \<Rightarrow> store \<Rightarrow> vault_reader_v2 \<Rightarrow> ('s, unit) sop" where
  "commit_vault_reader E st reader =
     bnd (lift (ok_or NO_STATE (v2_state reader))) (\<lambda>state. env_commit E st state)"

definition ensure_current_vault :: "'s store_env \<Rightarrow> store \<Rightarrow> vault_reader_v2 \<Rightarrow> ('s, unit) sop" where
  "ensure_current_vault E st reader =
     bnd (lift (ok_or NO_STATE (v2_state reader))) (\<lambda>state.
     bnd (current_anchor (env_lib E) (sc_anchors (env_codecs E)) (env_secure E) st (sm_identity_fingerprint state)
            (sm_object_type state) (sm_object_id state)) (\<lambda>m.
       case m of
         Some anchor \<Rightarrow>
           if sa_epoch anchor \<noteq> sm_epoch state \<or> sa_current_state_hash anchor \<noteq> sm_current_state_hash state
           then throw (Msg (STALE_STATE @ ''; reopen it and try again (vault '' @ sm_object_id state @ '')''))
           else ret ()
       | None \<Rightarrow> ret ()))"

text \<open>The reader is a copy: what the change leaves of it after an error is dropped.\<close>

definition mutate_vault ::
  "'s store_env \<Rightarrow> store \<Rightarrow> vault_reader_v2 \<Rightarrow> (vault_reader_v2 \<times> world, unit) op \<Rightarrow> ('s, unit) sop" where
  "mutate_vault E st reader mutate =
     bnd (lift (ok_or NO_STATE (v2_state reader))) (\<lambda>_.
     bnd (ensure_current_vault E st reader) (\<lambda>_.
     bnd (on_reader reader mutate) (\<lambda>writer. commit_vault_reader E st writer)))"

definition slice_chunks :: "nat \<Rightarrow> 'a list \<Rightarrow> 'a list list" where
  "slice_chunks n xs = (if xs = [] then [] else chunks_of n xs)"

definition commit_chunk ::
  "'s store_env \<Rightarrow> store \<Rightarrow> v2_codecs \<Rightarrow> ('a \<Rightarrow> (vault_batch \<times> world, unit) op) \<Rightarrow> 'a list \<Rightarrow> vault_reader_v2 \<Rightarrow> ('s, vault_reader_v2) sop" where
  "commit_chunk E st C2 act items writer =
     bnd (on_reader writer (commit_batch (env_lib E) C2 (io_for act items))) (\<lambda>writer.
     bnd (commit_vault_reader E st writer) (\<lambda>_. ret writer))"

definition mutate_vault_in_batches ::
  "'s store_env \<Rightarrow> store \<Rightarrow> v2_codecs \<Rightarrow> vault_reader_v2 \<Rightarrow> 'a list \<Rightarrow> ('a \<Rightarrow> (vault_batch \<times> world, unit) op) \<Rightarrow> ('s, unit) sop" where
  "mutate_vault_in_batches E st C2 reader items act =
     bnd (lift (ok_or NO_STATE (v2_state reader))) (\<lambda>_.
     bnd (ensure_current_vault E st reader) (\<lambda>_.
     bnd (io_fold (commit_chunk E st C2 act) (slice_chunks MAX_BATCH_OPS items) reader) (\<lambda>_. ret ())))"


subsection \<open>Changes of an open vault\<close>

text \<open>Free space is what the library reports, if it can; the sizes that the message shows are left
  out. The arguments that the source does not use are left out too.\<close>

definition DISK_HEADROOM :: u64 where "DISK_HEADROOM = 64 * 1024 * 1024"

definition NOT_ENOUGH_SPACE :: string where "NOT_ENOUGH_SPACE = ''not enough free disk space''"

definition ensure_free_space :: "(string \<Rightarrow> u64 option) \<Rightarrow> string \<Rightarrow> u64 \<Rightarrow> string \<Rightarrow> ('s, unit) sop" where
  "ensure_free_space available dir needed what =
     (case available dir of
        None \<Rightarrow> ret ()
      | Some free \<Rightarrow>
          if free < saturating_add needed DISK_HEADROOM then throw (Msg (NOT_ENOUGH_SPACE @ '' for '' @ what)) else ret ())"

datatype vault_addition = AddDir string | AddFile added_file

definition addition_edit :: "lib \<Rightarrow> vault_addition \<Rightarrow> (vault_batch \<times> world, unit) op" where
  "addition_edit L a =
     (case a of
        AddDir d \<Rightarrow> on_fst (vb_mkdir d)
      | AddFile f \<Rightarrow> vb_put_file L (af_vault_path f) (af_source f) (af_mtime f) (af_mode f))"

definition incoming_size :: "added_file list \<Rightarrow> u64 io" where
  "incoming_size added =
     io_fold (\<lambda>f n. bnd (attempt (std_metadata (af_source f))) (\<lambda>m.
                ret (case m of Inr node \<Rightarrow> n + len64 (node_bytes node) | Inl _ \<Rightarrow> n))) added 0"

definition append_files_to_vault ::
  "'s store_env \<Rightarrow> store \<Rightarrow> v2_codecs \<Rightarrow> (string \<Rightarrow> u64 option) \<Rightarrow> vault_reader_v2 \<Rightarrow> added_file list \<Rightarrow> string list \<Rightarrow> ('s, unit) sop" where
  "append_files_to_vault E st C2 available reader added added_dirs =
     bnd (lift (ok_or NO_STATE (v2_state reader))) (\<lambda>_.
     bnd (core_io (incoming_size added)) (\<lambda>incoming.
     bnd (ensure_free_space available (st_vaults_dir st) incoming ''adding these files'') (\<lambda>_.
     bnd (ensure_current_vault E st reader) (\<lambda>_.
     bnd (io_fold (commit_chunk E st C2 (addition_edit (env_lib E)))
            (slice_chunks MAX_BATCH_OPS (map AddDir added_dirs @ map AddFile added)) reader) (\<lambda>_.
       ret ())))))"

definition remove_paths_from_vault ::
  "'s store_env \<Rightarrow> store \<Rightarrow> v2_codecs \<Rightarrow> vault_reader_v2 \<Rightarrow> string list \<Rightarrow> ('s, unit) sop" where
  "remove_paths_from_vault E st C2 reader remove =
     mutate_vault_in_batches E st C2 reader remove (\<lambda>path. on_fst (vb_remove path))"

definition rename_in_vault ::
  "'s store_env \<Rightarrow> store \<Rightarrow> v2_codecs \<Rightarrow> vault_reader_v2 \<Rightarrow> (string \<times> string) list \<Rightarrow> ('s, unit) sop" where
  "rename_in_vault E st C2 reader pairs =
     mutate_vault_in_batches E st C2 reader pairs (\<lambda>(old, new). on_fst (vb_rename old new))"

definition put_bytes_in_vault ::
  "'s store_env \<Rightarrow> store \<Rightarrow> v2_codecs \<Rightarrow> vault_reader_v2 \<Rightarrow> string \<Rightarrow> bytes \<Rightarrow> int option \<Rightarrow> ('s, unit) sop" where
  "put_bytes_in_vault E st C2 reader path b mtime =
     mutate_vault E st reader (v2_put_file_bytes (env_lib E) C2 path b mtime None)"

definition replace_file_in_vault ::
  "'s store_env \<Rightarrow> store \<Rightarrow> v2_codecs \<Rightarrow> vault_reader_v2 \<Rightarrow> string \<Rightarrow> string \<Rightarrow> int option \<Rightarrow> u32 option \<Rightarrow> ('s, unit) sop" where
  "replace_file_in_vault E st C2 reader path new_source mtime mode =
     mutate_vault E st reader (v2_put_file (env_lib E) C2 path new_source mtime mode)"

subsection \<open>Creating and opening\<close>

definition vault_tombstone :: "store \<Rightarrow> string \<Rightarrow> string" where
  "vault_tombstone st oid = path_join (st_vaults_dir st) (oid @ ''.fsv2.deleted'')"

definition legacy_vault_tombstone :: "store \<Rightarrow> string \<Rightarrow> string" where
  "legacy_vault_tombstone st oid = path_join (st_vaults_dir st) (oid @ ''.fsec.deleted'')"

definition partial_dir :: "store \<Rightarrow> string \<Rightarrow> string" where
  "partial_dir st oid = path_join (st_vaults_dir st) (oid @ ''.fsv2.partial'')"

definition cleaning_up :: "string \<Rightarrow> ('s, 'a) sop \<Rightarrow> ('s, 'a) sop" where
  "cleaning_up dir m =
     bnd (attempt m) (\<lambda>r. case r of Inr x \<Rightarrow> ret x | Inl e \<Rightarrow> bnd (wipe_vault_dir dir) (\<lambda>_. throw e))"

definition create_vault_dir ::
  "'s store_env \<Rightarrow> store \<Rightarrow> string \<Rightarrow> (string \<Rightarrow> vault_reader_v2 io) \<Rightarrow> ('s, unit) sop" where
  "create_vault_dir E st oid build =
     (let dir = vault_dir_v2 st oid; partial = partial_dir st oid in
      bnd (core_io (std_exists dir)) (\<lambda>there.
      bnd (if there then ret True else core_io (std_exists (vault_tombstone st oid))) (\<lambda>taken.
        if taken then throw (Msg ''vault already exists; use the rollback-aware mutation APIs'')
        else
          bnd (wipe_vault_dir partial) (\<lambda>_.
          bnd (cleaning_up partial (
                 bnd (core_io (build partial)) (\<lambda>reader.
                 bnd (lift (ok_or (Msg ''new vault has no rollback-protection metadata'') (v2_state reader))) (\<lambda>state.
                 bnd (core_io (std_rename_tree partial dir)) (\<lambda>_. ret state))))) (\<lambda>state.
          bnd (ignored (core_io (sync_dir (st_vaults_dir st)))) (\<lambda>_.
          cleaning_up dir (env_commit E st state)))))))"

definition save_vault :: "'s store_env \<Rightarrow> store \<Rightarrow> v2_codecs \<Rightarrow> identity \<Rightarrow> string \<Rightarrow> vault \<Rightarrow> ('s, unit) sop" where
  "save_vault E st C2 i oid v =
     create_vault_dir E st oid (\<lambda>partial.
       from_vault_with_object_id (env_lib E) C2 partial i (self_suite (env_pqc E) i) v oid)"

definition vr_total_size :: "vault_reader \<Rightarrow> u64" where
  "vr_total_size self = vr_total_plaintext self"

definition import_reader_to_vault ::
  "'s store_env \<Rightarrow> store \<Rightarrow> v2_codecs \<Rightarrow> (string \<Rightarrow> u64 option) \<Rightarrow> identity \<Rightarrow> string \<Rightarrow> vault_reader \<Rightarrow> ('s, unit) sop" where
  "import_reader_to_vault E st C2 available i oid reader =
     bnd (ensure_free_space available (st_vaults_dir st) (vr_total_size reader) ''importing this vault'') (\<lambda>_.
     create_vault_dir E st oid (\<lambda>partial.
       from_reader_v1_with_object_id (env_lib E) C2 partial i (self_suite (env_pqc E) i) reader oid))"

definition open_vault :: "'s store_env \<Rightarrow> store \<Rightarrow> v2_codecs \<Rightarrow> identity \<Rightarrow> string \<Rightarrow> ('s, vault_reader_v2) sop" where
  "open_vault E st C2 i oid =
     (let v2 = vault_dir_v2 st oid in
      bnd (core_io (std_exists v2)) (\<lambda>there.
        if there then
          bnd (core_io (v2_open (env_lib E) (env_pqc E) C2 v2 i)) (\<lambda>reader.
          bnd (lift (ok_or NO_STATE (v2_state reader))) (\<lambda>state.
            if sm_object_id state \<noteq> oid
            then bnd (ignored (quarantine (env_lib E) st v2)) (\<lambda>_. throw (Msg ''vault object id does not match its registry/path id''))
            else
              bnd (env_accept E st state v2) (\<lambda>_.
              bnd (core_io (std_exists (vault_path st oid))) (\<lambda>v1.
              bnd (if v1 then ignored (secure_wipe (vault_path st oid)) else ret ()) (\<lambda>_.
              on_reader reader (bnd (attempt collect_garbage) (\<lambda>_. ret ())))))))
        else
          bnd (core_io (std_exists (vault_path st oid))) (\<lambda>legacy.
            if legacy then throw (Msg ''legacy local vault requires explicit recovery before it can be opened'')
            else throw (Msg (''vault not found: '' @ oid)))))"

definition load_vault :: "'s store_env \<Rightarrow> store \<Rightarrow> v2_codecs \<Rightarrow> identity \<Rightarrow> string \<Rightarrow> ('s, vault) sop" where
  "load_vault E st C2 i oid = bnd (open_vault E st C2 i oid) (\<lambda>reader. core_io (to_vault (env_lib E) reader))"


subsection \<open>Legacy vaults\<close>

definition migrate_vault_v1_to_v2 :: "'s store_env \<Rightarrow> store \<Rightarrow> v2_codecs \<Rightarrow> identity \<Rightarrow> string \<Rightarrow> ('s, unit) sop" where
  "migrate_vault_v1_to_v2 E st C2 i oid =
     (let v1 = vault_path st oid; partial = partial_dir st oid in
      bnd (ignored (core_io (std_remove_dir_all partial))) (\<lambda>_.
      bnd (core_io (verify_and_open (env_lib E) (env_pqc E) (sc_v1 (env_codecs E)) v1 i)) (\<lambda>(reader, sender).
        if vs_fingerprint sender \<noteq> id_fingerprint (env_lib E) i
        then throw (Msg ''legacy local vault was not signed by this identity'')
        else
          bnd (attempt (core_io (from_reader_v1_with_object_id (env_lib E) C2 partial i (self_suite (env_pqc E) i) reader oid))) (\<lambda>r.
            case r of
              Inl e \<Rightarrow> bnd (ignored (core_io (std_remove_dir_all partial))) (\<lambda>_. throw e)
            | Inr migrated \<Rightarrow>
                bnd (lift (ok_or (Msg ''migrated vault has no rollback-protection metadata'') (v2_state migrated))) (\<lambda>state.
                bnd (core_io (std_rename_tree partial (vault_dir_v2 st oid))) (\<lambda>_.
                bnd (ignored (core_io (sync_dir (st_vaults_dir st)))) (\<lambda>_.
                bnd (ignored (secure_wipe v1)) (\<lambda>_.
                env_commit E st state))))))))"

definition recover_legacy_vault :: "'s store_env \<Rightarrow> store \<Rightarrow> v2_codecs \<Rightarrow> identity \<Rightarrow> string \<Rightarrow> ('s, vault_reader_v2) sop" where
  "recover_legacy_vault E st C2 i oid =
     (let L = env_lib E; v2 = vault_dir_v2 st oid in
      bnd (core_io (std_exists v2)) (\<lambda>there.
        if there then
          bnd (core_io (attempt (recover_legacy L (env_pqc E) C2 v2 i))) (\<lambda>r.
          bnd (case r of
                 Inr reader \<Rightarrow> ret reader
               | Inl e \<Rightarrow>
                   if e = Format ''vault manifest is already rollback protected'' then core_io (v2_open L (env_pqc E) C2 v2 i)
                   else throw (Shown e)) (\<lambda>legacy.
          let partial = partial_dir st oid; old = path_join (st_vaults_dir st) (oid @ ''.fsv2.old'') in
          bnd (ignored (core_io (std_remove_dir_all partial))) (\<lambda>_.
          bnd (ignored (core_io (std_remove_dir_all old))) (\<lambda>_.
          bnd (core_io (from_reader_v2_with_object_id L C2 partial i (self_suite (env_pqc E) i) legacy oid)) (\<lambda>reader.
          bnd (lift (ok_or (Msg ''recovered vault has no rollback-protection metadata'') (v2_state reader))) (\<lambda>state.
          bnd (core_io (std_rename_tree v2 old)) (\<lambda>_.
          bnd (attempt (core_io (std_rename_tree partial v2))) (\<lambda>r.
            case r of
              Inl e \<Rightarrow> bnd (ignored (core_io (std_rename_tree old v2))) (\<lambda>_. throw e)
            | Inr _ \<Rightarrow>
                bnd (wipe_vault_dir old) (\<lambda>_.
                bnd (env_commit E st state) (\<lambda>_.
                open_vault E st C2 i oid))))))))))
        else
          bnd (core_io (std_exists (vault_path st oid))) (\<lambda>legacy.
            if legacy then bnd (migrate_vault_v1_to_v2 E st C2 i oid) (\<lambda>_. open_vault E st C2 i oid)
            else throw (Msg (''vault not found: '' @ oid)))))"

subsection \<open>Listings of the vaults directory\<close>

text \<open>What a listing that fails counts as is empty.\<close>

definition listing :: "string \<Rightarrow> string list io" where
  "listing dir = bnd (attempt (std_read_dir dir)) (\<lambda>r. ret (case r of Inr names \<Rightarrow> names | Inl _ \<Rightarrow> []))"

definition v2_vaults :: "store \<Rightarrow> (string \<times> string) list io" where
  "v2_vaults st =
     bnd (listing (st_vaults_dir st)) (\<lambda>names.
     bnd (io_fold (\<lambda>name found.
            case strip_suffix ''.fsv2'' name of
              None \<Rightarrow> ret found
            | Some oid \<Rightarrow>
                bnd (std_is_dir (path_join (st_vaults_dir st) name)) (\<lambda>d.
                  ret (if d then found @ [(oid, path_join (st_vaults_dir st) name)] else found))) names []) (\<lambda>found.
       ret (sort_key fst found)))"

definition tombstoned_vaults :: "store \<Rightarrow> string list io" where
  "tombstoned_vaults st =
     bnd (listing (st_vaults_dir st)) (\<lambda>names.
       ret (remdups_adj (sort (List.map_filter (\<lambda>name.
              case strip_suffix ''.fsv2.deleted'' name of
                Some oid \<Rightarrow> Some oid
              | None \<Rightarrow> strip_suffix ''.fsec.deleted'' name) names))))"

definition clean_partial_dirs :: "store \<Rightarrow> ('s, unit) sop" where
  "clean_partial_dirs st =
     bnd (core_io (listing (st_vaults_dir st))) (\<lambda>names.
     io_for (\<lambda>name.
       let path = path_join (st_vaults_dir st) name in
       if suffix ''.fsv2.partial'' name then ignored (core_io (std_remove_dir_all path))
       else
         case strip_suffix ''.old'' name of
           None \<Rightarrow> ret ()
         | Some stem \<Rightarrow>
             let final_dir = path_join (st_vaults_dir st) stem in
             bnd (core_io (std_exists final_dir)) (\<lambda>there.
               if there then ignored (core_io (std_remove_dir_all path))
               else ignored (core_io (std_rename_tree path final_dir)))) names)"

subsection \<open>Deleting\<close>

definition tombstone_vault :: "store \<Rightarrow> string \<Rightarrow> ('s, unit) sop" where
  "tombstone_vault st oid =
     bnd (core_io (std_exists (vault_dir_v2 st oid))) (\<lambda>live.
     bnd (if live then core_io (std_rename_tree (vault_dir_v2 st oid) (vault_tombstone st oid)) else ret ()) (\<lambda>_.
     bnd (core_io (std_exists (vault_path st oid))) (\<lambda>legacy.
     bnd (if legacy then core_io (std_rename_tree (vault_path st oid) (legacy_vault_tombstone st oid)) else ret ()) (\<lambda>_.
     ignored (core_io (sync_dir (st_vaults_dir st)))))))"

definition restore_tombstone :: "store \<Rightarrow> string \<Rightarrow> ('s, unit) sop" where
  "restore_tombstone st oid =
     bnd (core_io (std_exists (vault_tombstone st oid))) (\<lambda>tomb.
     bnd (if tomb then core_io (std_rename_tree (vault_tombstone st oid) (vault_dir_v2 st oid)) else ret ()) (\<lambda>_.
     bnd (core_io (std_exists (legacy_vault_tombstone st oid))) (\<lambda>legacy.
     bnd (if legacy then core_io (std_rename_tree (legacy_vault_tombstone st oid) (vault_path st oid)) else ret ()) (\<lambda>_.
     ignored (core_io (sync_dir (st_vaults_dir st)))))))"

definition retire_tombstone :: "'s store_env \<Rightarrow> store \<Rightarrow> identity \<Rightarrow> string \<Rightarrow> ('s, unit) sop" where
  "retire_tombstone E st i oid =
     bnd (put_anchor (env_lib E) (sc_anchors (env_codecs E)) (env_secure E) st (deleted_vault_anchor (env_lib E) i oid)) (\<lambda>_.
     bnd (core_io (std_exists (vault_tombstone st oid))) (\<lambda>tomb.
     bnd (if tomb then wipe_vault_dir (vault_tombstone st oid) else ret ()) (\<lambda>_.
     ignored (secure_wipe (legacy_vault_tombstone st oid)))))"

definition delete_vault :: "'s store_env \<Rightarrow> store \<Rightarrow> int \<Rightarrow> identity \<Rightarrow> registry \<Rightarrow> string \<Rightarrow> ('s, registry) sop" where
  "delete_vault E st now i reg oid =
     (let updated = registry_remove oid reg in
      bnd (tombstone_vault st oid) (\<lambda>_.
      bnd (attempt (save_registry E st now i updated)) (\<lambda>r.
        case r of
          Inl e \<Rightarrow>
            bnd (attempt (restore_tombstone st oid)) (\<lambda>restored.
              throw (case restored of
                       Inr _ \<Rightarrow> e
                     | Inl restore \<Rightarrow>
                         Noted e ''the vault is kept as a tombstone and will be restored on the next unlock'' restore))
        | Inr _ \<Rightarrow>
            bnd (ignored (retire_tombstone E st i oid)) (\<lambda>_. ret updated))))"

definition listed :: "registry \<Rightarrow> string \<Rightarrow> bool" where
  "listed reg oid \<longleftrightarrow> (\<exists>v\<in>set (reg_vaults reg). vm_id v = oid)"

definition settle_tombstone :: "'s store_env \<Rightarrow> store \<Rightarrow> identity \<Rightarrow> registry \<Rightarrow> string \<Rightarrow> string list \<Rightarrow> ('s, string list) sop" where
  "settle_tombstone E st i reg oid notes =
     (if listed reg oid then
        bnd (restore_tombstone st oid) (\<lambda>_.
          let name = (case find (\<lambda>v. vm_id v = oid) (reg_vaults reg) of Some v \<Rightarrow> vm_name v | None \<Rightarrow> []) in
          ret (notes @ [''Kept vault \"'' @ name @ ''\": its deletion was interrupted before it completed.'']))
      else bnd (retire_tombstone E st i oid) (\<lambda>_. ret notes))"

definition register_found ::
  "'s store_env \<Rightarrow> store \<Rightarrow> v2_codecs \<Rightarrow> int \<Rightarrow> identity \<Rightarrow> string \<times> string \<Rightarrow> registry \<times> string list \<times> bool \<Rightarrow> ('s, registry \<times> string list \<times> bool) sop" where
  "register_found E st C2 now i found acc =
     (case (found, acc) of ((oid, _), (reg, notes, changed)) \<Rightarrow>
        if listed reg oid then ret acc
        else
          bnd (attempt (open_vault E st C2 i oid)) (\<lambda>r.
            case r of
              Inl _ \<Rightarrow> ret acc
            | Inr reader \<Rightarrow>
                let m = v2_manifest reader in
                ret (registry_upsert \<lparr>vm_id = oid, vm_name = m2_vault_name m, vm_created_at = m2_created_at m, vm_modified_at = now,
                       vm_file_count = of_nat (v2_file_count reader), vm_total_size = v2_total_size reader\<rparr> reg,
                     notes @ [''Recovered vault \"'' @ m2_vault_name m @ ''\", which was saved but missing from the vault list.''],
                     True)))"

definition reconcile_vaults ::
  "'s store_env \<Rightarrow> store \<Rightarrow> v2_codecs \<Rightarrow> int \<Rightarrow> identity \<Rightarrow> registry \<Rightarrow> ('s, registry \<times> string list) sop" where
  "reconcile_vaults E st C2 now i reg =
     bnd (core_io (tombstoned_vaults st)) (\<lambda>tombs.
     bnd (io_fold (settle_tombstone E st i reg) tombs []) (\<lambda>notes.
     bnd (core_io (v2_vaults st)) (\<lambda>vaults.
     bnd (io_fold (register_found E st C2 now i) vaults (reg, notes, False)) (\<lambda>(reg, notes, changed).
     bnd (if changed then save_registry E st now i reg else ret ()) (\<lambda>_.
       ret (reg, notes))))))"

subsection \<open>Plaintext on disk\<close>

definition MAX_TEMP_EXT :: nat where "MAX_TEMP_EXT = 8"

definition ascii_lower :: "char \<Rightarrow> char" where
  "ascii_lower c = (let n = of_char c :: nat in if 65 \<le> n \<and> n \<le> 90 then char_of (n + 32) else c)"

definition temp_extension :: "string \<Rightarrow> string option" where
  "temp_extension leaf =
     (if CHR ''.'' \<notin> set leaf then None
      else
        let ext = rev (takeWhile (\<lambda>c. c \<noteq> CHR ''.'') (rev leaf));
            stem = take (length leaf - length ext - 1) leaf in
        if stem = [] \<or> ext = [] \<or> length ext > MAX_TEMP_EXT then None
        else if \<not> list_all is_ascii_alphanumeric ext then None
        else Some (map ascii_lower ext))"

definition create_private_checkout_file :: "lib \<Rightarrow> store \<Rightarrow> string \<Rightarrow> ('s, string) sop" where
  "create_private_checkout_file L st leaf =
     bnd (random_hex L 8) (\<lambda>stem.
       let name = (case temp_extension leaf of Some ext \<Rightarrow> stem @ ''.'' @ ext | None \<Rightarrow> stem);
           path = path_join (st_checkout_dir st) name in
       bnd (core_io (std_create_new path)) (\<lambda>_. ret path))"

definition clean_checkout_dir :: "store \<Rightarrow> ('s, unit) sop" where
  "clean_checkout_dir st =
     bnd (core_io (listing (st_checkout_dir st))) (\<lambda>names.
       io_for (\<lambda>n. ignored (secure_wipe (path_join (st_checkout_dir st) n))) names)"

definition extract_dir_hardened :: "string \<Rightarrow> string \<Rightarrow> unit io" where
  "extract_dir_hardened root rel =
     bnd (lift (normalize_path rel)) (\<lambda>norm. create_dirs_no_symlink root (path_join root norm))"

definition extract_file_hardened :: "lib \<Rightarrow> string \<Rightarrow> string \<Rightarrow> (safe_file_writer \<Rightarrow> unit io) \<Rightarrow> unit io" where
  "extract_file_hardened L root rel fill =
     bnd (lift (normalize_path rel)) (\<lambda>norm.
       let target = path_join root norm in
       bnd (create_dirs_no_symlink root (std_parent target)) (\<lambda>_.
       with_writer L target fill sw_commit))"

definition extract_vault :: "lib \<Rightarrow> unicode_lib \<Rightarrow> vault \<Rightarrow> string \<Rightarrow> unit io" where
  "extract_vault L U v dest =
     bnd (preflight_extraction U dest (map (\<lambda>e. (ve_path e, ve_kind e)) (vault_entries v))) (\<lambda>_.
     io_for (\<lambda>e.
       case ve_kind e of
         Dir \<Rightarrow> extract_dir_hardened dest (ve_path e)
       | File \<Rightarrow> extract_file_hardened L dest (ve_path e) (\<lambda>sw. sw_write_all sw (ve_content e))) (vault_entries v))"

end
