(* ===== verification/Store_Writers.thy ===== *)
theory Store_Writers
  imports Store_Vaults Store_Properties V2_Demo
begin

section \<open>Vaults under their anchors\<close>

text \<open>
  Two clients that hold the same reader cannot both change a vault, and a deleted vault is never
  opened again, whatever copy of it is put back.
\<close>

subsection \<open>The state a commit leads to\<close>

lemma seal_state:
  assumes "seal_and_write L C rd m w = (Inr (state, d), w')"
  obtains oid pt where
    "sm_next L (v2_owner_fingerprint rd) VaultManifest oid (to_u16 (v2_suite rd)) (map_option from_metadata (v2_state rd)) pt = Inr state"
  using assms that by (auto simp: seal_and_write_def bnd_eq_Inr Let_def)

lemma reclaim_state: "reclaim xs d (rd, w) = (r, (rd', w')) \<Longrightarrow> v2_state rd' = v2_state rd"
  by (auto simp: reclaim_def bnd_eq on_snd_eq split: if_splits simp del: on_snd_run)

lemma commit_state:
  assumes "commit_with L C lim edits (rd, w) = (Inr (), (rd', w'))"
  shows "v2_state rd' = v2_state rd \<or> (\<exists>oid pt state. v2_state rd' = Some state \<and>
     sm_next L (v2_owner_fingerprint rd) VaultManifest oid (to_u16 (v2_suite rd)) (map_option from_metadata (v2_state rd)) pt = Inr state)"
proof -
  obtain q b1 w1 where q: "edits (vb_new rd lim, w) = (q, (b1, w1))" by (metis prod.collapse)
  have qr: "q = Inr ()"
    using assms q by (cases q) (auto simp: commit_with_def run_edits_def bnd_eq attempt_eq on_snd_eq
        simp del: on_fst_run on_snd_run)
  show ?thesis
  proof (cases "vb_changed b1")
    case False
    then have "rd' = rd" using assms q qr by (auto simp: commit_with_def run_edits_def attempt_run bnd_def)
    then show ?thesis by simp
  next
    case True
    obtain a w2 where a: "seal_and_write L C rd (vb_manifest b1) w1 = (a, w2)" by force
    have "is_ok a" using assms q qr a True
      by (cases a) (auto simp: commit_with_def run_edits_def attempt_run bnd_def on_snd_def split: prod.splits sum.splits)
    then obtain state d where ad: "a = Inr (state, d)" by (auto simp: is_ok_iff)
    let ?rd = "rd\<lparr>v2_manifest := vb_manifest b1, v2_state := Some state, v2_view := view_of (vb_manifest b1)\<rparr>"
    have "reclaim (vb_superseded b1) d (?rd, w2) = (Inr (), (rd', w'))"
      using assms q qr a ad True by (simp add: commit_with_def run_edits_def attempt_run bnd_def)
    then have "v2_state rd' = Some state" using reclaim_state by fastforce
    then show ?thesis using seal_state [OF a [unfolded ad]] by metis
  qed
qed

lemma next_state:
  assumes "sm_next L fpr ty oid suite (Some (from_metadata m)) pt = Inr m'"
  shows "check_candidate (from_metadata m) m' = Inr True \<and> sm_suite_id m' = suite \<and>
    sm_current_state_hash m' = expected_hash L (m'\<lparr>sm_current_state_hash := GENESIS_HASH\<rparr>) pt"
proof -
  have "unat (e + 1) = Suc (unat e)" if "unat e < 2 ^ 64 - 1" for e :: u64
    using that by (simp add: unat_word_ariths)
  then show ?thesis using assms
    by (auto simp: sm_next_def rbind_eq_Inr check_candidate_eq_True from_metadata_def checked_add_def Let_def split: if_splits)
qed

lemma commit_next:
  assumes "commit_with L C lim edits (rd, w) = (Inr (), (rd', w'))" and "v2_state rd = Some m" and "blake3_lengths L"
    and "metadata_sized m"
  obtains m' where "v2_state rd' = Some m'" and "metadata_sized m'"
    and "m' = m \<or> check_candidate (from_metadata m) m' = Inr True"
proof -
  from commit_state [OF assms(1)] assms(2) consider "v2_state rd' = Some m"
    | oid pt m' where "v2_state rd' = Some m'" "sm_next L (v2_owner_fingerprint rd) VaultManifest oid (to_u16 (v2_suite rd)) (Some (from_metadata m)) pt = Inr m'"
    by auto
  then show thesis
  proof cases
    case 1
    then show thesis using that assms(4) by blast
  next
    case 2
    note n = next_state [OF 2(2)]
    have "metadata_sized m'"
      using n assms(3,4) by (auto simp: metadata_sized_def check_candidate_eq_True from_metadata_def expected_hash_eq blake3_lengthsD(1))
    then show thesis using that 2(1) n by blast
  qed
qed

subsection \<open>One writer wins\<close>

lemma map_sum_eq_Inr: "Inr y = map_sum f g q \<longleftrightarrow> (\<exists>x. q = Inr x \<and> y = g x)"
  by (cases q) auto

lemma on_reader_eq: "on_reader rd m (s, w) = (r, (s', w')) \<longleftrightarrow>
    s' = s \<and> (\<exists>q rd'. m (rd, w) = (q, (rd', w')) \<and> r = map_sum Shown (\<lambda>_. rd') q)"
  by (auto simp: on_reader_def split: prod.splits)

lemma commit_chunk_eq:
  "commit_chunk E st C2 act items rd (s, w) = (Inr rd1, (s2, w2)) \<longleftrightarrow>
    (\<exists>w1. commit_batch (env_lib E) C2 (io_for act items) (rd, w) = (Inr (), (rd1, w1)) \<and>
       commit_vault_reader E st rd1 (s, w1) = (Inr (), (s2, w2)))"
  by (auto simp: commit_chunk_def bnd_eq_Inr on_reader_eq map_sum_eq_Inr ret_def)

context secure_store
begin

lemma ensure_current_run:
  assumes "ensure_current_vault E st rd (s, w) = (r, (s', w'))" and "v2_state rd = Some m"
  shows "w' = w \<and> peek s' = peek s \<and>
    (is_ok r \<longrightarrow> (case V s (sm_object_type m) (sm_object_id m) of
       None \<Rightarrow> True
     | Some a \<Rightarrow> sa_identity_fingerprint a = sm_identity_fingerprint m \<and> sa_epoch a = sm_epoch m \<and>
                 sa_current_state_hash a = sm_current_state_hash m))"
proof -
  obtain q t v where q: "get_anchor (env_lib E) (sc_anchors (env_codecs E)) (Some S) st (sm_object_type m) (sm_object_id m) (s, w) = (q, (t, v))"
    by (metis prod_cases3)
  from get_anchor_secure [OF secure(2) q] have g: "v = w" "peek t = peek s"
    "\<And>a. q = Inr a \<Longrightarrow> a = V s (sm_object_type m) (sm_object_id m)" by auto
  show ?thesis
  proof (cases q)
    case (Inl e)
    then show ?thesis using assms q g by (auto simp: ensure_current_vault_def current_anchor_def secure(1))
  next
    case (Inr a)
    note a = g(3) [OF Inr, symmetric]
    show ?thesis
    proof (cases a)
      case None
      then show ?thesis using assms q g(1,2) Inr a by (auto simp: ensure_current_vault_def current_anchor_def secure(1))
    next
      case (Some x)
      show ?thesis
        using assms q g(1,2) Inr a Some
        by (cases "sa_identity_fingerprint x = sm_identity_fingerprint m"; cases "sa_epoch x = sm_epoch m";
            cases "sa_current_state_hash x = sm_current_state_hash m")
           (simp_all add: ensure_current_vault_def current_anchor_def secure(1) bnd_def throw_def ret_def lift_def, auto)
    qed
  qed
qed

text \<open>A commit under the reader's anchor, or under a fresh one of the same epoch, raises it.\<close>

lemma commit_raises:
  assumes "commit_batch (env_lib E) C2 edits (rd, w) = (Inr (), (rd', w1))"
    and "commit_vault_reader E st rd' (s, w1) = (Inr (), (s', w'))"
    and "v2_state rd = Some m" and "metadata_sized m"
    and "V s (sm_object_type m) (sm_object_id m) = Some a" and "sa_epoch a = sm_epoch m"
  shows "\<exists>m'. v2_state rd' = Some m' \<and> metadata_sized m' \<and> sm_object_type m' = sm_object_type m \<and> sm_object_id m' = sm_object_id m \<and>
    V s' (sm_object_type m) (sm_object_id m) = Some (from_metadata m') \<and>
    (m' = m \<and> V s' = V s \<or> sm_epoch m < sm_epoch m')"
proof -
  from commit_next [OF assms(1) [unfolded commit_batch_def] assms(3) hashes assms(4)] obtain m' where
    m': "v2_state rd' = Some m'" "metadata_sized m'" "m' = m \<or> check_candidate (from_metadata m) m' = Inr True" .
  have same: "sm_object_type m' = sm_object_type m" "sm_object_id m' = sm_object_id m"
    using m'(3) by (auto simp: check_candidate_eq_True from_metadata_def)
  have "env_commit E st m' (s, w1) = (Inr (), (s', w'))" using assms(2) m'(1) by (simp add: commit_vault_reader_def)
  from accepted [OF this [unfolded commit_state_def] m'(2)] have a: "acceptable (V s) m'" "V s' = raised m' (V s)" by auto
  have at: "V s' (sm_object_type m) (sm_object_id m) = Some (from_metadata m')"
    using a(2) raised_at [of m' "V s"] same by simp
  have "m' = m \<and> V s' = V s \<or> sm_epoch m < sm_epoch m'"
  proof (cases "m' = m")
    case True
    have "is_ok (check_candidate a m)" using a(1) True assms(5) by (simp add: acceptable_def)
    then have "from_metadata m = a"
      using check_candidate_eq_True [of a m] check_candidate_eq_False [of a m] assms(6) by (auto simp: is_ok_iff)
    then have "raised m (V s) = V s" using assms(5) by (intro raised_same) simp
    then show ?thesis using a(2) True by simp
  next
    case False
    then have "unat (sm_epoch m') = unat (sm_epoch m) + 1" using m'(3) by (auto simp: check_candidate_eq_True from_metadata_def)
    then show ?thesis by (simp add: word_less_nat_alt)
  qed
  then show ?thesis using m' same at by blast
qed

lemma current_epoch:
  assumes "ensure_current_vault E st rd (s, w) = (Inr (), (s', w'))" and "v2_state rd = Some m"
    and "V s (sm_object_type m) (sm_object_id m) = Some a"
  shows "w' = w \<and> peek s' = peek s \<and> sa_epoch a = sm_epoch m"
  using ensure_current_run [OF assms(1,2)] assms(3) by auto

lemma mutate_vault_raises:
  assumes "mutate_vault E st rd (commit_batch (env_lib E) C2 edits) (s, w) = (Inr (), (s', w'))" and "v2_state rd = Some m" and "metadata_sized m"
    and "V s (sm_object_type m) (sm_object_id m) = Some a"
  shows "V s' = V s \<or> (\<exists>a'. V s' (sm_object_type m) (sm_object_id m) = Some a' \<and> sm_epoch m < sa_epoch a')"
proof -
  from assms(1,2) obtain s1 w1 rd' s2 w2 where e: "ensure_current_vault E st rd (s, w) = (Inr (), (s1, w1))"
    and o: "on_reader rd (commit_batch (env_lib E) C2 edits) (s1, w1) = (Inr rd', (s2, w2))"
    and c: "commit_vault_reader E st rd' (s2, w2) = (Inr (), (s', w'))"
    by (auto simp: mutate_vault_def bnd_eq_Inr)
  note e' = current_epoch [OF e assms(2,4)]
  from o have s2: "s2 = s1" and k: "commit_batch (env_lib E) C2 edits (rd, w1) = (Inr (), (rd', w2))"
    by (auto simp: on_reader_eq map_sum_eq_Inr)
  have v: "V s2 = V s" using s2 e' by simp
  from commit_raises [OF k c assms(2,3), of a] v assms(4) e' obtain m' where
    "V s' (sm_object_type m) (sm_object_id m) = Some (from_metadata m')" "m' = m \<and> V s' = V s2 \<or> sm_epoch m < sm_epoch m'" by auto
  then show ?thesis using v by (auto simp: from_metadata_def)
qed

lemma commit_chunks_raise:
  assumes "io_fold (commit_chunk E st C2 act) chunks rd (s, w) = (Inr rd', (s', w'))" and "v2_state rd = Some m" and "metadata_sized m"
    and "V s (sm_object_type m) (sm_object_id m) = Some a" and "sa_epoch a = sm_epoch m"
  shows "V s' = V s \<or> (\<exists>a'. V s' (sm_object_type m) (sm_object_id m) = Some a' \<and> sm_epoch m < sa_epoch a')"
  using assms
proof (induction chunks arbitrary: rd s w m a)
  case Nil
  then show ?case by (auto simp: ret_def)
next
  case (Cons items chunks)
  from Cons.prems(1) obtain rd1 s1 w1 s2 w2 where
      k: "commit_batch (env_lib E) C2 (io_for act items) (rd, w) = (Inr (), (rd1, w1))"
    and c: "commit_vault_reader E st rd1 (s, w1) = (Inr (), (s2, w2))"
    and f: "io_fold (commit_chunk E st C2 act) chunks rd1 (s2, w2) = (Inr rd', (s', w'))"
    by (auto simp: bnd_eq_Inr commit_chunk_eq)
  from commit_raises [OF k c Cons.prems(2-5)] obtain m1 where
    m1: "v2_state rd1 = Some m1" "metadata_sized m1" "sm_object_type m1 = sm_object_type m" "sm_object_id m1 = sm_object_id m"
      "V s2 (sm_object_type m) (sm_object_id m) = Some (from_metadata m1)" "m1 = m \<and> V s2 = V s \<or> sm_epoch m < sm_epoch m1" by blast
  have "V s2 (sm_object_type m1) (sm_object_id m1) = Some (from_metadata m1)" "sa_epoch (from_metadata m1) = sm_epoch m1"
    using m1(3-5) by (simp_all add: from_metadata_def)
  from Cons.IH [OF f m1(1,2) this] m1 show ?case by (auto simp: from_metadata_def intro: less_trans)
qed

lemma batches_raise:
  assumes "mutate_vault_in_batches E st C2 rd items act (s, w) = (Inr (), (s', w'))" and "v2_state rd = Some m" and "metadata_sized m"
    and "V s (sm_object_type m) (sm_object_id m) = Some a"
  shows "V s' = V s \<or> (\<exists>a'. V s' (sm_object_type m) (sm_object_id m) = Some a' \<and> sm_epoch m < sa_epoch a')"
proof -
  from assms(1,2) obtain s1 w1 rd' where e: "ensure_current_vault E st rd (s, w) = (Inr (), (s1, w1))"
    and f: "io_fold (commit_chunk E st C2 act) (slice_chunks MAX_BATCH_OPS items) rd (s1, w1) = (Inr rd', (s', w'))"
    by (auto simp: mutate_vault_in_batches_def bnd_eq_Inr ret_def)
  note e' = current_epoch [OF e assms(2,4)]
  then have v: "V s1 = V s" by simp
  from commit_chunks_raise [OF f assms(2,3), of a] v assms(4) e' show ?thesis by simp
qed

lemma stale_refused:
  assumes "v2_state rd = Some m" and "V s (sm_object_type m) (sm_object_id m) = Some a" and "sa_epoch a \<noteq> sm_epoch m"
  shows "\<exists>e t. mutate_vault E st rd mutate (s, w) = (Inl e, (t, w)) \<and> peek t = peek s"
    and "\<exists>e t. mutate_vault_in_batches E st C2 rd items act (s, w) = (Inl e, (t, w)) \<and> peek t = peek s"
proof -
  obtain q s1 w1 where e: "ensure_current_vault E st rd (s, w) = (q, (s1, w1))" by (metis prod_cases3)
  note run = ensure_current_run [OF e assms(1)]
  then obtain x where q: "q = Inl x" using assms(2,3) by (cases q) auto
  then show "\<exists>e t. mutate_vault E st rd mutate (s, w) = (Inl e, (t, w)) \<and> peek t = peek s"
    "\<exists>e t. mutate_vault_in_batches E st C2 rd items act (s, w) = (Inl e, (t, w)) \<and> peek t = peek s"
    using run assms(1) e by (auto simp: mutate_vault_def mutate_vault_in_batches_def)
qed

end


subsection \<open>Concrete inputs\<close>

definition vault_env :: "memory_anchor_storage store_env" where
  "vault_env = demo_env\<lparr>env_lib := vault_lib\<rparr>"

definition tiny_state :: "u64 \<Rightarrow> state_metadata" where
  "tiny_state n =
     \<lparr>sm_identity_fingerprint = replicate 32 2, sm_object_type = VaultManifest, sm_object_id = hex vault_lib (replicate 16 3),
      sm_suite_id = to_u16 Classic, sm_epoch = n, sm_previous_state_hash = replicate 32 0, sm_current_state_hash = replicate 32 0\<rparr>"

definition vault_anchored :: memory_anchor_storage where
  "vault_anchored =
     ms_new\<lparr>ms_records := [(object_anchor_account vault_lib ''/d'' VaultManifest (hex vault_lib (replicate 16 3)),
       put_fields (anchor_fields \<lparr>oa_version = OBJECT_ANCHOR_VERSION, oa_anchor = from_metadata (tiny_state 1)\<rparr>))]\<rparr>"

lemma vault_lengths: "blake3_lengths vault_lib"
  by (simp add: blake3_lengths_def vault_lib_def)

interpretation tiny: secure_store memory_storage peek_memory vault_env demo_store
  by unfold_locales
     (simp_all add: vault_env_def demo_env_def demo_store_def demo_store_codecs_def demo_anchors_def fields_codec_ok
        vault_lib_specs vault_lengths)

lemma tiny_next:
  "sm_next vault_lib (replicate 32 2) VaultManifest (hex vault_lib (replicate 16 3)) (to_u16 Classic)
     (Some (from_metadata (tiny_state 1))) [] = Inr (tiny_state 2)"
proof -
  have "expected_hash vault_lib m [] = replicate 32 0" for m by (simp add: expected_hash_def vault_lib_def)
  then show ?thesis by (simp add: sm_next_def tiny_state_def from_metadata_def checked_add_def)
qed

lemma tiny_object_id: "length (hex vault_lib x) = 2 * length x"
  by (induction x) (simp_all add: hex_def vault_lib_def)

lemma vault_anchored_view: "tiny.V vault_anchored VaultManifest (hex vault_lib (replicate 16 3)) = Some (from_metadata (tiny_state 1))"
proof -
  let ?r = "\<lparr>oa_version = OBJECT_ANCHOR_VERSION, oa_anchor = from_metadata (tiny_state 1)\<rparr>"
  have "from_slice (fields_codec anchor_typed anchor_fields anchor_of_fields) (put_fields (anchor_fields ?r)) = Inr ?r"
    by (rule from_slice_to_vec [where V = anchor_typed])
       (simp_all add: fields_codec_ok anchor_typed_def from_metadata_def tiny_state_def, simp add: to_vec_def fields_codec_def)
  then show ?thesis
    by (simp add: anchor_view_def anchor_in_def peek_memory_def vault_anchored_def vault_env_def demo_env_def demo_store_codecs_def demo_anchors_def
        demo_store_def same_object_def from_metadata_def tiny_state_def)
qed


end
