(* ===== verification/Store_Migration.thy ===== *)
theory Store_Migration
  imports Store_Vaults
begin

section \<open>Opening a store and moving it to another identity (store.rs, store/migration.rs)\<close>

text \<open>
  What happens before anything of a store is loaded, and the two operations that write anchors without comparing
  them with the old ones: the upgrade to a post-quantum identity, a transaction over the whole store
  with one commit point, and the recovery of the anchors from the disk. The walk over the staging
  directory (crate walkdir) and the canonical name of the data directory are parameters; the serializer of the
  journal is one too. The store's lock is a call that may fail.
\<close>

subsection \<open>The journal\<close>

definition MIGRATION_RESUME_PENDING :: string where
  "MIGRATION_RESUME_PENDING = ''the post-quantum upgrade was committed but has not finished''"
definition MIGRATION_DIR :: string where "MIGRATION_DIR = ''migration''"
definition JOURNAL_FILE :: string where "JOURNAL_FILE = ''journal''"
definition OLD_COPIES_DIR :: string where "OLD_COPIES_DIR = ''old''"
definition JOURNAL_VERSION :: u16 where "JOURNAL_VERSION = 1"
definition RECORD_VERSION :: u16 where "RECORD_VERSION = 1"
definition MAX_JOURNAL_LEN :: u64 where "MAX_JOURNAL_LEN = 16 * 1024 * 1024"

record migration_journal =
  mj_version :: u16
  mj_old_fingerprint :: bytes
  mj_new_fingerprint :: bytes
  mj_moves :: "(string \<times> string) list"
  mj_anchors :: "state_anchor list"

text \<open>What the operations here are given besides the environment of the store.\<close>

record migration_env =
  me_walk :: "string \<Rightarrow> (string \<times> node) list io"
  me_canonical :: "string \<Rightarrow> string"
  me_journal :: "migration_journal codec"

definition is_migratable_live_path :: "string \<Rightarrow> bool" where
  "is_migratable_live_path rel \<longleftrightarrow>
     rel = KEYSTORE_FILE \<or> rel = CONTACTS_FILE \<or> rel = INDEX_FILE \<or>
     (case strip_prefix ''vaults/'' rel of
        None \<Rightarrow> False
      | Some leaf \<Rightarrow>
          (case strip_suffix ''.fsv2'' leaf of
             None \<Rightarrow> False
           | Some oid \<Rightarrow>
               oid \<noteq> [] \<and> length oid \<le> 64 \<and> list_all (\<lambda>b. is_ascii_alphanumeric b \<or> b = CHR ''-'') oid))"

text \<open>\<open>exists\<close> of the module: a failing call counts as absence.\<close>

definition path_present :: "string \<Rightarrow> bool io" where
  "path_present p = bnd (attempt (std_symlink_metadata p)) (\<lambda>m. ret (is_ok m))"

definition sync_dir_ignored :: "string \<Rightarrow> unit io" where
  "sync_dir_ignored p = bnd (attempt (sync_dir p)) (\<lambda>_. ret ())"

definition migration_dir :: "store \<Rightarrow> string" where
  "migration_dir st = path_join (st_data_dir st) MIGRATION_DIR"

subsection \<open>The commitment in the anchor backend\<close>

definition migration_record_of :: "'s store_env \<Rightarrow> store \<Rightarrow> ('s, migration_record option) sop" where
  "migration_record_of E st =
     (case st_backend st of
        SecureStorage \<Rightarrow>
          bnd (load_anchors (env_secure E) (st_account st)) (\<lambda>m.
            case m of
              None \<Rightarrow> ret None
            | Some b \<Rightarrow> bnd (core (from_slice (ac_root (sc_anchors (env_codecs E))) b)) (\<lambda>root. ret (ar_migration root)))
      | DegradedFile \<Rightarrow>
          bnd (load_file_anchor_set (sc_anchors (env_codecs E)) st) (\<lambda>set. ret (as_migration set)))"

definition set_migration_record :: "'s store_env \<Rightarrow> store \<Rightarrow> migration_record option \<Rightarrow> ('s, unit) sop" where
  "set_migration_record E st record =
     (case st_backend st of
        SecureStorage \<Rightarrow>
          bnd (core (to_vec (ac_root (sc_anchors (env_codecs E))) \<lparr>ar_version = ANCHOR_ROOT_VERSION, ar_migration = record\<rparr>)) (\<lambda>b.
            save_anchors (env_secure E) (st_account st) b)
      | DegradedFile \<Rightarrow>
          bnd (load_file_anchor_set (sc_anchors (env_codecs E)) st) (\<lambda>set.
            save_file_anchor_set (env_lib E) (sc_anchors (env_codecs E)) st (set\<lparr>as_migration := record\<rparr>)))"

definition discard_migration_dir :: "migration_env \<Rightarrow> store \<Rightarrow> ('s, unit) sop" where
  "discard_migration_dir M st =
     (let dir = migration_dir st in
      bnd (core_io (path_present dir)) (\<lambda>there.
        if \<not> there then ret ()
        else
          bnd (core_io (attempt (me_walk M dir))) (\<lambda>found.
          bnd (io_for (\<lambda>(path, n). if n = DirNode then ret () else ignored (secure_wipe path))
                 (case found of Inr es \<Rightarrow> es | Inl _ \<Rightarrow> [])) (\<lambda>_.
            ignored (core_io (std_remove_dir_all dir))))))"

subsection \<open>Applying a committed migration\<close>

text \<open>One move: the live object aside, the staged one into its place, as far as an earlier run did not do it.\<close>

definition apply_move :: "store \<Rightarrow> string \<Rightarrow> nat \<Rightarrow> string \<times> string \<Rightarrow> ('s, unit) sop" where
  "apply_move st old_copies index mv =
     (case mv of (staged_rel, live_rel) \<Rightarrow>
      if \<not> is_migratable_live_path live_rel \<or> staged_rel \<noteq> MIGRATION_DIR @ ''/'' @ live_rel
      then throw (Msg ''the migration journal names an unexpected path'')
      else
        let staged = path_join (st_data_dir st) staged_rel;
            live = path_join (st_data_dir st) live_rel;
            leaf = map (\<lambda>c. if c = slash then CHR ''-'' else c) live_rel;
            old_copy = path_join old_copies (show_nat index @ ''-'' @ leaf)
        in
          bnd (core_io (path_present staged)) (\<lambda>s.
          bnd (core_io (path_present live)) (\<lambda>l.
          bnd (core_io (path_present old_copy)) (\<lambda>old.
            if s \<and> l \<and> \<not> old
            then bnd (core_io (std_rename_tree live old_copy)) (\<lambda>_. core_io (std_rename_tree staged live))
            else if s \<and> \<not> l then core_io (std_rename_tree staged live)
            else if \<not> s \<and> l then ret ()
            else if s then throw (Msg (''migration state for '' @ live_rel @ '' is inconsistent''))
            else throw (Msg (''migrated '' @ live_rel @ '' is missing''))))))"

definition install_anchor :: "'s store_env \<Rightarrow> store \<Rightarrow> migration_journal \<Rightarrow> state_anchor \<Rightarrow> ('s, unit) sop" where
  "install_anchor E st journal anchor =
     (if sa_identity_fingerprint anchor \<noteq> mj_new_fingerprint journal
      then throw (Msg ''the migration journal anchors another identity'')
      else put_anchor (env_lib E) (sc_anchors (env_codecs E)) (env_secure E) st anchor)"

definition finish_migration :: "'s store_env \<Rightarrow> migration_env \<Rightarrow> store \<Rightarrow> migration_record \<Rightarrow> ('s, unit) sop" where
  "finish_migration E M st record =
     (let root = migration_dir st in
      bnd (read_bounded_store_file (path_join root JOURNAL_FILE) MAX_JOURNAL_LEN ''migration journal'') (\<lambda>b.
      if blake3 (env_lib E) b \<noteq> mr_journal_hash record
      then throw (Msg ''the migration journal does not match its committed record'')
      else
        bnd (core (from_slice (me_journal M) b)) (\<lambda>journal.
        if mj_version journal \<noteq> JOURNAL_VERSION \<or> mr_version record \<noteq> RECORD_VERSION \<or>
           mj_old_fingerprint journal \<noteq> mr_old_fingerprint record \<or> mj_new_fingerprint journal \<noteq> mr_new_fingerprint record
        then throw (Msg ''unsupported or inconsistent migration journal'')
        else
          let old_copies = path_join root OLD_COPIES_DIR in
          bnd (core_io (std_create_dir_all old_copies)) (\<lambda>_.
          bnd (io_for (\<lambda>(index, mv). apply_move st old_copies index mv) (enumerate 0 (mj_moves journal))) (\<lambda>_.
          bnd (core_io (sync_dir_ignored (st_data_dir st))) (\<lambda>_.
          bnd (core_io (sync_dir_ignored (st_vaults_dir st))) (\<lambda>_.
          bnd (io_for (install_anchor E st journal) (mj_anchors journal)) (\<lambda>_.
          bnd (set_migration_record E st None) (\<lambda>_.
            discard_migration_dir M st)))))))))"

definition labelled :: "string \<Rightarrow> ('s, 'a) sop \<Rightarrow> ('s, 'a) sop" where
  "labelled label m =
     bnd (attempt m) (\<lambda>r. case r of Inr x \<Rightarrow> ret x | Inl e \<Rightarrow> throw (Labelled label e))"

lemma labelled_eq_Inr: "labelled label m sw = (Inr x, sw') \<longleftrightarrow> m sw = (Inr x, sw')"
  by (auto simp: labelled_def bnd_def attempt_def split: prod.splits sum.splits)

definition resume_identity_migration :: "'s store_env \<Rightarrow> migration_env \<Rightarrow> store \<Rightarrow> ('s, unit) sop" where
  "resume_identity_migration E M st =
     bnd (migration_record_of E st) (\<lambda>r.
       case r of
         Some record \<Rightarrow> labelled MIGRATION_RESUME_PENDING (finish_migration E M st record)
       | None \<Rightarrow> discard_migration_dir M st)"

subsection \<open>The upgrade to a hybrid identity (feature pqc)\<close>

definition unrecovered_legacy_vaults :: "store \<Rightarrow> string list io" where
  "unrecovered_legacy_vaults st =
     bnd (listing (st_vaults_dir st)) (\<lambda>names.
     bnd (io_fold (\<lambda>name ids.
            case strip_suffix ''.fsec'' name of
              None \<Rightarrow> ret ids
            | Some oid \<Rightarrow> bnd (std_exists (vault_dir_v2 st oid)) (\<lambda>there. ret (if there then ids else ids @ [oid]))) names []) (\<lambda>ids.
       ret (sort ids)))"

definition staged_move :: "string \<Rightarrow> string \<times> string" where
  "staged_move live = (MIGRATION_DIR @ ''/'' @ live, live)"

definition stage_protected ::
  "'s store_env \<Rightarrow> int \<Rightarrow> 'p codec \<Rightarrow> 'p protected_state codec \<Rightarrow> identity \<Rightarrow> string \<Rightarrow> string \<Rightarrow> state_object_type \<Rightarrow> string \<Rightarrow> 'p \<Rightarrow>
   ('s, state_metadata) sop" where
  "stage_protected E now CP CS i path entry_name ty oid payload =
     bnd (core (to_vec CP payload)) (\<lambda>payload_bytes.
     bnd (core (sm_next (env_lib E) (id_fingerprint (env_lib E) i) ty oid (to_u16 (self_suite (env_pqc E) i)) None payload_bytes)) (\<lambda>state.
     bnd (core (to_vec CS \<lparr>pt_version = PROTECTED_STATE_VERSION, pt_state = state, pt_payload = payload\<rparr>)) (\<lambda>b.
     bnd (save_blob E now i path entry_name b) (\<lambda>_.
     bnd (read_protected_record E CP CS i path entry_name ty oid) (\<lambda>m.
     bnd (lift (ok_or (Msg (''staged '' @ object_type_display ty @ '' is missing'')) m)) (\<lambda>check.
       if pt_state check \<noteq> state then throw (Msg (''staged '' @ object_type_display ty @ '' failed validation''))
       else ret state))))))"

definition stage_vault ::
  "'s store_env \<Rightarrow> store \<Rightarrow> v2_codecs \<Rightarrow> identity \<Rightarrow> string \<times> vault_reader_v2 \<Rightarrow> (string \<times> string) list \<times> state_anchor list \<Rightarrow>
   ('s, (string \<times> string) list \<times> state_anchor list) sop" where
  "stage_vault E st C2 new v acc =
     (case v of (oid, current) \<Rightarrow>
      let live = ''vaults/'' @ oid @ ''.fsv2''; staged = path_join (migration_dir st) live in
      bnd (core_io (from_reader_v2_with_object_id (env_lib E) C2 staged new (self_suite (env_pqc E) new) current oid)) (\<lambda>made.
      bnd (lift (ok_or (Msg (''staged vault '' @ oid @ '' has no state'')) (v2_state made))) (\<lambda>state.
      bnd (core_io (v2_open (env_lib E) (env_pqc E) C2 staged new)) (\<lambda>check.
        if v2_state check \<noteq> Some state \<or> length (m2_entries (v2_manifest check)) \<noteq> length (m2_entries (v2_manifest current))
        then throw (Msg (''staged vault '' @ oid @ '' failed validation''))
        else ret (fst acc @ [staged_move live], snd acc @ [from_metadata state])))))"

definition stage_migration ::
  "'s store_env \<Rightarrow> store \<Rightarrow> v2_codecs \<Rightarrow> int \<Rightarrow> identity \<Rightarrow> identity \<Rightarrow> inner \<Rightarrow> contact_book \<Rightarrow> registry \<Rightarrow> (string \<times> vault_reader_v2) list \<Rightarrow>
   ('s, migration_journal) sop" where
  "stage_migration E st C2 now old new rekeyed contacts reg vaults =
     (let root = migration_dir st; codecs = env_codecs E; staged = path_join root KEYSTORE_FILE in
      bnd (core_io (std_create_dir_all (path_join root ''vaults''))) (\<lambda>_.
      bnd (core_io (harden_dir root)) (\<lambda>_.
      bnd (lift (ok_or (Msg ''re-sealed keystore has no state'') (ks_state_metadata rekeyed))) (\<lambda>ks_state.
      bnd (core (ks_to_bytes (env_lib E) (sc_keys codecs) rekeyed)) (\<lambda>ks_bytes.
      bnd (write_private_atomic (env_lib E) staged ks_bytes) (\<lambda>_.
      bnd (read_bounded_store_file staged MAX_KEYSTORE_FILE_LEN ''staged keystore'') (\<lambda>b.
      bnd (core (ks_from_bytes (env_lib E) (sc_keys codecs) b)) (\<lambda>check.
      if ks_state_metadata check \<noteq> Some ks_state then throw (Msg ''staged keystore failed validation'')
      else
        bnd (stage_protected E now (sc_contacts codecs) (sc_contacts_state codecs) new (path_join root CONTACTS_FILE) CONTACTS_BLOB
               Contacts ''contacts'' contacts) (\<lambda>c_state.
        bnd (stage_protected E now (sc_registry codecs) (sc_registry_state codecs) new (path_join root INDEX_FILE) REGISTRY_BLOB
               Registry ''registry'' reg) (\<lambda>r_state.
        bnd (io_fold (stage_vault E st C2 new) vaults
               ([staged_move KEYSTORE_FILE, staged_move CONTACTS_FILE, staged_move INDEX_FILE],
                [from_metadata ks_state, from_metadata c_state, from_metadata r_state])) (\<lambda>(moves, anchors).
          ret \<lparr>mj_version = JOURNAL_VERSION, mj_old_fingerprint = id_fingerprint (env_lib E) old,
               mj_new_fingerprint = id_fingerprint (env_lib E) new, mj_moves = moves, mj_anchors = anchors\<rparr>)))))))))))"

text \<open>\<open>inspect_err(|_| self.abandon_uncommitted())\<close>.\<close>

definition or_abandon :: "migration_env \<Rightarrow> store \<Rightarrow> ('s, 'a) sop \<Rightarrow> ('s, 'a) sop" where
  "or_abandon M st m =
     bnd (attempt m) (\<lambda>r. case r of Inr x \<Rightarrow> ret x | Inl e \<Rightarrow> bnd (discard_migration_dir M st) (\<lambda>_. throw e))"

definition open_vaults :: "'s store_env \<Rightarrow> store \<Rightarrow> v2_codecs \<Rightarrow> identity \<Rightarrow> (string \<times> string) list \<Rightarrow> ('s, (string \<times> vault_reader_v2) list) sop" where
  "open_vaults E st C2 old found =
     io_fold (\<lambda>(oid, _) readers.
       bnd (labelled (''vault '' @ oid @ '' must open before upgrading'') (open_vault E st C2 old oid)) (\<lambda>reader.
         ret (readers @ [(oid, reader)]))) found []"

definition commit_migration :: "'s store_env \<Rightarrow> migration_env \<Rightarrow> store \<Rightarrow> migration_journal \<Rightarrow> ('s, migration_record) sop" where
  "commit_migration E M st journal =
     bnd (core (to_vec (me_journal M) journal)) (\<lambda>b.
       let record = \<lparr>mr_version = RECORD_VERSION, mr_old_fingerprint = mj_old_fingerprint journal,
                     mr_new_fingerprint = mj_new_fingerprint journal, mr_journal_hash = blake3 (env_lib E) b\<rparr> in
       bnd (or_abandon M st
              (bnd (write_private_atomic (env_lib E) (path_join (migration_dir st) JOURNAL_FILE) b) (\<lambda>_.
               set_migration_record E st (Some record)))) (\<lambda>_.
         ret record))"

definition migrate_to_hybrid ::
  "'s store_env \<Rightarrow> migration_env \<Rightarrow> store \<Rightarrow> v2_codecs \<Rightarrow> int \<Rightarrow> identity \<Rightarrow> bytes \<Rightarrow> ('s, identity) sop" where
  "migrate_to_hybrid E M st C2 now old passphrase =
     (if is_hybrid_capable (id_public (env_lib E) old) then throw (Msg ''this identity is already post-quantum'')
      else
        bnd (migration_record_of E st) (\<lambda>pending.
        if pending \<noteq> None then throw (Msg (MIGRATION_RESUME_PENDING @ ''; restart FileSec to complete it''))
        else
          bnd (core_io (upgraded_to_hybrid (env_lib E) old)) (\<lambda>new.
          bnd (load_keystore E st) (\<lambda>ks.
          bnd (core_io (continue_identity (env_lib E) (env_pqc E) (sc_keys (env_codecs E)) ks passphrase old new)) (\<lambda>rekeyed.
          bnd (load_contacts E st old) (\<lambda>contacts.
          bnd (load_registry E st old) (\<lambda>reg.
          bnd (core_io (tombstoned_vaults st)) (\<lambda>deleted.
          if deleted \<noteq> []
          then throw (Msg ''a vault deletion was interrupted; lock and unlock FileSec to finish it before upgrading'')
          else
            bnd (core_io (unrecovered_legacy_vaults st)) (\<lambda>legacy.
            if legacy \<noteq> [] then throw (Msg (''legacy vault '' @ hd legacy @ '' must be recovered before upgrading''))
            else
              bnd (core_io (v2_vaults st)) (\<lambda>found.
              bnd (open_vaults E st C2 old found) (\<lambda>vaults.
              bnd (discard_migration_dir M st) (\<lambda>_.
              bnd (or_abandon M st (stage_migration E st C2 now old new rekeyed contacts reg vaults)) (\<lambda>journal.
              bnd (commit_migration E M st journal) (\<lambda>record.
              bnd (attempt (finish_migration E M st record)) (\<lambda>r.
                case r of
                  Inr _ \<Rightarrow> ret new
                | Inl e \<Rightarrow> throw (Noted (Msg MIGRATION_RESUME_PENDING) ''restart FileSec to complete it'' e))))))))))))))))"

subsection \<open>Opening a store\<close>

definition unselected :: "migration_env \<Rightarrow> string \<Rightarrow> ('s, store) sop" where
  "unselected M data_dir =
     (let vaults_dir = path_join data_dir ''vaults''; checkout_dir = path_join data_dir ''checkout'' in
      bnd (core_io (std_create_dir_all vaults_dir)) (\<lambda>_.
      bnd (core_io (std_create_dir_all checkout_dir)) (\<lambda>_.
      bnd (core_io (harden_dir data_dir)) (\<lambda>_.
      bnd (core_io (harden_dir vaults_dir)) (\<lambda>_.
      bnd (core_io (harden_dir checkout_dir)) (\<lambda>_.
      bnd (core_io (syscall (ret (me_canonical M data_dir)))) (\<lambda>account.
      bnd (core_io (syscall (ret ()))) (\<lambda>_.
        ret \<lparr>st_data_dir = data_dir, st_vaults_dir = vaults_dir, st_checkout_dir = checkout_dir, st_backend = DegradedFile,
             st_account = account\<rparr>))))))))"

definition at_with_secure_storage :: "'s store_env \<Rightarrow> migration_env \<Rightarrow> string \<Rightarrow> ('s, store) sop" where
  "at_with_secure_storage E M data_dir =
     bnd (unselected M data_dir) (\<lambda>st.
     bnd (select_anchor_backend (env_lib E) (sc_anchors (env_codecs E)) (st_data_dir st) (st_account st) (env_secure E)) (\<lambda>backend.
       let st = st\<lparr>st_backend := backend\<rparr> in
       bnd (upgrade_secure_anchor_layout (env_lib E) (sc_anchors (env_codecs E)) (env_secure E) st) (\<lambda>_.
       bnd (resume_identity_migration E M st) (\<lambda>_.
         ret st))))"

subsection \<open>Recovering the anchors from the disk\<close>

definition recovered_vault ::
  "'s store_env \<Rightarrow> v2_codecs \<Rightarrow> identity \<Rightarrow> string \<times> string \<Rightarrow> state_anchor list \<Rightarrow> ('s, state_anchor list) sop" where
  "recovered_vault E C2 i found anchors =
     (case found of (oid, dir) \<Rightarrow>
      bnd (labelled (''vault '' @ oid @ '' could not be authenticated'')
             (core_io (v2_open (env_lib E) (env_pqc E) C2 dir i))) (\<lambda>reader.
      bnd (lift (ok_or (Msg (''vault '' @ oid @ '' has no rollback-protection metadata'')) (v2_state reader))) (\<lambda>state.
        if sm_object_id state \<noteq> oid \<or> sm_identity_fingerprint state \<noteq> id_fingerprint (env_lib E) i
        then throw (Msg (''vault '' @ oid @ '' does not belong to this store''))
        else ret (anchors @ [from_metadata state]))))"

definition recover_rollback_anchors ::
  "'s store_env \<Rightarrow> migration_env \<Rightarrow> v2_codecs \<Rightarrow> string \<Rightarrow> bytes \<Rightarrow> ('s, store) sop" where
  "recover_rollback_anchors E M C2 data_dir passphrase =
     (let L = env_lib E; C = env_codecs E in
      bnd (unselected M data_dir) (\<lambda>st.
      bnd (read_bounded_store_file (keystore_path st) MAX_KEYSTORE_FILE_LEN ''keystore file'') (\<lambda>b.
      bnd (core (ks_from_bytes L (sc_keys C) b)) (\<lambda>ks.
      bnd (core (ks_unlock L (env_pqc E) (sc_keys C) ks passphrase)) (\<lambda>i.
      bnd (lift (ok_or (Msg ''keystore has no rollback-protection metadata'') (ks_state_metadata ks))) (\<lambda>ks_state.
      if sm_identity_fingerprint ks_state \<noteq> id_fingerprint L i
      then throw (Msg ''keystore state does not belong to the unlocked identity'')
      else
        bnd (read_protected_record E (sc_contacts C) (sc_contacts_state C) i (contacts_path st) CONTACTS_BLOB Contacts ''contacts'') (\<lambda>book.
        bnd (read_protected_record E (sc_registry C) (sc_registry_state C) i (index_path st) REGISTRY_BLOB Registry ''registry'') (\<lambda>reg.
        let held = [from_metadata ks_state]
              @ (case book of Some record \<Rightarrow> [from_metadata (pt_state record)] | None \<Rightarrow> [])
              @ (case reg of Some record \<Rightarrow> [from_metadata (pt_state record)] | None \<Rightarrow> []) in
        bnd (core_io (v2_vaults st)) (\<lambda>found.
        bnd (io_fold (recovered_vault E C2 i) found held) (\<lambda>anchors.
        bnd (on_fst (\<lambda>s. case probe_secure (env_secure E) (st_account st) s of (q, s') \<Rightarrow> (Inr q, s'))) (\<lambda>probe.
          let st = st\<lparr>st_backend := (if probe = Unreachable then DegradedFile else SecureStorage)\<rparr> in
          bnd (case st_backend st of
                 SecureStorage \<Rightarrow>
                   bnd (io_for (put_anchor L (sc_anchors C) (env_secure E) st) anchors) (\<lambda>_.
                   bnd (lift (encode_root_record (sc_anchors C))) (\<lambda>root.
                     save_anchors (env_secure E) (st_account st) root))
               | DegradedFile \<Rightarrow>
                   save_file_anchor_set L (sc_anchors C) st
                     \<lparr>as_version = ANCHORS_VERSION, as_anchors = anchors, as_migration = None\<rparr>) (\<lambda>_.
          bnd (write_backend_marker L (st_data_dir st) (st_backend st)) (\<lambda>_.
            ret st)))))))))))))"

end
