(* ===== verification/Store_Deletion.thy ===== *)
theory Store_Deletion
  imports Store_Migration Store_Properties V2_Demo
begin

section \<open>Deleted vaults stay deleted\<close>

text \<open>
  The anchor of a deleted vault has the last epoch and the reserved suite 0. No state is an acceptable
  successor of it, so no operation that compares a state with its anchor replaces it, and no vault is
  accepted under it. Three operations write anchors without comparing: the conversion of the legacy layout and the
  upgrade of the identity, which opening a store does only when the root record asks for them, and the recovery of the
  anchors from the disk. The first two are steps here, from a root record that does not ask for them; a new
  upgrade of the identity and the recovery are not steps.
\<close>

definition buried :: "anchor_table \<Rightarrow> string \<Rightarrow> bool" where
  "buried V oid \<longleftrightarrow>
     (\<exists>a. V VaultManifest oid = Some a \<and> sa_object_type a = VaultManifest \<and> sa_object_id a = oid \<and> sa_suite_id a = 0 \<and> sa_epoch a = - 1)"

text \<open>The root record of a store that was opened: in the current layout, with no upgrade pending.\<close>

definition root_settled :: "anchor_codecs \<Rightarrow> bytes option \<Rightarrow> bool" where
  "root_settled C m \<longleftrightarrow>
     (\<exists>b root. m = Some b \<and> from_slice (ac_probe C) b = Inr ANCHOR_ROOT_VERSION \<and> from_slice (ac_root C) b = Inr root \<and>
        ar_migration root = None)"

definition laid_to_rest :: "anchor_codecs \<Rightarrow> anchor_table \<Rightarrow> bytes option \<Rightarrow> string \<Rightarrow> bool" where
  "laid_to_rest C V root oid \<longleftrightarrow> buried V oid \<and> root_settled C root"

lemma buried_candidate:
  assumes "V VaultManifest oid = Some a" and "sa_suite_id a = 0" and "sa_epoch a = - 1"
    and "check_candidate a m = Inr newer"
  shows "\<not> newer \<and> sm_suite_id m = 0"
proof (cases newer)
  case True
  then have "unat (sm_epoch m) = unat (- 1 :: u64) + 1" using assms(3,4) check_candidate_eq_True by auto
  moreover have "unat (sm_epoch m) < 2 ^ 64" using unsigned_less [of "sm_epoch m"] by simp
  moreover have "unat (- 1 :: u64) = 2 ^ 64 - 1" by (simp add: unsigned_minus_1_eq_mask mask_eq_exp_minus_1)
  ultimately show ?thesis by simp
next
  case False
  then have "from_metadata m = a" using assms(4) check_candidate_eq_False by auto
  then show ?thesis using False assms(2) by (auto simp: from_metadata_def)
qed

text \<open>The vault operations reach the anchors only through the storage part of their state.\<close>

definition keeps :: "('s \<Rightarrow> bool) \<Rightarrow> ('s, 'a) sop \<Rightarrow> bool" where
  "keeps Q m = preserves (\<lambda>sw. Q (fst sw)) m"

lemma keepsD: "keeps Q m \<Longrightarrow> m sw = (r, sw') \<Longrightarrow> Q (fst sw) \<Longrightarrow> Q (fst sw')"
  unfolding keeps_def by (rule preservesD)

named_theorems keeps_intros \<open>operations that keep a property of the secure storage\<close>

lemma keeps_monad [keeps_intros]:
  "keeps Q (ret x)" "keeps Q (throw e)" "keeps Q (lift r)" "keeps Q (core q)"
  "keeps Q m \<Longrightarrow> (\<And>x. keeps Q (f x)) \<Longrightarrow> keeps Q (bnd m f)"
  "keeps Q m \<Longrightarrow> keeps Q (attempt m)" "keeps Q m \<Longrightarrow> keeps Q (ignored m)"
  "(\<And>x. keeps Q (f x)) \<Longrightarrow> keeps Q (let x = y in f x)"
  by (auto simp: keeps_def Let_def intro: preserves_intros)

lemma keeps_cases [keeps_intros]:
  "keeps Q m \<Longrightarrow> keeps Q n \<Longrightarrow> keeps Q (if b then m else n)"
  "keeps Q m \<Longrightarrow> (\<And>x. keeps Q (f x)) \<Longrightarrow> keeps Q (case y of None \<Rightarrow> m | Some x \<Rightarrow> f x)"
  "(\<And>a b. keeps Q (g a b)) \<Longrightarrow> keeps Q (case p of (a, b) \<Rightarrow> g a b)"
  "(\<And>e. keeps Q (h e)) \<Longrightarrow> (\<And>x. keeps Q (k x)) \<Longrightarrow> keeps Q (case r of Inl e \<Rightarrow> h e | Inr x \<Rightarrow> k x)"
  "(\<And>b. keeps Q (u b)) \<Longrightarrow> keeps Q d \<Longrightarrow> (\<And>t. keeps Q (l t)) \<Longrightarrow>
     keeps Q (case n' of FileNode b \<Rightarrow> u b | DirNode \<Rightarrow> d | SymlinkNode t \<Rightarrow> l t)"
  by (auto split: option.splits prod.splits sum.splits node.splits)

lemma keeps_loops [keeps_intros]:
  "(\<And>x. keeps Q (f x)) \<Longrightarrow> keeps Q (io_for f xs)"
  "(\<And>x s. keeps Q (g x s)) \<Longrightarrow> keeps Q (io_fold g xs s)"
  by (auto simp: keeps_def intro: preserves_intros)

lemma keeps_world [keeps_intros]: "keeps Q (core_io m)" "keeps Q (on_reader rd act)" "keeps Q (on_snd n)"
  by (auto simp: keeps_def preserves_def core_io_def on_reader_def on_snd_def split: prod.splits)

lemma keeps_files [keeps_intros]:
  "keeps Q (secure_wipe p)" "keeps Q (wipe_vault_dir p)" "keeps Q (quarantine L st p)"
  unfolding secure_wipe_def wipe_vault_dir_def quarantine_def random_hex_def
  by (intro keeps_intros)+

lemma core_io_eq_Inr: "core_io m (s, w) = (Inr x, (s', w')) \<longleftrightarrow> s' = s \<and> m w = (Inr x, w')"
  by (auto simp: core_io_def map_err_eq_Inr split: prod.splits)

lemma v2_open_state:
  assumes "v2_open L pqc C dir i w = (Inr rd, w')" and "v2_state rd = Some m"
  shows "sm_object_type m = VaultManifest \<and> sm_suite_id m \<noteq> 0"
proof -
  have "to_u16 x \<noteq> 0" for x by (cases x) simp_all
  then show ?thesis using assms
    by (auto simp: v2_open_def bnd_eq_Inr opened_reader_def Let_def split: if_splits)
qed

text \<open>A step of the application on its secure storage and the world: any operation on the keystore, the
  contact book, the registry and the vaults, on any identity and with any result, opening the store
  again, and any change of the data directory. The recovery of the anchors
  (\<open>recover_rollback_anchors\<close>) and a new upgrade of the identity (\<open>migrate_to_hybrid\<close>) are not steps.\<close>

inductive store_step :: "'s store_env \<Rightarrow> migration_env \<Rightarrow> store \<Rightarrow> v2_codecs \<Rightarrow> 's \<times> world \<Rightarrow> 's \<times> world \<Rightarrow> bool"
  for E :: "'s store_env" and M :: migration_env and st :: store and C2 :: v2_codecs where
  "save_keystore E st ks sw = (q, sw') \<Longrightarrow> store_step E M st C2 sw sw'"
| "load_keystore E st sw = (q2, sw') \<Longrightarrow> store_step E M st C2 sw sw'"
| "confirm_unlocked_keystore E st ks i sw = (q, sw') \<Longrightarrow> store_step E M st C2 sw sw'"
| "save_contacts E st now i book sw = (q, sw') \<Longrightarrow> store_step E M st C2 sw sw'"
| "load_contacts E st i sw = (q3, sw') \<Longrightarrow> store_step E M st C2 sw sw'"
| "save_registry E st now i reg sw = (q, sw') \<Longrightarrow> store_step E M st C2 sw sw'"
| "load_registry E st i sw = (q4, sw') \<Longrightarrow> store_step E M st C2 sw sw'"
| "save_vault E st C2 i oid v sw = (q, sw') \<Longrightarrow> store_step E M st C2 sw sw'"
| "import_reader_to_vault E st C2 available i oid rd1 sw = (q, sw') \<Longrightarrow> store_step E M st C2 sw sw'"
| "open_vault E st C2 i oid sw = (q5, sw') \<Longrightarrow> store_step E M st C2 sw sw'"
| "recover_legacy_vault E st C2 i oid sw = (q5, sw') \<Longrightarrow> store_step E M st C2 sw sw'"
| "mutate_vault E st rd mutate sw = (q, sw') \<Longrightarrow> store_step E M st C2 sw sw'"
| "append_files_to_vault E st C2 available rd added dirs sw = (q, sw') \<Longrightarrow> store_step E M st C2 sw sw'"
| "remove_paths_from_vault E st C2 rd paths sw = (q, sw') \<Longrightarrow> store_step E M st C2 sw sw'"
| "rename_in_vault E st C2 rd pairs sw = (q, sw') \<Longrightarrow> store_step E M st C2 sw sw'"
| "delete_vault E st now i reg oid sw = (q4, sw') \<Longrightarrow> store_step E M st C2 sw sw'"
| "reconcile_vaults E st C2 now i reg sw = (q6, sw') \<Longrightarrow> store_step E M st C2 sw sw'"
| "retire_tombstone E st i oid sw = (q, sw') \<Longrightarrow> store_step E M st C2 sw sw'"
| "recover_legacy_keystore E st passphrase sw = (q2, sw') \<Longrightarrow> store_step E M st C2 sw sw'"
| "recover_legacy_contacts E st now i sw = (q3, sw') \<Longrightarrow> store_step E M st C2 sw sw'"
| "recover_legacy_registry E st now i sw = (q4, sw') \<Longrightarrow> store_step E M st C2 sw sw'"
| "load_vault E st C2 i oid sw = (q7, sw') \<Longrightarrow> store_step E M st C2 sw sw'"
| "put_bytes_in_vault E st C2 rd path b mtime sw = (q, sw') \<Longrightarrow> store_step E M st C2 sw sw'"
| "replace_file_in_vault E st C2 rd path source mtime mode sw = (q, sw') \<Longrightarrow> store_step E M st C2 sw sw'"
| "save_prefs E st p sw = (q, sw') \<Longrightarrow> store_step E M st C2 sw sw'"
| "load_prefs E st sw = (q8, sw') \<Longrightarrow> store_step E M st C2 sw sw'"
| "clean_partial_dirs st sw = (q, sw') \<Longrightarrow> store_step E M st C2 sw sw'"
| "clean_checkout_dir st sw = (q, sw') \<Longrightarrow> store_step E M st C2 sw sw'"
| reopened: "at_with_secure_storage E M data_dir sw = (q9, sw') \<Longrightarrow> me_canonical M data_dir = st_account st \<Longrightarrow> store_step E M st C2 sw sw'"
| tampered: "store_step E M st C2 (s, w) (s, w')"

lemma root_account: "object_anchor_account L root ty oid \<noteq> root"
proof
  assume "object_anchor_account L root ty oid = root"
  then have "length (object_anchor_account L root ty oid) = length root" by simp
  then show False by (simp add: object_anchor_account_def)
qed

context secure_store
begin

abbreviation laid :: "string \<Rightarrow> 's \<Rightarrow> bool" where
  "laid oid s \<equiv> laid_to_rest (sc_anchors (env_codecs E)) (V s) (peek s (st_account st)) oid"

lemma anchors_untouched: "preserves (\<lambda>sw. peek (fst sw) = p) (get_anchor (env_lib E) (sc_anchors (env_codecs E)) (Some S) st ty oid)"
proof (rule preservesI)
  fix sw r sw'
  assume "peek (fst sw) = p" "get_anchor (env_lib E) (sc_anchors (env_codecs E)) (Some S) st ty oid sw = (r, sw')"
  then show "peek (fst sw') = p" using get_anchor_secure [OF secure(2), of _ _ ty oid "fst sw" "snd sw" r "fst sw'" "snd sw'"] by simp
qed

lemma keeps_get: "keeps (laid oid) (get_anchor (env_lib E) (sc_anchors (env_codecs E)) (env_secure E) st ty k)"
proof -
  have "preserves (\<lambda>sw. peek (fst sw) = p) (get_anchor (env_lib E) (sc_anchors (env_codecs E)) (Some S) st ty k)" for p by (rule anchors_untouched)
  then show ?thesis unfolding keeps_def secure(1) preserves_def by metis
qed

lemma keeps_current: "keeps (laid oid) (current_anchor (env_lib E) (sc_anchors (env_codecs E)) (env_secure E) st f ty k)"
  unfolding current_anchor_def by (intro keeps_intros keeps_get)

text \<open>Another object's anchor.\<close>

lemma put_elsewhere:
  assumes "put_anchor (env_lib E) (sc_anchors (env_codecs E)) (Some S) st a (s, w) = (r, (s', w'))"
    and "\<not> same_object ty oid a"
  shows "V s' ty oid = V s ty oid"
proof (cases "\<exists>b. save_anchors (Some S) (object_anchor_account (env_lib E) (st_account st) (sa_object_type a) (sa_object_id a)) b (s, w) = (r, (s', w'))")
  case True
  then obtain b where "save_anchors (Some S) (object_anchor_account (env_lib E) (st_account st) (sa_object_type a) (sa_object_id a)) b (s, w) = (r, (s', w'))" ..
  from save_anchors_run [OF this] show ?thesis
    using account_inj [OF hex, of "st_account st" ty oid] assms(2) by (auto simp: anchor_view_def same_object_def)
next
  case False
  then have "s' = s" using assms(1) secure(2)
    by (cases "to_vec (ac_object (sc_anchors (env_codecs E))) \<lparr>oa_version = OBJECT_ANCHOR_VERSION, oa_anchor = a\<rparr>")
       (auto simp: put_anchor_def bnd_def split: if_splits)
  then show ?thesis by simp
qed

lemma put_root:
  assumes "put_anchor (env_lib E) (sc_anchors (env_codecs E)) (Some S) st a (s, w) = (r, (s', w'))"
  shows "peek s' (st_account st) = peek s (st_account st)"
proof (cases "\<exists>b. save_anchors (Some S) (object_anchor_account (env_lib E) (st_account st) (sa_object_type a) (sa_object_id a)) b (s, w) = (r, (s', w'))")
  case True
  then obtain b where "save_anchors (Some S) (object_anchor_account (env_lib E) (st_account st) (sa_object_type a) (sa_object_id a)) b (s, w) = (r, (s', w'))" ..
  from save_anchors_run [OF this] root_account [of "env_lib E" "st_account st" "sa_object_type a" "sa_object_id a"] show ?thesis by auto
next
  case False
  then have "s' = s" using assms secure(2)
    by (cases "to_vec (ac_object (sc_anchors (env_codecs E))) \<lparr>oa_version = OBJECT_ANCHOR_VERSION, oa_anchor = a\<rparr>")
       (auto simp: put_anchor_def bnd_def split: if_splits)
  then show ?thesis by simp
qed

lemma laid_put:
  assumes "put_anchor (env_lib E) (sc_anchors (env_codecs E)) (Some S) st a (s, w) = (r, (s', w'))" and "laid oid s"
    and "\<not> same_object VaultManifest oid a"
  shows "laid oid s'"
  using put_elsewhere [OF assms(1,3)] put_root [OF assms(1)] assms(2) by (simp add: laid_to_rest_def buried_def)

lemma keeps_accept: "keeps (laid oid) (env_accept E st m p)"
proof -
  let ?C = "sc_anchors (env_codecs E)" and ?L = "env_lib E"
  have "keeps (laid oid) (bnd (get_anchor ?L ?C (Some S) st (sm_object_type m) (sm_object_id m)) (\<lambda>k.
      bnd (case k of Some anchor \<Rightarrow> core (check_candidate anchor m) | None \<Rightarrow> ret True) (\<lambda>up.
        if up then put_anchor ?L ?C (Some S) st (from_metadata m) else ret ())))" (is "keeps ?Q ?m")
    unfolding keeps_def
  proof (rule preservesI)
    fix sw r sw' assume b: "?Q (fst sw)" and run: "?m sw = (r, sw')"
    obtain q s1 w1 where g: "get_anchor ?L ?C (Some S) st (sm_object_type m) (sm_object_id m) sw = (q, (s1, w1))" by (metis prod_cases3)
    from get_anchor_secure [OF secure(2), of _ _ _ _ "fst sw" "snd sw"] g have k: "peek s1 = peek (fst sw)"
      "\<And>x. q = Inr x \<Longrightarrow> x = V (fst sw) (sm_object_type m) (sm_object_id m)" by (auto simp: prod_eq_iff)
    show "?Q (fst sw')"
    proof (cases "same_object VaultManifest oid (from_metadata m)")
      case False
      show ?thesis
      proof (cases "sw' = (s1, w1)")
        case True
        then show ?thesis using b k(1) by simp
      next
        case moved: False
        then have "put_anchor ?L ?C (Some S) st (from_metadata m) (s1, w1) = (r, sw')"
          using run g by (auto simp: bnd_def core_def split: sum.splits option.splits if_splits prod.splits)
        then show ?thesis using laid_put [of "from_metadata m" s1 w1 r "fst sw'" "snd sw'"] b k(1) False by simp
      qed
    next
      case True
      from b obtain a where a: "V (fst sw) VaultManifest oid = Some a" "sa_suite_id a = 0" "sa_epoch a = - 1"
        by (auto simp: laid_to_rest_def buried_def)
      have o: "sm_object_type m = VaultManifest" "sm_object_id m = oid" using True by (auto simp: same_object_def from_metadata_def)
      have "sw' = (s1, w1)"
        using run g k(2) a(1) o buried_candidate [of "V (fst sw)", OF a]
        by (cases q; cases "check_candidate a m") (auto simp: bnd_def core_def split: if_splits)
      then show ?thesis using b k(1) by simp
    qed
  qed
  from keeps_monad(6) [OF this] show ?thesis unfolding accept_state_def guarded_def secure(1)
    by (rule keeps_monad(5)) (intro keeps_intros keeps_files)
qed


lemma keeps_commit: "keeps (laid oid) (env_commit E st m)"
  unfolding commit_state_def by (rule keeps_accept)

lemma keeps_check: "keeps (laid oid) (check_state_transition (env_lib E) (sc_anchors (env_codecs E)) (env_secure E) st m)"
  unfolding check_state_transition_def by (intro keeps_intros keeps_get)

text \<open>A loaded state is accepted when its object has an anchor.\<close>

lemma keeps_check_loaded: "keeps (laid oid) (check_loaded_state (env_lib E) (sc_anchors (env_codecs E)) (env_secure E) st m p)"
proof (unfold keeps_def, rule preservesI)
  fix sw r sw'
  assume b: "laid oid (fst sw)"
    and run: "check_loaded_state (env_lib E) (sc_anchors (env_codecs E)) (env_secure E) st m p sw = (r, sw')"
  obtain q s1 w1 where g: "get_anchor (env_lib E) (sc_anchors (env_codecs E)) (Some S) st (sm_object_type m) (sm_object_id m) sw = (q, (s1, w1))"
    by (metis prod_cases3)
  show "laid oid (fst sw')"
  proof (cases "q = Inr None")
    case True
    from get_anchor_secure [OF secure(2), of _ _ _ _ "fst sw" "snd sw"] g have "peek s1 = peek (fst sw)" by (auto simp: prod_eq_iff)
    moreover have "sw' = (s1, w1)" using run g True by (simp add: check_loaded_state_def guarded_def secure(1) bnd_def attempt_def)
    ultimately show ?thesis using b by simp
  next
    case False
    have "env_accept E st m p sw = (r, sw')"
      using run g False
      by (cases q) (auto simp: check_loaded_state_def accept_state_def guarded_def secure(1) bnd_def attempt_def split: option.splits)
    then show ?thesis using keeps_accept b unfolding keeps_def preserves_def by metis
  qed
qed

lemma keeps_retire: "keeps (laid oid) (put_anchor (env_lib E) (sc_anchors (env_codecs E)) (env_secure E) st (deleted_vault_anchor (env_lib E) i k))"
proof (unfold keeps_def secure(1), rule preservesI)
  let ?a = "deleted_vault_anchor (env_lib E) i k"
  fix sw r sw'
  assume b: "laid oid (fst sw)" and run: "put_anchor (env_lib E) (sc_anchors (env_codecs E)) (Some S) st ?a sw = (r, sw')"
  have "anchor_typed \<lparr>oa_version = OBJECT_ANCHOR_VERSION, oa_anchor = ?a\<rparr>"
    using blake3_lengthsD [OF hashes] by (simp add: anchor_typed_def deleted_vault_anchor_def id_fingerprint_def fingerprint_def)
  from put_anchor_secure [OF secure(2) _ object_codec this hex, of "fst sw" "snd sw" r "fst sw'" "snd sw'"] run
  have "V (fst sw') = (\<lambda>ty o'. if same_object ty o' ?a then Some ?a else V (fst sw) ty o') \<or> V (fst sw') = V (fst sw)" by auto
  then show "laid oid (fst sw')"
    using b put_root [of ?a "fst sw" "snd sw" r "fst sw'" "snd sw'"] run by (auto simp: laid_to_rest_def buried_def deleted_vault_anchor_def same_object_def)
qed

lemmas keeps_anchors = keeps_intros keeps_files keeps_get keeps_current keeps_accept keeps_commit keeps_check keeps_check_loaded keeps_retire

lemma keeps_objects:
  "keeps (laid oid) (save_keystore E st ks)" "keeps (laid oid) (load_keystore E st)"
  "keeps (laid oid) (confirm_unlocked_keystore E st ks i)"
  "keeps (laid oid) (save_contacts E st now i book)" "keeps (laid oid) (load_contacts E st i)"
  "keeps (laid oid) (save_registry E st now i reg)" "keeps (laid oid) (load_registry E st i)"
    "keeps (laid oid) (recover_legacy_keystore E st passphrase)" "keeps (laid oid) (recover_legacy_contacts E st now i)"
    "keeps (laid oid) (recover_legacy_registry E st now i)"
proof -
  have "keeps Q (load_blob E i p n)" "keeps Q (save_blob E now i p n c)" "keeps Q (write_private_atomic L p c)" "keeps Q (read_bounded_store_file p mx wh)"
    for Q i p n c now L mx wh
    unfolding load_blob_def save_blob_def write_private_atomic_def write_private_export_def read_bounded_store_file_def reject_oversized_file_def
    by (intro keeps_intros; simp?)+
  note blobs = this
  show "keeps (laid oid) (save_keystore E st ks)" "keeps (laid oid) (load_keystore E st)"
    "keeps (laid oid) (confirm_unlocked_keystore E st ks i)"
    "keeps (laid oid) (save_contacts E st now i book)" "keeps (laid oid) (load_contacts E st i)"
    "keeps (laid oid) (save_registry E st now i reg)" "keeps (laid oid) (load_registry E st i)"
    "keeps (laid oid) (recover_legacy_keystore E st passphrase)" "keeps (laid oid) (recover_legacy_contacts E st now i)"
    "keeps (laid oid) (recover_legacy_registry E st now i)"
    unfolding save_keystore_def load_keystore_def confirm_unlocked_keystore_def save_contacts_def load_contacts_def save_registry_def
      load_registry_def save_protected_blob_def load_protected_blob_def read_protected_record_def
      recover_legacy_keystore_def recover_legacy_contacts_def recover_legacy_registry_def
    by (intro keeps_anchors blobs)+
qed


lemma keeps_vaults:
  "keeps (laid oid) (save_vault E st C2 i k v)"
  "keeps (laid oid) (import_reader_to_vault E st C2 available i k rd1)"
  "keeps (laid oid) (open_vault E st C2 i k)"
  "keeps (laid oid) (recover_legacy_vault E st C2 i k)"
  "keeps (laid oid) (mutate_vault E st rd act)"
  "keeps (laid oid) (append_files_to_vault E st C2 available rd added dirs)"
  "keeps (laid oid) (remove_paths_from_vault E st C2 rd paths)"
  "keeps (laid oid) (rename_in_vault E st C2 rd pairs)"
proof -
  have create: "keeps (laid oid) (create_vault_dir E st k build)" for k build
    unfolding create_vault_dir_def cleaning_up_def by (intro keeps_anchors)
  have op: "keeps (laid oid) (open_vault E st C2 i k)" for k
    unfolding open_vault_def by (intro keeps_anchors)
  have batches: "keeps (laid oid) (mutate_vault_in_batches E st C2 rd items f)" for items and f :: "'x \<Rightarrow> _"
    unfolding mutate_vault_in_batches_def commit_chunk_def ensure_current_vault_def commit_vault_reader_def
    by (intro keeps_anchors)
  show "keeps (laid oid) (save_vault E st C2 i k v)"
    "keeps (laid oid) (import_reader_to_vault E st C2 available i k rd1)"
    "keeps (laid oid) (open_vault E st C2 i k)"
    "keeps (laid oid) (recover_legacy_vault E st C2 i k)"
    "keeps (laid oid) (mutate_vault E st rd act)"
    "keeps (laid oid) (append_files_to_vault E st C2 available rd added dirs)"
    "keeps (laid oid) (remove_paths_from_vault E st C2 rd paths)"
    "keeps (laid oid) (rename_in_vault E st C2 rd pairs)"
    unfolding save_vault_def import_reader_to_vault_def ensure_free_space_def recover_legacy_vault_def migrate_vault_v1_to_v2_def
      mutate_vault_def append_files_to_vault_def remove_paths_from_vault_def rename_in_vault_def commit_chunk_def
      ensure_current_vault_def commit_vault_reader_def
    by (intro keeps_anchors create op batches)+
qed

lemma keeps_deletion:
  "keeps (laid oid) (retire_tombstone E st i k)"
  "keeps (laid oid) (delete_vault E st now i reg k)"
  "keeps (laid oid) (reconcile_vaults E st C2 now i reg)"
  unfolding delete_vault_def reconcile_vaults_def tombstone_vault_def restore_tombstone_def retire_tombstone_def settle_tombstone_def
    register_found_def
  by (intro keeps_anchors keeps_objects keeps_vaults)+

lemma keeps_others:
  "keeps (laid oid) (load_vault E st C2 i k)"
  "keeps (laid oid) (put_bytes_in_vault E st C2 rd path b mtime)"
  "keeps (laid oid) (replace_file_in_vault E st C2 rd path source mtime mode)"
  "keeps (laid oid) (save_prefs E st p)" "keeps (laid oid) (load_prefs E st)"
  "keeps (laid oid) (clean_partial_dirs st)" "keeps (laid oid) (clean_checkout_dir st)"
  unfolding load_vault_def put_bytes_in_vault_def replace_file_in_vault_def save_prefs_def load_prefs_def clean_partial_dirs_def
    clean_checkout_dir_def write_private_atomic_def write_private_export_def read_bounded_store_file_def
  by (intro keeps_anchors keeps_vaults)+

text \<open>Opening the store again. Its root record is there and asks for nothing, so the storage is only read; in the
  degraded mode it is not touched.\<close>

lemma keeps_file_anchors:
  "keeps Q (load_file_anchor_set C st1)" "keeps Q (save_file_anchor_set L C st1 anchors)"
  unfolding load_file_anchor_set_def save_file_anchor_set_def read_bounded_store_file_def write_private_atomic_def write_private_export_def
  by (intro keeps_intros)+

lemma keeps_discard: "keeps Q (discard_migration_dir M st1)"
  unfolding discard_migration_dir_def by (intro keeps_intros keeps_files)

lemma keeps_finish_degraded:
  assumes "st_backend st1 = DegradedFile"
  shows "keeps Q (finish_migration E M st1 record)"
proof -
  have "keeps Q (install_anchor E st1 journal anchor)" for journal anchor
    unfolding install_anchor_def put_anchor_def assms anchor_backend.case
    by (intro keeps_intros keeps_file_anchors)
  moreover have "keeps Q (apply_move st1 old_copies index mv)" for old_copies index mv
    unfolding apply_move_def by (intro keeps_intros)
  moreover have "keeps Q (set_migration_record E st1 None)"
    unfolding set_migration_record_def assms anchor_backend.case by (intro keeps_intros keeps_file_anchors)
  ultimately show ?thesis
    unfolding finish_migration_def read_bounded_store_file_def by (intro keeps_intros keeps_discard)
qed

lemma laid_load:
  assumes "laid oid s" and "load_anchors (Some S) (st_account st) (s, w) = (r, (s', w'))"
  shows "peek s' = peek s \<and> (\<forall>m. r = Inr m \<longrightarrow> root_settled (sc_anchors (env_codecs E)) m)"
  using load_anchors_run [OF assms(2)] assms(1) by (auto simp: laid_to_rest_def)

lemma keeps_upgrade_layout:
  assumes "st_account st1 = st_account st"
  shows "keeps (laid oid) (upgrade_secure_anchor_layout (env_lib E) (sc_anchors (env_codecs E)) (env_secure E) st1)"
proof (cases "st_backend st1")
  case SecureStorage
  show ?thesis unfolding keeps_def
  proof (rule preservesI)
    fix sw r sw' assume b: "laid oid (fst sw)"
      and run: "upgrade_secure_anchor_layout (env_lib E) (sc_anchors (env_codecs E)) (env_secure E) st1 sw = (r, sw')"
    obtain q s1 w1 where l: "load_anchors (Some S) (st_account st) (fst sw, snd sw) = (q, (s1, w1))" by (metis prod_cases3)
    note k = laid_load [OF b l]
    have "fst sw' = s1"
      using run l k SecureStorage
      by (cases q) (auto simp: upgrade_secure_anchor_layout_def secure(1) assms bnd_def root_settled_def)
    then show "laid oid (fst sw')" using b k by simp
  qed
qed (simp add: upgrade_secure_anchor_layout_def keeps_intros)

lemma keeps_resume:
  assumes "st_account st1 = st_account st"
  shows "keeps (laid oid) (resume_identity_migration E M st1)"
proof (cases "st_backend st1")
  case SecureStorage
  show ?thesis unfolding keeps_def
  proof (rule preservesI)
    fix sw r sw' assume b: "laid oid (fst sw)" and run: "resume_identity_migration E M st1 sw = (r, sw')"
    obtain q s1 w1 where l: "load_anchors (Some S) (st_account st) (fst sw, snd sw) = (q, (s1, w1))" by (metis prod_cases3)
    note k = laid_load [OF b l]
    have "\<exists>r'. discard_migration_dir M st1 (s1, w1) = (r', sw') \<or> sw' = (s1, w1)"
      using run l k SecureStorage
      by (cases q) (auto simp: resume_identity_migration_def migration_record_of_def secure(1) assms bnd_def root_settled_def)
    then show "laid oid (fst sw')"
      using b k keepsD [OF keeps_discard [of "laid oid" M st1], of "(s1, w1)" _ sw'] by auto
  qed
next
  case DegradedFile
  then show ?thesis
    unfolding resume_identity_migration_def migration_record_of_def labelled_def anchor_backend.case
    by (simp only: DegradedFile anchor_backend.case)
       (intro keeps_intros keeps_file_anchors keeps_finish_degraded [OF DegradedFile] keeps_discard)
qed

lemma keeps_select:
  "keeps (laid oid) (select_anchor_backend (env_lib E) (sc_anchors (env_codecs E)) dir (st_account st) (env_secure E))"
  unfolding keeps_def
proof (rule preservesI)
  let ?C = "sc_anchors (env_codecs E)" and ?probe = "\<lambda>s. case probe_secure (env_secure E) (st_account st) s of (q, s') \<Rightarrow> (Inr q, s')"
  fix sw r sw' assume b: "laid oid (fst sw)"
    and run: "select_anchor_backend (env_lib E) ?C dir (st_account st) (env_secure E) sw = (r, sw')"
  let ?Q = "\<lambda>s. peek s = peek (fst sw)"
  have tail: "keeps ?Q (bnd (on_fst ?probe) (\<lambda>probe.
     bnd (lift (choose_backend probe marker protected_state file_anchors)) (\<lambda>backend.
     bnd (if backend = SecureStorage \<and> probe = ProbeEmpty
          then establish_secure_anchor_record ?C (env_secure E) (st_account st) protected_state
          else ret backend) (\<lambda>backend.
       let wanted = (case backend of SecureStorage \<Rightarrow> SecureMarker | DegradedFile \<Rightarrow> DegradedMarker) in
       bnd (if marker \<noteq> Some wanted then write_backend_marker (env_lib E) dir backend else ret ()) (\<lambda>_.
         ret backend)))))" (is "keeps ?Q (bnd _ (?rest marker protected_state file_anchors))") for marker protected_state file_anchors
    unfolding keeps_def
  proof (rule preservesI)
    fix tv r tv' assume q: "?Q (fst tv)" and run: "bnd (on_fst ?probe) (?rest marker protected_state file_anchors) tv = (r, tv')"
    obtain probe t where p: "probe_secure (env_secure E) (st_account st) (fst tv) = (probe, t)" by force
    obtain z t1 where z: "so_load S (st_account st) (fst tv) = (z, t1)" by force
    have t: "peek t = peek (fst sw)" and ne: "probe \<noteq> ProbeEmpty"
      using p z load_keeps [OF z] load_answers [of "st_account st" "fst tv" _ t1] q b
      by (auto simp: probe_secure_def secure(1) laid_to_rest_def root_settled_def split: sum.splits option.splits)
    have "keeps ?Q (write_backend_marker (env_lib E) dir backend)" for backend
      unfolding write_backend_marker_def write_private_atomic_def write_private_export_def by (intro keeps_intros)
    then have K: "keeps ?Q (?rest marker protected_state file_anchors probe)"
      using ne by (simp only: simp_thms if_False Let_def) (intro keeps_intros)
    have R: "?rest marker protected_state file_anchors probe (t, snd tv) = (r, tv')"
      using run p by (cases tv) (simp add: bnd_def on_fst_def)
    show "?Q (fst tv')" by (rule keepsD [OF K R]) (simp add: t)
  qed
  have "keeps ?Q (select_anchor_backend (env_lib E) ?C dir (st_account st) (env_secure E))"
    unfolding select_anchor_backend_def by (intro keeps_monad(5) [OF keeps_world(1)] tail)
  from keepsD [OF this run] b show "laid oid (fst sw')" by simp
qed

lemma keeps_reopen:
  assumes "me_canonical M data_dir = st_account st"
  shows "keeps (laid oid) (at_with_secure_storage E M data_dir)"
proof -
  have "keeps (laid oid) (unselected M data_dir)" unfolding unselected_def by (intro keeps_intros)
  moreover have "keeps (laid oid) (bnd (select_anchor_backend (env_lib E) (sc_anchors (env_codecs E)) (st_data_dir st1) (st_account st1) (env_secure E))
      (\<lambda>backend. let st = st1\<lparr>st_backend := backend\<rparr> in
       bnd (upgrade_secure_anchor_layout (env_lib E) (sc_anchors (env_codecs E)) (env_secure E) st) (\<lambda>_.
       bnd (resume_identity_migration E M st) (\<lambda>_. ret st))))" if "st_account st1 = st_account st" for st1
    unfolding that Let_def by (intro keeps_intros keeps_select keeps_upgrade_layout keeps_resume) (simp_all add: that)
  moreover have "st_account st1 = st_account st" if "unselected M data_dir sw = (Inr st1, sw')" for st1 sw sw'
    using that assms by (auto simp: unselected_def Let_def bnd_eq_Inr core_io_eq_Inr syscall_eq split: option.splits prod.splits)
  ultimately show ?thesis
    unfolding at_with_secure_storage_def keeps_def preserves_def bnd_eq by blast
qed

lemmas keeps_operations = keeps_objects keeps_vaults keeps_deletion keeps_others

lemma laid_step: "store_step E M st C2 sw sw' \<Longrightarrow> laid oid (fst sw) \<Longrightarrow> laid oid (fst sw')"
proof (induction rule: store_step.induct)
  case (reopened data_dir sw q9 sw')
  show ?case by (rule keepsD [OF keeps_reopen [OF reopened(2)] reopened(1,3)])
qed ((erule (1) keeps_operations [THEN keepsD])+, simp)

lemma retired_buried:
  assumes "retire_tombstone E st i oid sw = (Inr (), sw')"
  shows "buried (V (fst sw')) oid"
proof -
  let ?a = "deleted_vault_anchor (env_lib E) i oid"
  from assms obtain sw1 where p: "put_anchor (env_lib E) (sc_anchors (env_codecs E)) (Some S) st ?a sw = (Inr (), sw1)"
    and rest: "bnd (core_io (std_exists (vault_tombstone st oid))) (\<lambda>tomb.
      bnd (if tomb then wipe_vault_dir (vault_tombstone st oid) else ret ()) (\<lambda>_.
      ignored (secure_wipe (legacy_vault_tombstone st oid)))) sw1 = (Inr (), sw')"
    by (auto simp: retire_tombstone_def secure(1) bnd_eq_Inr)
  have "anchor_typed \<lparr>oa_version = OBJECT_ANCHOR_VERSION, oa_anchor = ?a\<rparr>"
    using blake3_lengthsD [OF hashes] by (simp add: anchor_typed_def deleted_vault_anchor_def id_fingerprint_def fingerprint_def)
  from put_anchor_secure [OF secure(2) _ object_codec this hex, of "fst sw" "snd sw" "Inr ()" "fst sw1" "snd sw1"] p
  have "buried (V (fst sw1)) oid"
    by (auto simp: buried_def deleted_vault_anchor_def same_object_def)
  moreover have "keeps (\<lambda>s. buried (V s) oid) (bnd (core_io (std_exists (vault_tombstone st oid))) (\<lambda>tomb.
      bnd (if tomb then wipe_vault_dir (vault_tombstone st oid) else ret ()) (\<lambda>_.
      ignored (secure_wipe (legacy_vault_tombstone st oid)))))"
    by (intro keeps_intros keeps_files)
  ultimately show ?thesis using rest unfolding keeps_def preserves_def by metis
qed


lemma buried_refuses:
  assumes "buried (V s) oid" and "sm_object_type m = VaultManifest" and "sm_object_id m = oid" and "sm_suite_id m \<noteq> 0"
    and "env_accept E st m p (s, w) = (r, sw')"
  shows "\<not> is_ok r"
proof -
  obtain q s1 w1 where g: "get_anchor (env_lib E) (sc_anchors (env_codecs E)) (Some S) st VaultManifest oid (s, w) = (q, (s1, w1))"
    by (metis prod_cases3)
  from get_anchor_secure [OF secure(2) g] have k: "\<And>x. q = Inr x \<Longrightarrow> x = V s VaultManifest oid" by auto
  from assms(1) obtain a where a: "V s VaultManifest oid = Some a" "sa_suite_id a = 0" "sa_epoch a = - 1" by (auto simp: buried_def)
  from buried_candidate [of "V s", OF a, of m] assms(4) have "\<exists>e. check_candidate a m = Inl e"
    by (cases "check_candidate a m") auto
  then show ?thesis
    using assms(2,3,5) g k a(1)
    by (cases q) (auto simp: accept_state_def guarded_def secure(1) bnd_def attempt_def core_def split: prod.splits sum.splits)
qed

lemma buried_open:
  assumes "buried (V s) oid"
  shows "\<not> is_ok (fst (open_vault E st C2 i oid (s, w)))"
proof
  assume "is_ok (fst (open_vault E st C2 i oid (s, w)))"
  then obtain rd sw' where "open_vault E st C2 i oid (s, w) = (Inr rd, sw')" by (auto simp: is_ok_iff prod_eq_iff)
  then obtain w1 w2 reader m sw2 where op: "v2_open (env_lib E) (env_pqc E) C2 (vault_dir_v2 st oid) i w1 = (Inr reader, w2)"
    and m: "v2_state reader = Some m" "sm_object_id m = oid"
    and acc: "env_accept E st m (vault_dir_v2 st oid) (s, w2) = (Inr (), sw2)"
    by (auto simp: open_vault_def Let_def bnd_eq_Inr core_io_eq_Inr ok_or_eq_Inr split: if_splits)
  from v2_open_state [OF op m(1)] buried_refuses [OF assms _ m(2) _ acc] show False by (auto simp: is_ok_def)
qed

lemma laid_open_vaults:
  assumes "laid oid (fst sw)" and "open_vaults E st C2 j found sw = (Inr vaults, sw')"
  shows "oid \<notin> fst ` set vaults"
proof -
  have "oid \<notin> fst ` set vaults"
    if "io_fold (\<lambda>(k, _) readers. bnd (labelled (''vault '' @ k @ '' must open before upgrading'') (open_vault E st C2 j k)) (\<lambda>reader.
         ret (readers @ [(k, reader)]))) found acc sw = (Inr vaults, sw')" and "laid oid (fst sw)" and "oid \<notin> fst ` set acc" for acc sw
    using that
  proof (induction found arbitrary: acc sw)
    case Nil
    then show ?case by simp
  next
    case (Cons f found)
    obtain k d where f: "f = (k, d)" by force
    from Cons.prems(1) obtain reader sw1 where o: "open_vault E st C2 j k sw = (Inr reader, sw1)"
      and r: "io_fold (\<lambda>(k, _) readers. bnd (labelled (''vault '' @ k @ '' must open before upgrading'') (open_vault E st C2 j k)) (\<lambda>reader.
         ret (readers @ [(k, reader)]))) found (acc @ [(k, reader)]) sw1 = (Inr vaults, sw')"
      unfolding f io_fold.simps prod.case bnd_eq_Inr labelled_eq_Inr by (auto simp: ret_def)
    have "laid oid (fst sw1)" by (rule keepsD [OF keeps_vaults(3) o Cons.prems(2)])
    moreover have "k \<noteq> oid"
      using buried_open [of "fst sw" oid C2 j "snd sw"] o Cons.prems(2) by (auto simp: laid_to_rest_def is_ok_def)
    ultimately show ?case using Cons.IH [OF r] Cons.prems(3) by auto
  qed
  from this [of "[]" sw] assms show ?thesis by (simp add: open_vaults_def)
qed

end

text \<open>C6. A deleted vault stays deleted, in a store that keeps its anchors in the secure storage. Once the
  deletion of a vault is complete (its tombstone is retired) and no upgrade of the identity is pending,
  no identity opens the vault, whatever the store does in between (creating and importing vaults,
  changing, deleting and reconciling them, recovering legacy ones, saving and loading the other objects,
  opening the store again, with any result of any call) and whatever is put into the data directory:
  an old copy of the vault, a vault of the same id that someone else made, a legacy container, a
  journal. Nor is the vault among those that an upgrade of the identity would take over. Not covered
  are the degraded mode, where the anchors are in the data directory; the explicit recovery of the anchors, which takes
  what is on the disk for the newest state, an old copy of a deleted vault included; and what
  follows a new upgrade of the identity.\<close>

theorem deleted_vault_never_reopens:
  assumes "anchor_storage S peek" and "env_secure E = Some S" and "st_backend st = SecureStorage"
    and "codec_ok anchor_typed (ac_object (sc_anchors (env_codecs E)))" and "blake3_lengths (env_lib E)" and "hexlower_spec (env_lib E)"
    and "retire_tombstone E st i oid (s, w) = (Inr (), (s1, w1))"
    and "root_settled (sc_anchors (env_codecs E)) (peek s1 (st_account st))"
    and "(store_step E M st C2)\<^sup>*\<^sup>* (s1, w1) (s2, w2)"
  shows "\<not> is_ok (fst (open_vault E st C2 j oid (s2, w2))) \<and>
    (\<forall>found vaults sw3. open_vaults E st C2 j found (s2, w2) = (Inr vaults, sw3) \<longrightarrow> oid \<notin> fst ` set vaults)"
proof -
  have l: "secure_store S peek E st"
    using assms(1-6) by (simp add: secure_store_def secure_store_axioms_def)
  let ?laid = "\<lambda>s. laid_to_rest (sc_anchors (env_codecs E)) (anchor_view (env_lib E) (sc_anchors (env_codecs E)) st (peek s)) (peek s (st_account st)) oid"
  have "?laid s1" using secure_store.retired_buried [OF l assms(7)] assms(8) by (simp add: laid_to_rest_def)
  then have start: "?laid (fst (s1, w1))" by simp
  from assms(9) have laid: "?laid (fst (s2, w2))"
    by (induction rule: rtranclp_induct) (rule start, rule secure_store.laid_step [OF l])
  then have "\<not> is_ok (fst (open_vault E st C2 j oid (s2, w2)))"
    using secure_store.buried_open [OF l] by (simp add: laid_to_rest_def)
  with secure_store.laid_open_vaults [OF l laid] show ?thesis by blast
qed

lemma ignored_ok: "\<exists>sw'. ignored m sw = (Inr (), sw')"
  by (cases "m sw") (simp add: ignored_def bnd_def attempt_def)

lemma std_exists_ok: "\<exists>b w'. std_exists p w = (Inr b, w')"
  by (cases "(if p = [] then syscall not_found else std_metadata p) w") (simp add: std_exists_def bnd_def attempt_def)

definition demo_migration :: migration_env where
  "demo_migration = \<lparr>me_walk = (\<lambda>_. ret []), me_canonical = (\<lambda>d. CHR ''/'' # d), me_journal = no_codec\<rparr>"

lemma rooted_settled: "root_settled demo_anchors (peek_memory rooted ''/d'')"
  by (simp add: root_settled_def rooted_def peek_memory_def demo_anchors_def from_slice_def ANCHOR_ROOT_VERSION_def ms_new_def)

theorem deleted_vault_never_reopens_witness:
  "\<exists>s1 w1. retire_tombstone demo_env demo_store demo_identity ''v'' (rooted, demo_world) = (Inr (), (s1, w1)) \<and>
     \<not> is_ok (fst (open_vault demo_env demo_store tiny_codecs demo_identity ''v'' (s1, w1\<lparr>fs := [(''d/vaults/v.fsv2'', DirNode)]\<rparr>)))"
proof -
  let ?a = "deleted_vault_anchor demo_lib demo_identity ''v''"
  have env: "env_lib demo_env = demo_lib" "sc_anchors (env_codecs demo_env) = demo_anchors" "env_secure demo_env = Some memory_storage"
    by (simp_all add: demo_env_def demo_store_codecs_def)
  have up: "storage_up rooted" by (simp add: rooted_def ms_new_def)
  have "anchor_typed \<lparr>oa_version = OBJECT_ANCHOR_VERSION, oa_anchor = ?a\<rparr>" "length (sa_object_id ?a) \<le> MAX_ANCHOR_OBJECT_ID"
    by (simp_all add: anchor_typed_def deleted_vault_anchor_def id_fingerprint_def fingerprint_def demo_lib_def MAX_ANCHOR_OBJECT_ID_def)
  from demo.put_anchor_answers [OF demo_storage_answers up _ this, unfolded env] demo_anchors_small obtain s1 where
    p: "put_anchor demo_lib demo_anchors (Some memory_storage) demo_store ?a (rooted, demo_world) = (Inr (), (s1, demo_world))" by blast
  obtain b w1 where x: "std_exists (vault_tombstone demo_store ''v'') demo_world = (Inr b, w1)"
    using std_exists_ok by blast
  have "follow 40 v p = None" if "fs v = []" for v p
    using that by (simp add: eval_nat_numeral fs_get_def)
  then have "\<not> b"
    using x by (simp add: std_exists_def std_metadata_def syscall_def bnd_def attempt_def demo_world_def Let_def not_found_def
        vault_tombstone_def demo_store_def path_join_def)
  obtain s3 w3 where wiped: "ignored (secure_wipe (legacy_vault_tombstone demo_store ''v'')) (s1, w1) = (Inr (), (s3, w3))"
    by (metis ignored_ok prod.collapse)
  have "keeps (\<lambda>s. s = s1) (ignored (secure_wipe (legacy_vault_tombstone demo_store ''v'')))" by (intro keeps_intros keeps_files)
  from keepsD [OF this wiped] have "s3 = s1" by simp
  have root: "root_settled (sc_anchors (env_codecs demo_env)) (peek_memory s3 (st_account demo_store))"
    using demo.put_root [unfolded env, OF p] rooted_settled unfolding env \<open>s3 = s1\<close> by (simp add: demo_store_def)
  from p x \<open>\<not> b\<close> wiped have r: "retire_tombstone demo_env demo_store demo_identity ''v'' (rooted, demo_world) = (Inr (), (s3, w3))"
    by (simp add: retire_tombstone_def env bnd_def core_io_def)
  have "(store_step demo_env demo_migration demo_store tiny_codecs)\<^sup>*\<^sup>* (s3, w3) (s3, w3\<lparr>fs := [(''d/vaults/v.fsv2'', DirNode)]\<rparr>)"
    by (rule r_into_rtranclp) (rule store_step.tampered)
  from deleted_vault_never_reopens [OF memory.anchor_storage_axioms demo.secure(1,2) demo.object_codec demo.hashes demo.hex r root this] r
  show ?thesis by blast
qed

end
