(* ===== verification/Spec2Isabelle.thy ===== *)
theory Spec2Isabelle
  imports Core_State Core_Vault Core_Aead Core_SafeIO Core_Envelope Net_Transport V2_Safety V1_Properties V2_Exported Keys_Properties Keys_Contacts Store_Properties Store_Writers Store_Deletion
begin

text \<open>
  FileSec keeps files in encrypted vaults. A vault at rest is a directory with a sealed manifest and
  one encrypted blob for each file (\<^verbatim>\<open>format_v2.rs\<close>); a vault that is sent to someone is one signed
  and encrypted container (\<^verbatim>\<open>format.rs\<close>), written to a file or streamed over a direct channel
  (\<^verbatim>\<open>transport.rs\<close>). The identity of a user is a set of key pairs, kept in a keystore
  (\<^verbatim>\<open>keystore.rs\<close>); other people's keys are contacts (\<^verbatim>\<open>contacts.rs\<close>). The graphical application
  holds all of them in a local store (\<^verbatim>\<open>store.rs\<close>) that detects when an object is replaced by an
  older copy: every object carries a signed or encrypted state with an epoch and a hash
  (\<^verbatim>\<open>state.rs\<close>), and the last state accepted is its anchor, in the secure storage of the operating
  system (\<^verbatim>\<open>anchors.rs\<close>).

  \<^bold>\<open>How the program is modelled.\<close> The core crate is \<^verbatim>\<open>src/crates/filesec-core/src\<close>, the store is in
  \<^verbatim>\<open>src/crates/filesec-gui/src\<close>. Structs are records, enums are datatypes, machine integers are words
  of their width (a checked or saturating operation of the source is one of the model, and where the
  source adds without a check the word wraps). A \<^verbatim>\<open>String\<close> is the list of its UTF-8 bytes. A
  function that can fail returns a sum with the source's error; one that also has effects is a
  function of its state and returns the result with the state it leaves, on an error too
  (\<open>fallible\<close> in Core_Prelude and Core_World): the state is the world for a free function
  (\<open>io\<close>), the object together with the world for a method on \<^verbatim>\<open>&mut self\<close> (\<open>op\<close>), and the
  secure storage together with the world for the store (\<open>sop\<close>). The world holds the files, a
  generator of random bytes, and an oracle that says which system calls fail, and with what error;
  each theorem with a world in it holds for every such oracle unless it says otherwise. A process
  that dies is one all of whose later calls fail. Readers are lists of segments and failures
  (Core_Stream), so that short reads and read errors are inputs. Loops are recursive functions over
  lists or with a measure; the model has no fuel, except that symbolic links are followed at most
  40 times, as Linux does.

  \<^bold>\<open>What is not read from the source.\<close> Third-party code is a parameter: the cryptographic library is the
  record \<open>lib\<close> of Core_Externals, CBOR is a pair of functions for each type (\<open>codec\<close> of
  Core_Codec), Unicode tables, base64, the OS secure storage (\<open>secure_ops\<close>) and the free space on
  disk are further ones. What a theorem needs of them is a named hypothesis that states documented
  behaviour: that decryption inverts encryption and adds one tag (\<open>aead_correct\<close>), the nonce layout
  of the STREAM construction (\<open>stream_be32\<close>), lengths of digests (\<open>blake3_lengths\<close>), that
  signatures verify (\<open>ed25519_spec\<close>, \<open>mldsa_spec\<close>), that both sides of a key agreement or
  encapsulation agree (\<open>x25519_spec\<close>, \<open>mlkem_spec\<close>), that encodings are read back
  (\<open>codec_ok\<close>, \<open>hexlower_spec\<close>, \<open>base32_spec\<close>, \<open>base64_spec\<close>), that the storage returns what it
  stored (the locale \<open>anchor_storage\<close>). No unforgeability or collision resistance is assumed: the
  integrity theorems are reductions whose conclusion is the expected one or a concrete forgery or
  collision. Each hypothesis holds for a concrete library on which the witnesses evaluate.

  \<^bold>\<open>The theories, in the order of the code.\<close>
  \<^item> Core_Prelude, Core_World, Core_Calm, Core_Stream, Core_Codec, Core_Externals: machine types, errors
    (\<^verbatim>\<open>error.rs\<close>), the result monad and its rewrite rules, self-delimiting encodings (a locale), the
    world and its system calls, frame rules (\<open>preserves\<close>), runs without failures (\<open>runs_to\<close>),
    readers and writers, \<^verbatim>\<open>codec.rs\<close>, \<^verbatim>\<open>secret.rs\<close>.
  \<^item> Core_Suite, Core_State: \<^verbatim>\<open>suite.rs\<close>; states, anchors and what an anchor accepts (\<^verbatim>\<open>state.rs\<close>).
  \<^item> Core_Path, Core_Tree, Core_Vault: path normalization, the abstract tree of entries with the locale
    \<open>tree_editor\<close> that both editors satisfy, the in-memory vault and the gate before an extraction
    (\<^verbatim>\<open>vault.rs\<close>, \<^verbatim>\<open>util.rs\<close>).
  \<^item> Core_Aead, Core_SafeIO: one-shot and chunked encryption (\<^verbatim>\<open>aead.rs\<close>), writes through a temporary file
    that no symbolic link can redirect (\<^verbatim>\<open>safe_io.rs\<close>).
  \<^item> Core_Keys, Core_Envelope: \<^verbatim>\<open>kdf.rs\<close>, \<^verbatim>\<open>kem.rs\<close>, \<^verbatim>\<open>sign.rs\<close>, \<^verbatim>\<open>mlkem.rs\<close>, \<^verbatim>\<open>mldsa.rs\<close>, identities and
    safety numbers (\<^verbatim>\<open>identity.rs\<close>), the wrapping of a content key to a recipient (\<^verbatim>\<open>envelope.rs\<close>).
  \<^item> Net_Transport: the three-message handshake, the cache of used proofs and the record layer
    (\<^verbatim>\<open>transport.rs\<close>).
  \<^item> V2_Manifest, V2_Store, V2_Batch, V2_Commit, V2_Import, then V2_Blobs, V2_Demo, V2_Invariant,
    V2_Safety: the at-rest vault (\<^verbatim>\<open>format_v2.rs\<close>): its manifest and its checks, blobs and reader, the
    batch editor, commits and collection of garbage; then what the blobs hold, the invariant of a
    vault on disk and its properties.
  \<^item> V1_Container, V1_Reader, V1_Roundtrip, V1_Properties: the transport container (\<^verbatim>\<open>format.rs\<close>): writing,
    importing, opening lazily, and their agreement.
  \<^item> Keys_Armor, Keys_Keystore, Keys_Unlock, Keys_Properties, Keys_Contacts: armored text, the keystore
    in its three forms with passphrase, passkeys and device token, the identity backup
    (\<^verbatim>\<open>keystore.rs\<close>), the contact book and its trust decisions (\<^verbatim>\<open>contacts.rs\<close>).
  \<^item> Store_Anchors, Store_Objects, Store_Vaults, Store_Migration, then Store_Rollback, Store_Properties,
    Store_Writers, Store_Deletion: the local store: anchors in either backend and the choice of the backend,
    keystore, contacts, registry and preferences, vaults with their creation, change, deletion and
    reconciliation; the opening of a store, the upgrade of an identity with its journal
    (\<^verbatim>\<open>store/migration.rs\<close>) and the recovery of the anchors from the disk; then what a run of the
    store can and cannot do.

  \<^bold>\<open>What the theorems show.\<close> Vaults: no run of commits and collections loses a file whatever calls fail,
  a commit that fails changes nothing, what is put is what is read, whatever a batch does the result
  can be opened again. Containers: import inverts export for each recipient, the lazy reader accepts
  exactly what the importer accepts, what is imported is well formed, the announced length is exact,
  and writing ends. Encryption: truncated, reordered or foreign chunks are refused or show a forgery;
  each chunk can be read alone. Files: a destination is replaced as a whole or not at all, directories
  are made through no link, extraction meets no existing or aliased file unless a look at the disk
  fails or a path is listed both as file and as directory. A vault at rest with intact blobs arrives
  as it is on a disk that answers if its names are ones the rules for new names let through; with an older
  name it exports and is refused by every recipient. Channel: honest parties
  agree on keys and names, frames arrive in order without omission, a hello without the secret learns
  nothing, no proof is answered twice. Keys: the fingerprint commits to the keys, the keystore opens
  with exactly the credentials it was given, each change is the next state, a backup restores the
  identity. Store, with its anchors in the secure storage: the keystores that are accepted never go
  back, an interrupted save loads, of two writers one is refused, and a deleted vault is never opened
  again as long as no identity upgrade is pending or newly started and nobody asks for the recovery of the
  anchors from the disk, which is there to take an older state for the newest one. The backend of a
  store with a signed keystore is not downgraded silently, unless a call that looks at the data directory
  fails. Some theorems show defects: a rename can leave a vault too deep to open, an unreadable
  anchor file switches the degraded check off, and keys of unchecked length let a forged identity
  replace the keys of a verified contact.

  \<^bold>\<open>What is left out.\<close> Permissions and hardening of modes, hard links, times of files, locks between
  threads and processes (a transaction of the store runs alone, which the locks of the source
  ensure), zeroization of secrets, texts of messages where only their presence matters, the
  formatting of sizes. The graphical interface (\<^verbatim>\<open>app.rs\<close>, \<^verbatim>\<open>theme.rs\<close>), hardware passkeys, the OS
  keychains and sockets (\<^verbatim>\<open>passkey.rs\<close>, \<^verbatim>\<open>autounlock.rs\<close>, \<^verbatim>\<open>net/\<close>) are glue around the modelled
  code or around the operating system.
\<close>

end
